(* ===== verification/Prelude.thy ===== *)
theory Prelude
  imports Main "HOL-Library.Word"
begin

unbundle bit_operations_syntax

text \<open>
  What the components share: the C integer types of the sources as words, the memory
  copy of the buffers (\<open>memcpy\<close> into a fixed array is \<open>blit\<close>), the parity tests on
  powers of two that the ring buffer relies on, and the collections of facts the
  component proofs add to the simplifier.
\<close>

section \<open>Machine types\<close>

text \<open>\<open>unsigned char\<close>, \<open>unsigned short\<close>, \<open>unsigned int\<close> and \<open>uint64_t\<close> of the 32-bit ARM target.\<close>

type_synonym u8 = "8 word"
type_synonym u16 = "16 word"
type_synonym u32 = "32 word"
type_synonym u64 = "64 word"
type_synonym bytes = "u8 list"

named_theorems step_simps \<open>unfolding rules of the components' step functions\<close>
named_theorems wf_intros \<open>introduction rules for the components' invariants\<close>

section \<open>Writing a block into an array\<close>

text \<open>\<open>blit dst off src\<close> is \<open>dst\<close> after \<open>memcpy(dst + off, src, length src)\<close>; the callers
  stay inside the array, where it keeps the length.\<close>

definition blit :: "'a list \<Rightarrow> nat \<Rightarrow> 'a list \<Rightarrow> 'a list" where
  "blit dst off src = take off dst @ src @ drop (off + length src) dst"

lemma length_blit [simp]: "off + length src \<le> length dst \<Longrightarrow> length (blit dst off src) = length dst"
  by (simp add: blit_def)

lemma nth_blit:
  assumes "off + length src \<le> length dst" and "i < length dst"
  shows "blit dst off src ! i = (if off \<le> i \<and> i < off + length src then src ! (i - off) else dst ! i)"
  using assms by (auto simp: blit_def nth_append)

lemma blit_Nil [simp]: "blit dst off [] = dst"
  by (simp add: blit_def)

lemma take_blit [simp]: "n \<le> off \<Longrightarrow> off \<le> length dst \<Longrightarrow> take n (blit dst off src) = take n dst"
  by (simp add: blit_def)

lemma drop_blit [simp]:
  "off \<le> length dst \<Longrightarrow> off + length src \<le> n \<Longrightarrow> drop n (blit dst off src) = drop n dst"
  by (simp add: blit_def)

section \<open>Powers of two\<close>

lemma nat_and_pred_power_of_2: "0 < m \<Longrightarrow> m AND (m - 1) = 0 \<Longrightarrow> \<exists>k. m = 2 ^ k" for m :: nat
proof (induction m rule: less_induct)
  case (less m)
  show ?case
  proof (cases "even m")
    case True
    then obtain q where q: "m = 2 * q" by blast
    with less.prems have "0 < q" by simp
    have "(2 * q) AND (2 * q - 1) = 2 * (q AND (q - 1))"
    proof (rule bit_eqI)
      fix n
      show "bit ((2 * q) AND (2 * q - 1)) n \<longleftrightarrow> bit (2 * (q AND (q - 1))) n"
      proof (cases n)
        case 0
        then show ?thesis by (simp add: bit_0 even_and_iff)
      next
        case (Suc k)
        have "(2 * q - 1) div 2 = q - 1" using \<open>0 < q\<close> by arith
        then have "bit (2 * q - 1) (Suc k) = bit (q - 1) k" by (simp only: bit_Suc)
        then show ?thesis by (simp add: Suc bit_and_iff bit_double_iff del: One_nat_def)
      qed
    qed
    with less.prems q have "q AND (q - 1) = 0" by simp
    with less.IH [of q] \<open>0 < q\<close> q obtain k where "q = 2 ^ k" by auto
    with q have "m = 2 ^ Suc k" by simp
    then show ?thesis by blast
  next
    case False
    then obtain q where q: "m = 2 * q + 1" using oddE by blast
    have "(2 * q + 1) AND (2 * q) = 2 * q"
    proof (rule bit_eqI)
      fix n
      show "bit ((2 * q + 1) AND (2 * q)) n \<longleftrightarrow> bit (2 * q) n"
      proof (cases n)
        case 0
        then show ?thesis by (simp add: bit_0 even_and_iff)
      next
        case (Suc k)
        have "bit (2 * q + 1) (Suc k) = bit q k" by (simp add: bit_Suc)
        then show ?thesis by (simp add: Suc bit_and_iff bit_double_iff del: One_nat_def add_Suc_right)
      qed
    qed
    with less.prems q have "m = 2 ^ 0" by simp
    then show ?thesis by blast
  qed
qed

lemma unat_lt_32: "unat x < 4294967296" for x :: u32
proof -
  have "unat x < 2 ^ LENGTH(32)" by (rule unsigned_less)
  then show ?thesis by simp
qed

lemma sint_nonneg_32:
  fixes x :: u32
  assumes "unat x < 2147483648"
  shows "sint x = int (unat x)"
proof -
  have "uint x < 2147483648" using assms by (simp only: uint_nat)
  moreover have "- 2147483648 \<le> uint x" by (rule order_trans [OF _ uint_ge_0]) simp
  ultimately have "signed_take_bit (LENGTH(32) - Suc 0) (uint x) = uint x"
    by (intro signed_take_bit_int_eq_self) (simp_all only: len_num1 len_bit0 len_bit1, simp_all)
  then show ?thesis by (simp only: sint_uint uint_nat)
qed

lemma unat_and: "unat (x AND y) = unat x AND unat y" for x y :: "'a::len word"
  by (simp add: unsigned_and_eq)

lemma power_of_2_word:
  fixes x :: u32
  assumes "x \<noteq> 0" and "x AND (x - 1) = 0"
  shows "\<exists>k<32. x = 2 ^ k \<and> unat x = 2 ^ k"
proof -
  have pos: "0 < unat x" using assms(1) by (simp add: unat_gt_0)
  have "unat (x - 1) = unat x - 1" using assms(1) by (simp add: unat_minus_one)
  with assms(2) have "unat x AND (unat x - 1) = 0" by (metis unat_0 unat_and)
  with pos obtain k where k: "unat x = 2 ^ k" using nat_and_pred_power_of_2 by blast
  have "unat x < 2 ^ 32" using unat_lt_32 [of x] by simp
  with k have "(2 :: nat) ^ k < 2 ^ 32" by simp
  then have lt: "k < 32" by (rule power_less_imp_less_exp [rotated]) simp
  have "x = of_nat (unat x)" by simp
  also have "\<dots> = 2 ^ k" by (simp add: k)
  finally show ?thesis using lt k by blast
qed

lemma unat_and_pred_power_of_2:
  fixes x :: u32
  assumes "k < 32"
  shows "unat (x AND (2 ^ k - 1)) = unat x mod 2 ^ k"
proof -
  have "x AND (2 ^ k - 1) = take_bit k x"
    by (simp add: take_bit_eq_mask mask_eq_exp_minus_1)
  then have "unat (x AND (2 ^ k - 1)) = take_bit k (unat x)"
    by (simp add: unsigned_take_bit_eq)
  then show ?thesis by (simp add: take_bit_eq_mod)
qed

lemma mod_add_wrap:
  fixes a b :: u32
  assumes "k < 32"
  shows "unat (a + b) mod 2 ^ k = (unat a + unat b) mod 2 ^ k"
proof -
  have "2 ^ k dvd (2 ^ 32 :: nat)" using assms by (intro le_imp_power_dvd) simp
  then show ?thesis by (simp add: unat_word_ariths mod_mod_cancel)
qed

section \<open>Ring indices\<close>

lemma mod_add_unroll:
  fixes p i L :: nat
  assumes "i < L"
  shows "(p + i) mod L = (if p mod L + i < L then p mod L + i else p mod L + i - L)"
proof -
  have "(p + i) mod L = (p mod L + i) mod L" by (simp only: mod_add_left_eq)
  also have "\<dots> = (if p mod L + i < L then p mod L + i else p mod L + i - L)"
  proof (cases "p mod L + i < L")
    case False
    moreover have "p mod L < L" using assms by simp
    ultimately have "p mod L + i - L < L" using assms by linarith
    with False show ?thesis by (simp add: le_mod_geq)
  qed simp
  finally show ?thesis .
qed

lemma mod_add_inj:
  fixes t i j L :: nat
  assumes "i < L" "j < L"
  shows "(t + i) mod L = (t + j) mod L \<longleftrightarrow> i = j"
  using assms mod_less_divisor [of L t] by (simp add: mod_add_unroll) linarith

lemma funpow_8: "(f ^^ 8) x = f (f (f (f (f (f (f (f x)))))))"
  by (simp add: numeral_eq_Suc)

end
