(* ===== verification/MsgQueues.thy ===== *)
theory MsgQueues
  imports Prelude
begin

text \<open>
  The bounded message queues: \<^verbatim>\<open>sockproxy_rxdata.c\<close> and \<^verbatim>\<open>PrvtProt_queue.c\<close> (ten slots with a
  non-empty flag per slot, per receiving object) and \<^verbatim>\<open>at_queue.c\<close> (a ring with one free
  slot). The two flag queues are the same code over their own tables, so both are instances
  of \<open>wr_slot\<close> and \<open>rd_slot\<close>. The locale \<open>msg_queue\<close> is the contract all three share:
  first in, first out, as long as the writer does not write into a full queue.
\<close>

section \<open>The contract\<close>

datatype 'm mq_op = Enq 'm | Deq

fun mq_run :: "('q \<Rightarrow> 'm \<Rightarrow> 'q) \<Rightarrow> ('q \<Rightarrow> 'm option \<times> 'q) \<Rightarrow> 'q \<Rightarrow> 'm mq_op list \<Rightarrow> 'm list \<times> 'q" where
  "mq_run enq deq q [] = ([], q)"
| "mq_run enq deq q (Enq m # ops) = mq_run enq deq (enq q m) ops"
| "mq_run enq deq q (Deq # ops) =
     (case deq q of (r, q') \<Rightarrow> case mq_run enq deq q' ops of (out, q'') \<Rightarrow>
        ((case r of None \<Rightarrow> out | Some m \<Rightarrow> m # out), q''))"

fun enqs :: "'m mq_op list \<Rightarrow> 'm list" where
  "enqs [] = []"
| "enqs (Enq m # ops) = m # enqs ops"
| "enqs (Deq # ops) = enqs ops"

text \<open>How full the queue is along a run: never more than \<open>cap\<close>.\<close>

fun never_full :: "nat \<Rightarrow> nat \<Rightarrow> 'm mq_op list \<Rightarrow> bool" where
  "never_full cap n [] = True"
| "never_full cap n (Enq m # ops) = (n < cap \<and> never_full cap (Suc n) ops)"
| "never_full cap n (Deq # ops) = never_full cap (n - 1) ops"

locale msg_queue =
  fixes enq :: "'q \<Rightarrow> 'm \<Rightarrow> 'q"
    and deq :: "'q \<Rightarrow> 'm option \<times> 'q"
    and content :: "'q \<Rightarrow> 'm list"
    and cap :: nat
    and ok :: "'m \<Rightarrow> bool"
    and inv :: "'q \<Rightarrow> bool"
  assumes enq_law: "inv q \<Longrightarrow> ok m \<Longrightarrow> length (content q) < cap \<Longrightarrow>
      inv (enq q m) \<and> content (enq q m) = content q @ [m]"
    and deq_law: "inv q \<Longrightarrow> deq q = (r, q') \<Longrightarrow>
      inv q' \<and> (case content q of [] \<Rightarrow> r = None \<and> content q' = []
                 | m # ms \<Rightarrow> r = Some m \<and> content q' = ms)"
begin

lemma run_fifo:
  "inv q \<Longrightarrow> (\<forall>m\<in>set (enqs ops). ok m) \<Longrightarrow> never_full cap (length (content q)) ops \<Longrightarrow>
   mq_run enq deq q ops = (out, q') \<Longrightarrow> inv q' \<and> content q @ enqs ops = out @ content q'"
proof (induction ops arbitrary: q out q')
  case Nil
  then show ?case by simp
next
  case (Cons p ops)
  show ?case
  proof (cases p)
    case (Enq m)
    with enq_law [of q m] Cons.prems have 1: "inv (enq q m)" "content (enq q m) = content q @ [m]" by auto
    from Cons.IH [OF 1(1), of out q'] 1(2) Cons.prems Enq show ?thesis by simp
  next
    case Deq
    obtain r q1 where 1: "deq q = (r, q1)" by force
    obtain out1 q2 where 2: "mq_run enq deq q1 ops = (out1, q2)" by force
    from deq_law [OF Cons.prems(1) 1] have q1: "inv q1" "length (content q1) = length (content q) - 1"
      "content q = (case r of None \<Rightarrow> content q1 | Some m \<Rightarrow> m # content q1)"
      by (auto split: list.splits)
    from Cons.IH [OF q1(1) _ _ 2] q1(2) Cons.prems Deq
    have "inv q2 \<and> content q1 @ enqs ops = out1 @ content q2" by simp
    with q1(3) Cons.prems(4) Deq 1 2 show ?thesis by (auto split: option.splits)
  qed
qed

lemma run_out_prefix:
  assumes "inv q" "content q = []" "\<forall>m\<in>set (enqs ops). ok m" "never_full cap 0 ops"
    and "mq_run enq deq q ops = (out, q')"
  shows "out = take (length out) (enqs ops) \<and> content q' = drop (length out) (enqs ops)"
proof -
  from run_fifo [OF assms(1,3) _ assms(5)] assms(2,4) have "enqs ops = out @ content q'" by simp
  then show ?thesis by simp
qed

end

section \<open>The flag queues\<close>

text \<open>\<^verbatim>\<open>sockProxyCache_t\<close>/\<^verbatim>\<open>PPCache_t\<close> and \<^verbatim>\<open>sockProxyObj_t\<close>/\<^verbatim>\<open>PPObj_t\<close> are the same structs.
  The labels stay below ten.\<close>

record slot =
  NonEmptyFlg :: bool
  slot_len :: int
  slot_data :: bytes

record slot_queue =
  HeadLabel :: nat
  TialLabel :: nat
  Cache :: "slot list"

definition SP_DATA_LNG :: nat where "SP_DATA_LNG = 1456"
definition SP_QUEUE_LNG :: nat where "SP_QUEUE_LNG = 10"

text \<open>The bound check compares the signed \<open>len\<close> with an unsigned constant, so a negative length is
  as rejected as a long one. There is no check that the slot is free.\<close>

definition wr_slot :: "slot_queue \<Rightarrow> bytes \<Rightarrow> int \<Rightarrow> int \<times> slot_queue" where
  "wr_slot q data len =
     (if (word_of_int len :: u32) > of_nat SP_DATA_LNG then (-1, q)
      else let s = Cache q ! HeadLabel q;
               s = s\<lparr>slot_data := blit (slot_data s) 0 (take (nat len) data), slot_len := len, NonEmptyFlg := True\<rparr>;
               h = HeadLabel q + 1
           in (0, q\<lparr>Cache := (Cache q)[HeadLabel q := s],
                   HeadLabel := (if SP_QUEUE_LNG = h then 0 else h)\<rparr>))"

definition rd_slot :: "slot_queue \<Rightarrow> bytes \<Rightarrow> int \<Rightarrow> int \<times> slot_queue \<times> bytes" where
  "rd_slot q data len =
     (let s = Cache q ! TialLabel q
      in if \<not> NonEmptyFlg s then (0, q, data)
         else if slot_len s > len then (-1, q, data)
         else let t = TialLabel q + 1
              in (slot_len s,
                  q\<lparr>Cache := (Cache q)[TialLabel q := s\<lparr>NonEmptyFlg := False\<rparr>],
                    TialLabel := (if SP_QUEUE_LNG = t then 0 else t)\<rparr>,
                  blit data 0 (take (nat (slot_len s)) (slot_data s))))"

definition clr_slots :: "slot_queue \<Rightarrow> slot_queue" where
  "clr_slots q = q\<lparr>Cache := map (\<lambda>s. s\<lparr>NonEmptyFlg := False\<rparr>) (take SP_QUEUE_LNG (Cache q)),
                   HeadLabel := 0, TialLabel := 0\<rparr>"

text \<open>The tables of the two files: one queue per receiving object (\<open>SP_MAX\<close> is 2, \<open>PP_MAX\<close> is 7).\<close>

definition WrSockproxyData_Queue :: "slot_queue list \<Rightarrow> nat \<Rightarrow> bytes \<Rightarrow> int \<Rightarrow> int \<times> slot_queue list" where
  "WrSockproxyData_Queue SPObj obj data len =
     (case wr_slot (SPObj ! obj) data len of (r, q) \<Rightarrow> (r, SPObj[obj := q]))"

definition RdSockproxyData_Queue ::
  "slot_queue list \<Rightarrow> nat \<Rightarrow> bytes \<Rightarrow> int \<Rightarrow> int \<times> slot_queue list \<times> bytes" where
  "RdSockproxyData_Queue SPObj obj data len =
     (case rd_slot (SPObj ! obj) data len of (r, q, d) \<Rightarrow> (r, SPObj[obj := q], d))"

definition SockproxyData_Init :: "slot_queue list \<Rightarrow> slot_queue list" where
  "SockproxyData_Init SPObj = map clr_slots SPObj"

definition WrPP_queue :: "slot_queue list \<Rightarrow> nat \<Rightarrow> bytes \<Rightarrow> int \<Rightarrow> int \<times> slot_queue list" where
  "WrPP_queue PPObj obj data len =
     (case wr_slot (PPObj ! obj) data len of (r, q) \<Rightarrow> (r, PPObj[obj := q]))"

definition RdPP_queue ::
  "slot_queue list \<Rightarrow> nat \<Rightarrow> bytes \<Rightarrow> int \<Rightarrow> int \<times> slot_queue list \<times> bytes" where
  "RdPP_queue PPObj obj data len =
     (case rd_slot (PPObj ! obj) data len of (r, q, d) \<Rightarrow> (r, PPObj[obj := q], d))"

definition PP_queue_Init :: "slot_queue list \<Rightarrow> slot_queue list" where
  "PP_queue_Init PPObj = map clr_slots PPObj"

section \<open>The abstraction of a flag queue\<close>

definition slot_msg :: "slot \<Rightarrow> bytes" where
  "slot_msg s = take (nat (slot_len s)) (slot_data s)"

definition slot_at :: "slot_queue \<Rightarrow> nat \<Rightarrow> slot" where
  "slot_at q i = Cache q ! ((TialLabel q + i) mod 10)"

definition sq_content :: "slot_queue \<Rightarrow> bytes list" where
  "sq_content q = map slot_msg (takeWhile NonEmptyFlg (map (slot_at q) [0..<10]))"

definition slot_ok :: "slot \<Rightarrow> bool" where
  "slot_ok s \<longleftrightarrow> length (slot_data s) = 1456 \<and> (NonEmptyFlg s \<longrightarrow> 0 < slot_len s \<and> slot_len s \<le> 1456)"

definition sq_filled :: "slot_queue \<Rightarrow> nat \<Rightarrow> bool" where
  "sq_filled q n \<longleftrightarrow> n \<le> 10 \<and> length (Cache q) = 10 \<and> TialLabel q < 10 \<and> HeadLabel q = (TialLabel q + n) mod 10
     \<and> (\<forall>s\<in>set (Cache q). slot_ok s) \<and> (\<forall>i<10. NonEmptyFlg (slot_at q i) = (i < n))"

definition sq_inv :: "slot_queue \<Rightarrow> bool" where
  "sq_inv q \<longleftrightarrow> (\<exists>n\<le>10. sq_filled q n)"

definition msg_ok :: "bytes \<Rightarrow> bool" where
  "msg_ok m \<longleftrightarrow> 0 < length m \<and> length m \<le> 1456"

lemma takeWhile_upt:
  assumes "n \<le> k" and "\<And>i. i < k \<Longrightarrow> P (f i) = (i < n)"
  shows "takeWhile P (map f [0..<k]) = map f [0..<n]"
proof (cases "n = k")
  case True
  with assms(2) show ?thesis by (simp add: takeWhile_eq_all_conv)
next
  case False
  with assms(1) have "map f [0..<k] = map f [0..<n] @ f n # map f [Suc n..<k]"
    using upt_add_eq_append [of 0 n "k - n"] by (simp add: upt_conv_Cons)
  moreover have "takeWhile P (map f [0..<n] @ f n # map f [Suc n..<k]) = map f [0..<n]"
    using assms False by (subst takeWhile_append2) auto
  ultimately show ?thesis by simp
qed

lemma sq_content_filled:
  assumes "sq_filled q n"
  shows "sq_content q = map (\<lambda>i. slot_msg (slot_at q i)) [0..<n]"
proof -
  have "takeWhile NonEmptyFlg (map (slot_at q) [0..<10]) = map (slot_at q) [0..<n]"
    using assms by (intro takeWhile_upt) (auto simp: sq_filled_def)
  then show ?thesis by (simp add: sq_content_def)
qed

text \<open>The index that follows in a ring of ten.\<close>

lemma label_next: "i < 10 \<Longrightarrow> (if SP_QUEUE_LNG = i + 1 then 0 else i + 1) = (i + 1) mod 10"
  by (auto simp: SP_QUEUE_LNG_def)

lemma wr_slot_ok:
  assumes "length m \<le> 1456"
  shows "wr_slot q m (int (length m)) =
    (let s = Cache q ! HeadLabel q;
         s = s\<lparr>slot_data := blit (slot_data s) 0 m, slot_len := int (length m), NonEmptyFlg := True\<rparr>
     in (0, q\<lparr>Cache := (Cache q)[HeadLabel q := s],
             HeadLabel := (if SP_QUEUE_LNG = HeadLabel q + 1 then 0 else HeadLabel q + 1)\<rparr>))"
proof -
  have "unat (word_of_int (int (length m)) :: u32) = length m"
    using assms by (simp add: unat_of_nat)
  then have "\<not> of_nat SP_DATA_LNG < (word_of_int (int (length m)) :: u32)"
    using assms by (simp add: word_less_nat_alt SP_DATA_LNG_def)
  then show ?thesis by (simp add: wr_slot_def Let_def)
qed

text \<open>A write into slot \<open>n\<close> after the tail: what it does to the ten slots seen from the tail.\<close>

lemma wr_slot_view:
  assumes q: "sq_filled q n" and m: "msg_ok m" and q': "wr_slot q m (int (length m)) = (r, q')"
  shows "r = 0" and "TialLabel q' = TialLabel q" and "HeadLabel q' = (HeadLabel q + 1) mod 10"
    and "length (Cache q') = 10" and "\<forall>s\<in>set (Cache q'). slot_ok s"
    and "i < 10 \<Longrightarrow> i \<noteq> n mod 10 \<Longrightarrow> slot_at q' i = slot_at q i"
    and "NonEmptyFlg (slot_at q' (n mod 10))" and "slot_msg (slot_at q' (n mod 10)) = m"
proof -
  let ?s = "Cache q ! HeadLabel q"
  let ?s' = "?s\<lparr>slot_data := blit (slot_data ?s) 0 m, slot_len := int (length m), NonEmptyFlg := True\<rparr>"
  have len: "length m \<le> 1456" "0 < length m" using m by (auto simp: msg_ok_def)
  have h: "HeadLabel q < 10" "HeadLabel q = (TialLabel q + n mod 10) mod 10"
    and l: "length (Cache q) = 10" and ok: "\<forall>s\<in>set (Cache q). slot_ok s"
    using q by (auto simp: sq_filled_def mod_add_right_eq)
  have eq: "r = 0 \<and> q' = q\<lparr>Cache := (Cache q)[HeadLabel q := ?s'], HeadLabel := (HeadLabel q + 1) mod 10\<rparr>"
    using q' label_next [OF h(1)] by (simp add: wr_slot_ok [OF len(1)] Let_def)
  have ls: "length (slot_data ?s) = 1456" using ok h(1) l by (simp add: slot_ok_def)
  then have ok': "slot_ok ?s'" using len by (simp add: slot_ok_def)
  show "r = 0" "TialLabel q' = TialLabel q" "HeadLabel q' = (HeadLabel q + 1) mod 10" "length (Cache q') = 10"
    using eq l by simp_all
  show "\<forall>s\<in>set (Cache q'). slot_ok s"
    using eq ok ok' set_update_subset_insert [of "Cache q"] by auto
  have at: "slot_at q' i = (if i = n mod 10 then ?s' else slot_at q i)" if "i < 10" for i
  proof -
    have "HeadLabel q = (TialLabel q + i) mod 10 \<longleftrightarrow> i = n mod 10"
      using h(2) mod_add_inj [OF that, of "n mod 10" "TialLabel q"] by auto
    then show ?thesis using eq h(1) l by (auto simp: slot_at_def)
  qed
  show "i < 10 \<Longrightarrow> i \<noteq> n mod 10 \<Longrightarrow> slot_at q' i = slot_at q i" by (simp add: at)
  show "NonEmptyFlg (slot_at q' (n mod 10))" "slot_msg (slot_at q' (n mod 10)) = m"
    using ls len by (simp_all add: at slot_msg_def blit_def)
qed

lemma wr_slot_law:
  assumes q: "sq_filled q n" and n: "n < 10" and m: "msg_ok m"
    and q': "wr_slot q m (int (length m)) = (r, q')"
  shows "r = 0 \<and> sq_filled q' (Suc n) \<and> sq_content q' = sq_content q @ [m]"
proof -
  note v = wr_slot_view [OF q m q']
  have nm: "n mod 10 = n" using n by simp
  have "NonEmptyFlg (slot_at q' i) = (i < Suc n)" if "i < 10" for i
    using v(6) [of i] v(7) that q nm by (cases "i = n") (auto simp: sq_filled_def)
  then have f: "sq_filled q' (Suc n)"
    using v(2-5) q n by (auto simp: sq_filled_def mod_Suc_eq)
  have "map (\<lambda>i. slot_msg (slot_at q' i)) [0..<n] = map (\<lambda>i. slot_msg (slot_at q i)) [0..<n]"
    using v(6) n by auto
  then show ?thesis using v(1,8) f nm by (simp add: sq_content_filled [OF f] sq_content_filled [OF q])
qed

text \<open>With all ten slots unread, the write replaces the oldest message and leaves the newest in its place.\<close>

lemma wr_slot_full:
  assumes q: "sq_filled q 10" and m: "msg_ok m" and q': "wr_slot q m (int (length m)) = (r, q')"
  shows "r = 0 \<and> sq_content q' = m # tl (sq_content q)"
proof -
  note v = wr_slot_view [OF q m q', simplified]
  have flags: "NonEmptyFlg (slot_at q' i)" if "i < 10" for i
    using v(6) [of i] v(7) that q by (cases "i = 0") (auto simp: sq_filled_def)
  then have c: "sq_content q' = map (\<lambda>i. slot_msg (slot_at q' i)) [0..<10]"
    unfolding sq_content_def by (subst takeWhile_upt [of 10]) auto
  have "map (\<lambda>i. slot_msg (slot_at q' i)) [1..<10] = map (\<lambda>i. slot_msg (slot_at q i)) [1..<10]"
    using v(6) by auto
  moreover have "[0..<10] = 0 # [1..<10]" by (simp add: upt_rec)
  ultimately show ?thesis using v(1,8) c by (simp add: sq_content_filled [OF q])
qed

lemma rd_slot_empty:
  assumes "sq_filled q 0"
  shows "rd_slot q d n = (0, q, d)"
proof -
  have "\<not> NonEmptyFlg (slot_at q 0)" using assms by (simp add: sq_filled_def)
  moreover have "slot_at q 0 = Cache q ! TialLabel q" using assms by (simp add: slot_at_def sq_filled_def)
  ultimately show ?thesis by (simp add: rd_slot_def)
qed

lemma rd_slot_law:
  assumes q: "sq_filled q (Suc n)" and d: "length d = 1456"
  shows "\<exists>q'. rd_slot q d 1456 =
      (int (length (hd (sq_content q))), q', hd (sq_content q) @ drop (length (hd (sq_content q))) d)
    \<and> 0 < length (hd (sq_content q)) \<and> sq_filled q' n \<and> sq_content q' = tl (sq_content q)"
proof -
  let ?s = "Cache q ! TialLabel q" and ?t = "TialLabel q"
  let ?q = "q\<lparr>Cache := (Cache q)[?t := ?s\<lparr>NonEmptyFlg := False\<rparr>], TialLabel := (?t + 1) mod 10\<rparr>"
  have t: "?t < 10" and l: "length (Cache q) = 10" and ok: "\<forall>s\<in>set (Cache q). slot_ok s" and n: "n < 10"
    using q by (auto simp: sq_filled_def)
  have s0: "slot_at q 0 = ?s" using t by (simp add: slot_at_def)
  have ne: "NonEmptyFlg ?s" using q unfolding s0 [symmetric] by (simp add: sq_filled_def)
  have sok: "slot_ok ?s" using ok t l by simp
  have c: "sq_content q = slot_msg ?s # map (\<lambda>i. slot_msg (slot_at q (Suc i))) [0..<n]"
    by (simp add: sq_content_filled [OF q] s0 map_upt_Suc del: upt_Suc)
  have lm: "int (length (slot_msg ?s)) = slot_len ?s" "0 < length (slot_msg ?s)"
    using ne sok by (auto simp: slot_msg_def slot_ok_def)
  have rd: "rd_slot q d 1456 = (slot_len ?s, ?q, slot_msg ?s @ drop (length (slot_msg ?s)) d)"
    using ne sok label_next [OF t]
    by (auto simp: rd_slot_def Let_def slot_ok_def slot_msg_def blit_def)
  have at: "slot_at ?q i = (if i = 9 then ?s\<lparr>NonEmptyFlg := False\<rparr> else slot_at q (Suc i))" if "i < 10" for i
  proof -
    have "(?t + Suc i) mod 10 = ?t \<longleftrightarrow> i = 9" 
    proof (cases "i = 9")
      case False
      with that t mod_add_inj [of "Suc i" 10 0 ?t] show ?thesis by simp
    qed (use t in simp)
    moreover have "((?t + 1) mod 10 + i) mod 10 = (?t + Suc i) mod 10" by (simp add: mod_add_left_eq)
    ultimately show ?thesis using t l by (auto simp: slot_at_def nth_list_update)
  qed
  have flg: "NonEmptyFlg (slot_at q i) = (i < Suc n)" if "i < 10" for i using q that by (simp add: sq_filled_def)
  have "NonEmptyFlg (slot_at ?q i) = (i < n)" if "i < 10" for i
    using flg [of "Suc i"] n that unfolding at [OF that] by (cases "i = 9") auto
  moreover have "slot_ok (?s\<lparr>NonEmptyFlg := False\<rparr>)" using sok by (simp add: slot_ok_def)
  then have "\<forall>s\<in>set (Cache ?q). slot_ok s" using ok set_update_subset_insert [of "Cache q"] by auto
  ultimately have f: "sq_filled ?q n"
    using q l n by (simp add: sq_filled_def mod_add_left_eq)
  have "sq_content ?q = tl (sq_content q)" unfolding sq_content_filled [OF f] c using at n by auto
  then show ?thesis using rd f lm c by (intro exI [of _ ?q]) simp
qed

text \<open>The flag queue in the shape of the contract: messages of 1 to 1456 bytes, read with a full buffer.\<close>

definition sq_enq :: "slot_queue \<Rightarrow> bytes \<Rightarrow> slot_queue" where
  "sq_enq q m = snd (wr_slot q m (int (length m)))"

definition sq_deq :: "slot_queue \<Rightarrow> bytes option \<times> slot_queue" where
  "sq_deq q = (case rd_slot q (replicate 1456 0) 1456 of
     (n, q', d) \<Rightarrow> (if n \<le> 0 then None else Some (take (nat n) d), q'))"

lemma sq_filled_content: "sq_filled q n \<Longrightarrow> length (sq_content q) = n"
  by (simp add: sq_content_filled)

lemma sq_deq_law:
  assumes "sq_inv q" and "sq_deq q = (r, q')"
  shows "sq_inv q' \<and> (case sq_content q of [] \<Rightarrow> r = None \<and> sq_content q' = []
                      | m # ms \<Rightarrow> r = Some m \<and> sq_content q' = ms)"
proof -
  from assms(1) obtain n where n: "n \<le> 10" "sq_filled q n" by (auto simp: sq_inv_def)
  show ?thesis
  proof (cases n)
    case 0
    with n(2) have "rd_slot q (replicate 1456 0) 1456 = (0, q, replicate 1456 0)"
      by (intro rd_slot_empty) simp
    moreover have "sq_content q = []" using sq_filled_content [OF n(2)] 0 by simp
    ultimately show ?thesis using assms by (simp add: sq_deq_def)
  next
    case (Suc k)
    from rd_slot_law [of q k "replicate 1456 0"] n(2) Suc obtain q1 where
      rd: "rd_slot q (replicate 1456 0) 1456 = (int (length (hd (sq_content q))), q1,
             hd (sq_content q) @ drop (length (hd (sq_content q))) (replicate 1456 0))"
      and pos: "0 < length (hd (sq_content q))"
      and q1: "sq_filled q1 k" "sq_content q1 = tl (sq_content q)" by auto
    have "sq_content q \<noteq> []" using sq_filled_content [OF n(2)] Suc by auto
    moreover have "r = Some (hd (sq_content q)) \<and> q' = q1"
      using assms(2) pos by (simp add: sq_deq_def rd)
    moreover have "sq_inv q1" using q1(1) n(1) Suc by (auto simp: sq_inv_def intro: exI [of _ k])
    ultimately show ?thesis using q1(2) by (cases "sq_content q") auto
  qed
qed

interpretation flag_queue: msg_queue sq_enq sq_deq sq_content 10 msg_ok sq_inv
proof (unfold_locales, goal_cases)
  case (1 q m)
  then obtain n where n: "sq_filled q n" "n < 10" using sq_filled_content by (auto simp: sq_inv_def)
  obtain r q' where w: "wr_slot q m (int (length m)) = (r, q')" by force
  from wr_slot_law [OF n 1(2) w] n(2) show ?case by (auto simp: sq_enq_def w sq_inv_def intro: exI [of _ "Suc n"])
next
  case (2 q r q')
  then show ?case by (rule sq_deq_law)
qed

lemma clr_slots_filled:
  assumes "length (Cache q) = 10" and "\<forall>s\<in>set (Cache q). length (slot_data s) = 1456"
  shows "sq_filled (clr_slots q) 0"
  using assms by (auto simp: sq_filled_def clr_slots_def SP_QUEUE_LNG_def slot_ok_def slot_at_def)

section \<open>The AT command queue\<close>

text \<open>\<^verbatim>\<open>AT_CMD_T\<close> and \<^verbatim>\<open>AT_QUEUE\<close>; \<open>at_enqueue\<close> and \<open>at_dequeue\<close> copy \<open>len\<close> bytes of the string and
  trust that it fits in \<open>AT_CMD_SIZE_MAX = 100\<close>. A \<open>NULL\<close> pointer is \<open>None\<close>.\<close>

record at_cmd =
  at_id :: nat
  at_len :: u32
  at_str :: bytes

record at_queue =
  at_head :: nat
  at_tail :: nat
  at_cmds :: "at_cmd list"

definition AT_CMD_QUEUE_NUM :: nat where "AT_CMD_QUEUE_NUM = 10"

definition at_init_queue :: "at_queue option \<Rightarrow> at_queue option" where
  "at_init_queue q = map_option (\<lambda>q. q\<lparr>at_head := 0, at_tail := 0,
     at_cmds := replicate AT_CMD_QUEUE_NUM \<lparr>at_id = 0, at_len = 0, at_str = replicate 100 0\<rparr>\<rparr>) q"

definition at_is_empty :: "at_queue option \<Rightarrow> bool" where
  "at_is_empty q = (case q of None \<Rightarrow> False | Some q \<Rightarrow> at_head q = at_tail q)"

definition at_is_full :: "at_queue option \<Rightarrow> bool" where
  "at_is_full q = (case q of None \<Rightarrow> False | Some q \<Rightarrow> at_head q = (at_tail q + 1) mod AT_CMD_QUEUE_NUM)"

definition at_enqueue :: "at_queue option \<Rightarrow> at_cmd option \<Rightarrow> bool \<times> at_queue option" where
  "at_enqueue qo ato =
     (case (qo, ato) of
        (Some q, Some at) \<Rightarrow>
          (if at_is_full (Some q) then (False, qo)
           else let c = at_cmds q ! at_tail q;
                    c = c\<lparr>at_id := at_id at, at_len := at_len at,
                          at_str := blit (at_str c) 0 (take (unat (at_len at)) (at_str at))\<rparr>
                in (True, Some (q\<lparr>at_cmds := (at_cmds q)[at_tail q := c],
                                  at_tail := (at_tail q + 1) mod AT_CMD_QUEUE_NUM\<rparr>)))
      | _ \<Rightarrow> (False, qo))"

definition at_dequeue :: "at_queue option \<Rightarrow> at_cmd option \<Rightarrow> bool \<times> at_queue option \<times> at_cmd option" where
  "at_dequeue qo ato =
     (case (qo, ato) of
        (Some q, Some at) \<Rightarrow>
          (if at_is_empty (Some q) then (False, qo, ato)
           else let c = at_cmds q ! at_head q
                in (True, Some (q\<lparr>at_head := (at_head q + 1) mod AT_CMD_QUEUE_NUM\<rparr>),
                    Some (at\<lparr>at_id := at_id c, at_len := at_len c,
                             at_str := blit (at_str at) 0 (take (unat (at_len c)) (at_str c))\<rparr>)))
      | _ \<Rightarrow> (False, qo, ato))"

definition at_clear_queue :: "at_queue option \<Rightarrow> at_queue option" where
  "at_clear_queue q = at_init_queue q"

definition at_queue_get_len :: "at_queue option \<Rightarrow> nat" where
  "at_queue_get_len qo = (case qo of None \<Rightarrow> 0
     | Some q \<Rightarrow> if at_tail q \<ge> at_head q then at_tail q - at_head q
               else at_tail q + AT_CMD_QUEUE_NUM - at_head q)"

section \<open>The abstraction of the AT queue\<close>

definition at_msg :: "at_cmd \<Rightarrow> nat \<times> bytes" where
  "at_msg c = (at_id c, take (unat (at_len c)) (at_str c))"

definition at_count :: "at_queue \<Rightarrow> nat" where
  "at_count q = (at_tail q + 10 - at_head q) mod 10"

definition at_at :: "at_queue \<Rightarrow> nat \<Rightarrow> at_cmd" where
  "at_at q i = at_cmds q ! ((at_head q + i) mod 10)"

definition at_content :: "at_queue \<Rightarrow> (nat \<times> bytes) list" where
  "at_content q = map (\<lambda>i. at_msg (at_at q i)) [0..<at_count q]"

definition at_inv :: "at_queue \<Rightarrow> bool" where
  "at_inv q \<longleftrightarrow> at_head q < 10 \<and> at_tail q < 10 \<and> length (at_cmds q) = 10
     \<and> (\<forall>c\<in>set (at_cmds q). length (at_str c) = 100 \<and> unat (at_len c) \<le> 100)"

definition at_mk :: "nat \<times> bytes \<Rightarrow> at_cmd" where
  "at_mk m = \<lparr>at_id = fst m, at_len = of_nat (length (snd m)), at_str = blit (replicate 100 0) 0 (snd m)\<rparr>"

definition at_enq :: "at_queue \<Rightarrow> nat \<times> bytes \<Rightarrow> at_queue" where
  "at_enq q m = the (snd (at_enqueue (Some q) (Some (at_mk m))))"

definition at_deq :: "at_queue \<Rightarrow> (nat \<times> bytes) option \<times> at_queue" where
  "at_deq q = (case at_dequeue (Some q) (Some (at_mk (0, []))) of
     (ok, q', c) \<Rightarrow> (if ok then map_option at_msg c else None, the q'))"

lemma at_count_cases:
  assumes "at_inv q"
  shows "at_count q < 10" and "at_tail q = (at_head q + at_count q) mod 10"
    and "at_is_empty (Some q) \<longleftrightarrow> at_count q = 0" and "at_is_full (Some q) \<longleftrightarrow> at_count q = 9"
    and "at_queue_get_len (Some q) = at_count q"
proof -
  have b: "at_head q < 10" "at_tail q < 10" using assms by (simp_all add: at_inv_def)
  then have c: "at_count q = (if at_head q \<le> at_tail q then at_tail q - at_head q else at_tail q + 10 - at_head q)"
    by (auto simp: at_count_def mod_if)
  show "at_count q < 10" by (simp add: at_count_def)
  show "at_tail q = (at_head q + at_count q) mod 10"
    using b by (simp add: c mod_if)
  show "at_is_empty (Some q) \<longleftrightarrow> at_count q = 0" using b by (auto simp: at_is_empty_def c)
  show "at_is_full (Some q) \<longleftrightarrow> at_count q = 9"
    using b by (auto simp: at_is_full_def c AT_CMD_QUEUE_NUM_def mod_if)
  show "at_queue_get_len (Some q) = at_count q" by (simp add: at_queue_get_len_def c AT_CMD_QUEUE_NUM_def)
qed

lemma at_enqueue_law:
  assumes q: "at_inv q" and m: "length (snd m) \<le> 100" and n: "at_count q < 9"
  shows "at_inv (at_enq q m) \<and> at_content (at_enq q m) = at_content q @ [m]"
proof -
  note c = at_count_cases [OF q]
  let ?s = "at_cmds q ! at_tail q"
  let ?s' = "?s\<lparr>at_id := fst m, at_len := of_nat (length (snd m)), at_str := blit (at_str ?s) 0 (snd m)\<rparr>"
  let ?q = "q\<lparr>at_cmds := (at_cmds q)[at_tail q := ?s'], at_tail := Suc (at_tail q) mod 10\<rparr>"
  have b: "at_head q < 10" "at_tail q < 10" "length (at_cmds q) = 10" using q by (simp_all add: at_inv_def)
  have ul: "unat (of_nat (length (snd m)) :: u32) = length (snd m)" using m by (simp add: unat_of_nat)
  have tk: "take (length (snd m)) (blit (replicate 100 0) 0 (snd m)) = snd m" using m by (simp add: blit_def)
  have eq: "at_enq q m = ?q"
    using c(4) n by (simp add: at_enq_def at_enqueue_def at_mk_def Let_def ul tk AT_CMD_QUEUE_NUM_def)
  have ls: "length (at_str ?s) = 100" using q b by (simp add: at_inv_def)
  have inv: "at_inv ?q"
    using q b ls m ul set_update_subset_insert [of "at_cmds q" "at_tail q" ?s'] by (auto simp: at_inv_def)
  have cnt: "at_count ?q = Suc (at_count q)"
  proof -
    have "(at_head q + at_count ?q) mod 10 = (at_head q + Suc (at_count q)) mod 10"
      using at_count_cases(2) [OF inv] c(2) by (simp add: mod_Suc_eq)
    moreover have "Suc (at_count q) < 10" using n by simp
    ultimately show ?thesis using mod_add_inj at_count_cases(1) [OF inv] by blast
  qed
  have at: "at_at ?q i = (if i = at_count q then ?s' else at_at q i)" if "i < 10" for i
  proof -
    have "at_tail q = (at_head q + i) mod 10 \<longleftrightarrow> i = at_count q"
      using c(2) mod_add_inj [OF that c(1), of "at_head q"] by auto
    then show ?thesis using b by (auto simp: at_at_def)
  qed
  have "at_msg ?s' = m" using ul ls m by (simp add: at_msg_def blit_def)
  then have "at_content ?q = at_content q @ [m]"
    using c(1) by (simp add: at_content_def cnt at)
  with inv eq show ?thesis by simp
qed

lemma at_dequeue_law:
  assumes q: "at_inv q"
  shows "at_inv (snd (at_deq q)) \<and> (case at_content q of
      [] \<Rightarrow> fst (at_deq q) = None \<and> at_content (snd (at_deq q)) = []
    | m # ms \<Rightarrow> fst (at_deq q) = Some m \<and> at_content (snd (at_deq q)) = ms)"
proof (cases "at_count q")
  case 0
  then show ?thesis using q at_count_cases(3) [OF q] by (simp add: at_deq_def at_dequeue_def at_mk_def at_content_def)
next
  case (Suc n)
  let ?q = "q\<lparr>at_head := (at_head q + 1) mod 10\<rparr>"
  let ?c = "at_cmds q ! at_head q"
  note c = at_count_cases [OF q]
  have b: "at_head q < 10" "length (at_cmds q) = 10" using q by (simp_all add: at_inv_def)
  then have lc: "length (at_str ?c) = 100" "unat (at_len ?c) \<le> 100" using q by (simp_all add: at_inv_def)
  have inv: "at_inv ?q" using q by (simp add: at_inv_def)
  have eq: "at_deq q = (Some (at_msg ?c), ?q)"
    using c(3) Suc lc by (simp add: at_deq_def at_dequeue_def at_mk_def at_msg_def blit_def AT_CMD_QUEUE_NUM_def Let_def)
  have "at_count ?q = n"
  proof -
    have "(at_head q + Suc (at_count ?q)) mod 10 = (at_head q + Suc n) mod 10"
      using at_count_cases(2) [OF inv] c(2) Suc by (simp add: mod_add_left_eq)
    moreover have "at_count ?q \<noteq> 9"
      using at_count_cases(4) [OF inv] c(3) Suc b at_count_cases(2) [OF inv]
      by (auto simp: at_is_empty_def mod_add_left_eq)
    ultimately show ?thesis using mod_add_inj [of "Suc (at_count ?q)" 10 "Suc n" "at_head q"] Suc c(1)
      at_count_cases(1) [OF inv] by simp
  qed
  moreover have "at_at ?q i = at_at q (Suc i)" for i by (simp add: at_at_def mod_add_left_eq)
  moreover have "at_at q 0 = ?c" using b by (simp add: at_at_def)
  ultimately show ?thesis using inv eq Suc by (simp add: at_content_def map_upt_Suc del: upt_Suc)
qed

interpretation at_fifo: msg_queue at_enq at_deq at_content 9 "\<lambda>m. length (snd m) \<le> 100" at_inv
proof (unfold_locales, goal_cases)
  case (1 q m)
  then show ?case by (intro at_enqueue_law) (simp_all add: at_content_def)
next
  case (2 q r q')
  then show ?case using at_dequeue_law [of q] by (cases "at_content q") simp_all
qed

lemma at_enqueue_full:
  assumes "at_inv q" and "at_count q = 9"
  shows "at_enqueue (Some q) (Some c) = (False, Some q)"
  using at_count_cases(4) [OF assms(1)] assms(2) by (simp add: at_enqueue_def)

section \<open>Properties\<close>

definition demo_sq :: slot_queue where
  "demo_sq = \<lparr>HeadLabel = 0, TialLabel = 0,
     Cache = replicate 10 \<lparr>NonEmptyFlg = False, slot_len = 0, slot_data = replicate 1456 0\<rparr>\<rparr>"

lemma demo_sq_filled: "sq_filled demo_sq 0"
  by (simp add: sq_filled_def demo_sq_def slot_ok_def slot_at_def)

text \<open>As long as the writer never writes into a full queue, the flag queues deliver messages of 1 to
  1456 bytes first in, first out, and lose none.\<close>

lemma flag_queue_is_fifo:
  assumes "sq_inv q" "\<forall>m\<in>set (enqs ops). msg_ok m" "never_full 10 (length (sq_content q)) ops"
    and "mq_run sq_enq sq_deq q ops = (out, q')"
  shows "sq_content q @ enqs ops = out @ sq_content q' \<and> sq_inv q'"
  using flag_queue.run_fifo [OF assms] by blast

text \<open>A write into a full queue is reported as done, destroys the oldest message and puts the new one at
  the front: the newest message is read before the nine older ones.\<close>

lemma full_queue_reorders:
  assumes "sq_filled q 10" "msg_ok m"
  shows "fst (wr_slot q m (int (length m))) = 0
    \<and> sq_content (snd (wr_slot q m (int (length m)))) = m # tl (sq_content q)"
proof -
  obtain r q' where w: "wr_slot q m (int (length m)) = (r, q')" by force
  from wr_slot_full [OF assms w] show ?thesis by (simp add: w)
qed

lemma full_queue_reorders_witness:
  "sq_content (snd (wr_slot (demo_sq\<lparr>Cache := replicate 10 \<lparr>NonEmptyFlg = True, slot_len = 1, slot_data = replicate 1456 7\<rparr>\<rparr>)
     [9] (int (length [9 :: u8])))) ! 0 = [9]"
proof -
  let ?q = "demo_sq\<lparr>Cache := replicate 10 \<lparr>NonEmptyFlg = True, slot_len = 1, slot_data = replicate 1456 7\<rparr>\<rparr>"
  have "sq_filled ?q 10" by (simp add: sq_filled_def demo_sq_def slot_ok_def slot_at_def)
  from full_queue_reorders [OF this, of "[9]"] show ?thesis by (simp add: msg_ok_def)
qed

text \<open>The receive queues of different objects do not touch each other, and what is written into the
  empty queue of an object is what is read back from it.\<close>

lemma receive_queue_roundtrip:
  assumes "obj < length qs" "sq_filled (qs ! obj) 0" "msg_ok m" "length d = 1456"
  shows "\<exists>qs'. WrPP_queue qs obj m (int (length m)) = (0, qs')
    \<and> (\<forall>i. i \<noteq> obj \<longrightarrow> qs' ! i = qs ! i)
    \<and> fst (RdPP_queue qs' obj d 1456) = int (length m)
    \<and> take (length m) (snd (snd (RdPP_queue qs' obj d 1456))) = m"
proof -
  obtain r q' where w: "wr_slot (qs ! obj) m (int (length m)) = (r, q')" by force
  from wr_slot_law [OF assms(2) _ assms(3) w] have q': "r = 0" "sq_filled q' (Suc 0)"
    "sq_content q' = [m]" using sq_filled_content [OF assms(2)] by auto
  from rd_slot_law [OF q'(2) assms(4)] q'(3) obtain q'' where
    "rd_slot q' d 1456 = (int (length m), q'', m @ drop (length m) d)" by auto
  with w q'(1) assms(1) show ?thesis by (simp add: WrPP_queue_def RdPP_queue_def)
qed

lemma receive_queue_roundtrip_witness:
  "\<exists>qs'. WrPP_queue (replicate 7 demo_sq) 4 [1, 2, 3] (int (length [1, 2, 3 :: u8])) = (0, qs')
    \<and> take 3 (snd (snd (RdPP_queue qs' 4 (replicate 1456 0) 1456))) = [1, 2, 3]"
  using receive_queue_roundtrip [of 4 "replicate 7 demo_sq" "[1, 2, 3]" "replicate 1456 0"] demo_sq_filled
  by (auto simp: msg_ok_def numeral_3_eq_3)

definition demo_atq :: at_queue where
  "demo_atq = the (at_init_queue (Some \<lparr>at_head = 3, at_tail = 5, at_cmds = []\<rparr>))"

text \<open>The AT command queue delivers commands first in, first out while it is not full, holds nine of them,
  and refuses the tenth without a change.\<close>

lemma at_queue_is_fifo:
  assumes "at_inv q" "\<forall>m\<in>set (enqs ops). length (snd m) \<le> 100" "never_full 9 (length (at_content q)) ops"
    and "mq_run at_enq at_deq q ops = (out, q')"
  shows "at_content q @ enqs ops = out @ at_content q' \<and> at_inv q'
    \<and> (length (at_content q') = 9 \<longrightarrow> at_enqueue (Some q') (Some c) = (False, Some q'))"
  using at_fifo.run_fifo [OF assms] at_enqueue_full [of q' c] by (auto simp: at_content_def)

end
