(* ===== verification/Lock.thy ===== *)
theory Lock
  imports Prelude
begin

text \<open>
  \<^verbatim>\<open>PrvtProtocol/PrvtProt_lock.c\<close>: the word of lock bits that keeps diagnosis, over-the-air
  update and remote control apart. The specification is the set of lock objects held; the
  three tests of the code are its \<open>lock_grant\<close>. The mutex around each function makes the
  calls of the threads a sequence of steps.
\<close>

section \<open>The code\<close>

text \<open>The enumeration \<^verbatim>\<open>PP_LOCK_OBJ\<close>.\<close>

abbreviation (input) "PP_LOCK_DIAG_TSPDIAG \<equiv> 0 :: nat"
abbreviation (input) "PP_LOCK_DIAG_ACTIVE \<equiv> 1 :: nat"
abbreviation (input) "PP_LOCK_DIAG_CLEAN \<equiv> 2 :: nat"
abbreviation (input) "PP_LOCK_OTA_READECUVER \<equiv> 3 :: nat"
abbreviation (input) "PP_LOCK_OTA_FOTAUPDATE \<equiv> 4 :: nat"
abbreviation (input) "PP_LOCK_VEHICTRL_RMTSTART \<equiv> 15 :: nat"
abbreviation (input) "PP_LOCK_VEHICTRL_SEAT \<equiv> 16 :: nat"
abbreviation (input) "PP_LOCK_OBJ_MAX \<equiv> 17 :: nat"

text \<open>The masks of \<^verbatim>\<open>PrvtProt_lock.h\<close>. \<open>PP_lock_mask\<close> has room for 17 entries and initialises
  16 of them: the mask of \<open>PP_LOCK_VEHICTRL_SEAT\<close> is 0.\<close>

definition PP_LOCK_MASK_TSPDIAG :: u64 where "PP_LOCK_MASK_TSPDIAG = 0x1"
definition PP_LOCK_MASK_ACTIVE :: u64 where "PP_LOCK_MASK_ACTIVE = 0x2"
definition PP_LOCK_MASK_CLEAN :: u64 where "PP_LOCK_MASK_CLEAN = 0x4"
definition PP_LOCK_MASK_READECUVER :: u64 where "PP_LOCK_MASK_READECUVER = 0x8"
definition PP_LOCK_MASK_FOTAUPDATE :: u64 where "PP_LOCK_MASK_FOTAUPDATE = 0x10"
definition PP_LOCK_MASK_DIAG_ALL :: u64 where
  "PP_LOCK_MASK_DIAG_ALL = PP_LOCK_MASK_TSPDIAG OR PP_LOCK_MASK_ACTIVE OR PP_LOCK_MASK_CLEAN"
definition PP_LOCK_MASK_OTA_ALL :: u64 where
  "PP_LOCK_MASK_OTA_ALL = PP_LOCK_MASK_READECUVER OR PP_LOCK_MASK_FOTAUPDATE"
definition PP_LOCK_MASK_CTRL_ALL :: u64 where
  "PP_LOCK_MASK_CTRL_ALL = 0x20 OR 0x40 OR 0x80 OR 0x100 OR 0x200 OR 0x400 OR 0x800 OR 0x1000
     OR 0x2000 OR 0x4000 OR 0x8000 OR 0x10000"

definition PP_lock_mask :: "u64 list" where
  "PP_lock_mask = [0x1, 0x2, 0x4, 0x8, 0x10, 0x20, 0x40, 0x80, 0x100, 0x200, 0x400, 0x800,
     0x1000, 0x2000, 0x4000, 0x8000, 0]"

definition InitPP_lock_parameter :: u64 where "InitPP_lock_parameter = 0"

text \<open>\<open>ret\<close> is an \<open>unsigned char\<close> that the function returns as an \<open>int\<close>.\<close>

definition lock_ret :: "int \<Rightarrow> int" where "lock_ret e = uint (word_of_int e :: u8)"

abbreviation (input) "PP_LOCK_OK \<equiv> 0 :: int"
abbreviation (input) "PP_LOCK_ERR_FOTAREADVER \<equiv> - 1 :: int"
abbreviation (input) "PP_LOCK_ERR_FOTAUPDATE \<equiv> - 2 :: int"
abbreviation (input) "PP_LOCK_ERR_VEHICTRLING \<equiv> - 3 :: int"
abbreviation (input) "PP_LOCK_ERR_DIAGING \<equiv> - 4 :: int"

definition setPP_lock_odcmtxlock :: "u64 \<Rightarrow> nat \<Rightarrow> int \<times> u64" where
  "setPP_lock_odcmtxlock flag obj =
    (let set = (lock_ret PP_LOCK_OK, flag OR PP_lock_mask ! obj);
         err = (\<lambda>e. (lock_ret e, flag));
         clear = (\<lambda>m. flag AND m = 0)
     in if flag = 0 then set
        else if obj = PP_LOCK_DIAG_TSPDIAG then
          (if clear PP_LOCK_MASK_OTA_ALL \<and> clear PP_LOCK_MASK_ACTIVE \<and> clear PP_LOCK_MASK_CLEAN then set
           else if \<not> clear PP_LOCK_MASK_READECUVER then err PP_LOCK_ERR_FOTAREADVER
           else if \<not> clear PP_LOCK_MASK_FOTAUPDATE then err PP_LOCK_ERR_FOTAUPDATE
           else err PP_LOCK_ERR_DIAGING)
        else if obj = PP_LOCK_DIAG_ACTIVE then
          (if clear PP_LOCK_MASK_OTA_ALL \<and> clear PP_LOCK_MASK_TSPDIAG \<and> clear PP_LOCK_MASK_CLEAN then set
           else if \<not> clear PP_LOCK_MASK_READECUVER then err PP_LOCK_ERR_FOTAREADVER
           else if \<not> clear PP_LOCK_MASK_FOTAUPDATE then err PP_LOCK_ERR_FOTAUPDATE
           else err PP_LOCK_ERR_DIAGING)
        else if obj = PP_LOCK_DIAG_CLEAN then
          (if clear PP_LOCK_MASK_OTA_ALL \<and> clear PP_LOCK_MASK_TSPDIAG \<and> clear PP_LOCK_MASK_ACTIVE then set
           else if \<not> clear (of_nat PP_LOCK_OTA_READECUVER) then err PP_LOCK_ERR_FOTAREADVER
           else if \<not> clear PP_LOCK_MASK_FOTAUPDATE then err PP_LOCK_ERR_FOTAUPDATE
           else err PP_LOCK_ERR_DIAGING)
        else if obj = PP_LOCK_OTA_READECUVER then
          (if clear PP_LOCK_MASK_DIAG_ALL then set else err PP_LOCK_ERR_DIAGING)
        else if obj = PP_LOCK_OTA_FOTAUPDATE then
          (if clear PP_LOCK_MASK_DIAG_ALL \<and> clear PP_LOCK_MASK_CTRL_ALL then set
           else if \<not> clear PP_LOCK_MASK_DIAG_ALL then err PP_LOCK_ERR_DIAGING
           else err PP_LOCK_ERR_VEHICTRLING)
        else if obj = PP_LOCK_VEHICTRL_RMTSTART then set
        else if obj < PP_LOCK_OBJ_MAX then
          (if clear PP_LOCK_MASK_FOTAUPDATE then set else err PP_LOCK_ERR_FOTAUPDATE)
        else (lock_ret PP_LOCK_OK, flag))"

definition clearPP_lock_odcmtxlock :: "u64 \<Rightarrow> nat \<Rightarrow> u64" where
  "clearPP_lock_odcmtxlock flag obj = flag AND NOT (PP_lock_mask ! obj)"

section \<open>The specification: the set of objects held\<close>

definition held :: "u64 \<Rightarrow> nat set" where "held flag = {i. bit flag i}"

text \<open>The bit an object has: none for the seat heating.\<close>

definition own_bit :: "nat \<Rightarrow> nat set" where "own_bit obj = (if obj < 16 then {obj} else {})"

definition lock_grant :: "nat set \<Rightarrow> nat \<Rightarrow> bool" where
  "lock_grant H obj =
     (if obj \<in> {0, 1, 2} then H \<inter> ({0, 1, 2, 3, 4} - {obj}) = {}
      else if obj = 3 then H \<inter> {0, 1, 2} = {}
      else if obj = 4 then H \<inter> ({0, 1, 2} \<union> {5..16}) = {}
      else if obj = 15 then True
      else 4 \<notin> H)"

definition bits_of :: "nat list \<Rightarrow> u64" where
  "bits_of is = foldr (\<lambda>i m. push_bit i 1 OR m) is 0"

lemma bit_bits_of: "\<forall>i\<in>set is. i < 64 \<Longrightarrow> bit (bits_of is) n \<longleftrightarrow> n \<in> set is"
  by (induction "is") (auto simp: bits_of_def bit_or_iff bit_exp_iff)

lemma and_bits_of:
  assumes "\<forall>i\<in>set is. i < 64"
  shows "x AND bits_of is = 0 \<longleftrightarrow> held x \<inter> set is = {}"
proof -
  have "x AND bits_of is = 0 \<longleftrightarrow> (\<forall>n. \<not> bit (x AND bits_of is) n)"
    by (metis bit_0_eq bot_apply bot_bool_def bit_eqI)
  also have "\<dots> \<longleftrightarrow> held x \<inter> set is = {}"
    using bit_bits_of [OF assms] by (auto simp: held_def bit_and_iff)
  finally show ?thesis .
qed

lemma masks_bits_of:
  "PP_LOCK_MASK_TSPDIAG = bits_of [0]" "PP_LOCK_MASK_ACTIVE = bits_of [1]" "PP_LOCK_MASK_CLEAN = bits_of [2]"
  "PP_LOCK_MASK_READECUVER = bits_of [3]" "PP_LOCK_MASK_FOTAUPDATE = bits_of [4]"
  "PP_LOCK_MASK_DIAG_ALL = bits_of [0, 1, 2]" "PP_LOCK_MASK_OTA_ALL = bits_of [3, 4]"
  "PP_LOCK_MASK_CTRL_ALL = bits_of [5, 6, 7, 8, 9, 10, 11, 12, 13, 14, 15, 16]"
  by (simp_all add: bits_of_def PP_LOCK_MASK_TSPDIAG_def PP_LOCK_MASK_ACTIVE_def PP_LOCK_MASK_CLEAN_def
      PP_LOCK_MASK_READECUVER_def PP_LOCK_MASK_FOTAUPDATE_def PP_LOCK_MASK_DIAG_ALL_def
      PP_LOCK_MASK_OTA_ALL_def PP_LOCK_MASK_CTRL_ALL_def push_bit_eq_mult)

lemma mask_table: "obj < 17 \<Longrightarrow> PP_lock_mask ! obj = bits_of (if obj < 16 then [obj] else [])"
proof -
  have "\<forall>obj\<in>set [0..<17]. PP_lock_mask ! obj = bits_of (if obj < 16 then [obj] else [])"
    by (simp add: upt_rec PP_lock_mask_def bits_of_def push_bit_eq_mult)
  then show "obj < 17 \<Longrightarrow> ?thesis" by simp
qed

lemma lock_clear_iff:
  "flag AND PP_LOCK_MASK_TSPDIAG = 0 \<longleftrightarrow> 0 \<notin> held flag"
  "flag AND PP_LOCK_MASK_ACTIVE = 0 \<longleftrightarrow> 1 \<notin> held flag"
  "flag AND PP_LOCK_MASK_CLEAN = 0 \<longleftrightarrow> 2 \<notin> held flag"
  "flag AND PP_LOCK_MASK_READECUVER = 0 \<longleftrightarrow> 3 \<notin> held flag"
  "flag AND PP_LOCK_MASK_FOTAUPDATE = 0 \<longleftrightarrow> 4 \<notin> held flag"
  "flag AND PP_LOCK_MASK_DIAG_ALL = 0 \<longleftrightarrow> held flag \<inter> {0, 1, 2} = {}"
  "flag AND PP_LOCK_MASK_OTA_ALL = 0 \<longleftrightarrow> held flag \<inter> {3, 4} = {}"
  "flag AND PP_LOCK_MASK_CTRL_ALL = 0 \<longleftrightarrow> held flag \<inter> {5..16} = {}"
  "flag AND 3 = 0 \<longleftrightarrow> held flag \<inter> {0, 1} = {}"
proof -
  have 3: "(3 :: u64) = bits_of [0, 1]" by (simp add: bits_of_def)
  have r: "set [5, 6, 7, 8, 9, 10, 11, 12, 13, 14, 15, 16] = {5..16 :: nat}"
  proof -
    have "{5..16} = set [5..<17]" by (simp only: set_upt) auto
    also have "\<dots> = set [5, 6, 7, 8, 9, 10, 11, 12, 13, 14, 15, 16]" by (simp add: upt_rec)
    finally show ?thesis ..
  qed
  show "flag AND PP_LOCK_MASK_CTRL_ALL = 0 \<longleftrightarrow> held flag \<inter> {5..16} = {}"
    unfolding masks_bits_of by (subst and_bits_of) (simp, simp only: r)
  show "flag AND 3 = 0 \<longleftrightarrow> held flag \<inter> {0, 1} = {}"
    unfolding 3 by (subst and_bits_of) simp_all
qed (simp_all add: masks_bits_of and_bits_of)

lemma held_0 [simp]: "held 0 = {}"
  by (simp add: held_def)

lemma held_empty [simp]: "held flag = {} \<longleftrightarrow> flag = 0"
  using bit_imp_le_length [of flag] by (auto simp: held_def bit_eq_iff)

lemma held_set: "obj < 17 \<Longrightarrow> held (flag OR PP_lock_mask ! obj) = held flag \<union> own_bit obj"
  by (auto simp: held_def mask_table own_bit_def bit_or_iff bit_bits_of)

lemma held_clear: "obj < 17 \<Longrightarrow> held (clearPP_lock_odcmtxlock flag obj) = held flag - own_bit obj"
  by (auto simp: held_def clearPP_lock_odcmtxlock_def mask_table own_bit_def bit_and_iff bit_not_iff
      bit_bits_of dest: bit_imp_le_length [where 'a = 64])

text \<open>What the code answers when it refuses: its error value, before the conversion to \<open>unsigned char\<close>.\<close>

definition lock_error :: "nat set \<Rightarrow> nat \<Rightarrow> int" where
  "lock_error H obj =
     (if obj \<in> {0, 1} then if 3 \<in> H then - 1 else if 4 \<in> H then - 2 else - 4
      else if obj = 2 then if H \<inter> {0, 1} \<noteq> {} then - 1 else if 4 \<in> H then - 2 else - 4
      else if obj = 3 then - 4
      else if obj = 4 then if H \<inter> {0, 1, 2} \<noteq> {} then - 4 else - 3
      else - 2)"

lemma disjoint_insert_iff: "H \<inter> insert x A = {} \<longleftrightarrow> x \<notin> H \<and> H \<inter> A = {}"
  by blast

lemma lock_refines:
  assumes "obj < 17"
  shows "setPP_lock_odcmtxlock flag obj =
    (if held flag = {} \<or> lock_grant (held flag) obj then (0, flag OR PP_lock_mask ! obj)
     else (lock_error (held flag) obj mod 256, flag))"
proof (cases "flag = 0")
  case True
  then show ?thesis by (simp add: setPP_lock_odcmtxlock_def lock_ret_def)
next
  case False
  note defs = setPP_lock_odcmtxlock_def Let_def lock_clear_iff lock_grant_def lock_error_def disjoint_insert_iff
    insert_Diff_if
  have ret: "lock_ret e = e mod 256" for e by (simp add: lock_ret_def uint_word_of_int)
  have ne: "held flag \<noteq> {}" using False by simp
  consider "obj = 0" | "obj = 1" | "obj = 2" | "obj = 3" | "obj = 4" | "obj = 15" | "obj \<notin> {0, 1, 2, 3, 4, 15}"
    by blast
  then show ?thesis
  proof cases
    case 1
    then show ?thesis using False ne by (simp add: defs ret; blast?)
  next
    case 2
    then show ?thesis using False ne by (simp add: defs ret; blast?)
  next
    case 3
    then show ?thesis using False ne by (simp add: defs ret; blast?)
  next
    case 7
    then show ?thesis using False ne assms by (simp add: defs ret)
  qed (use False ne in \<open>simp_all add: defs ret\<close>)
qed

section \<open>Mutual exclusion\<close>

text \<open>Never two diagnoses, never a diagnosis beside an update, never a control request beside an
  update, except the remote start, which is granted whatever is held.\<close>

definition lock_inv :: "u64 \<Rightarrow> bool" where
  "lock_inv flag \<longleftrightarrow> (\<forall>i\<in>held flag \<inter> {0, 1, 2}. \<forall>j\<in>held flag \<inter> {0, 1, 2, 3, 4}. j = i)
     \<and> (4 \<in> held flag \<longrightarrow> held flag \<inter> {5..14} = {}) \<and> held flag \<subseteq> {0..15}"

datatype lock_op = SetLock nat | ClearLock nat

fun lock_obj :: "lock_op \<Rightarrow> nat" where
  "lock_obj (SetLock obj) = obj"
| "lock_obj (ClearLock obj) = obj"

fun lock_step :: "u64 \<Rightarrow> lock_op \<Rightarrow> u64" where
  "lock_step flag (SetLock obj) = snd (setPP_lock_odcmtxlock flag obj)"
| "lock_step flag (ClearLock obj) = clearPP_lock_odcmtxlock flag obj"

lemma Int_empty_mono: "A \<inter> C = {} \<Longrightarrow> B \<subseteq> C \<Longrightarrow> A \<inter> B = {}"
  by blast

lemma only_new: "A \<inter> (C - {x}) = {} \<Longrightarrow> B \<subseteq> {x} \<Longrightarrow> (A \<union> B) \<inter> C \<subseteq> {x}"
  by blast

lemma at_most_one: "A \<inter> C \<subseteq> {x} \<Longrightarrow> B \<subseteq> C \<Longrightarrow> \<forall>i\<in>A \<inter> B. \<forall>j\<in>A \<inter> C. j = i"
  by blast

lemma not_touched: "D \<inter> C = {} \<Longrightarrow> B \<subseteq> C \<Longrightarrow> \<forall>i\<in>A \<inter> B. \<forall>j\<in>A \<inter> C. j = i
    \<Longrightarrow> \<forall>i\<in>(A \<union> D) \<inter> B. \<forall>j\<in>(A \<union> D) \<inter> C. j = i"
  by blast

lemma lock_inv_set:
  assumes i: "lock_inv flag" and o: "obj < 17"
  shows "lock_inv (snd (setPP_lock_odcmtxlock flag obj))"
proof (cases "held flag = {} \<or> lock_grant (held flag) obj")
  case True
  let ?H = "held flag" and ?H' = "held flag \<union> own_bit obj"
  have H': "held (snd (setPP_lock_odcmtxlock flag obj)) = ?H'"
    using True lock_refines [OF o] held_set [OF o] by simp
  have "\<forall>i\<in>?H' \<inter> {0, 1, 2}. \<forall>j\<in>?H' \<inter> {0, 1, 2, 3, 4}. j = i"
  proof -
    consider "obj \<in> {0, 1, 2}" | "obj = 3 \<or> obj = 4" | "obj \<notin> {0, 1, 2, 3, 4}" by blast
    then show ?thesis
    proof cases
      case 1
      then have "?H \<inter> ({0, 1, 2, 3, 4} - {obj}) = {}" using True by (auto simp: lock_grant_def)
      moreover have "own_bit obj \<subseteq> {obj}" by (simp add: own_bit_def)
      ultimately have *: "?H' \<inter> {0, 1, 2, 3, 4} \<subseteq> {obj}" by (rule only_new)
      have "{0, 1, 2} \<subseteq> {0, 1, 2, 3, 4 :: nat}" by simp
      with * show ?thesis by (rule at_most_one)
    next
      case 2
      then have "?H \<inter> {0, 1, 2} = {}" using True by (auto simp: lock_grant_def)
      then have "?H' \<inter> {0, 1, 2} = {}" using 2 by (auto simp: own_bit_def)
      then show ?thesis by blast
    next
      case 3
      then have "own_bit obj \<inter> {0, 1, 2, 3, 4} = {}" by (simp add: own_bit_def)
      moreover have "{0, 1, 2} \<subseteq> {0, 1, 2, 3, 4 :: nat}" by simp
      ultimately show ?thesis using i [unfolded lock_inv_def, THEN conjunct1] by (rule not_touched)
    qed
  qed
  moreover have "4 \<in> ?H' \<longrightarrow> ?H' \<inter> {5..14} = {}"
  proof -
    consider "obj = 4" | "obj \<in> {5..14}" | "obj \<noteq> 4" "obj \<notin> {5..14}" by blast
    then show ?thesis
    proof cases
      case 1
      then have "?H \<inter> {5..16} = {}" using True by (auto simp: lock_grant_def)
      then have "?H \<inter> {5..14} = {}" by (rule Int_empty_mono) auto
      then show ?thesis using 1 by (simp add: own_bit_def)
    next
      case 2
      then have "4 \<notin> ?H" using True by (auto simp: lock_grant_def)
      then show ?thesis using 2 by (auto simp: own_bit_def)
    next
      case 3
      then show ?thesis using i by (auto simp: lock_inv_def own_bit_def)
    qed
  qed
  moreover have "?H' \<subseteq> {0..15}" using i by (auto simp: lock_inv_def own_bit_def)
  ultimately show ?thesis by (simp only: lock_inv_def H')
next
  case False
  then show ?thesis using i lock_refines [OF o] by simp
qed

lemma unique_holder:
  "\<forall>i\<in>A \<inter> B. \<forall>j\<in>A \<inter> C. j = i \<Longrightarrow> B \<subseteq> C \<Longrightarrow> i \<in> A \<inter> B \<Longrightarrow> A \<inter> B = {i} \<and> A \<inter> C \<subseteq> {i}"
  by blast

lemma lock_inv_clear:
  assumes "lock_inv flag" and "obj < 17"
  shows "lock_inv (clearPP_lock_odcmtxlock flag obj)"
  using assms unfolding lock_inv_def held_clear [OF assms(2)] by (auto simp: own_bit_def)

lemma lock_inv_run: "lock_inv flag \<Longrightarrow> \<forall>p\<in>set ops. lock_obj p < 17 \<Longrightarrow> lock_inv (foldl lock_step flag ops)"
proof (induction ops arbitrary: flag)
  case (Cons p ops)
  then show ?case by (cases p) (auto intro: lock_inv_set lock_inv_clear)
qed simp

section \<open>A caller\<close>

text \<open>\<open>SetPP_rmtCtrl_FOTA_startInform\<close> of \<^verbatim>\<open>PP_rmtCtrl.c\<close>: the result, the lock word and whether the request to
  authorise the update was started.\<close>

definition SetPP_rmtCtrl_FOTA_startInform :: "u64 \<Rightarrow> int \<times> u64 \<times> bool" where
  "SetPP_rmtCtrl_FOTA_startInform flag =
     (case setPP_lock_odcmtxlock flag PP_LOCK_OTA_FOTAUPDATE of
        (mtxlockst, flag') \<Rightarrow>
          if mtxlockst = PP_LOCK_OK then (0, flag', True)
          else if mtxlockst = PP_LOCK_ERR_VEHICTRLING then (- 1, flag', False)
          else (- 2, flag', False))"

section \<open>Exclusion in terms of the objects held\<close>

lemma lock_exclusion:
  assumes "\<forall>p\<in>set ops. lock_obj p < 17"
  defines "H \<equiv> held (foldl lock_step InitPP_lock_parameter ops)"
  shows "card (H \<inter> {0, 1, 2}) \<le> 1 \<and> (H \<inter> {0, 1, 2} = {} \<or> H \<inter> {3, 4} = {}) \<and> (4 \<in> H \<longrightarrow> H \<inter> {5..14} = {})"
proof -
  have "lock_inv InitPP_lock_parameter" by (simp add: lock_inv_def InitPP_lock_parameter_def)
  then have inv: "lock_inv (foldl lock_step InitPP_lock_parameter ops)" by (rule lock_inv_run [OF _ assms(1)])
  note inv' = inv [unfolded lock_inv_def, folded H_def]
  have ctrl: "4 \<in> H \<longrightarrow> H \<inter> {5..14} = {}" by (rule inv' [THEN conjunct2, THEN conjunct1])
  have sub: "{0, 1, 2} \<subseteq> {0, 1, 2, 3, 4 :: nat}" by simp
  have "H \<inter> {0, 1, 2} = {} \<or> (\<exists>i. H \<inter> {0, 1, 2} = {i} \<and> i \<in> {0, 1, 2} \<and> H \<inter> {0, 1, 2, 3, 4} \<subseteq> {i})"
  proof (cases "H \<inter> {0, 1, 2} = {}")
    case False
    then obtain i where i: "i \<in> H \<inter> {0, 1, 2}" by (meson ex_in_conv)
    from unique_holder [OF inv' [THEN conjunct1] sub i] show ?thesis
      using i [THEN IntD2] by (intro disjI2 exI [of _ i]) simp
  qed simp
  then show ?thesis
  proof
    assume "\<exists>i. H \<inter> {0, 1, 2} = {i} \<and> i \<in> {0, 1, 2} \<and> H \<inter> {0, 1, 2, 3, 4} \<subseteq> {i}"
    then obtain i where i: "H \<inter> {0, 1, 2} = {i}" "i \<in> {0, 1, 2}" "H \<inter> {0, 1, 2, 3, 4} \<subseteq> {i}"
      by (elim exE conjE) (rule that)
    have "n \<notin> H" if "n \<in> {3, 4}" for n
    proof
      assume "n \<in> H"
      moreover have "n \<in> {0, 1, 2, 3, 4}" "n \<notin> {0, 1, 2}" using that by (elim insertE; simp)+
      ultimately have "n = i" using subsetD [OF i(3), of n] by simp
      with \<open>n \<notin> {0, 1, 2}\<close> i(2) show False by simp
    qed
    then have "3 \<notin> H" "4 \<notin> H" by simp_all
    with i(1) show ?thesis by (simp add: disjoint_insert_iff)
  qed (use ctrl in simp)
qed

section \<open>Properties\<close>

text \<open>C11: Over any sequence of lock and release calls from the start at most one diagnosis is active, never
  beside an ECU read or an update, and none of the remote control requests 5 to 14 is held
  beside an update. The remote start (15) may be, and the seat heating (16), whose mask is 0, is never held: it can run beside an
  update (\<open>lock_seat_heating_is_not_held\<close>).\<close>

theorem lock_mutual_exclusion:
  assumes "\<forall>p\<in>set ops. lock_obj p < 17"
  shows "let H = held (foldl lock_step InitPP_lock_parameter ops)
    in card (H \<inter> {0, 1, 2}) \<le> 1 \<and> (H \<inter> {0, 1, 2} = {} \<or> H \<inter> {3, 4} = {}) \<and> (4 \<in> H \<longrightarrow> H \<inter> {5..14} = {})"
  unfolding Let_def by (rule lock_exclusion [OF assms])

theorem lock_mutual_exclusion_witness:
  "card (held (foldl lock_step InitPP_lock_parameter [SetLock 0, SetLock 1, SetLock 4, ClearLock 0, SetLock 15]) \<inter> {0, 1, 2}) \<le> 1"
  using lock_mutual_exclusion [of "[SetLock 0, SetLock 1, SetLock 4, ClearLock 0, SetLock 15]"]
  by (simp add: Let_def del: foldl_Cons)

text \<open>The bit tests of the code grant a request exactly when the specification does, set the object's bit
  and no other, and leave the word alone when they refuse.\<close>

lemma lock_meets_specification:
  assumes "obj < 17"
  shows "(fst (setPP_lock_odcmtxlock flag obj) = 0 \<longleftrightarrow> held flag = {} \<or> lock_grant (held flag) obj)
    \<and> held (snd (setPP_lock_odcmtxlock flag obj)) =
      (if held flag = {} \<or> lock_grant (held flag) obj then held flag \<union> own_bit obj else held flag)"
proof -
  have "lock_error (held flag) obj mod 256 \<noteq> 0" by (simp add: lock_error_def)
  then show ?thesis by (simp add: lock_refines [OF assms] held_set [OF assms])
qed

text \<open>A granted seat heating request leaves no trace in the lock word, so an update that starts while it
  runs is granted; a camera request in its place would have blocked the update.\<close>

lemma lock_seat_heating_is_not_held:
  "setPP_lock_odcmtxlock 0 16 = (0, 0) \<and> fst (setPP_lock_odcmtxlock (snd (setPP_lock_odcmtxlock 0 16)) 4) = 0
   \<and> fst (setPP_lock_odcmtxlock (snd (setPP_lock_odcmtxlock 0 8)) 4) \<noteq> 0"
proof -
  have "held 0x100 = {8}" using held_set [of 8 0] by (simp add: PP_lock_mask_def own_bit_def)
  then show ?thesis
    by (simp add: lock_refines PP_lock_mask_def lock_grant_def lock_error_def)
qed

text \<open>A refused lock is reported as a positive number (the error went through an \<open>unsigned char\<close>), so no
  comparison with the negative error codes succeeds: a caller that starts an update is never told that
  a remote control request is in the way.\<close>

lemma lock_error_codes_are_lost:
  "0 \<le> fst (setPP_lock_odcmtxlock flag obj) \<and> fst (SetPP_rmtCtrl_FOTA_startInform flag) \<noteq> - 1
   \<and> fst (SetPP_rmtCtrl_FOTA_startInform 0x20) = - 2"
proof -
  have nn: "0 \<le> fst (setPP_lock_odcmtxlock f n)" for f n
    by (simp add: setPP_lock_odcmtxlock_def lock_ret_def Let_def)
  have neq: "fst (SetPP_rmtCtrl_FOTA_startInform f) \<noteq> - 1" for f
    using nn [of f 4] by (auto simp: SetPP_rmtCtrl_FOTA_startInform_def split: prod.split)
  have "held 0x20 = {5}" using held_set [of 5 0] by (simp add: PP_lock_mask_def own_bit_def)
  then have "fst (SetPP_rmtCtrl_FOTA_startInform 0x20) = - 2"
    by (simp add: SetPP_rmtCtrl_FOTA_startInform_def lock_refines lock_grant_def lock_error_def)
  with nn neq show ?thesis by blast
qed

end
