(* ===== verification/UdsBase.thy ===== *)
theory UdsBase
  imports Prelude
begin

text \<open>
  The transport side of the diagnostic server under \<^verbatim>\<open>app/base/uds\<close>: the state the service
  handlers share (\<^verbatim>\<open>uds_define.h\<close>, \<^verbatim>\<open>uds_server.c\<close>, the static variables of the handlers), the
  timers (\<^verbatim>\<open>uds_timer.c\<close>, \<open>uds_set_timer\<close>) and the response functions of \<^verbatim>\<open>uds_request.c\<close>.
  Everything that leaves the module is appended to the list \<open>out\<close>.
\<close>

section \<open>State\<close>

text \<open>\<open>timer_seq\<close> and \<open>timer_armed\<close> are the \<^verbatim>\<open>uds_timer_t\<close> inside \<^verbatim>\<open>UDS_TIMER_T\<close>: the sequence number
  that the notification carries and, when the timer runs, its time in ms. Arming the system
  timer is taken to succeed.\<close>

record uds_tmr =
  timer_seq :: u16
  timer_armed :: "int option"
  timer_switch :: u8
  timer_value :: u32

record UDS_T =
  uds_mode :: u8
  canport :: u8
  uds_sid :: u8
  uds_nrc :: u8
  can_id_phy :: u32
  can_id_fun :: u32
  can_id_req :: u32
  can_id_res :: u32
  timer_t :: "uds_tmr list"

text \<open>What leaves the module: a frame for the MCU's transport layer, a response of the remote
  diagnosis, a communication control message for the MCU, an event for the power management,
  the calls that clear the stored faults.\<close>

datatype uds_out =
    UdsFrame bytes
  | RemoteResponse bytes
  | CommControl u8 u8
  | RestartReq
  | DtcClear
  | ClientCb int u32 bytes

record uds_st =
  uds_server :: UDS_T
  uds_client :: UDS_T
  g_u8CurrentSessionType :: u8
  g_u8SecurityAccess :: u8
  g_u8suppressPosRspMsgIndicationFlag :: bool
  g_u32DiagID :: u32
  DTCSwitch :: bool
  g_TxFlag :: bool
  g_RxFlag :: bool
  is_seed_sent :: bool
  Att_Cnt :: u8
  sa_time :: int
  sub_function :: u8
  sa_counter :: u8
  seed :: u16
  times_satisfy_delay :: u32
  client_cb :: bool
  out :: "uds_out list"

text \<open>
  What the handlers read from outside: the clock (\<open>tm_get_time\<close>, in ms; a handler reads it at most
  twice), \<open>rand ()\<close> after \<open>srand x\<close>,
  the result of \<open>scom_tl_send_frame\<close>, the vehicle speed, what an uninitialised local buffer holds,
  the data identifier and fault memory functions of \<^verbatim>\<open>uds_did.c\<close> and \<^verbatim>\<open>uds_read_dtc.c\<close>, as the code or
  data they answer with, and the routine control service.
\<close>

record uds_env =
  tm_get_time :: int
  tm_get_time_again :: int
  rand_after :: "u32 \<Rightarrow> u16"
  scom_send :: "bytes \<Rightarrow> u32"
  vehicleSpeed :: int
  stack_junk :: bytes
  did_get :: "u16 \<Rightarrow> nat \<Rightarrow> bytes option"
  did_check :: "u16 \<Rightarrow> bytes \<Rightarrow> u8"
  did_set :: "u16 \<Rightarrow> bytes \<Rightarrow> u8"
  dtc_report :: "bytes \<Rightarrow> nat \<Rightarrow> u8 + bytes"
  routine_control :: "uds_st \<Rightarrow> bytes \<Rightarrow> nat \<Rightarrow> uds_st"

text \<open>The enumerations and masks of \<^verbatim>\<open>uds_define.h\<close> that the code compares with.\<close>

abbreviation (input) "UDS_TYPE_CLIENT \<equiv> 1 :: u8"
abbreviation (input) "UDS_TYPE_SERVER \<equiv> 2 :: u8"
abbreviation (input) "UDS_TYPE_REMOTEDIAG \<equiv> 3 :: u8"
abbreviation (input) "P2SERVER \<equiv> 0 :: nat"
abbreviation (input) "P2CLINT \<equiv> 1 :: nat"
abbreviation (input) "P2EXT_SERVER \<equiv> 2 :: nat"
abbreviation (input) "P2EXT_CLIENT \<equiv> 3 :: nat"
abbreviation (input) "S3SERVER \<equiv> 4 :: nat"
abbreviation (input) "S3CLIENT \<equiv> 5 :: nat"
abbreviation (input) "SERVER_SET \<equiv> 6 :: nat"
abbreviation (input) "CLIENT_SET \<equiv> 7 :: nat"
abbreviation (input) "TIMER_MAX \<equiv> 8 :: nat"
abbreviation (input) "MSG_ID_UDS_SET_S \<equiv> 0xF1 :: u8"
abbreviation (input) "MSG_ID_UDS_SET_C \<equiv> 0xF2 :: u8"
abbreviation (input) "MSG_ID_UDS_REQ \<equiv> 0xF3 :: u8"
abbreviation (input) "SESSION_TYPE_DEFAULT \<equiv> 1 :: u8"
abbreviation (input) "SESSION_TYPE_PROGRAM \<equiv> 2 :: u8"
abbreviation (input) "SESSION_TYPE_EXTENDED \<equiv> 3 :: u8"
abbreviation (input) "SecurityAccess_LEVEL0 \<equiv> 0 :: u8"
abbreviation (input) "SecurityAccess_LEVEL1 \<equiv> 1 :: u8"
abbreviation (input) "SecurityAccess_LEVEL2 \<equiv> 2 :: u8"
abbreviation (input) "SID_NegativeResponse \<equiv> 0x7F :: u8"
abbreviation (input) "POS_RESPOND_SID_MASK \<equiv> 0x40 :: u8"
abbreviation (input) "suppressPosRspMsgIndicationBit \<equiv> 0x80 :: u8"
abbreviation (input) "suppressPosRspMsgIndicationBitMask \<equiv> 0x7F :: u8"
abbreviation (input) "NRC_ServiceNotSupported \<equiv> 0x11 :: u8"
abbreviation (input) "NRC_SubFuncationNotSupported \<equiv> 0x12 :: u8"
abbreviation (input) "NRC_IncorrectMessageLengthOrInvailFormat \<equiv> 0x13 :: u8"
abbreviation (input) "NRC_ConditionsNotCorrect \<equiv> 0x22 :: u8"
abbreviation (input) "NRC_RequstSequenceError \<equiv> 0x24 :: u8"
abbreviation (input) "NRC_RequestOutOfRange \<equiv> 0x31 :: u8"
abbreviation (input) "NRC_SecurityAccessDenied \<equiv> 0x33 :: u8"
abbreviation (input) "NRC_InvalidKey \<equiv> 0x35 :: u8"
abbreviation (input) "NRC_ExceedNumberOfAttempts \<equiv> 0x36 :: u8"
abbreviation (input) "NRC_RequiredTimeDelayNotExpired \<equiv> 0x37 :: u8"
abbreviation (input) "NRC_RequestCorrectlyReceivedResponsePending \<equiv> 0x78 :: u8"
abbreviation (input) "NRC_ServiceNotSupportedInActiveSession \<equiv> 0x7F :: u8"

section \<open>Timers\<close>

definition uds_timer_settime :: "uds_tmr \<Rightarrow> int \<Rightarrow> uds_tmr" where
  "uds_timer_settime tm time =
     (let s = timer_seq tm + 1; s = (if s = 0 then 1 else s)
      in tm\<lparr>timer_seq := s, timer_armed := (if time > 0 then Some time else None)\<rparr>)"

definition uds_set_timer :: "UDS_T \<Rightarrow> nat \<Rightarrow> u8 \<Rightarrow> UDS_T" where
  "uds_set_timer u name switch_value =
     (if name < TIMER_MAX then
        let tm = (timer_t u ! name)\<lparr>timer_switch := switch_value\<rparr>;
            tm = (if switch_value = 1 then uds_timer_settime tm (sint (timer_value tm))
                  else uds_timer_settime tm 0)
        in u\<lparr>timer_t := (timer_t u)[name := tm]\<rparr>
      else u)"

section \<open>Sending\<close>

definition le16 :: "u16 \<Rightarrow> bytes" where "le16 x = [ucast x, ucast (drop_bit 8 x)]"
definition le32 :: "u32 \<Rightarrow> bytes" where
  "le32 x = [ucast x, ucast (drop_bit 8 x), ucast (drop_bit 16 x), ucast (drop_bit 24 x)]"

text \<open>\<open>pdu\<close> is the caller's buffer, of which \<open>pdu_dlc\<close> bytes are the message. Returns the result, the
  UDS object and what is sent.\<close>

definition uds_data_request ::
  "uds_env \<Rightarrow> UDS_T \<Rightarrow> u8 \<Rightarrow> u32 \<Rightarrow> bytes \<Rightarrow> nat \<Rightarrow> u32 \<times> UDS_T \<times> uds_out list" where
  "uds_data_request e u msg_id can_id pdu pdu_dlc =
     (let hdr = (if msg_id \<noteq> MSG_ID_UDS_SET_S \<and> msg_id \<noteq> MSG_ID_UDS_SET_C
                    \<and> (uds_mode u = UDS_TYPE_SERVER \<or> uds_mode u = UDS_TYPE_CLIENT)
                 then le32 can_id @ le16 (of_nat pdu_dlc) else []);
          data = msg_id # hdr @ take pdu_dlc pdu;
          u = u\<lparr>uds_sid := pdu ! 0, can_id_req := can_id\<rparr>
      in if uds_mode u = UDS_TYPE_REMOTEDIAG then (0, u, [RemoteResponse (tl data)])
         else (scom_send e data, u, [UdsFrame data]))"

definition uds_positive_response :: "uds_env \<Rightarrow> uds_st \<Rightarrow> u32 \<Rightarrow> nat \<Rightarrow> bytes \<Rightarrow> u32 \<times> uds_st" where
  "uds_positive_response e s can_id pdu_dlc pdu =
     (let u = uds_server s
      in if uds_mode u = UDS_TYPE_SERVER \<or> uds_mode u = UDS_TYPE_REMOTEDIAG then
           (if pdu_dlc \<le> 4096 then
              (if pdu ! 0 \<noteq> SID_NegativeResponse \<and> g_u8suppressPosRspMsgIndicationFlag s then
                 (0, s\<lparr>g_u8suppressPosRspMsgIndicationFlag := False\<rparr>)
               else if g_u32DiagID s = can_id_fun u \<and> pdu ! 0 = SID_NegativeResponse
                    \<and> (pdu ! 2 = NRC_ServiceNotSupported \<or> pdu ! 2 = NRC_SubFuncationNotSupported
                       \<or> pdu ! 2 = NRC_ServiceNotSupportedInActiveSession \<or> pdu ! 2 = NRC_RequestOutOfRange) then
                 (0, s\<lparr>g_u8suppressPosRspMsgIndicationFlag := False\<rparr>)
               else
                 (case uds_data_request e u MSG_ID_UDS_REQ can_id pdu pdu_dlc of
                    (ret, u, sent) \<Rightarrow>
                      let u = (if ret = 0 then
                                 let u = u\<lparr>uds_sid := pdu ! 0, uds_nrc := pdu ! 2\<rparr>
                                 in if pdu ! 2 = NRC_RequestCorrectlyReceivedResponsePending
                                    then uds_set_timer u P2EXT_SERVER 1 else u
                               else u)
                      in (ret, s\<lparr>uds_server := u, out := out s @ sent,
                              g_u8suppressPosRspMsgIndicationFlag := False\<rparr>)))
            else (0, s))
         else (0, s))"

definition uds_negative_response :: "uds_env \<Rightarrow> uds_st \<Rightarrow> u8 \<Rightarrow> u8 \<Rightarrow> u32 \<times> uds_st" where
  "uds_negative_response e s srv_id nrc =
     uds_positive_response e s (can_id_res (uds_server s)) 3 [SID_NegativeResponse, srv_id, nrc]"

text \<open>The handlers ignore the result of both.\<close>

definition uds_pos :: "uds_env \<Rightarrow> uds_st \<Rightarrow> bytes \<Rightarrow> uds_st" where
  "uds_pos e s pdu = snd (uds_positive_response e s (can_id_res (uds_server s)) (length pdu) (pdu @ stack_junk e))"

definition uds_neg :: "uds_env \<Rightarrow> uds_st \<Rightarrow> u8 \<Rightarrow> u8 \<Rightarrow> uds_st" where
  "uds_neg e s srv_id nrc = snd (uds_negative_response e s srv_id nrc)"

section \<open>What a response leaves alone\<close>

text \<open>The configuration of the UDS object: everything but the bookkeeping of the last message and the
  timers.\<close>

definition uds_cfg_of :: "UDS_T \<Rightarrow> u8 \<times> u8 \<times> u32 \<times> u32 \<times> u32" where
  "uds_cfg_of u = (uds_mode u, canport u, can_id_phy u, can_id_fun u, can_id_res u)"

lemma uds_set_timer_cfg [simp]: "uds_cfg_of (uds_set_timer u name v) = uds_cfg_of u"
  by (simp add: uds_set_timer_def uds_cfg_of_def Let_def)

lemma uds_data_request_cfg:
  "uds_data_request e u m c p n = (r, u', sent) \<Longrightarrow> uds_cfg_of u' = uds_cfg_of u"
  by (auto simp: uds_data_request_def uds_cfg_of_def Let_def split: if_splits)

lemma uds_positive_response_frame:
  assumes "uds_positive_response e s c n p = (r, s')"
  shows "uds_cfg_of (uds_server s') = uds_cfg_of (uds_server s)
    \<and> s' = s\<lparr>uds_server := uds_server s', out := out s',
           g_u8suppressPosRspMsgIndicationFlag := g_u8suppressPosRspMsgIndicationFlag s'\<rparr>"
proof -
  obtain ret u sent where req: "uds_data_request e (uds_server s) MSG_ID_UDS_REQ c p n = (ret, u, sent)"
    by (metis prod_cases3)
  have cfg: "uds_cfg_of (u\<lparr>uds_sid := x, uds_nrc := y\<rparr>) = uds_cfg_of (uds_server s)" for x y
    using uds_data_request_cfg [OF req] by (simp add: uds_cfg_of_def)
  show ?thesis
    using assms cfg uds_data_request_cfg [OF req]
    by (auto simp: uds_positive_response_def req Let_def split: if_splits)
qed

lemma uds_pos_frame:
  "uds_cfg_of (uds_server (uds_pos e s p)) = uds_cfg_of (uds_server s)
   \<and> uds_pos e s p = s\<lparr>uds_server := uds_server (uds_pos e s p), out := out (uds_pos e s p),
        g_u8suppressPosRspMsgIndicationFlag := g_u8suppressPosRspMsgIndicationFlag (uds_pos e s p)\<rparr>"
  unfolding uds_pos_def by (rule uds_positive_response_frame) (rule prod.collapse [symmetric])

lemma uds_neg_frame:
  "uds_cfg_of (uds_server (uds_neg e s i n)) = uds_cfg_of (uds_server s)
   \<and> uds_neg e s i n = s\<lparr>uds_server := uds_server (uds_neg e s i n), out := out (uds_neg e s i n),
        g_u8suppressPosRspMsgIndicationFlag := g_u8suppressPosRspMsgIndicationFlag (uds_neg e s i n)\<rparr>"
  unfolding uds_neg_def uds_negative_response_def
  by (rule uds_positive_response_frame) (rule prod.collapse [symmetric])

text \<open>The state a service decides on: session, security level, the security access automaton and the
  switches. No response changes it.\<close>

record uds_core =
  c_session :: u8
  c_level :: u8
  c_seed_sent :: bool
  c_att :: u8
  c_time :: int
  c_sub :: u8
  c_counter :: u8
  c_seed :: u16
  c_delay :: u32
  c_diag :: u32
  c_dtc :: bool
  c_tx :: bool
  c_rx :: bool

definition core :: "uds_st \<Rightarrow> uds_core" where
  "core s = \<lparr>c_session = g_u8CurrentSessionType s, c_level = g_u8SecurityAccess s, c_seed_sent = is_seed_sent s,
     c_att = Att_Cnt s, c_time = sa_time s, c_sub = sub_function s, c_counter = sa_counter s, c_seed = seed s,
     c_delay = times_satisfy_delay s, c_diag = g_u32DiagID s, c_dtc = DTCSwitch s, c_tx = g_TxFlag s,
     c_rx = g_RxFlag s\<rparr>"

lemma core_pos [simp]: "core (uds_pos e s p) = core s"
  by (subst uds_pos_frame [THEN conjunct2]) (simp add: core_def)

lemma core_neg [simp]: "core (uds_neg e s i n) = core s"
  by (subst uds_neg_frame [THEN conjunct2]) (simp add: core_def)

lemma core_fields:
  "core s = core s' \<longleftrightarrow> g_u8CurrentSessionType s = g_u8CurrentSessionType s' \<and> g_u8SecurityAccess s = g_u8SecurityAccess s'
     \<and> is_seed_sent s = is_seed_sent s' \<and> Att_Cnt s = Att_Cnt s' \<and> sa_time s = sa_time s' \<and> sub_function s = sub_function s'
     \<and> sa_counter s = sa_counter s' \<and> seed s = seed s' \<and> times_satisfy_delay s = times_satisfy_delay s'
     \<and> g_u32DiagID s = g_u32DiagID s' \<and> DTCSwitch s = DTCSwitch s' \<and> g_TxFlag s = g_TxFlag s' \<and> g_RxFlag s = g_RxFlag s'"
  by (auto simp: core_def)

lemmas pos_fields [simp] = core_pos [unfolded core_fields]
lemmas neg_fields [simp] = core_neg [unfolded core_fields]

lemma cfg_pos [simp]: "uds_cfg_of (uds_server (uds_pos e s p)) = uds_cfg_of (uds_server s)"
  by (rule uds_pos_frame [THEN conjunct1])

lemma cfg_neg [simp]: "uds_cfg_of (uds_server (uds_neg e s i n)) = uds_cfg_of (uds_server s)"
  by (rule uds_neg_frame [THEN conjunct1])

text \<open>A negative response with a code other than the four of the functional filter is sent, in the
  server and the remote mode.\<close>

definition diag_mode :: "uds_st \<Rightarrow> bool" where
  "diag_mode s \<longleftrightarrow> uds_mode (uds_server s) \<in> {UDS_TYPE_SERVER, UDS_TYPE_REMOTEDIAG}"

definition uds_msg :: "uds_st \<Rightarrow> bytes \<Rightarrow> uds_out" where
  "uds_msg s pdu = (if uds_mode (uds_server s) = UDS_TYPE_REMOTEDIAG then RemoteResponse pdu
     else UdsFrame (MSG_ID_UDS_REQ # le32 (can_id_res (uds_server s)) @ le16 (of_nat (length pdu)) @ pdu))"

lemma uds_neg_sent:
  assumes "diag_mode s" and "nrc \<notin> {0x11, 0x12, 0x7F, 0x31}"
  shows "out (uds_neg e s i nrc) = out s @ [uds_msg s [0x7F, i, nrc]]"
  using assms
  by (auto simp: uds_neg_def uds_negative_response_def uds_positive_response_def uds_data_request_def
      diag_mode_def uds_msg_def Let_def)

lemma uds_pos_sent:
  assumes "diag_mode s" and "\<not> g_u8suppressPosRspMsgIndicationFlag s" and "pdu \<noteq> []" and "pdu ! 0 \<noteq> 0x7F"
    and "length pdu \<le> 4096"
  shows "out (uds_pos e s pdu) = out s @ [uds_msg s pdu]"
  using assms
  by (auto simp: uds_pos_def uds_positive_response_def uds_data_request_def nth_append
      diag_mode_def uds_msg_def Let_def)

end
