(* ===== verification/UdsSecurity.thy ===== *)
theory UdsSecurity
  imports UdsBase
begin

text \<open>
  Security access (service 0x27): the key algorithm of \<^verbatim>\<open>key_access.c\<close> and the seed and key automaton
  of \<^verbatim>\<open>uds_sec_access.c\<close>, one definition per state (A) to (D) of its comments, with the attempt
  counter and the ten second delay. The static variables of the C function are fields of the
  server state.
\<close>

section \<open>Keys\<close>

abbreviation (input) "TOPBIT \<equiv> 0x8000 :: u16"
abbreviation (input) "POLYNOM_1 \<equiv> 0x8408 :: u16"
abbreviation (input) "POLYNOM_2 \<equiv> 0x8025 :: u16"
abbreviation (input) "BITMASK \<equiv> 0x0080 :: u16"
abbreviation (input) "INITIAL_REMINDER \<equiv> 0xFFFE :: u16"

definition key_bit :: "u16 \<Rightarrow> u16" where
  "key_bit remainder =
     (if remainder AND TOPBIT \<noteq> 0 then
        if remainder AND BITMASK \<noteq> 0 then push_bit 1 remainder XOR POLYNOM_1
        else push_bit 1 remainder XOR POLYNOM_2
      else push_bit 1 remainder)"

definition calcKey :: "u16 \<Rightarrow> u16" where
  "calcKey sd =
     (let bSeed = [ucast (drop_bit 8 sd), ucast sd :: u8]
      in foldl (\<lambda>remainder n. (key_bit ^^ 8) (remainder XOR push_bit 8 (ucast (bSeed ! n)))) INITIAL_REMINDER [0..<2])"

text \<open>The two bytes of the seed, one after the other; with \<open>key_bit\<close> unfolded this evaluates.\<close>

lemma calcKey_bytes:
  "calcKey sd = (key_bit ^^ 8) ((key_bit ^^ 8) (0xFFFE XOR push_bit 8 (ucast (ucast (drop_bit 8 sd) :: u8)))
     XOR push_bit 8 (ucast (ucast sd :: u8)))"
  by (simp add: calcKey_def Let_def upt_rec)

definition wconst1 :: u32 where "wconst1 = 0x0949a2b1"
definition wconst2 :: u32 where "wconst2 = 0x5f3b08de"

definition saGetKey :: "u32 \<Rightarrow> u8 \<Rightarrow> u32" where
  "saGetKey wSeed mode =
     (if mode \<noteq> 2 \<and> mode \<noteq> 4 then 0
      else let wConst = (if mode = 2 then wconst1 else wconst2);
               s0 = ucast (drop_bit 24 wSeed) :: u8; s1 = ucast (drop_bit 16 wSeed) :: u8;
               s2 = ucast (drop_bit 8 wSeed) :: u8; s3 = ucast wSeed :: u8;
               c3 = ucast (drop_bit 24 wConst) :: u8; c2 = ucast (drop_bit 16 wConst) :: u8;
               c1 = ucast (drop_bit 8 wConst) :: u8; c0 = ucast wConst :: u8;
               k0 = c0 * (s0 * s0) + c1 * (s1 * s1) + c2 * (s0 * s1);
               k1 = c0 * s0 + c1 * s1 + c3 * (s0 * s1);
               k2 = c0 * (s2 * s3) + c1 * (s3 * s3) + c2 * (s2 * s3);
               k3 = c0 * (s2 * s3) + c1 * s3 + c3 * (s2 * s3)
           in ucast k3 + push_bit 8 (ucast k2) + push_bit 16 (ucast k1) + push_bit 24 (ucast k0))"

section \<open>The automaton\<close>

definition RequestSeed_SubFunc :: "u8 list" where "RequestSeed_SubFunc = [0x03]"

definition get_request_security_level :: "u8 \<Rightarrow> u8" where
  "get_request_security_level sub =
     (if sub = 0 then SecurityAccess_LEVEL0
      else let sub = (if sub mod 2 = 0 then sub - 1 else sub)
           in case filter (\<lambda>l. sub = RequestSeed_SubFunc ! l) [0..<unat SecurityAccess_LEVEL1] of
                [] \<Rightarrow> SecurityAccess_LEVEL0 | l # _ \<Rightarrow> of_nat l + 1)"

definition uds_sa_cal_send_seed_msg :: "u16 \<Rightarrow> u8 \<Rightarrow> bytes" where
  "uds_sa_cal_send_seed_msg sd sub_func = [0x27 + POS_RESPOND_SID_MASK, sub_func, ucast (drop_bit 8 sd), ucast sd]"

text \<open>\<open>srand (current_time + (counter++)); seed = rand (); sub_function = sub\<close>, then the response.\<close>

definition sa_new_seed :: "uds_env \<Rightarrow> uds_st \<Rightarrow> u8 \<Rightarrow> uds_st" where
  "sa_new_seed e s sub =
     (let s = s\<lparr>seed := rand_after e (word_of_int (tm_get_time e + uint (sa_counter s))),
               sa_counter := sa_counter s + 1, sub_function := sub\<rparr>
      in uds_pos e s (uds_sa_cal_send_seed_msg (seed s) sub))"

text \<open>The seed request with the delay check, the same in the states (A) and (C).\<close>

definition sa_delay_expired :: "uds_env \<Rightarrow> uds_st \<Rightarrow> bool" where
  "sa_delay_expired e s \<longleftrightarrow> tm_get_time e - sa_time s > 10 * 1000"

definition sa_activate_seed :: "uds_env \<Rightarrow> uds_st \<Rightarrow> u8 \<Rightarrow> uds_st" where
  "sa_activate_seed e s sub =
     (let s = s\<lparr>times_satisfy_delay := times_satisfy_delay s + 1\<rparr>;
          s = (if times_satisfy_delay s = 1 then s\<lparr>Att_Cnt := 0\<rparr> else s)
      in sa_new_seed e (s\<lparr>is_seed_sent := True\<rparr>) sub)"

text \<open>(A) All security levels locked, no active seed.\<close>

definition sa_state_A :: "uds_env \<Rightarrow> uds_st \<Rightarrow> bytes \<Rightarrow> nat \<Rightarrow> uds_st" where
  "sa_state_A e s pdu dlc =
     (let sub = pdu ! 1 AND suppressPosRspMsgIndicationBitMask
      in if sub mod 2 = 1 then
           if dlc \<noteq> 2 then uds_neg e s (pdu ! 0) NRC_IncorrectMessageLengthOrInvailFormat
           else if sa_delay_expired e s then sa_activate_seed e s sub
           else uds_neg e s (pdu ! 0) NRC_RequiredTimeDelayNotExpired
         else uds_neg e s (pdu ! 0) NRC_RequstSequenceError)"

definition sa_key_of :: "bytes \<Rightarrow> u16" where
  "sa_key_of pdu = push_bit 8 (ucast (pdu ! 2)) + ucast (pdu ! 3)"

definition sa_unlock :: "uds_env \<Rightarrow> uds_st \<Rightarrow> bytes \<Rightarrow> uds_st" where
  "sa_unlock e s pdu =
     uds_pos e (s\<lparr>g_u8SecurityAccess := get_request_security_level (sub_function s), is_seed_sent := False,
       Att_Cnt := 0\<rparr>) [pdu ! 0 + POS_RESPOND_SID_MASK, pdu ! 1]"

text \<open>A wrong key: the next attempt is still allowed, or the delay starts.\<close>

abbreviation (input) "ATT_CNT_LIMIT \<equiv> 3 :: nat"

definition sa_wrong_key :: "uds_env \<Rightarrow> uds_st \<Rightarrow> bytes \<Rightarrow> uds_st" where
  "sa_wrong_key e s pdu =
     (let s' = s\<lparr>is_seed_sent := False, Att_Cnt := Att_Cnt s + 1\<rparr>
      in if unat (Att_Cnt s) + 1 < ATT_CNT_LIMIT then uds_neg e s' (pdu ! 0) NRC_InvalidKey
         else uds_neg e (s'\<lparr>sa_time := tm_get_time_again e, times_satisfy_delay := 0\<rparr>) (pdu ! 0)
                NRC_ExceedNumberOfAttempts)"

text \<open>The key is checked the same way in (B) and (D).\<close>

definition sa_send_key :: "uds_env \<Rightarrow> uds_st \<Rightarrow> bytes \<Rightarrow> nat \<Rightarrow> uds_st" where
  "sa_send_key e s pdu dlc =
     (let sub = pdu ! 1 AND suppressPosRspMsgIndicationBitMask;
          s' = s\<lparr>is_seed_sent := False, Att_Cnt := Att_Cnt s + 1\<rparr>
      in if unat sub \<noteq> unat (sub_function s) + 1 then uds_neg e s' (pdu ! 0) NRC_RequstSequenceError
         else if dlc \<noteq> 4 then uds_neg e s' (pdu ! 0) NRC_IncorrectMessageLengthOrInvailFormat
         else if sa_key_of pdu = calcKey (seed s) then sa_unlock e s pdu
         else sa_wrong_key e s pdu)"

text \<open>(B) All security levels locked, seed sent, waiting for the key.\<close>

definition sa_state_B :: "uds_env \<Rightarrow> uds_st \<Rightarrow> bytes \<Rightarrow> nat \<Rightarrow> uds_st" where
  "sa_state_B e s pdu dlc =
     (let sub = pdu ! 1 AND suppressPosRspMsgIndicationBitMask
      in if sub mod 2 = 0 then sa_send_key e s pdu dlc else sa_new_seed e s sub)"

text \<open>(C) One security level unlocked, no active seed.\<close>

definition sa_state_C :: "uds_env \<Rightarrow> uds_st \<Rightarrow> bytes \<Rightarrow> nat \<Rightarrow> uds_st" where
  "sa_state_C e s pdu dlc =
     (let sub = pdu ! 1 AND suppressPosRspMsgIndicationBitMask
      in if sub mod 2 = 0 then uds_neg e s (pdu ! 0) NRC_RequstSequenceError
         else if g_u8SecurityAccess s = get_request_security_level sub then
           let s = s\<lparr>seed := 0\<rparr> in uds_pos e s (uds_sa_cal_send_seed_msg (seed s) sub)
         else if dlc \<noteq> 2 then
           uds_neg e (s\<lparr>Att_Cnt := Att_Cnt s + 1\<rparr>) (pdu ! 0) NRC_IncorrectMessageLengthOrInvailFormat
         else if sa_delay_expired e s then sa_activate_seed e s sub
         else uds_neg e s (pdu ! 0) NRC_RequiredTimeDelayNotExpired)"

text \<open>(D) One security level unlocked, seed sent, waiting for the key.\<close>

definition sa_state_D :: "uds_env \<Rightarrow> uds_st \<Rightarrow> bytes \<Rightarrow> nat \<Rightarrow> uds_st" where
  "sa_state_D e s pdu dlc =
     (let sub = pdu ! 1 AND suppressPosRspMsgIndicationBitMask
      in if sub mod 2 = 0 then sa_send_key e s pdu dlc
         else if g_u8SecurityAccess s = SecurityAccess_LEVEL1 then
           let s = s\<lparr>is_seed_sent := False, seed := 0\<rparr>
           in uds_pos e s (uds_sa_cal_send_seed_msg (seed s) sub)
         else sa_new_seed e s sub)"

definition UDS_SRV_SecrityAcess :: "uds_env \<Rightarrow> uds_st \<Rightarrow> bytes \<Rightarrow> nat \<Rightarrow> uds_st" where
  "UDS_SRV_SecrityAcess e s pdu dlc =
     (if dlc < 2 then uds_neg e s (pdu ! 0) NRC_IncorrectMessageLengthOrInvailFormat
      else if get_request_security_level (pdu ! 1 AND suppressPosRspMsgIndicationBitMask) = 0 then
        uds_neg e s (pdu ! 0) NRC_SubFuncationNotSupported
      else if g_u8SecurityAccess s = SecurityAccess_LEVEL0 then
        if \<not> is_seed_sent s then sa_state_A e s pdu dlc else sa_state_B e s pdu dlc
      else
        if \<not> is_seed_sent s then sa_state_C e s pdu dlc else sa_state_D e s pdu dlc)"

section \<open>What a request does\<close>

lemma security_levels: "get_request_security_level x \<noteq> 0 \<longleftrightarrow> x = 3 \<or> x = 4"
proof -
  have *: "get_request_security_level x =
      (if x = 0 then 0 else if (if x mod 2 = 0 then x - 1 else x) = 3 then 1 else 0)"
    by (simp add: get_request_security_level_def RequestSeed_SubFunc_def)
  have "x - 1 = 3 \<longleftrightarrow> x = 4" by (simp add: diff_eq_eq)
  then show ?thesis by (auto simp: *)
qed

lemma security_level_3: "get_request_security_level 3 = 1" "get_request_security_level 4 = 1"
  by (simp_all add: get_request_security_level_def RequestSeed_SubFunc_def)

text \<open>
  The specification: a request is malformed, asks for a seed (with the right length or not) or
  brings a key (or a message of the wrong length in its place), and the automaton works on the
  core of the state.
\<close>

datatype sa_req = SaOther | SaSeed bool | SaKey "u16 option"

definition sa_classify :: "bytes \<Rightarrow> nat \<Rightarrow> sa_req" where
  "sa_classify pdu dlc =
     (let sub = pdu ! 1 AND 0x7F
      in if dlc < 2 then SaOther
         else if sub = 3 then SaSeed (dlc = 2)
         else if sub = 4 then SaKey (if dlc = 4 then Some (sa_key_of pdu) else None)
         else SaOther)"

definition sa_fresh :: "uds_env \<Rightarrow> uds_core \<Rightarrow> uds_core" where
  "sa_fresh e c = c\<lparr>c_seed := rand_after e (word_of_int (tm_get_time e + uint (c_counter c))),
     c_counter := c_counter c + 1, c_sub := 3\<rparr>"

fun sa_spec :: "uds_env \<Rightarrow> uds_core \<Rightarrow> sa_req \<Rightarrow> uds_core" where
  "sa_spec e c SaOther = c"
| "sa_spec e c (SaSeed len_ok) =
     (if c_level c \<noteq> 0 then c\<lparr>c_seed := 0\<rparr>
      else if c_seed_sent c then sa_fresh e c
      else if len_ok \<and> tm_get_time e - c_time c > 10000 then
        sa_fresh e (c\<lparr>c_delay := c_delay c + 1, c_att := (if c_delay c + 1 = 1 then 0 else c_att c),
                     c_seed_sent := True\<rparr>)
      else c)"
| "sa_spec e c (SaKey k) =
     (if \<not> c_seed_sent c then c
      else let c' = c\<lparr>c_seed_sent := False, c_att := c_att c + 1\<rparr>
           in case k of
                None \<Rightarrow> c'
              | Some key \<Rightarrow>
                  if key = calcKey (c_seed c) then c\<lparr>c_level := 1, c_seed_sent := False, c_att := 0\<rparr>
                  else if unat (c_att c) < 2 then c'
                  else c'\<lparr>c_time := tm_get_time_again e, c_delay := 0\<rparr>)"

text \<open>Level 1 is the only one, and it never has a pending seed: the state (D) is not reached.\<close>

definition sa_inv :: "uds_core \<Rightarrow> bool" where
  "sa_inv c \<longleftrightarrow> c_level c \<in> {0, 1} \<and> (c_seed_sent c \<longrightarrow> c_sub c = 3 \<and> c_level c = 0)"

lemma sa_spec_inv: "sa_inv c \<Longrightarrow> sa_inv (sa_spec e c r)"
  by (cases r) (auto simp: sa_inv_def sa_fresh_def Let_def split: option.splits)

lemma core_simps:
  "c_session (core s) = g_u8CurrentSessionType s" "c_level (core s) = g_u8SecurityAccess s"
  "c_seed_sent (core s) = is_seed_sent s" "c_att (core s) = Att_Cnt s" "c_time (core s) = sa_time s"
  "c_sub (core s) = sub_function s" "c_counter (core s) = sa_counter s" "c_seed (core s) = seed s"
  "c_delay (core s) = times_satisfy_delay s"
  by (simp_all add: core_def)

lemma core_fresh: "core (sa_new_seed e s 3) = sa_fresh e (core s)"
  by (simp add: sa_new_seed_def Let_def sa_fresh_def) (simp add: core_def)

lemma core_activate:
  "core (sa_activate_seed e s 3) = sa_fresh e ((core s)\<lparr>c_delay := times_satisfy_delay s + 1,
     c_att := (if times_satisfy_delay s + 1 = 1 then 0 else Att_Cnt s), c_seed_sent := True\<rparr>)"
  by (simp add: sa_activate_seed_def core_fresh Let_def) (simp add: core_def sa_fresh_def)

lemma core_send_key:
  assumes "pdu ! 1 AND 0x7F = 4" and "sub_function s = 3" and "is_seed_sent s"
  shows "core (sa_send_key e s pdu dlc) =
    sa_spec e (core s) (SaKey (if dlc = 4 then Some (sa_key_of pdu) else None))"
  using assms
  by (simp add: sa_send_key_def sa_unlock_def sa_wrong_key_def Let_def security_level_3)
    (simp add: core_def numeral_2_eq_2)

lemma sa_refines:
  assumes "sa_inv (core s)"
  shows "core (UDS_SRV_SecrityAcess e s pdu dlc) = sa_spec e (core s) (sa_classify pdu dlc)"
proof -
  let ?sub = "pdu ! 1 AND 0x7F"
  have l: "g_u8SecurityAccess s = 0 \<or> g_u8SecurityAccess s = 1" "is_seed_sent s \<Longrightarrow> sub_function s = 3"
    "is_seed_sent s \<Longrightarrow> g_u8SecurityAccess s = 0"
    using assms by (auto simp: sa_inv_def core_simps)
  consider "dlc < 2" | "2 \<le> dlc" "?sub \<noteq> 3" "?sub \<noteq> 4" | "2 \<le> dlc" "?sub = 3" | "2 \<le> dlc" "?sub = 4" by linarith
  then show ?thesis
  proof cases
    case 1
    then show ?thesis by (simp add: UDS_SRV_SecrityAcess_def sa_classify_def)
  next
    case 2
    then have "get_request_security_level ?sub = 0" using security_levels [of ?sub] by blast
    with 2 show ?thesis by (simp add: UDS_SRV_SecrityAcess_def sa_classify_def Let_def)
  next
    case 3
    then have eq: "UDS_SRV_SecrityAcess e s pdu dlc =
        (if g_u8SecurityAccess s = 0 then if \<not> is_seed_sent s then sa_state_A e s pdu dlc else sa_state_B e s pdu dlc
         else sa_state_C e s pdu dlc)" and r: "sa_classify pdu dlc = SaSeed (dlc = 2)"
      using l(3) by (auto simp: UDS_SRV_SecrityAcess_def security_level_3 sa_classify_def)
    show ?thesis
    proof (cases "g_u8SecurityAccess s = 0")
      case True
      then show ?thesis unfolding eq r using 3
        by (simp add: sa_state_A_def sa_state_B_def core_simps core_fresh core_activate sa_delay_expired_def)
    next
      case False
      then have lv: "g_u8SecurityAccess s = 1" using l(1) by blast
      have "core (s\<lparr>seed := 0\<rparr>) = (core s)\<lparr>c_seed := 0\<rparr>" by (simp add: core_def)
      with lv show ?thesis unfolding eq r using 3
        by (simp add: sa_state_C_def core_simps security_level_3 Let_def)
    qed
  next
    case 4
    then have eq: "UDS_SRV_SecrityAcess e s pdu dlc =
        (if g_u8SecurityAccess s = 0 then if \<not> is_seed_sent s then sa_state_A e s pdu dlc else sa_state_B e s pdu dlc
         else sa_state_C e s pdu dlc)"
      and r: "sa_classify pdu dlc = SaKey (if dlc = 4 then Some (sa_key_of pdu) else None)"
      using l(3) by (auto simp: UDS_SRV_SecrityAcess_def security_level_3 sa_classify_def)
    show ?thesis
    proof (cases "is_seed_sent s")
      case True
      with l 4 show ?thesis unfolding eq r by (simp add: sa_state_B_def core_send_key del: sa_spec.simps)
    next
      case False
      then show ?thesis unfolding eq r using 4 by (simp add: sa_state_A_def sa_state_C_def core_simps)
    qed
  qed
qed

section \<open>Consequences\<close>

lemma sa_unlock_needs_key:
  assumes "c_level c = 0" and "c_level (sa_spec e c r) \<noteq> 0"
  shows "r = SaKey (Some (calcKey (c_seed c))) \<and> c_seed_sent c"
  using assms by (cases r) (auto simp: sa_fresh_def Let_def split: option.splits if_splits)

text \<open>After the third wrong key the automaton is in a state that ten seconds of requests do not leave.\<close>

definition sa_locked :: "int \<Rightarrow> uds_core \<Rightarrow> bool" where
  "sa_locked t c \<longleftrightarrow> c_level c = 0 \<and> \<not> c_seed_sent c \<and> c_time c = t"

lemma sa_locked_step:
  assumes "sa_locked t c" and "tm_get_time e \<le> t + 10000"
  shows "sa_spec e c r = c"
  using assms by (cases r) (auto simp: sa_locked_def Let_def)

lemma sa_third_wrong_key:
  assumes "c_seed_sent c" "c_level c = 0" "key \<noteq> calcKey (c_seed c)" "2 \<le> unat (c_att c)"
  shows "sa_locked (tm_get_time_again e) (sa_spec e c (SaKey (Some key)))"
  using assms by (simp add: sa_locked_def Let_def)

end
