(* ===== verification/UdsServer.thy ===== *)
theory UdsServer
  imports UdsSecurity
begin

text \<open>
  The services of the diagnostic server, one definition per handler of \<^verbatim>\<open>app/base/uds/server\<close>, the
  dispatch of \<^verbatim>\<open>uds_server.c\<close> with its tables, and the message and timeout entry points of
  \<^verbatim>\<open>uds_proxy.c\<close> and \<^verbatim>\<open>uds_main.c\<close>. The last section proves what holds after any sequence of messages
  and timeouts.
\<close>

section \<open>Services\<close>

abbreviation (input) "sub_of pdu \<equiv> pdu ! 1 AND suppressPosRspMsgIndicationBitMask"

text \<open>\<open>if (pdu[1] & suppressPosRspMsgIndicationBit) flag = 1\<close>\<close>

definition set_suppress :: "uds_st \<Rightarrow> bytes \<Rightarrow> uds_st" where
  "set_suppress s pdu = (if pdu ! 1 AND suppressPosRspMsgIndicationBit \<noteq> 0
     then s\<lparr>g_u8suppressPosRspMsgIndicationFlag := True\<rparr> else s)"

definition uds_send_can_CommunicationControl_to_mcu :: "uds_st \<Rightarrow> u8 \<Rightarrow> u8 \<Rightarrow> uds_st" where
  "uds_send_can_CommunicationControl_to_mcu s ty val = s\<lparr>out := out s @ [CommControl ty val]\<rparr>"

definition UDS_SetDTCOn :: "uds_st \<Rightarrow> uds_st" where
  "UDS_SetDTCOn s = s\<lparr>DTCSwitch := True\<rparr>"

definition UDS_SRV_DiagSessionCtrl :: "uds_env \<Rightarrow> uds_st \<Rightarrow> bytes \<Rightarrow> nat \<Rightarrow> uds_st" where
  "UDS_SRV_DiagSessionCtrl e s pdu dlc =
     (let respond = (\<lambda>s. let s = set_suppress s pdu;
            p2 = timer_value (timer_t (uds_server s) ! P2SERVER);
            p2e = timer_value (timer_t (uds_server s) ! P2EXT_SERVER)
          in uds_pos e s [pdu ! 0 + POS_RESPOND_SID_MASK, pdu ! 1, ucast (drop_bit 8 p2), ucast p2,
               ucast (drop_bit 8 (p2e div 10)), ucast (p2e div 10)])
      in if dlc \<noteq> 2 then uds_neg e s (pdu ! 0) NRC_IncorrectMessageLengthOrInvailFormat
         else if sub_of pdu = SESSION_TYPE_DEFAULT then
           respond (uds_send_can_CommunicationControl_to_mcu (UDS_SetDTCOn
             (s\<lparr>g_u8CurrentSessionType := SESSION_TYPE_DEFAULT, g_u8SecurityAccess := SecurityAccess_LEVEL0\<rparr>)) 2 0)
         else if sub_of pdu = SESSION_TYPE_EXTENDED then
           (if g_u8CurrentSessionType s \<noteq> SESSION_TYPE_PROGRAM then
              respond (s\<lparr>g_u8CurrentSessionType := SESSION_TYPE_EXTENDED, g_u8SecurityAccess := SecurityAccess_LEVEL0\<rparr>)
            else uds_neg e s (pdu ! 0) NRC_ConditionsNotCorrect)
         else uds_neg e s (pdu ! 0) NRC_SubFuncationNotSupported)"

definition UDS_SRV_EcuReset :: "uds_env \<Rightarrow> uds_st \<Rightarrow> bytes \<Rightarrow> nat \<Rightarrow> uds_st" where
  "UDS_SRV_EcuReset e s pdu dlc =
     (if dlc \<noteq> 2 then uds_neg e s (pdu ! 0) NRC_IncorrectMessageLengthOrInvailFormat
      else if vehicleSpeed e > 50 then uds_neg e s (pdu ! 0) NRC_ConditionsNotCorrect
      else if g_u32DiagID s = can_id_phy (uds_server s) \<and> g_u8SecurityAccess s \<noteq> SecurityAccess_LEVEL1
        then uds_neg e s (pdu ! 0) NRC_SecurityAccessDenied
      else if sub_of pdu = 0x01 then
        let s = uds_pos e (set_suppress s pdu) [pdu ! 0 + POS_RESPOND_SID_MASK, pdu ! 1]
        in s\<lparr>out := out s @ [RestartReq]\<rparr>
      else uds_neg e s (pdu ! 0) NRC_SubFuncationNotSupported)"

definition UDS_SRV_ClearDTC :: "uds_env \<Rightarrow> uds_st \<Rightarrow> bytes \<Rightarrow> nat \<Rightarrow> uds_st" where
  "UDS_SRV_ClearDTC e s pdu dlc =
     (if dlc = 4 then
        let u32GroupOfDTC = (ucast (pdu ! 1) :: u32) OR push_bit 8 (ucast (pdu ! 2)) OR push_bit 16 (ucast (pdu ! 3))
        in if u32GroupOfDTC = 0xFFFFFF then
             let s = uds_neg e s (pdu ! 0) NRC_RequestCorrectlyReceivedResponsePending;
                 s = s\<lparr>out := out s @ [DtcClear]\<rparr>
             in uds_pos e s [pdu ! 0 + POS_RESPOND_SID_MASK]
           else uds_neg e s (pdu ! 0) NRC_RequestOutOfRange
      else uds_neg e s (pdu ! 0) NRC_IncorrectMessageLengthOrInvailFormat)"

definition UDS_SRV_TesterPresent :: "uds_env \<Rightarrow> uds_st \<Rightarrow> bytes \<Rightarrow> nat \<Rightarrow> uds_st" where
  "UDS_SRV_TesterPresent e s pdu dlc =
     (if dlc \<noteq> 2 then uds_neg e s (pdu ! 0) NRC_IncorrectMessageLengthOrInvailFormat
      else if sub_of pdu = 0 then
        uds_pos e (set_suppress s pdu) [pdu ! 0 + POS_RESPOND_SID_MASK, pdu ! 1]
      else uds_neg e s (pdu ! 0) NRC_SubFuncationNotSupported)"

definition UDS_SRV_ControlDTCSetting :: "uds_env \<Rightarrow> uds_st \<Rightarrow> bytes \<Rightarrow> nat \<Rightarrow> uds_st" where
  "UDS_SRV_ControlDTCSetting e s pdu dlc =
     (let respond = (\<lambda>s. uds_pos e (set_suppress s pdu) [pdu ! 0 + POS_RESPOND_SID_MASK, pdu ! 1])
      in if dlc \<noteq> 2 then uds_neg e s (pdu ! 0) NRC_IncorrectMessageLengthOrInvailFormat
         else if sub_of pdu = 0x01 then respond (s\<lparr>DTCSwitch := True\<rparr>)
         else if sub_of pdu = 0x02 then respond (s\<lparr>DTCSwitch := False\<rparr>)
         else uds_neg e s (pdu ! 0) NRC_SubFuncationNotSupported)"

text \<open>The flags are set before the communication type is checked.\<close>

definition UDS_SRV_CommunicationControl :: "uds_env \<Rightarrow> uds_st \<Rightarrow> bytes \<Rightarrow> nat \<Rightarrow> uds_st" where
  "UDS_SRV_CommunicationControl e s pdu dlc =
     (let respond = (\<lambda>s val.
            if pdu ! 2 = 1 \<or> pdu ! 2 = 2 \<or> pdu ! 2 = 3 then
              let s = uds_send_can_CommunicationControl_to_mcu s (pdu ! 2 - 1) val
              in uds_pos e (set_suppress s pdu) [pdu ! 0 + POS_RESPOND_SID_MASK, pdu ! 1]
            else uds_neg e s (pdu ! 0) NRC_RequestOutOfRange)
      in if dlc \<noteq> 3 then uds_neg e s (pdu ! 0) NRC_IncorrectMessageLengthOrInvailFormat
         else if sub_of pdu = 0x00 then
           respond (if pdu ! 2 = 1 then s\<lparr>g_TxFlag := True, g_RxFlag := True\<rparr> else s) 0
         else if sub_of pdu = 0x03 then
           respond (if pdu ! 2 = 1 then s\<lparr>g_TxFlag := False, g_RxFlag := False\<rparr> else s) 1
         else uds_neg e s (pdu ! 0) NRC_SubFuncationNotSupported)"

definition did_of :: "bytes \<Rightarrow> u16" where
  "did_of pdu = push_bit 8 (ucast (pdu ! 1)) + ucast (pdu ! 2)"

text \<open>The length test \<open>(dlc != 3) | ((dlc % 2) == 0)\<close> leaves exactly one identifier.\<close>

definition UDS_SRV_ReadDataByID :: "uds_env \<Rightarrow> uds_st \<Rightarrow> bytes \<Rightarrow> nat \<Rightarrow> uds_st" where
  "UDS_SRV_ReadDataByID e s pdu dlc =
     (if dlc \<noteq> 3 \<or> dlc mod 2 = 0 then uds_neg e s (pdu ! 0) NRC_IncorrectMessageLengthOrInvailFormat
      else let did = did_of pdu
           in case did_get e did (2000 - 3) of
                None \<Rightarrow> uds_neg e s (pdu ! 0) NRC_RequestOutOfRange
              | Some d \<Rightarrow> uds_pos e s ([pdu ! 0 + POS_RESPOND_SID_MASK, ucast (drop_bit 8 did), ucast did] @ d))"

definition UDS_SRV_WriteDataByID :: "uds_env \<Rightarrow> uds_st \<Rightarrow> bytes \<Rightarrow> nat \<Rightarrow> uds_st" where
  "UDS_SRV_WriteDataByID e s pdu dlc =
     (if dlc < 3 then uds_neg e s (pdu ! 0) NRC_IncorrectMessageLengthOrInvailFormat
      else let d = take (dlc - 3) (drop 3 pdu); ret = did_check e (did_of pdu) d
           in if ret \<noteq> 0 then uds_neg e s (pdu ! 0) ret
              else let ret = did_set e (did_of pdu) d
                   in if ret \<noteq> 0 then uds_neg e s (pdu ! 0) ret
                      else uds_pos e s [pdu ! 0 + POS_RESPOND_SID_MASK, pdu ! 1, pdu ! 2])"

text \<open>The fault memory reports are an argument, filled in by the theory FaultMem: each answers once, in the negative or
  the positive.\<close>

definition read_dtc_service :: "uds_env \<Rightarrow> uds_st \<Rightarrow> bytes \<Rightarrow> nat \<Rightarrow> uds_st" where
  "read_dtc_service e s pdu dlc =
     (if dlc < 2 then uds_neg e s (pdu ! 0) NRC_IncorrectMessageLengthOrInvailFormat
      else case dtc_report e pdu dlc of
             Inl nrc \<Rightarrow> uds_neg e s (pdu ! 0) nrc
           | Inr reply \<Rightarrow> uds_pos e s reply)"

section \<open>Dispatch\<close>

definition uds_index_mask :: "nat list" where
  "uds_index_mask =
    [0, 0, 0, 0, 0, 0, 0, 0, 0, 0, 0, 0, 0, 0, 0, 0,
     1, 2, 0, 0, 3, 0, 0, 0, 0, 4, 0, 0, 0, 0, 0, 0,
     0, 0, 5, 0, 0, 0, 0, 6, 7, 0, 0, 0, 0, 0, 8, 0,
     0, 0, 0, 0, 0, 0, 0, 0, 0, 0, 0, 0, 0, 0, 11, 0,
     0, 0, 0, 0, 0, 12, 0, 0, 0, 0, 0, 0, 0, 0, 0, 0]"

definition server_supper_table :: "u8 list" where
  "server_supper_table =
    [0x00, 0x00, 0x00, 0x00, 0x00, 0x00, 0x00, 0x00, 0x00, 0x00, 0x00, 0x00, 0x00, 0x00, 0x00, 0x00,
     0xFF, 0xFB, 0x00, 0x00, 0xEF, 0x00, 0x00, 0x00, 0x00, 0xED, 0x00, 0x00, 0x00, 0x00, 0x00, 0x00,
     0x00, 0x00, 0xFF, 0x00, 0x00, 0x00, 0x00, 0xE9, 0xEB, 0x00, 0x00, 0x00, 0x00, 0x00, 0x59, 0x00,
     0x00, 0xF9, 0x00, 0x00, 0x31, 0x00, 0x31, 0x31, 0x00, 0x00, 0x00, 0x00, 0x00, 0x00, 0xFF, 0x00,
     0x00, 0x00, 0x00, 0x00, 0x00, 0xEB, 0x00, 0x00, 0x00, 0x00, 0x00, 0x00, 0x00, 0x00, 0x00, 0x00]"

definition uds_get_table_index :: "u8 \<Rightarrow> nat" where
  "uds_get_table_index sid =
     (let h4bit = sid AND 0xF0
      in if h4bit = 0x00 \<or> h4bit = 0x10 \<or> h4bit = 0x20 \<or> h4bit = 0x30 then unat (h4bit + (sid AND 0x0F))
         else if h4bit = 0x80 then unat (0x40 + (sid AND 0x0F))
         else 79)"

text \<open>\<open>uds_appl_table\<close>, by index; the input/output control and the three download services are empty
  functions there.\<close>

definition uds_appl_table :: "uds_env \<Rightarrow> nat \<Rightarrow> uds_st \<Rightarrow> bytes \<Rightarrow> nat \<Rightarrow> uds_st" where
  "uds_appl_table e i s pdu dlc =
     (if i = 0 then uds_neg e s (pdu ! 0) NRC_ServiceNotSupported
      else if i = 1 then UDS_SRV_DiagSessionCtrl e s pdu dlc
      else if i = 2 then UDS_SRV_EcuReset e s pdu dlc
      else if i = 3 then UDS_SRV_ClearDTC e s pdu dlc
      else if i = 4 then read_dtc_service e s pdu dlc
      else if i = 5 then UDS_SRV_ReadDataByID e s pdu dlc
      else if i = 6 then UDS_SRV_SecrityAcess e s pdu dlc
      else if i = 7 then UDS_SRV_CommunicationControl e s pdu dlc
      else if i = 8 then UDS_SRV_WriteDataByID e s pdu dlc
      else if i = 10 then routine_control e s pdu dlc
      else if i = 11 then UDS_SRV_TesterPresent e s pdu dlc
      else if i = 12 then UDS_SRV_ControlDTCSetting e s pdu dlc
      else s)"

definition session_mask :: "u8 \<Rightarrow> u8 \<Rightarrow> u8 \<Rightarrow> u8" where
  "session_mask session spt m =
     (if session = SESSION_TYPE_DEFAULT then spt AND 0x04
      else if session = SESSION_TYPE_PROGRAM then spt AND 0x10
      else if session = SESSION_TYPE_EXTENDED then spt AND 0x08 else m)"

definition security_mask :: "u8 \<Rightarrow> u8 \<Rightarrow> u8 \<Rightarrow> u8" where
  "security_mask level spt m =
     (if level = SecurityAccess_LEVEL0 then spt AND 0x80
      else if level = SecurityAccess_LEVEL1 then spt AND 0x40
      else if level = SecurityAccess_LEVEL2 then spt AND 0x20 else m)"

definition uds_server_proc :: "uds_env \<Rightarrow> uds_st \<Rightarrow> u32 \<Rightarrow> bytes \<Rightarrow> nat \<Rightarrow> uds_st" where
  "uds_server_proc e s can_id pdu lenth =
     (let table_index = uds_get_table_index (pdu ! 0);
          sid_index = uds_index_mask ! table_index;
          spt = server_supper_table ! table_index;
          s = s\<lparr>g_u32DiagID := can_id\<rparr>
      in if sid_index = 0 then uds_neg e s (pdu ! 0) NRC_ServiceNotSupported
         else
           let m = (if can_id_phy (uds_server s) = can_id then spt AND 0x01 else spt AND 0x02)
           in if \<not> m > 0 then s
              else
                let m = session_mask (g_u8CurrentSessionType s) spt m
                in if \<not> m > 0 then uds_neg e s (pdu ! 0) NRC_ServiceNotSupportedInActiveSession
                   else
                     let m = security_mask (g_u8SecurityAccess s) spt m
                     in if m > 0 then
                          if sid_index < 16 then uds_appl_table e sid_index s pdu lenth
                          else uds_neg e s (pdu ! 0) NRC_ServiceNotSupported
                        else uds_neg e s (pdu ! 0) NRC_SecurityAccessDenied)"

section \<open>Messages and timeouts\<close>

definition can_id_of :: "bytes \<Rightarrow> u32" where
  "can_id_of m = ucast (m ! 0) OR push_bit 8 (ucast (m ! 1)) OR push_bit 16 (ucast (m ! 2)) OR push_bit 24 (ucast (m ! 3))"

definition uds_set_uds_server_mode :: "uds_st \<Rightarrow> u8 \<Rightarrow> int \<times> uds_st" where
  "uds_set_uds_server_mode s mode =
     (if mode = uds_mode (uds_server s) then (0, s)
      else if g_u8CurrentSessionType s = SESSION_TYPE_DEFAULT \<and> g_u8SecurityAccess s = SecurityAccess_LEVEL0
        then (0, s\<lparr>uds_server := (uds_server s)\<lparr>uds_mode := mode\<rparr>\<rparr>)
        else (1, s))"

definition is_remote_diag_response :: "uds_st \<Rightarrow> bytes \<Rightarrow> int" where
  "is_remote_diag_response s msg =
     (let ty = msg ! 0; m = tl msg; can_id = can_id_of m
      in if ty = 0xF7 then 0
         else if ty = 0xF8 then 1
         else if ty = 0xF5 then
           (if can_id = can_id_res (uds_server s) then 0
            else if can_id = can_id_req (uds_client s) then 1 else 0)
         else if ty = 0xF4 then
           (if can_id = can_id_fun (uds_server s) \<or> can_id = can_id_phy (uds_server s) then 0 else 1)
         else 0)"

definition uds_confirm :: "UDS_T \<Rightarrow> u8 \<Rightarrow> UDS_T" where
  "uds_confirm u result =
     (if result = 1 then
        if uds_mode u = UDS_TYPE_CLIENT then uds_set_timer u P2CLINT 1
        else if uds_mode u = UDS_TYPE_SERVER then
          let u = uds_set_timer u P2SERVER 0
          in if uds_sid u \<noteq> SID_NegativeResponse then uds_set_timer u P2EXT_SERVER 0 else u
        else u
      else u)"

text \<open>The request of a client object, as far as the server module sees it: the response to it ends the
  wait, unless it announces another one.\<close>

definition uds_client_ind :: "uds_st \<Rightarrow> u32 \<Rightarrow> bytes \<Rightarrow> nat \<Rightarrow> uds_st" where
  "uds_client_ind s can_id msg len =
     (let srv_id = (if msg ! 0 = SID_NegativeResponse then msg ! 1 else msg ! 0 - POS_RESPOND_SID_MASK)
      in if srv_id = uds_sid (uds_client s) \<and> srv_id \<noteq> 0x3E then
           let c = uds_set_timer (uds_client s) P2CLINT 0
           in if msg ! 0 = SID_NegativeResponse \<and> msg ! 2 = NRC_RequestCorrectlyReceivedResponsePending
              then s\<lparr>uds_client := uds_set_timer c P2EXT_CLIENT 1\<rparr>
              else let s = s\<lparr>uds_client := uds_set_timer c P2EXT_CLIENT 0\<rparr>
                   in if client_cb s then s\<lparr>out := out s @ [ClientCb 0xF4 can_id (take len msg)]\<rparr> else s
         else s)"

text \<open>The length test multiplies the high byte with \<open>0xff\<close>.\<close>

definition ind_len_ok :: "bytes \<Rightarrow> nat \<Rightarrow> bool" where
  "ind_len_ok m n \<longleftrightarrow> \<not> (n < 6 \<or> n - 6 \<noteq> unat (m ! 4) + unat (m ! 5) * 0xff)"

definition uds_proxy :: "uds_env \<Rightarrow> uds_st \<Rightarrow> bytes \<Rightarrow> nat \<Rightarrow> uds_st" where
  "uds_proxy e s msg len =
     (if len < 1 then s
      else let msg_id = msg ! 0; m = tl msg; n = len - 1
      in if msg_id = 0xF7 then s\<lparr>uds_server := uds_set_timer (uds_server s) SERVER_SET 0\<rparr>
         else if msg_id = 0xF8 then
           (let s = s\<lparr>uds_client := uds_set_timer (uds_client s) CLIENT_SET 0\<rparr>
            in if client_cb s then s\<lparr>out := out s @ [ClientCb 0xF8 0 []]\<rparr> else s)
         else if msg_id = 0xF5 then
           (if n < 5 then s
            else let can_id = can_id_of m
                 in if can_id = can_id_res (uds_server s)
                    then s\<lparr>uds_server := uds_confirm (uds_server s) (m ! 4)\<rparr>
                    else if can_id = can_id_req (uds_client s)
                    then s\<lparr>uds_client := uds_confirm (uds_client s) (m ! 4)\<rparr>
                    else s)
         else if msg_id = 0xF4 then
           (if \<not> ind_len_ok m n then s
            else let can_id = can_id_of m; len = n - 6; pdu = drop 6 m
                 in if can_id = can_id_fun (uds_server s) \<or> can_id = can_id_phy (uds_server s) then
                      let u = uds_set_timer (uds_server s) P2SERVER 1;
                          u = uds_set_timer u S3SERVER 1
                      in uds_server_proc e (s\<lparr>uds_server := u\<rparr>) can_id pdu len
                    else uds_client_ind s can_id pdu len)
         else s)"

text \<open>\<^verbatim>\<open>UDS_TL_CFG_T\<close>, packed: port, filler, separation time, block size, the two time limits, the
  physical, functional and response address.\<close>

definition tl_cfg_bytes :: "u8 \<Rightarrow> u8 \<Rightarrow> u8 \<Rightarrow> u8 \<Rightarrow> u16 \<Rightarrow> u16 \<Rightarrow> u32 \<Rightarrow> u32 \<Rightarrow> u32 \<Rightarrow> bytes" where
  "tl_cfg_bytes port fill stmin bs n_bs n_cr phy fid res =
     [port, fill, stmin, bs] @ le16 n_bs @ le16 n_cr @ le32 phy @ le32 fid @ le32 res"

definition server_cfg_bytes :: bytes where
  "server_cfg_bytes = tl_cfg_bytes 1 0 10 0 90 150 0x7A0 0x7DF 0x7B0"

definition uds_set_server :: "uds_env \<Rightarrow> uds_st \<Rightarrow> u32 \<times> uds_st" where
  "uds_set_server e s =
     (let u = (uds_server s)\<lparr>uds_mode := UDS_TYPE_SERVER, canport := 1, can_id_phy := 0x7A0, can_id_fun := 0x7DF,
                can_id_res := 0x7B0\<rparr>;
          u = uds_set_timer u SERVER_SET 1
      in case uds_data_request e u MSG_ID_UDS_SET_S 0 server_cfg_bytes (length server_cfg_bytes) of
           (r, u, sent) \<Rightarrow> (r, s\<lparr>uds_server := u, out := out s @ sent\<rparr>))"

definition uds_timeout :: "uds_env \<Rightarrow> uds_st \<Rightarrow> nat \<Rightarrow> u16 \<Rightarrow> uds_st" where
  "uds_timeout e s timer_id seq =
     (let u = (if timer_id = P2SERVER \<or> timer_id = P2EXT_SERVER \<or> timer_id = S3SERVER \<or> timer_id = SERVER_SET
               then uds_server s else uds_client s)
      in if timer_seq (timer_t u ! timer_id) \<noteq> seq then s
         else if timer_id = S3SERVER then
           uds_send_can_CommunicationControl_to_mcu (UDS_SetDTCOn
             (s\<lparr>g_u8CurrentSessionType := SESSION_TYPE_DEFAULT, g_u8SecurityAccess := SecurityAccess_LEVEL0\<rparr>)) 2 0
         else if timer_id = SERVER_SET then snd (uds_set_server e s)
         else if timer_id \<in> {CLIENT_SET, P2CLINT, P2EXT_CLIENT} then
           (if client_cb s then s\<lparr>out := out s @ [ClientCb (- 1) 0 []]\<rparr> else s)
         else s)"

definition uds_proxy_init :: "uds_st \<Rightarrow> uds_st" where
  "uds_proxy_init s =
     (let tm = (\<lambda>v. \<lparr>timer_seq = 0, timer_armed = None, timer_switch = 0, timer_value = v\<rparr>)
      in s\<lparr>uds_server := \<lparr>uds_mode = UDS_TYPE_SERVER, canport = 1, uds_sid = 0, uds_nrc = 0, can_id_phy = 0x7A0,
             can_id_fun = 0x7DF, can_id_req = 0, can_id_res = 0x7B0,
             timer_t = map tm [50, 0, 2000, 0, 5000, 0, 1000, 0]\<rparr>,
           uds_client := \<lparr>uds_mode = UDS_TYPE_CLIENT, canport = 0, uds_sid = 0, uds_nrc = 0, can_id_phy = 0,
             can_id_fun = 0, can_id_req = 0, can_id_res = 0,
             timer_t = map tm [0, 150, 0, 5000, 0, 4000, 0, 1000]\<rparr>\<rparr>)"

text \<open>The client's side: \<open>uds_set_client\<close> with its zero addresses, \<open>uds_set_client_ex\<close> with those of the caller
  and its callback (\<open>cb\<close> tells whether it is one), and the end of a client.\<close>

definition open_client :: "uds_env \<Rightarrow> uds_st \<Rightarrow> u8 \<Rightarrow> u32 \<Rightarrow> u32 \<Rightarrow> u32 \<Rightarrow> bytes \<Rightarrow> u32 \<times> uds_st" where
  "open_client e s port phy fid res cfg =
     (let u = (uds_client s)\<lparr>uds_mode := UDS_TYPE_CLIENT, canport := port, can_id_phy := phy, can_id_fun := fid,
                can_id_res := res\<rparr>;
          u = uds_set_timer u CLIENT_SET 1
      in case uds_data_request e u MSG_ID_UDS_SET_C 0 cfg (length cfg) of
           (r, u, sent) \<Rightarrow> (r, s\<lparr>uds_client := u, out := out s @ sent\<rparr>))"

definition uds_set_client :: "uds_env \<Rightarrow> uds_st \<Rightarrow> u32 \<times> uds_st" where
  "uds_set_client e s = open_client e s 0 0 0 0 (tl_cfg_bytes 0 0x00 50 8 150 150 0 0 0)"

definition uds_set_client_ex :: "uds_env \<Rightarrow> uds_st \<Rightarrow> int \<Rightarrow> int \<Rightarrow> int \<Rightarrow> int \<Rightarrow> bool \<Rightarrow> u32 \<times> uds_st" where
  "uds_set_client_ex e s port pid fid rid cb =
     (let port = word_of_int port; phy = word_of_int pid; fid = word_of_int fid; res = word_of_int rid
      in open_client e (s\<lparr>client_cb := cb\<rparr>) port phy fid res (tl_cfg_bytes port 0xCC 10 0 150 150 phy fid res))"

definition uds_clr_client :: "uds_st \<Rightarrow> uds_st" where
  "uds_clr_client s =
     s\<lparr>uds_client := uds_set_timer (uds_set_timer (uds_set_timer (uds_client s) CLIENT_SET 0) P2CLINT 0) P2EXT_CLIENT 0,
       client_cb := False\<rparr>"

text \<open>The messages of the module's thread: from the MCU, from the remote diagnosis, and the timers'
  notifications; between them, other threads open and close the client.\<close>

datatype uds_event =
    ScomMsg bytes nat
  | RemoteDiagMsg bytes nat
  | TimerMsg nat u16
  | OpenClient int int int int bool
  | CloseClient

fun uds_main :: "uds_env \<Rightarrow> uds_st \<Rightarrow> uds_event \<Rightarrow> uds_st" where
  "uds_main e s (ScomMsg msg len) =
     (if is_remote_diag_response s msg = 0 then
        (case uds_set_uds_server_mode s UDS_TYPE_SERVER of
           (r, s) \<Rightarrow> if r = 0 then uds_proxy e s msg len else s)
      else uds_proxy e s msg len)"
| "uds_main e s (RemoteDiagMsg msg len) =
     (case uds_set_uds_server_mode s UDS_TYPE_REMOTEDIAG of
        (r, s) \<Rightarrow> if r = 0 then uds_proxy e s msg len else s)"
| "uds_main e s (TimerMsg timer_id seq) = (if timer_id < TIMER_MAX then uds_timeout e s timer_id seq else s)"
| "uds_main e s (OpenClient port pid fid rid cb) = snd (uds_set_client_ex e s port pid fid rid cb)"
| "uds_main e s CloseClient = uds_clr_client s"

text \<open>What the thread does before its loop.\<close>

definition uds_start :: "uds_env \<Rightarrow> uds_st \<Rightarrow> uds_st" where
  "uds_start e s = uds_send_can_CommunicationControl_to_mcu (snd (uds_set_server e s)) 2 0"

definition uds_exec :: "uds_st \<Rightarrow> (uds_env \<times> uds_event) list \<Rightarrow> uds_st" where
  "uds_exec s evs = foldl (\<lambda>s (e, ev). uds_main e s ev) s evs"

definition uds_boot :: uds_st where
  "uds_boot = uds_proxy_init
     \<lparr>uds_server = undefined, uds_client = undefined, g_u8CurrentSessionType = SESSION_TYPE_DEFAULT,
      g_u8SecurityAccess = 0, g_u8suppressPosRspMsgIndicationFlag = False, g_u32DiagID = 0, DTCSwitch = True,
      g_TxFlag = True, g_RxFlag = True, is_seed_sent = False, Att_Cnt = 0, sa_time = 0, sub_function = 0,
      sa_counter = 0, seed = 0, times_satisfy_delay = 0, client_cb = False, out = []\<rparr>"

section \<open>The tables\<close>

lemma uds_get_table_index_less: "uds_get_table_index sid < 80"
proof -
  have "unat (sid AND 0x0F) < 16"
  proof -
    have "sid AND 0x0F = take_bit 4 sid" by (simp add: take_bit_eq_mask mask_eq_exp_minus_1)
    then have "unat (sid AND 0x0F) = unat sid mod 16" by (simp add: take_bit_eq_mod unat_mod)
    then show ?thesis by simp
  qed
  then show ?thesis
    by (auto simp: uds_get_table_index_def Let_def unat_word_ariths)
qed

lemma index_table_range:
  "i < 80 \<Longrightarrow> uds_index_mask ! i \<in> {0, 1, 2, 3, 4, 5, 6, 7, 8, 11, 12}"
  "i < 80 \<Longrightarrow> uds_index_mask ! i = 6 \<Longrightarrow> i = 0x27"
  "i < 80 \<Longrightarrow> uds_index_mask ! i = 8 \<Longrightarrow> i = 0x2E"
proof -
  have "\<forall>i\<in>set [0..<80]. uds_index_mask ! i \<in> {0, 1, 2, 3, 4, 5, 6, 7, 8, 11, 12}
     \<and> (uds_index_mask ! i = 6 \<longrightarrow> i = 0x27) \<and> (uds_index_mask ! i = 8 \<longrightarrow> i = 0x2E)"
    by code_simp
  then show "i < 80 \<Longrightarrow> uds_index_mask ! i \<in> {0, 1, 2, 3, 4, 5, 6, 7, 8, 11, 12}"
    "i < 80 \<Longrightarrow> uds_index_mask ! i = 6 \<Longrightarrow> i = 0x27" "i < 80 \<Longrightarrow> uds_index_mask ! i = 8 \<Longrightarrow> i = 0x2E"
    by (simp_all del: set_upt add: set_upt [symmetric]) (simp_all add: set_upt)
qed

section \<open>The effect of a step on the core\<close>

definition sa_rest :: "uds_core \<Rightarrow> bool \<times> u8 \<times> int \<times> u8 \<times> u8 \<times> u16 \<times> u32" where
  "sa_rest c = (c_seed_sent c, c_att c, c_time c, c_sub c, c_counter c, c_seed c, c_delay c)"

text \<open>A step leaves session, level and automaton alone, or enters the default or the extended session
  and locks, or is a step of the security automaton in the extended session.\<close>

definition core_same :: "uds_core \<Rightarrow> uds_core \<Rightarrow> bool" where
  "core_same c c' \<longleftrightarrow> c_session c' = c_session c \<and> c_level c' = c_level c \<and> sa_rest c' = sa_rest c"

definition core_reset :: "uds_core \<Rightarrow> uds_core \<Rightarrow> bool" where
  "core_reset c c' \<longleftrightarrow> c_session c' \<in> {1, 3} \<and> c_level c' = 0 \<and> sa_rest c' = sa_rest c"

definition core_sa :: "uds_env \<Rightarrow> uds_core \<Rightarrow> uds_core \<Rightarrow> bool" where
  "core_sa e c c' \<longleftrightarrow> c_session c = 3 \<and> c_session c' = c_session c
     \<and> (\<exists>r. c_level c' = c_level (sa_spec e c r) \<and> sa_rest c' = sa_rest (sa_spec e c r))"

definition core_step :: "uds_env \<Rightarrow> uds_core \<Rightarrow> uds_core \<Rightarrow> bool" where
  "core_step e c c' \<longleftrightarrow> core_same c c' \<or> core_reset c c' \<or> core_sa e c c'"

lemma core_suppress [simp]: "core (set_suppress s pdu) = core s"
  by (simp add: set_suppress_def core_def)

lemma core_out [simp]: "core (s\<lparr>out := o'\<rparr>) = core s"
  by (simp add: core_def)

lemma core_uds [simp]: "core (s\<lparr>uds_server := u\<rparr>) = core s" "core (s\<lparr>uds_client := u\<rparr>) = core s"
  by (simp_all add: core_def)

lemma core_comm [simp]: "core (uds_send_can_CommunicationControl_to_mcu s t v) = core s"
  by (simp add: uds_send_can_CommunicationControl_to_mcu_def)

lemma core_same_refl [simp]: "core_same c c"
  by (simp add: core_same_def)

lemmas quiet_defs = UDS_SRV_EcuReset_def UDS_SRV_ClearDTC_def UDS_SRV_TesterPresent_def
  UDS_SRV_ControlDTCSetting_def UDS_SRV_CommunicationControl_def UDS_SRV_ReadDataByID_def
  UDS_SRV_WriteDataByID_def read_dtc_service_def

lemma core_switches [simp]:
  "core_same (core s) (core (s\<lparr>DTCSwitch := b\<rparr>))"
  "core_same (core s) (core (s\<lparr>g_TxFlag := b, g_RxFlag := b'\<rparr>))"
  "core_same (core s) (core (s\<lparr>g_u32DiagID := d\<rparr>))"
  by (simp_all add: core_def core_same_def sa_rest_def)

lemma quiet_services:
  "core_same (core s) (core (UDS_SRV_EcuReset e s pdu dlc))"
  "core_same (core s) (core (UDS_SRV_ClearDTC e s pdu dlc))"
  "core_same (core s) (core (UDS_SRV_TesterPresent e s pdu dlc))"
  "core_same (core s) (core (UDS_SRV_ControlDTCSetting e s pdu dlc))"
  "core_same (core s) (core (UDS_SRV_CommunicationControl e s pdu dlc))"
  "core_same (core s) (core (UDS_SRV_ReadDataByID e s pdu dlc))"
  "core_same (core s) (core (UDS_SRV_WriteDataByID e s pdu dlc))"
  "core_same (core s) (core (read_dtc_service e s pdu dlc))"
  by (simp_all add: quiet_defs Let_def split: option.split sum.split)

lemma session_service:
  "core_same (core s) (core (UDS_SRV_DiagSessionCtrl e s pdu dlc))
   \<or> core_reset (core s) (core (UDS_SRV_DiagSessionCtrl e s pdu dlc))"
proof -
  have "core_reset (core s) (core (s\<lparr>g_u8CurrentSessionType := t, g_u8SecurityAccess := 0, DTCSwitch := b\<rparr>))"
    "core_reset (core s) (core (s\<lparr>g_u8CurrentSessionType := t, g_u8SecurityAccess := 0\<rparr>))"
    if "t = 1 \<or> t = 3" for t b
    using that by (auto simp: core_reset_def core_def sa_rest_def)
  then show ?thesis
    by (simp add: UDS_SRV_DiagSessionCtrl_def Let_def UDS_SetDTCOn_def)
qed

lemma sa_spec_cong:
  assumes "sa_rest c = sa_rest c'" and "c_level c = c_level c'"
  shows "sa_rest (sa_spec e c r) = sa_rest (sa_spec e c' r)" and "c_level (sa_spec e c r) = c_level (sa_spec e c' r)"
  using assms by (cases r; auto simp: sa_rest_def sa_fresh_def Let_def split: option.splits)+

lemma sa_inv_cong: "sa_rest c = sa_rest c' \<Longrightarrow> c_level c = c_level c' \<Longrightarrow> sa_inv c = sa_inv c'"
  by (simp add: sa_rest_def sa_inv_def)

lemma core_same_step:
  assumes "core_same c c'" and "core_step e c' c''"
  shows "core_step e c c''"
proof -
  have s: "c_session c' = c_session c" "c_level c' = c_level c" "sa_rest c' = sa_rest c"
    using assms(1) by (simp_all add: core_same_def)
  from assms(2) consider "core_same c' c''" | "core_reset c' c''" | "core_sa e c' c''"
    by (auto simp: core_step_def)
  then show ?thesis
  proof cases
    case 3
    then show ?thesis using s sa_spec_cong [OF s(3,2)] by (auto simp: core_step_def core_sa_def)
  qed (use s in \<open>auto simp: core_step_def core_same_def core_reset_def\<close>)
qed

lemma appl_table_step:
  assumes inv: "sa_inv (core s)" and i: "i \<in> {0, 1, 2, 3, 4, 5, 6, 7, 8, 11, 12}"
    and six: "i = 6 \<Longrightarrow> g_u8CurrentSessionType s = 3"
  shows "core_step e (core s) (core (uds_appl_table e i s pdu n))"
proof (cases "i = 6")
  case True
  then have "core (uds_appl_table e i s pdu n) = sa_spec e (core s) (sa_classify pdu n)"
    using sa_refines [OF inv] by (simp add: uds_appl_table_def)
  moreover have "c_session (sa_spec e c r) = c_session c" for c r
    by (cases r) (auto simp: sa_fresh_def Let_def split: option.split)
  ultimately show ?thesis using six [OF True] by (auto simp: core_step_def core_sa_def core_simps)
next
  case False
  have "core_same (core s) (core (uds_appl_table e i s pdu n))
      \<or> core_reset (core s) (core (uds_appl_table e i s pdu n))"
    using i False session_service [of s e pdu n]
    by (elim insertE) (simp_all add: uds_appl_table_def quiet_services)
  then show ?thesis by (auto simp: core_step_def)
qed

lemma server_proc_step:
  assumes inv: "sa_inv (core s)" and ses: "g_u8CurrentSessionType s \<in> {1, 3}"
  shows "core_step e (core s) (core (uds_server_proc e s can pdu n))"
proof -
  let ?s = "s\<lparr>g_u32DiagID := can\<rparr>" and ?t = "uds_get_table_index (pdu ! 0)"
  have same: "core_same (core s) (core ?s)" by simp
  then have inv': "sa_inv (core ?s)" using inv sa_inv_cong [of "core s" "core ?s"] by (simp add: core_same_def)
  have sa: "g_u8CurrentSessionType s = 3" if a: "uds_index_mask ! ?t = 6"
    "session_mask (g_u8CurrentSessionType s) (server_supper_table ! ?t) m > 0" for m
  proof -
    have "?t = 0x27" by (rule index_table_range(2) [OF uds_get_table_index_less a(1)])
    with a(2) ses show "g_u8CurrentSessionType s = 3"
      by (auto simp: server_supper_table_def session_mask_def)
  qed
  have "core_step e (core ?s) (core (uds_server_proc e s can pdu n))"
    using appl_table_step [OF inv' index_table_range(1) [OF uds_get_table_index_less]] sa
    by (simp add: uds_server_proc_def Let_def core_step_def [of e "core ?s" "core ?s"])
  with same show ?thesis by (rule core_same_step)
qed

lemma uds_proxy_step:
  assumes "sa_inv (core s)" and "g_u8CurrentSessionType s \<in> {1, 3}"
  shows "core_step e (core s) (core (uds_proxy e s msg n))"
proof -
  have "core_step e (core s) (core (uds_server_proc e (s\<lparr>uds_server := u\<rparr>) can pdu k))" for u can pdu k
    using server_proc_step [of "s\<lparr>uds_server := u\<rparr>"] assms by simp
  moreover have "core_step e (core s) (core s)" by (simp add: core_step_def)
  ultimately show ?thesis by (simp add: uds_proxy_def uds_client_ind_def Let_def)
qed

lemma core_mode [simp]: "core (snd (uds_set_uds_server_mode s m)) = core s"
  by (simp add: uds_set_uds_server_mode_def)

lemma uds_timeout_step: "core_step e (core s) (core (uds_timeout e s i q))"
proof -
  have "core_reset (core s) (core (s\<lparr>g_u8CurrentSessionType := 1, g_u8SecurityAccess := 0, DTCSwitch := True\<rparr>))"
    by (simp add: core_reset_def core_def sa_rest_def)
  moreover have "core (snd (uds_set_server e s)) = core s"
    by (simp add: uds_set_server_def split: prod.split)
  ultimately show ?thesis by (simp add: uds_timeout_def Let_def core_step_def UDS_SetDTCOn_def)
qed

lemma client_step [simp]:
  "core (snd (uds_set_client_ex e s port pid fid rid cb)) = core s" "core (uds_clr_client s) = core s"
proof -
  have cb: "core (t\<lparr>uds_client := u, out := o'\<rparr>) = core t" "core (t\<lparr>client_cb := b\<rparr>) = core t" for t u o' b
    by (simp_all add: core_def)
  then show "core (snd (uds_set_client_ex e s port pid fid rid cb)) = core s"
    by (simp add: uds_set_client_ex_def open_client_def Let_def split: prod.split)
  show "core (uds_clr_client s) = core s" by (simp add: uds_clr_client_def core_def)
qed

lemma uds_main_step:
  assumes "sa_inv (core s)" and "g_u8CurrentSessionType s \<in> {1, 3}"
  shows "core_step e (core s) (core (uds_main e s ev))"
proof -
  have *: "core_step e (core s) (core (case uds_set_uds_server_mode s m of
      (r, s) \<Rightarrow> if r = 0 then uds_proxy e s msg n else s))" for m msg n
  proof -
    obtain r s1 where m: "uds_set_uds_server_mode s m = (r, s1)" by force
    have c: "core s1 = core s" using core_mode [of s m] m by simp
    then have "g_u8CurrentSessionType s1 = g_u8CurrentSessionType s" by (simp only: core_fields)
    then show ?thesis using uds_proxy_step [of s1] assms c by (simp add: m core_step_def)
  qed
  show ?thesis
    by (cases ev) (use * uds_proxy_step [OF assms] uds_timeout_step in \<open>simp_all add: core_step_def [of e "core s" "core s"]\<close>)
qed

section \<open>Every run\<close>

definition uds_safe :: "uds_st \<Rightarrow> bool" where
  "uds_safe s \<longleftrightarrow> sa_inv (core s) \<and> g_u8CurrentSessionType s \<in> {1, 3}
     \<and> (g_u8SecurityAccess s \<noteq> 0 \<longrightarrow> g_u8CurrentSessionType s = 3)"

lemma uds_boot_safe: "uds_safe uds_boot"
  by (simp add: uds_safe_def uds_boot_def uds_proxy_init_def sa_inv_def core_def Let_def)

lemma uds_start_safe: "uds_safe (uds_start e uds_boot)"
proof -
  have c: "core (uds_start e uds_boot) = core uds_boot"
    by (simp add: uds_start_def uds_set_server_def split: prod.split)
  then have "g_u8CurrentSessionType (uds_start e uds_boot) = g_u8CurrentSessionType uds_boot"
    "g_u8SecurityAccess (uds_start e uds_boot) = g_u8SecurityAccess uds_boot"
    by (simp_all only: core_fields)
  with c uds_boot_safe show ?thesis by (simp add: uds_safe_def)
qed

lemma uds_main_safe:
  assumes "uds_safe s"
  shows "uds_safe (uds_main e s ev)"
proof -
  have i: "sa_inv (core s)" "g_u8CurrentSessionType s \<in> {1, 3}"
    "g_u8SecurityAccess s \<noteq> 0 \<Longrightarrow> g_u8CurrentSessionType s = 3"
    using assms by (simp_all add: uds_safe_def)
  let ?c' = "core (uds_main e s ev)"
  from uds_main_step [OF i(1,2)] consider "core_same (core s) ?c'" | "core_reset (core s) ?c'"
    | "core_sa e (core s) ?c'" by (auto simp: core_step_def)
  then show ?thesis
  proof cases
    case 1
    then have "sa_inv ?c'" using i(1) sa_inv_cong [of "core s" ?c'] by (simp add: core_same_def)
    with 1 i show ?thesis by (auto simp: uds_safe_def core_same_def core_simps)
  next
    case 2
    then have "sa_inv ?c'" using i(1) by (simp add: core_reset_def sa_inv_def sa_rest_def)
    with 2 show ?thesis by (auto simp: uds_safe_def core_reset_def core_simps)
  next
    case 3
    then obtain r where r: "c_level ?c' = c_level (sa_spec e (core s) r)" "sa_rest ?c' = sa_rest (sa_spec e (core s) r)"
      "c_session ?c' = 3" by (auto simp: core_sa_def)
    then have "sa_inv ?c'" using sa_spec_inv [OF i(1)] sa_inv_cong by blast
    with r(3) show ?thesis by (simp add: uds_safe_def core_simps)
  qed
qed

lemma uds_exec_safe: "uds_safe s \<Longrightarrow> uds_safe (uds_exec s evs)"
  unfolding uds_exec_def by (induction evs arbitrary: s) (auto intro: uds_main_safe)

text \<open>The lock holds for ten seconds, whatever arrives.\<close>

lemma locked_main:
  assumes s: "uds_safe s" and l: "sa_locked t (core s)" and e: "tm_get_time e \<le> t + 10000"
  shows "sa_locked t (core (uds_main e s ev))"
proof -
  have i: "sa_inv (core s)" "g_u8CurrentSessionType s \<in> {1, 3}" using s by (simp_all add: uds_safe_def)
  let ?c' = "core (uds_main e s ev)"
  from uds_main_step [OF i] consider "core_same (core s) ?c'" | "core_reset (core s) ?c'"
    | "core_sa e (core s) ?c'" by (auto simp: core_step_def)
  then show ?thesis
    using l sa_locked_step [OF l e]
    by cases (auto simp: sa_locked_def core_same_def core_reset_def core_sa_def sa_rest_def)
qed

lemma locked_exec:
  "uds_safe s \<Longrightarrow> sa_locked t (core s) \<Longrightarrow> \<forall>(e, ev)\<in>set evs. tm_get_time e \<le> t + 10000
   \<Longrightarrow> sa_locked t (core (uds_exec s evs))"
  unfolding uds_exec_def
  by (induction evs arbitrary: s) (auto intro: uds_main_safe locked_main split: prod.splits)

lemma sec_access_session [simp]:
  "sa_inv (core s) \<Longrightarrow> g_u8CurrentSessionType (UDS_SRV_SecrityAcess e s pdu n) = g_u8CurrentSessionType s"
proof -
  assume "sa_inv (core s)"
  then have "c_session (core (UDS_SRV_SecrityAcess e s pdu n)) = c_session (core s)"
    by (cases "sa_classify pdu n") (auto simp: sa_refines sa_fresh_def Let_def split: option.split)
  then show ?thesis by (simp add: core_simps)
qed

lemma sec_access_safe:
  assumes "uds_safe s" and "g_u8CurrentSessionType s = 3"
  shows "uds_safe (UDS_SRV_SecrityAcess e s pdu n)"
  using assms sa_spec_inv by (simp add: uds_safe_def sa_refines)

lemma wrong_key_response:
  assumes "diag_mode s" "g_u8SecurityAccess s = 0" "is_seed_sent s" "sub_function s = 3" "2 \<le> unat (Att_Cnt s)"
    "pdu ! 0 = 0x27" "pdu ! 1 = 4" "sa_key_of pdu \<noteq> calcKey (seed s)"
  shows "out (UDS_SRV_SecrityAcess e s pdu 4) = out s @ [uds_msg s [0x7F, 0x27, 0x36]]"
proof -
  have "out (uds_neg e (s\<lparr>is_seed_sent := False, Att_Cnt := a, sa_time := t, times_satisfy_delay := d\<rparr>) 0x27 0x36) =
      out s @ [uds_msg s [0x7F, 0x27, 0x36]]" for a t d
    using assms(1) by (subst uds_neg_sent) (simp_all add: diag_mode_def uds_msg_def)
  then show ?thesis
    using assms by (simp add: UDS_SRV_SecrityAcess_def security_level_3 sa_state_B_def sa_send_key_def
        sa_wrong_key_def Let_def)
qed

section \<open>Properties\<close>

text \<open>A concrete environment for the examples: fifty seconds after the start, parked, with every
  frame sent.\<close>

definition demo_env :: "int \<Rightarrow> uds_env" where
  "demo_env t = \<lparr>tm_get_time = t, tm_get_time_again = t, rand_after = ucast, scom_send = (\<lambda>_. 0), vehicleSpeed = 0,
     stack_junk = [0, 0], did_get = (\<lambda>_ _. None), did_check = (\<lambda>_ _. 0), did_set = (\<lambda>_ _. 0),
     dtc_report = (\<lambda>_ _. Inl 0x31), routine_control = (\<lambda>s _ _. s)\<rparr>"

definition demo_seeded :: uds_st where
  "demo_seeded = uds_boot\<lparr>g_u8CurrentSessionType := 3, is_seed_sent := True, sub_function := 3, seed := 0x1234, Att_Cnt := 2\<rparr>"

lemma demo_seeded_ok:
  "uds_safe demo_seeded" "diag_mode demo_seeded" "g_u8SecurityAccess demo_seeded = 0"
  "g_u8CurrentSessionType demo_seeded = 3" "is_seed_sent demo_seeded" "seed demo_seeded = 0x1234"
  "unat (Att_Cnt demo_seeded) = 2"
  by (simp_all add: demo_seeded_def uds_safe_def core_def sa_inv_def uds_boot_def uds_proxy_init_def
      Let_def diag_mode_def)

lemma demo_key: "calcKey 0x1234 = 0x017A"
  by (simp add: calcKey_bytes funpow_8 key_bit_def)

text \<open>C7: Whatever messages, timer notifications and client calls the diagnostic server handles after its start, the
  security level is 0, or it is 1 and the extended session is active.\<close>

theorem uds_level_only_in_extended_session:
  "let s = uds_exec (uds_start e uds_boot) evs
   in g_u8SecurityAccess s = 0 \<or> g_u8SecurityAccess s = 1 \<and> g_u8CurrentSessionType s = 3"
  using uds_exec_safe [OF uds_start_safe, of e evs] by (auto simp: Let_def uds_safe_def sa_inv_def core_simps)

text \<open>C8: In the locked state a security access request unlocks if and only if a seed is active and
  the request is a send-key message of four bytes whose key is \<open>calcKey\<close> of that seed.\<close>

theorem uds_unlock_iff_key:
  assumes "uds_safe s" and "g_u8SecurityAccess s = 0"
  shows "g_u8SecurityAccess (UDS_SRV_SecrityAcess e s pdu dlc) = 1 \<longleftrightarrow>
    is_seed_sent s \<and> dlc = 4 \<and> pdu ! 1 AND 0x7F = 4 \<and> sa_key_of pdu = calcKey (seed s)"
proof -
  have "c_level (core (UDS_SRV_SecrityAcess e s pdu dlc)) = c_level (sa_spec e (core s) (sa_classify pdu dlc))"
    using assms(1) by (simp add: sa_refines uds_safe_def)
  then show ?thesis
    using assms(2) by (auto simp: core_simps sa_classify_def Let_def sa_fresh_def)
qed

theorem uds_unlock_iff_key_witness:
  "g_u8SecurityAccess (UDS_SRV_SecrityAcess (demo_env 50000) demo_seeded [0x27, 0x04, 0x01, 0x7A] 4) = 1 \<and>
   g_u8SecurityAccess (UDS_SRV_SecrityAcess (demo_env 50000) demo_seeded [0x27, 0x04, 0x01, 0x7B] 4) \<noteq> 1"
  by (simp add: uds_unlock_iff_key [OF demo_seeded_ok(1,3)] demo_seeded_ok demo_key sa_key_of_def)

text \<open>C9: The third wrong key in a row is answered with \<open>exceedNumberOfAttempts\<close>, and then for ten
  seconds no sequence of messages, timer notifications and client calls unlocks the server or even activates a seed.\<close>

theorem uds_lockout:
  assumes "uds_safe s" "diag_mode s" "g_u8CurrentSessionType s = 3" "is_seed_sent s" "2 \<le> unat (Att_Cnt s)"
    and "pdu ! 0 = 0x27" "pdu ! 1 = 4" "sa_key_of pdu \<noteq> calcKey (seed s)"
    and "\<forall>(e', ev)\<in>set evs. tm_get_time e' \<le> tm_get_time_again e + 10000"
  shows "out (UDS_SRV_SecrityAcess e s pdu 4) = out s @ [uds_msg s [0x7F, 0x27, 0x36]]
       \<and> g_u8SecurityAccess (uds_exec (UDS_SRV_SecrityAcess e s pdu 4) evs) = 0
       \<and> \<not> is_seed_sent (uds_exec (UDS_SRV_SecrityAcess e s pdu 4) evs)"
proof -
  let ?s = "UDS_SRV_SecrityAcess e s pdu 4"
  have inv: "sa_inv (core s)" "g_u8SecurityAccess s = 0" "sub_function s = 3"
    using assms(1,4) by (auto simp: uds_safe_def sa_inv_def core_simps)
  have answer: "out ?s = out s @ [uds_msg s [0x7F, 0x27, 0x36]]"
    using assms inv by (intro wrong_key_response)
  have "core ?s = sa_spec e (core s) (SaKey (Some (sa_key_of pdu)))"
    using sa_refines [OF inv(1)] assms(7) by (simp add: sa_classify_def)
  then have "sa_locked (tm_get_time_again e) (core ?s)"
    using sa_third_wrong_key [of "core s" "sa_key_of pdu" e] assms(4,5,8) inv(2) by (simp add: core_simps)
  then have "sa_locked (tm_get_time_again e) (core (uds_exec ?s evs))"
    using locked_exec [OF sec_access_safe [OF assms(1,3)]] assms(9) by blast
  with answer show ?thesis
    by (simp add: sa_locked_def core_simps)
qed

theorem uds_lockout_witness:
  "\<not> is_seed_sent (uds_exec (UDS_SRV_SecrityAcess (demo_env 50000) demo_seeded [0x27, 0x04, 0, 0] 4)
     [(demo_env 60000, ScomMsg [0xF4, 0xA0, 0x07, 0, 0, 2, 0, 0x27, 0x03] 9)])"
  using uds_lockout [OF demo_seeded_ok(1,2,4,5), of "[0x27, 0x04, 0, 0]"
      "[(demo_env 60000, ScomMsg [0xF4, 0xA0, 0x07, 0, 0, 2, 0, 0x27, 0x03] 9)]" "demo_env 50000"]
  by (simp add: demo_seeded_ok demo_key demo_env_def sa_key_of_def)

text \<open>One round of the bypass: a seed request, then a send-key message of the wrong length.\<close>

definition bad_round :: "uds_env \<Rightarrow> uds_st \<Rightarrow> uds_st" where
  "bad_round e s = UDS_SRV_SecrityAcess e (UDS_SRV_SecrityAcess e s [0x27, 0x03] 2) [0x27, 0x04, 0] 3"

definition idle_locked :: "uds_env \<Rightarrow> uds_st \<Rightarrow> bool" where
  "idle_locked e s \<longleftrightarrow> sa_inv (core s) \<and> g_u8SecurityAccess s = 0 \<and> \<not> is_seed_sent s
     \<and> tm_get_time e - sa_time s > 10000"

lemma bad_round_step:
  assumes "idle_locked e s" and "times_satisfy_delay s + 1 \<noteq> 1"
  shows "idle_locked e (bad_round e s) \<and> Att_Cnt (bad_round e s) = Att_Cnt s + 1
    \<and> sa_time (bad_round e s) = sa_time s \<and> times_satisfy_delay (bad_round e s) = times_satisfy_delay s + 1"
proof -
  let ?s1 = "UDS_SRV_SecrityAcess e s [0x27, 0x03] 2"
  have i: "sa_inv (core s)" using assms by (simp add: idle_locked_def)
  then have c1: "core ?s1 = sa_spec e (core s) (SaSeed True)"
    by (simp add: sa_refines sa_classify_def del: sa_spec.simps)
  have i1: "sa_inv (core ?s1)" unfolding c1 by (rule sa_spec_inv [OF i])
  then have c2: "core (bad_round e s) = sa_spec e (sa_spec e (core s) (SaSeed True)) (SaKey None)"
    unfolding c1 [symmetric] by (simp add: bad_round_def sa_refines sa_classify_def del: sa_spec.simps)
  have "sa_inv (core (bad_round e s))" unfolding c2 by (intro sa_spec_inv i)
  moreover have "c_level (core (bad_round e s)) = 0 \<and> \<not> c_seed_sent (core (bad_round e s))
      \<and> c_att (core (bad_round e s)) = Att_Cnt s + 1 \<and> c_time (core (bad_round e s)) = sa_time s
      \<and> c_delay (core (bad_round e s)) = times_satisfy_delay s + 1"
    using assms unfolding c2 by (simp add: idle_locked_def core_simps sa_fresh_def)
  ultimately show ?thesis using assms(1) by (simp add: idle_locked_def core_simps)
qed

lemma bad_rounds:
  "idle_locked e s \<Longrightarrow> 0 < unat (times_satisfy_delay s) \<Longrightarrow> unat (times_satisfy_delay s) + n < 4294967295
   \<Longrightarrow> idle_locked e ((bad_round e ^^ n) s) \<and> Att_Cnt ((bad_round e ^^ n) s) = Att_Cnt s + of_nat n
     \<and> sa_time ((bad_round e ^^ n) s) = sa_time s"
proof (induction n arbitrary: s)
  case (Suc n)
  let ?d = "times_satisfy_delay s"
  have d: "?d + 1 \<noteq> 1" using Suc.prems(2) by (auto simp: unat_gt_0)
  have "unat (?d + 1) = unat ?d + 1" using Suc.prems(3) by (simp add: unat_word_ariths)
  moreover note st = bad_round_step [OF Suc.prems(1) d]
  ultimately have "idle_locked e ((bad_round e ^^ n) (bad_round e s))
      \<and> Att_Cnt ((bad_round e ^^ n) (bad_round e s)) = Att_Cnt (bad_round e s) + of_nat n
      \<and> sa_time ((bad_round e ^^ n) (bad_round e s)) = sa_time (bad_round e s)"
    using Suc.prems by (intro Suc.IH) auto
  then show ?case using st by (simp add: funpow_swap1)
qed simp

text \<open>The attempt counter is eight bits wide and also counts send-key messages of the wrong length,
  which start no delay: after two wrong keys, 254 rounds of a seed request and a short send-key message
  bring the counter back to 0, with the delay timer untouched.\<close>

lemma uds_attempt_counter_wraps:
  assumes "uds_safe s" "g_u8SecurityAccess s = 0" "\<not> is_seed_sent s" "Att_Cnt s = 2"
    and "tm_get_time e - sa_time s > 10000"
    and "0 < unat (times_satisfy_delay s)" "unat (times_satisfy_delay s) < 4000000000"
  shows "Att_Cnt ((bad_round e ^^ 254) s) = 0 \<and> sa_time ((bad_round e ^^ 254) s) = sa_time s
    \<and> g_u8SecurityAccess ((bad_round e ^^ 254) s) = 0"
proof -
  have "idle_locked e s" using assms by (simp add: idle_locked_def uds_safe_def)
  with bad_rounds [of e s 254] assms show ?thesis by (simp add: idle_locked_def)
qed

lemma uds_attempt_counter_wraps_witness:
  "Att_Cnt ((bad_round (demo_env 50000) ^^ 254)
     (demo_seeded\<lparr>is_seed_sent := False, times_satisfy_delay := 1\<rparr>)) = 0"
proof -
  let ?s = "demo_seeded\<lparr>is_seed_sent := False, times_satisfy_delay := 1\<rparr>"
  have "uds_safe ?s" "g_u8SecurityAccess ?s = 0" "Att_Cnt ?s = 2" "sa_time ?s = 0"
    by (simp_all add: demo_seeded_def uds_safe_def core_def sa_inv_def uds_boot_def uds_proxy_init_def Let_def)
  then show ?thesis using uds_attempt_counter_wraps [of ?s "demo_env 50000"] by (simp add: demo_env_def)
qed

text \<open>A data indication whose length field is the message's length is accepted exactly when the
  message has fewer than 256 bytes: the length test weighs the high byte with 255.\<close>

lemma uds_indication_length:
  assumes "n < 65536" and "m ! 4 = of_nat (n mod 256)" and "m ! 5 = of_nat (n div 256)"
  shows "ind_len_ok m (n + 6) \<longleftrightarrow> n < 256"
proof -
  have "unat (m ! 4) = n mod 256" "unat (m ! 5) = n div 256"
    using assms by (simp_all add: unat_of_nat)
  then have "ind_len_ok m (n + 6) \<longleftrightarrow> n = n mod 256 + n div 256 * 255" by (simp add: ind_len_ok_def)
  moreover have "n = n mod 256 + n div 256 * 256" by simp
  ultimately have "ind_len_ok m (n + 6) \<longleftrightarrow> n div 256 = 0" by linarith
  then show ?thesis by (simp add: div_eq_0_iff)
qed

lemma uds_indication_length_witness:
  "ind_len_ok [0xA0, 0x07, 0, 0, 8, 0] 14 \<and> \<not> ind_len_ok [0xA0, 0x07, 0, 0, 0x2C, 1] 306"
  using uds_indication_length [of 8 "[0xA0, 0x07, 0, 0, 8, 0]"]
    uds_indication_length [of 300 "[0xA0, 0x07, 0, 0, 0x2C, 1]"] by simp

text \<open>Routine control and the three download services are enabled in the support table and have
  handlers, but the index table has no entry for them: the server answers every such request with
  \<open>serviceNotSupported\<close>.\<close>

lemma uds_enabled_but_unreachable:
  "\<forall>sid\<in>{0x31, 0x34, 0x36, 0x37}. server_supper_table ! uds_get_table_index sid \<noteq> 0
    \<and> uds_server_proc e s can (sid # pdu) n = uds_neg e (s\<lparr>g_u32DiagID := can\<rparr>) sid 0x11"
proof -
  have "uds_get_table_index 0x31 = 0x31" "uds_get_table_index 0x34 = 0x34" "uds_get_table_index 0x36 = 0x36"
    "uds_get_table_index 0x37 = 0x37" by (simp_all add: uds_get_table_index_def)
  moreover have "uds_index_mask ! 0x31 = 0" "uds_index_mask ! 0x34 = 0" "uds_index_mask ! 0x36 = 0"
    "uds_index_mask ! 0x37 = 0" by (simp_all add: uds_index_mask_def)
  moreover have "server_supper_table ! 0x31 = 0xF9" "server_supper_table ! 0x34 = 0x31"
    "server_supper_table ! 0x36 = 0x31" "server_supper_table ! 0x37 = 0x31" by (simp_all add: server_supper_table_def)
  ultimately show ?thesis by (simp add: uds_server_proc_def)
qed

lemma uds_enabled_but_unreachable_witness:
  "uds_server_proc (demo_env 0) uds_boot 0x7A0 [0x31, 1, 2, 3] 4 =
   uds_neg (demo_env 0) (uds_boot\<lparr>g_u32DiagID := 0x7A0\<rparr>) 0x31 0x11"
  by (rule uds_enabled_but_unreachable [rule_format, THEN conjunct2]) simp

text \<open>C24: A write request (service 0x2E) that is not physically addressed, or arrives outside the extended
  session or without the security level, is refused or dropped before the write service runs.\<close>

theorem uds_write_is_guarded:
  assumes "uds_safe s" and "pdu ! 0 = 0x2E"
    and "g_u8CurrentSessionType s \<noteq> 3 \<or> g_u8SecurityAccess s \<noteq> 1 \<or> can \<noteq> can_id_phy (uds_server s)"
  shows "uds_server_proc e s can pdu n \<in> {s\<lparr>g_u32DiagID := can\<rparr>, uds_neg e (s\<lparr>g_u32DiagID := can\<rparr>) 0x2E 0x7F,
    uds_neg e (s\<lparr>g_u32DiagID := can\<rparr>) 0x2E 0x33}"
proof -
  have "uds_get_table_index 0x2E = 0x2E" by (simp add: uds_get_table_index_def)
  moreover have "uds_index_mask ! 0x2E = 8" "server_supper_table ! 0x2E = 0x59"
    by (simp_all add: uds_index_mask_def server_supper_table_def)
  moreover have "g_u8CurrentSessionType s \<in> {1, 3}" "g_u8SecurityAccess s \<in> {0, 1}"
    using assms(1) by (auto simp: uds_safe_def sa_inv_def core_simps)
  ultimately show ?thesis
    using assms(2,3) by (auto simp: uds_server_proc_def session_mask_def security_mask_def)
qed

theorem uds_write_is_guarded_witness:
  "uds_server_proc (demo_env 0) uds_boot 0x7A0 [0x2E, 0xF1, 0x90, 1] 4 \<in>
    {uds_boot\<lparr>g_u32DiagID := 0x7A0\<rparr>, uds_neg (demo_env 0) (uds_boot\<lparr>g_u32DiagID := 0x7A0\<rparr>) 0x2E 0x7F,
     uds_neg (demo_env 0) (uds_boot\<lparr>g_u32DiagID := 0x7A0\<rparr>) 0x2E 0x33}"
  by (rule uds_write_is_guarded [OF uds_boot_safe]) (simp_all add: uds_boot_def uds_proxy_init_def Let_def)

text \<open>A notification of the S3 timer that was sent before the timer was set again is ignored; the one
  that belongs to the running timer ends the session: default session, locked, fault recording and
  communication on again.\<close>

lemma uds_s3_timer:
  assumes "length (timer_t (uds_server s)) = 8"
  shows "uds_timeout e (s\<lparr>uds_server := uds_set_timer (uds_server s) 4 v\<rparr>) 4 (timer_seq (timer_t (uds_server s) ! 4))
      = s\<lparr>uds_server := uds_set_timer (uds_server s) 4 v\<rparr>
    \<and> uds_timeout e s 4 (timer_seq (timer_t (uds_server s) ! 4))
      = s\<lparr>g_u8CurrentSessionType := 1, g_u8SecurityAccess := 0, DTCSwitch := True, out := out s @ [CommControl 2 0]\<rparr>"
proof -
  have "(if x + 1 = 0 then 1 else x + 1) \<noteq> x" for x :: u16 by auto
  then show ?thesis
    using assms by (simp add: uds_timeout_def uds_set_timer_def uds_timer_settime_def Let_def UDS_SetDTCOn_def
        uds_send_can_CommunicationControl_to_mcu_def)
qed

end
