(* ===== verification/FaultMem.thy ===== *)
theory FaultMem
  imports UdsServer
begin

text \<open>
  The fault memory of the unit: \<^verbatim>\<open>uds_diag.c\<close> (the table of faults, their debouncing, the buffer of confirmed flags
  and freeze frames that is kept in the data store), the test functions \<^verbatim>\<open>uds_diag_op.c\<close>, the supervision of the CAN
  nodes \<^verbatim>\<open>uds_node_miss.c\<close> and the service that reports the faults, \<^verbatim>\<open>uds_read_dtc.c\<close>. The buffer keeps its layout as
  bytes: a flag of four bytes and the frozen identifiers for each fault, at the offsets the code computes at start.
  The getters of the five frozen identifiers write into the buffer as the code's do.
\<close>

section \<open>What the tests and the getters read\<close>

text \<open>\<^verbatim>\<open>flt_get_by_id\<close> by its argument, the ADC of the antenna (\<open>Inl\<close> the error of the read, the value when the text
  has one), the configured supply, the voltage (\<open>None\<close> when the status is not known), the signals and the clock. \<open>f_rds\<close>: \<open>None\<close> when
  the write of the data store succeeds, else what a later \<^verbatim>\<open>rds_get\<close> reads back. \<open>f_behind\<close>: the number that stands behind the
  array of the node numbers, in the lock that follows it.\<close>

record fm_env =
  f_SOSBTN :: int
  f_GPS_ANT :: int
  f_gps_error :: bool
  f_adc :: "int + int option"
  f_at_status :: int
  f_SIM :: int
  f_BATVOL :: int
  f_BAT :: int
  f_CAN_BUS2 :: int
  f_cfg_power :: "int + u8"
  f_voltage :: "u16 option"
  f_odograph :: u32
  f_speed :: u32
  f_KL15 :: "u8 option"
  f_year :: nat
  f_mon :: u8
  f_mday :: u8
  f_hour :: u8
  f_min :: u8
  f_sec :: u8
  f_now :: u64
  f_rds :: "bytes option option"
  f_behind :: int

section \<open>The tables\<close>

abbreviation (input) "DIAG_ITEM_NUM \<equiv> 31 :: nat"
abbreviation (input) "DIAG_MAX_DID_CNT \<equiv> 17 :: nat"
abbreviation (input) "DIAG_ITEM_BUF_LEN \<equiv> 1024 :: nat"
abbreviation (input) "CAN_NODE_MISS_MAX_SIGNAL \<equiv> 1024 :: nat"
abbreviation (input) "DID_INVALID \<equiv> 0xFFFF :: u16"

text \<open>Of an entry of \<^verbatim>\<open>diag_did_table\<close>, the identifier, the length and the level; the types are strings and bytes. Of an
  entry of \<^verbatim>\<open>diag_table\<close> the code, the threshold and the array of the frozen identifiers; its test is \<open>diag_fun\<close> below.\<close>

record diag_did =
  did_id :: u16
  did_len :: nat
  did_level :: u8

record diag_item =
  it_dtc :: string
  it_thsd :: u32
  it_freeze :: "u16 list"

definition diag_did_table :: "diag_did list" where
  "diag_did_table = map (\<lambda>(i, l, lv). \<lparr>did_id = i, did_len = l, did_level = lv\<rparr>)
    [(0x0112, 1, 0), (0xF020, 7, 0), (0xE101, 3, 0), (0xB100, 2, 0), (0xD001, 1, 0), (0x9004, 1, 0), (0x9005, 1, 0),
     (0x9006, 1, 0), (0x9007, 1, 0), (0x9009, 1, 0), (0x900C, 1, 0), (0x900D, 1, 0), (0x900E, 1, 0), (0x900F, 16, 1),
     (0x9010, 1, 1), (0xF180, 8, 0), (0xF186, 1, 0), (0xF187, 13, 0), (0xF188, 8, 0), (0xF1B0, 8, 0), (0xF1A2, 4, 0),
     (0xF18A, 3, 0), (0xF18B, 4, 0), (0xF18C, 18, 0), (0xF190, 17, 1), (0xF191, 5, 0), (0xF198, 10, 1), (0xF199, 4, 0),
     (0xF19D, 4, 1), (0xF170, 1, 1), (0x460A, 15, 0), (0x460B, 20, 0), (0x460C, 15, 0), (0x460D, 15, 0), (0xF1BF, 5, 0),
     (0xF1C0, 8, 0)]"

definition did_entry :: "u16 \<Rightarrow> diag_did option" where
  "did_entry d = find (\<lambda>x. did_id x = d) diag_did_table"

text \<open>All faults freeze the same identifiers: voltage, odometer, speed, ignition, time.\<close>

definition diag_freeze :: "u16 list" where
  "diag_freeze = [0x0112, 0xE101, 0xB100, 0xD001, 0xF020, DID_INVALID] @ replicate 11 0"

definition diag_table :: "diag_item list" where
  "diag_table = map (\<lambda>(d, t). \<lparr>it_dtc = d, it_thsd = t, it_freeze = diag_freeze\<rparr>)
    [(''9C0071'', 45), (''9C0111'', 4), (''9C0113'', 4), (''9C0231'', 4), (''9C0311'', 4), (''9C0313'', 12),
     (''9C0431'', 60), (''9C0600'', 60), (''9C0716'', 10), (''9C0717'', 10), (''9C0801'', 10), (''9C1017'', 1),
     (''9C1116'', 1), (''C04616'', 1), (''C17000'', 20), (''C10100'', 20), (''C10200'', 20), (''C11000'', 20),
     (''C11100'', 20), (''C11200'', 20), (''C11300'', 20), (''C11400'', 20), (''C11500'', 20), (''C11600'', 20),
     (''C11700'', 20), (''C11800'', 20), (''C11900'', 20), (''C12000'', 20), (''C12100'', 20), (''C12200'', 20),
     (''C12300'', 20)]"

section \<open>State\<close>

text \<open>\<open>fm_lay\<close>: offset and length the start computes for each fault. \<open>fm_stored\<close>: what the data store gives back at
  the next start. \<open>nm_node\<close>: the node of a signal of the CAN database; \<open>nm_over\<close>: a suffix was written behind that array, over its lock.\<close>

record fault_mem =
  fm_buf :: bytes
  fm_counter :: "u32 list"
  fm_lay :: "(nat \<times> nat) list"
  fm_trigger :: bool
  fm_stored :: "bytes option"
  nm_flag :: "bool list"
  nm_time :: "u64 list"
  nm_node :: "int list"
  nm_over :: bool

definition le_u32 :: "bytes \<Rightarrow> nat \<Rightarrow> u32" where
  "le_u32 b i = ucast (b ! i) OR push_bit 8 (ucast (b ! (i + 1))) OR push_bit 16 (ucast (b ! (i + 2)))
     OR push_bit 24 (ucast (b ! (i + 3)))"

definition confirmed :: "fault_mem \<Rightarrow> nat \<Rightarrow> u32" where "confirmed fm i = le_u32 (fm_buf fm) (fst (fm_lay fm ! i))"

definition get_can_node_miss_state :: "fault_mem \<Rightarrow> nat \<Rightarrow> int" where
  "get_can_node_miss_state fm n = (if nm_flag fm ! n then 1 else 0)"

definition set_can_node_miss_state :: "nat \<Rightarrow> bool \<Rightarrow> fault_mem \<Rightarrow> fault_mem" where
  "set_can_node_miss_state n b fm = fm\<lparr>nm_flag := (nm_flag fm)[n := b]\<rparr>"

definition set_node_sig_time :: "nat \<Rightarrow> u64 \<Rightarrow> fault_mem \<Rightarrow> fault_mem" where
  "set_node_sig_time n t fm = fm\<lparr>nm_time := (nm_time fm)[n := t]\<rparr>"

section \<open>The tests (\<open>uds_diag_op.c\<close>)\<close>

text \<open>\<^verbatim>\<open>dev_diag_get_ant_status\<close> for the main antenna: 1 in order, 2 short circuit, 3 open, 0 not known. The division
  of C rounds to zero.\<close>

definition dev_diag_get_ant_status :: "fm_env \<Rightarrow> int" where
  "dev_diag_get_ant_status e = (case f_adc e of
     Inl ret \<Rightarrow> ret
   | Inr None \<Rightarrow> 0
   | Inr (Some v) \<Rightarrow>
       let a = (if v < 0 then - ((- v) div 1000) else v div 1000)
       in if 1500 < a \<and> a < 4096 then 3
          else if 0 < a \<and> a < 300 then 2
          else if 400 < a \<and> a < 800 then 1 else 0)"

definition ft_uds_diag_power_high :: "fm_env \<Rightarrow> int" where
  "ft_uds_diag_power_high e = (case f_cfg_power e of
     Inl ret \<Rightarrow> ret
   | Inr th \<Rightarrow> (case f_voltage e of
        None \<Rightarrow> 0
      | Some v \<Rightarrow> if th = 24 then (if v > 36000 then 1 else 0)
                  else if th = 12 then (if v > 16000 then 1 else 0) else 0))"

definition ft_uds_diag_power_low :: "fm_env \<Rightarrow> int" where
  "ft_uds_diag_power_low e = (case f_cfg_power e of
     Inl ret \<Rightarrow> ret
   | Inr th \<Rightarrow> (case f_voltage e of
        None \<Rightarrow> 0
      | Some v \<Rightarrow> if th = 24 then (if v < 18000 then 1 else 0)
                  else if th = 12 then (if v < 9000 then 1 else 0) else 0))"

definition voltage_normal :: "fm_env \<Rightarrow> bool" where
  "voltage_normal e = (case f_voltage e of None \<Rightarrow> False | Some v \<Rightarrow> v \<ge> 9000 \<and> v \<le> 16000)"

definition uds_diag_dev_can_busoff :: "fm_env \<Rightarrow> int" where
  "uds_diag_dev_can_busoff e = (if voltage_normal e then (if f_CAN_BUS2 e = 1 then 0 else 1) else 0)"

definition ft_uds_diag_dev_ecall :: "fm_env \<Rightarrow> int" where
  "ft_uds_diag_dev_ecall e = (if f_SOSBTN e = 2 then 1 else 0)"

definition ft_uds_diag_gps_ant_gnd :: "fm_env \<Rightarrow> int" where
  "ft_uds_diag_gps_ant_gnd e = (if f_GPS_ANT e = 2 then 1 else 0)"

definition ft_uds_diag_gps_ant_open :: "fm_env \<Rightarrow> int" where
  "ft_uds_diag_gps_ant_open e = (if f_GPS_ANT e = 3 then 1 else 0)"

definition ft_uds_diag_dev_gps_module :: "fm_env \<Rightarrow> int" where
  "ft_uds_diag_dev_gps_module e = (if f_gps_error e then 1 else 0)"

definition ft_uds_diag_wan_ant_gnd :: "fm_env \<Rightarrow> int" where
  "ft_uds_diag_wan_ant_gnd e = (if dev_diag_get_ant_status e = 2 then 1 else 0)"

definition ft_uds_diag_wan_ant_open :: "fm_env \<Rightarrow> int" where
  "ft_uds_diag_wan_ant_open e = (if dev_diag_get_ant_status e = 3 then 1 else 0)"

definition ft_uds_diag_gsm :: "fm_env \<Rightarrow> int" where
  "ft_uds_diag_gsm e = (if f_at_status e = 0 \<or> f_at_status e = 1 then 0 else 1)"

definition ft_uds_diag_sim :: "fm_env \<Rightarrow> int" where
  "ft_uds_diag_sim e = (if f_SIM e = 0 \<or> f_SIM e = 1 then 0 else 1)"

definition ft_uds_diag_bat_low :: "fm_env \<Rightarrow> int" where
  "ft_uds_diag_bat_low e = (if f_BATVOL e = 2 then 1 else 0)"

definition ft_uds_diag_bat_high :: "fm_env \<Rightarrow> int" where
  "ft_uds_diag_bat_high e = (if f_BATVOL e = 3 then 1 else 0)"

definition ft_uds_diag_bat_aged :: "fm_env \<Rightarrow> int" where
  "ft_uds_diag_bat_aged e = (if f_BAT e = 2 then 1 else 0)"

text \<open>The tests in the order of the table; the last seventeen ask for the node with the same place.\<close>

definition diag_fun :: "fm_env \<Rightarrow> fault_mem \<Rightarrow> nat \<Rightarrow> int" where
  "diag_fun e fm i =
    (if i < 14
     then [ft_uds_diag_dev_ecall e, ft_uds_diag_gps_ant_gnd e, ft_uds_diag_gps_ant_open e, ft_uds_diag_dev_gps_module e,
      ft_uds_diag_wan_ant_gnd e, ft_uds_diag_wan_ant_open e, ft_uds_diag_gsm e, ft_uds_diag_sim e,
      ft_uds_diag_bat_low e, ft_uds_diag_bat_high e, ft_uds_diag_bat_aged e, ft_uds_diag_power_high e,
      ft_uds_diag_power_low e, uds_diag_dev_can_busoff e] ! i
     else get_can_node_miss_state fm (i - 13))"

section \<open>The getters of the frozen identifiers (\<open>uds_did.c\<close>)\<close>

definition uds_did_get_pow_voltage :: "fm_env \<Rightarrow> bytes \<Rightarrow> nat \<Rightarrow> nat \<Rightarrow> bytes" where
  "uds_did_get_pow_voltage e b off len =
    (if 1 > len then b else b[off := ucast ((case f_voltage e of None \<Rightarrow> 0 | Some v \<Rightarrow> v) div 100)])"

definition uds_did_get_time :: "fm_env \<Rightarrow> bytes \<Rightarrow> nat \<Rightarrow> nat \<Rightarrow> bytes" where
  "uds_did_get_time e b off len =
    (if 6 > len then b
     else blit b off [of_nat (f_year e mod 256), of_nat (f_year e div 256), f_mon e, f_mday e, f_hour e, f_min e, f_sec e])"

text \<open>The masks are shifted to the left, and four bytes are written.\<close>

definition uds_did_get_odometer_reading :: "fm_env \<Rightarrow> bytes \<Rightarrow> nat \<Rightarrow> nat \<Rightarrow> bytes" where
  "uds_did_get_odometer_reading e b off len =
    (if 3 > len then b
     else let odo = f_odograph e in
       blit b off [ucast (push_bit 24 (odo AND 0xFF000000)), ucast (push_bit 16 (odo AND 0x00FF0000)),
                   ucast (push_bit 8 (odo AND 0x0000FF00)), ucast (odo AND 0x000000FF)])"

definition uds_did_get_vehicle_speed :: "fm_env \<Rightarrow> bytes \<Rightarrow> nat \<Rightarrow> nat \<Rightarrow> bytes" where
  "uds_did_get_vehicle_speed e b off len =
    (if 2 > len then b
     else let v = f_speed e * 10 in
       blit b off [ucast (drop_bit 8 (v AND 0x0000FF00)), ucast (v AND 0x000000FF)])"

definition uds_did_get_ignition_status :: "fm_env \<Rightarrow> bytes \<Rightarrow> nat \<Rightarrow> nat \<Rightarrow> bytes" where
  "uds_did_get_ignition_status e b off len =
    (if 1 > len then b
     else case f_KL15 e of
       None \<Rightarrow> b[off := 0]
     | Some kl \<Rightarrow> b[off := (if kl = 1 then b ! off OR 0x04 else b ! off AND 0xFB)])"

definition did_get_into :: "fm_env \<Rightarrow> u16 \<Rightarrow> bytes \<Rightarrow> nat \<Rightarrow> nat \<Rightarrow> bytes" where
  "did_get_into e d = (if d = 0x0112 then uds_did_get_pow_voltage e
     else if d = 0xF020 then uds_did_get_time e
     else if d = 0xE101 then uds_did_get_odometer_reading e
     else if d = 0xB100 then uds_did_get_vehicle_speed e
     else if d = 0xD001 then uds_did_get_ignition_status e
     else (\<lambda>b off len. b))"

section \<open>Start\<close>

definition freeze_dids :: "diag_item \<Rightarrow> u16 list" where
  "freeze_dids it = takeWhile (\<lambda>d. d \<noteq> DID_INVALID) (take DIAG_MAX_DID_CNT (it_freeze it))"

text \<open>The lengths of the frozen identifiers; \<open>None\<close> when one is not in the table.\<close>

primrec freeze_size :: "u16 list \<Rightarrow> nat option" where
  "freeze_size [] = Some 0"
| "freeze_size (d # ds) = (case did_entry d of
     None \<Rightarrow> None
   | Some x \<Rightarrow> (case freeze_size ds of None \<Rightarrow> None | Some n \<Rightarrow> Some (did_len x + n)))"

primrec diag_layout :: "diag_item list \<Rightarrow> nat \<Rightarrow> (nat \<times> nat) list option" where
  "diag_layout [] off = Some []"
| "diag_layout (it # its) off = (case freeze_size (freeze_dids it) of
     None \<Rightarrow> None
   | Some n \<Rightarrow> (case diag_layout its (off + (n + 4)) of None \<Rightarrow> None | Some l \<Rightarrow> Some ((off, n + 4) # l)))"

abbreviation (input) "UDS_INVALID_PARA \<equiv> 1 :: int"
abbreviation (input) "UDS_PARA_OVERFLOW \<equiv> 3 :: int"

text \<open>\<open>stored\<close>: what \<^verbatim>\<open>rds_get\<close> reads back, \<open>None\<close> when it fails; the error codes are given without the module's
  number.\<close>

definition uds_diag_init :: "bytes option \<Rightarrow> int \<times> fault_mem" where
  "uds_diag_init stored =
    (let fm = \<lparr>fm_buf = replicate DIAG_ITEM_BUF_LEN 0, fm_counter = replicate DIAG_ITEM_NUM 0, fm_lay = [],
               fm_trigger = False, fm_stored = stored, nm_flag = replicate 18 False,
               nm_time = replicate 18 0, nm_node = replicate 1024 0, nm_over = False\<rparr>
     in case diag_layout diag_table 0 of
          None \<Rightarrow> (UDS_INVALID_PARA, fm)
        | Some l \<Rightarrow>
            (let fm = fm\<lparr>fm_lay := l\<rparr> in
             if DIAG_ITEM_BUF_LEN < fst (last l) + snd (last l) then (UDS_PARA_OVERFLOW, fm)
             else (0, case stored of None \<Rightarrow> fm | Some b \<Rightarrow> fm\<lparr>fm_buf := blit (fm_buf fm) 0 (take DIAG_ITEM_BUF_LEN b)\<rparr>)))"

section \<open>Testing\<close>

primrec gen_freeze_loop :: "fm_env \<Rightarrow> u16 list \<Rightarrow> bytes \<times> nat \<Rightarrow> bytes \<times> nat" where
  "gen_freeze_loop e [] bo = bo"
| "gen_freeze_loop e (d # ds) bo = gen_freeze_loop e ds
     (case did_entry d of None \<Rightarrow> bo | Some x \<Rightarrow> (did_get_into e d (fst bo) (snd bo) (did_len x), snd bo + did_len x))"

definition uds_diag_gen_freeze :: "fm_env \<Rightarrow> nat \<Rightarrow> fault_mem \<Rightarrow> fault_mem" where
  "uds_diag_gen_freeze e i fm =
    fm\<lparr>fm_buf := fst (gen_freeze_loop e (freeze_dids (diag_table ! i)) (fm_buf fm, fst (fm_lay fm ! i) + 4))\<rparr>"

definition set_confirmed :: "nat \<Rightarrow> fault_mem \<Rightarrow> fault_mem" where
  "set_confirmed i fm = fm\<lparr>fm_buf := blit (fm_buf fm) (fst (fm_lay fm ! i)) [1, 0, 0, 0]\<rparr>"

definition uds_diag_one_device :: "fm_env \<Rightarrow> nat \<Rightarrow> fault_mem \<Rightarrow> fault_mem" where
  "uds_diag_one_device e i fm =
    (if DIAG_ITEM_NUM \<le> i then fm
     else if (word_of_int (diag_fun e fm i) :: u8) = 0 then fm\<lparr>fm_counter := (fm_counter fm)[i := 0]\<rparr>
     else if fm_counter fm ! i < it_thsd (diag_table ! i)
     then fm\<lparr>fm_counter := (fm_counter fm)[i := fm_counter fm ! i + 1]\<rparr>
     else if confirmed fm i = 0 then uds_diag_gen_freeze e i (set_confirmed i fm) else fm)"

text \<open>The loop of \<^verbatim>\<open>uds_diag_devices\<close>, with its flag for a newly confirmed fault.\<close>

definition diag_scan :: "fm_env \<Rightarrow> nat list \<Rightarrow> bool \<times> fault_mem \<Rightarrow> bool \<times> fault_mem" where
  "diag_scan e = fold (\<lambda>i (new, fm).
     let pre_confirmed = confirmed fm i; fm = uds_diag_one_device e i fm
     in (new \<or> pre_confirmed = 0 \<and> confirmed fm i = 1, fm))"

text \<open>\<^verbatim>\<open>rds_update_once\<close> with the buffer; the code ignores its result.\<close>

definition rds_update_buf :: "fm_env \<Rightarrow> fault_mem \<Rightarrow> fault_mem" where
  "rds_update_buf e fm = fm\<lparr>fm_stored := (case f_rds e of None \<Rightarrow> Some (fm_buf fm) | Some left \<Rightarrow> left)\<rparr>"

definition diag_save :: "fm_env \<Rightarrow> bool \<times> fault_mem \<Rightarrow> fault_mem" where
  "diag_save e = (\<lambda>(new, fm). if new then rds_update_buf e fm else fm)"

definition uds_diag_all_devices :: "fm_env \<Rightarrow> bool \<Rightarrow> fault_mem \<Rightarrow> fault_mem" where
  "uds_diag_all_devices e dtc_on fm = (if \<not> dtc_on then fm else diag_save e (diag_scan e [0..<DIAG_ITEM_NUM] (False, fm)))"

text \<open>\<open>dtc_on\<close> is \<^verbatim>\<open>UDS_GetDTCSetting\<close>, the switch of the diagnostic server.\<close>

definition uds_diag_devices :: "fm_env \<Rightarrow> bool \<Rightarrow> nat \<Rightarrow> nat \<Rightarrow> fault_mem \<Rightarrow> fault_mem" where
  "uds_diag_devices e dtc_on startno endno fm =
    (if \<not> dtc_on then fm
     else let fm = diag_save e (diag_scan e [startno..<endno] (False, fm))
          in fm\<lparr>fm_trigger := (\<exists>i\<in>set [0..<DIAG_ITEM_NUM]. confirmed fm i = 1)\<rparr>)"

definition uds_diag_dtc_clear :: "fm_env \<Rightarrow> fault_mem \<Rightarrow> fault_mem" where
  "uds_diag_dtc_clear e fm =
    rds_update_buf e (fm\<lparr>fm_buf := replicate DIAG_ITEM_BUF_LEN 0, fm_counter := replicate DIAG_ITEM_NUM 0\<rparr>)"

text \<open>What the remote diagnosis is told: a fault of any kind, the battery's and the motor's node missing.\<close>

definition get_PP_rmtDiag_NodeFault_t :: "fm_env \<Rightarrow> fault_mem \<Rightarrow> bool \<times> bool \<times> bool" where
  "get_PP_rmtDiag_NodeFault_t e fm =
    (let now = (\<lambda>i. confirmed fm i AND 0xFF = 1 \<and> (word_of_int (diag_fun e fm i) :: u8) = 1)
     in (\<exists>i\<in>set [0..<DIAG_ITEM_NUM]. now i, now 15, now 17))"

section \<open>The CAN nodes (\<open>uds_node_miss.c\<close>)\<close>

text \<open>Nodes are numbered from 1; the clock is read once for a round. The difference of times is unsigned.\<close>

definition node_miss_step :: "fm_env \<Rightarrow> nat \<Rightarrow> fault_mem \<Rightarrow> fault_mem" where
  "node_miss_step e n fm =
    (if \<not> nm_flag fm ! n then
       (if f_now e - nm_time fm ! n > 1000 then set_can_node_miss_state n True fm else fm)
     else if f_now e - nm_time fm ! n < 50 then set_can_node_miss_state n False fm else fm)"

definition node_reset :: "fm_env \<Rightarrow> nat \<Rightarrow> fault_mem \<Rightarrow> fault_mem" where
  "node_reset e n fm = set_node_sig_time n (f_now e) (set_can_node_miss_state n False fm)"

definition nodes_reset :: "fm_env \<Rightarrow> fault_mem \<Rightarrow> fault_mem" where
  "nodes_reset e = fold (node_reset e) [1..<18]"

definition test_all_node_miss :: "fm_env \<Rightarrow> bool \<Rightarrow> fault_mem \<Rightarrow> fault_mem" where
  "test_all_node_miss e dtc_on fm =
    uds_diag_devices e dtc_on 14 DIAG_ITEM_NUM
      (if voltage_normal e \<and> f_CAN_BUS2 e = 1 then fold (node_miss_step e) [1..<18] fm else nodes_reset e fm)"

text \<open>The two events of the CAN database: the suffix of a signal names its node (\<open>Some\<close> when \<^verbatim>\<open>sscanf\<close> reads a number),
  a signal is received. The database numbers its signals from 1 to 1024, the array has the places 0 to 1023: the last number writes and reads
  the lock behind it. What the overwritten lock then does is not part of the model, which goes on.\<close>

definition can_node_surfix :: "nat \<Rightarrow> int option \<Rightarrow> fault_mem \<Rightarrow> fault_mem" where
  "can_node_surfix sig_id node fm = (case node of None \<Rightarrow> fm
     | Some n \<Rightarrow> if sig_id < CAN_NODE_MISS_MAX_SIGNAL then fm\<lparr>nm_node := (nm_node fm)[sig_id := n]\<rparr> else fm\<lparr>nm_over := True\<rparr>)"

definition can_node_rcved :: "fm_env \<Rightarrow> nat \<Rightarrow> fault_mem \<Rightarrow> fault_mem" where
  "can_node_rcved e sig_id fm =
    (let node_id = (if sig_id < CAN_NODE_MISS_MAX_SIGNAL then nm_node fm ! sig_id else f_behind e)
     in if node_id > 0 \<and> node_id < 18 then set_node_sig_time (nat node_id) (f_now e) fm else fm)"

section \<open>The reports (\<open>uds_read_dtc.c\<close>)\<close>

text \<open>\<^verbatim>\<open>ChangeDTCtoInt\<close>: \<^verbatim>\<open>strtoul\<close> with base 16.\<close>

definition hex_digit :: "char \<Rightarrow> nat option" where
  "hex_digit c = (let k = of_char c :: nat in
     if 48 \<le> k \<and> k \<le> 57 then Some (k - 48)
     else if 65 \<le> k \<and> k \<le> 70 then Some (k - 55)
     else if 97 \<le> k \<and> k \<le> 102 then Some (k - 87) else None)"

definition ChangeDTCtoInt :: "string \<Rightarrow> u32" where
  "ChangeDTCtoInt s = foldl (\<lambda>n c. n * 16 + of_nat (the (hex_digit c))) 0 (takeWhile (\<lambda>c. hex_digit c \<noteq> None) s)"

definition dtc_code :: "nat \<Rightarrow> u32" where "dtc_code j = ChangeDTCtoInt (it_dtc (diag_table ! j))"

definition uds_diag_is_cfm_dtc_valid :: "fault_mem \<Rightarrow> nat \<Rightarrow> bool" where
  "uds_diag_is_cfm_dtc_valid fm j = (confirmed fm j \<noteq> 0)"

definition uds_diag_is_uncfm_dtc_valid :: "fault_mem \<Rightarrow> nat \<Rightarrow> bool" where
  "uds_diag_is_uncfm_dtc_valid fm j = (fm_counter fm ! j > 0)"

definition uds_diag_get_dtc_num :: "fault_mem \<Rightarrow> nat" where
  "uds_diag_get_dtc_num fm = length (filter (\<lambda>i. confirmed fm i \<noteq> 0 \<or> fm_counter fm ! i > 0) [0..<DIAG_ITEM_NUM])"

definition uds_diag_get_cfm_dtc_num :: "fault_mem \<Rightarrow> nat" where
  "uds_diag_get_cfm_dtc_num fm = length (filter (\<lambda>i. confirmed fm i \<noteq> 0) [0..<DIAG_ITEM_NUM])"

definition uds_diag_get_uncfm_dtc_num :: "fault_mem \<Rightarrow> nat" where
  "uds_diag_get_uncfm_dtc_num fm = length (filter (\<lambda>i. fm_counter fm ! i > 0) [0..<DIAG_ITEM_NUM])"

text \<open>The masks \<^verbatim>\<open>statusOfDTC_testfail\<close> = 1 and \<^verbatim>\<open>statusOfDTC_ConfirmedDTC\<close> = 8, and both.\<close>

definition StatusOfDTC :: "fault_mem \<Rightarrow> nat \<Rightarrow> u8" where
  "StatusOfDTC fm j =
    (if uds_diag_is_cfm_dtc_valid fm j then 8 else 0) OR (if uds_diag_is_uncfm_dtc_valid fm j then 1 else 0)"

definition dtc_bytes :: "nat \<Rightarrow> bytes" where
  "dtc_bytes j = [ucast (drop_bit 16 (dtc_code j)), ucast (drop_bit 8 (dtc_code j)), ucast (dtc_code j)]"

definition dtc_record :: "fault_mem \<Rightarrow> nat \<Rightarrow> bytes" where
  "dtc_record fm j = dtc_bytes j @ [StatusOfDTC fm j]"

definition ReportNumberOfDTCByStatusMask :: "fault_mem \<Rightarrow> nat \<Rightarrow> bytes \<Rightarrow> u8 + bytes" where
  "ReportNumberOfDTCByStatusMask fm dlc pdu =
    (if dlc \<noteq> 3 then Inl NRC_IncorrectMessageLengthOrInvailFormat
     else let n = (if pdu ! 2 AND 9 = 9 then uds_diag_get_dtc_num fm
                   else if pdu ! 2 AND 1 \<noteq> 0 then uds_diag_get_uncfm_dtc_num fm
                   else if pdu ! 2 AND 8 \<noteq> 0 then uds_diag_get_cfm_dtc_num fm else 0);
              DTCCounter = of_nat n :: u16
          in Inr [pdu ! 0 + POS_RESPOND_SID_MASK, pdu ! 1, 9, 0, ucast (drop_bit 8 DTCCounter), ucast DTCCounter])"

definition dtc_list :: "fault_mem \<Rightarrow> bytes \<Rightarrow> (nat \<Rightarrow> bool) \<Rightarrow> bytes" where
  "dtc_list fm pdu P =
    [pdu ! 0 + POS_RESPOND_SID_MASK, pdu ! 1, 9] @ concat (map (dtc_record fm) (filter P [0..<DIAG_ITEM_NUM]))"

definition ReportDTC_testfail_Or_Confirmed :: "fault_mem \<Rightarrow> bytes \<Rightarrow> bytes" where
  "ReportDTC_testfail_Or_Confirmed fm pdu =
    dtc_list fm pdu (\<lambda>j. uds_diag_is_cfm_dtc_valid fm j \<or> uds_diag_is_uncfm_dtc_valid fm j)"

definition ReportDTC_testfail :: "fault_mem \<Rightarrow> bytes \<Rightarrow> bytes" where
  "ReportDTC_testfail fm pdu = dtc_list fm pdu (uds_diag_is_uncfm_dtc_valid fm)"

definition ReportDTC__Confirmed :: "fault_mem \<Rightarrow> bytes \<Rightarrow> bytes" where
  "ReportDTC__Confirmed fm pdu = dtc_list fm pdu (uds_diag_is_cfm_dtc_valid fm)"

definition ReportDTCByStatusMask :: "fault_mem \<Rightarrow> nat \<Rightarrow> bytes \<Rightarrow> u8 + bytes" where
  "ReportDTCByStatusMask fm dlc pdu =
    (if dlc \<noteq> 3 then Inl NRC_IncorrectMessageLengthOrInvailFormat
     else if pdu ! 2 AND 9 = 0 then Inr [pdu ! 0 + POS_RESPOND_SID_MASK, pdu ! 1, 9]
     else if pdu ! 2 AND 9 = 9 then Inr (ReportDTC_testfail_Or_Confirmed fm pdu)
     else if pdu ! 2 AND 1 \<noteq> 0 then Inr (ReportDTC_testfail fm pdu)
     else Inr (ReportDTC__Confirmed fm pdu))"

text \<open>The record number of every fault (\<^verbatim>\<open>DTC_index\<close>) is 1.\<close>

definition ReportDTCSnapshotIdentification :: "fault_mem \<Rightarrow> nat \<Rightarrow> bytes \<Rightarrow> u8 + bytes" where
  "ReportDTCSnapshotIdentification fm dlc pdu =
    (if dlc \<noteq> 2 then Inl NRC_IncorrectMessageLengthOrInvailFormat
     else Inr ([pdu ! 0 + POS_RESPOND_SID_MASK, pdu ! 1]
       @ concat (map (\<lambda>j. dtc_bytes j @ [1]) (filter (uds_diag_is_cfm_dtc_valid fm) [0..<DIAG_ITEM_NUM]))))"

text \<open>\<^verbatim>\<open>uds_diag_get_freeze\<close>: return code, the caller's buffer, its length, the number of identifiers. On an error the
  length stays the caller's and the number is 0.\<close>

primrec get_freeze_loop :: "fault_mem \<Rightarrow> nat \<Rightarrow> nat \<Rightarrow> u16 list \<Rightarrow> bytes \<times> nat \<times> nat \<times> nat \<Rightarrow> u8 \<times> bytes \<times> nat \<times> nat \<times> nat" where
  "get_freeze_loop fm i len [] st = (0, st)"
| "get_freeze_loop fm i len (d # ds) st = (case st of (freeze, offset, cur, did_cnt) \<Rightarrow>
     let freeze = blit freeze offset [ucast (drop_bit 8 d), ucast d]; offset = offset + 2; did_cnt = did_cnt + 1
     in case did_entry d of
          None \<Rightarrow> (NRC_RequestOutOfRange, freeze, offset, cur, did_cnt)
        | Some x \<Rightarrow>
            if did_len x + offset > len then (NRC_RequestOutOfRange, freeze, offset, cur, did_cnt)
            else get_freeze_loop fm i len ds
              (blit freeze offset (take (did_len x) (drop (fst (fm_lay fm ! i) + 4 + cur) (fm_buf fm))),
               offset + did_len x, cur + did_len x, did_cnt))"

definition uds_diag_get_freeze :: "fault_mem \<Rightarrow> nat \<Rightarrow> bytes \<Rightarrow> nat \<Rightarrow> u8 \<times> bytes \<times> nat \<times> nat" where
  "uds_diag_get_freeze fm i freeze len =
    (if it_freeze (diag_table ! i) ! 0 = DID_INVALID then (0, freeze, 0, 0)
     else case get_freeze_loop fm i len (freeze_dids (diag_table ! i)) (freeze, 0, 0, 0) of
       (ret, freeze, offset, cur, did_cnt) \<Rightarrow>
         if ret \<noteq> 0 then (ret, freeze, len, 0)
         else (0, freeze, snd (fm_lay fm ! i) - 4 + did_cnt * 2, did_cnt))"

definition snapshot_find :: "fault_mem \<Rightarrow> u32 \<Rightarrow> u32 \<Rightarrow> nat option" where
  "snapshot_find fm number DTCRecord =
    find (\<lambda>j. uds_diag_is_cfm_dtc_valid fm j \<and> dtc_code j = DTCRecord \<and> (1 = number \<or> number = 0xFF)) [0..<DIAG_ITEM_NUM]"

text \<open>\<open>junk\<close>: what the local \<^verbatim>\<open>DIDBuf[200]\<close> holds at first.\<close>

definition ReportDTCSnapshotRecordByDTCNumber :: "bytes \<Rightarrow> fault_mem \<Rightarrow> nat \<Rightarrow> bytes \<Rightarrow> u8 + bytes" where
  "ReportDTCSnapshotRecordByDTCNumber junk fm dlc pdu =
    (if dlc \<noteq> 6 then Inl NRC_IncorrectMessageLengthOrInvailFormat
     else let DTC = push_bit 16 (ucast (pdu ! 2)) + push_bit 8 (ucast (pdu ! 3)) + ucast (pdu ! 4) :: u32;
              number = ucast (pdu ! 5) :: u32
          in case snapshot_find fm number DTC of
               None \<Rightarrow> Inl NRC_RequestOutOfRange
             | Some j \<Rightarrow>
                 (case uds_diag_get_freeze fm j junk 200 of (ret, DIDBuf, len, DIDnumber) \<Rightarrow>
                   Inr ([pdu ! 0 + POS_RESPOND_SID_MASK, pdu ! 1, pdu ! 2, pdu ! 3, pdu ! 4, 9,
                         (if number = 0xFF then 1 else ucast number), of_nat DIDnumber] @ take len DIDBuf)))"

definition ReadSupportedDTCs :: "fault_mem \<Rightarrow> nat \<Rightarrow> bytes \<Rightarrow> u8 + bytes" where
  "ReadSupportedDTCs fm dlc pdu =
    (if dlc \<noteq> 2 then Inl NRC_IncorrectMessageLengthOrInvailFormat else Inr (dtc_list fm pdu (\<lambda>j. True)))"

definition UDS_SRV_ReadDTC :: "bytes \<Rightarrow> fault_mem \<Rightarrow> bytes \<Rightarrow> nat \<Rightarrow> u8 + bytes" where
  "UDS_SRV_ReadDTC junk fm pdu dlc =
    (if dlc < 2 then Inl NRC_IncorrectMessageLengthOrInvailFormat
     else if pdu ! 1 = 0x01 then ReportNumberOfDTCByStatusMask fm dlc pdu
     else if pdu ! 1 = 0x02 then ReportDTCByStatusMask fm dlc pdu
     else if pdu ! 1 = 0x03 then ReportDTCSnapshotIdentification fm dlc pdu
     else if pdu ! 1 = 0x04 then ReportDTCSnapshotRecordByDTCNumber junk fm dlc pdu
     else if pdu ! 1 = 0x0A then ReadSupportedDTCs fm dlc pdu
     else Inl NRC_SubFuncationNotSupported)"

section \<open>With the diagnostic server\<close>

text \<open>The server's handlers call the reports and the clearing; the thread of the server and the thread of the nodes test the
  devices under its switch. \<open>uds_env\<close>'s reports are those of the memory.\<close>

record diag_sys =
  sys_uds :: uds_st
  sys_fm :: fault_mem

datatype diag_event =
    SysUds uds_env uds_event bytes fm_env
  | SysDevices fm_env
  | SysNodes fm_env
  | SysSignal fm_env nat
  | SysSuffix nat "int option"

fun diag_sys_step :: "diag_event \<Rightarrow> diag_sys \<Rightarrow> diag_sys" where
  "diag_sys_step (SysUds e ev junk fe) s =
    (let u = uds_main (e\<lparr>dtc_report := UDS_SRV_ReadDTC junk (sys_fm s)\<rparr>) (sys_uds s) ev;
         new = drop (length (out (sys_uds s))) (out u)
     in s\<lparr>sys_uds := u, sys_fm := (if DtcClear \<in> set new then nodes_reset fe (uds_diag_dtc_clear fe (sys_fm s)) else sys_fm s)\<rparr>)"
| "diag_sys_step (SysDevices fe) s = s\<lparr>sys_fm := uds_diag_devices fe (DTCSwitch (sys_uds s)) 0 DIAG_ITEM_NUM (sys_fm s)\<rparr>"
| "diag_sys_step (SysNodes fe) s = s\<lparr>sys_fm := test_all_node_miss fe (DTCSwitch (sys_uds s)) (sys_fm s)\<rparr>"
| "diag_sys_step (SysSignal fe i) s = s\<lparr>sys_fm := can_node_rcved fe i (sys_fm s)\<rparr>"
| "diag_sys_step (SysSuffix i n) s = s\<lparr>sys_fm := can_node_surfix i n (sys_fm s)\<rparr>"

end
