(* ===== verification/FaultFacts.thy ===== *)
theory FaultFacts
  imports FaultMem
begin

text \<open>
  What the fault memory does. Each fault is an entry of its own, a counter, a flag and a frozen frame, and a scan of the
  code over the shared buffer is one step of every entry's automaton (\<open>entry_check\<close>). On the automaton: when a fault is
  confirmed, and that a frame stays until it is cleared. Then the reports over the entries and the saved copy.
\<close>

section \<open>Well-formed memories\<close>

definition fm_wf :: "fault_mem \<Rightarrow> bool" where
  "fm_wf fm \<longleftrightarrow> fm_lay fm = map (\<lambda>i. (18 * i, 18)) [0..<DIAG_ITEM_NUM] \<and> length (fm_buf fm) = DIAG_ITEM_BUF_LEN
     \<and> length (fm_counter fm) = DIAG_ITEM_NUM \<and> length (nm_flag fm) = 18 \<and> length (nm_time fm) = 18
     \<and> length (nm_node fm) = 1024 \<and> (\<forall>i<DIAG_ITEM_NUM. fm_counter fm ! i \<le> it_thsd (diag_table ! i))"

lemma layout_value: "diag_layout diag_table 0 = Some (map (\<lambda>i. (18 * i, 18)) [0..<DIAG_ITEM_NUM])"
  by code_simp

lemma frozen_dids: "i < DIAG_ITEM_NUM \<Longrightarrow> freeze_dids (diag_table ! i) = [0x0112, 0xE101, 0xB100, 0xD001, 0xF020]"
proof -
  have "list_all (\<lambda>it. freeze_dids it = [0x0112, 0xE101, 0xB100, 0xD001, 0xF020]) diag_table" "length diag_table = DIAG_ITEM_NUM"
    by code_simp+
  then show "i < DIAG_ITEM_NUM \<Longrightarrow> ?thesis" by (simp add: list_all_length)
qed

lemma did_entries:
  "did_entry 0x0112 = Some \<lparr>did_id = 0x0112, did_len = 1, did_level = 0\<rparr>"
  "did_entry 0xE101 = Some \<lparr>did_id = 0xE101, did_len = 3, did_level = 0\<rparr>"
  "did_entry 0xB100 = Some \<lparr>did_id = 0xB100, did_len = 2, did_level = 0\<rparr>"
  "did_entry 0xD001 = Some \<lparr>did_id = 0xD001, did_len = 1, did_level = 0\<rparr>"
  "did_entry 0xF020 = Some \<lparr>did_id = 0xF020, did_len = 7, did_level = 0\<rparr>"
  by code_simp+

lemma lay_nth: "fm_wf fm \<Longrightarrow> i < DIAG_ITEM_NUM \<Longrightarrow> fm_lay fm ! i = (18 * i, 18)"
  by (simp add: fm_wf_def)

section \<open>Writing a frame\<close>

definition ignition_byte :: "fm_env \<Rightarrow> u8 \<Rightarrow> u8" where
  "ignition_byte e old = (case f_KL15 e of None \<Rightarrow> 0 | Some kl \<Rightarrow> if kl = 1 then old OR 0x04 else old AND 0xFB)"

definition frame_of :: "fm_env \<Rightarrow> u8 \<Rightarrow> bytes" where
  "frame_of e old =
    [ucast ((case f_voltage e of None \<Rightarrow> 0 | Some v \<Rightarrow> v) div 100), 0, 0, 0,
     ucast (drop_bit 8 ((f_speed e * 10) AND 0x0000FF00)), ucast ((f_speed e * 10) AND 0x000000FF), ignition_byte e old,
     of_nat (f_year e mod 256), of_nat (f_year e div 256), f_mon e, f_mday e, f_hour e, f_min e, f_sec e]"

lemma length_frame_of [simp]: "length (frame_of e old) = 14"
  by (simp add: frame_of_def)

lemma odometer_bytes:
  "(ucast (push_bit 24 (odo AND 0xFF000000) :: u32) :: u8) = 0" "(ucast (push_bit 16 (odo AND 0x00FF0000) :: u32) :: u8) = 0"
  "(ucast (push_bit 8 (odo AND 0x0000FF00) :: u32) :: u8) = 0"
  by (rule bit_word_eqI; simp add: bit_simps)+

lemma get_odometer: "uds_did_get_odometer_reading e b off 3 = blit b off [0, 0, 0, ucast (f_odograph e AND 0x000000FF)]"
  unfolding uds_did_get_odometer_reading_def Let_def odometer_bytes by simp

lemma get_speed: "uds_did_get_vehicle_speed e b off 2
    = blit b off [ucast (drop_bit 8 ((f_speed e * 10) AND 0x0000FF00)), ucast ((f_speed e * 10) AND 0x000000FF)]"
  unfolding uds_did_get_vehicle_speed_def Let_def by simp

lemma get_ignition: "uds_did_get_ignition_status e b off 1 = b[off := ignition_byte e (b ! off)]"
  by (simp add: uds_did_get_ignition_status_def ignition_byte_def split: option.split)

lemma get_voltage: "uds_did_get_pow_voltage e b off 1 = b[off := ucast ((case f_voltage e of None \<Rightarrow> 0 | Some v \<Rightarrow> v) div 100)]"
  unfolding uds_did_get_pow_voltage_def by simp

lemma get_time: "uds_did_get_time e b off 7
    = blit b off [of_nat (f_year e mod 256), of_nat (f_year e div 256), f_mon e, f_mday e, f_hour e, f_min e, f_sec e]"
  unfolding uds_did_get_time_def by simp

lemma get_into:
  "did_get_into e 0x0112 = uds_did_get_pow_voltage e" "did_get_into e 0xE101 = uds_did_get_odometer_reading e"
  "did_get_into e 0xB100 = uds_did_get_vehicle_speed e" "did_get_into e 0xD001 = uds_did_get_ignition_status e"
  "did_get_into e 0xF020 = uds_did_get_time e"
  by (simp_all add: did_get_into_def)

lemma offset_cases:
  "i < n \<Longrightarrow> (\<And>k. k < 14 \<Longrightarrow> i = off + k \<Longrightarrow> P (off + k)) \<Longrightarrow> (i < off \<or> off + 14 \<le> i \<Longrightarrow> P i) \<Longrightarrow> P i" for i :: nat
  by (metis add.commute add_diff_inverse_nat not_less nat_add_left_cancel_less)

lemma gen_loop_frame:
  assumes "off + 14 \<le> length b"
  shows "gen_freeze_loop e [0x0112, 0xE101, 0xB100, 0xD001, 0xF020] (b, off) = (blit b off (frame_of e (b ! (off + 6))), off + 14)"
proof -
  define o4 :: bytes where "o4 = [0, 0, 0, ucast (f_odograph e AND 0x000000FF)]"
  define b1 where "b1 = b[off := ucast ((case f_voltage e of None \<Rightarrow> 0 | Some v \<Rightarrow> v) div 100)]"
  define b2 where "b2 = blit b1 (off + 1) o4"
  define b3 where "b3 = blit b2 (off + 4) [ucast (drop_bit 8 ((f_speed e * 10) AND 0x0000FF00)), ucast ((f_speed e * 10) AND 0x000000FF)]"
  define b4 where "b4 = b3[off + 6 := ignition_byte e (b3 ! (off + 6))]"
  define b5 where "b5 = blit b4 (off + 7) [of_nat (f_year e mod 256), of_nat (f_year e div 256), f_mon e, f_mday e, f_hour e, f_min e, f_sec e]"
  have n: "off + 1 + 3 = off + 4" "off + 4 + 2 = off + 6" "off + 6 + 1 = off + 7" "off + 7 + 7 = off + 14" by simp_all
  have "gen_freeze_loop e [0x0112, 0xE101, 0xB100, 0xD001, 0xF020] (b, off) = (b5, off + 14)"
    by (simp only: gen_freeze_loop.simps did_entries option.case fst_conv snd_conv diag_did.simps get_into get_voltage
        get_odometer get_speed get_ignition get_time n b1_def b2_def b3_def b4_def b5_def o4_def)
  moreover have "b5 = blit b off (frame_of e (b ! (off + 6)))"
  proof (rule nth_equalityI)
    have l: "length b1 = length b" "length b2 = length b" "length b3 = length b" "length b4 = length b"
      using assms by (simp_all add: b1_def b2_def b3_def b4_def o4_def)
    then show "length b5 = length (blit b off (frame_of e (b ! (off + 6))))" using assms by (simp add: b5_def)
    have b36: "b3 ! (off + 6) = b ! (off + 6)" using assms l by (simp add: b3_def b2_def b1_def o4_def nth_blit)
    fix i assume i: "i < length b5"
    then have i': "i < length b" using assms l by (simp add: b5_def)
    show "b5 ! i = blit b off (frame_of e (b ! (off + 6))) ! i"
      using i'
    proof (rule offset_cases [where off = off])
      assume "i < off \<or> off + 14 \<le> i"
      then show ?thesis using i' assms l by (auto simp: b5_def b4_def b3_def b2_def b1_def o4_def nth_blit)
    next
      fix k assume k: "k < 14" and "i = off + k"
      have b4k: "b4 ! (off + k) = frame_of e (b ! (off + 6)) ! k" if "k \<in> {0, 1, 2, 3, 4, 5, 6}"
        using that assms l b36
        by (elim insertE emptyE; simp add: b4_def b3_def b2_def b1_def o4_def nth_blit frame_of_def)
      have b5k: "b5 ! (off + k) = frame_of e (b ! (off + 6)) ! k" if "k \<in> {7, 8, 9, 10, 11, 12, 13}"
        using that assms l by (elim insertE emptyE; simp add: b5_def nth_blit frame_of_def)
      have "k \<in> {0, 1, 2, 3, 4, 5, 6} \<or> k \<in> {7, 8, 9, 10, 11, 12, 13}" using k by (simp; presburger)
      then show "b5 ! (off + k) = blit b off (frame_of e (b ! (off + 6))) ! (off + k)"
      proof
        assume r: "k \<in> {0, 1, 2, 3, 4, 5, 6}"
        then have "k < 7" by auto
        then show ?thesis using assms l b4k [OF r] by (simp add: b5_def nth_blit)
      next
        assume r: "k \<in> {7, 8, 9, 10, 11, 12, 13}"
        then show ?thesis using k assms l b5k [OF r] by (simp add: nth_blit)
      qed
    qed
  qed
  ultimately show ?thesis by simp
qed

lemma confirm_buf:
  assumes "fm_wf fm" "i < DIAG_ITEM_NUM"
  shows "uds_diag_gen_freeze e i (set_confirmed i fm)
    = fm\<lparr>fm_buf := blit (fm_buf fm) (18 * i) ([1, 0, 0, 0] @ frame_of e (fm_buf fm ! (18 * i + 10)))\<rparr>"
proof -
  have l: "length (fm_buf fm) = 1024" "18 * i + 18 \<le> 1024" using assms by (simp_all add: fm_wf_def)
  let ?b = "blit (fm_buf fm) (18 * i) [1, 0, 0, 0]"
  have i10: "?b ! (18 * i + 4 + 6) = fm_buf fm ! (18 * i + 10)"
  proof -
    have "18 * i + 4 + 6 = 18 * i + 10" by simp
    then show ?thesis using l by (simp only:) (simp add: nth_blit)
  qed
  have j: "blit ?b (18 * i + 4) f = blit (fm_buf fm) (18 * i) ([1, 0, 0, 0] @ f)" if "length f = 14" for f
    using l that by (simp add: blit_def add.commute)
  have "gen_freeze_loop e (freeze_dids (diag_table ! i)) (?b, 18 * i + 4)
      = (blit ?b (18 * i + 4) (frame_of e (?b ! (18 * i + 4 + 6))), 18 * i + 4 + 14)"
    unfolding frozen_dids [OF assms(2)] by (rule gen_loop_frame) (use l in simp)
  then show ?thesis
    unfolding i10 j [OF length_frame_of]
    by (simp add: uds_diag_gen_freeze_def set_confirmed_def lay_nth [OF assms] del: gen_freeze_loop.simps)
qed

section \<open>A fault as an entry\<close>

text \<open>Counter, flag and frame of fault \<open>i\<close>, and what a test does with it.\<close>

definition region :: "fault_mem \<Rightarrow> nat \<Rightarrow> bytes" where "region fm i = take 18 (drop (18 * i) (fm_buf fm))"

definition fm_entry :: "fault_mem \<Rightarrow> nat \<Rightarrow> nat \<times> u32 \<times> bytes" where
  "fm_entry fm i = (unat (fm_counter fm ! i), le_u32 (region fm i) 0, drop 4 (region fm i))"

definition entry_check :: "fm_env \<Rightarrow> nat \<Rightarrow> bool \<Rightarrow> nat \<times> u32 \<times> bytes \<Rightarrow> nat \<times> u32 \<times> bytes" where
  "entry_check e th failed = (\<lambda>(c, flag, frame).
    if \<not> failed then (0, flag, frame)
    else if c < th then (c + 1, flag, frame)
    else if flag = 0 then (c, 1, frame_of e (frame ! 6)) else (c, flag, frame))"

lemma confirmed_region: "fm_wf fm \<Longrightarrow> i < DIAG_ITEM_NUM \<Longrightarrow> confirmed fm i = le_u32 (region fm i) 0"
  by (simp add: confirmed_def lay_nth le_u32_def region_def) (simp add: fm_wf_def)

lemma confirmed_entry: "fm_wf fm \<Longrightarrow> i < DIAG_ITEM_NUM \<Longrightarrow> confirmed fm i = fst (snd (fm_entry fm i))"
  by (simp add: confirmed_region fm_entry_def)

lemma region_blit:
  assumes "length (fm_buf fm) = 1024" "i < DIAG_ITEM_NUM" "j < DIAG_ITEM_NUM" "length f = 18"
  shows "region (fm\<lparr>fm_buf := blit (fm_buf fm) (18 * i) f\<rparr>) j = (if j = i then f else region fm j)"
proof (cases "j = i")
  case True
  have "18 * i + 18 \<le> 1024" using assms(2) by simp
  then have "take 18 (drop (18 * i) (blit (fm_buf fm) (18 * i) f)) = f" using assms(1,4) by (simp add: blit_def)
  then show ?thesis using True by (simp add: region_def)
next
  case False
  have "take 18 (drop (18 * j) (blit (fm_buf fm) (18 * i) f)) = take 18 (drop (18 * j) (fm_buf fm))"
  proof (rule nth_equalityI)
    show "length (take 18 (drop (18 * j) (blit (fm_buf fm) (18 * i) f))) = length (take 18 (drop (18 * j) (fm_buf fm)))"
      using assms by simp
    fix k assume "k < length (take 18 (drop (18 * j) (blit (fm_buf fm) (18 * i) f)))"
    then have k: "k < 18" "18 * j + k < 1024" using assms by simp_all
    have "\<not> (18 * i \<le> 18 * j + k \<and> 18 * j + k < 18 * i + 18)"
      using False k(1) by (cases i j rule: linorder_cases) linarith+
    then show "take 18 (drop (18 * j) (blit (fm_buf fm) (18 * i) f)) ! k = take 18 (drop (18 * j) (fm_buf fm)) ! k"
      using assms k by (auto simp: nth_blit)
  qed
  then show ?thesis using False by (simp add: region_def)
qed

lemma region_counter [simp]: "region (fm\<lparr>fm_counter := c\<rparr>) i = region fm i"
  by (simp add: region_def)

definition fails :: "fm_env \<Rightarrow> fault_mem \<Rightarrow> nat \<Rightarrow> bool" where
  "fails e fm i \<longleftrightarrow> (word_of_int (diag_fun e fm i) :: u8) \<noteq> 0"

definition threshold :: "nat \<Rightarrow> nat" where "threshold i = unat (it_thsd (diag_table ! i))"

lemma flag_one [simp]: "le_u32 (1 # 0 # 0 # 0 # f) 0 = 1"
  by (simp add: le_u32_def)

lemma unat_inc: "x < y \<Longrightarrow> unat (x + 1) = unat x + 1" for x y :: u32
  using unat_lt_32 [of y] by (simp add: unat_word_ariths(1) word_less_nat_alt)

lemma one_device_wf: "fm_wf fm \<Longrightarrow> fm_wf (uds_diag_one_device e i fm)"
proof -
  assume wf: "fm_wf fm"
  show ?thesis
  proof (cases "i < DIAG_ITEM_NUM")
    case True
    have inc: "fm_counter fm ! i + 1 \<le> it_thsd (diag_table ! i)" if "fm_counter fm ! i < it_thsd (diag_table ! i)"
      using that by (simp add: inc_le)
    have "length (fm_buf fm) = 1024" "18 * i + 18 \<le> 1024" using wf True by (simp_all add: fm_wf_def)
    then show ?thesis using wf True inc confirm_buf [OF wf True]
      by (auto simp: uds_diag_one_device_def fm_wf_def nth_list_update)
  qed (use wf in \<open>simp add: uds_diag_one_device_def\<close>)
qed

lemma one_device_entry:
  assumes wf: "fm_wf fm" and i: "i < DIAG_ITEM_NUM" and j: "j < DIAG_ITEM_NUM"
  shows "fm_entry (uds_diag_one_device e i fm) j =
    (if j = i then entry_check e (threshold i) (fails e fm i) (fm_entry fm i) else fm_entry fm j)"
proof -
  have len: "length (fm_buf fm) = 1024" "length (fm_counter fm) = 31" using wf by (simp_all add: fm_wf_def)
  have f6: "fm_buf fm ! (18 * i + 10) = drop 4 (region fm i) ! 6"
    using len i by (simp add: region_def add.commute)
  have inc: "unat (fm_counter fm ! i + 1) = unat (fm_counter fm ! i) + 1" if "fm_counter fm ! i < it_thsd (diag_table ! i)"
    using that by (rule unat_inc)
  have lt: "fm_counter fm ! i < it_thsd (diag_table ! i) \<longleftrightarrow> unat (fm_counter fm ! i) < threshold i"
    by (simp add: threshold_def word_less_nat_alt)
  note c = confirm_buf [OF wf i, of e]
  show ?thesis
    using len i j inc
    by (auto simp: uds_diag_one_device_def fm_entry_def entry_check_def fails_def lt confirmed_region [OF wf i] c f6
        nth_list_update region_blit)
qed

section \<open>A scan\<close>

text \<open>The tests of a scan look at the environment and the node flags, which the scan does not change.\<close>

lemma one_device_flags [simp]: "nm_flag (uds_diag_one_device e i fm) = nm_flag fm"
  by (simp add: uds_diag_one_device_def uds_diag_gen_freeze_def set_confirmed_def)

lemma fails_flags: "nm_flag fm' = nm_flag fm \<Longrightarrow> fails e fm' i = fails e fm i"
  by (simp add: fails_def diag_fun_def get_can_node_miss_state_def)

lemma diag_scan_simps:
  "diag_scan e [] p = p"
  "diag_scan e (i # is) (new, fm) = diag_scan e is
     (new \<or> confirmed fm i = 0 \<and> confirmed (uds_diag_one_device e i fm) i = 1, uds_diag_one_device e i fm)"
  by (simp_all add: diag_scan_def Let_def)

lemma scan_facts:
  assumes "fm_wf fm" "distinct is" "set is \<subseteq> {..<DIAG_ITEM_NUM}"
  shows "fm_wf (snd (diag_scan e is (new, fm))) \<and> nm_flag (snd (diag_scan e is (new, fm))) = nm_flag fm
    \<and> (\<forall>j<DIAG_ITEM_NUM. fm_entry (snd (diag_scan e is (new, fm))) j =
         (if j \<in> set is then entry_check e (threshold j) (fails e fm j) (fm_entry fm j) else fm_entry fm j))"
  using assms
proof (induction "is" arbitrary: new fm)
  case (Cons i "is")
  let ?fm = "uds_diag_one_device e i fm"
  have i: "i < DIAG_ITEM_NUM" "i \<notin> set is" using Cons.prems by simp_all
  have IH: "fm_wf (snd (diag_scan e is (n, ?fm))) \<and> nm_flag (snd (diag_scan e is (n, ?fm))) = nm_flag ?fm
    \<and> (\<forall>j<DIAG_ITEM_NUM. fm_entry (snd (diag_scan e is (n, ?fm))) j =
         (if j \<in> set is then entry_check e (threshold j) (fails e ?fm j) (fm_entry ?fm j) else fm_entry ?fm j))" for n
    using Cons.prems by (intro Cons.IH one_device_wf) simp_all
  have ent: "fm_entry ?fm j = (if j = i then entry_check e (threshold i) (fails e fm i) (fm_entry fm i) else fm_entry fm j)"
    if "j < DIAG_ITEM_NUM" for j
    using one_device_entry [OF Cons.prems(1) i(1) that] .
  show ?case using IH ent i fails_flags [OF one_device_flags [of e i fm], of e] by (simp add: diag_scan_simps)
qed (simp add: diag_scan_simps)

lemma save_facts [simp]:
  "fm_wf (diag_save e p) = fm_wf (snd p)" "fm_entry (diag_save e p) j = fm_entry (snd p) j"
  "nm_flag (diag_save e p) = nm_flag (snd p)" "nm_time (diag_save e p) = nm_time (snd p)"
  "nm_node (diag_save e p) = nm_node (snd p)" "confirmed (diag_save e p) j = confirmed (snd p) j"
  "fm_buf (diag_save e p) = fm_buf (snd p)" "fm_counter (diag_save e p) = fm_counter (snd p)" "fm_lay (diag_save e p) = fm_lay (snd p)"
  by (cases p; simp add: diag_save_def rds_update_buf_def fm_wf_def fm_entry_def region_def confirmed_def)+

lemma trigger_facts [simp]:
  "fm_wf (fm\<lparr>fm_trigger := t\<rparr>) = fm_wf fm" "fm_entry (fm\<lparr>fm_trigger := t\<rparr>) j = fm_entry fm j"
  by (simp_all add: fm_wf_def fm_entry_def region_def)

lemma scan_range:
  assumes "fm_wf fm" "b \<le> DIAG_ITEM_NUM"
  shows "fm_wf (snd (diag_scan e [a..<b] (new, fm))) \<and> nm_flag (snd (diag_scan e [a..<b] (new, fm))) = nm_flag fm
    \<and> (\<forall>j<DIAG_ITEM_NUM. fm_entry (snd (diag_scan e [a..<b] (new, fm))) j =
         (if a \<le> j \<and> j < b then entry_check e (threshold j) (fails e fm j) (fm_entry fm j) else fm_entry fm j))"
proof -
  have "set [a..<b] \<subseteq> {..<DIAG_ITEM_NUM}" using assms(2) by auto
  from scan_facts [OF assms(1) distinct_upt this, of e new] show ?thesis by simp
qed

lemma devices_wf: "fm_wf fm \<Longrightarrow> b \<le> DIAG_ITEM_NUM \<Longrightarrow> fm_wf (uds_diag_devices e on a b fm)"
  using scan_range [of fm b e a False] by (auto simp: uds_diag_devices_def Let_def)

lemma devices_flags: "fm_wf fm \<Longrightarrow> b \<le> DIAG_ITEM_NUM \<Longrightarrow> nm_flag (uds_diag_devices e on a b fm) = nm_flag fm"
  using scan_range [of fm b e a False] by (auto simp: uds_diag_devices_def Let_def)

lemma devices_entry:
  assumes "fm_wf fm" "b \<le> DIAG_ITEM_NUM" "i < DIAG_ITEM_NUM"
  shows "fm_entry (uds_diag_devices e on a b fm) i =
    (if on \<and> a \<le> i \<and> i < b then entry_check e (threshold i) (fails e fm i) (fm_entry fm i) else fm_entry fm i)"
  using scan_range [of fm b e a False] assms by (auto simp: uds_diag_devices_def Let_def)

text \<open>Changes of the node states leave the entries alone, and the clearing empties all.\<close>

lemma node_set_simps [simp]:
  "fm_entry (set_can_node_miss_state n b fm) i = fm_entry fm i" "fm_wf (set_can_node_miss_state n b fm) = fm_wf fm"
  "fm_entry (set_node_sig_time n t fm) i = fm_entry fm i" "fm_wf (set_node_sig_time n t fm) = fm_wf fm"
  by (simp_all add: set_can_node_miss_state_def set_node_sig_time_def fm_entry_def region_def fm_wf_def)

lemma fold_same: "(\<And>n x. f (g n x) = f x) \<Longrightarrow> f (fold g ns x) = f x"
  by (induction ns arbitrary: x) simp_all

lemma node_steps [simp]:
  "fm_entry (node_miss_step e n fm) i = fm_entry fm i" "fm_wf (node_miss_step e n fm) = fm_wf fm"
  "fm_entry (node_reset e n fm) i = fm_entry fm i" "fm_wf (node_reset e n fm) = fm_wf fm"
  by (simp_all add: node_miss_step_def node_reset_def)

lemma node_rounds [simp]:
  "fm_entry (fold (node_miss_step e) ns fm) i = fm_entry fm i" "fm_wf (fold (node_miss_step e) ns fm) = fm_wf fm"
  "fm_entry (nodes_reset e fm) i = fm_entry fm i" "fm_wf (nodes_reset e fm) = fm_wf fm"
  unfolding nodes_reset_def by (rule fold_same; simp)+

definition node_round :: "fm_env \<Rightarrow> fault_mem \<Rightarrow> fault_mem" where
  "node_round e fm = (if voltage_normal e \<and> f_CAN_BUS2 e = 1 then fold (node_miss_step e) [1..<18] fm else nodes_reset e fm)"

lemma node_round_facts [simp]: "fm_entry (node_round e fm) i = fm_entry fm i" "fm_wf (node_round e fm) = fm_wf fm"
  by (simp_all add: node_round_def)

lemma signal_facts [simp]:
  "fm_entry (can_node_rcved e n fm) i = fm_entry fm i" "fm_wf (can_node_rcved e n fm) = fm_wf fm"
  "fm_entry (can_node_surfix n k fm) i = fm_entry fm i" "fm_wf (can_node_surfix n k fm) = fm_wf fm"
  by (simp add: can_node_rcved_def Let_def)
    (simp add: can_node_rcved_def Let_def,
     simp_all add: can_node_surfix_def fm_entry_def region_def fm_wf_def split: option.split)

lemma clear_wf [simp]: "fm_wf fm \<Longrightarrow> fm_wf (uds_diag_dtc_clear e fm)"
  by (simp add: uds_diag_dtc_clear_def rds_update_buf_def fm_wf_def)

lemma clear_entry: "i < DIAG_ITEM_NUM \<Longrightarrow> fm_entry (uds_diag_dtc_clear e fm) i = (0, 0, replicate 14 0)"
  by (simp add: uds_diag_dtc_clear_def rds_update_buf_def fm_entry_def region_def le_u32_def)

lemma init_wf:
  "fst (uds_diag_init stored) = 0 \<and> fm_wf (snd (uds_diag_init stored))"
proof -
  have "last (map (\<lambda>i. (18 * i, 18)) [0..<DIAG_ITEM_NUM]) = (540 :: nat, 18 :: nat)" by code_simp
  then show ?thesis
    by (simp add: uds_diag_init_def layout_value Let_def fm_wf_def word_coorder.extremum split: option.split)
qed

end
