(* ===== verification/FaultRun.thy ===== *)
theory FaultRun
  imports FaultFacts
begin

text \<open>
  The fault memory in every run of its threads: the diagnostic server, the two timers, the CAN. The history of a fault
  is the list of the results of its tests since the last clearing; the memory is a function of it.
\<close>

section \<open>Runs\<close>

definition diag_sys_init :: "bytes option \<Rightarrow> diag_sys" where
  "diag_sys_init stored = \<lparr>sys_uds = uds_boot, sys_fm = snd (uds_diag_init stored)\<rparr>"

definition diag_run :: "diag_event list \<Rightarrow> diag_sys \<Rightarrow> diag_sys" where "diag_run = fold diag_sys_step"

lemma diag_run_simps [simp]:
  "diag_run [] s = s" "diag_run (evs @ [ev]) s = diag_sys_step ev (diag_run evs s)"
  by (simp_all add: diag_run_def)

text \<open>Does a step clear the memory?\<close>

fun clears :: "diag_event \<Rightarrow> diag_sys \<Rightarrow> bool" where
  "clears (SysUds e ev junk fe) s =
    (DtcClear \<in> set (drop (length (out (sys_uds s)))
       (out (uds_main (e\<lparr>dtc_report := UDS_SRV_ReadDTC junk (sys_fm s)\<rparr>) (sys_uds s) ev))))"
| "clears _ s = False"

text \<open>The test of fault \<open>i\<close> that a step makes: the environment and the result.\<close>

fun test_of :: "nat \<Rightarrow> diag_event \<Rightarrow> diag_sys \<Rightarrow> (fm_env \<times> bool) option" where
  "test_of i (SysDevices fe) s = (if DTCSwitch (sys_uds s) then Some (fe, fails fe (sys_fm s) i) else None)"
| "test_of i (SysNodes fe) s =
    (if DTCSwitch (sys_uds s) \<and> 14 \<le> i then Some (fe, fails fe (node_round fe (sys_fm s)) i) else None)"
| "test_of i _ s = None"

lemma step_wf: "fm_wf (sys_fm s) \<Longrightarrow> fm_wf (sys_fm (diag_sys_step ev s))"
  by (cases ev) (simp_all add: Let_def devices_wf test_all_node_miss_def node_round_def [symmetric])

lemma step_entry:
  assumes "fm_wf (sys_fm s)" "i < DIAG_ITEM_NUM"
  shows "fm_entry (sys_fm (diag_sys_step ev s)) i =
    (if clears ev s then (0, 0, replicate 14 0)
     else case test_of i ev s of None \<Rightarrow> fm_entry (sys_fm s) i
       | Some (fe, failed) \<Rightarrow> entry_check fe (threshold i) failed (fm_entry (sys_fm s) i))"
proof (cases ev)
  case (SysUds e u junk fe)
  then show ?thesis using assms by (simp add: Let_def clear_entry)
next
  case (SysDevices fe)
  then show ?thesis using assms devices_entry [of "sys_fm s" DIAG_ITEM_NUM i fe "DTCSwitch (sys_uds s)" 0] by simp
next
  case (SysNodes fe)
  then show ?thesis
    using assms devices_entry [of "node_round fe (sys_fm s)" DIAG_ITEM_NUM i fe "DTCSwitch (sys_uds s)" 14]
    by (simp add: test_all_node_miss_def node_round_def [symmetric])
qed simp_all

lemma run_wf: "fm_wf (sys_fm s) \<Longrightarrow> fm_wf (sys_fm (diag_run evs s))"
  by (induction evs rule: rev_induct) (simp_all add: step_wf)

section \<open>The history of a fault\<close>

definition hist_step :: "nat \<Rightarrow> diag_event \<Rightarrow> (fm_env \<times> bool) list \<times> diag_sys \<Rightarrow> (fm_env \<times> bool) list \<times> diag_sys" where
  "hist_step i ev = (\<lambda>(h, s). (if clears ev s then [] else case test_of i ev s of None \<Rightarrow> h | Some t \<Rightarrow> h @ [t], diag_sys_step ev s))"

definition history :: "nat \<Rightarrow> diag_event list \<Rightarrow> diag_sys \<Rightarrow> (fm_env \<times> bool) list" where
  "history i evs s = fst (fold (hist_step i) evs ([], s))"

lemma hist_run: "snd (fold (hist_step i) evs ([], s)) = diag_run evs s"
  by (induction evs rule: rev_induct) (simp_all add: hist_step_def case_prod_beta)

lemma history_simps:
  "history i [] s = []"
  "history i (evs @ [ev]) s = (if clears ev (diag_run evs s) then []
     else case test_of i ev (diag_run evs s) of None \<Rightarrow> history i evs s | Some t \<Rightarrow> history i evs s @ [t])"
  by (simp_all add: history_def hist_step_def case_prod_beta hist_run split: option.split)

text \<open>What a history makes of an empty entry.\<close>

definition entry_run :: "nat \<Rightarrow> (fm_env \<times> bool) list \<Rightarrow> nat \<times> u32 \<times> bytes" where
  "entry_run th h = fold (\<lambda>(fe, failed). entry_check fe th failed) h (0, 0, replicate 14 0)"

lemma entry_run_simps [simp]:
  "entry_run th [] = (0, 0, replicate 14 0)"
  "entry_run th (h @ [(fe, failed)]) = entry_check fe th failed (entry_run th h)"
  by (simp_all add: entry_run_def)

lemma entry_is_history:
  assumes "fm_wf (sys_fm s)" "i < DIAG_ITEM_NUM" "fm_entry (sys_fm s) i = (0, 0, replicate 14 0)"
  shows "fm_entry (sys_fm (diag_run evs s)) i = entry_run (threshold i) (history i evs s)"
proof (induction evs rule: rev_induct)
  case (snoc ev evs)
  then show ?case
    by (auto simp: history_simps step_entry [OF run_wf [OF assms(1)] assms(2)] split: option.split)
qed (simp add: assms(3) history_simps)

text \<open>The counter is the number of failures at the end, up to the threshold; the flag is set by the first window of more
  than the threshold of failures, and the frame is taken at its last test.\<close>

definition trailing :: "bool list \<Rightarrow> nat" where "trailing bs = length (takeWhile (\<lambda>b. b) (rev bs))"

lemma trailing_simps [simp]: "trailing [] = 0" "trailing (bs @ [b]) = (if b then Suc (trailing bs) else 0)"
  by (simp_all add: trailing_def)

definition has_window :: "nat \<Rightarrow> bool list \<Rightarrow> bool" where
  "has_window n bs \<longleftrightarrow> (\<exists>k\<le>length bs. n \<le> trailing (take k bs))"

lemma has_window_snoc: "0 < n \<Longrightarrow> has_window n (bs @ [b]) \<longleftrightarrow> has_window n bs \<or> b \<and> n \<le> Suc (trailing bs)"
proof -
  assume "0 < n"
  then have "n \<le> trailing (bs @ [b]) \<longleftrightarrow> b \<and> n \<le> Suc (trailing bs)" by simp
  moreover have "has_window n (bs @ [b]) \<longleftrightarrow> has_window n bs \<or> n \<le> trailing (bs @ [b])"
    by (auto simp: has_window_def le_Suc_eq simp del: trailing_simps)
  ultimately show ?thesis by simp
qed

lemma entry_run_counter: "fst (entry_run th h) = min th (trailing (map snd h))"
proof (induction h rule: rev_induct)
  case (snoc t h)
  then show ?case by (cases t; cases "entry_run th h") (auto simp: entry_check_def)
qed simp

lemma entry_run_flag: "fst (snd (entry_run th h)) = (if has_window (Suc th) (map snd h) then 1 else 0)"
proof (induction h rule: rev_induct)
  case (snoc t h)
  obtain fe b where t: "t = (fe, b)" by (cases t)
  obtain c f d where r: "entry_run th h = (c, f, d)" by (cases "entry_run th h")
  have "c = min th (trailing (map snd h))" using entry_run_counter [of th h] r by simp
  then show ?case using snoc r t by (auto simp: entry_check_def has_window_snoc split: if_splits)
qed (simp add: has_window_def)

section \<open>The frame\<close>

lemma entry_run_frame:
  "if has_window (Suc th) (map snd h)
   then \<exists>h1 fe h2. h = h1 @ (fe, True) # h2 \<and> \<not> has_window (Suc th) (map snd h1)
     \<and> has_window (Suc th) (map snd h1 @ [True]) \<and> snd (snd (entry_run th h)) = frame_of fe 0
   else snd (snd (entry_run th h)) = replicate 14 0"
proof (induction h rule: rev_induct)
  case (snoc t h)
  obtain fe b where t: "t = (fe, b)" by (cases t)
  obtain c f d where r: "entry_run th h = (c, f, d)" by (cases "entry_run th h")
  have cf: "c = min th (trailing (map snd h))" "f = (if has_window (Suc th) (map snd h) then 1 else 0)"
    using entry_run_counter [of th h] entry_run_flag [of th h] r by simp_all
  show ?case
  proof (cases "has_window (Suc th) (map snd h)")
    case True
    then obtain h1 fe1 h2 where h: "h = h1 @ (fe1, True) # h2" "\<not> has_window (Suc th) (map snd h1)"
      "has_window (Suc th) (map snd h1 @ [True])" "d = frame_of fe1 0" using snoc r by auto
    have "has_window (Suc th) (map snd (h @ [t]))" using True by (simp add: has_window_snoc)
    moreover have "snd (snd (entry_run th (h @ [t]))) = d" using True cf r t by (simp add: entry_check_def)
    moreover have "h @ [t] = h1 @ (fe1, True) # (h2 @ [t])" using h(1) by simp
    ultimately show ?thesis using h by auto
  next
    case False
    then have d: "d = replicate 14 0" using snoc r by simp
    show ?thesis
    proof (cases "b \<and> th \<le> trailing (map snd h)")
      case True
      then have "has_window (Suc th) (map snd h @ [True])" by (simp add: has_window_snoc)
      moreover have "snd (snd (entry_run th (h @ [t]))) = frame_of fe 0"
        using True False cf r t d by (simp add: entry_check_def)
      moreover have "has_window (Suc th) (map snd (h @ [t]))" using True t by (simp add: has_window_snoc)
      moreover have "h @ [t] = h @ (fe, True) # []" using True t by simp
      ultimately show ?thesis using False by (simp only: if_True) blast
    next
      case nw: False
      then have "\<not> has_window (Suc th) (map snd (h @ [t]))" using False t by (auto simp: has_window_snoc)
      moreover have "snd (snd (entry_run th (h @ [t]))) = d" using nw False cf r t by (auto simp: entry_check_def)
      ultimately show ?thesis using d by simp
    qed
  qed
qed (simp add: has_window_def)

section \<open>The reports\<close>

lemma dtc_codes_distinct:
  assumes "i < DIAG_ITEM_NUM" "j < DIAG_ITEM_NUM" "dtc_code i = dtc_code j"
  shows "i = j"
proof -
  have "distinct (map dtc_code [0..<DIAG_ITEM_NUM])" by code_simp
  then have "inj_on dtc_code {0..<DIAG_ITEM_NUM}" by (simp add: distinct_map)
  then show ?thesis using assms by (auto dest: inj_onD)
qed

lemma three_bytes:
  fixes x :: u32
  assumes "x < 0x1000000"
  shows "push_bit 16 (ucast (ucast (drop_bit 16 x) :: u8)) + push_bit 8 (ucast (ucast (drop_bit 8 x) :: u8)) + ucast (ucast x :: u8) = x"
proof -
  have 1: "push_bit 16 (ucast (a :: u8)) + push_bit 8 (ucast (b :: u8)) = (push_bit 16 (ucast a) OR push_bit 8 (ucast b) :: u32)" for a b
    by (rule disjunctive_add) (auto simp: bit_simps dest: bit_imp_le_length)
  have 2: "(push_bit 16 (ucast (a :: u8)) OR push_bit 8 (ucast (b :: u8))) + ucast (c :: u8)
      = (push_bit 16 (ucast a) OR push_bit 8 (ucast b) OR ucast c :: u32)" for a b c
    by (subst disjunctive_add) (auto simp: bit_simps "or.assoc" dest: bit_imp_le_length)
  have "unat x < 2 ^ 24" using assms by (simp add: word_less_nat_alt)
  then have "take_bit 24 (unat x) = unat x" by (rule take_bit_nat_eq_self)
  then have hi: "bit x i \<Longrightarrow> i < 24" for i
    by (metis bit_take_bit_iff bit_unsigned_iff possible_bit_nat)
  show ?thesis unfolding 1 2
  proof (rule bit_word_eqI)
    fix i assume "i < LENGTH(32)"
    show "bit (push_bit 16 (ucast (ucast (drop_bit 16 x) :: u8)) OR push_bit 8 (ucast (ucast (drop_bit 8 x) :: u8))
        OR ucast (ucast x :: u8) :: u32) i \<longleftrightarrow> bit x i"
      using hi [of i] \<open>i < LENGTH(32)\<close> by (cases "i < 8"; cases "i < 16"; cases "i < 24") (auto simp: bit_simps)
  qed
qed

lemma code_bytes: "j < DIAG_ITEM_NUM \<Longrightarrow> push_bit 16 (ucast (dtc_bytes j ! 0)) + push_bit 8 (ucast (dtc_bytes j ! 1)) + ucast (dtc_bytes j ! 2) = dtc_code j"
proof -
  have "list_all (\<lambda>j. dtc_code j < 0x1000000) [0..<DIAG_ITEM_NUM]" by code_simp
  then show "j < DIAG_ITEM_NUM \<Longrightarrow> ?thesis"
    using three_bytes [of "dtc_code j"] by (simp add: list_all_length dtc_bytes_def)
qed

lemma length_dtc_bytes [simp]: "length (dtc_bytes j) = 3"
  by (simp add: dtc_bytes_def)

text \<open>What the snapshot report answers for a frame: each identifier and its bytes.\<close>

definition coded_frame :: "bytes \<Rightarrow> bytes" where
  "coded_frame f = [0x01, 0x12] @ take 1 f @ [0xE1, 0x01] @ take 3 (drop 1 f) @ [0xB1, 0x00] @ take 2 (drop 4 f)
     @ [0xD0, 0x01] @ take 1 (drop 6 f) @ [0xF0, 0x20] @ take 7 (drop 7 f)"

lemma first_freeze: "i < DIAG_ITEM_NUM \<Longrightarrow> it_freeze (diag_table ! i) ! 0 = 0x0112"
proof -
  have "list_all (\<lambda>it. it_freeze it ! 0 = 0x0112) diag_table" "length diag_table = DIAG_ITEM_NUM" by code_simp+
  then show "i < DIAG_ITEM_NUM \<Longrightarrow> ?thesis" by (simp add: list_all_length)
qed

lemma blit_snoc: "length b \<le> length junk \<Longrightarrow> length b + length x \<le> length junk \<Longrightarrow>
    blit (b @ drop (length b) junk) (length b) x = (b @ x) @ drop (length (b @ x)) junk"
  by (simp add: blit_def add.commute)

lemma get_freeze_value:
  assumes "fm_wf fm" "i < DIAG_ITEM_NUM" "length junk = 200"
  shows "\<exists>rest. uds_diag_get_freeze fm i junk 200 = (0, coded_frame (drop 4 (region fm i)) @ rest, 24, 5)"
proof -
  have l: "length (fm_buf fm) = 1024" "18 * i + 18 \<le> 1024" using assms by (simp_all add: fm_wf_def)
  define f where "f = drop 4 (region fm i)"
  have f14: "f = take 14 (drop (18 * i + 4) (fm_buf fm))" by (simp add: f_def region_def drop_take add.commute)
  then have lf: "length f = 14" using l by simp
  have cut: "take n (drop (18 * i + 4 + k) (fm_buf fm)) = take n (drop k f)" if "k + n \<le> 14" for k n
    using that unfolding f14 by (simp add: drop_take min_absorb1 add.commute add.left_commute)
  have c0: "take 1 (drop (18 * i + 4 + 0) (fm_buf fm)) = take 1 (drop 0 f)" by (rule cut) simp
  have c1: "take 3 (drop (18 * i + 4 + 1) (fm_buf fm)) = take 3 (drop 1 f)" by (rule cut) simp
  have c4: "take 2 (drop (18 * i + 4 + 4) (fm_buf fm)) = take 2 (drop 4 f)" by (rule cut) simp
  have c6: "take 1 (drop (18 * i + 4 + 6) (fm_buf fm)) = take 1 (drop 6 f)" by (rule cut) simp
  have c7: "take 7 (drop (18 * i + 4 + 7) (fm_buf fm)) = take 7 (drop 7 f)" by (rule cut) simp
  have n: "(0 :: nat) + 1 = 1" "(1 :: nat) + 3 = 4" "(4 :: nat) + 2 = 6" "(6 :: nat) + 1 = 7" "(7 :: nat) + 7 = 14"
    "(0 :: nat) + 2 = 2" "(2 :: nat) + 1 = 3" "(3 :: nat) + 2 = 5" "(5 :: nat) + 3 = 8" "(8 :: nat) + 2 = 10"
    "(10 :: nat) + 2 = 12" "(12 :: nat) + 2 = 14" "(14 :: nat) + 1 = 15" "(15 :: nat) + 2 = 17" "(17 :: nat) + 7 = 24"
    by simp_all
  define j5 where "j5 = blit (blit (blit (blit (blit (blit (blit (blit (blit (blit junk 0 [0x01, 0x12]) 2 (take 1 (drop 0 f)))
     3 [0xE1, 0x01]) 5 (take 3 (drop 1 f))) 8 [0xB1, 0x00]) 10 (take 2 (drop 4 f))) 12 [0xD0, 0x01]) 14 (take 1 (drop 6 f)))
     15 [0xF0, 0x20]) 17 (take 7 (drop 7 f))"
  have ids: "[ucast (drop_bit 8 (0x0112 :: u16)), ucast (0x0112 :: u16)] = ([0x01, 0x12] :: bytes)"
    "[ucast (drop_bit 8 (0xE101 :: u16)), ucast (0xE101 :: u16)] = ([0xE1, 0x01] :: bytes)"
    "[ucast (drop_bit 8 (0xB100 :: u16)), ucast (0xB100 :: u16)] = ([0xB1, 0x00] :: bytes)"
    "[ucast (drop_bit 8 (0xD001 :: u16)), ucast (0xD001 :: u16)] = ([0xD0, 0x01] :: bytes)"
    "[ucast (drop_bit 8 (0xF020 :: u16)), ucast (0xF020 :: u16)] = ([0xF0, 0x20] :: bytes)"
    by simp_all
  have le: "\<not> 200 < (3 :: nat)" "\<not> 200 < (8 :: nat)" "\<not> 200 < (12 :: nat)" "\<not> 200 < (15 :: nat)" "\<not> 200 < (24 :: nat)"
    by simp_all
  have sums: "(1 :: nat) + 2 = 3" "(3 :: nat) + 5 = 8" "(2 :: nat) + 10 = 12" "(1 :: nat) + 14 = 15" "(7 :: nat) + 17 = 24" by simp_all
  have loop: "get_freeze_loop fm i 200 (freeze_dids (diag_table ! i)) (junk, 0, 0, 0) = (0, j5, 24, 14, 5)"
    unfolding frozen_dids [OF assms(2)] j5_def
    by (simp only: get_freeze_loop.simps split_conv Let_def did_entries option.case diag_did.simps lay_nth [OF assms(1,2)] fst_conv
        ids n c0 c1 c4 c6 c7 le sums if_False) simp
  have "j5 = coded_frame f @ drop 24 junk"
  proof -
    obtain f0 f1 f2 f3 f4 f5 f6 f7 f8 f9 f10 f11 f12 f13 where "f = [f0, f1, f2, f3, f4, f5, f6, f7, f8, f9, f10, f11, f12, f13]"
      using lf by (auto simp: numeral_eq_Suc length_Suc_conv)
    then show ?thesis unfolding j5_def coded_frame_def by (simp add: blit_def)
  qed
  moreover have "snd (fm_lay fm ! i) - 4 + 5 * 2 = 24" by (simp add: lay_nth [OF assms(1,2)])
  ultimately show ?thesis using first_freeze [OF assms(2)] loop
    by (simp add: uds_diag_get_freeze_def f_def [symmetric] del: get_freeze_loop.simps)
qed

lemma find_upt:
  assumes "i < n" "P i" "\<And>j. j < n \<Longrightarrow> P j \<Longrightarrow> j = i"
  shows "find P [0..<n] = Some i"
proof -
  have "\<not> P j" if "j < i" for j using assms(1) assms(3) [of j] that by fastforce
  then show ?thesis unfolding find_Some_iff using assms(1,2) by (intro exI [of _ i]) simp
qed

lemma snapshot_answer:
  assumes "fm_wf fm" "i < DIAG_ITEM_NUM" "length junk = 200" "confirmed fm i \<noteq> 0" "n = 1 \<or> n = 0xFF"
  shows "UDS_SRV_ReadDTC junk fm ([0x19, 0x04] @ dtc_bytes i @ [n]) 6
    = Inr ([0x59, 0x04] @ dtc_bytes i @ [9, 1, 5] @ coded_frame (drop 4 (region fm i)))"
proof -
  obtain a b c where d: "dtc_bytes i = [a, b, c]" by (simp add: dtc_bytes_def)
  have code: "push_bit 16 (ucast a) + push_bit 8 (ucast b) + ucast c = dtc_code i" using code_bytes [OF assms(2)] by (simp add: d)
  have "snapshot_find fm (ucast n) (dtc_code i) = Some i" unfolding snapshot_find_def
  proof (rule find_upt [OF assms(2)])
    have "1 = (ucast n :: u32) \<or> (ucast n :: u32) = 0xFF" using assms(5) by (elim disjE) simp_all
    then show "uds_diag_is_cfm_dtc_valid fm i \<and> dtc_code i = dtc_code i \<and> (1 = (ucast n :: u32) \<or> (ucast n :: u32) = 0xFF)"
      using assms(4) by (simp add: uds_diag_is_cfm_dtc_valid_def)
    show "j = i" if "j < DIAG_ITEM_NUM"
        "uds_diag_is_cfm_dtc_valid fm j \<and> dtc_code j = dtc_code i \<and> (1 = (ucast n :: u32) \<or> (ucast n :: u32) = 0xFF)" for j
      using that(2) by (intro dtc_codes_distinct [OF that(1) assms(2)]) blast
  qed
  moreover obtain rest where "uds_diag_get_freeze fm i junk 200 = (0, coded_frame (drop 4 (region fm i)) @ rest, 24, 5)"
    using get_freeze_value [OF assms(1-3)] by blast
  moreover have "length (coded_frame (drop 4 (region fm i))) = 24"
    using assms(1,2) by (simp add: coded_frame_def region_def fm_wf_def)
  ultimately show ?thesis using assms(5) code
    by (auto simp: UDS_SRV_ReadDTC_def ReportDTCSnapshotRecordByDTCNumber_def d Let_def)
qed

section \<open>Counts and lists\<close>

lemma bit_9: "bit (9 :: u8) n \<longleftrightarrow> n = 0 \<or> n = 3"
proof (cases "n < 8")
  case True
  then have "n \<in> {0, 1, 2, 3, 4, 5, 6, 7}" by (simp; presburger)
  then show ?thesis by (elim insertE emptyE; simp add: bit_numeral_rec)
next
  case False
  then show ?thesis using bit_imp_le_length [of "9 :: u8" n] by auto
qed

lemma mask_1_8: "m AND 1 \<noteq> 0 \<longleftrightarrow> bit m 0" "m AND 8 \<noteq> 0 \<longleftrightarrow> bit m 3" for m :: u8
  using and_exp_eq_0_iff_not_bit [of m 0] and_exp_eq_0_iff_not_bit [of m 3] by simp_all

lemma mask_9: "m AND 9 = 0 \<longleftrightarrow> \<not> bit m 0 \<and> \<not> bit m 3" "m AND 9 = 9 \<longleftrightarrow> bit m 0 \<and> bit m 3" for m :: u8
proof -
  show "m AND 9 = 0 \<longleftrightarrow> \<not> bit m 0 \<and> \<not> bit m 3"
    unfolding bit_eq_iff [of "m AND 9"] bit_and_iff bit_9
    by (auto dest: spec [of _ "0 :: nat"] spec [of _ "3 :: nat"] intro!: gr0I)
  show "m AND 9 = 9 \<longleftrightarrow> bit m 0 \<and> bit m 3"
    unfolding bit_eq_iff [of "m AND 9"] bit_and_iff bit_9
    by (auto dest: spec [of _ "0 :: nat"] spec [of _ "3 :: nat"] intro!: gr0I)
qed

lemma mask_status: "m AND StatusOfDTC fm j \<noteq> 0 \<longleftrightarrow>
    bit m 3 \<and> uds_diag_is_cfm_dtc_valid fm j \<or> bit m 0 \<and> uds_diag_is_uncfm_dtc_valid fm j"
  using mask_1_8 [of m] mask_9 [of m] by (auto simp: StatusOfDTC_def)

definition matching :: "fault_mem \<Rightarrow> u8 \<Rightarrow> nat list" where
  "matching fm m = filter (\<lambda>j. m AND StatusOfDTC fm j \<noteq> 0) [0..<DIAG_ITEM_NUM]"

lemma matching_cases:
  "bit m 0 \<Longrightarrow> bit m 3 \<Longrightarrow> matching fm m = filter (\<lambda>j. uds_diag_is_cfm_dtc_valid fm j \<or> uds_diag_is_uncfm_dtc_valid fm j) [0..<DIAG_ITEM_NUM]"
  "bit m 0 \<Longrightarrow> \<not> bit m 3 \<Longrightarrow> matching fm m = filter (uds_diag_is_uncfm_dtc_valid fm) [0..<DIAG_ITEM_NUM]"
  "\<not> bit m 0 \<Longrightarrow> bit m 3 \<Longrightarrow> matching fm m = filter (uds_diag_is_cfm_dtc_valid fm) [0..<DIAG_ITEM_NUM]"
  "\<not> bit m 0 \<Longrightarrow> \<not> bit m 3 \<Longrightarrow> matching fm m = []"
  unfolding matching_def mask_status by simp_all

lemma matching_count:
  "(if m AND 9 = 9 then uds_diag_get_dtc_num fm else if m AND 1 \<noteq> 0 then uds_diag_get_uncfm_dtc_num fm
    else if m AND 8 \<noteq> 0 then uds_diag_get_cfm_dtc_num fm else 0) = length (matching fm m)"
  unfolding mask_9 mask_1_8 uds_diag_get_dtc_num_def uds_diag_get_uncfm_dtc_num_def uds_diag_get_cfm_dtc_num_def
    uds_diag_is_cfm_dtc_valid_def [symmetric] uds_diag_is_uncfm_dtc_valid_def [symmetric]
  by (cases "bit m 0"; cases "bit m 3") (simp_all only: matching_cases simp_thms if_True if_False list.size)

lemma matching_list: "ReportDTCByStatusMask fm 3 [s, f, m] = Inr ([s + 0x40, f, 9] @ concat (map (dtc_record fm) (matching fm m)))"
  unfolding ReportDTCByStatusMask_def nth_Cons_numeral
  by (cases "bit m 0"; cases "bit m 3")
    (simp_all add: mask_9 mask_1_8 ReportDTC_testfail_Or_Confirmed_def ReportDTC_testfail_def ReportDTC__Confirmed_def dtc_list_def
      matching_cases del: upt_Suc upt_rec_numeral filter.simps)

lemma length_matching: "length (matching fm m) \<le> 31"
  unfolding matching_def by (rule order_trans [OF length_filter_le]) simp

section \<open>The stored copy\<close>

definition stored_ok :: "fault_mem \<Rightarrow> bool" where
  "stored_ok fm \<longleftrightarrow> (case fm_stored fm of None \<Rightarrow> replicate DIAG_ITEM_BUF_LEN 0
     | Some b \<Rightarrow> blit (replicate DIAG_ITEM_BUF_LEN 0) 0 (take DIAG_ITEM_BUF_LEN b)) = fm_buf fm"

lemma stored_same: "length (fm_buf fm) = DIAG_ITEM_BUF_LEN \<Longrightarrow> f_rds e = None \<Longrightarrow> stored_ok (rds_update_buf e fm)"
  by (simp add: stored_ok_def blit_def rds_update_buf_def)

text \<open>Whether a step writes the data store, by the code's own flag, and whether that write succeeds.\<close>

fun writes :: "diag_event \<Rightarrow> diag_sys \<Rightarrow> bool" where
  "writes (SysDevices fe) s = (DTCSwitch (sys_uds s) \<and> fst (diag_scan fe [0..<DIAG_ITEM_NUM] (False, sys_fm s)))"
| "writes (SysNodes fe) s = (DTCSwitch (sys_uds s) \<and> fst (diag_scan fe [14..<DIAG_ITEM_NUM] (False, node_round fe (sys_fm s))))"
| "writes ev s = clears ev s"

fun write_ok :: "diag_event \<Rightarrow> bool" where
  "write_ok (SysUds e ev junk fe) \<longleftrightarrow> f_rds fe = None"
| "write_ok (SysDevices fe) \<longleftrightarrow> f_rds fe = None"
| "write_ok (SysNodes fe) \<longleftrightarrow> f_rds fe = None"
| "write_ok _ \<longleftrightarrow> True"

text \<open>Whether the last write of a run succeeded; the first argument answers for the time before it.\<close>

primrec last_write_ok :: "bool \<Rightarrow> diag_event list \<Rightarrow> diag_sys \<Rightarrow> bool" where
  "last_write_ok ok [] s = ok"
| "last_write_ok ok (ev # evs) s = last_write_ok (if writes ev s then write_ok ev else ok) evs (diag_sys_step ev s)"

lemma one_device_new:
  assumes "fm_wf fm" "i < DIAG_ITEM_NUM"
  shows "fm_buf (uds_diag_one_device e i fm) = fm_buf fm
    \<or> confirmed fm i = 0 \<and> confirmed (uds_diag_one_device e i fm) i = 1"
proof (cases "fm_buf (uds_diag_one_device e i fm) = fm_buf fm")
  case False
  then have c: "confirmed fm i = 0" "uds_diag_one_device e i fm = uds_diag_gen_freeze e i (set_confirmed i fm)"
    by (simp_all add: uds_diag_one_device_def split: if_splits)
  have "length (fm_buf fm) = 1024" using assms by (simp add: fm_wf_def)
  then have "region (uds_diag_one_device e i fm) i = [1, 0, 0, 0] @ frame_of e (fm_buf fm ! (18 * i + 10))"
    unfolding c(2) confirm_buf [OF assms] using assms(2) by (subst region_blit) simp_all
  then show ?thesis using c(1) confirmed_region [OF one_device_wf [OF assms(1)] assms(2), of e i] by simp
qed simp

lemma one_device_stored [simp]: "fm_stored (uds_diag_one_device e i fm) = fm_stored fm"
  by (simp add: uds_diag_one_device_def uds_diag_gen_freeze_def set_confirmed_def)

lemma scan_stored:
  assumes "fm_wf fm" "set is \<subseteq> {..<DIAG_ITEM_NUM}"
  shows "(fm_buf (snd (diag_scan e is (new, fm))) = fm_buf fm \<or> fst (diag_scan e is (new, fm)))
    \<and> fm_stored (snd (diag_scan e is (new, fm))) = fm_stored fm \<and> (new \<longrightarrow> fst (diag_scan e is (new, fm)))"
  using assms
proof (induction "is" arbitrary: new fm)
  case (Cons i "is")
  let ?fm = "uds_diag_one_device e i fm" and ?n = "new \<or> confirmed fm i = 0 \<and> confirmed (uds_diag_one_device e i fm) i = 1"
  have "(fm_buf (snd (diag_scan e is (?n, ?fm))) = fm_buf ?fm \<or> fst (diag_scan e is (?n, ?fm)))
    \<and> fm_stored (snd (diag_scan e is (?n, ?fm))) = fm_stored ?fm \<and> (?n \<longrightarrow> fst (diag_scan e is (?n, ?fm)))"
    using Cons.prems by (intro Cons.IH one_device_wf) simp_all
  moreover have "fm_buf ?fm = fm_buf fm \<or> ?n" using one_device_new [OF Cons.prems(1), of i e] Cons.prems(2) by auto
  ultimately show ?case by (auto simp: diag_scan_simps)
qed (simp add: diag_scan_simps)

lemma devices_stored:
  assumes "fm_wf fm" "b \<le> DIAG_ITEM_NUM"
    and "if on \<and> fst (diag_scan e [a..<b] (False, fm)) then f_rds e = None else stored_ok fm"
  shows "stored_ok (uds_diag_devices e on a b fm)"
proof -
  have "set [a..<b] \<subseteq> {..<DIAG_ITEM_NUM}" using assms(2) by auto
  note s = scan_stored [OF assms(1) this, of e False]
  obtain new fm' where r: "diag_scan e [a..<b] (False, fm) = (new, fm')" by fastforce
  have "length (fm_buf fm') = 1024" using scan_range [OF assms(1,2), of e a False] r by (simp add: fm_wf_def)
  then have "on \<Longrightarrow> stored_ok (diag_save e (new, fm'))"
    using s r assms(3) stored_same [of fm' e] by (auto simp: diag_save_def) (simp add: stored_ok_def)
  then show ?thesis using r assms(3) by (auto simp: uds_diag_devices_def Let_def stored_ok_def)
qed

lemma node_stored [simp]:
  "stored_ok (set_can_node_miss_state n f fm) = stored_ok fm" "stored_ok (set_node_sig_time n t fm) = stored_ok fm"
  "stored_ok (can_node_rcved e n fm) = stored_ok fm" "stored_ok (can_node_surfix n k fm) = stored_ok fm"
  by (simp_all add: set_can_node_miss_state_def set_node_sig_time_def can_node_rcved_def can_node_surfix_def stored_ok_def Let_def
      split: option.split)

lemma round_stored [simp]: "stored_ok (nodes_reset e fm) = stored_ok fm" "stored_ok (node_round e fm) = stored_ok fm"
proof -
  show r: "stored_ok (nodes_reset e fm) = stored_ok fm"
    unfolding nodes_reset_def by (rule fold_same) (simp add: node_reset_def)
  have "stored_ok (fold (node_miss_step e) ns fm) = stored_ok fm" for ns
    by (rule fold_same) (simp add: node_miss_step_def)
  then show "stored_ok (node_round e fm) = stored_ok fm" using r by (simp add: node_round_def)
qed

lemma clear_stored: "f_rds e = None \<Longrightarrow> stored_ok (uds_diag_dtc_clear e fm)"
  unfolding uds_diag_dtc_clear_def by (rule stored_same) simp_all

lemma step_stored:
  assumes "fm_wf (sys_fm s)" "if writes ev s then write_ok ev else stored_ok (sys_fm s)"
  shows "stored_ok (sys_fm (diag_sys_step ev s))"
proof (cases ev)
  case (SysUds e u junk fe)
  with assms(2) show ?thesis by (auto simp: Let_def clear_stored split: if_splits)
next
  case (SysDevices fe)
  have "stored_ok (uds_diag_devices fe (DTCSwitch (sys_uds s)) 0 DIAG_ITEM_NUM (sys_fm s))"
    by (rule devices_stored [OF assms(1)]) (use assms(2) SysDevices in \<open>auto split: if_splits\<close>)
  with SysDevices show ?thesis by simp
next
  case (SysNodes fe)
  have "fm_wf (node_round fe (sys_fm s))" using assms(1) by simp
  then have "stored_ok (uds_diag_devices fe (DTCSwitch (sys_uds s)) 14 DIAG_ITEM_NUM (node_round fe (sys_fm s)))"
    by (rule devices_stored) (use assms(2) SysNodes in \<open>auto split: if_splits\<close>)
  with SysNodes show ?thesis by (simp add: test_all_node_miss_def node_round_def [symmetric])
qed (use assms in simp_all)

lemma run_stored:
  "fm_wf (sys_fm s) \<Longrightarrow> last_write_ok ok evs s \<Longrightarrow> ok \<longrightarrow> stored_ok (sys_fm s) \<Longrightarrow> stored_ok (sys_fm (diag_run evs s))"
proof (induction evs arbitrary: ok s)
  case (Cons ev evs)
  let ?ok = "if writes ev s then write_ok ev else ok"
  have "?ok \<longrightarrow> stored_ok (sys_fm (diag_sys_step ev s))" using step_stored [of s ev] Cons.prems by simp
  with Cons.IH [of "diag_sys_step ev s" ?ok] step_wf [of s ev] Cons.prems show ?case by (simp add: diag_run_def)
qed simp

lemma init_buf: "fm_buf (snd (uds_diag_init (Some b))) = blit (replicate DIAG_ITEM_BUF_LEN 0) 0 (take DIAG_ITEM_BUF_LEN b)"
proof -
  have "last (map (\<lambda>i. (18 * i, 18)) [0..<DIAG_ITEM_NUM]) = (540 :: nat, 18 :: nat)" by code_simp
  then show ?thesis by (simp add: uds_diag_init_def layout_value Let_def)
qed

lemma init_stored: "stored_ok (sys_fm (diag_sys_init stored))"
proof -
  have "last (map (\<lambda>i. (18 * i, 18)) [0..<DIAG_ITEM_NUM]) = (540 :: nat, 18 :: nat)" by code_simp
  then show ?thesis
    by (simp add: diag_sys_init_def stored_ok_def uds_diag_init_def layout_value Let_def split: option.split)
qed

section \<open>A node that falls silent\<close>

lemma node_miss_nth:
  assumes "length (nm_flag fm) = 18" "set ns \<subseteq> {..<18}" "distinct ns" "n < 18"
  shows "nm_flag (fold (node_miss_step e) ns fm) ! n = (if n \<in> set ns then
      (if nm_flag fm ! n then \<not> f_now e - nm_time fm ! n < 50 else f_now e - nm_time fm ! n > 1000) else nm_flag fm ! n)
    \<and> nm_time (fold (node_miss_step e) ns fm) = nm_time fm \<and> length (nm_flag (fold (node_miss_step e) ns fm)) = 18"
  using assms
proof (induction ns arbitrary: fm)
  case (Cons k ns)
  let ?fm = "node_miss_step e k fm"
  have f: "length (nm_flag ?fm) = 18" "nm_time ?fm = nm_time fm"
    "nm_flag ?fm ! n = (if n = k then (if nm_flag fm ! n then \<not> f_now e - nm_time fm ! n < 50 else f_now e - nm_time fm ! n > 1000)
       else nm_flag fm ! n)"
    using Cons.prems by (auto simp: node_miss_step_def set_can_node_miss_state_def)
  show ?case using Cons.IH [of ?fm] Cons.prems f by auto
qed simp

lemma scan_time [simp]: "nm_time (snd (diag_scan e is (new, fm))) = nm_time fm"
proof (induction "is" arbitrary: new fm)
  case (Cons i "is")
  have "nm_time (uds_diag_one_device e i fm) = nm_time fm"
    by (simp add: uds_diag_one_device_def uds_diag_gen_freeze_def set_confirmed_def)
  then show ?case using Cons.IH by (simp add: diag_scan_simps)
qed (simp add: diag_scan_simps)

lemma devices_time [simp]: "nm_time (uds_diag_devices e on a b fm) = nm_time fm"
  by (simp add: uds_diag_devices_def Let_def)

definition silent :: "fm_env \<Rightarrow> nat \<Rightarrow> fault_mem \<Rightarrow> bool" where
  "silent e n fm \<longleftrightarrow> voltage_normal e \<and> f_CAN_BUS2 e = 1 \<and> f_now e - nm_time fm ! n > 1000"

lemma silent_round:
  assumes "fm_wf fm" "0 < n" "n < 18" "silent e n fm"
  shows "nm_flag (node_round e fm) ! n \<and> nm_time (node_round e fm) = nm_time fm"
proof -
  have g: "1000 < f_now e - nm_time fm ! n" using assms(4) unfolding silent_def by blast
  have "50 \<le> f_now e - nm_time fm ! n" using order_trans [OF _ less_imp_le [OF g], of 50] by simp
  then have "\<not> f_now e - nm_time fm ! n < 50" by (rule leD)
  moreover have "length (nm_flag fm) = 18" using assms(1) by (simp only: fm_wf_def)
  moreover have "set [1..<18] \<subseteq> {..<18 :: nat}" unfolding set_upt by auto
  moreover have "n \<in> set [1..<18]" unfolding set_upt using assms(2,3) by simp
  moreover have "node_round e fm = fold (node_miss_step e) [1..<18] fm" "f_now e - nm_time fm ! n > 1000"
    using assms(4) unfolding node_round_def silent_def by simp_all
  ultimately show ?thesis
    using node_miss_nth [of fm "[1..<18]" n e] assms(3) by (simp only: distinct_upt if_True if_False simp_thms split: if_split)
qed

lemma silent_step:
  assumes "fm_wf (sys_fm s)" "0 < n" "n < 18" "silent e n (sys_fm s)" "DTCSwitch (sys_uds s)"
  shows "nm_time (sys_fm (diag_sys_step (SysNodes e) s)) = nm_time (sys_fm s)
    \<and> DTCSwitch (sys_uds (diag_sys_step (SysNodes e) s))
    \<and> fm_entry (sys_fm (diag_sys_step (SysNodes e) s)) (n + 13) = entry_check e (threshold (n + 13)) True (fm_entry (sys_fm s) (n + 13))"
proof -
  have r: "nm_flag (node_round e (sys_fm s)) ! n" "nm_time (node_round e (sys_fm s)) = nm_time (sys_fm s)"
    using silent_round [OF assms(1-4)] by simp_all
  have "fails e (node_round e (sys_fm s)) (n + 13)"
    using r(1) assms(2) by (simp add: fails_def diag_fun_def get_can_node_miss_state_def)
  then show ?thesis
    using step_entry [OF assms(1), of "n + 13" "SysNodes e"] assms r(2)
    by (simp add: test_all_node_miss_def node_round_def [symmetric])
qed

lemma threshold_node: "0 < n \<Longrightarrow> n < 18 \<Longrightarrow> threshold (n + 13) = 20"
proof -
  have "list_all (\<lambda>i. it_thsd (diag_table ! i) = 20) [14..<31]" by code_simp
  then have "\<forall>i\<in>{14..<31}. it_thsd (diag_table ! i) = 20" unfolding list_all_iff set_upt .
  then show "0 < n \<Longrightarrow> n < 18 \<Longrightarrow> ?thesis" by (simp add: threshold_def)
qed

lemma silent_rounds:
  assumes "fm_wf (sys_fm s)" "0 < n" "n < 18" "\<forall>e\<in>set es. silent e n (sys_fm s)" "DTCSwitch (sys_uds s)"
  shows "nm_time (sys_fm (diag_run (map SysNodes es) s)) = nm_time (sys_fm s)
    \<and> DTCSwitch (sys_uds (diag_run (map SysNodes es) s))
    \<and> min 20 (length es) \<le> fst (fm_entry (sys_fm (diag_run (map SysNodes es) s)) (n + 13))
    \<and> (20 < length es \<longrightarrow> fst (snd (fm_entry (sys_fm (diag_run (map SysNodes es) s)) (n + 13))) \<noteq> 0)"
  using assms(4)
proof (induction es rule: rev_induct)
  case (snoc e es)
  let ?s = "diag_run (map SysNodes es) s"
  have IH: "nm_time (sys_fm ?s) = nm_time (sys_fm s)" "DTCSwitch (sys_uds ?s)"
    "min 20 (length es) \<le> fst (fm_entry (sys_fm ?s) (n + 13))"
    "20 < length es \<longrightarrow> fst (snd (fm_entry (sys_fm ?s) (n + 13))) \<noteq> 0" using snoc by simp_all
  have "silent e n (sys_fm ?s)" using snoc.prems IH(1) by (simp add: silent_def)
  note step = silent_step [OF run_wf [OF assms(1)] assms(2,3) this IH(2)]
  obtain c f d where ent: "fm_entry (sys_fm ?s) (n + 13) = (c, f, d)" by (cases "fm_entry (sys_fm ?s) (n + 13)")
  show ?case
    using step IH ent threshold_node [OF assms(2,3)] by (auto simp: entry_check_def)
qed (simp add: assms(5))

section \<open>Examples\<close>

text \<open>A vehicle at rest with nothing wrong but the bus, which is off.\<close>

definition fm_env_busoff :: fm_env where
  "fm_env_busoff = \<lparr>f_SOSBTN = 1, f_GPS_ANT = 1, f_gps_error = False, f_adc = Inr (Some 500000), f_at_status = 1, f_SIM = 1,
     f_BATVOL = 1, f_BAT = 1, f_CAN_BUS2 = 2, f_cfg_power = Inr 12, f_voltage = Some 12000, f_odograph = 123456, f_speed = 0,
     f_KL15 = Some 1, f_year = 2020, f_mon = 6, f_mday = 1, f_hour = 12, f_min = 30, f_sec = 0, f_now = 5000,
     f_rds = None, f_behind = 0\<rparr>"

definition busoff_events :: "diag_event list" where "busoff_events = [SysDevices fm_env_busoff, SysDevices fm_env_busoff]"

lemma boot_dtc_on: "DTCSwitch uds_boot"
  by (simp add: uds_boot_def uds_proxy_init_def Let_def)

lemma busoff_fails: "fails (fm_env_busoff\<lparr>f_rds := r\<rparr>) fm 13"
  by (simp add: fails_def diag_fun_def uds_diag_dev_can_busoff_def voltage_normal_def fm_env_busoff_def)

lemma twice_history:
  assumes "\<And>fm. fails fe fm 13"
  shows "history 13 [SysDevices fe, SysDevices fe] (diag_sys_init None) = [(fe, True), (fe, True)]"
proof -
  have ev: "[SysDevices fe, SysDevices fe] = ([] @ [SysDevices fe]) @ [SysDevices fe]" by simp
  show ?thesis unfolding ev history_simps diag_run_simps using assms by (simp add: diag_sys_init_def boot_dtc_on)
qed

lemma busoff_history: "history 13 busoff_events (diag_sys_init None) = [(fm_env_busoff, True), (fm_env_busoff, True)]"
proof -
  have "fm_env_busoff\<lparr>f_rds := None\<rparr> = fm_env_busoff" by (simp add: fm_env_busoff_def)
  with busoff_fails [of None] twice_history [of fm_env_busoff] show ?thesis by (simp add: busoff_events_def)
qed

lemma busoff_window: "has_window (Suc (Suc 0)) [True, True]"
  unfolding has_window_def by (intro exI [of _ 2]) (simp add: trailing_def)

lemma threshold_13: "it_thsd (diag_table ! 13) = 1"
  by code_simp

section \<open>Properties\<close>

lemma init_entry:
  assumes "i < DIAG_ITEM_NUM"
  shows "fm_entry (sys_fm (diag_sys_init None)) i = (0, 0, replicate 14 0)"
proof -
  have "last (map (\<lambda>i. (18 * i, 18)) [0..<DIAG_ITEM_NUM]) = (540 :: nat, 18 :: nat)" by code_simp
  then show ?thesis using assms
    by (simp add: diag_sys_init_def uds_diag_init_def layout_value Let_def fm_entry_def region_def le_u32_def)
qed

lemma sys_init_wf: "fm_wf (sys_fm (diag_sys_init stored))"
  using init_wf by (simp add: diag_sys_init_def)

lemma confirmed_history:
  assumes "i < DIAG_ITEM_NUM"
  shows "(confirmed (sys_fm (diag_run evs (diag_sys_init None))) i \<noteq> 0 \<longleftrightarrow>
      has_window (Suc (unat (it_thsd (diag_table ! i)))) (map snd (history i evs (diag_sys_init None))))
    \<and> unat (fm_counter (sys_fm (diag_run evs (diag_sys_init None))) ! i)
      = min (unat (it_thsd (diag_table ! i))) (trailing (map snd (history i evs (diag_sys_init None))))"
proof -
  define s0 where "s0 = diag_sys_init None"
  have wf: "fm_wf (sys_fm s0)" unfolding s0_def by (rule sys_init_wf)
  have e: "fm_entry (sys_fm (diag_run evs s0)) i = entry_run (threshold i) (history i evs s0)"
    using entry_is_history [OF wf assms(1)] init_entry [OF assms(1)] by (simp add: s0_def)
  have c: "unat (fm_counter (sys_fm (diag_run evs s0)) ! i) = fst (fm_entry (sys_fm (diag_run evs s0)) i)"
    by (simp add: fm_entry_def)
  show ?thesis unfolding s0_def [symmetric] confirmed_entry [OF run_wf [OF wf] assms(1)] c e entry_run_flag entry_run_counter
    by (simp add: threshold_def)
qed

text \<open>Only a suffix can be written behind its array.\<close>

lemma over_parts [simp]:
  "nm_over (uds_diag_one_device e i fm) = nm_over fm" "nm_over (diag_save e p) = nm_over (snd p)"
  "nm_over (node_miss_step e n fm) = nm_over fm" "nm_over (node_reset e n fm) = nm_over fm"
  "nm_over (can_node_rcved e n fm) = nm_over fm" "nm_over (uds_diag_dtc_clear e fm) = nm_over fm"
  by (simp_all add: uds_diag_one_device_def uds_diag_gen_freeze_def set_confirmed_def diag_save_def rds_update_buf_def node_miss_step_def
      node_reset_def set_can_node_miss_state_def set_node_sig_time_def can_node_rcved_def uds_diag_dtc_clear_def case_prod_beta Let_def)

lemma over_scan [simp]: "nm_over (snd (diag_scan e is p)) = nm_over (snd p)"
  by (induction "is" arbitrary: p) (simp_all add: diag_scan_def case_prod_beta Let_def)

lemma over_rounds [simp]:
  "nm_over (fold (node_miss_step e) ns fm) = nm_over fm" "nm_over (nodes_reset e fm) = nm_over fm"
  "nm_over (uds_diag_devices e on a b fm) = nm_over fm"
  unfolding nodes_reset_def by ((rule fold_same; simp)+) (simp add: uds_diag_devices_def Let_def)

lemma over_step:
  "nm_over (sys_fm (diag_sys_step ev s)) \<longleftrightarrow> nm_over (sys_fm s) \<or> (\<exists>i n. ev = SysSuffix i (Some n) \<and> CAN_NODE_MISS_MAX_SIGNAL \<le> i)"
  by (cases ev) (auto simp: Let_def test_all_node_miss_def can_node_surfix_def split: option.split)

lemma over_run:
  "nm_over (sys_fm (diag_run evs s)) \<longleftrightarrow>
     nm_over (sys_fm s) \<or> (\<exists>i n. SysSuffix i (Some n) \<in> set evs \<and> CAN_NODE_MISS_MAX_SIGNAL \<le> i)"
  by (induction evs rule: rev_induct) (auto simp: over_step)

text \<open>C36: The memory keeps its shape. Whatever was stored before, after every run of the diagnostic server, the two timers
  and the CAN callbacks the buffer has its 1024 bytes and the layout computed at start (31 regions of 18 bytes, one behind
  the other), every array has its length, and no counter is above the threshold of its fault. The lock behind the array of the node numbers has
  been overwritten exactly if the CAN database has reported a node suffix of a signal with a number of 1024 or more, which its last signal has.\<close>

theorem fault_memory_shape:
  "fm_wf (sys_fm (diag_run evs (diag_sys_init stored)))
   \<and> (nm_over (sys_fm (diag_run evs (diag_sys_init stored))) \<longleftrightarrow> (\<exists>i n. SysSuffix i (Some n) \<in> set evs \<and> 1024 \<le> i))"
proof -
  have "\<not> nm_over (sys_fm (diag_sys_init stored))"
    by (simp add: diag_sys_init_def uds_diag_init_def layout_value Let_def split: option.split)
  then show ?thesis using run_wf [OF sys_init_wf] over_run by simp
qed

text \<open>C14: A fault is confirmed exactly when its test failed without a break. Starting with an empty memory, after every run of
  the threads a fault is confirmed if and only if, among the tests made of it since the last clearing (by either timer, while
  the server has the fault memory switched on), there was a window of one more than its threshold of failures in a row; its
  counter is the number of failures at the end, up to the threshold.\<close>

theorem fault_confirmed_iff:
  assumes "i < DIAG_ITEM_NUM"
  shows "(confirmed (sys_fm (diag_run evs (diag_sys_init None))) i \<noteq> 0 \<longleftrightarrow>
      has_window (Suc (unat (it_thsd (diag_table ! i)))) (map snd (history i evs (diag_sys_init None))))
    \<and> unat (fm_counter (sys_fm (diag_run evs (diag_sys_init None))) ! i)
      = min (unat (it_thsd (diag_table ! i))) (trailing (map snd (history i evs (diag_sys_init None))))"
  by (rule confirmed_history [OF assms])

text \<open>The bus is off in two rounds, which is its threshold and one.\<close>

theorem fault_confirmed_iff_witness:
  "confirmed (sys_fm (diag_run busoff_events (diag_sys_init None))) 13 \<noteq> 0"
  using fault_confirmed_iff [of 13 busoff_events] busoff_window by (simp add: busoff_history threshold_13)

text \<open>C15: The snapshot of a fault is the state of the vehicle at the test that confirmed it. Starting with an empty memory,
  after every run in which fault \<open>i\<close> is confirmed, the request for its snapshot (by record number 1 or FF) is answered with the
  five identifiers and the values the getters gave at the first test that completed a window of failures: later tests, other
  faults, and reports change nothing, only clearing does. (The odometer in it is always zero: its getter shifts the wrong
  way.)\<close>

theorem snapshot_is_first_failure:
  assumes "i < DIAG_ITEM_NUM" "length junk = 200" "n = 1 \<or> n = 0xFF"
    and "s = diag_run evs (diag_sys_init None)" "confirmed (sys_fm s) i \<noteq> 0"
  shows "\<exists>h1 fe h2. history i evs (diag_sys_init None) = h1 @ (fe, True) # h2
    \<and> \<not> has_window (Suc (threshold i)) (map snd h1) \<and> has_window (Suc (threshold i)) (map snd h1 @ [True])
    \<and> UDS_SRV_ReadDTC junk (sys_fm s) ([0x19, 0x04] @ dtc_bytes i @ [n]) 6
      = Inr ([0x59, 0x04] @ dtc_bytes i @ [9, 1, 5] @ coded_frame (frame_of fe 0))"
proof -
  let ?h = "history i evs (diag_sys_init None)"
  have wf: "fm_wf (sys_fm s)" unfolding assms(4) by (rule run_wf [OF sys_init_wf])
  have e: "fm_entry (sys_fm s) i = entry_run (threshold i) ?h"
    using entry_is_history [OF sys_init_wf assms(1) init_entry [OF assms(1)]] by (simp add: assms(4))
  have "has_window (Suc (threshold i)) (map snd ?h)"
    using assms(5) confirmed_entry [OF wf assms(1)] entry_run_flag [of "threshold i" ?h] e by (simp split: if_splits)
  then obtain h1 fe h2 where "?h = h1 @ (fe, True) # h2" "\<not> has_window (Suc (threshold i)) (map snd h1)"
    "has_window (Suc (threshold i)) (map snd h1 @ [True])" "snd (snd (entry_run (threshold i) ?h)) = frame_of fe 0"
    using entry_run_frame [of "threshold i" ?h] by auto
  moreover have "drop 4 (region (sys_fm s) i) = snd (snd (entry_run (threshold i) ?h))"
    unfolding e [symmetric] by (simp add: fm_entry_def)
  ultimately show ?thesis using snapshot_answer [OF wf assms(1,2,5,3)] by auto
qed

theorem snapshot_is_first_failure_witness:
  "\<exists>fe. UDS_SRV_ReadDTC (replicate 200 0) (sys_fm (diag_run busoff_events (diag_sys_init None))) [0x19, 0x04, 0xC0, 0x46, 0x16, 1] 6
    = Inr ([0x59, 0x04, 0xC0, 0x46, 0x16, 9, 1, 5] @ coded_frame (frame_of fe 0))"
proof -
  have "dtc_bytes 13 = [0xC0, 0x46, 0x16]" by code_simp
  moreover have "confirmed (sys_fm (diag_run busoff_events (diag_sys_init None))) 13 \<noteq> 0"
    using confirmed_history [of 13 busoff_events] busoff_window by (simp add: busoff_history threshold_13)
  ultimately show ?thesis
    using snapshot_is_first_failure [of 13 "replicate 200 0" 1 _ busoff_events, OF _ _ _ refl] by auto
qed

text \<open>C34: A node that falls silent becomes a confirmed fault. While the supply voltage is normal, the bus is on and the fault
  memory is switched on, after more than twenty rounds of the supervision in each of which the node has not been heard for
  more than a second its fault is confirmed, whatever its counter was before.\<close>

theorem silent_node_confirmed:
  assumes "fm_wf (sys_fm s)" "0 < n" "n < 18" "DTCSwitch (sys_uds s)"
    and "\<forall>e\<in>set es. silent e n (sys_fm s)" "20 < length es"
  shows "confirmed (sys_fm (diag_run (map SysNodes es) s)) (n + 13) \<noteq> 0"
proof -
  have "n + 13 < DIAG_ITEM_NUM" using assms(3) by simp
  then show ?thesis
    using silent_rounds [OF assms(1-3,5,4)] confirmed_entry [OF run_wf [OF assms(1)], of "n + 13" "map SysNodes es"] assms(6) by simp
qed

theorem silent_node_confirmed_witness:
  "confirmed (sys_fm (diag_run (map SysNodes (replicate 21 (fm_env_busoff\<lparr>f_CAN_BUS2 := 1\<rparr>))) (diag_sys_init None))) 17 \<noteq> 0"
proof -
  have "silent (fm_env_busoff\<lparr>f_CAN_BUS2 := 1\<rparr>) 4 (sys_fm (diag_sys_init None))"
    by (simp add: silent_def voltage_normal_def fm_env_busoff_def diag_sys_init_def uds_diag_init_def layout_value Let_def)
  then show ?thesis
    using silent_node_confirmed [OF sys_init_wf, of 4 None "replicate 21 (fm_env_busoff\<lparr>f_CAN_BUS2 := 1\<rparr>)"]
    by (simp add: diag_sys_init_def boot_dtc_on)
qed

text \<open>C35: The two reports by status agree. For any memory and mask, the number answered to the request for the number of faults
  is the number of entries answered to the request for their list, and the list has, in the order of the table, the code and the
  status of exactly the faults whose status has a bit of the mask; it fits into the buffer of 200 bytes.\<close>

theorem fault_reports_agree:
  "UDS_SRV_ReadDTC junk fm [0x19, 0x01, m] 3 = Inr [0x59, 0x01, 9, 0, 0, of_nat (length (matching fm m))]
   \<and> UDS_SRV_ReadDTC junk fm [0x19, 0x02, m] 3 = Inr ([0x59, 0x02, 9] @ concat (map (dtc_record fm) (matching fm m)))
   \<and> length ([0x59, 0x02, 9] @ concat (map (dtc_record fm) (matching fm m))) \<le> 127"
proof -
  have "UDS_SRV_ReadDTC junk fm [0x19, 0x01, m] 3 = Inr [0x59, 0x01, 9, 0, 0, of_nat (length (matching fm m))]"
  proof -
    have "UDS_SRV_ReadDTC junk fm [0x19, 0x01, m] 3 = Inr [0x59, 0x01, 9, 0,
        ucast (drop_bit 8 (of_nat (length (matching fm m)) :: u16)), ucast (of_nat (length (matching fm m)) :: u16)]"
      by (simp add: UDS_SRV_ReadDTC_def ReportNumberOfDTCByStatusMask_def Let_def matching_count [symmetric])
    moreover have "(ucast (drop_bit 8 (of_nat k :: u16)) :: u8) = 0 \<and> (ucast (of_nat k :: u16) :: u8) = of_nat k" if "k \<le> 31" for k :: nat
    proof -
      have "list_all (\<lambda>k. (ucast (drop_bit 8 (of_nat k :: u16)) :: u8) = 0 \<and> (ucast (of_nat k :: u16) :: u8) = of_nat k) [0..<32]"
        by code_simp
      then have "\<forall>k\<in>{0..<32}. (ucast (drop_bit 8 (of_nat k :: u16)) :: u8) = 0 \<and> (ucast (of_nat k :: u16) :: u8) = of_nat k"
        unfolding list_all_iff set_upt .
      then show ?thesis using that by simp
    qed
    ultimately show ?thesis using length_matching [of fm m] by simp
  qed
  moreover have "UDS_SRV_ReadDTC junk fm [0x19, 0x02, m] 3 = Inr ([0x59, 0x02, 9] @ concat (map (dtc_record fm) (matching fm m)))"
    by (simp add: UDS_SRV_ReadDTC_def matching_list)
  moreover have "length (concat (map (dtc_record fm) js)) = 4 * length js" for js
    by (induction js) (simp_all add: dtc_record_def)
  ultimately show ?thesis using length_matching [of fm m] by simp
qed

lemma restart_buf: "stored_ok fm \<Longrightarrow> fm_buf (snd (uds_diag_init (fm_stored fm))) = fm_buf fm"
  using init_buf by (cases "fm_stored fm") (auto simp: stored_ok_def uds_diag_init_def layout_value Let_def)

text \<open>C16: A loss of power loses no fault, as long as the data store works. After every run whose last write of the data store succeeded (or
  that wrote nothing), from whatever was stored before, starting again from what the data
  store gives back yields the buffer the run has: each newly confirmed fault and each clearing is written before the operation ends. (After a
  failed write, whose result the code ignores, it need not: \<open>failed_save_forgets\<close>.)\<close>

theorem fault_memory_restart:
  assumes "last_write_ok True evs (diag_sys_init stored)"
  shows "fm_buf (snd (uds_diag_init (fm_stored (sys_fm (diag_run evs (diag_sys_init stored))))))
    = fm_buf (sys_fm (diag_run evs (diag_sys_init stored)))"
  using run_stored [OF sys_init_wf assms] init_stored by (simp add: restart_buf)

lemma restart_confirmed:
  assumes "fm_wf fm" "fm_buf (snd (uds_diag_init st)) = fm_buf fm"
  shows "confirmed (snd (uds_diag_init st)) i = confirmed fm i"
  using assms init_wf [of st] by (simp add: confirmed_def fm_wf_def)

lemma all_written: "\<forall>ev\<in>set evs. write_ok ev \<Longrightarrow> last_write_ok True evs s"
  by (induction evs arbitrary: s) auto

lemma busoff_confirmed:
  assumes "\<And>fm. fails fe fm 13"
  shows "confirmed (sys_fm (diag_run [SysDevices fe, SysDevices fe] (diag_sys_init None))) 13 \<noteq> 0"
  using confirmed_history [of 13 "[SysDevices fe, SysDevices fe]"] busoff_window
  by (simp add: twice_history [OF assms] threshold_13)

theorem fault_memory_restart_witness:
  "confirmed (snd (uds_diag_init (fm_stored (sys_fm (diag_run busoff_events (diag_sys_init None)))))) 13 \<noteq> 0"
proof -
  have "last_write_ok True busoff_events (diag_sys_init None)"
    by (rule all_written) (simp add: busoff_events_def fm_env_busoff_def)
  from restart_confirmed [OF run_wf [OF sys_init_wf] fault_memory_restart [OF this]] show ?thesis
    using busoff_confirmed [OF busoff_fails [of None]] by (simp add: busoff_events_def fm_env_busoff_def)
qed

text \<open>When the write fails, the fault is confirmed and forgotten at the next start: nothing repeats the write.\<close>

lemma failed_save_forgets:
  defines "fe \<equiv> fm_env_busoff\<lparr>f_rds := Some None\<rparr>"
  defines "fm \<equiv> sys_fm (diag_run [SysDevices fe, SysDevices fe] (diag_sys_init None))"
  shows "confirmed fm 13 \<noteq> 0 \<and> confirmed (snd (uds_diag_init (fm_stored fm))) 13 = 0"
proof -
  have st: "fm_stored (uds_diag_devices fe on 0 DIAG_ITEM_NUM f) = None" if "fm_wf f" "fm_stored f = None" for on f
  proof -
    have "set [0..<DIAG_ITEM_NUM] \<subseteq> {..<DIAG_ITEM_NUM}" by auto
    from scan_stored [OF that(1) this, of fe False] that(2) show ?thesis
      by (auto simp: uds_diag_devices_def diag_save_def rds_update_buf_def fe_def case_prod_beta Let_def)
  qed
  have w: "fm_wf (sys_fm (diag_sys_init None))" "fm_stored (sys_fm (diag_sys_init None)) = None"
    using sys_init_wf by (simp_all add: diag_sys_init_def uds_diag_init_def layout_value Let_def)
  have "fm = uds_diag_devices fe True 0 DIAG_ITEM_NUM (uds_diag_devices fe True 0 DIAG_ITEM_NUM (sys_fm (diag_sys_init None)))"
    by (simp add: fm_def diag_run_def) (simp add: diag_sys_init_def boot_dtc_on)
  then have "fm_stored fm = None" using st [OF devices_wf [OF w(1)] st [OF w]] by simp
  moreover have "confirmed (snd (uds_diag_init None)) 13 = 0"
    using confirmed_entry [of "snd (uds_diag_init None)" 13] init_wf [of None] init_entry [of 13] by (simp add: diag_sys_init_def)
  ultimately show ?thesis using busoff_confirmed [OF busoff_fails [of "Some None"]] by (simp add: fm_def fe_def)
qed

end
