(* ===== verification/Pm.thy ===== *)
theory Pm
  imports Prelude
begin

text \<open>
  Power management (\<^verbatim>\<open>app/base/pm\<close>): the registration table and the checks of \<^verbatim>\<open>pm_ctl.c\<close>, the state
  machine of \<^verbatim>\<open>pm_state.c\<close> with its table of handlers, and the mode callback of \<^verbatim>\<open>pm_main.c\<close>. One
  definition per handler; the static counters of the handlers are fields of the state, what the
  handlers read from drivers and from other modules is the record \<open>pm_env\<close>, what they
  command is appended to \<open>pm_out\<close>.
\<close>

section \<open>State\<close>

datatype PM_EVT_ID = PM_MSG_OFF | PM_MSG_SLEEP | PM_MSG_EMERGENCY | PM_MSG_RUNNING | PM_MSG_RTC_WAKEUP

datatype PM_STATE =
    PM_ST_NORMAL | PM_ST_MCK_SLEEP | PM_ST_MCK_POWER_OFF | PM_ST_MCK_EMERGENCY | PM_ST_SLEEP
  | PM_ST_MCK_RESTART_APP | PM_ST_MCK_RESTART_4G | PM_ST_MCK_FOTA_UPDATE

datatype PM_EVENT =
    PM_EVT_RING | PM_EVT_RTC | PM_EVT_RUNNING | PM_EVT_TIMEOUT | PM_EVT_EMERGENCY | PM_EVT_POWER_OFF
  | PM_EVT_SLEEP_REQ | PM_EVT_RESTART_APP_REQ | PM_EVT_RESTART_4G_REQ | PM_EVT_FOTA_UPDATE_REQ

abbreviation (input) "PM_RUNNING_MODE \<equiv> 0 :: u8"
abbreviation (input) "PM_EMERGENCY_MODE \<equiv> 1 :: u8"
abbreviation (input) "PM_LISTEN_MODE \<equiv> 2 :: u8"
abbreviation (input) "PM_SLEEP_MODE \<equiv> 3 :: u8"
abbreviation (input) "PM_DEEP_SLEEP_MODE \<equiv> 4 :: u8"
abbreviation (input) "PM_OFF_MODE \<equiv> 5 :: u8"

datatype pm_out =
    NotifyMsg u16 PM_EVT_ID
  | WakeupMcu bool
  | En5 bool
  | SetAwaken
  | SockproxyAwaken
  | AudioSetup
  | RtcStart u32
  | Powerdown
  | KillApp
  | UpgIdle
  | RemoveDir bool
  | AtFotaUpdate

text \<open>The messages of the module's thread: a ring, an event (\<open>PM_MSG_ID_EVT\<close> with its number), the two timers,
  the watchdog, any other.\<close>

datatype pm_msg =
    MsgRing
  | MsgEvt nat
  | MsgRtcTimer
  | MsgCheckTimer
  | MsgPwdg
  | MsgOther

text \<open>\<open>pm_queue\<close> is the module's message queue; \<open>wakelock\<close> is the vote of \<open>pm_vote_oppose\<close> and \<open>pm_vote_agree\<close>; \<open>app_sleep\<close> the status item
  \<^verbatim>\<open>ST_ITEM_APP_SLEEP\<close>. The registration table holds the module identifiers in order; the handler of
  a module is read through the environment, since \<open>pm_reg_handler\<close> admits no \<open>NULL\<close>.\<close>

record pm_st =
  pm_state :: PM_STATE
  pm_ring_status :: bool
  pm_check_cnt :: nat
  cnt_s5 :: nat
  cnt_s6 :: nat
  cnt_s7 :: nat
  error_cnt :: nat
  pm_mode :: u8
  pm_regtbl :: "u16 list"
  wakelock :: bool
  app_sleep :: u8
  pm_queue :: "pm_msg list"
  pm_out :: "pm_out list"

text \<open>A driver file is the byte read or \<open>None\<close> for a failed read; \<open>FOTA_OK\<close>, \<open>FOTA_ING\<close> and \<open>FOTA_ERROR\<close>
  are 2, 1 and 3.\<close>

record pm_env =
  usb_in_lpm :: "u8 option"
  dtr_in :: "u8 option"
  st_get_mode :: "u8 option"
  sleep_ready :: "u16 \<Rightarrow> PM_EVT_ID \<Rightarrow> int"
  tcom_result :: "u16 \<Rightarrow> int"
  rtc_wakeup_time :: u32
  sock_recv_check :: int
  fota_get_status :: u8
  cache_dir_exists :: bool

section \<open>\<^verbatim>\<open>pm_ctl.c\<close>\<close>

abbreviation (input) "MPU_MID_PM \<equiv> 0x0800 :: u16"
abbreviation (input) "PM_MAX_REG_ITEM_NUM \<equiv> 16 :: nat"

definition pm_init_para :: "pm_st \<Rightarrow> pm_st" where
  "pm_init_para s = s\<lparr>pm_regtbl := []\<rparr>"

datatype pm_reg_err = PM_OK | PM_INVALID_PARA | PM_TABLE_OVERFLOW

definition pm_reg_handler :: "pm_st \<Rightarrow> u16 \<Rightarrow> bool \<Rightarrow> pm_reg_err \<times> pm_st" where
  "pm_reg_handler s mid handler_null =
     (if handler_null then (PM_INVALID_PARA, s)
      else if length (pm_regtbl s) \<ge> PM_MAX_REG_ITEM_NUM then (PM_TABLE_OVERFLOW, s)
      else (PM_OK, s\<lparr>pm_regtbl := pm_regtbl s @ [mid]\<rparr>))"

text \<open>The loop returns at the first module that cannot be reached.\<close>

fun notify_loop :: "pm_env \<Rightarrow> PM_EVT_ID \<Rightarrow> u16 list \<Rightarrow> pm_out list \<Rightarrow> int \<times> pm_out list" where
  "notify_loop e msgid [] sent = (0, sent)"
| "notify_loop e msgid (mid # mids) sent =
     (let ret = tcom_result e mid; sent = sent @ [NotifyMsg mid msgid]
      in if ret \<noteq> 0 then (ret, sent) else notify_loop e msgid mids sent)"

definition pm_notify_moudle :: "pm_env \<Rightarrow> pm_st \<Rightarrow> PM_EVT_ID \<Rightarrow> pm_st" where
  "pm_notify_moudle e s msgid = s\<lparr>pm_out := snd (notify_loop e msgid (pm_regtbl s) (pm_out s))\<rparr>"

definition pm_is_sleep_ready :: "pm_env \<Rightarrow> pm_st \<Rightarrow> PM_EVT_ID \<Rightarrow> int" where
  "pm_is_sleep_ready e s msgid =
     (let count = length (filter (\<lambda>mid. sleep_ready e mid msgid = 1) (pm_regtbl s))
      in if count = length (pm_regtbl s) then 1 else 0)"

definition lpm_file :: "u8 option \<Rightarrow> int" where
  "lpm_file f = (case f of None \<Rightarrow> - 1
     | Some status \<Rightarrow> if status = 0x31 then 0 else if status = 0x30 then 1 else - 1)"

definition pm_usb_wakeup_check :: "pm_env \<Rightarrow> int" where "pm_usb_wakeup_check e = lpm_file (usb_in_lpm e)"
definition pm_mcu_wakeup_check :: "pm_env \<Rightarrow> int" where "pm_mcu_wakeup_check e = lpm_file (dtr_in e)"

section \<open>\<^verbatim>\<open>pm_state.c\<close>\<close>

definition emit :: "pm_st \<Rightarrow> pm_out list \<Rightarrow> pm_st" where "emit s os = s\<lparr>pm_out := pm_out s @ os\<rparr>"

definition pm_set_state :: "pm_st \<Rightarrow> PM_STATE \<Rightarrow> pm_st" where "pm_set_state s st = s\<lparr>pm_state := st\<rparr>"

definition pm_vote_oppose :: "pm_st \<Rightarrow> pm_st" where "pm_vote_oppose s = emit (s\<lparr>wakelock := True\<rparr>) [En5 True]"
definition pm_vote_agree :: "pm_st \<Rightarrow> pm_st" where "pm_vote_agree s = (emit s [En5 False])\<lparr>wakelock := False\<rparr>"

definition pm_st_ignore :: "pm_env \<Rightarrow> pm_st \<Rightarrow> pm_st" where "pm_st_ignore e s = s"

definition pm_wakeup_low :: "pm_st \<Rightarrow> pm_st" where
  "pm_wakeup_low s = (emit s [WakeupMcu False])\<lparr>pm_ring_status := False\<rparr>"
definition pm_wakeup_high :: "pm_st \<Rightarrow> pm_st" where
  "pm_wakeup_high s = (emit s [WakeupMcu True])\<lparr>pm_ring_status := True\<rparr>"

definition pm_mcu_wakeup :: "pm_env \<Rightarrow> pm_st \<Rightarrow> pm_st" where
  "pm_mcu_wakeup e s =
     (let s = pm_notify_moudle e (pm_set_state (pm_vote_oppose s) PM_ST_NORMAL) PM_MSG_RUNNING
      in emit (s\<lparr>app_sleep := 0\<rparr>) [En5 True])"

definition pm_ring_wakeup :: "pm_env \<Rightarrow> pm_st \<Rightarrow> pm_st" where
  "pm_ring_wakeup e s =
     (if pm_state s \<noteq> PM_ST_NORMAL then
        let s = pm_notify_moudle e (pm_set_state (pm_vote_oppose s) PM_ST_NORMAL) PM_MSG_RUNNING
        in pm_wakeup_high (emit s [En5 True])
      else if pm_mcu_wakeup_check e = 0 then pm_wakeup_high s else s)"

definition pm_rtc_wakeup :: "pm_env \<Rightarrow> pm_st \<Rightarrow> pm_st" where
  "pm_rtc_wakeup e s = emit (pm_notify_moudle e (pm_vote_oppose s) PM_MSG_RTC_WAKEUP) [SetAwaken]"

text \<open>\<open>is_allow |= usb; is_allow |= (mcu << 1)\<close> on \<open>int\<close>, then tested with \<open>>= 1\<close>.\<close>

definition wake_request :: "int \<Rightarrow> int \<Rightarrow> bool" where
  "wake_request usb mcu \<longleftrightarrow> (0 OR usb) OR push_bit 1 mcu \<ge> 1"

definition pm_st_s0e3 :: "pm_env \<Rightarrow> pm_st \<Rightarrow> pm_st" where
  "pm_st_s0e3 e s =
     (if wake_request (pm_usb_wakeup_check e) (pm_mcu_wakeup_check e) then
        let s = s\<lparr>pm_check_cnt := 0\<rparr> in if pm_ring_status s then pm_wakeup_low s else s
      else
        let s = s\<lparr>pm_check_cnt := pm_check_cnt s + 1\<rparr>
        in if pm_check_cnt s \<ge> 10 then
             (case st_get_mode e of
                None \<Rightarrow> s
              | Some mode \<Rightarrow>
                  let s = (if mode = PM_SLEEP_MODE \<or> mode = PM_DEEP_SLEEP_MODE \<or> mode = PM_OFF_MODE
                           then pm_notify_moudle e (pm_set_state s PM_ST_MCK_POWER_OFF) PM_MSG_OFF
                           else pm_notify_moudle e (pm_set_state s PM_ST_MCK_SLEEP) PM_MSG_SLEEP)
                  in s\<lparr>pm_check_cnt := 0\<rparr>)
           else s)"

definition pm_st_s0e4 :: "pm_env \<Rightarrow> pm_st \<Rightarrow> pm_st" where
  "pm_st_s0e4 e s = pm_notify_moudle e (pm_set_state s PM_ST_MCK_EMERGENCY) PM_MSG_EMERGENCY"
definition pm_st_s0e5 :: "pm_env \<Rightarrow> pm_st \<Rightarrow> pm_st" where
  "pm_st_s0e5 e s = pm_notify_moudle e (pm_set_state s PM_ST_MCK_POWER_OFF) PM_MSG_OFF"
definition pm_st_s0e6 :: "pm_env \<Rightarrow> pm_st \<Rightarrow> pm_st" where
  "pm_st_s0e6 e s = pm_notify_moudle e (pm_set_state s PM_ST_MCK_SLEEP) PM_MSG_SLEEP"
definition pm_st_s0e7 :: "pm_env \<Rightarrow> pm_st \<Rightarrow> pm_st" where
  "pm_st_s0e7 e s = pm_notify_moudle e (pm_set_state s PM_ST_MCK_RESTART_APP) PM_MSG_OFF"
definition pm_st_s0e8 :: "pm_env \<Rightarrow> pm_st \<Rightarrow> pm_st" where
  "pm_st_s0e8 e s = pm_notify_moudle e (pm_set_state s PM_ST_MCK_RESTART_4G) PM_MSG_OFF"
definition pm_st_s0e9 :: "pm_env \<Rightarrow> pm_st \<Rightarrow> pm_st" where
  "pm_st_s0e9 e s = pm_notify_moudle e (pm_set_state s PM_ST_MCK_FOTA_UPDATE) PM_MSG_OFF"

definition pm_st_s1e3 :: "pm_env \<Rightarrow> pm_st \<Rightarrow> pm_st" where
  "pm_st_s1e3 e s =
     (if wake_request (pm_usb_wakeup_check e) (pm_mcu_wakeup_check e) then pm_wakeup_low (pm_mcu_wakeup e s)
      else if pm_is_sleep_ready e s PM_MSG_SLEEP = 1 \<and> \<not> pm_ring_status s then
        let s = pm_set_state s PM_ST_SLEEP; time = rtc_wakeup_time e;
            s = (if time \<noteq> 0 then emit s [RtcStart (time * 1000)] else s)
        in pm_vote_agree s
      else s)"

definition pm_st_s1e4 :: "pm_env \<Rightarrow> pm_st \<Rightarrow> pm_st" where
  "pm_st_s1e4 e s = pm_notify_moudle e (pm_set_state s PM_ST_MCK_EMERGENCY) PM_MSG_EMERGENCY"

definition pm_st_s2e3 :: "pm_env \<Rightarrow> pm_st \<Rightarrow> pm_st" where
  "pm_st_s2e3 e s =
     (let usb = (if pm_mode s \<noteq> PM_OFF_MODE \<and> pm_mode s \<noteq> PM_DEEP_SLEEP_MODE then pm_usb_wakeup_check e else 0)
      in if wake_request usb (pm_mcu_wakeup_check e) then pm_wakeup_low (pm_mcu_wakeup e s)
         else if pm_is_sleep_ready e s PM_MSG_OFF = 1 \<and> \<not> pm_ring_status s then emit s [Powerdown]
         else s)"

definition pm_st_s3e3 :: "pm_env \<Rightarrow> pm_st \<Rightarrow> pm_st" where
  "pm_st_s3e3 e s =
     (let s = pm_wakeup_low s
      in if pm_is_sleep_ready e s PM_MSG_EMERGENCY = 1 then s\<lparr>app_sleep := 1\<rparr> else s)"

definition pm_st_s3e5 :: "pm_env \<Rightarrow> pm_st \<Rightarrow> pm_st" where
  "pm_st_s3e5 e s = pm_notify_moudle e (pm_set_state s PM_ST_MCK_POWER_OFF) PM_MSG_OFF"

definition pm_st_s4e1 :: "pm_env \<Rightarrow> pm_st \<Rightarrow> pm_st" where
  "pm_st_s4e1 e s = pm_set_state (pm_rtc_wakeup e s) PM_ST_MCK_SLEEP"

definition pm_st_s4e3 :: "pm_env \<Rightarrow> pm_st \<Rightarrow> pm_st" where
  "pm_st_s4e3 e s =
     (if wake_request (pm_usb_wakeup_check e) (pm_mcu_wakeup_check e) then pm_wakeup_low (pm_mcu_wakeup e s)
      else if sock_recv_check e \<ge> 0 then pm_ring_wakeup e s else s)"

definition pm_st_s5e3 :: "pm_env \<Rightarrow> pm_st \<Rightarrow> pm_st" where
  "pm_st_s5e3 e s = (if pm_is_sleep_ready e s PM_MSG_OFF = 1 \<or> cnt_s5 s > 5 then emit s [KillApp]
     else s\<lparr>cnt_s5 := cnt_s5 s + 1\<rparr>)"

definition pm_st_s6e3 :: "pm_env \<Rightarrow> pm_st \<Rightarrow> pm_st" where
  "pm_st_s6e3 e s = (if pm_is_sleep_ready e s PM_MSG_OFF = 1 \<or> cnt_s6 s > 5 then emit s [Powerdown]
     else s\<lparr>cnt_s6 := cnt_s6 s + 1\<rparr>)"

definition pm_st_s7e3 :: "pm_env \<Rightarrow> pm_st \<Rightarrow> pm_st" where
  "pm_st_s7e3 e s =
     (let ready = (pm_is_sleep_ready e s PM_MSG_OFF = 1);
          s = (if ready then s else s\<lparr>cnt_s7 := cnt_s7 s + 1\<rparr>);
          is_allow = (ready \<or> cnt_s7 s > 10);
          start = (\<lambda>s. if is_allow then
              emit s ((if cache_dir_exists e then [RemoveDir True] else []) @ [AtFotaUpdate]) else s)
      in if fota_get_status e = 2 \<or> fota_get_status e = 1 then s
         else if fota_get_status e = 3 then
           let s = s\<lparr>error_cnt := error_cnt s + 1\<rparr>
           in if error_cnt s > 3 then
                let s = emit s [UpgIdle];
                    s = pm_notify_moudle e (pm_set_state (s\<lparr>error_cnt := 0\<rparr>) PM_ST_NORMAL) PM_MSG_RUNNING
                in emit s ((if cache_dir_exists e then [RemoveDir True] else []) @ [RemoveDir False])
              else start s
         else start s)"

section \<open>The table of handlers\<close>

definition state_row :: "PM_STATE \<Rightarrow> (pm_env \<Rightarrow> pm_st \<Rightarrow> pm_st) list" where
  "state_row st = (case st of
     PM_ST_NORMAL \<Rightarrow> [pm_ring_wakeup, pm_st_ignore, pm_st_ignore, pm_st_s0e3, pm_st_s0e4, pm_st_s0e5, pm_st_s0e6,
       pm_st_s0e7, pm_st_s0e8, pm_st_s0e9]
   | PM_ST_MCK_SLEEP \<Rightarrow> [pm_ring_wakeup, pm_rtc_wakeup, pm_mcu_wakeup, pm_st_s1e3, pm_st_s1e4, pm_st_ignore,
       pm_st_ignore, pm_st_ignore, pm_st_ignore, pm_st_ignore]
   | PM_ST_MCK_POWER_OFF \<Rightarrow> [pm_ring_wakeup, pm_st_ignore, pm_mcu_wakeup, pm_st_s2e3, pm_st_ignore, pm_st_ignore,
       pm_st_ignore, pm_st_ignore, pm_st_ignore, pm_st_ignore]
   | PM_ST_MCK_EMERGENCY \<Rightarrow> [pm_st_ignore, pm_st_ignore, pm_mcu_wakeup, pm_st_s3e3, pm_st_ignore, pm_st_s3e5,
       pm_st_ignore, pm_st_ignore, pm_st_ignore, pm_st_ignore]
   | PM_ST_SLEEP \<Rightarrow> [pm_ring_wakeup, pm_st_s4e1, pm_st_ignore, pm_st_s4e3, pm_st_ignore, pm_st_ignore,
       pm_st_ignore, pm_st_ignore, pm_st_ignore, pm_st_ignore]
   | PM_ST_MCK_RESTART_APP \<Rightarrow> [pm_st_ignore, pm_st_ignore, pm_st_ignore, pm_st_s5e3, pm_st_ignore, pm_st_ignore,
       pm_st_ignore, pm_st_ignore, pm_st_ignore, pm_st_ignore]
   | PM_ST_MCK_RESTART_4G \<Rightarrow> [pm_st_ignore, pm_st_ignore, pm_st_ignore, pm_st_s6e3, pm_st_ignore, pm_st_ignore,
       pm_st_ignore, pm_st_ignore, pm_st_ignore, pm_st_ignore]
   | PM_ST_MCK_FOTA_UPDATE \<Rightarrow> [pm_st_ignore, pm_st_ignore, pm_st_ignore, pm_st_s7e3, pm_st_ignore, pm_st_ignore,
       pm_st_ignore, pm_st_ignore, pm_st_ignore, pm_st_ignore])"

fun evt_index :: "PM_EVENT \<Rightarrow> nat" where
  "evt_index PM_EVT_RING = 0"
| "evt_index PM_EVT_RTC = 1"
| "evt_index PM_EVT_RUNNING = 2"
| "evt_index PM_EVT_TIMEOUT = 3"
| "evt_index PM_EVT_EMERGENCY = 4"
| "evt_index PM_EVT_POWER_OFF = 5"
| "evt_index PM_EVT_SLEEP_REQ = 6"
| "evt_index PM_EVT_RESTART_APP_REQ = 7"
| "evt_index PM_EVT_RESTART_4G_REQ = 8"
| "evt_index PM_EVT_FOTA_UPDATE_REQ = 9"

definition pm_evt_proc :: "pm_env \<Rightarrow> pm_st \<Rightarrow> nat \<Rightarrow> pm_st" where
  "pm_evt_proc e s evt = (if evt \<ge> 10 then s else (state_row (pm_state s) ! evt) e s)"

text \<open>Posting an event; the status callback for a new mode, whose error code is \<open>- 1\<close>. The module's own
  identifier is \<open>MPU_MID_PM\<close>.\<close>

definition pm_send_evt :: "pm_env \<Rightarrow> pm_st \<Rightarrow> PM_EVENT \<Rightarrow> int \<times> pm_st" where
  "pm_send_evt e s evt =
     (let ret = tcom_result e MPU_MID_PM
      in (ret, if ret = 0 then s\<lparr>pm_queue := pm_queue s @ [MsgEvt (evt_index evt)]\<rparr> else s))"

definition pm_mode_proc :: "pm_env \<Rightarrow> pm_st \<Rightarrow> u8 \<Rightarrow> int \<times> pm_st" where
  "pm_mode_proc e s new_mode =
     (if new_mode > PM_OFF_MODE then (- 1, s)
      else let s = s\<lparr>pm_mode := new_mode\<rparr>
           in if new_mode = PM_RUNNING_MODE then
                (0, snd (pm_send_evt e (emit s [SockproxyAwaken, AudioSetup]) PM_EVT_RUNNING))
              else if new_mode = PM_EMERGENCY_MODE then (0, snd (pm_send_evt e s PM_EVT_EMERGENCY))
              else if new_mode = PM_LISTEN_MODE then (0, snd (pm_send_evt e s PM_EVT_SLEEP_REQ))
              else pm_send_evt e s PM_EVT_POWER_OFF)"

text \<open>One pass of the loop of \<open>pm_main\<close>: a waiting message goes before the netlink socket, whose text the
  pass reads when it has some.\<close>

definition pm_main_msg :: "pm_env \<Rightarrow> pm_st \<Rightarrow> pm_msg \<Rightarrow> pm_st" where
  "pm_main_msg e s m =
     (case m of
        MsgRing \<Rightarrow> snd (pm_send_evt e s PM_EVT_RING)
      | MsgEvt evt \<Rightarrow> pm_evt_proc e s evt
      | MsgRtcTimer \<Rightarrow> snd (pm_send_evt e s PM_EVT_RTC)
      | MsgCheckTimer \<Rightarrow> pm_evt_proc e s (evt_index PM_EVT_TIMEOUT)
      | MsgPwdg \<Rightarrow> s
      | MsgOther \<Rightarrow> s)"

definition pm_main :: "pm_env \<Rightarrow> pm_st \<Rightarrow> string option \<Rightarrow> pm_st" where
  "pm_main e s netlink =
     (case pm_queue s of
        m # q \<Rightarrow> pm_main_msg e (s\<lparr>pm_queue := q\<rparr>) m
      | [] \<Rightarrow> (if netlink = Some ''re_modem'' then snd (pm_send_evt e s PM_EVT_RESTART_4G_REQ) else s))"

text \<open>What can happen to the module: a message arrives, the mode changes, the thread makes a pass.\<close>

datatype pm_input = Arrive pm_msg | NewMode u8 | Pass "string option"

fun pm_world :: "pm_env \<Rightarrow> pm_st \<Rightarrow> pm_input \<Rightarrow> pm_st" where
  "pm_world e s (Arrive m) = s\<lparr>pm_queue := pm_queue s @ [m]\<rparr>"
| "pm_world e s (NewMode mode) = snd (pm_mode_proc e s mode)"
| "pm_world e s (Pass netlink) = pm_main e s netlink"

definition pm_live :: "pm_st \<Rightarrow> (pm_env \<times> pm_input) list \<Rightarrow> pm_st" where
  "pm_live s ins = foldl (\<lambda>s (e, i). pm_world e s i) s ins"

definition pm_init_state :: "pm_st \<Rightarrow> pm_st" where
  "pm_init_state s = s\<lparr>pm_state := PM_ST_NORMAL\<rparr>"

definition pm_exec :: "pm_st \<Rightarrow> (pm_env \<times> PM_EVENT) list \<Rightarrow> pm_st" where
  "pm_exec s evs = foldl (\<lambda>s (e, ev). pm_evt_proc e s (evt_index ev)) s evs"

section \<open>What the handlers change\<close>

lemma notify_fields [simp]:
  "pm_state (pm_notify_moudle e s m) = pm_state s" "pm_ring_status (pm_notify_moudle e s m) = pm_ring_status s"
  "wakelock (pm_notify_moudle e s m) = wakelock s" "pm_regtbl (pm_notify_moudle e s m) = pm_regtbl s"
  "pm_mode (pm_notify_moudle e s m) = pm_mode s" "cnt_s6 (pm_notify_moudle e s m) = cnt_s6 s"
  "cnt_s5 (pm_notify_moudle e s m) = cnt_s5 s" "pm_check_cnt (pm_notify_moudle e s m) = pm_check_cnt s"
  by (simp_all add: pm_notify_moudle_def)

lemma emit_fields [simp]:
  "pm_state (emit s os) = pm_state s" "pm_ring_status (emit s os) = pm_ring_status s"
  "wakelock (emit s os) = wakelock s" "pm_regtbl (emit s os) = pm_regtbl s" "pm_mode (emit s os) = pm_mode s"
  "cnt_s6 (emit s os) = cnt_s6 s" "cnt_s5 (emit s os) = cnt_s5 s" "pm_out (emit s os) = pm_out s @ os"
  "pm_check_cnt (emit s os) = pm_check_cnt s"
  by (simp_all add: emit_def)

lemma send_evt_fields [simp]:
  "pm_state (snd (pm_send_evt e s ev)) = pm_state s" "wakelock (snd (pm_send_evt e s ev)) = wakelock s"
  by (simp_all add: pm_send_evt_def Let_def)

lemmas handler_defs = pm_st_ignore_def pm_mcu_wakeup_def pm_ring_wakeup_def pm_rtc_wakeup_def pm_st_s0e3_def
  pm_st_s0e4_def pm_st_s0e5_def pm_st_s0e6_def pm_st_s0e7_def pm_st_s0e8_def pm_st_s0e9_def pm_st_s1e3_def
  pm_st_s1e4_def pm_st_s2e3_def pm_st_s3e3_def pm_st_s3e5_def pm_st_s4e1_def pm_st_s4e3_def pm_st_s5e3_def
  pm_st_s6e3_def pm_st_s7e3_def

lemmas effect_defs = pm_set_state_def pm_vote_oppose_def pm_vote_agree_def pm_wakeup_low_def pm_wakeup_high_def

text \<open>The arrows of the state machine.\<close>

inductive pm_arrow :: "PM_STATE \<Rightarrow> PM_EVENT \<Rightarrow> PM_STATE \<Rightarrow> bool" where
  stay: "pm_arrow st ev st"
| to_sleep_check: "ev \<in> {PM_EVT_TIMEOUT, PM_EVT_SLEEP_REQ} \<Longrightarrow> pm_arrow PM_ST_NORMAL ev PM_ST_MCK_SLEEP"
| to_off_check: "ev \<in> {PM_EVT_TIMEOUT, PM_EVT_POWER_OFF} \<Longrightarrow> pm_arrow PM_ST_NORMAL ev PM_ST_MCK_POWER_OFF"
| to_emergency: "st \<in> {PM_ST_NORMAL, PM_ST_MCK_SLEEP} \<Longrightarrow> pm_arrow st PM_EVT_EMERGENCY PM_ST_MCK_EMERGENCY"
| to_restart_app: "pm_arrow PM_ST_NORMAL PM_EVT_RESTART_APP_REQ PM_ST_MCK_RESTART_APP"
| to_restart_4g: "pm_arrow PM_ST_NORMAL PM_EVT_RESTART_4G_REQ PM_ST_MCK_RESTART_4G"
| to_fota: "pm_arrow PM_ST_NORMAL PM_EVT_FOTA_UPDATE_REQ PM_ST_MCK_FOTA_UPDATE"
| wake: "st \<in> {PM_ST_MCK_SLEEP, PM_ST_MCK_POWER_OFF} \<Longrightarrow> ev \<in> {PM_EVT_RING, PM_EVT_RUNNING, PM_EVT_TIMEOUT}
    \<Longrightarrow> pm_arrow st ev PM_ST_NORMAL"
| end_emergency: "pm_arrow PM_ST_MCK_EMERGENCY PM_EVT_RUNNING PM_ST_NORMAL"
| emergency_off: "pm_arrow PM_ST_MCK_EMERGENCY PM_EVT_POWER_OFF PM_ST_MCK_POWER_OFF"
| fall_asleep: "pm_arrow PM_ST_MCK_SLEEP PM_EVT_TIMEOUT PM_ST_SLEEP"
| wake_up: "ev \<in> {PM_EVT_RING, PM_EVT_TIMEOUT} \<Longrightarrow> pm_arrow PM_ST_SLEEP ev PM_ST_NORMAL"
| rtc: "pm_arrow PM_ST_SLEEP PM_EVT_RTC PM_ST_MCK_SLEEP"
| fota_failed: "pm_arrow PM_ST_MCK_FOTA_UPDATE PM_EVT_TIMEOUT PM_ST_NORMAL"

inductive_simps pm_arrow_iff: "pm_arrow st ev st'"

lemma pm_step_arrow: "pm_arrow (pm_state s) ev (pm_state (pm_evt_proc e s (evt_index ev)))"
  by (cases "pm_state s"; cases ev;
      simp add: pm_evt_proc_def state_row_def handler_defs effect_defs Let_def pm_arrow_iff split: option.split)

text \<open>The wakelock is released exactly in the sleep state.\<close>

definition pm_inv :: "pm_st \<Rightarrow> bool" where
  "pm_inv s \<longleftrightarrow> (wakelock s \<longleftrightarrow> pm_state s \<noteq> PM_ST_SLEEP)"

lemma pm_inv_step: "pm_inv s \<Longrightarrow> pm_inv (pm_evt_proc e s (evt_index ev))"
  by (cases "pm_state s"; cases ev;
      simp add: pm_inv_def pm_evt_proc_def state_row_def handler_defs effect_defs Let_def split: option.split)

lemma evt_index_onto: "n < 10 \<Longrightarrow> \<exists>ev. n = evt_index ev"
proof -
  assume "n < 10"
  then have "n \<in> set (map evt_index [PM_EVT_RING, PM_EVT_RTC, PM_EVT_RUNNING, PM_EVT_TIMEOUT, PM_EVT_EMERGENCY,
      PM_EVT_POWER_OFF, PM_EVT_SLEEP_REQ, PM_EVT_RESTART_APP_REQ, PM_EVT_RESTART_4G_REQ, PM_EVT_FOTA_UPDATE_REQ])"
    by simp presburger
  then show ?thesis unfolding set_map by blast
qed

lemma pm_inv_evt: "pm_inv s \<Longrightarrow> pm_inv (pm_evt_proc e s n)"
proof (cases "n < 10")
  case True
  then obtain ev where "n = evt_index ev" using evt_index_onto by blast
  then show "pm_inv s \<Longrightarrow> ?thesis" by (simp add: pm_inv_step)
qed (simp add: pm_evt_proc_def)

lemma pm_inv_queue: "pm_inv (s\<lparr>pm_queue := q\<rparr>) = pm_inv s"
  by (simp add: pm_inv_def)

lemma pm_inv_send: "pm_inv s \<Longrightarrow> pm_inv (snd (pm_send_evt e s ev))"
  by (simp add: pm_inv_def)

lemma pm_inv_msg: "pm_inv s \<Longrightarrow> pm_inv (pm_main_msg e s m)"
  by (cases m) (simp_all add: pm_main_msg_def pm_inv_send pm_inv_evt)

lemma pm_inv_mode: "pm_inv s \<Longrightarrow> pm_inv (snd (pm_mode_proc e s mode))"
  by (simp add: pm_mode_proc_def pm_inv_def Let_def)

lemma pm_inv_world: "pm_inv s \<Longrightarrow> pm_inv (pm_world e s i)"
  by (cases i) (auto simp: pm_main_def pm_inv_queue intro!: pm_inv_msg pm_inv_mode pm_inv_send split: list.split)

lemma pm_inv_live: "pm_inv s \<Longrightarrow> pm_inv (pm_live s ins)"
  unfolding pm_live_def by (induction ins arbitrary: s) (auto intro: pm_inv_world)

text \<open>Falling asleep: the one handler that does it, and its guard.\<close>

lemma pm_falls_asleep:
  assumes "pm_state s \<noteq> PM_ST_SLEEP" and "pm_state (pm_evt_proc e s (evt_index ev)) = PM_ST_SLEEP"
  shows "pm_state s = PM_ST_MCK_SLEEP \<and> ev = PM_EVT_TIMEOUT \<and> pm_is_sleep_ready e s PM_MSG_SLEEP = 1
    \<and> \<not> pm_ring_status s \<and> \<not> wake_request (pm_usb_wakeup_check e) (pm_mcu_wakeup_check e)"
proof -
  have a: "pm_state s = PM_ST_MCK_SLEEP \<and> ev = PM_EVT_TIMEOUT"
    using pm_step_arrow [of s ev e] assms by (auto simp: pm_arrow_iff)
  with assms(2) show ?thesis
    by (auto simp: pm_evt_proc_def state_row_def handler_defs effect_defs Let_def split: if_splits)
qed

lemma length_filter_all: "length (filter P xs) = length xs \<longleftrightarrow> (\<forall>x\<in>set xs. P x)"
proof (induction xs)
  case (Cons x xs)
  then show ?case using length_filter_le [of P xs] by (auto simp del: length_filter_le)
qed simp

lemma sleep_ready_all: "pm_is_sleep_ready e s m = 1 \<longleftrightarrow> (\<forall>mid\<in>set (pm_regtbl s). sleep_ready e mid m = 1)"
  by (simp add: pm_is_sleep_ready_def length_filter_all)

text \<open>The vote of the two checks as the code combines them: a failed check hides the other.\<close>

lemma lpm_file_values: "lpm_file f \<in> {- 1, 0, 1}"
  by (auto simp: lpm_file_def split: option.split)

lemma wake_request_iff:
  assumes "usb \<in> {- 1, 0, 1}" and "mcu \<in> {- 1, 0, 1}"
  shows "wake_request usb mcu \<longleftrightarrow> usb = 1 \<and> mcu \<noteq> - 1 \<or> mcu = 1 \<and> usb \<noteq> - 1"
  using assms by (elim insertE emptyE) (simp_all add: wake_request_def)

text \<open>The running state's debounce: ten ticks without a wake request.\<close>

definition quiet :: "pm_env \<Rightarrow> bool" where
  "quiet e \<longleftrightarrow> \<not> wake_request (pm_usb_wakeup_check e) (pm_mcu_wakeup_check e)"

lemma s0e3_quiet:
  assumes "pm_state s = PM_ST_NORMAL" and "quiet e" and "pm_check_cnt s + 1 < 10"
  shows "pm_evt_proc e s 3 = s\<lparr>pm_check_cnt := pm_check_cnt s + 1\<rparr>"
  using assms by (simp add: pm_evt_proc_def state_row_def pm_st_s0e3_def quiet_def Let_def)

lemma s0e3_quiet_run:
  "pm_state s = PM_ST_NORMAL \<Longrightarrow> \<forall>e\<in>set es. quiet e \<Longrightarrow> pm_check_cnt s + length es < 10
   \<Longrightarrow> pm_exec s (map (\<lambda>e. (e, PM_EVT_TIMEOUT)) es) = s\<lparr>pm_check_cnt := pm_check_cnt s + length es\<rparr>"
proof (induction es arbitrary: s)
  case (Cons e es)
  have "pm_evt_proc e s 3 = s\<lparr>pm_check_cnt := pm_check_cnt s + 1\<rparr>"
    using Cons.prems by (intro s0e3_quiet) auto
  with Cons.IH [of "s\<lparr>pm_check_cnt := pm_check_cnt s + 1\<rparr>"] Cons.prems show ?case
    by (simp add: pm_exec_def)
qed (simp add: pm_exec_def)

lemma s6_run:
  "pm_state s = PM_ST_MCK_RESTART_4G \<Longrightarrow> cnt_s6 s + length es = 6 \<Longrightarrow>
   Powerdown \<notin> set (pm_out (pm_exec s (map (\<lambda>e. (e, PM_EVT_TIMEOUT)) es))) \<Longrightarrow>
   pm_state (pm_exec s (map (\<lambda>e. (e, PM_EVT_TIMEOUT)) es)) = PM_ST_MCK_RESTART_4G \<and>
   cnt_s6 (pm_exec s (map (\<lambda>e. (e, PM_EVT_TIMEOUT)) es)) = 6"
proof (induction es arbitrary: s)
  case Nil
  then show ?case by (simp add: pm_exec_def)
next
  case (Cons e es)
  have mono: "Powerdown \<in> set (pm_out t) \<Longrightarrow> pm_state t = PM_ST_MCK_RESTART_4G \<Longrightarrow>
      Powerdown \<in> set (pm_out (pm_exec t (map (\<lambda>e. (e, PM_EVT_TIMEOUT)) l)))" for t l
  proof (induction l arbitrary: t)
    case (Cons e l)
    have "Powerdown \<in> set (pm_out (pm_evt_proc e t 3))" "pm_state (pm_evt_proc e t 3) = PM_ST_MCK_RESTART_4G"
      using Cons.prems by (simp_all add: pm_evt_proc_def state_row_def pm_st_s6e3_def)
    from Cons.IH [OF this] show ?case by (simp add: pm_exec_def)
  qed (simp add: pm_exec_def)
  have st: "pm_evt_proc e s 3 = pm_st_s6e3 e s" using Cons.prems(1) by (simp add: pm_evt_proc_def state_row_def)
  have "\<not> (pm_is_sleep_ready e s PM_MSG_OFF = 1 \<or> cnt_s6 s > 5)"
  proof
    assume "pm_is_sleep_ready e s PM_MSG_OFF = 1 \<or> cnt_s6 s > 5"
    then have "pm_evt_proc e s 3 = emit s [Powerdown]" unfolding st by (simp add: pm_st_s6e3_def)
    with mono [of "emit s [Powerdown]" es] Cons.prems(1,3) show False by (simp add: pm_exec_def)
  qed
  then have eq: "pm_evt_proc e s 3 = s\<lparr>cnt_s6 := cnt_s6 s + 1\<rparr>" unfolding st by (simp add: pm_st_s6e3_def)
  from Cons.IH [of "s\<lparr>cnt_s6 := cnt_s6 s + 1\<rparr>"] Cons.prems eq show ?case by (simp add: pm_exec_def)
qed

section \<open>Properties\<close>

definition pm_boot :: "u16 list \<Rightarrow> pm_st" where
  "pm_boot tbl = pm_vote_oppose (pm_init_state \<lparr>pm_state = PM_ST_NORMAL, pm_ring_status = False, pm_check_cnt = 0,
     cnt_s5 = 0, cnt_s6 = 0, cnt_s7 = 0, error_cnt = 0, pm_mode = 0, pm_regtbl = tbl, wakelock = False,
     app_sleep = 0, pm_queue = [], pm_out = []\<rparr>)"

definition demo_pm_env :: "u8 option \<Rightarrow> u8 option \<Rightarrow> pm_env" where
  "demo_pm_env usb dtr = \<lparr>usb_in_lpm = usb, dtr_in = dtr, st_get_mode = Some 2, sleep_ready = (\<lambda>_ _. 1),
     tcom_result = (\<lambda>_. 0), rtc_wakeup_time = 60, sock_recv_check = - 1, fota_get_status = 0,
     cache_dir_exists = False\<rparr>"

text \<open>Every event moves the power state along one of the arrows of \<open>pm_arrow\<close>: sleep is reached only
  from its check state, and the restart states have no arrow out.\<close>

lemma pm_transitions: "pm_arrow (pm_state s) ev (pm_state (pm_evt_proc e s (evt_index ev)))"
  by (rule pm_step_arrow)

text \<open>Whatever messages, mode changes and passes of the thread follow the start, the module has withdrawn
  its vote against the sleep of the 4G module exactly when it is in the sleep state.\<close>

lemma pm_wakelock_only_released_asleep:
  "wakelock (pm_live (pm_boot tbl) ins) = (pm_state (pm_live (pm_boot tbl) ins) \<noteq> PM_ST_SLEEP)"
proof -
  have "pm_inv (pm_boot tbl)" by (simp add: pm_inv_def pm_boot_def pm_vote_oppose_def pm_init_state_def)
  from pm_inv_live [OF this] show ?thesis by (simp add: pm_inv_def)
qed

text \<open>C13: The machine falls asleep only on a tick of the sleep check in which every registered module
  answers that it is ready, no ring is pending and the answers of the two wake checks, combined by \<^verbatim>\<open>|=\<close>, do not ask to stay awake. (A check
  that fails answers -1, which hides the request of the other: \<open>pm_failed_check_hides_request\<close>.)\<close>

theorem pm_sleep_only_when_ready:
  assumes "pm_state s \<noteq> PM_ST_SLEEP" and "pm_state (pm_evt_proc e s (evt_index ev)) = PM_ST_SLEEP"
  shows "pm_state s = PM_ST_MCK_SLEEP \<and> ev = PM_EVT_TIMEOUT \<and> \<not> pm_ring_status s \<and> quiet e
    \<and> (\<forall>mid\<in>set (pm_regtbl s). sleep_ready e mid PM_MSG_SLEEP = 1)"
  using pm_falls_asleep [OF assms] by (simp add: sleep_ready_all quiet_def)

theorem pm_sleep_only_when_ready_witness:
  "quiet (demo_pm_env (Some 0x31) (Some 0x31))"
proof -
  let ?s = "(pm_boot [3, 7])\<lparr>pm_state := PM_ST_MCK_SLEEP\<rparr>" and ?e = "demo_pm_env (Some 0x31) (Some 0x31)"
  have "wake_request 0 0 = False" by (simp add: wake_request_def)
  then have "pm_state (pm_evt_proc ?e ?s (evt_index PM_EVT_TIMEOUT)) = PM_ST_SLEEP"
    by (simp add: pm_evt_proc_def state_row_def pm_st_s1e3_def pm_usb_wakeup_check_def pm_mcu_wakeup_check_def
        demo_pm_env_def lpm_file_def pm_is_sleep_ready_def pm_boot_def effect_defs pm_init_state_def emit_def Let_def)
  with pm_sleep_only_when_ready [of ?s ?e PM_EVT_TIMEOUT] show ?thesis by simp
qed

text \<open>In the running state nine ticks without a wake request change nothing but the counter; the
  tenth starts the power-off check when the mode asks for sleep, deep sleep or off, and the sleep check
  otherwise.\<close>

lemma pm_debounce:
  assumes "pm_state s = PM_ST_NORMAL" "pm_check_cnt s = 0" "length es = 9" "\<forall>e\<in>set es. quiet e" "quiet e"
    and "st_get_mode e = Some mode"
  shows "pm_exec s (map (\<lambda>e. (e, PM_EVT_TIMEOUT)) es) = s\<lparr>pm_check_cnt := 9\<rparr>
    \<and> pm_state (pm_exec s (map (\<lambda>e. (e, PM_EVT_TIMEOUT)) es @ [(e, PM_EVT_TIMEOUT)])) =
        (if mode \<in> {3, 4, 5} then PM_ST_MCK_POWER_OFF else PM_ST_MCK_SLEEP)"
proof -
  have nine: "pm_exec s (map (\<lambda>e. (e, PM_EVT_TIMEOUT)) es) = s\<lparr>pm_check_cnt := 9\<rparr>"
    using s0e3_quiet_run [of s es] assms by simp
  have "pm_exec s (map (\<lambda>e. (e, PM_EVT_TIMEOUT)) es @ [(e, PM_EVT_TIMEOUT)]) =
      pm_evt_proc e (pm_exec s (map (\<lambda>e. (e, PM_EVT_TIMEOUT)) es)) 3"
    by (simp add: pm_exec_def)
  then show ?thesis
    using assms nine by (simp add: pm_evt_proc_def state_row_def pm_st_s0e3_def quiet_def effect_defs Let_def)
qed

lemma pm_debounce_witness:
  "pm_state (pm_exec (pm_boot [3]) (replicate 10 (demo_pm_env (Some 0x31) (Some 0x31), PM_EVT_TIMEOUT)))
   = PM_ST_MCK_SLEEP"
proof -
  let ?e = "demo_pm_env (Some 0x31) (Some 0x31)"
  have "quiet ?e" by (simp add: quiet_def demo_pm_env_def pm_usb_wakeup_check_def pm_mcu_wakeup_check_def
      lpm_file_def wake_request_def)
  moreover have "replicate 10 (?e, PM_EVT_TIMEOUT) =
      map (\<lambda>e. (e, PM_EVT_TIMEOUT)) (replicate 9 ?e) @ [(?e, PM_EVT_TIMEOUT)]"
    by (simp add: numeral_eq_Suc)
  ultimately show ?thesis
    using pm_debounce [of "pm_boot [3]" "replicate 9 ?e" ?e 2]
    by (simp add: pm_boot_def pm_vote_oppose_def pm_init_state_def demo_pm_env_def)
qed

text \<open>The restart of the 4G module cannot be held up: at the latest the seventh tick after the
  request powers the module down, whatever the other modules answer.\<close>

lemma pm_restart_4g_bounded:
  assumes "pm_state s = PM_ST_MCK_RESTART_4G" "cnt_s6 s = 0" "length es = 7"
  shows "Powerdown \<in> set (pm_out (pm_exec s (map (\<lambda>e. (e, PM_EVT_TIMEOUT)) es)))"
proof -
  obtain es' e where es: "es = es' @ [e]" "length es' = 6"
    using assms(3) by (cases es rule: rev_cases) auto
  let ?t = "pm_exec s (map (\<lambda>e. (e, PM_EVT_TIMEOUT)) es')"
  have eq: "pm_exec s (map (\<lambda>e. (e, PM_EVT_TIMEOUT)) es) = pm_evt_proc e ?t 3" by (simp add: es pm_exec_def)
  show ?thesis
  proof (cases "Powerdown \<in> set (pm_out ?t)")
    case True
    have "pm_state ?t = PM_ST_MCK_RESTART_4G" for l
    proof -
      have "pm_state u = PM_ST_MCK_RESTART_4G \<Longrightarrow>
          pm_state (pm_exec u (map (\<lambda>e. (e, PM_EVT_TIMEOUT)) l)) = PM_ST_MCK_RESTART_4G" for u l
        by (induction l arbitrary: u) (auto simp: pm_exec_def pm_evt_proc_def state_row_def pm_st_s6e3_def)
      then show ?thesis using assms(1) .
    qed
    with True show ?thesis unfolding eq by (simp add: pm_evt_proc_def state_row_def pm_st_s6e3_def)
  next
    case False
    with s6_run [OF assms(1) _ False] assms(2) es(2) show ?thesis
      unfolding eq by (simp add: pm_evt_proc_def state_row_def pm_st_s6e3_def)
  qed
qed

lemma pm_restart_4g_bounded_witness:
  "Powerdown \<in> set (pm_out (pm_exec ((pm_boot [3])\<lparr>pm_state := PM_ST_MCK_RESTART_4G\<rparr>)
     (map (\<lambda>e. (e, PM_EVT_TIMEOUT)) (replicate 7 ((demo_pm_env None None)\<lparr>sleep_ready := \<lambda>_ _. 0\<rparr>)))))"
  by (rule pm_restart_4g_bounded) (simp_all add: pm_boot_def pm_vote_oppose_def pm_init_state_def)

text \<open>When one of the two wake checks fails to read its driver file, the other one's request to
  stay awake is lost: with the USB voltage up and the MCU line unreadable the tick counts towards sleep.\<close>

lemma pm_failed_check_hides_request:
  "\<not> wake_request (lpm_file (Some 0x30)) (lpm_file None) \<and> \<not> wake_request (lpm_file None) (lpm_file (Some 0x30))
   \<and> wake_request (lpm_file (Some 0x30)) (lpm_file (Some 0x31))"
  by (simp add: wake_request_iff lpm_file_def)

end
