(* ===== verification/RingBuffer.thy ===== *)
theory RingBuffer
  imports Prelude
begin

text \<open>
  \<^verbatim>\<open>mid/ringbuffer/ring_buffer.c\<close>: a byte ring over a power-of-two array with free-running
  32-bit positions. \<open>circ_read\<close> and \<open>circ_write\<close> are the two memory copies of the code
  over natural numbers; \<open>rb_list\<close> is the queue of bytes a state stands for, and
  \<open>rb_in\<close>, \<open>rb_out\<close> and \<open>rb_get\<close> are refined against it. A C pointer that may be
  \<open>NULL\<close> is an option; the bytes a function writes through a pointer are a result.
  The locale \<open>byte_fifo\<close> is the contract the transport layer relies on.
\<close>

section \<open>Circular copies over natural numbers\<close>

definition circ_read :: "'a list \<Rightarrow> nat \<Rightarrow> nat \<Rightarrow> 'a list" where
  "circ_read buf p n = map (\<lambda>i. buf ! ((p + i) mod length buf)) [0..<n]"

definition circ_write :: "'a list \<Rightarrow> nat \<Rightarrow> 'a list \<Rightarrow> 'a list" where
  "circ_write buf p src =
     (let off = p mod length buf; len = min (length src) (length buf - off)
      in blit (blit buf off (take len src)) 0 (drop len src))"

lemma length_circ_read [simp]: "length (circ_read buf p n) = n"
  by (simp add: circ_read_def)

lemma nth_circ_read [simp]: "i < n \<Longrightarrow> circ_read buf p n ! i = buf ! ((p + i) mod length buf)"
  by (simp add: circ_read_def)

lemma circ_read_append: "circ_read buf p (m + n) = circ_read buf p m @ circ_read buf (p + m) n"
  by (rule nth_equalityI) (auto simp: nth_append add.assoc)

lemma take_circ_read: "n \<le> m \<Longrightarrow> take n (circ_read buf p m) = circ_read buf p n"
  by (rule nth_equalityI) auto

lemma drop_circ_read: "n \<le> m \<Longrightarrow> drop n (circ_read buf p m) = circ_read buf (p + n) (m - n)"
  by (rule nth_equalityI) (auto simp: add.assoc)

lemma circ_read_cong:
  assumes "p mod length buf = q mod length buf"
  shows "circ_read buf p n = circ_read buf q n"
proof -
  have "(p + i) mod length buf = (q + i) mod length buf" for i
    using assms by (metis mod_add_left_eq)
  then show ?thesis by (simp add: circ_read_def)
qed

lemma circ_read_chunks:
  fixes p :: nat
  assumes "n \<le> length buf" and "buf \<noteq> []"
  defines "off \<equiv> p mod length buf"
  defines "len \<equiv> min n (length buf - off)"
  shows "take len (drop off buf) @ take (n - len) buf = circ_read buf p n" (is "?lhs = _")
proof (rule nth_equalityI)
  have off: "off < length buf" unfolding off_def using assms(2) by simp
  show len_eq: "length ?lhs = length (circ_read buf p n)"
    using assms(1) off by (auto simp: len_def)
  fix i assume "i < length ?lhs"
  with len_eq have i: "i < n" by simp
  with assms(1) have "(p + i) mod length buf = (if off + i < length buf then off + i else off + i - length buf)"
    unfolding off_def by (intro mod_add_unroll) simp
  then show "?lhs ! i = circ_read buf p n ! i"
    using i off assms(1) by (auto simp: nth_append len_def min_def not_less add.commute)
qed

lemma length_circ_write [simp]:
  assumes "length src \<le> length buf"
  shows "length (circ_write buf p src) = length buf"
proof (cases "buf = []")
  case True
  with assms show ?thesis by (simp add: circ_write_def blit_def)
next
  case False
  then have "p mod length buf < length buf" by simp
  with assms show ?thesis by (simp add: circ_write_def Let_def)
qed

lemma nth_circ_write:
  assumes "length src \<le> length buf" and "i < length buf"
  shows "circ_write buf p src ! ((p + i) mod length buf) =
     (if i < length src then src ! i else buf ! ((p + i) mod length buf))"
proof -
  let ?off = "p mod length buf" and ?len = "min (length src) (length buf - p mod length buf)"
  have off: "?off < length buf" using assms(2) by (intro mod_less_divisor) linarith
  have m: "(p + i) mod length buf = (if ?off + i < length buf then ?off + i else ?off + i - length buf)"
    using assms(2) by (rule mod_add_unroll)
  have w: "circ_write buf p src ! j =
      (if j < length src - ?len then src ! (?len + j)
       else if ?off \<le> j \<and> j < ?off + ?len then src ! (j - ?off) else buf ! j)"
    if "j < length buf" for j
    using that off assms(1)
    by (auto simp: circ_write_def Let_def nth_blit less_diff_conv2 add.commute)
  have "(p + i) mod length buf < length buf" using assms(2) by (intro mod_less_divisor) linarith
  from w [OF this] show ?thesis
    using assms off unfolding m by (auto simp: min_def)
qed

lemma circ_read_write:
  assumes "m + length src \<le> length buf"
  shows "circ_read (circ_write buf (p + m) src) p (m + length src) = circ_read buf p m @ src"
proof (cases "buf = []")
  case True
  with assms show ?thesis by (simp add: circ_read_def)
next
  case False
  let ?w = "circ_write buf (p + m) src"
  have lw: "length ?w = length buf" using assms by simp
  have "circ_read ?w p m = circ_read buf p m"
  proof (rule nth_equalityI)
    fix i assume "i < length (circ_read ?w p m)"
    then have i: "i < m" by simp
    let ?j = "i + (length buf - m)"
    have j: "?j < length buf" "length src \<le> ?j" using i assms by auto
    have "(p + m + ?j) mod length buf = (p + i + length buf) mod length buf"
      using i assms by (intro arg_cong [where f = "\<lambda>x. x mod length buf"]) linarith
    then have "(p + m + ?j) mod length buf = (p + i) mod length buf" by simp
    with nth_circ_write [of src buf ?j "p + m"] assms i j lw
    show "circ_read ?w p m ! i = circ_read buf p m ! i" by simp
  qed simp
  moreover have "circ_read ?w (p + m) (length src) = src"
    using assms nth_circ_write [of src buf _ "p + m"] lw
    by (intro nth_equalityI) auto
  ultimately show ?thesis by (simp add: circ_read_append)
qed

section \<open>The ring of the code\<close>

record ring_buffer =
  buffer :: bytes
  rb_size :: u32
  in_pos :: u32
  out_pos :: u32

definition is_power_of_2 :: "u32 \<Rightarrow> bool" where
  "is_power_of_2 x \<longleftrightarrow> x \<noteq> 0 \<and> x AND (x - 1) = 0"

definition rb_init :: "ring_buffer \<Rightarrow> bytes \<Rightarrow> u32 \<Rightarrow> int \<times> ring_buffer" where
  "rb_init ring_buf buf sz =
     (if \<not> is_power_of_2 sz then (-1, ring_buf)
      else (0, \<lparr>buffer = buf, rb_size = sz, in_pos = 0, out_pos = 0\<rparr>))"

definition rb_used_len :: "ring_buffer \<Rightarrow> u32" where
  "rb_used_len rb = in_pos rb - out_pos rb"

definition rb_unused_len :: "ring_buffer \<Rightarrow> u32" where
  "rb_unused_len rb = rb_size rb - in_pos rb + out_pos rb"

definition rb_empty :: "ring_buffer \<Rightarrow> bool" where
  "rb_empty rb \<longleftrightarrow> in_pos rb = out_pos rb"

definition rb_out ::
  "ring_buffer option \<Rightarrow> bytes option \<Rightarrow> u32 \<Rightarrow> int \<times> ring_buffer option \<times> bytes option" where
  "rb_out ring_buf dst n =
     (case (ring_buf, dst) of
        (Some rb, Some d) \<Rightarrow>
          (let sz = min n (in_pos rb - out_pos rb);
               off = out_pos rb AND (rb_size rb - 1);
               len = min sz (rb_size rb - off);
               d = blit d 0 (take (unat len) (drop (unat off) (buffer rb)));
               d = blit d (unat len) (take (unat (sz - len)) (buffer rb));
               rb = rb\<lparr>out_pos := out_pos rb + sz\<rparr>;
               rb = (if in_pos rb = out_pos rb then rb\<lparr>in_pos := 0, out_pos := 0\<rparr> else rb)
           in (sint sz, Some rb, Some d))
      | _ \<Rightarrow> (-1, ring_buf, dst))"

definition rb_get ::
  "ring_buffer option \<Rightarrow> bytes option \<Rightarrow> u32 \<Rightarrow> u32 \<Rightarrow> int \<times> bytes option" where
  "rb_get ring_buf dst offset n =
     (case (ring_buf, dst) of
        (Some rb, Some d) \<Rightarrow>
          (let out = (out_pos rb + offset) AND (rb_size rb - 1);
               sz = min n (in_pos rb - out);
               off = out AND (rb_size rb - 1);
               len = min sz (rb_size rb - off);
               d = blit d 0 (take (unat len) (drop (unat off) (buffer rb)));
               d = blit d (unat len) (take (unat (sz - len)) (buffer rb))
           in (sint sz, Some d))
      | _ \<Rightarrow> (-1, dst))"

definition rb_in :: "ring_buffer option \<Rightarrow> bytes option \<Rightarrow> u32 \<Rightarrow> int \<times> ring_buffer option" where
  "rb_in ring_buf src n =
     (case (ring_buf, src) of
        (Some rb, Some d) \<Rightarrow>
          (let sz = min n (rb_size rb - in_pos rb + out_pos rb);
               off = in_pos rb AND (rb_size rb - 1);
               len = min sz (rb_size rb - off);
               buf = blit (buffer rb) (unat off) (take (unat len) d);
               buf = blit buf 0 (take (unat (sz - len)) (drop (unat len) d))
           in (sint sz, Some (rb\<lparr>buffer := buf, in_pos := in_pos rb + sz\<rparr>)))
      | _ \<Rightarrow> (-1, ring_buf))"

text \<open>\<open>rb_clean\<close> asserts that its argument is not \<open>NULL\<close>, so its model takes the ring itself.\<close>

definition rb_clean :: "ring_buffer \<Rightarrow> ring_buffer" where
  "rb_clean rb = rb\<lparr>buffer := replicate (unat (rb_size rb)) 0, in_pos := 0, out_pos := 0\<rparr>"

section \<open>Well-formed rings and the queue they stand for\<close>

definition rb_wf :: "ring_buffer \<Rightarrow> bool" where
  "rb_wf rb \<longleftrightarrow> is_power_of_2 (rb_size rb) \<and> length (buffer rb) = unat (rb_size rb)
     \<and> rb_used_len rb \<le> rb_size rb"

definition rb_list :: "ring_buffer \<Rightarrow> bytes" where
  "rb_list rb = circ_read (buffer rb) (unat (out_pos rb)) (unat (rb_used_len rb))"

lemma length_rb_list [simp]: "length (rb_list rb) = unat (rb_used_len rb)"
  by (simp add: rb_list_def)

lemma rb_wf_size:
  assumes "rb_wf rb"
  shows "0 < unat (rb_size rb)" and "length (buffer rb) = unat (rb_size rb)" and "buffer rb \<noteq> []"
    and "unat (rb_used_len rb) \<le> unat (rb_size rb)"
proof -
  show "0 < unat (rb_size rb)" and l: "length (buffer rb) = unat (rb_size rb)"
    using assms by (auto simp: rb_wf_def is_power_of_2_def unat_gt_0)
  then show "buffer rb \<noteq> []" by auto
  show "unat (rb_used_len rb) \<le> unat (rb_size rb)"
    using assms by (simp add: rb_wf_def word_le_nat_alt)
qed

lemma power_of_2_mask:
  assumes "is_power_of_2 s"
  shows "unat (x AND (s - 1)) = unat x mod unat s"
proof -
  obtain k where "k < 32" "s = 2 ^ k" "unat s = 2 ^ k"
    using assms power_of_2_word by (auto simp: is_power_of_2_def)
  then show ?thesis using unat_and_pred_power_of_2 [of k x] by simp
qed

lemma power_of_2_mod_add:
  fixes x y :: u32
  assumes "is_power_of_2 s"
  shows "unat (x + y) mod unat s = (unat x + unat y) mod unat s"
proof -
  obtain k where "k < 32" "s = 2 ^ k" "unat s = 2 ^ k"
    using assms power_of_2_word by (auto simp: is_power_of_2_def)
  then show ?thesis using mod_add_wrap [of k x y] by simp
qed

lemma rb_in_pos_mod:
  assumes "rb_wf rb"
  shows "unat (in_pos rb) mod length (buffer rb) =
    (unat (out_pos rb) + unat (rb_used_len rb)) mod length (buffer rb)"
proof -
  have "in_pos rb = out_pos rb + rb_used_len rb" by (simp add: rb_used_len_def)
  then show ?thesis
    using assms power_of_2_mod_add [of "rb_size rb" "out_pos rb" "rb_used_len rb"] rb_wf_size(2)
    by (simp add: rb_wf_def)
qed

lemma unat_rb_unused:
  assumes "rb_wf rb"
  shows "unat (rb_unused_len rb) = unat (rb_size rb) - unat (rb_used_len rb)"
proof -
  have "rb_unused_len rb = rb_size rb - rb_used_len rb"
    by (simp add: rb_unused_len_def rb_used_len_def)
  then show ?thesis using rb_wf_size(4) [OF assms] by (simp add: unat_sub word_le_nat_alt)
qed

section \<open>Writing and reading refine the queue\<close>

lemma circ_write_cong:
  "p mod length buf = q mod length buf \<Longrightarrow> circ_write buf p src = circ_write buf q src"
  by (simp add: circ_write_def)

lemma rb_in_buffer:
  assumes wf: "rb_wf rb" and n: "unat n \<le> length d" and s: "s = min n (rb_unused_len rb)"
  shows "rb_in (Some rb) (Some d) n = (sint s, Some (rb\<lparr>
     buffer := circ_write (buffer rb) (unat (in_pos rb)) (take (unat s) d),
     in_pos := in_pos rb + s\<rparr>))"
proof -
  let ?off = "in_pos rb AND (rb_size rb - 1)"
  let ?len = "min s (rb_size rb - ?off)"
  note sz = rb_wf_size [OF wf]
  have off: "unat ?off = unat (in_pos rb) mod length (buffer rb)"
    using wf sz(2) by (simp add: rb_wf_def power_of_2_mask)
  have off_lt: "unat ?off < unat (rb_size rb)" unfolding off using sz by simp
  then have "?off \<le> rb_size rb" by (simp add: word_le_nat_alt)
  then have len: "unat ?len = min (unat s) (length (buffer rb) - unat (in_pos rb) mod length (buffer rb))"
    using off sz(2) by (simp add: unat_sub min_def word_le_nat_alt)
  have sn: "unat s \<le> length d" using n s by (simp add: min_def word_le_nat_alt split: if_splits)
  have "?len \<le> s" by simp
  then have diff: "unat (s - ?len) = unat s - unat ?len" by (simp add: unat_sub)
  have "take (unat (s - ?len)) (drop (unat ?len) d) = drop (unat ?len) (take (unat s) d)"
    by (simp add: diff drop_take)
  moreover have "take (unat ?len) d = take (unat ?len) (take (unat s) d)"
    using len by (simp add: min_def)
  moreover have "length (take (unat s) d) = unat s" using sn by simp
  ultimately have "blit (blit (buffer rb) (unat ?off) (take (unat ?len) d)) 0
      (take (unat (s - ?len)) (drop (unat ?len) d))
    = circ_write (buffer rb) (unat (in_pos rb)) (take (unat s) d)"
    using len off by (simp add: circ_write_def Let_def)
  moreover have "s = min n (rb_size rb - in_pos rb + out_pos rb)"
    using s by (simp add: rb_unused_len_def)
  ultimately show ?thesis by (simp add: rb_in_def Let_def)
qed

lemma rb_in_refines:
  assumes wf: "rb_wf rb" and n: "unat n \<le> length d" and s: "s = min n (rb_unused_len rb)"
  shows "\<exists>rb'. rb_in (Some rb) (Some d) n = (sint s, Some rb') \<and> rb_wf rb' \<and> rb_size rb' = rb_size rb
     \<and> out_pos rb' = out_pos rb \<and> rb_list rb' = rb_list rb @ take (unat s) d"
proof -
  let ?src = "take (unat s) d"
  let ?rb = "rb\<lparr>buffer := circ_write (buffer rb) (unat (in_pos rb)) ?src, in_pos := in_pos rb + s\<rparr>"
  note sz = rb_wf_size [OF wf]
  have sn: "unat s \<le> length d" "unat s \<le> unat (rb_unused_len rb)"
    using n s by (simp_all add: min_def word_le_nat_alt split: if_splits)
  have room: "unat (rb_used_len rb) + unat s \<le> unat (rb_size rb)"
    using sn(2) unat_rb_unused [OF wf] sz(4) by simp
  then have used: "unat (rb_used_len rb + s) = unat (rb_used_len rb) + unat s"
    using unat_lt_32 [of "rb_size rb"] by (simp add: unat_word_ariths)
  have used': "rb_used_len (rb\<lparr>buffer := b, in_pos := in_pos rb + s\<rparr>) = rb_used_len rb + s" for b
    by (simp add: rb_used_len_def)
  have fits: "unat (rb_used_len rb) + length ?src \<le> length (buffer rb)"
    using room sn(1) sz(2) by simp
  have "length ?src \<le> length (buffer rb)" using fits by simp
  then have "rb_wf ?rb"
    using wf room used sz(2) by (simp add: rb_wf_def used' word_le_nat_alt)
  moreover have "rb_list ?rb = rb_list rb @ ?src"
  proof -
    have "circ_write (buffer rb) (unat (in_pos rb)) ?src =
        circ_write (buffer rb) (unat (out_pos rb) + unat (rb_used_len rb)) ?src"
      by (rule circ_write_cong) (rule rb_in_pos_mod [OF wf])
    with circ_read_write [OF fits, of "unat (out_pos rb)"] show ?thesis
      using sn(1) used by (simp add: rb_list_def used')
  qed
  ultimately show ?thesis using rb_in_buffer [OF wf n s] by auto
qed

text \<open>The two copies out of the ring, for \<open>rb_out\<close> and \<open>rb_get\<close> alike.\<close>

lemma ring_copy_out:
  fixes p :: u32
  assumes wf: "rb_wf rb" and n: "unat s \<le> unat (rb_size rb)" "unat s \<le> length d"
  defines "off \<equiv> p AND (rb_size rb - 1)"
  defines "len \<equiv> min s (rb_size rb - off)"
  shows "blit (blit d 0 (take (unat len) (drop (unat off) (buffer rb)))) (unat len)
            (take (unat (s - len)) (buffer rb))
       = circ_read (buffer rb) (unat p) (unat s) @ drop (unat s) d"
proof -
  note sz = rb_wf_size [OF wf]
  have off: "unat off = unat p mod length (buffer rb)"
    unfolding off_def using wf sz(2) by (simp add: rb_wf_def power_of_2_mask)
  have off_lt: "unat off < unat (rb_size rb)" unfolding off using sz by simp
  then have "off \<le> rb_size rb" by (simp add: word_le_nat_alt)
  then have len: "unat len = min (unat s) (length (buffer rb) - unat off)"
    unfolding len_def using sz(2) by (simp add: unat_sub min_def word_le_nat_alt)
  have "len \<le> s" unfolding len_def by simp
  then have diff: "unat (s - len) = unat s - unat len" and ls: "unat len \<le> unat s"
    by (simp_all add: unat_sub word_le_nat_alt)
  let ?a = "take (unat len) (drop (unat off) (buffer rb))"
  let ?b = "take (unat s - unat len) (buffer rb)"
  have la: "length ?a = unat len" using len by (simp add: min_def)
  have lb: "length ?b = unat s - unat len" using n(1) sz(2) by simp
  have "blit (blit d 0 ?a) (unat len) ?b = ?a @ ?b @ drop (unat s) d"
    using la lb ls n(2) by (simp add: blit_def)
  moreover have "?a @ ?b = circ_read (buffer rb) (unat p) (unat s)"
    unfolding len off using n(1) sz by (intro circ_read_chunks) auto
  ultimately show ?thesis by (simp add: diff flip: append_assoc)
qed

lemma rb_out_refines:
  assumes wf: "rb_wf rb" and s: "s = min n (rb_used_len rb)" and d: "unat s \<le> length d"
  shows "\<exists>rb'. rb_out (Some rb) (Some d) n =
      (sint s, Some rb', Some (take (unat s) (rb_list rb) @ drop (unat s) d))
     \<and> rb_wf rb' \<and> rb_size rb' = rb_size rb \<and> rb_list rb' = drop (unat s) (rb_list rb)"
proof -
  note sz = rb_wf_size [OF wf]
  have su: "unat s \<le> unat (rb_used_len rb)" using s by (simp add: min_def word_le_nat_alt)
  let ?rb = "rb\<lparr>out_pos := out_pos rb + s\<rparr>"
  let ?rb' = "if in_pos ?rb = out_pos ?rb then ?rb\<lparr>in_pos := 0, out_pos := 0\<rparr> else ?rb"
  have used: "rb_used_len ?rb = rb_used_len rb - s" by (simp add: rb_used_len_def)
  have uused: "unat (rb_used_len rb - s) = unat (rb_used_len rb) - unat s"
    using su by (simp add: unat_sub word_le_nat_alt)
  have wf': "rb_wf ?rb" using wf sz uused by (simp add: rb_wf_def used word_le_nat_alt)
  have "circ_read (buffer rb) (unat (out_pos rb + s)) k = circ_read (buffer rb) (unat (out_pos rb) + unat s) k" for k
    using wf sz(2) by (intro circ_read_cong) (simp add: rb_wf_def power_of_2_mod_add)
  then have lst: "rb_list ?rb = drop (unat s) (rb_list rb)"
    using su uused by (simp add: rb_list_def used drop_circ_read)
  have "rb_wf ?rb'" "rb_list ?rb' = rb_list ?rb" "rb_size ?rb' = rb_size rb"
    using wf' by (auto simp: rb_wf_def rb_used_len_def rb_list_def circ_read_def)
  moreover have "rb_out (Some rb) (Some d) n = (sint s, Some ?rb',
      Some (circ_read (buffer rb) (unat (out_pos rb)) (unat s) @ drop (unat s) d))"
    using ring_copy_out [OF wf _ d, of "out_pos rb"] su sz(4) s
    by (simp add: rb_out_def Let_def rb_used_len_def)
  ultimately show ?thesis using lst su by (auto simp: rb_list_def take_circ_read)
qed

text \<open>
  \<open>rb_get\<close> masks the read position before it computes how much is left (\<open>in - out\<close> with
  the masked \<open>out\<close>), so it peeks correctly only in a ring that was never read from.
\<close>

lemma rb_get_fresh:
  assumes wf: "rb_wf rb" and fresh: "out_pos rb = 0" and ofs: "unat ofs < unat (rb_used_len rb)"
    and s: "s = min n (rb_used_len rb - ofs)" and d: "unat s \<le> length d"
  shows "rb_get (Some rb) (Some d) ofs n =
    (sint s, Some (take (unat n) (drop (unat ofs) (rb_list rb)) @ drop (unat s) d))"
proof -
  note sz = rb_wf_size [OF wf]
  have used: "rb_used_len rb = in_pos rb" using fresh by (simp add: rb_used_len_def)
  have "unat (ofs AND (rb_size rb - 1)) = unat ofs"
    using wf ofs sz(4) by (simp add: rb_wf_def power_of_2_mask)
  then have ofs_eq: "ofs AND (rb_size rb - 1) = ofs" by (rule unsigned_word_eqI)
  have uu: "unat (rb_used_len rb - ofs) = unat (rb_used_len rb) - unat ofs"
    using ofs by (simp add: unat_sub word_le_nat_alt)
  have us: "unat s = min (unat n) (unat (rb_used_len rb) - unat ofs)"
    using s uu by (simp add: min_def word_le_nat_alt)
  have "circ_read (buffer rb) (unat ofs) (unat s) = take (unat n) (drop (unat ofs) (rb_list rb))"
    using ofs by (simp add: rb_list_def fresh drop_circ_read us take_circ_read min_def not_le
        flip: take_circ_read)
  then show ?thesis
    using ring_copy_out [OF wf _ d, of ofs] us sz(4) s
    by (simp add: rb_get_def Let_def fresh ofs_eq used)
qed

lemma rb_init_wf:
  assumes "is_power_of_2 n" and "length b = unat n"
  shows "\<exists>rb'. rb_init rb b n = (0, rb') \<and> rb_wf rb' \<and> rb_size rb' = n \<and> rb_list rb' = [] \<and> out_pos rb' = 0"
  using assms by (simp add: rb_init_def rb_wf_def rb_used_len_def rb_list_def circ_read_def)

lemma rb_clean_wf:
  assumes "rb_wf rb"
  shows "rb_wf (rb_clean rb)" and "rb_list (rb_clean rb) = []" and "rb_size (rb_clean rb) = rb_size rb"
    and "out_pos (rb_clean rb) = 0" and "rb_unused_len (rb_clean rb) = rb_size rb"
  using assms
  by (simp_all add: rb_clean_def rb_wf_def rb_used_len_def rb_unused_len_def rb_list_def circ_read_def)

section \<open>The contract of a byte queue\<close>

datatype 'a fifo_op = Put "'a list" | Get nat

fun op_small :: "nat \<Rightarrow> 'a fifo_op \<Rightarrow> bool" where
  "op_small lim (Put xs) \<longleftrightarrow> length xs < lim"
| "op_small lim (Get n) \<longleftrightarrow> n < lim"

text \<open>A run returns what was accepted, what came out, and the final state.\<close>

fun fifo_run ::
  "('q \<Rightarrow> 'a list \<Rightarrow> nat \<times> 'q) \<Rightarrow> ('q \<Rightarrow> nat \<Rightarrow> 'a list \<times> 'q) \<Rightarrow> 'q \<Rightarrow> 'a fifo_op list \<Rightarrow> 'a list \<times> 'a list \<times> 'q"
where
  "fifo_run put get q [] = ([], [], q)"
| "fifo_run put get q (Put xs # ops) =
     (case put q xs of (n, q') \<Rightarrow>
        case fifo_run put get q' ops of (acc, out, q'') \<Rightarrow> (take n xs @ acc, out, q''))"
| "fifo_run put get q (Get n # ops) =
     (case get q n of (xs, q') \<Rightarrow>
        case fifo_run put get q' ops of (acc, out, q'') \<Rightarrow> (acc, xs @ out, q''))"

locale byte_fifo =
  fixes put :: "'q \<Rightarrow> 'a list \<Rightarrow> nat \<times> 'q"
    and get :: "'q \<Rightarrow> nat \<Rightarrow> 'a list \<times> 'q"
    and content :: "'q \<Rightarrow> 'a list"
    and cap :: "'q \<Rightarrow> nat"
    and inv :: "'q \<Rightarrow> bool"
    and lim :: nat
  assumes put_law: "inv q \<Longrightarrow> length xs < lim \<Longrightarrow> put q xs = (n, q') \<Longrightarrow>
      inv q' \<and> cap q' = cap q \<and> n = min (length xs) (cap q - length (content q))
      \<and> content q' = content q @ take n xs"
    and get_law: "inv q \<Longrightarrow> k < lim \<Longrightarrow> get q k = (xs, q') \<Longrightarrow>
      inv q' \<and> cap q' = cap q \<and> xs = take k (content q) \<and> content q' = drop k (content q)"
    and cap_law: "inv q \<Longrightarrow> length (content q) \<le> cap q"
begin

lemma run_order:
  "inv q \<Longrightarrow> \<forall>p\<in>set ops. op_small lim p \<Longrightarrow> fifo_run put get q ops = (acc, out, q') \<Longrightarrow>
   inv q' \<and> cap q' = cap q \<and> content q @ acc = out @ content q'"
proof (induction ops arbitrary: q acc out q')
  case Nil
  then show ?case by simp
next
  case (Cons p ops)
  show ?case
  proof (cases p)
    case (Put xs)
    obtain n q1 where 1: "put q xs = (n, q1)" by force
    obtain acc1 out1 q2 where 2: "fifo_run put get q1 ops = (acc1, out1, q2)" by (metis prod_cases3)
    from put_law [OF Cons.prems(1) _ 1] Cons.prems(2) Put
    have q1: "inv q1" "cap q1 = cap q" "content q1 = content q @ take n xs" by auto
    from Cons.IH [OF q1(1) _ 2] Cons.prems(2) q1(2,3) Cons.prems(3) Put 1 2 show ?thesis by auto
  next
    case (Get k)
    obtain xs q1 where 1: "get q k = (xs, q1)" by force
    obtain acc1 out1 q2 where 2: "fifo_run put get q1 ops = (acc1, out1, q2)" by (metis prod_cases3)
    from get_law [OF Cons.prems(1) _ 1] Cons.prems(2) Get
    have q1: "inv q1" "cap q1 = cap q" "content q = xs @ content q1" by auto
    from Cons.IH [OF q1(1) _ 2] Cons.prems(2) q1(2,3) Cons.prems(3) Get 1 2 show ?thesis by auto
  qed
qed

lemma run_bounded:
  assumes "inv q" "\<forall>p\<in>set ops. op_small lim p" "fifo_run put get q ops = (acc, out, q')"
  shows "length (content q') \<le> cap q"
  using run_order [OF assms] cap_law by metis

text \<open>Everything that fits comes back in order: a put of at most the free space, then a get of as much.\<close>

lemma put_then_drain:
  assumes "inv q" "length (content q) + length xs \<le> cap q" "cap q < lim"
    and "put q xs = (n, q1)" and "get q1 (length (content q) + length xs) = (ys, q2)"
  shows "ys = content q @ xs \<and> content q2 = []"
proof -
  from put_law [OF assms(1) _ assms(4)] assms(2,3)
  have 1: "inv q1" "content q1 = content q @ xs" by auto
  from get_law [OF 1(1) _ assms(5)] 1(2) assms(2,3) show ?thesis by simp
qed

end

text \<open>The ring of the code provides the contract, for rings of less than 2 GB.\<close>

definition rb_put :: "ring_buffer \<Rightarrow> bytes \<Rightarrow> nat \<times> ring_buffer" where
  "rb_put rb xs =
     (case rb_in (Some rb) (Some xs) (of_nat (length xs)) of
        (r, Some rb') \<Rightarrow> (nat r, rb') | (_, None) \<Rightarrow> (0, rb))"

definition rb_take :: "ring_buffer \<Rightarrow> nat \<Rightarrow> bytes \<times> ring_buffer" where
  "rb_take rb k =
     (case rb_out (Some rb) (Some (replicate k 0)) (of_nat k) of
        (r, Some rb', Some d) \<Rightarrow> (take (nat r) d, rb') | _ \<Rightarrow> ([], rb))"

definition rb_ok :: "ring_buffer \<Rightarrow> bool" where
  "rb_ok rb \<longleftrightarrow> rb_wf rb \<and> unat (rb_size rb) < 2147483648"

lemma unat_of_nat_32: "n < 4294967296 \<Longrightarrow> unat (of_nat n :: u32) = n"
  by (simp add: unat_of_nat)

lemma rb_put_law:
  assumes "rb_ok rb" and "length xs < 4294967296" and "rb_put rb xs = (n, rb')"
  shows "rb_ok rb' \<and> unat (rb_size rb') = unat (rb_size rb)
    \<and> n = min (length xs) (unat (rb_size rb) - length (rb_list rb)) \<and> rb_list rb' = rb_list rb @ take n xs"
proof -
  let ?s = "min (of_nat (length xs)) (rb_unused_len rb)"
  from assms(1) have wf: "rb_wf rb" by (simp add: rb_ok_def)
  have l: "unat (of_nat (length xs) :: u32) = length xs" using assms(2) by (rule unat_of_nat_32)
  have s: "unat ?s = min (length xs) (unat (rb_size rb) - length (rb_list rb))"
    using unat_rb_unused [OF wf] l by (simp add: min_def word_le_nat_alt)
  moreover have "unat ?s < 2147483648" using s assms(1) by (auto simp: rb_ok_def min_less_iff_disj)
  ultimately have "nat (sint ?s) = min (length xs) (unat (rb_size rb) - length (rb_list rb))"
    by (simp add: sint_nonneg_32)
  moreover from rb_in_refines [OF wf, of "of_nat (length xs)" xs ?s] l
  obtain rb1 where rb1: "rb_in (Some rb) (Some xs) (of_nat (length xs)) = (sint ?s, Some rb1)"
    "rb_wf rb1" "rb_size rb1 = rb_size rb" "rb_list rb1 = rb_list rb @ take (unat ?s) xs" by auto
  ultimately have "n = min (length xs) (unat (rb_size rb) - length (rb_list rb)) \<and> rb' = rb1"
    using assms(3) by (simp add: rb_put_def)
  with rb1 s assms(1) show ?thesis by (simp add: rb_ok_def)
qed

lemma rb_take_law:
  assumes "rb_ok rb" and "k < 4294967296" and "rb_take rb k = (xs, rb')"
  shows "rb_ok rb' \<and> unat (rb_size rb') = unat (rb_size rb) \<and> xs = take k (rb_list rb)
    \<and> rb_list rb' = drop k (rb_list rb)"
proof -
  let ?s = "min (of_nat k) (rb_used_len rb)"
  from assms(1) have wf: "rb_wf rb" by (simp add: rb_ok_def)
  have l: "unat (of_nat k :: u32) = k" using assms(2) by (rule unat_of_nat_32)
  have s: "unat ?s = min k (length (rb_list rb))" using l by (simp add: min_def word_le_nat_alt)
  have "unat ?s < 2147483648"
    using s rb_wf_size(4) [OF wf] assms(1) by (auto simp: rb_ok_def min_less_iff_disj)
  then have r: "nat (sint ?s) = unat ?s" by (simp add: sint_nonneg_32)
  from rb_out_refines [OF wf, of ?s "of_nat k" "replicate k 0"] s
  obtain rb1 where rb1: "rb_out (Some rb) (Some (replicate k 0)) (of_nat k) =
      (sint ?s, Some rb1, Some (take (unat ?s) (rb_list rb) @ drop (unat ?s) (replicate k 0)))"
    "rb_wf rb1" "rb_size rb1 = rb_size rb" "rb_list rb1 = drop (unat ?s) (rb_list rb)" by auto
  have "xs = take (unat ?s) (rb_list rb)" "rb' = rb1"
    using assms(3) rb1(1) r s by (simp_all add: rb_take_def)
  moreover have "take (unat ?s) (rb_list rb) = take k (rb_list rb)"
    "drop (unat ?s) (rb_list rb) = drop k (rb_list rb)"
    unfolding s by (simp_all add: min_def)
  ultimately show ?thesis using rb1 assms(1) by (simp add: rb_ok_def)
qed

interpretation ring: byte_fifo rb_put rb_take rb_list "\<lambda>rb. unat (rb_size rb)" rb_ok 4294967296
proof (unfold_locales, goal_cases)
  case (1 q xs n q')
  then show ?case by (rule rb_put_law)
next
  case (2 q k xs q')
  then show ?case by (rule rb_take_law)
next
  case (3 q)
  then show ?case using rb_wf_size(4) by (simp add: rb_ok_def)
qed

section \<open>Properties\<close>

definition demo_rb :: ring_buffer where
  "demo_rb = \<lparr>buffer = [0, 0, 0, 0], rb_size = 4, in_pos = 0, out_pos = 0\<rparr>"

lemma demo_rb_ok: "rb_ok demo_rb"
  by (simp add: rb_ok_def rb_wf_def demo_rb_def is_power_of_2_def rb_used_len_def)

text \<open>C26: Over any sequence of writes and reads the ring is a byte queue: what was accepted comes out in the
  order it went in, nothing is lost or invented, and the ring never holds more than its size.\<close>

theorem ring_buffer_is_fifo:
  assumes "rb_ok rb" "\<forall>p\<in>set ops. op_small 4294967296 p" "fifo_run rb_put rb_take rb ops = (acc, out, rb')"
  shows "rb_list rb @ acc = out @ rb_list rb' \<and> length (rb_list rb') \<le> unat (rb_size rb) \<and> rb_ok rb'"
  using ring.run_order [OF assms] ring.run_bounded [OF assms] by blast

theorem ring_buffer_is_fifo_witness:
  "\<exists>acc out rb'. fifo_run rb_put rb_take demo_rb [Put [1, 2, 3], Get 2, Put [4, 5, 6], Get 9] = (acc, out, rb')
    \<and> acc = out @ rb_list rb'"
proof -
  obtain acc out rb' where f:
    "fifo_run rb_put rb_take demo_rb [Put [1, 2, 3], Get 2, Put [4, 5, 6], Get 9] = (acc, out, rb')"
    by (metis prod_cases3)
  have "rb_list demo_rb = []" by (simp add: rb_list_def demo_rb_def rb_used_len_def circ_read_def)
  with ring_buffer_is_fifo [OF demo_rb_ok _ f] f show ?thesis by simp
qed

text \<open>\<open>rb_get\<close> masks the read position before it computes what is left, so on a ring whose read position
  has passed its size it returns as many bytes as asked for, up to the whole ring, whatever is stored.\<close>

lemma rb_get_overreads:
  assumes "rb_wf rb" "unat (rb_size rb) \<le> unat (out_pos rb)" "unat (out_pos rb) \<le> unat (in_pos rb)"
    and "unat (rb_size rb) < 2147483648" "n \<le> rb_size rb - (out_pos rb AND (rb_size rb - 1))"
  shows "fst (rb_get (Some rb) (Some d) 0 n) = int (unat n)"
proof -
  let ?o = "out_pos rb AND (rb_size rb - 1)"
  note sz = rb_wf_size [OF assms(1)]
  have o: "unat ?o = unat (out_pos rb) mod unat (rb_size rb)"
    using assms(1) by (simp add: rb_wf_def power_of_2_mask)
  then have ol: "unat ?o < unat (rb_size rb)" using sz by simp
  then have "?o \<le> in_pos rb" using assms(2,3) by (simp add: word_le_nat_alt)
  then have "unat (in_pos rb - ?o) = unat (in_pos rb) - unat ?o" by (simp add: unat_sub)
  moreover have "unat (rb_size rb - ?o) = unat (rb_size rb) - unat ?o"
    using ol by (simp add: unat_sub word_le_nat_alt)
  ultimately have "n \<le> in_pos rb - ?o" "unat n \<le> unat (rb_size rb)"
    using assms(2,3,5) by (simp_all add: word_le_nat_alt)
  then have "min n (in_pos rb - ?o) = n" "sint n = int (unat n)"
    using assms(4) by (simp_all add: min_def sint_nonneg_32)
  then show ?thesis by (simp add: rb_get_def Let_def)
qed

lemma rb_get_overreads_witness:
  "fst (rb_get (Some (demo_rb\<lparr>in_pos := 5, out_pos := 4\<rparr>)) (Some [0, 0, 0, 0]) 0 4) = 4
   \<and> length (rb_list (demo_rb\<lparr>in_pos := 5, out_pos := 4\<rparr>)) = 1"
proof -
  have "rb_wf (demo_rb\<lparr>in_pos := 5, out_pos := 4\<rparr>)"
    by (simp add: rb_wf_def demo_rb_def is_power_of_2_def rb_used_len_def)
  from rb_get_overreads [OF this, of 4 "[0, 0, 0, 0]"] show ?thesis
    by (simp add: demo_rb_def rb_used_len_def)
qed

end
