(* ===== verification/MsgParse.thy ===== *)
theory MsgParse
  imports Prelude
begin

text \<open>
  \<^verbatim>\<open>mid/msg/msg_parse.c\<close> and the inline checksum of \<^verbatim>\<open>include/msg_parse.h\<close>: frames of the
  serial link to the MCU. A frame is \<open>7E\<close>, the escaped message, its escaped XOR checksum,
  \<open>7E\<close>. An \<open>int\<close> result where \<open>-1\<close> is failure is an option; the bytes written through
  \<open>omsg\<close> are part of the result (a failed call leaves a partial frame there that no
  caller reads). \<open>msg_decodex\<close> is modelled with the positions of the code over the receive
  buffer, including the in-place unescaping; the bytes handed to the callback are
  collected in order.
\<close>

section \<open>Escaping\<close>

definition DCCP_PKG_MARKER :: u8 where "DCCP_PKG_MARKER = 0x7E"
definition DCCP_PKG_ESC :: u8 where "DCCP_PKG_ESC = 0x7D"

datatype MSG_SEG = FIRST_SEG | MIDDLE_SEG | LAST_SEG

text \<open>\<open>room\<close> is what is left of \<open>dst_len\<close>, a signed \<open>int\<close> that may be negative.\<close>

fun msg_convert :: "bytes \<Rightarrow> int \<Rightarrow> u8 \<Rightarrow> u8 \<Rightarrow> bytes option" where
  "msg_convert [] room marker esc = Some []"
| "msg_convert (x # xs) room marker esc =
     (if room \<le> 0 then None
      else if x = marker then
        (if 1 < room then map_option (\<lambda>r. esc # 0x02 # r) (msg_convert xs (room - 2) marker esc)
         else None)
      else if x = esc then
        (if 1 < room then map_option (\<lambda>r. esc # 0x01 # r) (msg_convert xs (room - 2) marker esc)
         else None)
      else map_option (\<lambda>r. x # r) (msg_convert xs (room - 1) marker esc))"

text \<open>
  \<open>msg_reverse\<close> unescapes in place: the result is what it wrote over the front of the
  buffer and whether it succeeded. After an escape byte at the very end the code looks at
  the byte behind the buffer, \<open>nxt\<close> here.
\<close>

fun msg_reverse :: "bytes \<Rightarrow> u8 \<Rightarrow> u8 \<Rightarrow> u8 \<Rightarrow> bool \<times> bytes" where
  "msg_reverse [] nxt marker esc = (True, [])"
| "msg_reverse [x] nxt marker esc =
     (if x \<noteq> esc then (True, [x])
      else if nxt = 0x01 then (True, [esc])
      else if nxt = 0x02 then (True, [marker])
      else (False, []))"
| "msg_reverse (x # y # xs) nxt marker esc =
     (if x \<noteq> esc then (case msg_reverse (y # xs) nxt marker esc of (ok, r) \<Rightarrow> (ok, x # r))
      else if y = 0x01 then (case msg_reverse xs nxt marker esc of (ok, r) \<Rightarrow> (ok, esc # r))
      else if y = 0x02 then (case msg_reverse xs nxt marker esc of (ok, r) \<Rightarrow> (ok, marker # r))
      else (False, []))"

text \<open>\<open>msg_checksum(buf, len, cs)\<close>; for an empty buffer the result is \<open>0\<close>, whatever \<open>cs\<close> is.\<close>

definition msg_checksum :: "bytes \<Rightarrow> u8 \<Rightarrow> u8" where
  "msg_checksum buf cs = (if buf = [] then 0 else fold (\<lambda>b c. c XOR b) buf cs)"

text \<open>
  \<open>msg_check\<close>: unescape, then compare the last byte with the checksum of the others.
  The result carries the unescaped bytes (what the buffer now starts with). \<open>msg_reverse\<close>
  refuses an empty buffer.
\<close>

definition msg_check :: "bytes \<Rightarrow> u8 \<Rightarrow> bool \<times> bytes" where
  "msg_check buf nxt =
     (if buf = [] then (False, [])
      else case msg_reverse buf nxt DCCP_PKG_MARKER DCCP_PKG_ESC of
        (False, w) \<Rightarrow> (False, w)
      | (True, w) \<Rightarrow>
          (if length w < 1 then (False, w)
           else if msg_checksum (butlast w) 0 \<noteq> last w then (False, w)
           else (True, w)))"

fun msg_find_dccp :: "bytes \<Rightarrow> nat option" where
  "msg_find_dccp [] = None"
| "msg_find_dccp (x # xs) =
     (if x = DCCP_PKG_MARKER then Some 0 else map_option Suc (msg_find_dccp xs))"

text \<open>
  \<open>msg_encode\<close>: the result is the bytes appended at \<open>omsg\<close> and the running checksum.
  \<open>imsg = None\<close> is a \<open>NULL\<close> message; \<open>olen\<close> is the room left in the output buffer.
\<close>

definition msg_encode :: "bytes option \<Rightarrow> int \<Rightarrow> MSG_SEG \<Rightarrow> u8 \<Rightarrow> (bytes \<times> u8) option" where
  "msg_encode imsg olen flag base_cs =
     (let base_cs = (if flag = FIRST_SEG then 0 else base_cs);
          hd = (if flag = FIRST_SEG then [DCCP_PKG_MARKER] else []);
          body = (case imsg of
                    Some m \<Rightarrow>
                      if 0 < length m then
                        map_option (\<lambda>e. (e, msg_checksum m base_cs))
                          (msg_convert m (olen - int (length hd)) DCCP_PKG_MARKER DCCP_PKG_ESC)
                      else Some ([], base_cs)
                  | None \<Rightarrow> Some ([], base_cs))
      in case body of
           None \<Rightarrow> None
         | Some (e, cs) \<Rightarrow>
             (if flag = LAST_SEG then
                (case msg_convert [cs] (olen - int (length hd + length e) - 1) DCCP_PKG_MARKER DCCP_PKG_ESC of
                   None \<Rightarrow> None
                 | Some c \<Rightarrow> Some (hd @ e @ c @ [DCCP_PKG_MARKER], cs))
              else Some (hd @ e, cs)))"

section \<open>Decoding the receive buffer\<close>

record MSG_RX =
  rx_used :: nat
  rx_size :: int
  rx_data :: bytes

lemma msg_find_dccp_less: "msg_find_dccp xs = Some i \<Longrightarrow> i < length xs"
  by (induction xs arbitrary: i) (auto split: if_splits)

text \<open>
  The loop of \<open>msg_decodex\<close>: \<open>r\<close> is \<open>r_pos\<close>, \<open>start\<close> is \<open>start_pos\<close> (\<open>None\<close> for \<open>-1\<close>),
  \<open>out\<close> the messages already delivered.
\<close>

function msg_decodex_loop ::
  "nat \<Rightarrow> bytes \<Rightarrow> nat \<Rightarrow> nat option \<Rightarrow> bytes list \<Rightarrow> bytes \<times> nat \<times> nat option \<times> bytes list" where
  "msg_decodex_loop used data r start out =
     (if r < used then
        (case msg_find_dccp (take (used - r) (drop r data)) of
           None \<Rightarrow> msg_decodex_loop used data used start out
         | Some i \<Rightarrow>
             (case start of
                None \<Rightarrow> msg_decodex_loop used data (r + i + 1) (Some (r + i)) out
              | Some st \<Rightarrow>
                  (let end_pos = r + i; len = int end_pos - int st - 1 in
                   if len \<le> 0 then msg_decodex_loop used data (end_pos + 1) (Some end_pos) out
                   else
                     (case msg_check (take (nat len) (drop (st + 1) data)) (data ! end_pos) of
                        (False, w) \<Rightarrow>
                          msg_decodex_loop used (blit data (st + 1) w) (end_pos + 1) (Some end_pos) out
                      | (True, w) \<Rightarrow>
                          msg_decodex_loop used (blit data (st + 1) w) (end_pos + 1) None
                            (out @ [butlast w])))))
      else (data, r, start, out))"
  by pat_completeness auto

termination
  by (relation "measure (\<lambda>(used, data, r, start, out). used - r)") auto

declare msg_decodex_loop.simps [simp del]

definition msg_decodex :: "MSG_RX \<Rightarrow> MSG_RX \<times> bytes list" where
  "msg_decodex rx =
     (case msg_decodex_loop (rx_used rx) (rx_data rx) 0 None [] of
        (data, r, start, out) \<Rightarrow>
          (case start of
             None \<Rightarrow> (rx\<lparr>rx_data := data, rx_used := 0\<rparr>, out)
           | Some st \<Rightarrow>
               (if rx_size rx - 16 \<le> int r - int st then (rx\<lparr>rx_data := data, rx_used := 0\<rparr>, out)
                else let len = rx_used rx - st
                     in (rx\<lparr>rx_data := (if st = 0 then data else blit data 0 (take len (drop st data))),
                            rx_used := len\<rparr>, out))))"

section \<open>Escaping is a code\<close>

text \<open>The link's markers, as the proofs below use them.\<close>

lemmas dccp_defs = DCCP_PKG_MARKER_def DCCP_PKG_ESC_def

lemma marker_neq_esc [simp]: "DCCP_PKG_MARKER \<noteq> DCCP_PKG_ESC" "DCCP_PKG_ESC \<noteq> DCCP_PKG_MARKER"
  by (simp_all add: dccp_defs)

definition escape :: "bytes \<Rightarrow> bytes" where
  "escape xs = concat (map (\<lambda>x. if x = DCCP_PKG_MARKER then [DCCP_PKG_ESC, 0x02]
     else if x = DCCP_PKG_ESC then [DCCP_PKG_ESC, 0x01] else [x]) xs)"

lemma escape_Nil [simp]: "escape [] = []"
  by (simp add: escape_def)

lemma escape_Cons: "escape (x # xs) = (if x = DCCP_PKG_MARKER then [DCCP_PKG_ESC, 0x02]
     else if x = DCCP_PKG_ESC then [DCCP_PKG_ESC, 0x01] else [x]) @ escape xs"
  by (simp add: escape_def)

lemma escape_append [simp]: "escape (xs @ ys) = escape xs @ escape ys"
  by (simp add: escape_def)

lemma length_escape: "length (escape xs) \<le> 2 * length xs"
  by (induction xs) (auto simp: escape_Cons)

lemma escape_eq_Nil [simp]: "escape xs = [] \<longleftrightarrow> xs = []"
  by (cases xs) (auto simp: escape_Cons)

lemma marker_notin_escape: "DCCP_PKG_MARKER \<notin> set (escape xs)"
  by (induction xs) (auto simp: escape_Cons dccp_defs)

lemma msg_convert_escape:
  "msg_convert xs room DCCP_PKG_MARKER DCCP_PKG_ESC =
     (if xs = [] \<or> int (length (escape xs)) \<le> room then Some (escape xs) else None)"
proof (induction xs arbitrary: room)
  case Nil
  then show ?case by simp
next
  case (Cons x xs)
  have "xs \<noteq> [] \<Longrightarrow> 0 < length (escape xs)" by simp
  then show ?case by (cases "xs = []") (auto simp: Cons.IH escape_Cons)
qed

lemma msg_reverse_step:
  "msg_reverse (x # xs) nxt marker esc =
     (if x \<noteq> esc then (case msg_reverse xs nxt marker esc of (ok, r) \<Rightarrow> (ok, x # r))
      else msg_reverse (x # xs) nxt marker esc)"
  by (cases xs) auto

lemma msg_reverse_escape: "msg_reverse (escape xs) nxt DCCP_PKG_MARKER DCCP_PKG_ESC = (True, xs)"
proof (induction xs)
  case Nil
  then show ?case by simp
next
  case (Cons x xs)
  then show ?case
    by (subst escape_Cons) (auto simp: dccp_defs msg_reverse_step [of x])
qed

definition msg_cs :: "bytes \<Rightarrow> u8" where
  "msg_cs m = fold (\<lambda>b c. c XOR b) m 0"

lemma msg_checksum_cs: "msg_checksum m 0 = msg_cs m"
  by (simp add: msg_checksum_def msg_cs_def)

lemma msg_checksum_append:
  "msg_checksum xs cs = (if xs = [] then 0 else fold (\<lambda>b c. c XOR b) xs cs)"
  by (simp add: msg_checksum_def)

definition dccp_frame :: "bytes \<Rightarrow> bytes" where
  "dccp_frame m = DCCP_PKG_MARKER # escape (m @ [msg_cs m]) @ [DCCP_PKG_MARKER]"

lemma msg_check_escape: "msg_check (escape (m @ [msg_cs m])) nxt = (True, m @ [msg_cs m])"
  by (simp add: msg_check_def msg_reverse_escape msg_checksum_cs del: escape_append)

text \<open>The two calls of the senders: the header as the first segment, the payload as the last.\<close>

lemma msg_encode_first:
  assumes "h \<noteq> []" and "int (length (escape h)) + 1 \<le> olen"
  shows "msg_encode (Some h) olen FIRST_SEG cs = Some (DCCP_PKG_MARKER # escape h, msg_cs h)"
  using assms by (auto simp: msg_encode_def Let_def msg_convert_escape msg_checksum_cs)

lemma msg_encode_last:
  assumes "int (length (escape (d @ [c]))) + 1 \<le> olen" and "c = fold (\<lambda>b c. c XOR b) d cs"
  shows "msg_encode (Some d) olen LAST_SEG cs = Some (escape (d @ [c]) @ [DCCP_PKG_MARKER], c)"
  using assms by (auto simp: msg_encode_def Let_def msg_convert_escape msg_checksum_def)

lemma msg_encode_last_None: "msg_encode None olen LAST_SEG cs = msg_encode (Some []) olen LAST_SEG cs"
  by (simp add: msg_encode_def Let_def)

section \<open>Decoding as a byte automaton\<close>

text \<open>
  \<open>frames\<close> reads one byte at a time; its state is the bytes since the last marker. It is
  the abstract view of \<open>msg_decodex\<close>: the same messages, whatever the chunks the bytes
  arrive in.
\<close>

fun frames :: "bytes option \<Rightarrow> bytes \<Rightarrow> bytes list \<times> bytes option" where
  "frames st [] = ([], st)"
| "frames None (x # xs) = (if x = DCCP_PKG_MARKER then frames (Some []) xs else frames None xs)"
| "frames (Some acc) (x # xs) =
     (if x \<noteq> DCCP_PKG_MARKER then frames (Some (acc @ [x])) xs
      else if acc = [] then frames (Some []) xs
      else (case msg_check acc DCCP_PKG_MARKER of
              (True, w) \<Rightarrow> (case frames None xs of (ms, st) \<Rightarrow> (butlast w # ms, st))
            | (False, w) \<Rightarrow> frames (Some []) xs))"

lemma frames_append:
  "frames st (xs @ ys) =
     (case frames st xs of (ms, st') \<Rightarrow> case frames st' ys of (ms', st'') \<Rightarrow> (ms @ ms', st''))"
  by (induction st xs rule: frames.induct) (auto split: prod.splits bool.splits)

lemma frames_no_marker:
  "DCCP_PKG_MARKER \<notin> set xs \<Longrightarrow> frames st xs = ([], map_option (\<lambda>acc. acc @ xs) st)"
  by (induction st xs rule: frames.induct) (auto simp: option.map_ident)

lemma frames_partial: "DCCP_PKG_MARKER \<notin> set acc \<Longrightarrow> frames None (DCCP_PKG_MARKER # acc) = ([], Some acc)"
  by (simp add: frames_no_marker)

lemma frames_dccp_frame: "frames None (dccp_frame m @ xs) =
  (case frames None xs of (ms, st) \<Rightarrow> (m # ms, st))"
proof -
  let ?e = "escape (m @ [msg_cs m])"
  have "?e \<noteq> []" by (subst escape_eq_Nil) simp
  have "frames (Some []) (?e @ DCCP_PKG_MARKER # xs) = frames (Some ?e) (DCCP_PKG_MARKER # xs)"
    using marker_notin_escape [of "m @ [msg_cs m]"]
    by (simp add: frames_append [of _ ?e] frames_no_marker split: prod.splits del: escape_append frames.simps(3))
  also have "\<dots> = (case frames None xs of (ms, st) \<Rightarrow> (m # ms, st))"
    using \<open>?e \<noteq> []\<close> by (simp add: msg_check_escape del: escape_append)
  finally show ?thesis by (simp add: dccp_frame_def del: escape_append)
qed

lemma frames_stream: "frames None (concat (map dccp_frame ms)) = (ms, None)"
  by (induction ms) (simp_all add: frames_dccp_frame)

text \<open>The accumulated bytes never hold a marker.\<close>

lemma frames_acc:
  "frames st xs = (ms, Some acc) \<Longrightarrow> (\<And>a. st = Some a \<Longrightarrow> DCCP_PKG_MARKER \<notin> set a)
   \<Longrightarrow> DCCP_PKG_MARKER \<notin> set acc"
proof (induction st xs arbitrary: ms rule: frames.induct)
  case (3 a x xs)
  then show ?case by (auto split: if_splits prod.splits bool.splits)
qed (auto split: if_splits)

section \<open>The positions of the code compute the automaton\<close>

lemma msg_find_dccp_None: "msg_find_dccp xs = None \<longleftrightarrow> DCCP_PKG_MARKER \<notin> set xs"
  by (induction xs) auto

lemma msg_find_dccp_Some:
  "msg_find_dccp xs = Some i \<Longrightarrow>
   xs = take i xs @ DCCP_PKG_MARKER # drop (Suc i) xs \<and> DCCP_PKG_MARKER \<notin> set (take i xs)"
  by (induction xs arbitrary: i) (auto split: if_splits)

lemma length_msg_reverse: "length (snd (msg_reverse xs nxt marker esc)) \<le> length xs"
  by (induction xs nxt marker esc rule: msg_reverse.induct) (auto split: prod.splits)

lemma length_msg_check: "msg_check xs nxt = (b, w) \<Longrightarrow> length w \<le> length xs"
  using length_msg_reverse [of xs nxt DCCP_PKG_MARKER DCCP_PKG_ESC]
  by (auto simp: msg_check_def split: if_splits prod.splits bool.splits)

definition since :: "bytes \<Rightarrow> nat \<Rightarrow> nat \<Rightarrow> bytes" where
  "since data st r = take (r - st - 1) (drop (st + 1) data)"

definition start_ok :: "bytes \<Rightarrow> nat \<Rightarrow> nat option \<Rightarrow> bool" where
  "start_ok data r start \<longleftrightarrow>
     (case start of None \<Rightarrow> True
      | Some st \<Rightarrow> st < r \<and> data ! st = DCCP_PKG_MARKER \<and> DCCP_PKG_MARKER \<notin> set (since data st r))"

definition window :: "bytes \<Rightarrow> nat \<Rightarrow> nat \<Rightarrow> bytes" where
  "window data r used = take (used - r) (drop r data)"

lemma window_Nil [simp]: "window data used used = []"
  by (simp add: window_def)

lemma since_window: "since data st r = window data (st + 1) r"
  by (simp add: since_def window_def)

lemma length_window: "used \<le> length data \<Longrightarrow> length (window data r used) = used - r"
  by (simp add: window_def)

lemma window_split:
  assumes "r \<le> m" "m \<le> used"
  shows "window data r used = window data r m @ window data m used"
proof -
  have "(m - r) + (used - m) = used - r" "(m - r) + r = m" using assms by simp_all
  with take_add [of "m - r" "used - m" "drop r data"] show ?thesis by (simp add: window_def)
qed

lemma window_find:
  assumes "msg_find_dccp (window data r used) = Some i" "used \<le> length data"
  shows "r + i < used" and "data ! (r + i) = DCCP_PKG_MARKER"
    and "window data r used = window data r (r + i) @ DCCP_PKG_MARKER # window data (r + i + 1) used"
    and "DCCP_PKG_MARKER \<notin> set (window data r (r + i))"
proof -
  from msg_find_dccp_less [OF assms(1)] length_window [OF assms(2)] show lt: "r + i < used" by simp
  have 1: "take i (window data r used) = window data r (r + i)"
    using lt by (simp add: window_def min_def)
  have 2: "drop (Suc i) (window data r used) = window data (r + i + 1) used"
    using lt by (simp add: window_def drop_take add.commute)
  from msg_find_dccp_Some [OF assms(1)] 1 2
  show w: "window data r used = window data r (r + i) @ DCCP_PKG_MARKER # window data (r + i + 1) used"
    and "DCCP_PKG_MARKER \<notin> set (window data r (r + i))" by simp_all
  have "length (window data r (r + i)) = i" using lt assms(2) by (simp add: length_window)
  with arg_cong [OF w, of "\<lambda>xs. xs ! i"] have "window data r used ! i = DCCP_PKG_MARKER"
    by (simp add: nth_append)
  then show "data ! (r + i) = DCCP_PKG_MARKER" using lt assms(2) by (simp add: window_def)
qed

lemma window_blit:
  "st + 1 + length w \<le> r \<Longrightarrow> r \<le> length data \<Longrightarrow> window (blit data (st + 1) w) r used = window data r used"
  by (simp add: window_def)

text \<open>One turn of the loop, by what the search for a marker finds.\<close>

lemma loop_stop: "\<not> r < used \<Longrightarrow> msg_decodex_loop used data r start out = (data, r, start, out)"
  by (simp add: msg_decodex_loop.simps [of used data r])

lemma loop_none:
  assumes "r < used" "msg_find_dccp (window data r used) = None"
  shows "msg_decodex_loop used data r start out = (data, used, start, out)"
  using assms by (simp add: msg_decodex_loop.simps [of used data r] window_def loop_stop)

lemma loop_first:
  assumes "r < used" "msg_find_dccp (window data r used) = Some i"
  shows "msg_decodex_loop used data r None out = msg_decodex_loop used data (r + i + 1) (Some (r + i)) out"
  using assms by (simp add: msg_decodex_loop.simps [of used data r None] window_def)

lemma loop_skip:
  assumes "r < used" "msg_find_dccp (window data r used) = Some i" "r + i \<le> st + 1"
  shows "msg_decodex_loop used data r (Some st) out = msg_decodex_loop used data (r + i + 1) (Some (r + i)) out"
proof -
  have "int (r + i) - int st - 1 \<le> 0" using assms(3) by simp
  with assms(1,2) show ?thesis
    by (simp add: msg_decodex_loop.simps [of used data r "Some st"] window_def Let_def)
qed

lemma loop_check:
  assumes "r < used" "msg_find_dccp (window data r used) = Some i" "st + 1 < r + i"
    and "msg_check (since data st (r + i)) (data ! (r + i)) = (b, w)"
  shows "msg_decodex_loop used data r (Some st) out =
    msg_decodex_loop used (blit data (st + 1) w) (r + i + 1) (if b then None else Some (r + i))
      (if b then out @ [butlast w] else out)"
proof -
  have "\<not> int (r + i) - int st - 1 \<le> 0" "nat (int (r + i) - int st - 1) = r + i - st - 1"
    using assms(3) by simp_all
  with assms(1,2,4) show ?thesis
    by (cases b) (simp_all add: msg_decodex_loop.simps [of used data r "Some st"] window_def since_def Let_def)
qed

definition decoded :: "nat \<Rightarrow> bytes \<Rightarrow> nat \<Rightarrow> nat option \<Rightarrow> bytes list \<Rightarrow> bytes \<times> nat \<times> nat option \<times> bytes list \<Rightarrow> bool"
where
  "decoded used data r start out res \<longleftrightarrow>
     (case frames (map_option (\<lambda>st. since data st r) start) (window data r used) of (ms, acc) \<Rightarrow>
        \<exists>data' start'. res = (data', used, start', out @ ms)
          \<and> length data' = length data \<and> start_ok data' used start'
          \<and> acc = map_option (\<lambda>st. since data' st used) start')"

lemma decoded_next:
  assumes "decoded used data' r' start' (out @ ms) res" "length data' = length data"
    and "frames (map_option (\<lambda>st. since data st r) start) (window data r used) =
      (case frames (map_option (\<lambda>st. since data' st r') start') (window data' r' used) of
         (ms', acc) \<Rightarrow> (ms @ ms', acc))"
  shows "decoded used data r start out res"
  using assms by (auto simp: decoded_def split: prod.splits)

lemma start_ok_marker: "data ! p = DCCP_PKG_MARKER \<Longrightarrow> start_ok data (p + 1) (if b then None else Some p)"
  by (simp add: start_ok_def since_def)

lemma start_ok_extend:
  assumes "start_ok data r start" "r \<le> used" "DCCP_PKG_MARKER \<notin> set (window data r used)"
  shows "start_ok data used start"
    and "map_option (\<lambda>st. since data st r @ window data r used) start =
      map_option (\<lambda>st. since data st used) start"
proof -
  have "since data st used = since data st r @ window data r used" if "st < r" for st
    using that assms(2) by (simp add: since_window flip: window_split)
  with assms show "start_ok data used start" "map_option (\<lambda>st. since data st r @ window data r used) start =
      map_option (\<lambda>st. since data st used) start"
    by (auto simp: start_ok_def split: option.splits)
qed

lemma decodex_loop_decoded:
  "r \<le> used \<Longrightarrow> used \<le> length data \<Longrightarrow> start_ok data r start \<Longrightarrow>
   decoded used data r start out (msg_decodex_loop used data r start out)"
proof (induction "used - r" arbitrary: data r start out rule: less_induct)
  case less
  let ?w = "window data r used"
  show ?case
  proof (cases "r < used")
    case False
    then have "r = used" using less.prems by simp
    with less.prems(3) show ?thesis by (auto simp: decoded_def loop_stop)
  next
    case r: True
    show ?thesis
    proof (cases "msg_find_dccp ?w")
      case None
      then have nm: "DCCP_PKG_MARKER \<notin> set ?w" by (simp add: msg_find_dccp_None)
      from frames_no_marker [OF nm] have "frames (map_option (\<lambda>st. since data st r) start) ?w =
          ([], map_option (\<lambda>st. since data st used) start)"
        unfolding start_ok_extend(2) [OF less.prems(3,1) nm, symmetric]
        by (simp add: option.map_comp comp_def)
      with start_ok_extend(1) [OF less.prems(3,1) nm] show ?thesis
        unfolding decoded_def loop_none [OF r None] by simp
    next
      case (Some i)
      note find = window_find [OF Some less.prems(2)]
      let ?tl = "r + i" and ?rest = "window data (r + i + 1) used"
      have IH: "decoded used d (?tl + 1) s o' (msg_decodex_loop used d (?tl + 1) s o')"
        if "length d = length data" "start_ok d (?tl + 1) s" for d s o'
        using that find(1) less.prems(2) less.hyps [of "?tl + 1" d s o'] by simp
      show ?thesis
      proof (cases start)
        case None
        have "frames None ?w = frames (Some []) ?rest"
          using find(3,4) by (simp add: frames_append frames_no_marker split: prod.splits)
        then have 1: "frames (map_option (\<lambda>st. since data st r) None) ?w =
            (case frames (map_option (\<lambda>st. since data st (?tl + 1)) (Some ?tl)) ?rest of
               (ms', acc) \<Rightarrow> ([] @ ms', acc))"
          by (simp add: since_def split: prod.split)
        have 2: "decoded used data (?tl + 1) (Some ?tl) (out @ [])
            (msg_decodex_loop used data (?tl + 1) (Some ?tl) out)"
          using IH [OF refl, of "Some ?tl" out] start_ok_marker [OF find(2), of False] by simp
        show ?thesis
          unfolding None loop_first [OF r Some] by (rule decoded_next [OF 2 refl 1])
      next
        case st: (Some st)
        let ?acc = "since data st r" and ?A = "since data st ?tl"
        from less.prems(3) st have ok: "st < r" "DCCP_PKG_MARKER \<notin> set ?acc" by (simp_all add: start_ok_def)
        have "?A = ?acc @ window data r ?tl"
          using ok(1) window_split [of "st + 1" r ?tl data] by (simp add: since_window)
        then have fr: "frames (Some ?acc) ?w = frames (Some ?A) (DCCP_PKG_MARKER # ?rest)"
          using find(3,4) by (simp add: frames_append frames_no_marker split: prod.splits del: frames.simps(3))
        have lA: "length ?A = ?tl - st - 1" using find(1) less.prems(2) by (simp add: since_window length_window)
        show ?thesis
        proof (cases "?A = []")
          case True
          then have le: "?tl \<le> st + 1" using lA ok(1) by simp
          have "frames (Some ?acc) ?w = frames (Some []) ?rest" unfolding fr True by simp
          then have 1: "frames (map_option (\<lambda>st. since data st r) (Some st)) ?w =
              (case frames (map_option (\<lambda>st. since data st (?tl + 1)) (Some ?tl)) ?rest of
                 (ms', acc) \<Rightarrow> ([] @ ms', acc))"
            by (simp add: since_def [of _ ?tl] split: prod.split)
          have 2: "decoded used data (?tl + 1) (Some ?tl) (out @ [])
              (msg_decodex_loop used data (?tl + 1) (Some ?tl) out)"
            using IH [OF refl, of "Some ?tl" out] start_ok_marker [OF find(2), of False] by simp
          show ?thesis
            unfolding st loop_skip [OF r Some le] by (rule decoded_next [OF 2 refl 1])
        next
          case False
          then have lt: "st + 1 < ?tl" using lA ok(1) by (cases "?tl - st - 1") auto
          obtain b w where chk: "msg_check ?A DCCP_PKG_MARKER = (b, w)" by force
          let ?d = "blit data (st + 1) w" and ?s = "if b then None else Some ?tl"
          have lw: "st + 1 + length w \<le> ?tl" using length_msg_check [OF chk] lA ok(1) by simp
          then have d: "length ?d = length data" "?d ! ?tl = DCCP_PKG_MARKER" "window ?d (?tl + 1) used = ?rest"
            using find(1,2) less.prems(2) window_blit [of st w "?tl + 1" data used]
            by (simp_all add: nth_blit)
          have "frames (Some ?acc) ?w = (case frames (if b then None else Some []) ?rest of
              (ms, acc) \<Rightarrow> ((if b then [butlast w] else []) @ ms, acc))"
            unfolding fr using False chk by (cases b) (auto split: prod.splits)
          then have 1: "frames (map_option (\<lambda>st. since data st r) (Some st)) ?w =
              (case frames (map_option (\<lambda>st. since ?d st (?tl + 1)) ?s) (window ?d (?tl + 1) used) of
                 (ms', acc) \<Rightarrow> ((if b then [butlast w] else []) @ ms', acc))"
            unfolding d(3) by (cases b) (simp_all add: since_def [of _ ?tl])
          have "(if b then out @ [butlast w] else out) = out @ (if b then [butlast w] else [])" by simp
          moreover have "msg_check ?A (data ! ?tl) = (b, w)" using chk find(2) by simp
          moreover note IH [OF d(1) start_ok_marker [OF d(2)], of b "out @ (if b then [butlast w] else [])"]
          ultimately have 2: "decoded used ?d (?tl + 1) ?s (out @ (if b then [butlast w] else []))
              (msg_decodex_loop used data r (Some st) out)"
            using loop_check [OF r Some lt, of b w out] by simp
          show ?thesis unfolding st by (rule decoded_next [OF 2 d(1) 1])
        qed
      qed
    qed
  qed
qed

section \<open>The decoder of the SPI link\<close>

text \<open>
  \<open>msg_decode\<close> keeps its positions in the caller and \<open>start_pos\<close> in a static variable;
  it is the decoder \<^verbatim>\<open>scom_main.c\<close> runs. Its loop has no test for an empty frame: \<open>msg_check\<close>
  refuses a length below one.
\<close>

record MSG_DECODE =
  r_pos :: nat
  w_pos :: nat
  start_pos :: "nat option"
  msg_buf :: bytes

function msg_decode_loop ::
  "nat \<Rightarrow> bytes \<Rightarrow> nat \<Rightarrow> nat option \<Rightarrow> bytes list \<Rightarrow> bytes \<times> nat \<times> nat option \<times> bytes list" where
  "msg_decode_loop w msg r start out =
     (if r < w then
        (case msg_find_dccp (take (w - r) (drop r msg)) of
           None \<Rightarrow> msg_decode_loop w msg w start out
         | Some i \<Rightarrow>
             (case start of
                None \<Rightarrow> msg_decode_loop w msg (r + i + 1) (Some (r + i)) out
              | Some st \<Rightarrow>
                  (let end_pos = r + i; len = int end_pos - int st - 1 in
                   case (if len \<le> 0 then (False, [])
                         else msg_check (take (nat len) (drop (st + 1) msg)) (msg ! end_pos)) of
                     (True, wr) \<Rightarrow>
                       msg_decode_loop w (blit msg (st + 1) wr) (end_pos + 1) None (out @ [butlast wr])
                   | (False, wr) \<Rightarrow>
                       msg_decode_loop w (blit msg (st + 1) wr) (end_pos + 1) (Some end_pos) out)))
      else (msg, r, start, out))"
  by pat_completeness auto
termination
  by (relation "measure (\<lambda>(w, msg, r, start, out). w - r)") auto

declare msg_decode_loop.simps [simp del]

text \<open>\<open>sizeof(msg)\<close> is the size of a pointer: \<open>sizeof(msg) - 16\<close> is \<open>4 - 16\<close> in unsigned arithmetic.\<close>

definition msg_too_long :: "nat \<Rightarrow> nat \<Rightarrow> bool" where
  "msg_too_long r st \<longleftrightarrow> (4 - 16 :: u32) \<le> word_of_int (int r - int st)"

definition msg_decode :: "MSG_DECODE \<Rightarrow> MSG_DECODE \<times> bytes list" where
  "msg_decode d =
     (case msg_decode_loop (w_pos d) (msg_buf d) (r_pos d) (start_pos d) [] of
        (msg, r, start, out) \<Rightarrow>
          (case start of
             None \<Rightarrow> (d\<lparr>r_pos := 0, w_pos := 0, start_pos := None, msg_buf := msg\<rparr>, out)
           | Some st \<Rightarrow>
               (if msg_too_long r st \<or> r \<le> st
                then (d\<lparr>r_pos := 0, w_pos := 0, start_pos := None, msg_buf := msg\<rparr>, out)
                else let len = w_pos d - st
                     in (d\<lparr>r_pos := len, w_pos := len, start_pos := Some 0,
                           msg_buf := blit msg 0 (take len (drop st msg))\<rparr>, out))))"

lemma msg_decode_loop_eq: "msg_decode_loop w msg r start out = msg_decodex_loop w msg r start out"
proof (induction "w - r" arbitrary: msg r start out rule: less_induct)
  case less
  show ?case
  proof (cases "r < w")
    case False
    then show ?thesis
      by (simp add: msg_decode_loop.simps [of w msg r] msg_decodex_loop.simps [of w msg r])
  next
    case r: True
    then have IH: "msg_decode_loop w m r' s o' = msg_decodex_loop w m r' s o'" if "r < r'" for m r' s o'
      using that less.hyps by simp
    show ?thesis
    proof (cases "msg_find_dccp (take (w - r) (drop r msg))")
      case None
      with IH [OF r] r show ?thesis
        by (simp add: msg_decode_loop.simps [of w msg r] msg_decodex_loop.simps [of w msg r])
    next
      case find: (Some i)
      have next_r: "r < r + i + 1" by simp
      show ?thesis
      proof (cases start)
        case None
        with find r IH [OF next_r] show ?thesis
          by (simp add: msg_decode_loop.simps [of w msg r None] msg_decodex_loop.simps [of w msg r None])
      next
        case st: (Some st)
        obtain b wr where chk: "msg_check (take (nat (int (r + i) - int st - 1)) (drop (st + 1) msg))
            (msg ! (r + i)) = (b, wr)" by force
        with find r IH [OF next_r] show ?thesis
          unfolding st
          by (cases b) (simp_all add: msg_decode_loop.simps [of w msg r "Some st"]
              msg_decodex_loop.simps [of w msg r "Some st"] Let_def)
      qed
    qed
  qed
qed

lemma msg_too_long_never:
  assumes "st \<le> r" and "r < 2147483648"
  shows "\<not> msg_too_long r st"
proof -
  have "(word_of_int (int r - int st) :: u32) = word_of_nat (r - st)"
    using assms(1) by (simp add: of_nat_diff)
  moreover have "unat (word_of_nat (r - st) :: u32) = r - st"
    using assms(2) by (simp add: unat_of_nat)
  ultimately show ?thesis using assms(2) by (simp add: msg_too_long_def word_le_nat_alt)
qed

section \<open>The contract of a frame decoder\<close>

text \<open>
  A decoder takes the bytes of one read and delivers messages; \<open>pending\<close> is the part of a
  frame it keeps. \<open>fits\<close> says that the read fits behind what is kept.
\<close>

fun feed_all :: "('s \<Rightarrow> bytes \<Rightarrow> 's \<times> bytes list) \<Rightarrow> 's \<Rightarrow> bytes list \<Rightarrow> 's \<times> bytes list" where
  "feed_all feed s [] = (s, [])"
| "feed_all feed s (b # bs) =
     (case feed s b of (s1, ms) \<Rightarrow> case feed_all feed s1 bs of (s2, ms') \<Rightarrow> (s2, ms @ ms'))"

fun all_fit :: "('s \<Rightarrow> bytes \<Rightarrow> 's \<times> bytes list) \<Rightarrow> ('s \<Rightarrow> bytes \<Rightarrow> bool) \<Rightarrow> 's \<Rightarrow> bytes list \<Rightarrow> bool" where
  "all_fit feed fits s [] = True"
| "all_fit feed fits s (b # bs) = (fits s b \<and> all_fit feed fits (fst (feed s b)) bs)"

locale frame_decoder =
  fixes feed :: "'s \<Rightarrow> bytes \<Rightarrow> 's \<times> bytes list"
    and fits :: "'s \<Rightarrow> bytes \<Rightarrow> bool"
    and pending :: "'s \<Rightarrow> bytes option"
    and inv :: "'s \<Rightarrow> bool"
  assumes feed_law: "inv s \<Longrightarrow> fits s bs \<Longrightarrow> feed s bs = (s', ms) \<Longrightarrow>
    inv s' \<and> frames (pending s) bs = (ms, pending s')"
begin

lemma chunked:
  "inv s \<Longrightarrow> all_fit feed fits s bs \<Longrightarrow> feed_all feed s bs = (s', ms) \<Longrightarrow>
   inv s' \<and> frames (pending s) (concat bs) = (ms, pending s')"
proof (induction bs arbitrary: s s' ms)
  case Nil
  then show ?case by simp
next
  case (Cons b bs)
  obtain s1 m1 where 1: "feed s b = (s1, m1)" by force
  obtain s2 m2 where 2: "feed_all feed s1 bs = (s2, m2)" by force
  from feed_law [OF Cons.prems(1) _ 1] Cons.prems(2) have
    s1: "inv s1" "frames (pending s) b = (m1, pending s1)" by auto
  from Cons.IH [OF s1(1) _ 2] Cons.prems(2) 1 have
    "inv s2 \<and> frames (pending s1) (concat bs) = (m2, pending s2)" by simp
  with s1 Cons.prems(3) 1 2 show ?case by (simp add: frames_append)
qed

text \<open>A stream of frames comes out message by message, however the reads cut it.\<close>

lemma stream_delivered:
  assumes "inv s" "pending s = None" "all_fit feed fits s bs" "feed_all feed s bs = (s', out)"
    and "concat bs = concat (map dccp_frame ms)"
  shows "out = ms \<and> pending s' = None"
  using chunked [OF assms(1,3,4)] frames_stream [of ms] assms(2,5) by simp

text \<open>Noise without a marker before the stream is skipped.\<close>

lemma stream_after_noise:
  assumes "inv s" "pending s = None" "all_fit feed fits s bs" "feed_all feed s bs = (s', out)"
    and "concat bs = noise @ concat (map dccp_frame ms)" "DCCP_PKG_MARKER \<notin> set noise"
  shows "out = ms \<and> pending s' = None"
  using chunked [OF assms(1,3,4)] frames_stream [of ms] assms(2,5,6)
  by (simp add: frames_append frames_no_marker)

end

section \<open>Both decoders keep the contract\<close>

lemma blit_same: "blit data 0 (take n data) = data"
  by (cases "n \<le> length data") (simp_all add: blit_def)

lemma since_shift:
  assumes "st < used" "used \<le> length data"
  shows "since (blit data 0 (take (used - st) (drop st data))) 0 (used - st) = since data st used"
  using assms by (simp add: since_def blit_def take_drop)

lemma decodex_loop_result:
  assumes "r \<le> used" "used \<le> length data" "start_ok data r start"
    and "frames (map_option (\<lambda>st. since data st r) start) (window data r used) = (ms, acc)"
  obtains data' start' where
    "msg_decodex_loop used data r start [] = (data', used, start', ms)"
    "length data' = length data" "start_ok data' used start'"
    "acc = map_option (\<lambda>st. since data' st used) start'"
  using decodex_loop_decoded [OF assms(1-3), of "[]"] assms(4) by (auto simp: decoded_def)

text \<open>What a decoder keeps at the front of its buffer.\<close>

definition kept :: "bytes \<Rightarrow> nat \<Rightarrow> bytes option" where
  "kept data n = (if n = 0 then None else Some (since data 0 n))"

definition kept_ok :: "bytes \<Rightarrow> nat \<Rightarrow> bool" where
  "kept_ok data n \<longleftrightarrow> n \<le> length data \<and> (0 < n \<longrightarrow> start_ok data n (Some 0))"

lemma kept_shift:
  assumes "start_ok data used (Some st)" "used \<le> length data"
  defines "data' \<equiv> blit data 0 (take (used - st) (drop st data))"
  shows "kept data' (used - st) = Some (since data st used)" and "kept_ok data' (used - st)"
    and "length data' = length data"
proof -
  from assms(1) have st: "st < used" "data ! st = DCCP_PKG_MARKER" "DCCP_PKG_MARKER \<notin> set (since data st used)"
    by (simp_all add: start_ok_def)
  show l: "length data' = length data" using st assms(2) by (simp add: data'_def)
  show k: "kept data' (used - st) = Some (since data st used)"
    using st since_shift [of st used data] assms(2) by (simp add: kept_def data'_def)
  have "data' ! 0 = data ! st" using st assms(2) by (simp add: data'_def blit_def nth_append)
  with k st l assms(2) show "kept_ok data' (used - st)" by (auto simp: kept_ok_def start_ok_def kept_def)
qed

lemma window_kept:
  assumes "0 < n" "start_ok data n (Some 0)" "n \<le> length data"
  shows "window data 0 n = DCCP_PKG_MARKER # since data 0 n"
  using assms by (cases data) (auto simp: start_ok_def window_def since_def take_Cons' gr0_conv_Suc)

lemma window_blit_append: "n + length bs \<le> length data \<Longrightarrow> window (blit data n bs) 0 (n + length bs) = window data 0 n @ bs"
  by (simp add: window_def blit_def)

definition rx_feed :: "MSG_RX \<Rightarrow> bytes \<Rightarrow> MSG_RX \<times> bytes list" where
  "rx_feed rx bs = msg_decodex (rx\<lparr>rx_data := blit (rx_data rx) (rx_used rx) bs, rx_used := rx_used rx + length bs\<rparr>)"

definition rx_fits :: "MSG_RX \<Rightarrow> bytes \<Rightarrow> bool" where
  "rx_fits rx bs \<longleftrightarrow> rx_used rx + length bs \<le> length (rx_data rx)
     \<and> (case snd (frames (kept (rx_data rx) (rx_used rx)) bs) of None \<Rightarrow> True
        | Some a \<Rightarrow> int (length a) + 17 < rx_size rx)"

definition dec_feed :: "MSG_DECODE \<Rightarrow> bytes \<Rightarrow> MSG_DECODE \<times> bytes list" where
  "dec_feed d bs = msg_decode (d\<lparr>msg_buf := blit (msg_buf d) (w_pos d) bs, w_pos := w_pos d + length bs\<rparr>)"

definition dec_fits :: "MSG_DECODE \<Rightarrow> bytes \<Rightarrow> bool" where
  "dec_fits d bs \<longleftrightarrow> w_pos d + length bs \<le> length (msg_buf d)"

definition dec_ok :: "MSG_DECODE \<Rightarrow> bool" where
  "dec_ok d \<longleftrightarrow> r_pos d = w_pos d \<and> kept_ok (msg_buf d) (w_pos d) \<and> length (msg_buf d) < 2147483648
     \<and> start_pos d = (if w_pos d = 0 then None else Some 0)"

lemma frames_kept:
  assumes "kept_ok data n" "n + length bs \<le> length data"
  shows "frames None (window (blit data n bs) 0 (n + length bs)) = frames (kept data n) bs"
proof (cases "n = 0")
  case True
  with assms(2) show ?thesis by (simp add: kept_def) (simp add: window_def blit_def)
next
  case False
  with assms(1) have "window data 0 n = DCCP_PKG_MARKER # since data 0 n"
    and "DCCP_PKG_MARKER \<notin> set (since data 0 n)"
    by (auto simp: kept_ok_def window_kept start_ok_def)
  with False assms(2) show ?thesis
    by (simp add: window_blit_append kept_def frames_append frames_no_marker split: prod.split)
qed

lemma rx_feed_law:
  assumes "kept_ok (rx_data rx) (rx_used rx)" "rx_fits rx bs" "rx_feed rx bs = (rx', ms)"
  shows "kept_ok (rx_data rx') (rx_used rx')
    \<and> frames (kept (rx_data rx) (rx_used rx)) bs = (ms, kept (rx_data rx') (rx_used rx'))"
proof -
  let ?n = "rx_used rx" let ?data = "blit (rx_data rx) ?n bs" and ?used = "?n + length bs"
  from assms(2) have fit: "?used \<le> length (rx_data rx)" by (simp add: rx_fits_def)
  obtain ms' acc where fr: "frames (kept (rx_data rx) ?n) bs = (ms', acc)" by force
  with frames_kept [OF assms(1) fit] have "frames (map_option (\<lambda>st. since ?data st 0) None) (window ?data 0 ?used) = (ms', acc)"
    by simp
  from decodex_loop_result [OF _ _ _ this] fit obtain data' start' where
    loop: "msg_decodex_loop ?used ?data 0 None [] = (data', ?used, start', ms')"
    and r: "length data' = length ?data" "start_ok data' ?used start'"
      "acc = map_option (\<lambda>st. since data' st ?used) start'"
    by (auto simp: start_ok_def)
  show ?thesis
  proof (cases start')
    case None
    with assms(3) loop fr r show ?thesis
      by (auto simp: rx_feed_def msg_decodex_def kept_def kept_ok_def)
  next
    case (Some st)
    with r have ok: "start_ok data' ?used (Some st)" and used: "?used \<le> length data'" using fit by simp_all
    from ok have st: "st < ?used" by (simp add: start_ok_def)
    have "length (since data' st ?used) = ?used - st - 1"
      using used by (simp add: since_window length_window)
    with assms(2) fr r(3) Some st have "\<not> rx_size rx - 16 \<le> int ?used - int st"
      by (simp add: rx_fits_def)
    with assms(3) loop Some have "rx_used rx' = ?used - st" "ms = ms'"
      "rx_data rx' = blit data' 0 (take (?used - st) (drop st data'))"
      by (auto simp: rx_feed_def msg_decodex_def Let_def blit_same)
    with kept_shift [OF ok used] fr r(3) Some show ?thesis by simp
  qed
qed

lemma dec_feed_law:
  assumes "dec_ok d" "dec_fits d bs" "dec_feed d bs = (d', ms)"
  shows "dec_ok d' \<and> frames (kept (msg_buf d) (w_pos d)) bs = (ms, kept (msg_buf d') (w_pos d'))"
proof -
  let ?n = "w_pos d" let ?data = "blit (msg_buf d) ?n bs" and ?used = "?n + length bs"
  from assms(1) have d: "r_pos d = ?n" "kept_ok (msg_buf d) ?n" "length (msg_buf d) < 2147483648"
    "start_pos d = (if ?n = 0 then None else Some 0)" by (simp_all add: dec_ok_def)
  from assms(2) have fit: "?used \<le> length (msg_buf d)" by (simp add: dec_fits_def)
  obtain ms' acc where fr: "frames (kept (msg_buf d) ?n) bs = (ms', acc)" by force
  have "0 < ?n \<Longrightarrow> since ?data 0 ?n = since (msg_buf d) 0 ?n" "0 < ?n \<Longrightarrow> ?data ! 0 = msg_buf d ! 0"
    using fit by (simp_all add: since_def blit_def drop_take nth_append)
  with d have start: "start_ok ?data ?n (start_pos d)"
    "map_option (\<lambda>st. since ?data st ?n) (start_pos d) = kept (msg_buf d) ?n"
    by (auto simp: kept_ok_def start_ok_def kept_def)
  have "window ?data ?n ?used = bs" using fit by (simp add: window_def blit_def)
  with start(2) fr have "frames (map_option (\<lambda>st. since ?data st ?n) (start_pos d)) (window ?data ?n ?used) = (ms', acc)"
    by simp
  from decodex_loop_result [OF _ _ start(1) this] fit obtain data' start' where
    loop: "msg_decodex_loop ?used ?data ?n (start_pos d) [] = (data', ?used, start', ms')"
    and r: "length data' = length ?data" "start_ok data' ?used start'"
      "acc = map_option (\<lambda>st. since data' st ?used) start'" by auto
  show ?thesis
  proof (cases start')
    case None
    with assms(3) loop fr r d(1,3) fit show ?thesis
      by (auto simp: dec_feed_def msg_decode_def msg_decode_loop_eq kept_def kept_ok_def dec_ok_def)
  next
    case (Some st)
    with r have ok: "start_ok data' ?used (Some st)" and used: "?used \<le> length data'" using fit by simp_all
    from ok have st: "st < ?used" by (simp add: start_ok_def)
    have "\<not> msg_too_long ?used st" using st d(3) fit by (intro msg_too_long_never) auto
    with assms(3) loop Some st d(1) have "w_pos d' = ?used - st" "r_pos d' = ?used - st" "ms = ms'"
      "start_pos d' = Some 0" "msg_buf d' = blit data' 0 (take (?used - st) (drop st data'))"
      by (auto simp: dec_feed_def msg_decode_def msg_decode_loop_eq Let_def)
    with kept_shift [OF ok used] fr r Some st d(3) fit show ?thesis by (simp add: dec_ok_def)
  qed
qed

interpretation rx_dec: frame_decoder rx_feed rx_fits
  "\<lambda>rx. kept (rx_data rx) (rx_used rx)" "\<lambda>rx. kept_ok (rx_data rx) (rx_used rx)"
  by unfold_locales (rule rx_feed_law)

interpretation spi_dec: frame_decoder dec_feed dec_fits "\<lambda>d. kept (msg_buf d) (w_pos d)" dec_ok
  by unfold_locales (rule dec_feed_law)

lemma length_dccp_frame: "length (dccp_frame m) \<le> 2 * length m + 4"
  using length_escape [of "m @ [msg_cs m]"] by (simp add: dccp_frame_def del: escape_append)

section \<open>Properties\<close>

text \<open>C25: A message encoded in two segments, header and payload, decodes to exactly its bytes, for any
  content, when the output buffer has room for the escaped form.\<close>

theorem msg_encode_roundtrip:
  assumes "h \<noteq> []" "2 * int (length h + length d) + 4 \<le> olen"
  shows "\<exists>o1 o2 cs cs'. msg_encode (Some h) olen FIRST_SEG c0 = Some (o1, cs)
    \<and> msg_encode (Some d) (olen - int (length o1)) LAST_SEG cs = Some (o2, cs')
    \<and> frames None (o1 @ o2) = ([h @ d], None)"
proof -
  let ?cs = "fold (\<lambda>b c. c XOR b) d (msg_cs h)"
  have first: "msg_encode (Some h) olen FIRST_SEG c0 = Some (DCCP_PKG_MARKER # escape h, msg_cs h)"
    using length_escape [of h] assms by (intro msg_encode_first) auto
  have second: "msg_encode (Some d) (olen - int (length (DCCP_PKG_MARKER # escape h))) LAST_SEG (msg_cs h) =
      Some (escape (d @ [?cs]) @ [DCCP_PKG_MARKER], ?cs)"
    using length_escape [of h] length_escape [of "d @ [?cs]"] assms
    by (intro msg_encode_last) (auto simp del: escape_append)
  have "msg_cs (h @ d) = ?cs" by (simp add: msg_cs_def)
  then have "(DCCP_PKG_MARKER # escape h) @ escape (d @ [?cs]) @ [DCCP_PKG_MARKER] = dccp_frame (h @ d)"
    by (simp add: dccp_frame_def)
  with first second frames_dccp_frame [of "h @ d" "[]"] show ?thesis by fastforce
qed

theorem msg_encode_roundtrip_witness:
  "\<exists>o1 o2 cs cs'. msg_encode (Some [0x7E, 0x7D]) 20 FIRST_SEG 0 = Some (o1, cs)
    \<and> msg_encode (Some [0x7D, 1]) (20 - int (length o1)) LAST_SEG cs = Some (o2, cs')
    \<and> frames None (o1 @ o2) = ([[0x7E, 0x7D, 0x7D, 1]], None)"
  using msg_encode_roundtrip [of "[0x7E, 0x7D]" "[0x7D, 1]" 20 0] by simp

definition demo_dec :: MSG_DECODE where
  "demo_dec = \<lparr>r_pos = 0, w_pos = 0, start_pos = None, msg_buf = replicate 64 0\<rparr>"

text \<open>C12: The MCU link's decoder delivers a stream of encoded messages complete and in order, wherever the
  reads cut the stream, and also behind noise without a marker.\<close>

theorem spi_stream_delivered:
  assumes "dec_ok d" "w_pos d = 0" "all_fit dec_feed dec_fits d reads" "feed_all dec_feed d reads = (d', out)"
    and "concat reads = noise @ concat (map dccp_frame ms)" "DCCP_PKG_MARKER \<notin> set noise"
  shows "out = ms \<and> dec_ok d' \<and> w_pos d' = 0"
proof -
  have "kept (msg_buf d) (w_pos d) = None" using assms(2) by (simp add: kept_def)
  from spi_dec.stream_after_noise [OF assms(1) this assms(3-6)] spi_dec.chunked [OF assms(1,3,4)] show ?thesis
    by (simp add: kept_def split: if_splits)
qed

theorem spi_stream_delivered_witness:
  "snd (feed_all dec_feed demo_dec [[1, 2] @ dccp_frame [0x7E, 5] @ dccp_frame [6]]) = [[0x7E, 5], [6]]"
proof -
  let ?r = "[1, 2] @ dccp_frame [0x7E, 5] @ dccp_frame [6 :: u8]"
  obtain d' out where f: "feed_all dec_feed demo_dec [?r] = (d', out)" by (rule prod.exhaust)
  have "length ?r \<le> 64"
    using length_dccp_frame [of "[0x7E, 5]"] length_dccp_frame [of "[6]"] by simp
  then have "dec_fits demo_dec ?r" by (simp add: dec_fits_def) (simp add: demo_dec_def)
  then have "all_fit dec_feed dec_fits demo_dec [?r]" by simp
  then have "dec_ok demo_dec" "w_pos demo_dec = 0" "all_fit dec_feed dec_fits demo_dec [?r]"
    by (simp_all add: demo_dec_def dec_ok_def kept_ok_def)
  moreover have "concat [?r] = [1, 2] @ concat (map dccp_frame [[0x7E, 5], [6]])" by simp
  ultimately have "out = [[0x7E, 5], [6]]"
    using spi_stream_delivered [OF _ _ _ f] by (simp add: DCCP_PKG_MARKER_def)
  then show ?thesis by (simp only: f snd_conv)
qed

definition demo_rx :: MSG_RX where
  "demo_rx = \<lparr>rx_used = 0, rx_size = 64, rx_data = replicate 64 0\<rparr>"

text \<open>The socket side's decoder (\<open>msg_decodex\<close>) delivers the same stream in the same way.\<close>

lemma rx_stream_delivered:
  assumes "kept_ok (rx_data rx) (rx_used rx)" "rx_used rx = 0" "all_fit rx_feed rx_fits rx reads"
    and "feed_all rx_feed rx reads = (rx', out)" "concat reads = concat (map dccp_frame ms)"
  shows "out = ms \<and> rx_used rx' = 0"
proof -
  have "kept (rx_data rx) (rx_used rx) = None" using assms(2) by (simp add: kept_def)
  from rx_dec.stream_delivered [OF assms(1) this assms(3-5)] show ?thesis
    by (simp add: kept_def split: if_splits)
qed

text \<open>The decoder's test for an over-long message never succeeds for a buffer that fits an \<open>int\<close>: it
  compares with the size of a pointer minus 16, as an unsigned number.\<close>

lemma msg_decode_overlong_unreachable:
  assumes "st \<le> r" "r < 2147483648"
  shows "\<not> msg_too_long r st"
  using assms by (rule msg_too_long_never)

lemma msg_decode_overlong_unreachable_witness: "\<not> msg_too_long 100000 0"
  by (rule msg_decode_overlong_unreachable) simp_all

end
