(* ===== verification/ScomTl.thy ===== *)
theory ScomTl
  imports RingBuffer MsgParse
begin

text \<open>
  The transport layer to the MCU, \<^verbatim>\<open>app/base/scom/scom_tl.c\<close>: frames with a six byte header,
  encoded by \<open>msg_encode\<close>, the connection handshake, the data server that answers requests
  for numbered 242-byte fragments of a buffer, and the data client. The two byte rings are
  those of \<open>RingBuffer\<close>. \<open>tl_out\<close> collects the encoded frames handed to the registered
  sending function.
\<close>

section \<open>State\<close>

abbreviation (input) "SCOM_TL_FRAME_LEN \<equiv> 242 :: u32"
abbreviation (input) "SCOM_TL_CHN_NUM \<equiv> 11 :: nat"

datatype scom_tl_state = DISCONNECTED | CONNECTING | IDLE | SERVER_STARTED | CLIENT_STARTED

primrec state_no :: "scom_tl_state \<Rightarrow> nat" where
  "state_no DISCONNECTED = 0"
| "state_no CONNECTING = 1"
| "state_no IDLE = 2"
| "state_no SERVER_STARTED = 3"
| "state_no CLIENT_STARTED = 4"

abbreviation (input) "SCOM_TL_SINGLE_FRAME \<equiv> 0 :: u8"
abbreviation (input) "SCOM_TL_START_FRAME \<equiv> 1 :: u8"
abbreviation (input) "SCOM_TL_MIDDLE_FRAME \<equiv> 2 :: u8"
abbreviation (input) "SCOM_TL_LAST_FRAME \<equiv> 3 :: u8"
abbreviation (input) "SCOM_TL_CMD_CON_REQ \<equiv> 0 :: u8"
abbreviation (input) "SCOM_TL_CMD_CON_RES \<equiv> 1 :: u8"
abbreviation (input) "SCOM_TL_DATA_REQ \<equiv> 2 :: u8"
abbreviation (input) "SCOM_TL_DATA_OK_RES \<equiv> 3 :: u8"
abbreviation (input) "SCOM_TL_DATA_NG_RES \<equiv> 4 :: u8"
abbreviation (input) "SCOM_TL_CMD_GET_TIME \<equiv> 0x34 :: u8"

text \<open>\<^verbatim>\<open>SCOM_TL_RX_CTL\<close>, the statics of the file, the device's open state (\<open>scom_dev_openSt\<close>) and whether a
  sending function and the channels' handlers are registered. The handlers are in other modules: what
  they are called with goes to \<open>tl_up\<close>.\<close>

record SCOM_TL_RX_CTL =
  ctl_used :: u32
  rx_len :: u32
  rx_ftype :: u32
  rx_flen :: u32
  rx_fno :: int
  req_fno :: u32
  req_fcnt :: u32

record scom_tl =
  scom_tl_status :: scom_tl_state
  scom_tl_tx_rb :: ring_buffer
  scom_tl_rx_rb :: ring_buffer
  rx_ctl :: SCOM_TL_RX_CTL
  get_time :: u8
  dev_open :: bool
  tx_fun :: bool
  proc_fun :: "bool list"
  resend_timer :: "int option"
  tl_out :: "bytes list"
  tl_up :: "(nat \<times> bytes) list"

definition rx_ctl_init :: SCOM_TL_RX_CTL where
  "rx_ctl_init = \<lparr>ctl_used = 0, rx_len = 0, rx_ftype = 0, rx_flen = 0, rx_fno = - 1, req_fno = 0, req_fcnt = 0\<rparr>"

text \<open>\<open>INIT_PHASE_INSIDE\<close> of \<open>scom_tl_init\<close>.\<close>

definition scom_tl_init_inside :: "scom_tl \<Rightarrow> scom_tl" where
  "scom_tl_init_inside s = s\<lparr>
     scom_tl_tx_rb := snd (rb_init (scom_tl_tx_rb s) (replicate (512 * 1024) 0) (512 * 1024)),
     scom_tl_rx_rb := snd (rb_init (scom_tl_rx_rb s) (replicate (2 * 1024) 0) (2 * 1024)),
     rx_ctl := rx_ctl_init, tx_fun := False, proc_fun := replicate SCOM_TL_CHN_NUM False\<rparr>"

definition scom_tl_reg_tx_fun :: "scom_tl \<Rightarrow> scom_tl" where
  "scom_tl_reg_tx_fun s = s\<lparr>tx_fun := True\<rparr>"

definition scom_tl_reg_proc_fun :: "scom_tl \<Rightarrow> nat \<Rightarrow> int \<times> scom_tl" where
  "scom_tl_reg_proc_fun s chn =
     (if chn \<ge> SCOM_TL_CHN_NUM then (- 1, s) else (0, s\<lparr>proc_fun := (proc_fun s)[chn := True]\<rparr>))"

section \<open>Sending frames\<close>

definition bytes16 :: "u16 \<Rightarrow> bytes" where "bytes16 x = [ucast x, ucast (drop_bit 8 x)]"
definition word16 :: "u8 \<Rightarrow> u8 \<Rightarrow> u16" where "word16 lo hi = ucast lo OR push_bit 8 (ucast hi)"

definition tl_hdr :: "u8 \<Rightarrow> u8 \<Rightarrow> u16 \<Rightarrow> u32 \<Rightarrow> bytes" where
  "tl_hdr msg_type ftype fno len = [msg_type, ftype] @ bytes16 fno @ bytes16 (ucast len)"

text \<open>\<open>data\<close> is \<open>None\<close> for \<open>NULL\<close>, which the callers pass with length 0.\<close>

definition scom_tl_send_frame :: "scom_tl \<Rightarrow> u8 \<Rightarrow> u8 \<Rightarrow> u16 \<Rightarrow> bytes option \<Rightarrow> u32 \<Rightarrow> int \<times> scom_tl" where
  "scom_tl_send_frame s msg_type frame_type frame_no data len =
     (if \<not> dev_open s then (- 1, s)
      else case msg_encode (Some (tl_hdr msg_type frame_type frame_no len)) 512 FIRST_SEG 0 of
        None \<Rightarrow> (- 1, s)
      | Some (o1, cs) \<Rightarrow>
          (case msg_encode (map_option (take (unat len)) data) (512 - int (length o1)) LAST_SEG cs of
             None \<Rightarrow> (- 1, s)
           | Some (o2, cs) \<Rightarrow> (0, if tx_fun s then s\<lparr>tl_out := tl_out s @ [o1 @ o2]\<rparr> else s)))"

definition send_frame :: "scom_tl \<Rightarrow> u8 \<Rightarrow> u8 \<Rightarrow> u16 \<Rightarrow> bytes option \<Rightarrow> u32 \<Rightarrow> scom_tl" where
  "send_frame s mt ft fno data len = snd (scom_tl_send_frame s mt ft fno data len)"

definition scom_tl_send_con_req :: "scom_tl \<Rightarrow> scom_tl" where
  "scom_tl_send_con_req s =
     (send_frame s SCOM_TL_CMD_CON_REQ SCOM_TL_SINGLE_FRAME 0 None 0)\<lparr>resend_timer := Some 1000, scom_tl_status := CONNECTING\<rparr>"

definition scom_tl_send_con_res :: "scom_tl \<Rightarrow> scom_tl" where
  "scom_tl_send_con_res s = send_frame s SCOM_TL_CMD_CON_RES SCOM_TL_SINGLE_FRAME 0 None 0"

definition scom_tl_proc_con_req :: "scom_tl \<Rightarrow> scom_tl" where
  "scom_tl_proc_con_req s =
     (let s = scom_tl_send_con_res s;
          s = (if state_no (scom_tl_status s) < state_no IDLE then s\<lparr>scom_tl_status := IDLE\<rparr> else s)
      in if get_time s \<noteq> 0 then
           let s = send_frame s SCOM_TL_CMD_GET_TIME SCOM_TL_SINGLE_FRAME 0 None 0
           in s\<lparr>get_time := get_time s - 1\<rparr>
         else s)"

definition scom_tl_proc_con_res :: "scom_tl \<Rightarrow> scom_tl" where
  "scom_tl_proc_con_res s =
     (if state_no (scom_tl_status s) \<le> state_no IDLE then
        send_frame (s\<lparr>resend_timer := None, scom_tl_status := IDLE\<rparr>) SCOM_TL_CMD_GET_TIME SCOM_TL_SINGLE_FRAME 0 None 0
      else s)"

definition scom_tl_send_msg :: "scom_tl \<Rightarrow> u8 \<Rightarrow> bytes option \<Rightarrow> u32 \<Rightarrow> int \<times> scom_tl" where
  "scom_tl_send_msg s msg_type data len =
     (if len > SCOM_TL_FRAME_LEN then (- 1, s)
      else scom_tl_send_frame s msg_type SCOM_TL_SINGLE_FRAME 0 data len)"

section \<open>The data client\<close>

definition scom_tl_send_data_req :: "scom_tl \<Rightarrow> scom_tl" where
  "scom_tl_send_data_req s =
     (if rx_ftype (rx_ctl s) = ucast SCOM_TL_LAST_FRAME then s
      else if rb_unused_len (scom_tl_rx_rb s) \<ge> SCOM_TL_FRAME_LEN then
        let fno = word_of_int (rx_fno (rx_ctl s) + 1) :: u16;
            fcnt = ucast (rb_unused_len (scom_tl_rx_rb s) div SCOM_TL_FRAME_LEN) :: u16;
            fcnt = (if fcnt > 5 then 5 else fcnt);
            s = s\<lparr>rx_ctl := (rx_ctl s)\<lparr>req_fcnt := ucast fcnt, req_fno := ucast fno\<rparr>\<rparr>;
            s = send_frame s SCOM_TL_DATA_REQ SCOM_TL_SINGLE_FRAME 0 (Some (bytes16 fno @ bytes16 fcnt)) 4
        in s\<lparr>resend_timer := Some 1000\<rparr>
      else s)"

definition scom_tl_start_client :: "scom_tl \<Rightarrow> int \<times> scom_tl" where
  "scom_tl_start_client s =
     (if scom_tl_status s = CLIENT_STARTED then (- 1, s)
      else (0, (scom_tl_send_data_req (s\<lparr>scom_tl_rx_rb := rb_clean (scom_tl_rx_rb s), rx_ctl := rx_ctl_init\<rparr>))
                 \<lparr>scom_tl_status := CLIENT_STARTED\<rparr>))"

definition scom_tl_stop_client :: "scom_tl \<Rightarrow> scom_tl" where
  "scom_tl_stop_client s = s\<lparr>scom_tl_rx_rb := rb_clean (scom_tl_rx_rb s), rx_ctl := rx_ctl_init, scom_tl_status := IDLE\<rparr>"

text \<open>The fields of a received message; \<open>msg\<close> is header and payload.\<close>

definition hdr_type :: "bytes \<Rightarrow> u8" where "hdr_type msg = msg ! 0"
definition hdr_ftype :: "bytes \<Rightarrow> u8" where "hdr_ftype msg = msg ! 1"
definition hdr_fno :: "bytes \<Rightarrow> u16" where "hdr_fno msg = word16 (msg ! 2) (msg ! 3)"
definition hdr_flen :: "bytes \<Rightarrow> u16" where "hdr_flen msg = word16 (msg ! 4) (msg ! 5)"

definition scom_tl_proc_data_ok_res :: "scom_tl \<Rightarrow> bytes \<Rightarrow> scom_tl" where
  "scom_tl_proc_data_ok_res s msg =
     (let fno = hdr_fno msg; flen = hdr_flen msg; ftype = hdr_ftype msg
      in if int (unat fno) \<noteq> rx_fno (rx_ctl s) + 1 then s
         else
           let s = s\<lparr>rx_ctl := (rx_ctl s)\<lparr>ctl_used := 1, rx_fno := int (unat fno), rx_flen := ucast flen,
                       rx_ftype := ucast ftype, rx_len := rx_len (rx_ctl s) + ucast flen\<rparr>,
                     scom_tl_rx_rb := the (snd (rb_in (Some (scom_tl_rx_rb s)) (Some (drop 6 msg)) (ucast flen)))\<rparr>
           in if ftype = SCOM_TL_LAST_FRAME then s\<lparr>resend_timer := None\<rparr>
              else if ucast fno = req_fno (rx_ctl s) + req_fcnt (rx_ctl s) then
                scom_tl_send_data_req (s\<lparr>resend_timer := None\<rparr>)
              else s)"

definition scom_tl_proc_data_ng_res :: "scom_tl \<Rightarrow> scom_tl" where
  "scom_tl_proc_data_ng_res s = s\<lparr>resend_timer := None\<rparr>"

text \<open>Returns the count, the final flag, the bytes written to the buffer and the state; \<open>buf\<close> is the
  caller's buffer of \<open>len\<close> bytes.\<close>

definition scom_tl_get_data :: "scom_tl \<Rightarrow> bytes \<Rightarrow> u32 \<Rightarrow> int \<times> bool \<times> bytes \<times> scom_tl" where
  "scom_tl_get_data s buf len =
     (let last = (\<lambda>s. rx_ftype (rx_ctl s) = ucast SCOM_TL_LAST_FRAME)
      in if scom_tl_status s \<noteq> CLIENT_STARTED then (- 1, True, buf, s)
         else if rb_empty (scom_tl_rx_rb s) then (0, last s, buf, s)
         else case rb_out (Some (scom_tl_rx_rb s)) (Some buf) len of
           (ret, rb', d) \<Rightarrow>
             let s = s\<lparr>scom_tl_rx_rb := the rb'\<rparr>; buf = the d
             in if ret \<le> 0 then (0, False, buf, s)
                else
                  let s = (if \<not> last s then scom_tl_send_data_req s else s)
                  in if last s \<and> rb_empty (scom_tl_rx_rb s) then (ret, True, buf, scom_tl_stop_client s)
                     else (ret, False, buf, s))"

section \<open>The data server\<close>

definition scom_tl_start_server :: "scom_tl \<Rightarrow> bytes \<Rightarrow> u32 \<Rightarrow> int \<times> scom_tl" where
  "scom_tl_start_server s data len =
     (if scom_tl_status s = SERVER_STARTED then (- 1, s)
      else let s = s\<lparr>scom_tl_tx_rb := rb_clean (scom_tl_tx_rb s)\<rparr>
           in if rb_unused_len (scom_tl_tx_rb s) < len then (- 1, s)
              else (0, s\<lparr>scom_tl_tx_rb := the (snd (rb_in (Some (scom_tl_tx_rb s)) (Some data) len)),
                         scom_tl_status := SERVER_STARTED\<rparr>))"

definition scom_tl_stop_server :: "scom_tl \<Rightarrow> scom_tl" where
  "scom_tl_stop_server s = s\<lparr>scom_tl_tx_rb := rb_clean (scom_tl_tx_rb s), scom_tl_status := IDLE\<rparr>"

definition frame_ftype :: "nat \<Rightarrow> nat \<Rightarrow> u8" where
  "frame_ftype max_fno k =
     (if k = 0 then if max_fno = 0 then SCOM_TL_SINGLE_FRAME else SCOM_TL_START_FRAME
      else if max_fno = k then SCOM_TL_LAST_FRAME
      else SCOM_TL_MIDDLE_FRAME)"

text \<open>The sending loop, from frame \<open>k\<close> on with \<open>n\<close> frames still to go.\<close>

fun data_req_loop :: "scom_tl \<Rightarrow> nat \<Rightarrow> nat \<Rightarrow> nat \<Rightarrow> int \<times> scom_tl" where
  "data_req_loop s max_fno k 0 = (0, s)"
| "data_req_loop s max_fno k (Suc n) =
     (if k > max_fno then (0, s)
      else case rb_get (Some (scom_tl_tx_rb s)) (Some (replicate 242 0)) (of_nat (k * 242)) SCOM_TL_FRAME_LEN of
        (ret, frame) \<Rightarrow>
          if ret \<le> 0 then (- 1, s)
          else data_req_loop (send_frame s SCOM_TL_DATA_OK_RES (frame_ftype max_fno k) (of_nat k) frame (word_of_int ret))
                 max_fno (k + 1) n)"

definition max_fno_of :: "ring_buffer \<Rightarrow> u16" where
  "max_fno_of rb =
     (if rb_used_len rb mod SCOM_TL_FRAME_LEN \<noteq> 0 then ucast (rb_used_len rb div SCOM_TL_FRAME_LEN)
      else ucast (rb_used_len rb div SCOM_TL_FRAME_LEN - 1))"

text \<open>The results of a refusal: 3 server not started, 4 no data, 5 invalid frame number.\<close>

definition scom_tl_proc_data_req :: "scom_tl \<Rightarrow> bytes \<Rightarrow> int \<times> scom_tl" where
  "scom_tl_proc_data_req s msg =
     (let refuse = (\<lambda>result reason. (- 1, snd (scom_tl_send_msg s SCOM_TL_DATA_NG_RES
            (Some (bytes16 result @ bytes16 reason)) 4)))
      in if scom_tl_status s \<noteq> SERVER_STARTED then refuse 3 0
         else if rb_empty (scom_tl_tx_rb s) then refuse 4 0
         else
           let max_fno = max_fno_of (scom_tl_tx_rb s);
               fno = word16 (msg ! 6) (msg ! 7); fcnt = word16 (msg ! 8) (msg ! 9)
           in if fno > max_fno then refuse 5 max_fno
              else data_req_loop s (unat max_fno) (unat fno) (unat fcnt))"

section \<open>Messages and the resend timer\<close>

definition scom_tl_msg_proc :: "scom_tl \<Rightarrow> bytes \<Rightarrow> scom_tl" where
  "scom_tl_msg_proc s msg =
     (let ty = hdr_type msg; chn = unat (drop_bit 4 (ty AND 0xF0))
      in if ty = SCOM_TL_DATA_REQ then snd (scom_tl_proc_data_req s msg)
         else if ty = SCOM_TL_DATA_OK_RES then scom_tl_proc_data_ok_res s msg
         else if ty = SCOM_TL_DATA_NG_RES then scom_tl_proc_data_ng_res s
         else if ty = SCOM_TL_CMD_CON_REQ then scom_tl_proc_con_req s
         else if ty = SCOM_TL_CMD_CON_RES then scom_tl_proc_con_res s
         else if chn \<ge> SCOM_TL_CHN_NUM then s
         else if proc_fun s ! chn then s\<lparr>tl_up := tl_up s @ [(chn, msg)]\<rparr>
         else s)"

definition scom_tl_timeout_proc :: "scom_tl \<Rightarrow> scom_tl" where
  "scom_tl_timeout_proc s =
     (if scom_tl_status s = DISCONNECTED \<or> scom_tl_status s = CONNECTING then scom_tl_send_con_req s else s)"

section \<open>Frames always fit\<close>

lemma length_tl_hdr [simp]: "length (tl_hdr mt ft fno len) = 6"
  by (simp add: tl_hdr_def bytes16_def)

lemma send_frame_ok:
  assumes "dev_open s" and "d = map_option (take (unat len)) data" and "length (case d of None \<Rightarrow> [] | Some x \<Rightarrow> x) \<le> 242"
  shows "scom_tl_send_frame s mt ft fno data len = (0, if tx_fun s
     then s\<lparr>tl_out := tl_out s @ [dccp_frame (tl_hdr mt ft fno len @ (case d of None \<Rightarrow> [] | Some x \<Rightarrow> x))]\<rparr> else s)"
proof -
  let ?h = "tl_hdr mt ft fno len" and ?x = "case d of None \<Rightarrow> [] | Some x \<Rightarrow> x"
  let ?c = "fold (\<lambda>b c. c XOR b) ?x (msg_cs ?h)"
  have h: "?h \<noteq> []" "length (escape ?h) \<le> 12" using length_escape [of ?h] by (simp_all flip: length_greater_0_conv)
  have first: "msg_encode (Some ?h) 512 FIRST_SEG 0 = Some (DCCP_PKG_MARKER # escape ?h, msg_cs ?h)"
    using h by (intro msg_encode_first) auto
  have "length (escape (?x @ [?c])) \<le> 486" using length_escape [of "?x @ [?c]"] assms(3) by (auto split: option.splits)
  then have second: "msg_encode (Some ?x) (512 - int (length (DCCP_PKG_MARKER # escape ?h))) LAST_SEG (msg_cs ?h) =
      Some (escape (?x @ [?c]) @ [DCCP_PKG_MARKER], ?c)"
    using h by (intro msg_encode_last) (auto simp del: escape_append)
  have "msg_encode d olen LAST_SEG cs = msg_encode (Some ?x) olen LAST_SEG cs" for olen cs
    by (cases d) (simp_all add: msg_encode_last_None)
  moreover have "msg_cs (?h @ ?x) = ?c" by (simp add: msg_cs_def)
  ultimately show ?thesis
    using assms(1) first second
    by (simp add: scom_tl_send_frame_def assms(2) [symmetric] dccp_frame_def)
qed

section \<open>The server serves its data\<close>

text \<open>The ring of a started server holds the data and was never read from.\<close>

definition serving :: "scom_tl \<Rightarrow> bytes \<Rightarrow> bool" where
  "serving s data \<longleftrightarrow> scom_tl_status s = SERVER_STARTED \<and> rb_wf (scom_tl_tx_rb s) \<and> out_pos (scom_tl_tx_rb s) = 0
     \<and> rb_list (scom_tl_tx_rb s) = data \<and> unat (rb_size (scom_tl_tx_rb s)) = 524288"

definition fragment :: "bytes \<Rightarrow> nat \<Rightarrow> bytes" where
  "fragment data k = take 242 (drop (k * 242) data)"

definition last_fno :: "bytes \<Rightarrow> nat" where
  "last_fno data = (length data - 1) div 242"

definition data_frame :: "bytes \<Rightarrow> nat \<Rightarrow> bytes" where
  "data_frame data k = dccp_frame (tl_hdr SCOM_TL_DATA_OK_RES (frame_ftype (last_fno data) k) (of_nat k)
     (of_nat (length (fragment data k))) @ fragment data k)"

lemma fragments_concat: "concat (map (fragment data) [0..<Suc (last_fno data)]) = data"
proof -
  have "concat (map (fragment data) [0..<n]) = take (n * 242) data" for n
  proof (induction n)
    case (Suc n)
    have "take (Suc n * 242) data = take (n * 242) data @ take 242 (drop (n * 242) data)"
      using take_add [of "n * 242" 242 data] by (simp only: mult_Suc add.commute)
    with Suc show ?case by (simp add: fragment_def)
  qed simp
  moreover have "length data \<le> Suc (last_fno data) * 242"
  proof -
    have "length data - 1 < (length data - 1) div 242 * 242 + 242"
      by (metis add.commute dividend_less_div_times zero_less_numeral)
    then show ?thesis by (simp add: last_fno_def)
  qed
  ultimately show ?thesis by (simp del: upt_Suc)
qed

lemma start_server_serving:
  assumes "rb_wf (scom_tl_tx_rb s)" "unat (rb_size (scom_tl_tx_rb s)) = 524288" "scom_tl_status s \<noteq> SERVER_STARTED"
    and "length data \<le> 524288"
  shows "\<exists>s'. scom_tl_start_server s data (of_nat (length data)) = (0, s') \<and> serving s' data
    \<and> s' = s\<lparr>scom_tl_tx_rb := scom_tl_tx_rb s', scom_tl_status := SERVER_STARTED\<rparr>"
proof -
  let ?rb = "rb_clean (scom_tl_tx_rb s)" and ?n = "of_nat (length data) :: u32"
  note c = rb_clean_wf [OF assms(1)]
  have n: "unat ?n = length data" using assms(4) by (simp add: unat_of_nat)
  then have fits: "?n \<le> rb_unused_len ?rb" using assms(2,4) c by (simp add: word_le_nat_alt)
  then have "min ?n (rb_unused_len ?rb) = ?n" by (simp add: min_def)
  with rb_in_refines [OF c(1), of ?n data ?n] n obtain rb' where
    "rb_in (Some ?rb) (Some data) ?n = (sint ?n, Some rb')" "rb_wf rb'" "rb_size rb' = rb_size ?rb"
    "out_pos rb' = out_pos ?rb" "rb_list rb' = rb_list ?rb @ data" by auto
  with fits assms(2,3) c show ?thesis
    by (intro exI [of _ "s\<lparr>scom_tl_tx_rb := rb', scom_tl_status := SERVER_STARTED\<rparr>"])
      (simp add: scom_tl_start_server_def serving_def Let_def)
qed

lemma get_fragment:
  assumes "serving s data" and "k * 242 < length data"
  shows "\<exists>frame. rb_get (Some (scom_tl_tx_rb s)) (Some (replicate 242 0)) (of_nat (k * 242)) SCOM_TL_FRAME_LEN =
      (int (length (fragment data k)), Some frame) \<and> take (length (fragment data k)) frame = fragment data k
    \<and> 0 < length (fragment data k) \<and> length (fragment data k) \<le> 242"
proof -
  let ?rb = "scom_tl_tx_rb s" and ?ofs = "of_nat (k * 242) :: u32"
  let ?s = "min SCOM_TL_FRAME_LEN (rb_used_len ?rb - ?ofs)"
  have wf: "rb_wf ?rb" and fresh: "out_pos ?rb = 0" and lst: "rb_list ?rb = data" and sz: "unat (rb_size ?rb) = 524288"
    using assms(1) by (auto simp: serving_def)
  have used: "unat (rb_used_len ?rb) = length data" using lst by (metis length_rb_list)
  have le: "length data \<le> 524288" using rb_wf_size(4) [OF wf] used sz by simp
  have ofs: "unat ?ofs = k * 242" using assms(2) le by (intro unat_of_nat_32) simp
  have "unat (rb_used_len ?rb - ?ofs) = length data - k * 242"
    using assms(2) used ofs by (simp add: unat_sub word_le_nat_alt)
  then have us: "unat ?s = length (fragment data k)" by (simp add: min_def word_le_nat_alt fragment_def)
  have f: "0 < length (fragment data k)" "length (fragment data k) \<le> 242" using assms(2) by (simp_all add: fragment_def)
  have "sint ?s = int (length (fragment data k))" using us f(2) by (simp add: sint_nonneg_32)
  moreover have "rb_get (Some ?rb) (Some (replicate 242 0)) ?ofs SCOM_TL_FRAME_LEN =
      (sint ?s, Some (take (unat SCOM_TL_FRAME_LEN) (drop (unat ?ofs) (rb_list ?rb)) @ drop (unat ?s) (replicate 242 0)))"
    by (rule rb_get_fresh [OF wf fresh _ refl]) (use assms(2) used ofs us f(2) in simp_all)
  moreover have "take (unat SCOM_TL_FRAME_LEN) (drop (unat ?ofs) (rb_list ?rb)) = fragment data k"
    using ofs lst by (simp add: fragment_def)
  ultimately show ?thesis using f by simp
qed

lemma data_req_loop_frames:
  "serving s data \<Longrightarrow> data \<noteq> [] \<Longrightarrow> dev_open s \<Longrightarrow> tx_fun s \<Longrightarrow>
   data_req_loop s (last_fno data) k n =
     (0, s\<lparr>tl_out := tl_out s @ map (data_frame data) [k..<min (k + n) (Suc (last_fno data))]\<rparr>)"
proof (induction n arbitrary: s k)
  case 0
  then show ?case by simp
next
  case (Suc n)
  show ?case
  proof (cases "k > last_fno data")
    case True
    then show ?thesis by (simp add: min_def)
  next
    case False
    then have "k * 242 \<le> length data - 1" by (simp add: last_fno_def less_eq_div_iff_mult_less_eq not_less)
    then have "k * 242 < length data" using Suc.prems(2) by (cases data) auto
    from get_fragment [OF Suc.prems(1) this] obtain frame where g:
      "rb_get (Some (scom_tl_tx_rb s)) (Some (replicate 242 0)) (of_nat (k * 242)) SCOM_TL_FRAME_LEN =
        (int (length (fragment data k)), Some frame)"
      "take (length (fragment data k)) frame = fragment data k"
      "0 < length (fragment data k)" "length (fragment data k) \<le> 242" by auto
    have u: "unat (of_nat (length (fragment data k)) :: u32) = length (fragment data k)"
      using g(4) by (simp add: unat_of_nat)
    let ?s = "s\<lparr>tl_out := tl_out s @ [data_frame data k]\<rparr>"
    have "send_frame s SCOM_TL_DATA_OK_RES (frame_ftype (last_fno data) k) (of_nat k) (Some frame)
        (of_nat (length (fragment data k))) = ?s"
      using send_frame_ok [OF Suc.prems(3) refl, of "of_nat (length (fragment data k))" "Some frame"] g u Suc.prems(4)
      by (simp add: send_frame_def data_frame_def)
    moreover have "serving ?s data" using Suc.prems(1) by (simp add: serving_def)
    ultimately have "data_req_loop s (last_fno data) k (Suc n) = data_req_loop ?s (last_fno data) (k + 1) n"
      using False g by simp
    also have "\<dots> = (0, ?s\<lparr>tl_out := tl_out ?s @ map (data_frame data) [k + 1..<min (k + 1 + n) (Suc (last_fno data))]\<rparr>)"
      using Suc.prems \<open>serving ?s data\<close> by (intro Suc.IH) simp_all
    finally have step: "data_req_loop s (last_fno data) k (Suc n) =
        (0, s\<lparr>tl_out := tl_out s @ data_frame data k # map (data_frame data) [k + 1..<min (k + 1 + n) (Suc (last_fno data))]\<rparr>)"
      by (simp del: data_req_loop.simps upt_Suc)
    have "[k..<min (k + Suc n) (Suc (last_fno data))] = k # [k + 1..<min (k + 1 + n) (Suc (last_fno data))]"
      using False by (subst upt_conv_Cons) (auto simp del: upt_Suc)
    then show ?thesis by (simp only: step list.map)
  qed
qed

lemma max_fno_serving:
  assumes "serving s data" and "data \<noteq> []"
  shows "unat (max_fno_of (scom_tl_tx_rb s)) = last_fno data"
proof -
  let ?u = "rb_used_len (scom_tl_tx_rb s)"
  have u: "unat ?u = length data" using assms(1) by (metis length_rb_list serving_def)
  have le: "length data \<le> 524288" using assms(1) rb_wf_size(4) u by (fastforce simp: serving_def)
  have d: "unat (?u div 242) = length data div 242" "unat (?u mod 242) = length data mod 242"
    using u by (simp_all add: unat_div unat_mod)
  have small: "unat (ucast x :: u16) = unat x" if "unat x < 65536" for x :: u32
    using that by (simp add: unsigned_ucast_eq take_bit_eq_mod)
  show ?thesis
  proof (cases "length data mod 242 = 0")
    case True
    then have z: "?u mod 242 = 0" using d(2) by (metis unat_0 unsigned_word_eqI)
    have "242 \<le> length data" by (rule dvd_imp_le) (use True assms(2) in auto)
    then have pos: "0 < length data div 242" by (simp add: div_greater_zero_iff)
    then have "1 \<le> ?u div 242" using d(1) by (simp add: word_le_nat_alt)
    then have "unat (?u div 242 - 1) = length data div 242 - 1" using d(1) by (simp add: unat_sub)
    moreover have "length data div 242 - 1 < 65536" using le by linarith
    moreover have "(length data - 1) div 242 = length data div 242 - 1"
    proof -
      from True obtain q where q: "length data = 242 * q" by (metis mod_0_imp_dvd dvdE)
      with pos obtain p where "q = Suc p" by (cases q) auto
      with q show ?thesis by simp
    qed
    ultimately show ?thesis using z by (simp add: max_fno_of_def small last_fno_def)
  next
    case False
    then have nz: "?u mod 242 \<noteq> 0" using d(2) by (metis unat_0)
    have "length data div 242 < 65536" using le by linarith
    then have "unat (ucast (?u div 242) :: u16) = length data div 242" using d(1) small by simp
    moreover have "(length data - 1) div 242 = length data div 242"
    proof -
      obtain q r where qr: "q = length data div 242" "r = length data mod 242" by simp
      have "length data = 242 * q + r" "0 < r" "r < 242" using qr False by simp_all
      then have "length data - 1 = 242 * q + (r - 1)" "r - 1 < 242" by simp_all
      then show ?thesis using qr(1) by (simp add: div_mult_self4)
    qed
    ultimately show ?thesis using nz by (simp add: max_fno_of_def last_fno_def)
  qed
qed

lemma serving_not_empty: "serving s data \<Longrightarrow> data \<noteq> [] \<Longrightarrow> \<not> rb_empty (scom_tl_tx_rb s)"
  by (auto simp: serving_def rb_empty_def rb_used_len_def rb_list_def circ_read_def)

text \<open>A request message: header, first frame, frame count.\<close>

definition req_msg :: "u16 \<Rightarrow> u16 \<Rightarrow> bytes" where
  "req_msg fno fcnt = tl_hdr SCOM_TL_DATA_REQ SCOM_TL_SINGLE_FRAME 0 4 @ bytes16 fno @ bytes16 fcnt"

lemma word16_bytes16: "word16 (ucast x) (ucast (drop_bit 8 x)) = x"
  by (rule bit_word_eqI) (auto simp: word16_def bit_or_iff bit_ucast_iff bit_push_bit_iff bit_drop_bit_eq)

lemma req_msg_fields:
  "hdr_type (req_msg fno fcnt) = 2" "word16 (req_msg fno fcnt ! 6) (req_msg fno fcnt ! 7) = fno"
  "word16 (req_msg fno fcnt ! 8) (req_msg fno fcnt ! 9) = fcnt"
  by (simp_all add: req_msg_def tl_hdr_def bytes16_def hdr_type_def word16_bytes16)

lemma msg_proc_req:
  assumes "serving s data" "data \<noteq> []" "dev_open s" "tx_fun s" "unat fno \<le> last_fno data"
  shows "scom_tl_msg_proc s (req_msg fno fcnt) =
    s\<lparr>tl_out := tl_out s @ map (data_frame data) [unat fno..<min (unat fno + unat fcnt) (Suc (last_fno data))]\<rparr>"
proof -
  have m: "unat (max_fno_of (scom_tl_tx_rb s)) = last_fno data" by (rule max_fno_serving [OF assms(1,2)])
  then have "\<not> fno > max_fno_of (scom_tl_tx_rb s)" using assms(5) by (simp add: word_less_nat_alt)
  moreover have "scom_tl_status s = SERVER_STARTED" using assms(1) by (simp add: serving_def)
  ultimately show ?thesis
    using serving_not_empty [OF assms(1,2)] data_req_loop_frames [OF assms(1-4)] m
    by (simp add: scom_tl_msg_proc_def scom_tl_proc_data_req_def req_msg_fields Let_def del: upt_Suc)
qed

section \<open>The client's window\<close>

text \<open>A data frame as the client receives it.\<close>

definition ok_msg :: "u8 \<Rightarrow> u16 \<Rightarrow> bytes \<Rightarrow> bytes" where
  "ok_msg ftype fno d = tl_hdr SCOM_TL_DATA_OK_RES ftype fno (of_nat (length d)) @ d"

lemma ok_msg_fields:
  assumes "length d < 65536"
  shows "hdr_type (ok_msg ft fno d) = 3" "hdr_ftype (ok_msg ft fno d) = ft" "hdr_fno (ok_msg ft fno d) = fno"
    "hdr_flen (ok_msg ft fno d) = of_nat (length d)" "drop 6 (ok_msg ft fno d) = d"
proof -
  have "(ucast (of_nat (length d) :: u32) :: u16) = of_nat (length d)"
    using assms by (simp add: unsigned_of_nat take_bit_nat_eq_self)
  then show "hdr_type (ok_msg ft fno d) = 3" "hdr_ftype (ok_msg ft fno d) = ft" "hdr_fno (ok_msg ft fno d) = fno"
    "hdr_flen (ok_msg ft fno d) = of_nat (length d)" "drop 6 (ok_msg ft fno d) = d"
    by (simp_all add: ok_msg_def tl_hdr_def bytes16_def hdr_type_def hdr_ftype_def hdr_fno_def hdr_flen_def
        word16_bytes16)
qed

text \<open>What matters of the client between requests: the next frame, the requested window, what was sent.\<close>

definition client_at :: "scom_tl \<Rightarrow> nat \<Rightarrow> nat \<Rightarrow> nat \<Rightarrow> bytes list \<Rightarrow> bool" where
  "client_at s k fno fcnt sent \<longleftrightarrow> rx_fno (rx_ctl s) = int k - 1 \<and> req_fno (rx_ctl s) = of_nat fno
     \<and> req_fcnt (rx_ctl s) = of_nat fcnt \<and> tl_out s = sent"

lemma client_frame:
  assumes "client_at s k fno fcnt sent" "k < fno + fcnt" "fno + fcnt < 65536" "length d \<le> 242"
    and "ft \<noteq> SCOM_TL_LAST_FRAME"
  shows "client_at (scom_tl_msg_proc s (ok_msg ft (of_nat k) d)) (Suc k) fno fcnt sent"
proof -
  have k: "unat (of_nat k :: u16) = k" using assms(2,3) by (simp add: unat_of_nat)
  then have ku: "uint (of_nat k :: u16) = int k" by (simp only: uint_nat)
  have "unat (of_nat fno + of_nat fcnt :: u32) = fno + fcnt"
  proof -
    have "(of_nat fno + of_nat fcnt :: u32) = of_nat (fno + fcnt)" by simp
    then show ?thesis using assms(3) by (simp only: unat_of_nat_32)
  qed
  moreover have "unat (ucast (of_nat k :: u16) :: u32) = k"
    using k assms(2,3) by (simp add: unsigned_ucast_eq take_bit_nat_eq_self)
  ultimately have "(ucast (of_nat k :: u16) :: u32) \<noteq> of_nat fno + of_nat fcnt" using assms(2) by force
  then show ?thesis
    using assms ku ok_msg_fields [of d ft "of_nat k"]
    by (simp add: scom_tl_msg_proc_def scom_tl_proc_data_ok_res_def client_at_def Let_def)
qed

lemma client_window:
  "client_at s k fno fcnt sent \<Longrightarrow> k + length ds \<le> fno + fcnt \<Longrightarrow> fno + fcnt < 65536 \<Longrightarrow>
   \<forall>d\<in>set ds. length (snd d) \<le> 242 \<and> fst d \<noteq> SCOM_TL_LAST_FRAME \<Longrightarrow>
   client_at (foldl (\<lambda>s (i, ft, d). scom_tl_msg_proc s (ok_msg ft (of_nat i) d)) s (zip [k..<k + length ds] ds))
     (k + length ds) fno fcnt sent"
proof (induction ds arbitrary: s k)
  case (Cons d ds)
  have "client_at (scom_tl_msg_proc s (ok_msg (fst d) (of_nat k) (snd d))) (Suc k) fno fcnt sent"
    using Cons.prems by (intro client_frame) auto
  from Cons.IH [OF this] Cons.prems show ?case
    by (cases d) (simp add: upt_conv_Cons del: upt_Suc)
qed simp

section \<open>A transfer of one frame\<close>

lemma send_frame_only_out: "send_frame s mt ft fno data len = s\<lparr>tl_out := tl_out (send_frame s mt ft fno data len)\<rparr>"
  by (simp add: send_frame_def scom_tl_send_frame_def split: option.split prod.split)

lemma send_frame_fields [simp]:
  "scom_tl_status (send_frame s mt ft fno data len) = scom_tl_status s"
  "rx_ctl (send_frame s mt ft fno data len) = rx_ctl s"
  by (subst send_frame_only_out, simp)+

lemma send_data_req_fields [simp]:
  "scom_tl_status (scom_tl_send_data_req s) = scom_tl_status s"
  "rx_ftype (rx_ctl (scom_tl_send_data_req s)) = rx_ftype (rx_ctl s)"
  by (simp_all add: scom_tl_send_data_req_def Let_def)

text \<open>The application's calls: the final flags, and the state afterwards.\<close>

fun get_all :: "scom_tl \<Rightarrow> (bytes \<times> u32) list \<Rightarrow> bool list \<times> scom_tl" where
  "get_all s [] = ([], s)"
| "get_all s ((buf, len) # cs) = (case scom_tl_get_data s buf len of
     (n, fin, d, s') \<Rightarrow> case get_all s' cs of (fins, s'') \<Rightarrow> (fin # fins, s''))"

lemma get_data_not_last:
  assumes "scom_tl_status s = CLIENT_STARTED" "rx_ftype (rx_ctl s) \<noteq> 3" "scom_tl_get_data s buf len = (n, fin, d, s')"
  shows "\<not> fin \<and> scom_tl_status s' = CLIENT_STARTED \<and> rx_ftype (rx_ctl s') = rx_ftype (rx_ctl s)"
  using assms by (auto simp: scom_tl_get_data_def Let_def split: if_splits prod.splits)

lemma get_all_not_last:
  "scom_tl_status s = CLIENT_STARTED \<Longrightarrow> rx_ftype (rx_ctl s) \<noteq> 3 \<Longrightarrow> get_all s cs = (fins, s') \<Longrightarrow>
   True \<notin> set fins \<and> scom_tl_status s' = CLIENT_STARTED"
proof (induction cs arbitrary: s fins)
  case (Cons c cs)
  obtain buf len where c: "c = (buf, len)" by force
  obtain n fin d s1 where 1: "scom_tl_get_data s buf len = (n, fin, d, s1)" by (metis prod_cases4)
  obtain fins1 s2 where 2: "get_all s1 cs = (fins1, s2)" by force
  from get_data_not_last [OF Cons.prems(1,2) 1] Cons.IH [of s1 fins1] Cons.prems(2,3) show ?case
    by (auto simp: c 1 2)
qed simp

section \<open>Properties\<close>

definition demo_ring :: "nat \<Rightarrow> u32 \<Rightarrow> ring_buffer" where
  "demo_ring n sz = \<lparr>buffer = replicate n 0, rb_size = sz, in_pos = 0, out_pos = 0\<rparr>"

definition demo_tl :: scom_tl where
  "demo_tl = \<lparr>scom_tl_status = IDLE, scom_tl_tx_rb = demo_ring 524288 524288, scom_tl_rx_rb = demo_ring 2048 2048,
     rx_ctl = rx_ctl_init, get_time = 50, dev_open = True, tx_fun = True, proc_fun = replicate 11 True,
     resend_timer = None, tl_out = [], tl_up = []\<rparr>"

lemma demo_ring_wf: "rb_wf (demo_ring 524288 524288)" "rb_wf (demo_ring 2048 2048)"
  by (simp_all add: rb_wf_def demo_ring_def is_power_of_2_def rb_used_len_def)

text \<open>A frame of at most 242 bytes of data never fails to encode into the 512-byte buffer, however
  many bytes have to be escaped; what is sent decodes to exactly header and data.\<close>

lemma scom_frame_fits:
  assumes "dev_open s" "tx_fun s" "length d \<le> 242"
  shows "\<exists>wire. scom_tl_send_frame s mt ft fno (Some d) (of_nat (length d)) = (0, s\<lparr>tl_out := tl_out s @ [wire]\<rparr>)
    \<and> length wire \<le> 500 \<and> frames None wire = ([tl_hdr mt ft fno (of_nat (length d)) @ d], None)"
proof -
  let ?m = "tl_hdr mt ft fno (of_nat (length d)) @ d"
  have "unat (of_nat (length d) :: u32) = length d" using assms(3) by (simp add: unat_of_nat)
  then have "scom_tl_send_frame s mt ft fno (Some d) (of_nat (length d)) = (0, s\<lparr>tl_out := tl_out s @ [dccp_frame ?m]\<rparr>)"
    using send_frame_ok [OF assms(1) refl, of "of_nat (length d)" "Some d"] assms by simp
  moreover have "length (dccp_frame ?m) \<le> 500"
    using length_escape [of "?m @ [msg_cs ?m]"] assms(3) by (simp add: dccp_frame_def del: escape_append)
  moreover have "frames None (dccp_frame ?m) = ([?m], None)" using frames_dccp_frame [of ?m "[]"] by simp
  ultimately show ?thesis by blast
qed

lemma scom_frame_fits_witness:
  "fst (scom_tl_send_frame demo_tl 3 1 0 (Some (replicate 242 0x7E)) 242) = 0"
proof -
  have "dev_open demo_tl" "tx_fun demo_tl" by (simp_all add: demo_tl_def)
  from scom_frame_fits [OF this, of "replicate 242 0x7E" 3 1 0] show ?thesis by auto
qed

text \<open>Starting the server with up to 512 KB and answering a request sends, in order and once each,
  the requested frames up to the last one; each carries its 242-byte fragment, and together the
  fragments are the data.\<close>

lemma scom_server_serves:
  assumes "rb_wf (scom_tl_tx_rb s)" "unat (rb_size (scom_tl_tx_rb s)) = 524288" "scom_tl_status s \<noteq> SERVER_STARTED"
    and "data \<noteq> []" "length data \<le> 524288" "dev_open s" "tx_fun s" "unat fno \<le> last_fno data"
  shows "\<exists>s'. scom_tl_start_server s data (of_nat (length data)) = (0, s') \<and>
      tl_out (scom_tl_msg_proc s' (req_msg fno fcnt)) =
        tl_out s @ map (data_frame data) [unat fno..<min (unat fno + unat fcnt) (Suc (last_fno data))] \<and>
      concat (map (fragment data) [0..<Suc (last_fno data)]) = data"
proof -
  from start_server_serving [OF assms(1-3,5)] obtain s' where s':
    "scom_tl_start_server s data (of_nat (length data)) = (0, s')" "serving s' data"
    "s' = s\<lparr>scom_tl_tx_rb := scom_tl_tx_rb s', scom_tl_status := SERVER_STARTED\<rparr>" by blast
  from s'(3) have io: "tl_out s' = tl_out s" "dev_open s' = dev_open s" "tx_fun s' = tx_fun s"
    by (metis scom_tl.select_convs scom_tl.simps scom_tl.surjective scom_tl.update_convs)+
  have "tl_out (scom_tl_msg_proc s' (req_msg fno fcnt)) =
      tl_out s' @ map (data_frame data) [unat fno..<min (unat fno + unat fcnt) (Suc (last_fno data))]"
    using msg_proc_req [OF s'(2) assms(4)] assms(6,7,8) io by (simp del: upt_Suc)
  with s'(1) io(1) fragments_concat show ?thesis by metis
qed

text \<open>A client that asked for \<open>fcnt\<close> frames and receives all of them, none the last of the transfer,
  sends no request for more: the test for the last requested frame waits for number \<open>fno + fcnt\<close>,
  one past it.\<close>

lemma scom_client_window_not_renewed:
  assumes "client_at s fno fno fcnt sent" "length ds = fcnt" "fno + fcnt < 65536"
    and "\<forall>d\<in>set ds. length (snd d) \<le> 242 \<and> fst d \<noteq> 3"
  shows "tl_out (foldl (\<lambda>s (i, ft, d). scom_tl_msg_proc s (ok_msg ft (of_nat i) d)) s (zip [fno..<fno + fcnt] ds)) = sent"
  using client_window [of s fno fno fcnt sent ds] assms by (simp add: client_at_def)

lemma scom_client_window_not_renewed_witness:
  "tl_out (foldl (\<lambda>s (i, ft, d). scom_tl_msg_proc s (ok_msg ft (of_nat i) d)) (snd (scom_tl_start_client demo_tl))
     (zip [0..<5] (replicate 5 (2, [1, 2, 3])))) = tl_out (snd (scom_tl_start_client demo_tl))"
proof -
  have "req_fcnt (rx_ctl (snd (scom_tl_start_client demo_tl))) = 5" "req_fno (rx_ctl (snd (scom_tl_start_client demo_tl))) = 0"
    "rx_fno (rx_ctl (snd (scom_tl_start_client demo_tl))) = - 1"
    by (simp_all add: scom_tl_start_client_def scom_tl_send_data_req_def demo_tl_def rx_ctl_init_def
        rb_clean_wf(5) [OF demo_ring_wf(2)] Let_def) (simp_all add: demo_ring_def)
  then have "client_at (snd (scom_tl_start_client demo_tl)) 0 0 5 (tl_out (snd (scom_tl_start_client demo_tl)))"
    by (simp add: client_at_def)
  from scom_client_window_not_renewed [OF this, of "replicate 5 (2, [1, 2, 3])"] show ?thesis by simp
qed

text \<open>A transfer that fits one frame never ends for the client: the server marks that frame as a single
  frame, the client only ends on a last frame, so however often the application asks for data, it is never
  told that the transfer is finished.\<close>

lemma scom_single_frame_never_finishes:
  assumes "scom_tl_status s = CLIENT_STARTED" "rx_fno (rx_ctl s) = - 1" "0 < length data" "length data \<le> 242"
  shows "frame_ftype (last_fno data) 0 = 0
    \<and> True \<notin> set (fst (get_all (scom_tl_msg_proc s (ok_msg (frame_ftype (last_fno data) 0) 0 data)) calls))"
proof -
  have f: "frame_ftype (last_fno data) 0 = 0" using assms(3,4) by (simp add: frame_ftype_def last_fno_def)
  let ?s = "scom_tl_msg_proc s (ok_msg 0 0 data)"
  have l: "length data < 65536" using assms(4) by simp
  have "scom_tl_status ?s = CLIENT_STARTED \<and> rx_ftype (rx_ctl ?s) \<noteq> 3"
    using assms(1,2) ok_msg_fields [OF l, of 0 0]
    by (simp add: scom_tl_msg_proc_def scom_tl_proc_data_ok_res_def Let_def)
  with f get_all_not_last [of ?s calls] show ?thesis by (cases "get_all ?s calls") auto
qed

lemma scom_single_frame_never_finishes_witness:
  "True \<notin> set (fst (get_all (scom_tl_msg_proc (snd (scom_tl_start_client demo_tl)) (ok_msg 0 0 [1, 2, 3]))
     [(replicate 10 0, 10), (replicate 10 0, 10)]))"
proof -
  have "scom_tl_status (snd (scom_tl_start_client demo_tl)) = CLIENT_STARTED"
    "rx_fno (rx_ctl (snd (scom_tl_start_client demo_tl))) = - 1"
    by (simp_all add: scom_tl_start_client_def scom_tl_send_data_req_def demo_tl_def rx_ctl_init_def Let_def)
  from scom_single_frame_never_finishes [OF this, of "[1, 2, 3]"] show ?thesis
    by (simp add: last_fno_def frame_ftype_def del: get_all.simps)
qed

end
