(* ===== verification/LinkList.thy ===== *)
theory LinkList
  imports Prelude
begin

text \<open>
  The doubly linked lists of \<^verbatim>\<open>include/list.h\<close> on an explicit store: \<open>lnext\<close> and \<open>lprev\<close> are the two
  pointers of every cell, a list is a head cell and the cells it links. The operations are the
  pointer assignments of the header in their order; \<open>dll h l xs\<close> says that the cells \<open>xs\<close> hang
  on the head \<open>l\<close>, and the lemmas show that on such stores the operations are those of lists and
  leave every other list alone.
\<close>

section \<open>Cells and operations\<close>

record 'a cells =
  lnext :: "'a \<Rightarrow> 'a"
  lprev :: "'a \<Rightarrow> 'a"

definition set_next :: "'a cells \<Rightarrow> 'a \<Rightarrow> 'a \<Rightarrow> 'a cells" where "set_next h n v = h\<lparr>lnext := (lnext h)(n := v)\<rparr>"
definition set_prev :: "'a cells \<Rightarrow> 'a \<Rightarrow> 'a \<Rightarrow> 'a cells" where "set_prev h n v = h\<lparr>lprev := (lprev h)(n := v)\<rparr>"

definition list_init :: "'a cells \<Rightarrow> 'a \<Rightarrow> 'a cells" where
  "list_init h l = set_prev (set_next h l l) l l"

definition list_insert_before :: "'a cells \<Rightarrow> 'a \<Rightarrow> 'a \<Rightarrow> 'a cells" where
  "list_insert_before h l node =
     (let h = set_prev h node (lprev h l);
          h = set_next h node l;
          h = set_next h (lprev h l) node
      in set_prev h l node)"

definition list_insert_after :: "'a cells \<Rightarrow> 'a \<Rightarrow> 'a \<Rightarrow> 'a cells" where
  "list_insert_after h l node =
     (let h = set_next h node (lnext h l);
          h = set_prev h node l;
          h = set_prev h (lnext h l) node
      in set_next h l node)"

definition list_delete :: "'a cells \<Rightarrow> 'a \<Rightarrow> 'a cells" where
  "list_delete h node =
     (let h = set_next h (lprev h node) (lnext h node)
      in set_prev h (lnext h node) (lprev h node))"

definition list_empty :: "'a cells \<Rightarrow> 'a \<Rightarrow> bool" where
  "list_empty h l \<longleftrightarrow> lnext h l = l \<or> lprev h l = l"

definition list_get_first :: "'a cells \<Rightarrow> 'a \<Rightarrow> 'a option \<times> 'a cells" where
  "list_get_first h l =
     (if \<not> list_empty h l then (Some (lnext h l), list_delete h (lnext h l)) else (None, h))"

definition list_get_last :: "'a cells \<Rightarrow> 'a \<Rightarrow> 'a option \<times> 'a cells" where
  "list_get_last h l =
     (if \<not> list_empty h l then (Some (lprev h l), list_delete h (lprev h l)) else (None, h))"

text \<open>The counting loop follows the pointers until it meets the head; on a broken store it need not
  end, which is the value \<open>None\<close>.\<close>

partial_function (option) list_count_from :: "'a cells \<Rightarrow> 'a \<Rightarrow> 'a \<Rightarrow> nat \<Rightarrow> nat option" where
  "list_count_from h l node cnt =
     (if node = l then Some cnt else list_count_from h l (lnext h node) (cnt + 1))"

definition list_count :: "'a cells \<Rightarrow> 'a \<Rightarrow> nat option" where
  "list_count h l = list_count_from h l (lnext h l) 0"

section \<open>Segments\<close>

fun seg :: "'a cells \<Rightarrow> 'a \<Rightarrow> 'a list \<Rightarrow> 'a \<Rightarrow> bool" where
  "seg h a [] b = (lnext h a = b \<and> lprev h b = a)"
| "seg h a (x # xs) b = (lnext h a = x \<and> lprev h x = a \<and> seg h x xs b)"

definition dll :: "'a cells \<Rightarrow> 'a \<Rightarrow> 'a list \<Rightarrow> bool" where
  "dll h l xs \<longleftrightarrow> distinct (l # xs) \<and> seg h l xs l"

lemma seg_append: "seg h a (xs @ x # ys) b = (seg h a xs x \<and> seg h x ys b)"
  by (induction xs arbitrary: a) auto

lemma seg_cong:
  "\<forall>v\<in>insert a (set xs). lnext h' v = lnext h v \<Longrightarrow> \<forall>v\<in>insert b (set xs). lprev h' v = lprev h v
   \<Longrightarrow> seg h' a xs b = seg h a xs b"
  by (induction xs arbitrary: a) auto

lemma cell_updates [simp]:
  "lnext (set_next h n v) = (lnext h)(n := v)" "lprev (set_next h n v) = lprev h"
  "lnext (set_prev h n v) = lnext h" "lprev (set_prev h n v) = (lprev h)(n := v)"
  by (simp_all add: set_next_def set_prev_def)

lemmas cell_ops = list_init_def list_insert_before_def list_insert_after_def list_delete_def Let_def

lemma dll_empty: "dll h l xs \<Longrightarrow> list_empty h l \<longleftrightarrow> xs = []"
proof (cases xs rule: rev_cases)
  case (snoc ys y)
  moreover assume "dll h l xs"
  ultimately show ?thesis by (cases ys) (auto simp: dll_def list_empty_def seg_append)
qed (auto simp: dll_def list_empty_def)

lemma dll_init: "dll (list_init h l) l []"
  by (simp add: dll_def cell_ops)

text \<open>The last cell of a segment, and its first one.\<close>

lemma seg_last: "seg h a xs b \<Longrightarrow> lprev h b = last (a # xs)"
  by (induction xs arbitrary: a) auto

lemma seg_first: "seg h a xs b \<Longrightarrow> lnext h a = hd (xs @ [b])"
  by (cases xs) auto

lemma dll_insert_before:
  assumes "dll h l xs" "n \<notin> insert l (set xs)"
  shows "dll (list_insert_before h l n) l (xs @ [n])"
proof (cases xs rule: rev_cases)
  case Nil
  with assms show ?thesis by (auto simp: dll_def cell_ops)
next
  case (snoc ys y)
  with assms have d: "distinct (l # ys @ [y])" "n \<noteq> l" "n \<noteq> y" "n \<notin> set ys"
    and s: "seg h l ys y" "lnext h y = l" "lprev h l = y"
    by (auto simp: dll_def seg_append)
  have "seg (list_insert_before h l n) l ys y = seg h l ys y"
    using d s(3) by (intro seg_cong) (auto simp: cell_ops)
  with d s snoc show ?thesis by (auto simp: dll_def seg_append cell_ops)
qed

lemma dll_insert_after:
  assumes "dll h l xs" "n \<notin> insert l (set xs)"
  shows "dll (list_insert_after h l n) l (n # xs)"
proof (cases xs)
  case Nil
  with assms show ?thesis by (auto simp: dll_def cell_ops)
next
  case (Cons y ys)
  with assms have d: "distinct (l # y # ys)" "n \<noteq> l" "n \<noteq> y" "n \<notin> set ys"
    and s: "seg h y ys l" "lnext h l = y" "lprev h y = l"
    by (auto simp: dll_def)
  have "seg (list_insert_after h l n) y ys l = seg h y ys l"
    using d s(2) by (intro seg_cong) (auto simp: cell_ops)
  with d s Cons show ?thesis by (auto simp: dll_def cell_ops)
qed

lemma dll_delete:
  assumes "dll h l (xs @ x # ys)"
  shows "dll (list_delete h x) l (xs @ ys)"
proof -
  from assms have d: "distinct (l # xs @ x # ys)" and s: "seg h l xs x" "seg h x ys l"
    by (auto simp: dll_def seg_append)
  let ?h = "list_delete h x"
  have p: "lprev h x = last (l # xs)" and n: "lnext h x = hd (ys @ [l])"
    using seg_last [OF s(1)] seg_first [OF s(2)] by simp_all
  show ?thesis
  proof (cases ys)
    case Nil
    have "seg ?h l xs l"
    proof (cases xs rule: rev_cases)
      case Nil
      with s \<open>ys = []\<close> show ?thesis by (simp add: cell_ops)
    next
      case (snoc zs z)
      have "seg ?h l zs z = seg h l zs z"
        using d snoc p n Nil by (intro seg_cong) (auto simp: cell_ops)
      with s snoc p n Nil d show ?thesis by (auto simp: seg_append cell_ops)
    qed
    with d Nil show ?thesis by (simp add: dll_def)
  next
    case (Cons y zs)
    have "set xs \<inter> set zs = {}" using d Cons by auto
    then have "xs \<noteq> [] \<Longrightarrow> last xs \<notin> set zs" using last_in_set by blast
    then have "seg ?h y zs l = seg h y zs l"
      using d Cons p n by (intro seg_cong) (auto simp: cell_ops split: if_splits)
    moreover have "seg ?h l xs y"
    proof (cases xs rule: rev_cases)
      case Nil
      with s Cons d show ?thesis by (auto simp: cell_ops)
    next
      case (snoc ws w)
      have "seg ?h l ws w = seg h l ws w"
        using d snoc p n Cons by (intro seg_cong) (auto simp: cell_ops)
      with s snoc p n Cons d show ?thesis by (auto simp: seg_append cell_ops)
    qed
    ultimately show ?thesis using s d Cons by (simp add: dll_def seg_append)
  qed
qed

text \<open>A circle of cells can be entered anywhere.\<close>

lemma dll_rotate: "dll h x (y # ys) \<Longrightarrow> dll h y (ys @ [x])"
  by (auto simp: dll_def seg_append)

lemma dll_rotate_back: "dll h x (ys @ [y]) \<Longrightarrow> dll h y (x # ys)"
  by (auto simp: dll_def seg_append)

lemma dll_prev: "dll h l xs \<Longrightarrow> lprev h l = last (l # xs)"
  using seg_last [of h l xs l] by (simp add: dll_def)

lemma dll_next: "dll h l xs \<Longrightarrow> lnext h l = hd (xs @ [l])"
  using seg_first [of h l xs l] by (simp add: dll_def)

lemma dll_get_first:
  assumes "dll h l xs"
  shows "list_get_first h l = (case xs of [] \<Rightarrow> (None, h) | x # _ \<Rightarrow> (Some x, list_delete h x))"
proof (cases xs)
  case (Cons y ys)
  with assms have "lnext h l = y" by (simp add: dll_def)
  with Cons dll_empty [OF assms] show ?thesis by (simp add: list_get_first_def)
qed (use dll_empty [OF assms] in \<open>simp add: list_get_first_def\<close>)

lemma dll_get_last:
  assumes "dll h l xs"
  shows "list_get_last h l = (if xs = [] then (None, h) else (Some (last xs), list_delete h (last xs)))"
proof -
  from assms have "seg h l xs l" by (simp add: dll_def)
  from seg_last [OF this] dll_empty [OF assms] show ?thesis by (simp add: list_get_last_def)
qed

lemma list_count_seg:
  "seg h a xs l \<Longrightarrow> l \<notin> set xs \<Longrightarrow> list_count_from h l (lnext h a) n = Some (n + length xs)"
  by (induction xs arbitrary: a n) (auto simp: list_count_from.simps [of h l])

lemma dll_count: "dll h l xs \<Longrightarrow> list_count h l = Some (length xs)"
  using list_count_seg [of h l xs l 0] by (simp add: list_count_def dll_def)

text \<open>The cells met on the way along the pointers, up to \<open>n\<close> of them.\<close>

fun chain :: "'a cells \<Rightarrow> 'a \<Rightarrow> 'a \<Rightarrow> nat \<Rightarrow> 'a list" where
  "chain h l node 0 = []"
| "chain h l node (Suc n) = (if node = l then [] else node # chain h l (lnext h node) n)"

lemma chain_seg: "seg h a xs l \<Longrightarrow> l \<notin> set xs \<Longrightarrow> length xs \<le> n \<Longrightarrow> chain h l (lnext h a) n = xs"
proof (induction xs arbitrary: a n)
  case Nil
  then show ?case by (cases n) auto
next
  case (Cons x xs)
  then show ?case by (cases n) auto
qed

lemma dll_chain: "dll h l xs \<Longrightarrow> length xs \<le> n \<Longrightarrow> chain h l (lnext h l) n = xs"
  by (simp add: dll_def chain_seg)

section \<open>Other lists are left alone\<close>

lemma dll_frame_insert_before:
  assumes "dll h l xs" "dll h m ys" "insert l (set xs) \<inter> insert m (set ys) = {}" "n \<notin> insert m (set ys)"
  shows "dll (list_insert_before h l n) m ys"
proof -
  have "lprev h l \<in> insert l (set xs)"
    using seg_last [of h l xs l] last_in_set [of "l # xs"] assms(1) by (auto simp: dll_def)
  then have "seg (list_insert_before h l n) m ys m = seg h m ys m"
    using assms(3,4) by (intro seg_cong) (auto simp: cell_ops)
  with assms(2) show ?thesis by (simp add: dll_def)
qed

lemma dll_frame_insert_after:
  assumes "dll h l xs" "dll h m ys" "insert l (set xs) \<inter> insert m (set ys) = {}" "n \<notin> insert m (set ys)"
  shows "dll (list_insert_after h l n) m ys"
proof -
  have "lnext h l \<in> insert l (set xs)"
    using seg_first [of h l xs l] assms(1) by (cases xs) (auto simp: dll_def)
  then have "seg (list_insert_after h l n) m ys m = seg h m ys m"
    using assms(3,4) by (intro seg_cong) (auto simp: cell_ops)
  with assms(2) show ?thesis by (simp add: dll_def)
qed

lemma dll_frame_delete:
  assumes "dll h l (xs @ x # zs)" "dll h m ys" "insert l (set (xs @ x # zs)) \<inter> insert m (set ys) = {}"
  shows "dll (list_delete h x) m ys"
proof -
  from assms(1) have s: "seg h l xs x" "seg h x zs l" by (auto simp: dll_def seg_append)
  have "lprev h x \<in> insert l (set xs)" "lnext h x \<in> insert l (set zs)"
    using seg_last [OF s(1)] seg_first [OF s(2)] last_in_set [of "l # xs"] by (cases zs; auto)+
  then have "seg (list_delete h x) m ys m = seg h m ys m"
    using assms(3) by (intro seg_cong) (auto simp: cell_ops)
  with assms(2) show ?thesis by (simp add: dll_def)
qed

text \<open>The cells of a list, spliced behind those of another one by four assignments.\<close>

lemma dll_splice:
  assumes l: "dll h l ys" and t: "dll h t (x # xs)" and disj: "insert l (set ys) \<inter> insert t (set (x # xs)) = {}"
  defines "h' \<equiv> set_prev (set_next (set_next (set_prev h x (last (l # ys))) (last (l # ys)) x) (last (x # xs)) l) l (last (x # xs))"
  shows "dll h' l (ys @ x # xs)"
    and "\<And>m zs. dll h m zs \<Longrightarrow> insert m (set zs) \<inter> (insert l (set ys) \<union> insert t (set (x # xs))) = {} \<Longrightarrow> dll h' m zs"
proof -
  have d: "distinct (l # ys @ x # xs)" using l t disj by (auto simp: dll_def)
  have sl: "seg h l ys l" and st: "seg h x xs t" using l t by (simp_all add: dll_def)
  have lastx: "last (x # xs) \<in> set (x # xs)" and lasty: "last (l # ys) \<in> set (l # ys)"
    by (rule last_in_set, simp)+
  have "seg h' l ys x"
  proof (cases ys rule: rev_cases)
    case Nil
    with d lastx show ?thesis by (auto simp: h'_def)
  next
    case (snoc ws w)
    have "seg h' l ws w = seg h l ws w"
      using d lastx snoc by (intro seg_cong) (auto simp: h'_def)
    with sl snoc d lastx show ?thesis by (auto simp: seg_append h'_def)
  qed
  moreover have "seg h' x xs l"
  proof (cases xs rule: rev_cases)
    case Nil
    with d show ?thesis by (auto simp: h'_def)
  next
    case (snoc us u)
    have "last (l # ys) \<notin> set (x # xs)" using d lasty by auto
    then have "seg h' x us u = seg h x us u"
      using d snoc by (intro seg_cong) (auto simp: h'_def)
    with st snoc d show ?thesis by (auto simp: seg_append h'_def)
  qed
  ultimately show "dll h' l (ys @ x # xs)" using d by (auto simp: dll_def seg_append)
  show "dll h' m zs" if "dll h m zs" "insert m (set zs) \<inter> (insert l (set ys) \<union> insert t (set (x # xs))) = {}" for m zs
  proof -
    have "seg h' m zs m = seg h m zs m"
      using that(2) lastx lasty by (intro seg_cong) (auto simp: h'_def split: if_splits)
    with that(1) show ?thesis by (simp add: dll_def)
  qed
qed

lemma dll_frame_init:
  assumes "dll h m ys" "l \<notin> insert m (set ys)"
  shows "dll (list_init h l) m ys"
proof -
  have "seg (list_init h l) m ys m = seg h m ys m"
    using assms(2) by (intro seg_cong) (auto simp: cell_ops)
  with assms(1) show ?thesis by (simp add: dll_def)
qed

end
