(* ===== verification/ListPool.thy ===== *)
theory ListPool
  imports LinkList
begin

text \<open>
  A fixed array of numbered blocks on several linked lists of one store, as the send pool of the TSP link
  and the report pool of GB/T 32960 keep them: \<open>heads\<close> are the list heads, \<open>node i\<close> is the link inside
  block \<open>i\<close>, \<open>N\<close> the number of blocks. \<open>cells_at heads node N h L H\<close> says that \<open>L a\<close> are the blocks
  on the list with head \<open>a\<close> and \<open>H\<close> those on none, every block in exactly one place. The interface
  \<open>list_pool\<close> asks only that the cells are different ones; inside it every list operation is proved to
  be an operation on \<open>L\<close> and \<open>H\<close>, and the blocks are counted.
\<close>

definition placed :: "'a set \<Rightarrow> nat \<Rightarrow> ('a \<Rightarrow> nat list) \<Rightarrow> nat set \<Rightarrow> bool" where
  "placed heads N L H \<longleftrightarrow>
     (\<forall>a\<in>heads. \<forall>i\<in>set (L a). i \<notin> H \<and> (\<forall>b\<in>heads. i \<in> set (L b) \<longrightarrow> b = a))
     \<and> (\<forall>i. i < N \<longleftrightarrow> i \<in> H \<or> (\<exists>a\<in>heads. i \<in> set (L a)))"

definition lists_at :: "'a set \<Rightarrow> (nat \<Rightarrow> 'a) \<Rightarrow> 'a cells \<Rightarrow> ('a \<Rightarrow> nat list) \<Rightarrow> bool" where
  "lists_at heads node h L \<longleftrightarrow> (\<forall>a\<in>heads. dll h a (map node (L a)))"

definition cells_at :: "'a set \<Rightarrow> (nat \<Rightarrow> 'a) \<Rightarrow> nat \<Rightarrow> 'a cells \<Rightarrow> ('a \<Rightarrow> nat list) \<Rightarrow> nat set \<Rightarrow> bool" where
  "cells_at heads node N h L H \<longleftrightarrow> lists_at heads node h L \<and> placed heads N L H"

lemma placed_disjoint:
  "placed A N L H \<Longrightarrow> a \<in> A \<Longrightarrow> b \<in> A \<Longrightarrow> a \<noteq> b \<Longrightarrow> set (L a) \<inter> set (L b) = {}"
  unfolding placed_def by blast

lemma bex_upd:
  assumes "a \<in> A"
  shows "(\<exists>b\<in>A. j \<in> set ((L(a := xs)) b)) \<longleftrightarrow> j \<in> set xs \<or> (\<exists>b\<in>A - {a}. j \<in> set (L b))"
    "(\<exists>b\<in>A. j \<in> set (L b)) \<longleftrightarrow> j \<in> set (L a) \<or> (\<exists>b\<in>A - {a}. j \<in> set (L b))"
proof -
  have A: "A = insert a (A - {a})" using assms by blast
  show "(\<exists>b\<in>A. j \<in> set ((L(a := xs)) b)) \<longleftrightarrow> j \<in> set xs \<or> (\<exists>b\<in>A - {a}. j \<in> set (L b))"
    by (subst A) auto
  show "(\<exists>b\<in>A. j \<in> set (L b)) \<longleftrightarrow> j \<in> set (L a) \<or> (\<exists>b\<in>A - {a}. j \<in> set (L b))"
    by (subst A) auto
qed

lemma placed_take:
  assumes "placed A N L H" "a \<in> A" "set (L a) = insert i (set is)" "i \<notin> set is"
  shows "placed A N (L(a := is)) (insert i H)"
proof -
  have elsewhere: "i \<notin> set (L b)" if "b \<in> A" "b \<noteq> a" for b
    using placed_disjoint [OF assms(1,2) that(1)] that(2) assms(3) by auto
  show ?thesis
    unfolding placed_def
  proof (intro conjI ballI allI impI)
    fix b j assume b: "b \<in> A" and j: "j \<in> set ((L(a := is)) b)"
    then have jL: "j \<in> set (L b)" using assms(3) by (cases "b = a") auto
    with assms(1) b have "j \<notin> H" unfolding placed_def by blast
    moreover have "j \<noteq> i" using b j assms(4) elsewhere by (cases "b = a") auto
    ultimately show "j \<notin> insert i H" by blast
  next
    fix b j d assume b: "b \<in> A" "j \<in> set ((L(a := is)) b)" and d: "d \<in> A" "j \<in> set ((L(a := is)) d)"
    then have "j \<in> set (L b)" "j \<in> set (L d)" using assms(3) by (auto split: if_splits)
    with assms(1) b(1) d(1) show "d = b" unfolding placed_def by blast
  next
    fix j
    have "(\<exists>b\<in>A. j \<in> set ((L(a := is)) b)) \<longleftrightarrow> (\<exists>b\<in>A. j \<in> set (L b))"
      if "j \<noteq> i" using that assms(3) by (simp only: bex_upd [OF assms(2)]) simp
    moreover have "i \<in> set (L a)" using assms(3) by simp
    then have "i < N" using assms(1,2) unfolding placed_def by blast
    ultimately show "j < N \<longleftrightarrow> j \<in> insert i H \<or> (\<exists>b\<in>A. j \<in> set ((L(a := is)) b))"
      using assms(1) unfolding placed_def by (cases "j = i") auto
  qed
qed

lemma placed_put:
  assumes "placed A N L H" "a \<in> A" "i \<in> H" "set xs = insert i (set (L a))"
  shows "placed A N (L(a := xs)) (H - {i})"
proof -
  have elsewhere: "i \<notin> set (L b)" if "b \<in> A" for b
    using assms(1,3) that unfolding placed_def by blast
  show ?thesis
    unfolding placed_def
  proof (intro conjI ballI allI impI)
    fix b j assume b: "b \<in> A" and j: "j \<in> set ((L(a := xs)) b)"
    show "j \<notin> H - {i}" using j assms(1,4) b unfolding placed_def by (cases "b = a") auto
  next
    fix b j d assume b: "b \<in> A" and j: "j \<in> set ((L(a := xs)) b)" and d: "d \<in> A"
      and jd: "j \<in> set ((L(a := xs)) d)"
    show "d = b"
    proof (cases "j = i")
      case True
      with j jd elsewhere b d show ?thesis by (auto split: if_splits)
    next
      case False
      then have "j \<in> set (L b)" "j \<in> set (L d)" using j jd assms(4) by (auto split: if_splits)
      with assms(1) b d show ?thesis unfolding placed_def by blast
    qed
  next
    fix j
    have "(\<exists>b\<in>A. j \<in> set ((L(a := xs)) b)) \<longleftrightarrow> j = i \<or> (\<exists>b\<in>A. j \<in> set (L b))"
      using assms(4) by (simp only: bex_upd [OF assms(2)]) simp
    then show "j < N \<longleftrightarrow> j \<in> H - {i} \<or> (\<exists>b\<in>A. j \<in> set ((L(a := xs)) b))"
      using assms(1,3) unfolding placed_def by auto
  qed
qed

text \<open>A further list, opened empty and merged into another one at the end.\<close>

lemma placed_open:
  assumes "placed A N L H" "t \<notin> A"
  shows "placed (insert t A) N (L(t := [])) H"
proof -
  have at: "j \<in> set ((L(t := [])) b) \<longleftrightarrow> b \<noteq> t \<and> j \<in> set (L b)" for b j by simp
  show ?thesis using assms unfolding placed_def Ball_def Bex_def at by blast
qed

lemma placed_merge:
  assumes p: "placed (insert t A) N L H" and t: "t \<notin> A" "d \<in> A"
  shows "placed A N (L(t := [], d := L d @ L t)) H"
proof -
  let ?L = "L(t := [], d := L d @ L t)"
  have at: "j \<in> set (?L b) \<longleftrightarrow> j \<in> set (L b) \<or> b = d \<and> j \<in> set (L t)" if "b \<in> A" for b j
    using that t by auto
  have one: "b = c" if "b \<in> insert t A" "c \<in> insert t A" "j \<in> set (L b)" "j \<in> set (L c)" for b c j
    using p that unfolding placed_def by blast
  show ?thesis
    unfolding placed_def
  proof (intro conjI ballI allI impI)
    fix b j assume b: "b \<in> A" "j \<in> set (?L b)"
    then obtain c where "c \<in> insert t A" "j \<in> set (L c)" using at [OF b(1)] by blast
    with p show "j \<notin> H" unfolding placed_def by blast
  next
    fix b j c assume b: "b \<in> A" "j \<in> set (?L b)" and c: "c \<in> A" "j \<in> set (?L c)"
    then show "c = b" using at [OF b(1)] at [OF c(1)] one [of b c j] one [of b t j] one [of c t j] t(1) by blast
  next
    fix j
    have "(\<exists>b\<in>A. j \<in> set (?L b)) \<longleftrightarrow> (\<exists>b\<in>insert t A. j \<in> set (L b))" using at t(2) by blast
    then show "j < N \<longleftrightarrow> j \<in> H \<or> (\<exists>b\<in>A. j \<in> set (?L b))" using p unfolding placed_def by simp
  qed
qed

lemma lists_upd:
  assumes "lists_at A f h L" "dll h' a (map f xs)"
    and "\<And>b. b \<in> A \<Longrightarrow> b \<noteq> a \<Longrightarrow> dll h b (map f (L b)) \<Longrightarrow> dll h' b (map f (L b))"
  shows "lists_at A f h' (L(a := xs))"
  using assms by (auto simp: lists_at_def)

lemma lists_dll: "lists_at A f h L \<Longrightarrow> a \<in> A \<Longrightarrow> dll h a (map f (L a))"
  by (simp add: lists_at_def)

lemma cells_dll: "cells_at A f N h L H \<Longrightarrow> a \<in> A \<Longrightarrow> dll h a (map f (L a))"
  by (simp add: cells_at_def lists_at_def)

lemma cells_at_less: "cells_at A f N h L H \<Longrightarrow> i \<in> H \<or> a \<in> A \<and> i \<in> set (L a) \<Longrightarrow> i < N"
  unfolding cells_at_def placed_def by blast

lemma cells_at_apart: "cells_at A f N h L H \<Longrightarrow> a \<in> A \<Longrightarrow> i \<in> set (L a) \<Longrightarrow> i \<notin> H"
  unfolding cells_at_def placed_def by blast

lemma cells_at_one: "cells_at A f N h L H \<Longrightarrow> a \<in> A \<Longrightarrow> b \<in> A \<Longrightarrow> a \<noteq> b \<Longrightarrow> i \<in> set (L a) \<Longrightarrow> i \<notin> set (L b)"
  unfolding cells_at_def placed_def by blast

text \<open>Every block is counted once.\<close>

lemma cells_at_distinct: "cells_at A f N h L H \<Longrightarrow> a \<in> A \<Longrightarrow> distinct (L a)"
  by (auto simp: cells_at_def lists_at_def dll_def distinct_map)

lemma cells_at_total:
  assumes c: "cells_at A f N h L H" and "finite A" "finite H"
  shows "card H + (\<Sum>a\<in>A. length (L a)) = N"
proof -
  have disj: "\<forall>a\<in>A. \<forall>b\<in>A. a \<noteq> b \<longrightarrow> set (L a) \<inter> set (L b) = {}"
    using cells_at_one [OF c] by blast
  have "H \<union> (\<Union>a\<in>A. set (L a)) = {0..<N}"
  proof (rule set_eqI)
    fix i
    have "i < N \<longleftrightarrow> i \<in> H \<or> (\<exists>a\<in>A. i \<in> set (L a))" using c by (simp add: cells_at_def placed_def)
    then show "i \<in> H \<union> (\<Union>a\<in>A. set (L a)) \<longleftrightarrow> i \<in> {0..<N}" by simp
  qed
  moreover have "H \<inter> (\<Union>a\<in>A. set (L a)) = {}" using cells_at_apart [OF c] by blast
  ultimately have "card H + card (\<Union>a\<in>A. set (L a)) = N"
    using card_Un_disjoint [of H "\<Union>a\<in>A. set (L a)"] assms(2,3) by simp
  moreover have "card (\<Union>a\<in>A. set (L a)) = (\<Sum>a\<in>A. card (set (L a)))"
    using disj assms(2) by (intro card_UN_disjoint) auto
  moreover have "card (set (L a)) = length (L a)" if "a \<in> A" for a
    using cells_at_distinct [OF c that] by (simp add: distinct_card)
  ultimately show ?thesis by simp
qed

lemma cells_at_length:
  assumes c: "cells_at A f N h L H" and "a \<in> A"
  shows "length (L a) \<le> N"
proof -
  have "set (L a) \<subseteq> {0..<N}" using cells_at_less [OF c, of _ a] assms(2) by auto
  from card_mono [OF _ this] show ?thesis using distinct_card [OF cells_at_distinct [OF assms]] by simp
qed

text \<open>The first block of a list is put at the end of another, or of the same one.\<close>

definition moved :: "('a \<Rightarrow> nat list) \<Rightarrow> 'a \<Rightarrow> 'a \<Rightarrow> ('a \<Rightarrow> nat list)" where
  "moved L a b = (let L1 = L(a := tl (L a)) in L1(b := L1 b @ [hd (L a)]))"

lemma moved_set:
  assumes c: "cells_at A f N h L H" and a: "a \<in> A" "L a = i # is" and d: "d \<in> A" "j \<in> set (moved L a b d)"
  shows "d = b \<and> j = i \<or> j \<noteq> i \<and> j \<in> set (L d)"
proof -
  have "d = b \<and> j = i \<or> j \<in> set ((L(a := is)) d)" using d(2) a(2) by (auto simp: moved_def Let_def split: if_splits)
  moreover have "j \<noteq> i \<and> j \<in> set (L d)" if j: "j \<in> set ((L(a := is)) d)"
  proof (cases "d = a")
    case True
    with j cells_at_distinct [OF c a(1)] a(2) show ?thesis by auto
  next
    case False
    with j cells_at_one [OF c a(1) d(1), of i] a(2) show ?thesis by auto
  qed
  ultimately show ?thesis by blast
qed

locale list_pool =
  fixes heads :: "'a set" and node :: "nat \<Rightarrow> 'a" and N :: nat
  assumes node_inj: "node i = node j \<Longrightarrow> i = j"
    and head_not_node: "a \<in> heads \<Longrightarrow> a \<noteq> node i"
begin

lemma head_not_nodes: "a \<in> heads \<Longrightarrow> a \<notin> node ` X"
  using head_not_node by blast

lemma blocks_disjoint:
  assumes "a \<in> heads" "b \<in> heads" "a \<noteq> b" "X \<inter> Y = {}"
  shows "insert a (node ` X) \<inter> insert b (node ` Y) = {}"
proof -
  have "node ` X \<inter> node ` Y = {}" using assms(4) node_inj by blast
  then show ?thesis using assms(3) head_not_nodes [OF assms(1)] head_not_nodes [OF assms(2)] by blast
qed

lemma held_not_listed:
  assumes "placed heads N L H" "i \<in> H" "a \<in> heads"
  shows "node i \<notin> insert a (set (map node (L a)))"
proof -
  have "i \<notin> set (L a)" using assms unfolding placed_def by blast
  with head_not_node [OF assms(3), of i] node_inj show ?thesis by auto
qed

text \<open>A block leaves a list, from any place of it.\<close>

lemma cells_take_at:
  assumes "cells_at heads node N h L H" "a \<in> heads" "L a = xs @ i # ys"
  shows "cells_at heads node N (list_delete h (node i)) (L(a := xs @ ys)) (insert i H)"
proof -
  have l: "lists_at heads node h L" and p: "placed heads N L H" using assms(1) by (simp_all add: cells_at_def)
  have a: "dll h a (map node xs @ node i # map node ys)" using lists_dll [OF l assms(2)] assms(3) by simp
  then have i: "i \<notin> set (xs @ ys)" by (auto simp: dll_def)
  have "dll (list_delete h (node i)) b (map node (L b))"
    if b: "b \<in> heads" "b \<noteq> a" "dll h b (map node (L b))" for b
    using blocks_disjoint [OF assms(2) b(1) b(2)[symmetric] placed_disjoint [OF p assms(2) b(1) b(2)[symmetric]]]
      assms(3) by (intro dll_frame_delete [OF a b(3)]) (simp add: image_Un)
  moreover have "dll (list_delete h (node i)) a (map node (xs @ ys))" using dll_delete [OF a] by simp
  ultimately have "lists_at heads node (list_delete h (node i)) (L(a := xs @ ys))" by (intro lists_upd [OF l])
  with placed_take [OF p assms(2) _ i] assms(3) show ?thesis by (simp add: cells_at_def)
qed

lemma cells_take:
  "cells_at heads node N h L H \<Longrightarrow> a \<in> heads \<Longrightarrow> L a = i # is \<Longrightarrow>
   cells_at heads node N (list_delete h (node i)) (L(a := is)) (insert i H)"
  using cells_take_at [of h L H a "[]" i "is"] by simp

lemma cells_put_last:
  assumes "cells_at heads node N h L H" "a \<in> heads" "i \<in> H"
  shows "cells_at heads node N (list_insert_before h a (node i)) (L(a := L a @ [i])) (H - {i})"
proof -
  have l: "lists_at heads node h L" and p: "placed heads N L H" using assms(1) by (simp_all add: cells_at_def)
  note a = lists_dll [OF l assms(2)] and out = held_not_listed [OF p assms(3)]
  have "dll (list_insert_before h a (node i)) b (map node (L b))"
    if b: "b \<in> heads" "b \<noteq> a" "dll h b (map node (L b))" for b
    using blocks_disjoint [OF assms(2) b(1) b(2)[symmetric] placed_disjoint [OF p assms(2) b(1) b(2)[symmetric]]]
      out [OF b(1)] by (intro dll_frame_insert_before [OF a b(3)]) simp_all
  moreover have "dll (list_insert_before h a (node i)) a (map node (L a @ [i]))"
    using dll_insert_before [OF a out [OF assms(2)]] by simp
  ultimately have "lists_at heads node (list_insert_before h a (node i)) (L(a := L a @ [i]))" by (intro lists_upd [OF l])
  with placed_put [OF p assms(2,3), of "L a @ [i]"] show ?thesis by (simp add: cells_at_def)
qed

lemma cells_put_first:
  assumes "cells_at heads node N h L H" "a \<in> heads" "i \<in> H"
  shows "cells_at heads node N (list_insert_after h a (node i)) (L(a := i # L a)) (H - {i})"
proof -
  have l: "lists_at heads node h L" and p: "placed heads N L H" using assms(1) by (simp_all add: cells_at_def)
  note a = lists_dll [OF l assms(2)] and out = held_not_listed [OF p assms(3)]
  have "dll (list_insert_after h a (node i)) b (map node (L b))"
    if b: "b \<in> heads" "b \<noteq> a" "dll h b (map node (L b))" for b
    using blocks_disjoint [OF assms(2) b(1) b(2)[symmetric] placed_disjoint [OF p assms(2) b(1) b(2)[symmetric]]]
      out [OF b(1)] by (intro dll_frame_insert_after [OF a b(3)]) simp_all
  moreover have "dll (list_insert_after h a (node i)) a (map node (i # L a))"
    using dll_insert_after [OF a out [OF assms(2)]] by simp
  ultimately have "lists_at heads node (list_insert_after h a (node i)) (L(a := i # L a))" by (intro lists_upd [OF l])
  with placed_put [OF p assms(2,3), of "i # L a"] show ?thesis by (simp add: cells_at_def)
qed

lemma cells_get_first:
  assumes "cells_at heads node N h L H" "a \<in> heads"
  shows "list_get_first h a = (case L a of [] \<Rightarrow> (None, h) | i # _ \<Rightarrow> (Some (node i), list_delete h (node i)))"
  using dll_get_first [OF cells_dll [OF assms]] by (cases "L a") simp_all

lemma cells_get_last:
  assumes "cells_at heads node N h L H" "a \<in> heads"
  shows "list_get_last h a =
    (if L a = [] then (None, h) else (Some (node (last (L a))), list_delete h (node (last (L a)))))"
  using dll_get_last [OF cells_dll [OF assms]] by (simp add: last_map)

lemma cells_empty:
  "cells_at heads node N h L H \<Longrightarrow> a \<in> heads \<Longrightarrow> list_empty h a \<longleftrightarrow> L a = []"
  using dll_empty [OF cells_dll] by simp

text \<open>The initialisation: every head is made empty, then the blocks are appended to one list in their
  order.\<close>

lemma init_heads:
  assumes "set as \<subseteq> heads" "distinct as"
  shows "a \<in> set as \<Longrightarrow> dll (fold (\<lambda>a h. list_init h a) as h) a []"
  using assms
proof (induction as arbitrary: a rule: rev_induct)
  case (snoc b as)
  show ?case
  proof (cases "a = b")
    case False
    with snoc show ?thesis by (auto intro: dll_frame_init)
  qed (simp add: dll_init)
qed simp

lemma fill:
  assumes "\<forall>b\<in>heads. dll h b []" "a \<in> heads"
  shows "cells_at heads node N (fold (\<lambda>i h. list_insert_before h a (node i)) [0..<N] h)
    (\<lambda>b. if b = a then [0..<N] else []) {}"
proof -
  let ?L = "\<lambda>n b. if b = a then [0..<n] else []"
  have "lists_at heads node (fold (\<lambda>i h. list_insert_before h a (node i)) [0..<n] h) (?L n)" for n
  proof (induction n)
    case 0
    show ?case using assms(1) by (simp add: lists_at_def)
  next
    case (Suc n)
    let ?g = "fold (\<lambda>i h. list_insert_before h a (node i)) [0..<n] h"
    have f: "dll ?g a (map node [0..<n])"
      using bspec [OF Suc [unfolded lists_at_def] assms(2)] by (simp only: if_True refl)
    have out: "node n \<notin> insert b (set (map node [0..<n]))" if "b \<in> heads" for b
      using head_not_node [OF that, of n] node_inj [of n] by fastforce
    have "dll (list_insert_before ?g a (node n)) a (map node [0..<Suc n])"
      using dll_insert_before [OF f out [OF assms(2)]] by simp
    moreover have "dll (list_insert_before ?g a (node n)) b []" if "b \<in> heads" "b \<noteq> a" for b
    proof (rule dll_frame_insert_before [OF f])
      show "dll ?g b []" using bspec [OF Suc [unfolded lists_at_def] that(1)] that(2) by simp
    qed (use that head_not_nodes [OF that(1), of "{0..<n}"] head_not_node [OF that(1), of n] in auto)
    ultimately show ?case by (simp add: lists_at_def del: upt_Suc) (simp add: upt_Suc_append)
  qed
  moreover have "placed heads N (?L N) {}" using assms(2) by (auto simp: placed_def)
  ultimately show ?thesis by (simp add: cells_at_def)
qed

text \<open>Lists with other cells are left alone by every operation.\<close>

lemma foreign_take:
  assumes "cells_at heads node N h L H" "a \<in> heads" "L a = xs @ i # ys" "dll h m zs"
    "insert m (set zs) \<inter> (heads \<union> range node) = {}"
  shows "dll (list_delete h (node i)) m zs"
proof (rule dll_frame_delete [OF _ assms(4)])
  show "dll h a (map node xs @ node i # map node ys)" using cells_dll [OF assms(1,2)] assms(3) by simp
qed (use assms(2,5) in auto)

lemma foreign_put_last:
  assumes "cells_at heads node N h L H" "a \<in> heads" "dll h m zs" "insert m (set zs) \<inter> (heads \<union> range node) = {}"
  shows "dll (list_insert_before h a (node i)) m zs"
  by (rule dll_frame_insert_before [OF cells_dll [OF assms(1,2)] assms(3)]) (use assms(2,4) in auto)

lemma foreign_put_first:
  assumes "cells_at heads node N h L H" "a \<in> heads" "dll h m zs" "insert m (set zs) \<inter> (heads \<union> range node) = {}"
  shows "dll (list_insert_after h a (node i)) m zs"
  by (rule dll_frame_insert_after [OF cells_dll [OF assms(1,2)] assms(3)]) (use assms(2,4) in auto)

lemma moved_cells:
  assumes c: "cells_at heads node N h L H" and a: "a \<in> heads" "L a = i # is" "b \<in> heads"
  shows "cells_at heads node N (list_insert_before (list_delete h (node i)) b (node i)) (moved L a b) H"
    and "\<And>e es. dll h e es \<Longrightarrow> insert e (set es) \<inter> (heads \<union> range node) = {} \<Longrightarrow>
      dll (list_insert_before (list_delete h (node i)) b (node i)) e es"
proof -
  have c1: "cells_at heads node N (list_delete h (node i)) (L(a := is)) (insert i H)"
    by (rule cells_take [OF c a(1,2)])
  have i: "i \<notin> H" using cells_at_apart [OF c a(1), of i] a(2) by simp
  show "cells_at heads node N (list_insert_before (list_delete h (node i)) b (node i)) (moved L a b) H"
    using cells_put_last [OF c1 a(3), of i] i a(2) by (simp add: moved_def Let_def)
  show "dll (list_insert_before (list_delete h (node i)) b (node i)) e es"
    if "dll h e es" "insert e (set es) \<inter> (heads \<union> range node) = {}" for e es
    using foreign_take [OF c a(1) _ that, of "[]" i "is"] a(2)
    by (intro foreign_put_last [OF c1 a(3) _ that(2)]) simp
qed

end

end
