(* ===== verification/TxPool.thy ===== *)
theory TxPool
  imports ListPool
begin

text \<open>
  The send buffer of the TSP link, \<^verbatim>\<open>app/interface/hozon/sockproxy/sockproxy_txdata.c\<close>: 120 blocks on
  three linked lists, the free ones, those waiting to be sent and those sent but not
  acknowledged. The lists are those of \<open>LinkList\<close> on one store; a cell is one of the three heads
  or the link inside block \<open>i\<close>. \<open>SP_at s L H\<close> says which blocks hang on which list and which are in
  the hands of the sending thread; every operation is proved once against it.
\<close>

section \<open>The pool\<close>

datatype sp_cell = SP_free_lst | SP_realtm_lst | SP_trans_lst | SP_datamem nat

text \<open>\<^verbatim>\<open>PrvtProt_TxInform_t\<close>, as far as the sender and the owners of the messages read and write it. The nodes
  live in three arrays of the writers and two single variables; a block holds the address of one, so that what
  is written to the node later is seen by the sender. \<^verbatim>\<open>SP_Send_t\<close> has the callback parameter (\<open>None\<close> for \<open>NULL\<close>),
  whether there is a callback, and the list field.\<close>

datatype tx_node = PP_TxInform nat | rmtCtrl_TxInform nat | CertDL_TxInform nat | HB_TxInform | HBRS_TxInform

record TxInform =
  idleflag :: bool
  pakgtype :: u8
  eventtime :: u64
  successflg :: u8
  failresion :: u8
  txfailtime :: u64

record SP_Send_t =
  msgdata :: bytes
  msglen :: int
  Inform_cb_para :: "tx_node option"
  SendInform_cb :: bool
  block_list :: sp_cell

record sp_pool =
  sp_cells :: "sp_cell cells"
  sp_mem :: "SP_Send_t list"

abbreviation (input) "SP_MAX_SENDQUEUE \<equiv> 120 :: nat"
abbreviation (input) "SP_SENDBUFLNG \<equiv> 1456 :: int"

primrec list_entry :: "sp_cell \<Rightarrow> nat" where
  "list_entry (SP_datamem i) = i"
| "list_entry SP_free_lst = 0"
| "list_entry SP_realtm_lst = 0"
| "list_entry SP_trans_lst = 0"

definition SP_data_clearqueue :: "sp_pool \<Rightarrow> sp_pool" where
  "SP_data_clearqueue s =
     (let h = list_init (list_init (list_init (sp_cells s) SP_trans_lst) SP_realtm_lst) SP_free_lst
      in s\<lparr>sp_cells := fold (\<lambda>i h. list_insert_before h SP_free_lst (SP_datamem i)) [0..<SP_MAX_SENDQUEUE] h\<rparr>)"

definition SP_data_init :: "sp_pool \<Rightarrow> sp_pool" where "SP_data_init s = SP_data_clearqueue s"

text \<open>A write takes a free block or, when there is none, the oldest unacknowledged one; with neither it drops
  the message, as it drops one that is too long.\<close>

definition SP_write_block :: "sp_pool \<Rightarrow> sp_cell cells \<Rightarrow> sp_cell \<Rightarrow> bytes \<Rightarrow> int \<Rightarrow> bool \<Rightarrow> tx_node option \<Rightarrow> sp_pool" where
  "SP_write_block s h node data len cb para =
     (let i = list_entry node; b = sp_mem s ! i
      in s\<lparr>sp_mem := (sp_mem s)[i := b\<lparr>msglen := len, msgdata := blit (msgdata b) 0 (take (nat len) data),
                        block_list := SP_realtm_lst, SendInform_cb := cb, Inform_cb_para := para\<rparr>],
           sp_cells := list_insert_before h SP_realtm_lst node\<rparr>)"

definition SP_data_write :: "sp_pool \<Rightarrow> bytes \<Rightarrow> int \<Rightarrow> bool \<Rightarrow> tx_node option \<Rightarrow> sp_pool" where
  "SP_data_write s data len cb para =
     (if len \<le> SP_SENDBUFLNG then
        (case list_get_first (sp_cells s) SP_free_lst of
           (Some node, h) \<Rightarrow> SP_write_block s h node data len cb para
         | (None, h) \<Rightarrow>
             (case list_get_first h SP_trans_lst of
                (Some node, h) \<Rightarrow> SP_write_block s h node data len cb para
              | (None, h) \<Rightarrow> s\<lparr>sp_cells := h\<rparr>))
      else s)"

definition SP_data_get_pack :: "sp_pool \<Rightarrow> nat option \<times> sp_pool" where
  "SP_data_get_pack s =
     (case list_get_first (sp_cells s) SP_realtm_lst of
        (node, h) \<Rightarrow> (map_option list_entry node, s\<lparr>sp_cells := h\<rparr>))"

definition SP_data_put_back :: "sp_pool \<Rightarrow> nat \<Rightarrow> sp_pool" where
  "SP_data_put_back s i = s\<lparr>sp_cells := list_insert_after (sp_cells s) (block_list (sp_mem s ! i)) (SP_datamem i)\<rparr>"

definition SP_data_put_send :: "sp_pool \<Rightarrow> nat \<Rightarrow> sp_pool" where
  "SP_data_put_send s i = s\<lparr>sp_cells := list_insert_before (sp_cells s) SP_trans_lst (SP_datamem i)\<rparr>"

definition SP_data_ack_pack :: "sp_pool \<Rightarrow> sp_pool" where
  "SP_data_ack_pack s =
     (case list_get_first (sp_cells s) SP_trans_lst of
        (Some node, h) \<Rightarrow> s\<lparr>sp_cells := list_insert_before h SP_free_lst node\<rparr>
      | (None, h) \<Rightarrow> s\<lparr>sp_cells := h\<rparr>)"

section \<open>Where the blocks are\<close>

definition sp_heads :: "sp_cell set" where "sp_heads = {SP_free_lst, SP_realtm_lst, SP_trans_lst}"

abbreviation (input) sp_cells_at :: "sp_cell cells \<Rightarrow> (sp_cell \<Rightarrow> nat list) \<Rightarrow> nat set \<Rightarrow> bool" where
  "sp_cells_at \<equiv> cells_at sp_heads SP_datamem 120"

lemma heads_in [simp]: "SP_free_lst \<in> sp_heads" "SP_realtm_lst \<in> sp_heads" "SP_trans_lst \<in> sp_heads"
  by (simp_all add: sp_heads_def)

interpretation sp: list_pool sp_heads SP_datamem 120
  by unfold_locales (auto simp: sp_heads_def)

section \<open>The operations of the pool\<close>

definition SP_at :: "sp_pool \<Rightarrow> (sp_cell \<Rightarrow> nat list) \<Rightarrow> nat set \<Rightarrow> bool" where
  "SP_at s L H \<longleftrightarrow> sp_cells_at (sp_cells s) L H \<and> length (sp_mem s) = 120
     \<and> (\<forall>b\<in>set (sp_mem s). length (msgdata b) = 1456)
     \<and> (\<forall>i\<in>H \<union> set (L SP_realtm_lst). block_list (sp_mem s ! i) = SP_realtm_lst
          \<and> 0 \<le> msglen (sp_mem s ! i) \<and> msglen (sp_mem s ! i) \<le> 1456)"

lemma SP_get_law:
  assumes "SP_at s L H"
  shows "case L SP_realtm_lst of
      [] \<Rightarrow> SP_data_get_pack s = (None, s)
    | i # is \<Rightarrow> \<exists>s'. SP_data_get_pack s = (Some i, s') \<and> SP_at s' (L(SP_realtm_lst := is)) (insert i H) \<and> sp_mem s' = sp_mem s"
proof -
  have c: "sp_cells_at (sp_cells s) L H" using assms by (simp add: SP_at_def)
  show ?thesis
  proof (cases "L SP_realtm_lst")
    case Nil
    then show ?thesis by (simp add: SP_data_get_pack_def sp.cells_get_first [OF c])
  next
    case (Cons i "is")
    with sp.cells_take [OF c _ Cons] assms show ?thesis
      by (auto simp: SP_data_get_pack_def sp.cells_get_first [OF c] SP_at_def)
  qed
qed

lemma SP_put_back_law:
  assumes "SP_at s L H" "i \<in> H"
  shows "SP_at (SP_data_put_back s i) (L(SP_realtm_lst := i # L SP_realtm_lst)) (H - {i}) \<and> sp_mem (SP_data_put_back s i) = sp_mem s"
  using assms sp.cells_put_first [of "sp_cells s" L H SP_realtm_lst i] by (auto simp: SP_data_put_back_def SP_at_def)

lemma SP_put_send_law:
  assumes "SP_at s L H" "i \<in> H"
  shows "SP_at (SP_data_put_send s i) (L(SP_trans_lst := L SP_trans_lst @ [i])) (H - {i}) \<and> sp_mem (SP_data_put_send s i) = sp_mem s"
  using assms sp.cells_put_last [of "sp_cells s" L H SP_trans_lst i] by (auto simp: SP_data_put_send_def SP_at_def)

lemma SP_ack_law:
  assumes "SP_at s L H"
  shows "\<exists>L'. SP_at (SP_data_ack_pack s) L' H \<and> L' SP_realtm_lst = L SP_realtm_lst \<and> sp_mem (SP_data_ack_pack s) = sp_mem s"
proof -
  have c: "sp_cells_at (sp_cells s) L H" using assms by (simp add: SP_at_def)
  show ?thesis
  proof (cases "L SP_trans_lst")
    case Nil
    then have "SP_data_ack_pack s = s" by (simp add: SP_data_ack_pack_def sp.cells_get_first [OF c])
    with assms show ?thesis by auto
  next
    case (Cons i "is")
    let ?L = "L(SP_trans_lst := is, SP_free_lst := L SP_free_lst @ [i])"
    have "i \<notin> H" using cells_at_apart [OF c, of SP_trans_lst i] Cons by simp
    then have "sp_cells_at (list_insert_before (list_delete (sp_cells s) (SP_datamem i)) SP_free_lst (SP_datamem i)) ?L H"
      using sp.cells_put_last [OF sp.cells_take [OF c _ Cons], of SP_free_lst i] by simp
    with assms Cons have "SP_at (SP_data_ack_pack s) ?L H" "sp_mem (SP_data_ack_pack s) = sp_mem s"
      by (simp_all add: SP_data_ack_pack_def sp.cells_get_first [OF c] SP_at_def)
    then show ?thesis by (intro exI [of _ ?L]) simp
  qed
qed

definition block_msg :: "SP_Send_t \<Rightarrow> bytes" where "block_msg b = take (nat (msglen b)) (msgdata b)"

definition block_entry :: "SP_Send_t \<Rightarrow> bytes \<times> tx_node option \<times> bool" where
  "block_entry b = (block_msg b, Inform_cb_para b, SendInform_cb b)"

lemma SP_write_block_law:
  fixes cb para
  assumes "SP_at s L H" "a \<in> {SP_free_lst, SP_trans_lst}" "L a = i # is" "0 \<le> len" "len \<le> 1456" "nat len \<le> length data"
  defines "s' \<equiv> SP_write_block s (list_delete (sp_cells s) (SP_datamem i)) (SP_datamem i) data len cb para"
  shows "SP_at s' (L(a := is, SP_realtm_lst := L SP_realtm_lst @ [i])) H"
    and "block_entry (sp_mem s' ! i) = (take (nat len) data, para, cb)"
    and "j \<noteq> i \<Longrightarrow> sp_mem s' ! j = sp_mem s ! j"
proof -
  have c: "sp_cells_at (sp_cells s) L H" and m: "length (sp_mem s) = 120"
    and d: "\<forall>b\<in>set (sp_mem s). length (msgdata b) = 1456" using assms(1) by (simp_all add: SP_at_def)
  have a: "a \<in> sp_heads" "a \<noteq> SP_realtm_lst" using assms(2) by auto
  have i: "i < 120" "i \<notin> H" "i \<notin> set (L SP_realtm_lst)"
    using cells_at_less [OF c, of i a] cells_at_apart [OF c a(1), of i] cells_at_one [OF c a(1) _ a(2), of i]
      a(1) assms(3) by simp_all
  let ?b = "sp_mem s ! i"
  have bl: "length (msgdata ?b) = 1456" using d m i(1) by (simp add: nth_mem)
  have "nat len \<le> 1456" using assms(5) by simp
  then have bm: "length (blit (msgdata ?b) 0 (take (nat len) data)) = 1456"
    "take (nat len) (blit (msgdata ?b) 0 (take (nat len) data)) = take (nat len) data"
    using bl assms(6) by (simp_all add: blit_def)
  have "sp_cells_at (list_insert_before (list_delete (sp_cells s) (SP_datamem i)) SP_realtm_lst (SP_datamem i))
      (L(a := is, SP_realtm_lst := L SP_realtm_lst @ [i])) H"
    using sp.cells_put_last [OF sp.cells_take [OF c a(1) assms(3)], of SP_realtm_lst i] a i(2) by simp
  then show "SP_at s' (L(a := is, SP_realtm_lst := L SP_realtm_lst @ [i])) H"
    using assms(1,4,5) i m bm(1) unfolding s'_def SP_write_block_def SP_at_def
    by (auto simp: Let_def nth_list_update dest!: set_update_subset_insert [THEN subsetD])
  show "block_entry (sp_mem s' ! i) = (take (nat len) data, para, cb)" "j \<noteq> i \<Longrightarrow> sp_mem s' ! j = sp_mem s ! j"
    using i(1) m bm(2) by (simp_all add: s'_def SP_write_block_def Let_def block_entry_def block_msg_def)
qed

lemma SP_write_law:
  assumes "SP_at s L H" "0 \<le> len" "nat len \<le> length data"
  shows "len \<le> 1456 \<and> (L SP_free_lst \<noteq> [] \<or> L SP_trans_lst \<noteq> []) \<Longrightarrow>
     \<exists>L' i. SP_at (SP_data_write s data len cb para) L' H \<and> L' SP_realtm_lst = L SP_realtm_lst @ [i] \<and> i \<notin> H
       \<and> i \<notin> set (L SP_realtm_lst)
       \<and> block_entry (sp_mem (SP_data_write s data len cb para) ! i) = (take (nat len) data, para, cb)
       \<and> (\<forall>j. j \<noteq> i \<longrightarrow> sp_mem (SP_data_write s data len cb para) ! j = sp_mem s ! j)"
    and "\<not> (len \<le> 1456 \<and> (L SP_free_lst \<noteq> [] \<or> L SP_trans_lst \<noteq> [])) \<Longrightarrow> SP_data_write s data len cb para = s"
proof -
  have c: "sp_cells_at (sp_cells s) L H" using assms(1) by (simp add: SP_at_def)
  have step: "\<exists>L' i. SP_at s' L' H \<and> L' SP_realtm_lst = L SP_realtm_lst @ [i] \<and> i \<notin> H \<and> i \<notin> set (L SP_realtm_lst)
       \<and> block_entry (sp_mem s' ! i) = (take (nat len) data, para, cb) \<and> (\<forall>j. j \<noteq> i \<longrightarrow> sp_mem s' ! j = sp_mem s ! j)"
    if "a \<in> {SP_free_lst, SP_trans_lst}" "L a = i # is" "len \<le> 1456"
      "s' = SP_write_block s (list_delete (sp_cells s) (SP_datamem i)) (SP_datamem i) data len cb para" for a i "is" s'
  proof -
    have a: "a \<in> sp_heads" "a \<noteq> SP_realtm_lst" using that(1) by auto
    have "i \<notin> H" "i \<notin> set (L SP_realtm_lst)"
      using cells_at_apart [OF c a(1), of i] cells_at_one [OF c a(1) _ a(2), of i] that(2) by simp_all
    with SP_write_block_law [OF assms(1) that(1,2) assms(2) that(3) assms(3)] that(4) show ?thesis
      by (intro exI [of _ "L(a := is, SP_realtm_lst := L SP_realtm_lst @ [i])"] exI [of _ i]) simp
  qed
  show "\<exists>L' i. SP_at (SP_data_write s data len cb para) L' H \<and> L' SP_realtm_lst = L SP_realtm_lst @ [i] \<and> i \<notin> H
       \<and> i \<notin> set (L SP_realtm_lst)
       \<and> block_entry (sp_mem (SP_data_write s data len cb para) ! i) = (take (nat len) data, para, cb)
       \<and> (\<forall>j. j \<noteq> i \<longrightarrow> sp_mem (SP_data_write s data len cb para) ! j = sp_mem s ! j)"
    if h: "len \<le> 1456 \<and> (L SP_free_lst \<noteq> [] \<or> L SP_trans_lst \<noteq> [])"
  proof (cases "L SP_free_lst")
    case (Cons i "is")
    with step [of SP_free_lst i "is"] h show ?thesis by (simp add: SP_data_write_def sp.cells_get_first [OF c])
  next
    case Nil
    with h obtain i "is" where t: "L SP_trans_lst = i # is" by (cases "L SP_trans_lst") auto
    with step [of SP_trans_lst i "is"] h Nil show ?thesis by (simp add: SP_data_write_def sp.cells_get_first [OF c])
  qed
  show "SP_data_write s data len cb para = s"
    if "\<not> (len \<le> 1456 \<and> (L SP_free_lst \<noteq> [] \<or> L SP_trans_lst \<noteq> []))"
    using that by (auto simp: SP_data_write_def sp.cells_get_first [OF c])
qed

section \<open>Any run of writers, the sender and acknowledgements\<close>

text \<open>The sending thread holds at most one block at a time; writers and acknowledgements come in
  between. A run returns the messages accepted and the messages handed over as sent, in order.\<close>

datatype sp_op = OpWrite bytes int bool "tx_node option" | OpGet | OpPutBack | OpPutSend | OpAck

definition SP_accepts :: "sp_pool \<Rightarrow> int \<Rightarrow> bool" where
  "SP_accepts s len \<longleftrightarrow>
     len \<le> 1456 \<and> (\<not> list_empty (sp_cells s) SP_free_lst \<or> \<not> list_empty (sp_cells s) SP_trans_lst)"

fun sp_step :: "sp_pool \<times> nat option \<Rightarrow> sp_op \<Rightarrow> bytes list \<times> bytes list \<times> sp_pool \<times> nat option" where
  "sp_step (s, held) (OpWrite data len cb para) =
     ((if SP_accepts s len then [take (nat len) data] else []), [], SP_data_write s data len cb para, held)"
| "sp_step (s, held) OpGet =
     (case held of None \<Rightarrow> (case SP_data_get_pack s of (i, s') \<Rightarrow> ([], [], s', i)) | Some i \<Rightarrow> ([], [], s, held))"
| "sp_step (s, held) OpPutBack =
     (case held of None \<Rightarrow> ([], [], s, held) | Some i \<Rightarrow> ([], [], SP_data_put_back s i, None))"
| "sp_step (s, held) OpPutSend =
     (case held of None \<Rightarrow> ([], [], s, held)
      | Some i \<Rightarrow> ([], [block_msg (sp_mem s ! i)], SP_data_put_send s i, None))"
| "sp_step (s, held) OpAck = ([], [], SP_data_ack_pack s, held)"

fun sp_run :: "sp_pool \<times> nat option \<Rightarrow> sp_op list \<Rightarrow> bytes list \<times> bytes list \<times> sp_pool \<times> nat option" where
  "sp_run st [] = ([], [], st)"
| "sp_run st (p # ps) =
     (case sp_step st p of (acc, sent, st1) \<Rightarrow> case sp_run st1 ps of (acc', sent', st2) \<Rightarrow> (acc @ acc', sent @ sent', st2))"

fun sp_op_ok :: "sp_op \<Rightarrow> bool" where
  "sp_op_ok (OpWrite data len cb para) = (0 \<le> len \<and> nat len \<le> length data)"
| "sp_op_ok _ = True"

text \<open>What is waiting: the block in hand, then the list of those to be sent, read off the pointers.\<close>

definition sp_ids :: "sp_pool \<Rightarrow> nat option \<Rightarrow> nat list" where
  "sp_ids s held = (case held of None \<Rightarrow> [] | Some i \<Rightarrow> [i])
     @ map list_entry (chain (sp_cells s) SP_realtm_lst (lnext (sp_cells s) SP_realtm_lst) 120)"

definition sp_waiting :: "sp_pool \<Rightarrow> nat option \<Rightarrow> bytes list" where
  "sp_waiting s held = map (\<lambda>i. block_msg (sp_mem s ! i)) (sp_ids s held)"

definition sp_blocks :: "sp_pool \<Rightarrow> nat option \<Rightarrow> nat option" where
  "sp_blocks s held =
     (case (list_count (sp_cells s) SP_free_lst, list_count (sp_cells s) SP_realtm_lst,
            list_count (sp_cells s) SP_trans_lst) of
        (Some a, Some b, Some c) \<Rightarrow> Some (a + b + c + (case held of None \<Rightarrow> 0 | Some _ \<Rightarrow> 1))
      | _ \<Rightarrow> None)"

definition sp_ok :: "sp_pool \<Rightarrow> nat option \<Rightarrow> bool" where
  "sp_ok s held \<longleftrightarrow> (\<exists>L. SP_at s L (set_option held))"

lemma SP_at_cells: "SP_at s L H \<Longrightarrow> sp_cells_at (sp_cells s) L H"
  by (simp add: SP_at_def)

lemma SP_at_ids:
  assumes "SP_at s L (set_option held)"
  shows "sp_ids s held = (case held of None \<Rightarrow> [] | Some i \<Rightarrow> [i]) @ L SP_realtm_lst"
proof -
  note c = SP_at_cells [OF assms]
  from dll_chain [OF cells_dll [OF c heads_in(2)], of 120] cells_at_length [OF c heads_in(2)]
  show ?thesis by (simp add: sp_ids_def comp_def)
qed

lemma SP_at_waiting:
  assumes "SP_at s L (set_option held)"
  shows "sp_waiting s held =
    map (\<lambda>i. block_msg (sp_mem s ! i)) ((case held of None \<Rightarrow> [] | Some i \<Rightarrow> [i]) @ L SP_realtm_lst)"
  by (simp add: sp_waiting_def SP_at_ids [OF assms])

lemma SP_at_blocks:
  assumes "SP_at s L (set_option held)"
  shows "sp_blocks s held = Some 120"
proof -
  note c = SP_at_cells [OF assms]
  have "card (set_option held) + (\<Sum>a\<in>sp_heads. length (L a)) = 120"
    using cells_at_total [OF c] by (simp add: sp_heads_def)
  then have "card (set_option held) + (length (L SP_free_lst) + (length (L SP_realtm_lst) + length (L SP_trans_lst))) = 120"
    by (simp add: sp_heads_def)
  moreover have "card (set_option held) = (case held of None \<Rightarrow> 0 | Some _ \<Rightarrow> 1)" by (cases held) auto
  ultimately show ?thesis
    using dll_count [OF cells_dll [OF c heads_in(1)]] dll_count [OF cells_dll [OF c heads_in(2)]]
      dll_count [OF cells_dll [OF c heads_in(3)]]
    by (simp add: sp_blocks_def)
qed

lemma SP_accepts_iff:
  assumes "SP_at s L H"
  shows "SP_accepts s len \<longleftrightarrow> len \<le> 1456 \<and> (L SP_free_lst \<noteq> [] \<or> L SP_trans_lst \<noteq> [])"
  by (simp add: SP_accepts_def sp.cells_empty [OF SP_at_cells [OF assms]])

lemma sp_step_law:
  assumes "SP_at s L (set_option held)" "sp_op_ok p" "sp_step (s, held) p = (acc, sent, s', held')"
  shows "sp_ok s' held' \<and> sp_waiting s held @ acc = sent @ sp_waiting s' held'"
proof (cases p)
  case (OpWrite data len cb para)
  with assms(2) have ok: "0 \<le> len" "nat len \<le> length data" by simp_all
  show ?thesis
  proof (cases "SP_accepts s len")
    case True
    then obtain L' i where L': "SP_at s' L' (set_option held)" "L' SP_realtm_lst = L SP_realtm_lst @ [i]"
      "i \<notin> set_option held" "i \<notin> set (L SP_realtm_lst)" "block_msg (sp_mem s' ! i) = take (nat len) data"
      "\<forall>j. j \<noteq> i \<longrightarrow> sp_mem s' ! j = sp_mem s ! j"
      using SP_write_law(1) [OF assms(1) ok, of cb para] assms(3) SP_accepts_iff [OF assms(1)] OpWrite
      by (auto simp: block_entry_def)
    then have "map (\<lambda>j. block_msg (sp_mem s' ! j)) (L SP_realtm_lst) = map (\<lambda>j. block_msg (sp_mem s ! j)) (L SP_realtm_lst)"
      by auto
    moreover have "held = Some k \<Longrightarrow> sp_mem s' ! k = sp_mem s ! k" for k using L'(3,6) by auto
    ultimately show ?thesis
      using assms(3) OpWrite True L' SP_at_waiting [OF assms(1)] SP_at_waiting [of s' L' held]
      by (auto simp: sp_ok_def split: option.splits)
  next
    case False
    then have "SP_data_write s data len cb para = s"
      using SP_write_law(2) [OF assms(1) ok] SP_accepts_iff [OF assms(1)] by blast
    with assms(1,3) False OpWrite show ?thesis by (auto simp: sp_ok_def)
  qed
next
  case OpGet
  show ?thesis
  proof (cases held)
    case None
    show ?thesis
    proof (cases "L SP_realtm_lst")
      case Nil
      with SP_get_law [OF assms(1)] assms(1,3) OpGet None show ?thesis by (auto simp: sp_ok_def)
    next
      case (Cons i "is")
      with SP_get_law [OF assms(1)] None obtain t where t: "SP_data_get_pack s = (Some i, t)"
        "SP_at t (L(SP_realtm_lst := is)) (set_option (Some i))" "sp_mem t = sp_mem s" by auto
      with assms(3) OpGet None have e: "s' = t" "held' = Some i" "acc = []" "sent = []" by auto
      from SP_at_waiting [OF t(2)] SP_at_waiting [OF assms(1)] show ?thesis
        using t(2,3) Cons None by (auto simp: e sp_ok_def)
    qed
  next
    case (Some i)
    with assms(1,3) OpGet show ?thesis by (auto simp: sp_ok_def)
  qed
next
  case OpPutBack
  show ?thesis
  proof (cases held)
    case None
    with assms(1,3) OpPutBack show ?thesis by (auto simp: sp_ok_def)
  next
    case (Some i)
    let ?t = "SP_data_put_back s i"
    from SP_put_back_law [OF assms(1), of i] Some have t:
      "SP_at ?t (L(SP_realtm_lst := i # L SP_realtm_lst)) (set_option None)" "sp_mem ?t = sp_mem s" by auto
    from SP_at_waiting [OF t(1)] SP_at_waiting [OF assms(1)] show ?thesis
      using t assms(3) OpPutBack Some by (auto simp: sp_ok_def)
  qed
next
  case OpPutSend
  show ?thesis
  proof (cases held)
    case None
    with assms(1,3) OpPutSend show ?thesis by (auto simp: sp_ok_def)
  next
    case (Some i)
    let ?t = "SP_data_put_send s i"
    from SP_put_send_law [OF assms(1), of i] Some have t:
      "SP_at ?t (L(SP_trans_lst := L SP_trans_lst @ [i])) (set_option None)" "sp_mem ?t = sp_mem s" by auto
    from SP_at_waiting [OF t(1)] SP_at_waiting [OF assms(1)] show ?thesis
      using t assms(3) OpPutSend Some by (auto simp: sp_ok_def)
  qed
next
  case OpAck
  from SP_ack_law [OF assms(1)] obtain L' where L': "SP_at (SP_data_ack_pack s) L' (set_option held)"
    "L' SP_realtm_lst = L SP_realtm_lst" "sp_mem (SP_data_ack_pack s) = sp_mem s" by auto
  from SP_at_waiting [OF L'(1)] SP_at_waiting [OF assms(1)] show ?thesis
    using L' assms(3) OpAck by (auto simp: sp_ok_def)
qed

lemma sp_run_law:
  "sp_ok s held \<Longrightarrow> \<forall>p\<in>set ps. sp_op_ok p \<Longrightarrow> sp_run (s, held) ps = (acc, sent, s', held') \<Longrightarrow>
   sp_ok s' held' \<and> sp_waiting s held @ acc = sent @ sp_waiting s' held'"
proof (induction ps arbitrary: s held acc sent)
  case Nil
  then show ?case by auto
next
  case (Cons p ps)
  obtain acc1 sent1 s1 held1 where 1: "sp_step (s, held) p = (acc1, sent1, s1, held1)" by (metis prod_cases4)
  obtain acc2 sent2 where 2: "sp_run (s1, held1) ps = (acc2, sent2, s', held')"
    and e: "acc = acc1 @ acc2" "sent = sent1 @ sent2"
    using Cons.prems(3) 1 by (auto split: prod.splits)
  from Cons.prems(1) obtain L where "SP_at s L (set_option held)" by (auto simp: sp_ok_def)
  from sp_step_law [OF this _ 1] Cons.prems(2) have s1: "sp_ok s1 held1"
    "sp_waiting s held @ acc1 = sent1 @ sp_waiting s1 held1" by auto
  from Cons.IH [OF s1(1) _ 2] Cons.prems(2) have
    "sp_ok s' held' \<and> sp_waiting s1 held1 @ acc2 = sent2 @ sp_waiting s' held'" by simp
  with s1(2) show ?case unfolding e by (metis append.assoc)
qed

lemma clearqueue_at:
  assumes "length (sp_mem s) = 120" "\<forall>b\<in>set (sp_mem s). length (msgdata b) = 1456"
  shows "SP_at (SP_data_init s) (\<lambda>a. if a = SP_free_lst then [0..<120] else []) (set_option None)"
proof -
  have "\<forall>b\<in>sp_heads. dll (fold (\<lambda>a h. list_init h a) [SP_trans_lst, SP_realtm_lst, SP_free_lst] (sp_cells s)) b []"
    using sp.init_heads [of "[SP_trans_lst, SP_realtm_lst, SP_free_lst]"] by (auto simp: sp_heads_def)
  from sp.fill [OF this heads_in(1)] assms show ?thesis
    by (simp add: SP_at_def SP_data_init_def SP_data_clearqueue_def del: upt_Suc)
qed

lemma sp_init_ok:
  assumes "length (sp_mem s) = 120" "\<forall>b\<in>set (sp_mem s). length (msgdata b) = 1456"
  shows "sp_ok (SP_data_init s) None" "sp_waiting (SP_data_init s) None = []"
proof -
  note c = clearqueue_at [OF assms]
  then show "sp_ok (SP_data_init s) None" by (auto simp: sp_ok_def)
  show "sp_waiting (SP_data_init s) None = []" using SP_at_waiting [OF c] by simp
qed

section \<open>Properties\<close>

text \<open>C27: From the initialised pool, through any sequence of writes, fetches, put-backs, sends and
  acknowledgements, the messages accepted are the messages handed over as sent followed by those still
  waiting: none is lost, duplicated, altered or overtaken, also when the pool is exhausted and blocks of
  unacknowledged messages are reused.\<close>

theorem tx_pool_in_order:
  assumes "length (sp_mem s) = 120" "\<forall>b\<in>set (sp_mem s). length (msgdata b) = 1456"
    and "\<forall>p\<in>set ps. sp_op_ok p"
    and "sp_run (SP_data_init s, None) ps = (acc, sent, s', held)"
  shows "acc = sent @ sp_waiting s' held"
  using sp_run_law [OF sp_init_ok(1) [OF assms(1,2)] assms(3,4)] sp_init_ok(2) [OF assms(1,2)] by simp

definition demo_block :: SP_Send_t where
  "demo_block = \<lparr>msgdata = replicate 1456 0, msglen = 0, Inform_cb_para = None, SendInform_cb = False,
     block_list = SP_free_lst\<rparr>"

definition demo_pool :: sp_pool where
  "demo_pool = \<lparr>sp_cells = \<lparr>lnext = (\<lambda>_. SP_free_lst), lprev = (\<lambda>_. SP_free_lst)\<rparr>, sp_mem = replicate 120 demo_block\<rparr>"

lemma demo_pool_shape: "length (sp_mem demo_pool) = 120" "\<forall>b\<in>set (sp_mem demo_pool). length (msgdata b) = 1456"
  by (simp_all add: demo_pool_def demo_block_def)

theorem tx_pool_in_order_witness:
  "case sp_run (SP_data_init demo_pool, None) [OpWrite [1, 2] 2 False None, OpWrite [3] 1 False None, OpGet, OpPutSend] of
     (acc, sent, s', held) \<Rightarrow> acc = sent @ sp_waiting s' held"
  using tx_pool_in_order [OF demo_pool_shape, of "[OpWrite [1, 2] 2 False None, OpWrite [3] 1 False None, OpGet, OpPutSend]"]
  by (auto split: prod.splits)

text \<open>C28: Counting the three lists by their pointers and the block in the sender's hands gives all 120
  blocks after any sequence of operations: no block leaks, none is on two lists, and each count ends.\<close>

theorem tx_pool_conserves_blocks:
  assumes "length (sp_mem s) = 120" "\<forall>b\<in>set (sp_mem s). length (msgdata b) = 1456"
    and "\<forall>p\<in>set ps. sp_op_ok p"
    and "sp_run (SP_data_init s, None) ps = (acc, sent, s', held)"
  shows "sp_blocks s' held = Some 120"
  using sp_run_law [OF sp_init_ok(1) [OF assms(1,2)] assms(3,4)] SP_at_blocks by (auto simp: sp_ok_def)

theorem tx_pool_conserves_blocks_witness:
  "case sp_run (SP_data_init demo_pool, None) [OpWrite [7] 1 True None, OpGet, OpPutBack, OpGet] of
     (acc, sent, s', held) \<Rightarrow> sp_blocks s' held = Some 120"
  using tx_pool_conserves_blocks [OF demo_pool_shape, of "[OpWrite [7] 1 True None, OpGet, OpPutBack, OpGet]"]
  by (auto split: prod.splits)

end
