(* ===== verification/SockBase.thy ===== *)
theory SockBase
  imports MsgQueues TxPool
begin

text \<open>
  The state of the socket proxy, \<^verbatim>\<open>app/interface/hozon/sockproxy/sockproxy.c\<close>: the struct \<open>sockSt\<close>, the
  static variables of its functions, the queues and the pool it owns, and the nodes \<open>tx_nodes\<close> of the writers that
  its blocks point to. \<open>SockRx\<close> models the
  receiving thread, \<open>SockTx\<close> the sending one and \<open>SockLink\<close> the one that sets up and closes the
  connection. What the sockets, the certificate library and the other modules answer are inputs; the
  calls into them with an effect are recorded in \<open>sp_calls\<close>, the latest last.
\<close>

datatype PP_SOCK_STATE = PP_CLOSED | PP_CLOSE_WAIT | PP_OPEN_WAIT | PP_OPENED
datatype PP_SOCK_RCV_TYPE = PP_RCV_UNRCV | PP_RCV_GB | PP_RCV_PRIV
datatype sock_link = SOCKPROXY_CHECK_CERT | SOCKPROXY_SETUP_SGLINK | SOCKPROXY_SETUP_BDLLINK
datatype sock_sglink = SOCKPROXY_SGLINK_INIT | SOCKPROXY_SGLINK_CREAT | SOCKPROXY_SGLINK_CLOSE
datatype sock_bdlink = SOCKPROXY_BDLLINK_INIT | SOCKPROXY_BDLLINK_CREAT | SOCKPROXY_BDLLINK_CLOSE

datatype sock_call =
    SockOpen string int | SockClose
  | SgHzTboxInit | SgHzTboxConnect int | SgHzTboxClose
  | HzTboxInit | HzTboxConnect int | HzTboxClose
  | SockSend bytes int | SgHzTboxDataSend bytes int | HzTboxDataSend bytes int
  | SendInform "TxInform option"
  | SendHeartbeat | RcvThreadCreate | RcvThreadCancel | DialRestart

text \<open>The receive steps share one variable; the private parser uses the first four of them. \<open>rcvlen\<close> counts
  up from zero, \<open>datalen\<close> is a 32-bit \<open>long\<close>.\<close>

record sockproxy_stat_t =
  sp_socket :: int
  state :: PP_SOCK_STATE
  asynCloseFlg :: bool
  asynCloseType :: int
  closewaittime :: u64
  sock_url :: string
  sock_port :: int
  rcvType :: PP_SOCK_RCV_TYPE
  rcvstep :: nat
  rcvlen :: nat
  rcvbuf :: bytes
  datalen :: int
  linkSt :: sock_link
  sglinkSt :: sock_sglink
  waittime :: u64
  BDLlinkSt :: sock_bdlink
  rcvflag :: bool
  sleepFlag :: bool
  sleepwaittime :: u64
  sleepwaittimeoutcnt :: nat
  recalltimer :: u64
  cancelRcvphreadFlag :: bool
  sgLinkAddr :: string
  sgPort :: int
  BDLLinkAddr :: string
  BDLPort :: int
  pkiEnFlag :: u8
  SPObj :: "slot_queue list"
  sp_pool :: sp_pool
  tx_nodes :: "tx_node \<Rightarrow> TxInform"
  connect_time :: u64
  checkclosedelaytime :: u64
  IGNoldSt :: bool
  sendmtx :: bool
  sp_calls :: "sock_call list"

abbreviation (input) "SP_GB \<equiv> 0 :: nat"
abbreviation (input) "SP_PRIV \<equiv> 1 :: nat"
abbreviation (input) "PP_SP_COLSE_SP \<equiv> 400 :: int"

definition sp_call :: "sock_call \<Rightarrow> sockproxy_stat_t \<Rightarrow> sockproxy_stat_t" where
  "sp_call c s = s\<lparr>sp_calls := sp_calls s @ [c]\<rparr>"

text \<open>A request to close: nothing happens when another thread is asking at the same time (\<open>free\<close> is whether
  the lock on the request was free).\<close>

definition sockproxy_socketclose :: "bool \<Rightarrow> u64 \<Rightarrow> sockproxy_stat_t \<Rightarrow> int \<Rightarrow> sockproxy_stat_t" where
  "sockproxy_socketclose free now s type =
     (if free \<and> state s = PP_OPENED
      then s\<lparr>state := PP_CLOSE_WAIT, asynCloseFlg := True, asynCloseType := type, closewaittime := now\<rparr> else s)"

end
