(* ===== verification/SockRx.thy ===== *)
theory SockRx
  imports SockBase "HOL-Library.Monad_Syntax"
begin

text \<open>
  The receiving thread of the socket proxy: \<open>sockproxy_do_receive\<close> reads the socket and hands the bytes
  to one of two parsers, which put messages of the reporting protocol and of the private protocol
  together and write complete ones into the receive queues. An access outside \<open>rcvbuf\<close> or outside the read
  buffer is the value \<open>None\<close>. The locale \<open>makeup\<close> is what the receiver relies on in a parser.
\<close>

section \<open>The parsers\<close>

abbreviation (input) "SOCK_PROXY_RCVLEN \<equiv> 1456 :: nat"
abbreviation (input) "PP_RCV_IDLE \<equiv> 0 :: nat"
abbreviation (input) "PP_GB_RCV_SIGN \<equiv> 1 :: nat"
abbreviation (input) "PP_GB_RCV_CTRL \<equiv> 2 :: nat"
abbreviation (input) "PP_GB_RCV_DATALEN \<equiv> 3 :: nat"
abbreviation (input) "PP_GB_RCV_DATA \<equiv> 4 :: nat"
abbreviation (input) "PP_GB_RCV_CHECKCODE \<equiv> 5 :: nat"
abbreviation (input) "PP_PRIV_RCV_SIGN \<equiv> 1 :: nat"
abbreviation (input) "PP_PRIV_RCV_CTRL \<equiv> 2 :: nat"
abbreviation (input) "PP_PRIV_RCV_DATA \<equiv> 3 :: nat"

text \<open>\<open>sockSt.rcvbuf[sockSt.rcvlen++] = data[rlen++]\<close>.\<close>

definition rx_put :: "bytes \<Rightarrow> nat \<Rightarrow> sockproxy_stat_t \<Rightarrow> (nat \<times> sockproxy_stat_t) option" where
  "rx_put data rlen s =
     (if rcvlen s < SOCK_PROXY_RCVLEN \<and> rlen < length data
      then Some (rlen + 1, s\<lparr>rcvbuf := (rcvbuf s)[rcvlen s := data ! rlen], rcvlen := rcvlen s + 1\<rparr>) else None)"

definition rx_reset :: "sockproxy_stat_t \<Rightarrow> sockproxy_stat_t" where
  "rx_reset s = s\<lparr>rcvstep := PP_RCV_IDLE, rcvType := PP_RCV_UNRCV\<rparr>"

definition rx_deliver :: "nat \<Rightarrow> sockproxy_stat_t \<Rightarrow> sockproxy_stat_t" where
  "rx_deliver obj s = rx_reset (s\<lparr>SPObj := snd (WrSockproxyData_Queue (SPObj s) obj (rcvbuf s) (int (rcvlen s)))\<rparr>)"

text \<open>One turn of a parser's loop: whether it returns early, the position in the read buffer, the state.\<close>

definition gb_step :: "bytes \<Rightarrow> nat \<Rightarrow> sockproxy_stat_t \<Rightarrow> (bool \<times> nat \<times> sockproxy_stat_t) option" where
  "gb_step data rlen s =
     (if rcvstep s = PP_RCV_IDLE then Some (False, rlen, s\<lparr>rcvstep := PP_GB_RCV_SIGN, rcvlen := 0\<rparr>)
      else if rcvstep s = PP_GB_RCV_SIGN then do {
        (rlen, s) \<leftarrow> rx_put data rlen s;
        (rlen, s) \<leftarrow> rx_put data rlen s;
        Some (False, rlen, s\<lparr>rcvstep := PP_GB_RCV_CTRL\<rparr>) }
      else if rcvstep s = PP_GB_RCV_CTRL then do {
        (rlen, s) \<leftarrow> rx_put data rlen s;
        Some (False, rlen, if rcvlen s = 22 then s\<lparr>rcvstep := PP_GB_RCV_DATALEN\<rparr> else s) }
      else if rcvstep s = PP_GB_RCV_DATALEN then do {
        (rlen, s) \<leftarrow> rx_put data rlen s;
        if rcvlen s = 24 then
          let s = s\<lparr>datalen := uint (rcvbuf s ! 22) * 256 + uint (rcvbuf s ! 23)\<rparr>
          in if datalen s + 24 < int SOCK_PROXY_RCVLEN then Some (False, rlen, s\<lparr>rcvstep := PP_GB_RCV_DATA\<rparr>)
             else Some (True, rlen, rx_reset s)
        else Some (False, rlen, s) }
      else if rcvstep s = PP_GB_RCV_DATA then do {
        (rlen, s) \<leftarrow> rx_put data rlen s;
        Some (False, rlen, if 24 + datalen s = int (rcvlen s) then s\<lparr>rcvstep := PP_GB_RCV_CHECKCODE\<rparr> else s) }
      else if rcvstep s = PP_GB_RCV_CHECKCODE then do {
        (rlen, s) \<leftarrow> rx_put data rlen s;
        Some (False, rlen, rx_deliver SP_GB s) }
      else Some (False, rlen, rx_reset (s\<lparr>rcvlen := 0\<rparr>)))"

definition long_of_bytes :: "u8 \<Rightarrow> u8 \<Rightarrow> u8 \<Rightarrow> u8 \<Rightarrow> int" where
  "long_of_bytes a b c d =
     sint (push_bit 24 (ucast a) + push_bit 16 (ucast b) + push_bit 8 (ucast c) + ucast d :: u32)"

definition priv_step :: "bytes \<Rightarrow> nat \<Rightarrow> sockproxy_stat_t \<Rightarrow> (bool \<times> nat \<times> sockproxy_stat_t) option" where
  "priv_step data rlen s =
     (if rcvstep s = PP_RCV_IDLE then Some (False, rlen, s\<lparr>rcvstep := PP_PRIV_RCV_SIGN, rcvlen := 0\<rparr>)
      else if rcvstep s = PP_PRIV_RCV_SIGN then do {
        (rlen, s) \<leftarrow> rx_put data rlen s;
        (rlen, s) \<leftarrow> rx_put data rlen s;
        Some (False, rlen, s\<lparr>rcvstep := PP_PRIV_RCV_CTRL\<rparr>) }
      else if rcvstep s = PP_PRIV_RCV_CTRL then do {
        (rlen, s) \<leftarrow> rx_put data rlen s;
        if rcvlen s = 18 then
          let s = s\<lparr>datalen := long_of_bytes (rcvbuf s ! 10) (rcvbuf s ! 11) (rcvbuf s ! 12) (rcvbuf s ! 13)\<rparr>
          in if datalen s = 18 then Some (False, rlen, rx_deliver SP_PRIV s)
             else if datalen s > int SOCK_PROXY_RCVLEN then Some (True, rlen, rx_reset s)
             else Some (False, rlen, s\<lparr>rcvstep := PP_PRIV_RCV_DATA\<rparr>)
        else Some (False, rlen, s) }
      else if rcvstep s = PP_PRIV_RCV_DATA then do {
        (rlen, s) \<leftarrow> rx_put data rlen s;
        Some (False, rlen, if datalen s = int (rcvlen s) then rx_deliver SP_PRIV s else s) }
      else Some (False, rlen, rx_reset (s\<lparr>rcvlen := 0\<rparr>)))"

text \<open>\<open>while(len--)\<close> turns as often as the 32 bits of \<open>len\<close> say.\<close>

primrec makeup_loop ::
  "(bytes \<Rightarrow> nat \<Rightarrow> sockproxy_stat_t \<Rightarrow> (bool \<times> nat \<times> sockproxy_stat_t) option) \<Rightarrow>
   bytes \<Rightarrow> nat \<Rightarrow> nat \<Rightarrow> sockproxy_stat_t \<Rightarrow> sockproxy_stat_t option" where
  "makeup_loop step data 0 rlen s = Some s"
| "makeup_loop step data (Suc n) rlen s =
     (case step data rlen s of None \<Rightarrow> None
      | Some (ret, rlen, s) \<Rightarrow> if ret then Some s else makeup_loop step data n rlen s)"

definition sockproxy_gbMakeupMsg :: "sockproxy_stat_t \<Rightarrow> bytes \<Rightarrow> int \<Rightarrow> sockproxy_stat_t option" where
  "sockproxy_gbMakeupMsg s data len = makeup_loop gb_step data (unat (word_of_int len :: u32)) 0 s"

definition sockproxy_privMakeupMsg :: "sockproxy_stat_t \<Rightarrow> bytes \<Rightarrow> int \<Rightarrow> sockproxy_stat_t option" where
  "sockproxy_privMakeupMsg s data len = makeup_loop priv_step data (unat (word_of_int len :: u32)) 0 s"

section \<open>The receiving thread\<close>

text \<open>One reading: the bytes the library stores in the zeroed buffer, the length it reports (negative for an error of
  the plain socket) and the code of the certificate library, where 1275 is success.\<close>

record rx_env =
  rx_data :: bytes
  rx_len :: int
  rx_code :: int
  rx_close_free :: bool
  rx_now :: u64

definition rx_dispatch :: "bytes \<Rightarrow> int \<Rightarrow> sockproxy_stat_t \<Rightarrow> sockproxy_stat_t option" where
  "rx_dispatch rbuf rlen s =
     (case rcvType s of
        PP_RCV_UNRCV \<Rightarrow>
          let s = s\<lparr>rcvstep := PP_RCV_IDLE, rcvlen := 0\<rparr>
          in if rbuf ! 0 = 0x23 \<and> rbuf ! 1 = 0x23 then sockproxy_gbMakeupMsg (s\<lparr>rcvType := PP_RCV_GB\<rparr>) rbuf rlen
             else if rbuf ! 0 = 0x2A \<and> rbuf ! 1 = 0x2A then sockproxy_privMakeupMsg (s\<lparr>rcvType := PP_RCV_PRIV\<rparr>) rbuf rlen
             else Some s
      | PP_RCV_GB \<Rightarrow> sockproxy_gbMakeupMsg s rbuf rlen
      | PP_RCV_PRIV \<Rightarrow> sockproxy_privMakeupMsg s rbuf rlen)"

definition sockproxy_do_receive :: "rx_env \<Rightarrow> sockproxy_stat_t \<Rightarrow> (int \<times> sockproxy_stat_t) option" where
  "sockproxy_do_receive e s =
     (if state s \<noteq> PP_OPENED then Some (0, s)
      else let s = s\<lparr>rcvflag := True\<rparr>; close = sockproxy_socketclose (rx_close_free e) (rx_now e)
        in if pkiEnFlag s = 0 \<and> rx_len e < 0 then Some (-1, close s (PP_SP_COLSE_SP + 3))
           else if pkiEnFlag s \<noteq> 0 \<and> rx_code e \<noteq> 1275 then
             Some (-1, (close s (PP_SP_COLSE_SP + (if linkSt s = SOCKPROXY_SETUP_SGLINK then 8 else 9)))\<lparr>rcvflag := False\<rparr>)
           else map_option (\<lambda>s'. (if pkiEnFlag s = 0 then 0 else rx_code e, s'\<lparr>rcvflag := False\<rparr>))
                  (rx_dispatch (blit (replicate 1456 0) 0 (rx_data e)) (rx_len e) s))"

primrec receive_all :: "rx_env list \<Rightarrow> sockproxy_stat_t \<Rightarrow> sockproxy_stat_t option" where
  "receive_all [] s = Some s"
| "receive_all (e # es) s = (case sockproxy_do_receive e s of None \<Rightarrow> None | Some (r, s') \<Rightarrow> receive_all es s')"

section \<open>What the receiver relies on in a parser\<close>

text \<open>What a parser may change, and what it leaves behind while a message is incomplete and after it.\<close>

definition rx_frame :: "sockproxy_stat_t \<Rightarrow> sockproxy_stat_t" where
  "rx_frame s = s\<lparr>rcvType := PP_RCV_UNRCV, rcvstep := 0, rcvlen := 0, rcvbuf := [], datalen := 0, SPObj := []\<rparr>"

definition rx_keeps :: "sockproxy_stat_t \<Rightarrow> sockproxy_stat_t \<Rightarrow> bool" where
  "rx_keeps s s' \<longleftrightarrow> rx_frame s' = rx_frame s \<and> rcvType s' = rcvType s \<and> SPObj s' = SPObj s"

definition rx_queued :: "nat \<Rightarrow> bytes \<Rightarrow> slot_queue list \<Rightarrow> slot_queue list" where
  "rx_queued obj f qs = snd (WrSockproxyData_Queue qs obj f (int (length f)))"

definition rx_done :: "nat \<Rightarrow> bytes list \<Rightarrow> sockproxy_stat_t \<Rightarrow> sockproxy_stat_t \<Rightarrow> bool" where
  "rx_done obj fs s s' \<longleftrightarrow> rx_frame s' = rx_frame s \<and> rcvType s' = PP_RCV_UNRCV \<and> rcvstep s' = PP_RCV_IDLE
     \<and> length (rcvbuf s') = SOCK_PROXY_RCVLEN \<and> SPObj s' = fold (rx_queued obj) fs (SPObj s)"

lemma rx_keeps_refl [simp]: "rx_keeps s s" by (simp add: rx_keeps_def)

lemma rx_keeps_trans: "rx_keeps s s' \<Longrightarrow> rx_keeps s' s'' \<Longrightarrow> rx_keeps s s''" by (simp add: rx_keeps_def)

lemma rx_keeps_done: "rx_keeps s s' \<Longrightarrow> rx_done obj fs s' s'' \<Longrightarrow> rx_done obj fs s s''"
  by (simp add: rx_keeps_def rx_done_def)

lemma rx_done_done: "rx_done obj fs s s' \<Longrightarrow> rx_done obj gs s' s'' \<Longrightarrow> rx_done obj (fs @ gs) s s''"
  by (simp add: rx_done_def)

locale makeup_open =
  fixes step :: "bytes \<Rightarrow> nat \<Rightarrow> sockproxy_stat_t \<Rightarrow> (bool \<times> nat \<times> sockproxy_stat_t) option"
    and frame :: "bytes \<Rightarrow> bool"
    and part :: "bytes \<Rightarrow> nat \<Rightarrow> sockproxy_stat_t \<Rightarrow> bool"
  assumes begins: "frame f \<Longrightarrow> rcvstep s = PP_RCV_IDLE \<Longrightarrow> length (rcvbuf s) = 1456 \<Longrightarrow>
      drop rlen data = f ! 0 # f ! 1 # ds \<Longrightarrow>
      \<exists>s1 s2. step data rlen s = Some (False, rlen, s1) \<and> step data rlen s1 = Some (False, rlen + 2, s2)
        \<and> part f 2 s2 \<and> rx_keeps s s2"
    and feeds: "frame f \<Longrightarrow> part f k s \<Longrightarrow> Suc k < length f \<Longrightarrow> drop rlen data = f ! k # ds \<Longrightarrow>
      \<exists>s'. step data rlen s = Some (False, rlen + 1, s') \<and> part f (Suc k) s' \<and> rx_keeps s s'"
begin

lemma drop_next: "drop rlen data = x @ ds \<Longrightarrow> drop (rlen + length x) data = ds"
  by (metis add.commute append_eq_conv_conj drop_drop)

lemma feeds_many:
  "frame f \<Longrightarrow> part f k s \<Longrightarrow> k + n < length f \<Longrightarrow> drop rlen data = take n (drop k f) @ ds \<Longrightarrow>
   \<exists>s'. makeup_loop step data (n + m) rlen s = makeup_loop step data m (rlen + n) s'
      \<and> part f (k + n) s' \<and> rx_keeps s s'"
proof (induction n arbitrary: k rlen s)
  case 0
  then show ?case by auto
next
  case (Suc n)
  have d: "take (Suc n) (drop k f) = f ! k # take n (drop (Suc k) f)"
    using Suc.prems(3) by (simp add: Cons_nth_drop_Suc [symmetric])
  with Suc.prems have dd: "drop rlen data = f ! k # (take n (drop (Suc k) f) @ ds)" by simp
  from feeds [OF Suc.prems(1,2) _ dd] Suc.prems(3) obtain s1 where
    s1: "step data rlen s = Some (False, rlen + 1, s1)" "part f (Suc k) s1" "rx_keeps s s1" by auto
  have "drop (rlen + 1) data = take n (drop (Suc k) f) @ ds" using drop_next [of rlen data "[f ! k]"] dd by simp
  from Suc.IH [OF Suc.prems(1) s1(2) _ this] Suc.prems(3) obtain s' where
    "makeup_loop step data (n + m) (rlen + 1) s1 = makeup_loop step data m (rlen + 1 + n) s'"
    "part f (Suc k + n) s'" "rx_keeps s1 s'" by auto
  then show ?case using s1 by (intro exI [of _ s']) (auto intro: rx_keeps_trans)
qed

lemma begins_frame:
  assumes "frame f" "rcvstep s = PP_RCV_IDLE" "length (rcvbuf s) = 1456" "2 + n < length f"
    and "drop rlen data = take (2 + n) f @ ds"
  shows "\<exists>s'. makeup_loop step data (2 + n + m) rlen s = makeup_loop step data m (rlen + (2 + n)) s'
      \<and> part f (2 + n) s' \<and> rx_keeps s s'"
proof -
  obtain a b g where f: "f = a # b # g" using assms(4) by (cases f rule: remdups_adj.cases) auto
  with assms(5) have d: "drop rlen data = f ! 0 # f ! 1 # (take n (drop 2 f) @ ds)" by simp
  from begins [OF assms(1-3) d] obtain s1 s2 where
    s: "step data rlen s = Some (False, rlen, s1)" "step data rlen s1 = Some (False, rlen + 2, s2)"
    "part f 2 s2" "rx_keeps s s2" by auto
  have "drop (rlen + 2) data = take n (drop 2 f) @ ds" using drop_next [of rlen data "[f ! 0, f ! 1]"] d by simp
  from feeds_many [OF assms(1) s(3) assms(4) this] obtain s' where
    s': "makeup_loop step data (n + m) (rlen + 2) s2 = makeup_loop step data m (rlen + 2 + n) s'"
    "part f (2 + n) s'" "rx_keeps s2 s'" by auto
  have "makeup_loop step data (2 + n + m) rlen s = makeup_loop step data m (rlen + 2 + n) s'"
    using s(1,2) s'(1) by simp
  with s'(2,3) s(4) show ?thesis by (auto simp: add.assoc intro: rx_keeps_trans)
qed

end

locale makeup = makeup_open +
  fixes obj :: nat
  assumes frame_length: "frame f \<Longrightarrow> 2 < length f \<and> length f \<le> 1456"
    and ends: "frame f \<Longrightarrow> part f k s \<Longrightarrow> Suc k = length f \<Longrightarrow> drop rlen data = f ! k # ds \<Longrightarrow>
      \<exists>s'. step data rlen s = Some (False, rlen + 1, s') \<and> rx_done obj [f] s s'"
begin

lemma ends_frame:
  assumes "frame f" "part f k s" "k < length f" "drop rlen data = drop k f @ ds"
  shows "\<exists>s'. makeup_loop step data (length f - k + m) rlen s = makeup_loop step data m (rlen + (length f - k)) s'
      \<and> rx_done obj [f] s s'"
proof -
  define n where "n = length f - Suc k"
  have n: "length f - k = n + 1" "k + n < length f" "Suc (k + n) = length f" using assms(3) by (simp_all add: n_def)
  have "drop k f = take n (drop k f) @ drop (k + n) f" by (metis append_take_drop_id drop_drop add.commute)
  also have "drop (k + n) f = [f ! (k + n)]"
    using n by (metis Cons_nth_drop_Suc drop_all order_refl)
  finally have d: "drop rlen data = take n (drop k f) @ f ! (k + n) # ds" using assms(4) by simp
  from feeds_many [OF assms(1,2) n(2) d, of "Suc m"] obtain s1 where
    s1: "makeup_loop step data (n + Suc m) rlen s = makeup_loop step data (Suc m) (rlen + n) s1"
    "part f (k + n) s1" "rx_keeps s s1" by auto
  have "drop (rlen + n) data = f ! (k + n) # ds"
    using drop_next [OF d] n by (simp add: min_def)
  from ends [OF assms(1) s1(2) n(3) this] obtain s' where
    "step data (rlen + n) s1 = Some (False, rlen + n + 1, s')" "rx_done obj [f] s1 s'" by auto
  with s1 n(1) show ?thesis by (intro exI [of _ s']) (auto intro: rx_keeps_done)
qed

lemma whole_frame:
  assumes "frame f" "rcvstep s = PP_RCV_IDLE" "length (rcvbuf s) = 1456" "drop rlen data = f @ ds"
  shows "\<exists>s'. makeup_loop step data (length f + m) rlen s = makeup_loop step data m (rlen + length f) s'
      \<and> rx_done obj [f] s s'"
proof -
  have l: "2 < length f" "2 + 0 < length f" using frame_length [OF assms(1)] by simp_all
  have d: "drop rlen data = take (2 + 0) f @ (drop 2 f @ ds)" using assms(4) by simp
  have n: "length f + m = 2 + 0 + (length f - 2 + m)" "rlen + length f = rlen + (2 + 0) + (length f - 2)" using l by simp_all
  from begins_frame [OF assms(1-3) l(2) d, of "length f - 2 + m"] obtain s1 where
    s1: "makeup_loop step data (2 + 0 + (length f - 2 + m)) rlen s = makeup_loop step data (length f - 2 + m) (rlen + (2 + 0)) s1"
    "part f (2 + 0) s1" "rx_keeps s s1" by blast
  have "drop (rlen + (2 + 0)) data = drop 2 f @ ds" using drop_next [OF d] l by simp
  from ends_frame [OF assms(1) s1(2) l(2), of "rlen + (2 + 0)" data ds m] this obtain s' where
    "makeup_loop step data (length f - 2 + m) (rlen + (2 + 0)) s1 = makeup_loop step data m (rlen + (2 + 0) + (length f - 2)) s'"
    "rx_done obj [f] s1 s'" by auto
  with s1(1) rx_keeps_done [OF s1(3)] show ?thesis unfolding n by auto
qed

lemma whole_frames:
  "\<forall>f\<in>set fs. frame f \<Longrightarrow> rcvstep s = PP_RCV_IDLE \<Longrightarrow> length (rcvbuf s) = 1456 \<Longrightarrow> rcvType s = PP_RCV_UNRCV \<Longrightarrow>
   drop rlen data = concat fs @ ds \<Longrightarrow>
   \<exists>s'. makeup_loop step data (length (concat fs)) rlen s = Some s' \<and> rx_done obj fs s s'"
proof (induction fs arbitrary: s rlen)
  case Nil
  then show ?case by (simp add: rx_done_def)
next
  case (Cons f fs)
  have d: "drop rlen data = f @ (concat fs @ ds)" using Cons.prems by simp
  from whole_frame [OF _ Cons.prems(2,3) d, of "length (concat fs)"] Cons.prems(1) obtain s1 where
    s1: "makeup_loop step data (length f + length (concat fs)) rlen s = makeup_loop step data (length (concat fs)) (rlen + length f) s1"
    "rx_done obj [f] s s1" by auto
  from s1(2) have i: "rcvstep s1 = PP_RCV_IDLE" "length (rcvbuf s1) = 1456" "rcvType s1 = PP_RCV_UNRCV"
    by (simp_all add: rx_done_def)
  from Cons.IH [OF _ i drop_next [OF d]] Cons.prems(1) obtain s' where
    "makeup_loop step data (length (concat fs)) (rlen + length f) s1 = Some s'" "rx_done obj fs s1 s'" by auto
  with s1 rx_done_done [of obj "[f]" s s1 fs s'] show ?case by simp
qed

end

section \<open>The two parsers keep the contract\<close>

definition gb_datalen :: "bytes \<Rightarrow> nat" where "gb_datalen f = unat (f ! 22) * 256 + unat (f ! 23)"

definition gb_frame :: "bytes \<Rightarrow> bool" where
  "gb_frame f \<longleftrightarrow> length f = gb_datalen f + 25 \<and> 0 < gb_datalen f \<and> gb_datalen f + 24 < 1456"

text \<open>A header that announces no data is taken, but the message never completes: \<open>gb_any\<close> and \<open>priv_any\<close> let such a
  message run on to the first byte that has no place in the buffer.\<close>

definition gb_any :: "bytes \<Rightarrow> bool" where
  "gb_any f \<longleftrightarrow> gb_datalen f + 24 < 1456 \<and> length f = (if gb_datalen f = 0 then 1457 else gb_datalen f + 25)"

definition rx_part :: "bytes \<Rightarrow> nat \<Rightarrow> sockproxy_stat_t \<Rightarrow> bool" where
  "rx_part f k s \<longleftrightarrow> length (rcvbuf s) = 1456 \<and> rcvlen s = k \<and> take k (rcvbuf s) = take k f"

definition gb_part :: "bytes \<Rightarrow> nat \<Rightarrow> sockproxy_stat_t \<Rightarrow> bool" where
  "gb_part f k s \<longleftrightarrow> rx_part f k s \<and> 2 \<le> k
     \<and> rcvstep s = (if k < 22 then PP_GB_RCV_CTRL else if k < 24 then PP_GB_RCV_DATALEN
                    else if k < 24 + gb_datalen f \<or> gb_datalen f = 0 then PP_GB_RCV_DATA else PP_GB_RCV_CHECKCODE)
     \<and> (24 \<le> k \<longrightarrow> datalen s = int (gb_datalen f))"

definition priv_datalen :: "bytes \<Rightarrow> int" where
  "priv_datalen f = long_of_bytes (f ! 10) (f ! 11) (f ! 12) (f ! 13)"

definition priv_frame :: "bytes \<Rightarrow> bool" where
  "priv_frame f \<longleftrightarrow> 18 \<le> length f \<and> length f \<le> 1456 \<and> priv_datalen f = int (length f)"

definition priv_any :: "bytes \<Rightarrow> bool" where
  "priv_any f \<longleftrightarrow> (if priv_datalen f < 18 then length f = 1457 else length f \<le> 1456 \<and> priv_datalen f = int (length f))"

definition priv_part :: "bytes \<Rightarrow> nat \<Rightarrow> sockproxy_stat_t \<Rightarrow> bool" where
  "priv_part f k s \<longleftrightarrow> rx_part f k s \<and> 2 \<le> k
     \<and> rcvstep s = (if k < 18 then PP_PRIV_RCV_CTRL else PP_PRIV_RCV_DATA)
     \<and> (18 \<le> k \<longrightarrow> datalen s = priv_datalen f)"

lemma drop_Cons: "drop n xs = x # ys \<Longrightarrow> n < length xs \<and> xs ! n = x \<and> drop (Suc n) xs = ys"
  by (metis Cons_nth_drop_Suc drop_eq_Nil list.distinct(1) list.inject not_le_imp_less)

lemma rx_put_part:
  assumes "rx_part f k s" "k < 1456" "k < length f" "drop rlen data = f ! k # ds"
  shows "\<exists>s'. rx_put data rlen s = Some (rlen + 1, s') \<and> rx_part f (Suc k) s' \<and> rx_keeps s s'
    \<and> rcvstep s' = rcvstep s \<and> datalen s' = datalen s"
  using assms drop_Cons [OF assms(4)]
  by (auto simp: rx_put_def rx_part_def rx_keeps_def rx_frame_def take_Suc_conv_app_nth)

lemma rx_part_nth: "rx_part f k s \<Longrightarrow> i < k \<Longrightarrow> rcvbuf s ! i = f ! i"
  by (metis rx_part_def nth_take)

lemma rx_part_upd [simp]:
  "rx_part f k (s\<lparr>rcvstep := v\<rparr>) = rx_part f k s" "rx_part f k (s\<lparr>datalen := w\<rparr>) = rx_part f k s"
  by (simp_all add: rx_part_def)

lemma rx_keeps_upd [simp]:
  "rx_keeps s (s'\<lparr>rcvstep := v\<rparr>) = rx_keeps s s'" "rx_keeps s (s'\<lparr>datalen := w\<rparr>) = rx_keeps s s'"
  "rx_keeps s (s'\<lparr>rcvlen := l\<rparr>) = rx_keeps s s'"
  by (simp_all add: rx_keeps_def rx_frame_def)

lemma rx_deliver_done:
  assumes "rx_part f (length f) s'" "rx_keeps s s'"
  shows "rx_done obj [f] s (rx_deliver obj s')"
proof -
  have "take (length f) (rcvbuf s') = f" "rcvlen s' = length f" using assms(1) by (simp_all add: rx_part_def)
  then have "wr_slot q (rcvbuf s') (int (rcvlen s')) = wr_slot q f (int (length f))" for q
    by (simp add: wr_slot_def)
  then have "SPObj (rx_deliver obj s') = rx_queued obj f (SPObj s)"
    using assms(2) by (simp add: rx_deliver_def rx_reset_def rx_queued_def WrSockproxyData_Queue_def rx_keeps_def)
  with assms show ?thesis
    by (simp add: rx_done_def rx_deliver_def rx_reset_def rx_part_def rx_keeps_def rx_frame_def)
qed

lemma sign_part:
  assumes "rcvstep s = PP_RCV_IDLE" "length (rcvbuf s) = 1456" "drop rlen data = f ! 0 # f ! 1 # ds" "2 \<le> length f"
  shows "\<exists>s2. rx_put data rlen (s\<lparr>rcvstep := 1, rcvlen := 0\<rparr>) \<bind> (\<lambda>(rlen, s). rx_put data rlen s) = Some (rlen + 2, s2)
      \<and> rx_part f 2 s2 \<and> rx_keeps s s2"
proof -
  let ?s = "s\<lparr>rcvstep := 1, rcvlen := 0\<rparr>"
  have "rx_part f 0 ?s" "0 < length f" using assms by (auto simp: rx_part_def)
  from rx_put_part [OF this(1) _ this(2) assms(3)] obtain s1 where
    s1: "rx_put data rlen ?s = Some (rlen + 1, s1)" "rx_part f (Suc 0) s1" "rx_keeps ?s s1" by auto
  have "drop (rlen + 1) data = f ! Suc 0 # ds" using drop_Cons [OF assms(3)] by simp
  from rx_put_part [OF s1(2) _ _ this] assms(4) obtain s2 where
    s2: "rx_put data (rlen + 1) s1 = Some (rlen + 2, s2)" "rx_part f 2 s2" "rx_keeps s1 s2" by (auto simp: numeral_2_eq_2)
  have "rx_keeps s ?s" by simp
  with s1(3) s2(3) have "rx_keeps s s2" by (blast intro: rx_keeps_trans)
  with s1(1) s2(1,2) show ?thesis by simp
qed

interpretation gb_any: makeup_open gb_step gb_any gb_part
proof (unfold_locales, goal_cases)
  case (1 f s rlen data ds)
  from sign_part [OF 1(2-4)] 1(1) obtain s2 where
    s2: "rx_put data rlen (s\<lparr>rcvstep := 1, rcvlen := 0\<rparr>) \<bind> (\<lambda>(rlen, s). rx_put data rlen s) = Some (rlen + 2, s2)"
    "rx_part f 2 s2" "rx_keeps s s2" by (auto simp: gb_any_def split: if_splits)
  then show ?case using 1(1,2)
    by (intro exI [of _ "s\<lparr>rcvstep := 1, rcvlen := 0\<rparr>"] exI [of _ "s2\<lparr>rcvstep := PP_GB_RCV_CTRL\<rparr>"])
      (auto simp: gb_step_def gb_part_def bind_assoc split: bind_splits)
next
  case (2 f k s rlen data ds)
  then have p: "rx_part f k s" "k < 1456" "k < length f"
    by (auto simp: gb_part_def) (auto simp: gb_any_def split: if_splits)
  from rx_put_part [OF p 2(4)] obtain s1 where s1: "rx_put data rlen s = Some (rlen + 1, s1)" "rx_part f (Suc k) s1"
    "rx_keeps s s1" "rcvstep s1 = rcvstep s" "datalen s1 = datalen s" by auto
  have len: "rcvlen s1 = Suc k" using s1(2) by (simp add: rx_part_def)
  have d: "uint (rcvbuf s1 ! 22) * 256 + uint (rcvbuf s1 ! 23) = int (gb_datalen f)" if "k = 23"
    using rx_part_nth [OF s1(2)] that by (simp add: gb_datalen_def)
  show ?case using 2 s1 len d by (auto simp: gb_step_def gb_part_def gb_any_def Let_def)
qed

lemma gb_frame_any: "gb_frame f \<Longrightarrow> gb_any f"
  by (auto simp: gb_frame_def gb_any_def)

interpretation gb: makeup gb_step gb_frame gb_part SP_GB
proof (unfold_locales, goal_cases)
  case 1
  then show ?case using gb_any.begins gb_frame_any by blast
next
  case 2
  then show ?case using gb_any.feeds gb_frame_any by blast
next
  case (3 f)
  then show ?case by (auto simp: gb_frame_def)
next
  case (4 f k s rlen data ds)
  then have p: "rx_part f k s" "k < 1456" "k < length f" by (auto simp: gb_part_def gb_frame_def)
  from rx_put_part [OF p 4(4)] obtain s1 where s1: "rx_put data rlen s = Some (rlen + 1, s1)" "rx_part f (Suc k) s1"
    "rx_keeps s s1" by auto
  have "rcvstep s = PP_GB_RCV_CHECKCODE" using 4 by (auto simp: gb_part_def gb_frame_def)
  with s1 rx_deliver_done [of f s1 s] 4(3) show ?case by (simp add: gb_step_def)
qed

interpretation priv_any: makeup_open priv_step priv_any priv_part
proof (unfold_locales, goal_cases)
  case (1 f s rlen data ds)
  from sign_part [OF 1(2-4)] 1(1) obtain s2 where
    s2: "rx_put data rlen (s\<lparr>rcvstep := 1, rcvlen := 0\<rparr>) \<bind> (\<lambda>(rlen, s). rx_put data rlen s) = Some (rlen + 2, s2)"
    "rx_part f 2 s2" "rx_keeps s s2" by (auto simp: priv_any_def split: if_splits)
  then show ?case using 1(1,2)
    by (intro exI [of _ "s\<lparr>rcvstep := 1, rcvlen := 0\<rparr>"] exI [of _ "s2\<lparr>rcvstep := PP_PRIV_RCV_CTRL\<rparr>"])
      (auto simp: priv_step_def priv_part_def bind_assoc split: bind_splits)
next
  case (2 f k s rlen data ds)
  then have p: "rx_part f k s" "k < 1456" "k < length f"
    by (auto simp: priv_part_def) (auto simp: priv_any_def split: if_splits)
  from rx_put_part [OF p 2(4)] obtain s1 where s1: "rx_put data rlen s = Some (rlen + 1, s1)" "rx_part f (Suc k) s1"
    "rx_keeps s s1" "rcvstep s1 = rcvstep s" "datalen s1 = datalen s" by auto
  have len: "rcvlen s1 = Suc k" using s1(2) by (simp add: rx_part_def)
  have d: "long_of_bytes (rcvbuf s1 ! 10) (rcvbuf s1 ! 11) (rcvbuf s1 ! 12) (rcvbuf s1 ! 13) = priv_datalen f" if "k = 17"
    using rx_part_nth [OF s1(2)] that by (simp add: priv_datalen_def)
  show ?case using 2 s1 len d by (auto simp: priv_step_def priv_part_def priv_any_def Let_def)
qed

lemma priv_frame_any: "priv_frame f \<Longrightarrow> priv_any f"
  by (auto simp: priv_frame_def priv_any_def)

interpretation priv: makeup priv_step priv_frame priv_part SP_PRIV
proof (unfold_locales, goal_cases)
  case 1
  then show ?case using priv_any.begins priv_frame_any by blast
next
  case 2
  then show ?case using priv_any.feeds priv_frame_any by blast
next
  case (3 f)
  then show ?case by (auto simp: priv_frame_def)
next
  case (4 f k s rlen data ds)
  then have p: "rx_part f k s" "k < 1456" "k < length f" by (auto simp: priv_part_def priv_frame_def)
  from rx_put_part [OF p 4(4)] obtain s1 where s1: "rx_put data rlen s = Some (rlen + 1, s1)" "rx_part f (Suc k) s1"
    "rx_keeps s s1" "datalen s1 = datalen s" by auto
  have len: "rcvlen s1 = Suc k" using s1(2) by (simp add: rx_part_def)
  have d: "long_of_bytes (rcvbuf s1 ! 10) (rcvbuf s1 ! 11) (rcvbuf s1 ! 12) (rcvbuf s1 ! 13) = int (length f)" if "k = 17"
    using rx_part_nth [OF s1(2)] that 4(1) by (simp add: priv_frame_def priv_datalen_def)
  have "rx_done SP_PRIV [f] s (rx_deliver SP_PRIV s1)" "rx_done SP_PRIV [f] s (rx_deliver SP_PRIV (s1\<lparr>datalen := v\<rparr>))" for v
    using s1(2,3) 4(3) by (auto intro: rx_deliver_done)
  then show ?case using 4 s1 len d by (auto simp: priv_step_def priv_part_def priv_frame_def Let_def)
qed

section \<open>Reads that cut a message\<close>

definition rx_ready :: "sockproxy_stat_t \<Rightarrow> bool" where
  "rx_ready s \<longleftrightarrow> state s = PP_OPENED \<and> rcvType s = PP_RCV_UNRCV \<and> length (rcvbuf s) = 1456"

definition good_read :: "u8 \<Rightarrow> rx_env \<Rightarrow> bool" where
  "good_read pki e \<longleftrightarrow> length (rx_data e) \<le> 1456 \<and> rx_len e = int (length (rx_data e)) \<and> (pki \<noteq> 0 \<longrightarrow> rx_code e = 1275)"

text \<open>Nothing but the receiver's own fields differs.\<close>

definition rx_rest :: "sockproxy_stat_t \<Rightarrow> sockproxy_stat_t \<Rightarrow> bool" where
  "rx_rest s s' \<longleftrightarrow> rx_frame (s'\<lparr>rcvflag := False\<rparr>) = rx_frame (s\<lparr>rcvflag := False\<rparr>)"

lemma rx_frame_fields:
  "rx_frame s' = rx_frame s \<Longrightarrow> state s' = state s \<and> pkiEnFlag s' = pkiEnFlag s"
  unfolding rx_frame_def
  by (drule arg_cong [where f = "\<lambda>s. (state s, pkiEnFlag s)"]) simp

lemma rx_rest_refl [simp]: "rx_rest s s" by (simp add: rx_rest_def)

lemma rx_rest_fields: "rx_rest s s' \<Longrightarrow> state s' = state s \<and> pkiEnFlag s' = pkiEnFlag s"
  unfolding rx_rest_def by (drule rx_frame_fields) simp

lemma rx_rest_trans: "rx_rest s s' \<Longrightarrow> rx_rest s' s'' \<Longrightarrow> rx_rest s s''" by (simp add: rx_rest_def)

lemma rx_frame_rest:
  assumes "rx_frame s' = rx_frame (s\<lparr>rcvflag := True\<rparr>)"
  shows "rx_rest s (s'\<lparr>rcvflag := False\<rparr>)"
proof -
  have "rx_frame (x\<lparr>rcvflag := False\<rparr>) = (rx_frame x)\<lparr>rcvflag := False\<rparr>" for x by (simp add: rx_frame_def)
  with assms have "rx_frame (s'\<lparr>rcvflag := False\<rparr>) = rx_frame (s\<lparr>rcvflag := True, rcvflag := False\<rparr>)" by metis
  then show ?thesis by (simp add: rx_rest_def)
qed

lemma do_receive_read:
  assumes "state s = PP_OPENED" "good_read (pkiEnFlag s) e"
    and "rx_dispatch (rx_data e @ replicate (1456 - length (rx_data e)) 0) (int (length (rx_data e))) (s\<lparr>rcvflag := True\<rparr>) = Some s'"
  shows "\<exists>r. sockproxy_do_receive e s = Some (r, s'\<lparr>rcvflag := False\<rparr>)"
proof (cases "pkiEnFlag s = 0")
  case True
  with assms show ?thesis by (simp add: sockproxy_do_receive_def good_read_def blit_def Let_def)
next
  case False
  with assms show ?thesis by (simp add: sockproxy_do_receive_def good_read_def blit_def Let_def)
qed

lemma good_len: "good_read pki e \<Longrightarrow> unat (word_of_int (int (length (rx_data e))) :: u32) = length (rx_data e)"
  by (simp add: good_read_def unat_of_nat)

lemma receive_all_append:
  "receive_all es s = Some s1 \<Longrightarrow> receive_all (es @ es') s = receive_all es' s1"
  by (induction es arbitrary: s) (auto split: option.splits)

locale receiver_open = makeup_open +
  fixes rtype :: PP_SOCK_RCV_TYPE
    and mark :: u8
  assumes dispatch_first: "rcvType s = PP_RCV_UNRCV \<Longrightarrow> rbuf ! 0 = mark \<Longrightarrow> rbuf ! 1 = mark \<Longrightarrow>
      rx_dispatch rbuf len s =
        makeup_loop step rbuf (unat (word_of_int len :: u32)) 0 (s\<lparr>rcvstep := 0, rcvlen := 0, rcvType := rtype\<rparr>)"
    and dispatch_next: "rcvType s = rtype \<Longrightarrow>
      rx_dispatch rbuf len s = makeup_loop step rbuf (unat (word_of_int len :: u32)) 0 s"
    and part_flag: "part f k (s\<lparr>rcvflag := b\<rparr>) = part f k s"
    and part_length: "part f k s \<Longrightarrow> length (rcvbuf s) = 1456"
begin

definition msg :: "bytes \<Rightarrow> bool" where "msg f \<longleftrightarrow> frame f \<and> f ! 0 = mark \<and> f ! 1 = mark"

definition mid :: "bytes \<Rightarrow> nat \<Rightarrow> sockproxy_stat_t \<Rightarrow> sockproxy_stat_t \<Rightarrow> bool" where
  "mid f k s0 s \<longleftrightarrow> state s = PP_OPENED \<and> rcvType s = rtype \<and> part f k s \<and> SPObj s = SPObj s0 \<and> rx_rest s0 s"

lemma keeps_mid:
  assumes "rx_keeps s1 s'" "rcvType s1 = rtype" "part f k s'" "SPObj s1 = SPObj s0"
    and "rx_frame s1 = rx_frame (s\<lparr>rcvflag := True\<rparr>)" "state s = PP_OPENED" "rx_rest s0 s"
  shows "mid f k s0 (s'\<lparr>rcvflag := False\<rparr>)"
proof -
  have f: "rx_frame s' = rx_frame (s\<lparr>rcvflag := True\<rparr>)" using assms(1,5) by (simp add: rx_keeps_def)
  from rx_rest_trans [OF assms(7) rx_frame_rest [OF f]] rx_frame_fields [OF f] assms show ?thesis
    by (simp add: mid_def part_flag rx_keeps_def)
qed

lemma first_part:
  assumes "rx_ready s" "good_read (pkiEnFlag s) e" "msg f" "rx_data e = take n f" "2 \<le> n" "n < length f"
  shows "\<exists>r s'. sockproxy_do_receive e s = Some (r, s') \<and> mid f n s s'"
proof -
  let ?rbuf = "rx_data e @ replicate (1456 - length (rx_data e)) 0"
  let ?s = "s\<lparr>rcvflag := True, rcvstep := 0, rcvlen := 0, rcvType := rtype\<rparr>"
  have fr: "frame f" and mk: "f ! 0 = mark" "f ! 1 = mark" using assms(3) by (auto simp: msg_def)
  have n: "length (rx_data e) = 2 + (n - 2)" "n = 2 + (n - 2)" "2 + (n - 2) < length f" using assms by simp_all
  have r: "?rbuf ! 0 = mark" "?rbuf ! 1 = mark" using assms(4-6) mk by (simp_all add: nth_append)
  have l: "unat (word_of_int (int (length (rx_data e))) :: u32) = 2 + (n - 2) + 0"
    using trans [OF good_len [OF assms(2)] n(1)] by (simp only: add_0_right)
  have "drop 0 ?rbuf = take (2 + (n - 2)) f @ replicate (1456 - length (rx_data e)) 0" using assms(4) n(2) by simp
  from begins_frame [OF fr _ _ n(3) this, of ?s 0] assms(1) obtain s' where
    s': "makeup_loop step ?rbuf (2 + (n - 2) + 0) 0 ?s = Some s'" "part f n s'" "rx_keeps ?s s'"
    using n(2) by (auto simp: rx_ready_def)
  have "rx_dispatch ?rbuf (int (length (rx_data e))) (s\<lparr>rcvflag := True\<rparr>) = Some s'"
    using dispatch_first [OF _ r, of "s\<lparr>rcvflag := True\<rparr>"] assms(1) s'(1) l by (simp add: rx_ready_def)
  from do_receive_read [OF _ assms(2) this] assms(1)
  have "\<exists>r. sockproxy_do_receive e s = Some (r, s'\<lparr>rcvflag := False\<rparr>)" by (simp add: rx_ready_def)
  moreover have "mid f n s (s'\<lparr>rcvflag := False\<rparr>)"
    using assms(1) by (intro keeps_mid [OF s'(3) _ s'(2), of s s]) (simp_all add: rx_ready_def rx_frame_def)
  ultimately show ?thesis by blast
qed

lemma next_part:
  assumes "mid f k s0 s" "good_read (pkiEnFlag s) e" "frame f" "rx_data e = take n (drop k f)" "k + n < length f"
  shows "\<exists>r s'. sockproxy_do_receive e s = Some (r, s') \<and> mid f (k + n) s0 s'"
proof -
  let ?rbuf = "rx_data e @ replicate (1456 - length (rx_data e)) 0" and ?s = "s\<lparr>rcvflag := True\<rparr>"
  have m: "state s = PP_OPENED" "rcvType ?s = rtype" "part f k ?s" "SPObj ?s = SPObj s0" "rx_rest s0 s"
    using assms(1) by (simp_all add: mid_def part_flag)
  have "drop 0 ?rbuf = take n (drop k f) @ replicate (1456 - length (rx_data e)) 0" using assms(4) by simp
  from feeds_many [OF assms(3) m(3) assms(5) this, of 0] obtain s' where
    s': "makeup_loop step ?rbuf n 0 ?s = Some s'" "part f (k + n) s'" "rx_keeps ?s s'" by auto
  have "unat (word_of_int (int (length (rx_data e))) :: u32) = n"
    using assms(4,5) by (intro trans [OF good_len [OF assms(2)]]) simp
  with s'(1) dispatch_next [OF m(2), of ?rbuf "int (length (rx_data e))"]
  have "rx_dispatch ?rbuf (int (length (rx_data e))) ?s = Some s'" by simp
  from do_receive_read [OF m(1) assms(2) this]
  have "\<exists>r. sockproxy_do_receive e s = Some (r, s'\<lparr>rcvflag := False\<rparr>)" .
  moreover have "mid f (k + n) s0 (s'\<lparr>rcvflag := False\<rparr>)"
    by (rule keeps_mid [OF s'(3) m(2) s'(2) m(4) refl m(1,5)])
  ultimately show ?thesis by blast
qed

lemma mid_parts:
  "mid f k s0 s \<Longrightarrow> \<forall>e\<in>set es. good_read (pkiEnFlag s0) e \<Longrightarrow> frame f \<Longrightarrow>
   concat (map rx_data es) = take n (drop k f) \<Longrightarrow> k + n < length f \<Longrightarrow>
   \<exists>s'. receive_all es s = Some s' \<and> mid f (k + n) s0 s'"
proof (induction es arbitrary: k n s)
  case Nil
  then show ?case by simp
next
  case (Cons e es)
  define l where "l = length (rx_data e)"
  have eq: "rx_data e @ concat (map rx_data es) = take n (drop k f)" using Cons.prems(4) by simp
  from arg_cong [OF this, of length] Cons.prems(5) have ln: "l \<le> n" "k + l < length f" by (auto simp: l_def)
  from eq have d: "rx_data e = take l (take n (drop k f))" "concat (map rx_data es) = drop l (take n (drop k f))"
    unfolding l_def by (metis append_eq_conv_conj)+
  have d1: "rx_data e = take l (drop k f)" using d(1) ln by (simp add: min_def)
  have d2: "concat (map rx_data es) = take (n - l) (drop (k + l) f)" using d(2) by (simp add: drop_take add.commute)
  from rx_rest_fields [of s0 s] Cons.prems(1,2) have g: "good_read (pkiEnFlag s) e" by (simp add: mid_def)
  from next_part [OF Cons.prems(1) g Cons.prems(3) d1 ln(2)] obtain r s1 where
    s1: "sockproxy_do_receive e s = Some (r, s1)" "mid f (k + l) s0 s1" by blast
  from Cons.IH [OF s1(2) _ Cons.prems(3) d2] Cons.prems(2,5) ln s1(1) show ?case by auto
qed

end

locale receiver = receiver_open + makeup
begin

definition fin :: "bytes list \<Rightarrow> sockproxy_stat_t \<Rightarrow> sockproxy_stat_t \<Rightarrow> bool" where
  "fin fs s0 s \<longleftrightarrow> rx_ready s \<and> SPObj s = fold (rx_queued obj) fs (SPObj s0) \<and> rx_rest s0 s"

lemma done_fin:
  assumes "rx_done obj fs s1 s'" "SPObj s1 = SPObj s0"
    and "rx_frame s1 = rx_frame (s\<lparr>rcvflag := True\<rparr>)" "state s = PP_OPENED" "rx_rest s0 s"
  shows "fin fs s0 (s'\<lparr>rcvflag := False\<rparr>)"
proof -
  have f: "rx_frame s' = rx_frame (s\<lparr>rcvflag := True\<rparr>)" using assms(1,3) by (simp add: rx_done_def)
  from rx_rest_trans [OF assms(5) rx_frame_rest [OF f]] rx_frame_fields [OF f] assms show ?thesis
    by (simp add: fin_def rx_done_def rx_ready_def)
qed

lemma frames_dispatched:
  assumes "rx_done obj [f] s s1" "\<forall>f\<in>set fs. frame f" "drop rlen data = concat fs @ ds"
    and "makeup_loop step data (n + length (concat fs)) 0 s = makeup_loop step data (length (concat fs)) rlen s1"
  shows "\<exists>s'. makeup_loop step data (n + length (concat fs)) 0 s = Some s' \<and> rx_done obj (f # fs) s s'"
proof -
  have "rcvstep s1 = PP_RCV_IDLE" "length (rcvbuf s1) = 1456" "rcvType s1 = PP_RCV_UNRCV"
    using assms(1) by (simp_all add: rx_done_def)
  from whole_frames [OF assms(2) this assms(3)] obtain s' where
    "makeup_loop step data (length (concat fs)) rlen s1 = Some s'" "rx_done obj fs s1 s'" by auto
  with assms(4) rx_done_done [OF assms(1), of fs s'] show ?thesis by simp
qed

lemma last_part:
  assumes "mid f k s0 s" "good_read (pkiEnFlag s) e" "frame f" "k < length f" "\<forall>f\<in>set fs. frame f"
    and "rx_data e = drop k f @ concat fs"
  shows "\<exists>r s'. sockproxy_do_receive e s = Some (r, s') \<and> fin (f # fs) s0 s'"
proof -
  let ?rbuf = "rx_data e @ replicate (1456 - length (rx_data e)) 0" and ?s = "s\<lparr>rcvflag := True\<rparr>"
  let ?z = "replicate (1456 - length (rx_data e)) 0 :: bytes"
  have m: "state s = PP_OPENED" "rcvType ?s = rtype" "part f k ?s" "SPObj ?s = SPObj s0" "rx_rest s0 s"
    using assms(1) by (simp_all add: mid_def part_flag)
  have d: "drop 0 ?rbuf = drop k f @ (concat fs @ ?z)" using assms(6) by simp
  from ends_frame [OF assms(3) m(3) assms(4) d] obtain s1 where
    s1: "makeup_loop step ?rbuf (length f - k + length (concat fs)) 0 ?s
         = makeup_loop step ?rbuf (length (concat fs)) (0 + (length f - k)) s1" "rx_done obj [f] ?s s1" by blast
  have "drop (0 + (length f - k)) ?rbuf = concat fs @ ?z" using assms(6) by simp
  from frames_dispatched [OF s1(2) assms(5) this s1(1)] obtain s' where
    s': "makeup_loop step ?rbuf (length f - k + length (concat fs)) 0 ?s = Some s'" "rx_done obj (f # fs) ?s s'" by blast
  have l: "length (rx_data e) = length f - k + length (concat fs)" using assms(6) by simp
  have "unat (word_of_int (int (length (rx_data e))) :: u32) = length f - k + length (concat fs)"
    by (rule trans [OF good_len [OF assms(2)] l])
  with s'(1) dispatch_next [OF m(2), of ?rbuf "int (length (rx_data e))"]
  have "rx_dispatch ?rbuf (int (length (rx_data e))) ?s = Some s'" by simp
  from do_receive_read [OF m(1) assms(2) this]
  have "\<exists>r. sockproxy_do_receive e s = Some (r, s'\<lparr>rcvflag := False\<rparr>)" .
  moreover have "fin (f # fs) s0 (s'\<lparr>rcvflag := False\<rparr>)" by (rule done_fin [OF s'(2) m(4) refl m(1,5)])
  ultimately show ?thesis by blast
qed

lemma only_part:
  assumes "rx_ready s" "good_read (pkiEnFlag s) e" "msg f" "\<forall>f\<in>set fs. frame f" "rx_data e = f @ concat fs"
  shows "\<exists>r s'. sockproxy_do_receive e s = Some (r, s') \<and> fin (f # fs) s s'"
proof -
  let ?rbuf = "rx_data e @ replicate (1456 - length (rx_data e)) 0"
  let ?s = "s\<lparr>rcvflag := True, rcvstep := 0, rcvlen := 0, rcvType := rtype\<rparr>"
  let ?z = "replicate (1456 - length (rx_data e)) 0 :: bytes"
  have fr: "frame f" and mk: "f ! 0 = mark" "f ! 1 = mark" using assms(3) by (auto simp: msg_def)
  have r: "?rbuf ! 0 = mark" "?rbuf ! 1 = mark"
    using assms(5) mk frame_length [OF fr] by (auto simp: nth_append)
  have d: "drop 0 ?rbuf = f @ (concat fs @ ?z)" using assms(5) by simp
  from whole_frame [OF fr _ _ d, of ?s "length (concat fs)"] assms(1) obtain s1 where
    s1: "makeup_loop step ?rbuf (length f + length (concat fs)) 0 ?s
         = makeup_loop step ?rbuf (length (concat fs)) (0 + length f) s1" "rx_done obj [f] ?s s1"
    by (auto simp: rx_ready_def)
  have "drop (0 + length f) ?rbuf = concat fs @ ?z" using assms(5) by simp
  from frames_dispatched [OF s1(2) assms(4) this s1(1)] obtain s' where
    s': "makeup_loop step ?rbuf (length f + length (concat fs)) 0 ?s = Some s'" "rx_done obj (f # fs) ?s s'" by blast
  have "unat (word_of_int (int (length (rx_data e))) :: u32) = length f + length (concat fs)"
    using assms(5) by (intro trans [OF good_len [OF assms(2)]]) simp
  with dispatch_first [OF _ r, of "s\<lparr>rcvflag := True\<rparr>"] assms(1) s'(1)
  have "rx_dispatch ?rbuf (int (length (rx_data e))) (s\<lparr>rcvflag := True\<rparr>) = Some s'" by (simp add: rx_ready_def)
  from do_receive_read [OF _ assms(2) this] assms(1)
  have "\<exists>r. sockproxy_do_receive e s = Some (r, s'\<lparr>rcvflag := False\<rparr>)" by (simp add: rx_ready_def)
  moreover have "fin (f # fs) s (s'\<lparr>rcvflag := False\<rparr>)"
    using assms(1) by (intro done_fin [OF s'(2), of s s]) (simp_all add: rx_ready_def rx_frame_def)
  ultimately show ?thesis by blast
qed

text \<open>A second message that begins in the read which ends the first one and goes on in the next.\<close>

lemma second_cut:
  assumes "rx_ready s" "good_read (pkiEnFlag s) e" "msg f" "frame g" "2 + n < length g" "rx_data e = f @ take (2 + n) g"
  shows "\<exists>r s'. sockproxy_do_receive e s = Some (r, s') \<and> rx_ready s' \<and> rx_rest s s' \<and> SPObj s' = rx_queued obj f (SPObj s)"
proof -
  let ?rbuf = "rx_data e @ replicate (1456 - length (rx_data e)) 0"
  let ?s = "s\<lparr>rcvflag := True, rcvstep := 0, rcvlen := 0, rcvType := rtype\<rparr>"
  let ?z = "replicate (1456 - length (rx_data e)) 0 :: bytes"
  have fr: "frame f" and mk: "f ! 0 = mark" "f ! 1 = mark" using assms(3) by (auto simp: msg_def)
  have r: "?rbuf ! 0 = mark" "?rbuf ! 1 = mark"
    using assms(6) mk frame_length [OF fr] by (auto simp: nth_append)
  have d: "drop 0 ?rbuf = f @ (take (2 + n) g @ ?z)" using assms(6) by simp
  from whole_frame [OF fr _ _ d, of ?s "2 + n + 0"] assms(1) obtain s1 where
    s1: "makeup_loop step ?rbuf (length f + (2 + n + 0)) 0 ?s = makeup_loop step ?rbuf (2 + n + 0) (0 + length f) s1"
    "rx_done obj [f] ?s s1" by (auto simp: rx_ready_def)
  have d2: "drop (0 + length f) ?rbuf = take (2 + n) g @ ?z" using assms(6) by simp
  from begins_frame [OF assms(4) _ _ assms(5) d2, of s1 0] s1(2) obtain s2 where
    s2: "makeup_loop step ?rbuf (2 + n + 0) (0 + length f) s1 = Some s2" "part g (2 + n) s2" "rx_keeps s1 s2"
    by (auto simp: rx_done_def)
  have "unat (word_of_int (int (length (rx_data e))) :: u32) = length f + (2 + n + 0)"
    using assms(5,6) by (intro trans [OF good_len [OF assms(2)]]) simp
  with dispatch_first [OF _ r, of "s\<lparr>rcvflag := True\<rparr>"] assms(1) s1(1) s2(1)
  have "rx_dispatch ?rbuf (int (length (rx_data e))) (s\<lparr>rcvflag := True\<rparr>) = Some s2" by (simp add: rx_ready_def)
  from do_receive_read [OF _ assms(2) this] assms(1)
  have "\<exists>r. sockproxy_do_receive e s = Some (r, s2\<lparr>rcvflag := False\<rparr>)" by (simp add: rx_ready_def)
  moreover have "rx_frame s2 = rx_frame (s\<lparr>rcvflag := True\<rparr>)" "rcvType s2 = PP_RCV_UNRCV" "SPObj s2 = rx_queued obj f (SPObj s)"
    using s1(2) s2(3) by (simp_all add: rx_done_def rx_keeps_def) (simp add: rx_frame_def)
  moreover have "length (rcvbuf s2) = 1456" by (rule part_length [OF s2(2)])
  ultimately show ?thesis
    using rx_frame_rest [of s2 s] rx_frame_fields [of s2 "s\<lparr>rcvflag := True\<rparr>"] assms(1) by (auto simp: rx_ready_def)
qed

text \<open>A group of reads: it carries whole messages, and only its first message is cut, by reads that all
  but the last end inside it.\<close>

definition group :: "u8 \<Rightarrow> bytes list \<Rightarrow> rx_env list \<Rightarrow> bool" where
  "group pki fs es \<longleftrightarrow> fs \<noteq> [] \<and> es \<noteq> [] \<and> msg (hd fs) \<and> (\<forall>f\<in>set fs. frame f) \<and> (\<forall>e\<in>set es. good_read pki e)
     \<and> concat (map rx_data es) = concat fs \<and> 2 \<le> length (rx_data (hd es))
     \<and> length (concat (map rx_data (butlast es))) < length (hd fs)"

lemma group_delivered:
  assumes "rx_ready s" "group (pkiEnFlag s) fs es"
  shows "\<exists>s'. receive_all es s = Some s' \<and> fin fs s s'"
proof -
  obtain f gs where fs: "fs = f # gs" using assms(2) by (cases fs) (auto simp: group_def)
  obtain e es' where es: "es = e # es'" using assms(2) by (cases es) (auto simp: group_def)
  have m: "msg f" "frame f" "\<forall>f\<in>set gs. frame f" and c: "concat (map rx_data es) = f @ concat gs"
    and g: "\<forall>e\<in>set es. good_read (pkiEnFlag s) e" and n2: "2 \<le> length (rx_data e)"
    and b: "length (concat (map rx_data (butlast es))) < length f"
    using assms(2) by (simp_all add: group_def fs es msg_def)
  show ?thesis
  proof (cases es' rule: rev_cases)
    case Nil
    with only_part [OF assms(1) _ m(1,3), of e] c g es fs show ?thesis by auto
  next
    case (snoc ms l)
    define n where "n = length (rx_data e)"
    define k where "k = length (concat (map rx_data ms))"
    have k: "n + k < length f" using b unfolding n_def k_def by (simp add: es snoc butlast_append)
    have cc: "rx_data e @ concat (map rx_data ms) @ rx_data l = f @ concat gs" using c es snoc by simp
    have "rx_data e = take n (rx_data e @ concat (map rx_data ms) @ rx_data l)" by (simp add: n_def)
    then have d1: "rx_data e = take n f" unfolding cc using k by simp
    have "concat (map rx_data ms) = take k (drop n (rx_data e @ concat (map rx_data ms) @ rx_data l))"
      by (simp add: n_def k_def)
    then have d2: "concat (map rx_data ms) = take k (drop n f)" unfolding cc using k by simp
    have "rx_data l = drop (n + k) (rx_data e @ concat (map rx_data ms) @ rx_data l)" by (simp add: n_def k_def)
    then have d3: "rx_data l = drop (n + k) f @ concat gs" unfolding cc using k by simp
    from first_part [OF assms(1) _ m(1) d1] g k n2 es obtain r s1 where
      s1: "sockproxy_do_receive e s = Some (r, s1)" "mid f n s s1" by (auto simp: n_def)
    from mid_parts [OF s1(2) _ m(2) d2 k] g es snoc obtain s2 where
      s2: "receive_all ms s1 = Some s2" "mid f (n + k) s s2" by auto
    have "good_read (pkiEnFlag s2) l" using g es snoc s2(2) rx_rest_fields [of s s2] by (simp add: mid_def)
    from last_part [OF s2(2) this m(2) k m(3) d3] obtain r' s' where
      "sockproxy_do_receive l s2 = Some (r', s')" "fin (f # gs) s s'" by blast
    with s1(1) receive_all_append [OF s2(1), of "[l]"] show ?thesis by (simp add: es snoc fs)
  qed
qed

end

text \<open>A message that never completes runs into the end of the buffer.\<close>

locale receiver_stuck = receiver_open +
  fixes stuck :: "bytes \<Rightarrow> bool"
  assumes stuck_frame: "stuck f \<Longrightarrow> frame f \<and> length f = 1457"
    and no_room: "stuck f \<Longrightarrow> part f 1456 s \<Longrightarrow> step data rlen s = None"
begin

lemma overrun_part:
  assumes "mid f k s0 s" "stuck f" "k \<le> 1456" "good_read (pkiEnFlag s) e"
    and "rx_data e = take (1456 - k) (drop k f) @ b # ds"
  shows "sockproxy_do_receive e s = None"
proof -
  let ?rbuf = "rx_data e @ replicate (1456 - length (rx_data e)) 0" and ?s = "s\<lparr>rcvflag := True\<rparr>"
  let ?n = "1456 - k"
  have m: "state s = PP_OPENED" "rcvType ?s = rtype" "part f k ?s"
    using assms(1) by (simp_all add: mid_def part_flag)
  have fr: "frame f" "length f = 1457" using stuck_frame [OF assms(2)] by simp_all
  have kn: "k + ?n < length f" "k + ?n = 1456" using assms(3) fr(2) by simp_all
  let ?m = "length ds"
  have "drop 0 ?rbuf = take ?n (drop k f) @ (b # ds @ replicate (1456 - length (rx_data e)) 0)" using assms(5) by simp
  from feeds_many [OF fr(1) m(3) kn(1) this, of "Suc ?m"] obtain s1 where
    s1: "makeup_loop step ?rbuf (?n + Suc ?m) 0 ?s = makeup_loop step ?rbuf (Suc ?m) (0 + ?n) s1" "part f 1456 s1"
    unfolding kn(2) by blast
  have "makeup_loop step ?rbuf (?n + Suc ?m) 0 ?s = None" unfolding s1(1) by (simp add: no_room [OF assms(2) s1(2)])
  moreover have "unat (word_of_int (int (length (rx_data e))) :: u32) = ?n + Suc ?m"
    using fr(2) assms(3,5) by (intro trans [OF good_len [OF assms(4)]]) simp
  ultimately have "rx_dispatch ?rbuf (int (length (rx_data e))) ?s = None"
    using dispatch_next [OF m(2), of ?rbuf "int (length (rx_data e))"] by simp
  with m(1) assms(4) show ?thesis
    by (auto simp: sockproxy_do_receive_def good_read_def blit_def Let_def)
qed

lemma overrun_parts:
  "mid f k s0 s \<Longrightarrow> stuck f \<Longrightarrow> k \<le> 1456 \<Longrightarrow> \<forall>e\<in>set es. good_read (pkiEnFlag s0) e \<Longrightarrow> f = take 1457 g \<Longrightarrow>
   concat (map rx_data es) = drop k g \<Longrightarrow> receive_all es s = None"
proof (induction es arbitrary: k s)
  case Nil
  then show ?case using stuck_frame [of f] by simp
next
  case (Cons e es)
  define l where "l = length (rx_data e)"
  have lg: "1457 \<le> length g" using stuck_frame [OF Cons.prems(2)] Cons.prems(5) by (auto simp: min_def split: if_splits)
  have eq: "rx_data e @ concat (map rx_data es) = drop k g" using Cons.prems(6) by simp
  have d: "rx_data e = take l (drop k g)" "concat (map rx_data es) = drop (k + l) g"
    using eq unfolding l_def by (metis append_eq_conv_conj, metis append_eq_conv_conj drop_drop add.commute)
  from rx_rest_fields [of s0 s] Cons.prems(1,4) have gr: "good_read (pkiEnFlag s) e" by (simp add: mid_def)
  show ?case
  proof (cases "k + l \<le> 1456")
    case True
    then have "rx_data e = take l (drop k f)" using d(1) Cons.prems(5) by (simp add: drop_take min_def)
    from next_part [OF Cons.prems(1) gr _ this] stuck_frame [OF Cons.prems(2)] True obtain r s1 where
      s1: "sockproxy_do_receive e s = Some (r, s1)" "mid f (k + l) s0 s1" by auto
    from Cons.IH [OF s1(2) Cons.prems(2) True _ Cons.prems(5) d(2)] Cons.prems(4) s1(1) show ?thesis by simp
  next
    case False
    then have "\<exists>x. l = (1456 - k) + Suc x" using Cons.prems(3) by presburger
    then obtain x where x: "l = (1456 - k) + Suc x" ..
    have "take (1456 - k) (drop k g) = take (1456 - k) (drop k f)" using Cons.prems(5) by (simp add: drop_take)
    moreover have "drop (1456 - k) (drop k g) = g ! 1456 # drop 1457 g"
      using lg Cons.prems(3) Cons_nth_drop_Suc [of 1456 g] by simp
    ultimately have "rx_data e = take (1456 - k) (drop k f) @ g ! 1456 # take x (drop 1457 g)"
      unfolding d(1) x take_add by simp
    from overrun_part [OF Cons.prems(1-3) gr this] show ?thesis by simp
  qed
qed

lemma stuck_overruns:
  assumes "rx_ready s" "\<forall>e\<in>set es. good_read (pkiEnFlag s) e" "es \<noteq> []" "2 \<le> length (rx_data (hd es))"
    and "concat (map rx_data es) = g" "stuck f" "f ! 0 = mark" "f ! 1 = mark"
    and "take 1457 g = take (length g) f"
  shows "if length g \<le> 1456 then \<exists>s'. receive_all es s = Some s' \<and> rcvType s' = rtype \<and> SPObj s' = SPObj s
         else receive_all es s = None"
proof -
  obtain e es' where es: "es = e # es'" using assms(3) by (cases es) auto
  have fr: "frame f" "length f = 1457" "msg f" using stuck_frame [OF assms(6)] assms(7,8) by (simp_all add: msg_def)
  define n where "n = length (rx_data e)"
  have e: "good_read (pkiEnFlag s) e" "2 \<le> n" using assms(2,4) by (simp_all add: es n_def)
  then have n: "n \<le> 1456" by (simp add: good_read_def n_def)
  have g: "g = rx_data e @ concat (map rx_data es')" using assms(5) by (simp add: es)
  then have ng: "n \<le> length g" by (simp add: n_def)
  have pre: "take m g = take m f" if "m \<le> 1457" "m \<le> length g" for m
    using arg_cong [OF assms(9), of "take m"] that by (simp add: min_def)
  have "rx_data e = take n g" by (simp add: g n_def)
  then have "rx_data e = take n f" using pre [of n] n ng by simp
  from first_part [OF assms(1) e(1) fr(3) this e(2)] n fr(2) obtain r s1 where
    s1: "sockproxy_do_receive e s = Some (r, s1)" "mid f n s s1" by auto
  have rest: "concat (map rx_data es') = drop n g" by (simp add: g n_def)
  show ?thesis
  proof (cases "length g \<le> 1456")
    case True
    have "concat (map rx_data es') = take (length g - n) (drop n f)"
      using rest pre [of "length g"] True by (simp add: take_drop ng)
    from mid_parts [OF s1(2) _ fr(1) this] True ng fr(2) assms(2) es obtain s' where
      "receive_all es' s1 = Some s'" "mid f (length g) s s'" by auto
    with True s1(1) show ?thesis by (auto simp: es mid_def)
  next
    case False
    with pre [of 1457] fr(2) have "f = take 1457 g" by simp
    from overrun_parts [OF s1(2) assms(6) n _ this rest] assms(2) False s1(1) show ?thesis by (simp add: es)
  qed
qed

end

interpretation gb: receiver gb_step gb_frame gb_part PP_RCV_GB "0x23" SP_GB
  by unfold_locales (simp_all add: rx_dispatch_def sockproxy_gbMakeupMsg_def gb_part_def rx_part_def)

interpretation priv: receiver priv_step priv_frame priv_part PP_RCV_PRIV "0x2A" SP_PRIV
  by unfold_locales (simp_all add: rx_dispatch_def sockproxy_privMakeupMsg_def priv_part_def rx_part_def)

interpretation gb_any: receiver_stuck gb_step gb_any gb_part PP_RCV_GB "0x23" "\<lambda>f. gb_any f \<and> gb_datalen f = 0"
proof unfold_locales
  fix f s data rlen
  assume "gb_any f \<and> gb_datalen f = 0" "gb_part f 1456 s"
  then show "gb_step data rlen s = None" by (simp add: gb_part_def gb_step_def rx_part_def rx_put_def)
qed (auto simp: rx_dispatch_def sockproxy_gbMakeupMsg_def gb_part_def rx_part_def gb_any_def)

interpretation priv_any: receiver_stuck priv_step priv_any priv_part PP_RCV_PRIV "0x2A" "\<lambda>f. priv_any f \<and> priv_datalen f < 18"
proof unfold_locales
  fix f s data rlen
  assume "priv_any f \<and> priv_datalen f < 18" "priv_part f 1456 s"
  then show "priv_step data rlen s = None" by (simp add: priv_part_def priv_step_def rx_part_def rx_put_def)
qed (auto simp: rx_dispatch_def sockproxy_privMakeupMsg_def priv_part_def rx_part_def priv_any_def)

section \<open>From the socket to the queues\<close>

definition sp_frame :: "nat \<Rightarrow> bytes \<Rightarrow> bool" where
  "sp_frame obj f \<longleftrightarrow>
     (if obj = SP_GB then gb_frame f \<and> f ! 0 = 0x23 \<and> f ! 1 = 0x23
      else obj = SP_PRIV \<and> priv_frame f \<and> f ! 0 = 0x2A \<and> f ! 1 = 0x2A)"

text \<open>Reads that together carry whole messages for one object, of which only the first is cut.\<close>

fun rx_group :: "u8 \<Rightarrow> nat \<times> bytes list \<times> rx_env list \<Rightarrow> bool" where
  "rx_group pki (obj, fs, es) \<longleftrightarrow>
     fs \<noteq> [] \<and> es \<noteq> [] \<and> (\<forall>f\<in>set fs. sp_frame obj f) \<and> (\<forall>e\<in>set es. good_read pki e)
     \<and> concat (map rx_data es) = concat fs \<and> 2 \<le> length (rx_data (hd es))
     \<and> length (concat (map rx_data (butlast es))) < length (hd fs)"

fun rx_msgs :: "nat \<Rightarrow> (nat \<times> bytes list \<times> rx_env list) list \<Rightarrow> bytes list" where
  "rx_msgs obj [] = []"
| "rx_msgs obj ((p, fs, es) # gs) = (if p = obj then fs else []) @ rx_msgs obj gs"

fun rx_reads :: "(nat \<times> bytes list \<times> rx_env list) list \<Rightarrow> rx_env list" where
  "rx_reads [] = []"
| "rx_reads ((p, fs, es) # gs) = es @ rx_reads gs"

lemma sp_frame_msg_ok: "sp_frame obj f \<Longrightarrow> msg_ok f"
  by (auto simp: sp_frame_def gb_frame_def priv_frame_def msg_ok_def split: if_splits)

lemma rx_group_delivered:
  assumes "rx_ready s" "rx_group (pkiEnFlag s) (obj, fs, es)"
  shows "\<exists>s'. receive_all es s = Some s' \<and> rx_ready s' \<and> pkiEnFlag s' = pkiEnFlag s
    \<and> SPObj s' = fold (rx_queued obj) fs (SPObj s)"
proof (cases "obj = SP_GB")
  case True
  with assms(2) have "gb.group (pkiEnFlag s) fs es"
    by (auto simp: gb.group_def gb.msg_def sp_frame_def)
  from gb.group_delivered [OF assms(1) this] True show ?thesis
    by (auto simp: gb.fin_def dest: rx_rest_fields)
next
  case False
  with assms(2) have g: "priv.group (pkiEnFlag s) fs es" "obj = SP_PRIV"
    by (cases fs; auto simp: priv.group_def priv.msg_def sp_frame_def)+
  from priv.group_delivered [OF assms(1) g(1)] g(2) show ?thesis
    by (auto simp: priv.fin_def simp del: One_nat_def dest: rx_rest_fields)
qed

definition rx_room :: "slot_queue list \<Rightarrow> nat \<Rightarrow> nat \<Rightarrow> bool" where
  "rx_room qs obj n \<longleftrightarrow> sq_inv (qs ! obj) \<and> length (sq_content (qs ! obj)) + n \<le> 10"

lemma rx_queued_law:
  assumes "obj < length qs" "msg_ok f" "rx_room qs obj (Suc n)"
  shows "length (rx_queued obj f qs) = length qs" "rx_room (rx_queued obj f qs) obj n"
    "sq_content (rx_queued obj f qs ! obj) = sq_content (qs ! obj) @ [f]"
    "p \<noteq> obj \<Longrightarrow> rx_queued obj f qs ! p = qs ! p"
proof -
  obtain r q' where w: "wr_slot (qs ! obj) f (int (length f)) = (r, q')" by (rule prod.exhaust)
  from assms(3) obtain k where k: "sq_filled (qs ! obj) k" "k + Suc n \<le> 10"
    using sq_filled_content by (auto simp: rx_room_def sq_inv_def)
  have k10: "k < 10" using k(2) by simp
  from wr_slot_law [OF k(1) k10 assms(2) w] have q': "sq_filled q' (Suc k)" "sq_content q' = sq_content (qs ! obj) @ [f]"
    by simp_all
  have e: "rx_queued obj f qs = qs[obj := q']" by (simp add: rx_queued_def WrSockproxyData_Queue_def w)
  have "sq_inv q'" using q'(1) k(2) by (auto simp: sq_inv_def intro: exI [of _ "Suc k"])
  then show "rx_room (rx_queued obj f qs) obj n"
    using q'(2) assms(1) k(2) sq_filled_content [OF k(1)] by (simp add: e rx_room_def)
  show "length (rx_queued obj f qs) = length qs" "sq_content (rx_queued obj f qs ! obj) = sq_content (qs ! obj) @ [f]"
    "p \<noteq> obj \<Longrightarrow> rx_queued obj f qs ! p = qs ! p"
    using q'(2) assms(1) by (simp_all add: e)
qed

lemma rx_queued_many:
  "obj < length qs \<Longrightarrow> \<forall>f\<in>set fs. msg_ok f \<Longrightarrow> rx_room qs obj (length fs + n) \<Longrightarrow>
   length (fold (rx_queued obj) fs qs) = length qs \<and> rx_room (fold (rx_queued obj) fs qs) obj n
   \<and> sq_content (fold (rx_queued obj) fs qs ! obj) = sq_content (qs ! obj) @ fs
   \<and> (\<forall>p. p \<noteq> obj \<longrightarrow> fold (rx_queued obj) fs qs ! p = qs ! p)"
proof (induction fs arbitrary: qs)
  case (Cons f fs)
  have r: "rx_room qs obj (Suc (length fs + n))" using Cons.prems(3) by simp
  have "msg_ok f" using Cons.prems(2) by simp
  note q = rx_queued_law [OF Cons.prems(1) this r]
  from Cons.IH [of "rx_queued obj f qs"] q Cons.prems(1,2) show ?case by simp
qed simp

lemma rx_room_less: "rx_room qs obj n \<Longrightarrow> m \<le> n \<Longrightarrow> rx_room qs obj m" by (simp add: rx_room_def)

lemma rx_groups_delivered:
  "rx_ready s \<Longrightarrow> \<forall>g\<in>set gs. rx_group (pkiEnFlag s) g \<Longrightarrow> length (SPObj s) = 2 \<Longrightarrow>
   \<forall>obj<2. rx_room (SPObj s) obj (length (rx_msgs obj gs)) \<Longrightarrow>
   \<exists>s'. receive_all (rx_reads gs) s = Some s' \<and> rx_ready s' \<and> length (SPObj s') = 2
     \<and> (\<forall>obj<2. rx_room (SPObj s') obj 0 \<and> sq_content (SPObj s' ! obj) = sq_content (SPObj s ! obj) @ rx_msgs obj gs)"
proof (induction gs arbitrary: s)
  case Nil
  then show ?case by (simp add: rx_room_def)
next
  case (Cons g gs)
  obtain obj fs es where g: "g = (obj, fs, es)" by (rule prod_cases3)
  from rx_group_delivered [OF Cons.prems(1)] Cons.prems(2) g obtain s1 where
    s1: "receive_all es s = Some s1" "rx_ready s1" "pkiEnFlag s1 = pkiEnFlag s" "SPObj s1 = fold (rx_queued obj) fs (SPObj s)"
    by (metis list.set_intros(1))
  have f: "\<forall>f\<in>set fs. sp_frame obj f" "fs \<noteq> []" using Cons.prems(2) g by auto
  then have ob: "obj < 2" by (cases fs) (auto simp: sp_frame_def split: if_splits)
  then have room: "rx_room (SPObj s) obj (length fs + length (rx_msgs obj gs))" using Cons.prems(4) g by auto
  have ok: "\<forall>f\<in>set fs. msg_ok f" using f(1) sp_frame_msg_ok by blast
  have ob': "obj < length (SPObj s)" using ob Cons.prems(3) by simp
  from rx_queued_many [OF ob' ok room] s1(4) have
    q: "length (SPObj s1) = 2" "rx_room (SPObj s1) obj (length (rx_msgs obj gs))"
    "sq_content (SPObj s1 ! obj) = sq_content (SPObj s ! obj) @ fs" "\<forall>p. p \<noteq> obj \<longrightarrow> SPObj s1 ! p = SPObj s ! p"
    using Cons.prems(3) by simp_all
  have room1: "rx_room (SPObj s1) p (length (rx_msgs p gs))" if "p < 2" for p
  proof (cases "p = obj")
    case False
    moreover have "rx_room (SPObj s) p (length (rx_msgs p gs))" using Cons.prems(4) that g False by auto
    ultimately show ?thesis using q(4) by (simp add: rx_room_def)
  qed (use q(2) in simp)
  from Cons.IH [OF s1(2) _ q(1)] Cons.prems(2) s1(3) room1 obtain s' where
    s': "receive_all (rx_reads gs) s1 = Some s'" "rx_ready s'" "length (SPObj s') = 2"
    "\<forall>p<2. rx_room (SPObj s') p 0 \<and> sq_content (SPObj s' ! p) = sq_content (SPObj s1 ! p) @ rx_msgs p gs" by auto
  have "sq_content (SPObj s1 ! p) = sq_content (SPObj s ! p) @ (if obj = p then fs else [])" for p
    using q(3,4) by auto
  with s' receive_all_append [OF s1(1)] show ?case by (simp add: g)
qed

section \<open>Properties\<close>

text \<open>C29: The receiving thread delivers. A message here is one of the reporting protocol with 1 to 1431 bytes of data, or
  one of the private protocol of 18 to 1456 bytes, with the length its header announces. When the successful reads
  (at most 1456 bytes each) fall into groups that carry whole messages of one protocol, each group beginning with
  at least the two start bytes of its first message and cutting only that message, all of it stays inside the
  buffers and each receive queue gets exactly the messages for it, complete and in order, as long as it has room
  for them. (The length limits are needed: a reporting message without data never completes and overruns the
  buffer, see \<open>sock_empty_message_overruns\<close>.)\<close>

theorem sock_messages_delivered:
  assumes "rx_ready s" "\<forall>g\<in>set gs. rx_group (pkiEnFlag s) g" "length (SPObj s) = 2"
    and "\<forall>obj<2. rx_room (SPObj s) obj (length (rx_msgs obj gs))"
  shows "\<exists>s'. receive_all (rx_reads gs) s = Some s' \<and> rx_ready s'
    \<and> (\<forall>obj<2. sq_content (SPObj s' ! obj) = sq_content (SPObj s ! obj) @ rx_msgs obj gs)"
  using rx_groups_delivered [OF assms] by blast

definition demo_sock :: sockproxy_stat_t where
  "demo_sock = \<lparr>sp_socket = 3, state = PP_OPENED, asynCloseFlg = False, asynCloseType = 0, closewaittime = 0,
     sock_url = ''tsp'', sock_port = 80, rcvType = PP_RCV_UNRCV, rcvstep = 0, rcvlen = 0, rcvbuf = replicate 1456 0,
     datalen = 0, linkSt = SOCKPROXY_SETUP_BDLLINK, sglinkSt = SOCKPROXY_SGLINK_INIT, waittime = 0,
     BDLlinkSt = SOCKPROXY_BDLLINK_CREAT, rcvflag = False, sleepFlag = False, sleepwaittime = 0,
     sleepwaittimeoutcnt = 0, recalltimer = 0, cancelRcvphreadFlag = False, sgLinkAddr = [], sgPort = 0,
     BDLLinkAddr = [], BDLPort = 0, pkiEnFlag = 1, SPObj = [demo_sq, demo_sq], sp_pool = demo_pool,
     tx_nodes = (\<lambda>_. \<lparr>idleflag = False, pakgtype = 0, eventtime = 0, successflg = 0, failresion = 0, txfailtime = 0\<rparr>), connect_time = 0,
     checkclosedelaytime = 0, IGNoldSt = False, sendmtx = False, sp_calls = []\<rparr>"

definition demo_read :: "bytes \<Rightarrow> rx_env" where
  "demo_read d = \<lparr>rx_data = d, rx_len = int (length d), rx_code = 1275, rx_close_free = True, rx_now = 0\<rparr>"

definition demo_gb :: "u8 \<Rightarrow> bytes" where "demo_gb x = [0x23, 0x23] @ replicate 20 0 @ [0, 1, x, 9]"
definition demo_priv :: bytes where "demo_priv = [0x2A, 0x2A] @ replicate 8 0 @ [0, 0, 0, 18] @ replicate 4 1"

lemma demo_rx_ready: "rx_ready demo_sock" "pkiEnFlag demo_sock = 1" "SPObj demo_sock = [demo_sq, demo_sq]"
  by (simp_all add: rx_ready_def demo_sock_def)

lemma demo_rx_room: "obj < 2 \<Longrightarrow> n \<le> 10 \<Longrightarrow> rx_room [demo_sq, demo_sq] obj n"
  using demo_sq_filled sq_filled_content [OF demo_sq_filled]
  by (cases obj) (auto simp: rx_room_def sq_inv_def less_Suc_eq numeral_2_eq_2 intro: exI [of _ 0])

lemma demo_gb_frame: "sp_frame SP_GB (demo_gb x)"
  by (simp add: sp_frame_def gb_frame_def gb_datalen_def demo_gb_def numeral_eq_Suc)

lemma demo_priv_frame: "sp_frame SP_PRIV demo_priv"
proof -
  have "long_of_bytes 0 0 0 18 = 18" by (simp add: long_of_bytes_def)
  then show ?thesis
    by (simp add: sp_frame_def priv_frame_def priv_datalen_def demo_priv_def numeral_eq_Suc)
qed

definition demo_groups :: "(nat \<times> bytes list \<times> rx_env list) list" where
  "demo_groups =
     [(SP_GB, [demo_gb 7, demo_gb 8], [demo_read (take 3 (demo_gb 7)), demo_read (drop 3 (demo_gb 7) @ demo_gb 8)]),
      (SP_PRIV, [demo_priv], [demo_read demo_priv])]"

theorem sock_messages_delivered_witness:
  "\<exists>s'. receive_all (rx_reads demo_groups) demo_sock = Some s' \<and> sq_content (SPObj s' ! SP_GB) = [demo_gb 7, demo_gb 8]
     \<and> sq_content (SPObj s' ! SP_PRIV) = [demo_priv]"
proof -
  have len: "length (demo_gb x) = 26" for x by (simp add: demo_gb_def)
  have "length demo_priv = 18" by (simp add: demo_priv_def)
  then have "\<forall>g\<in>set demo_groups. rx_group (pkiEnFlag demo_sock) g"
    using demo_gb_frame demo_priv_frame by (simp add: demo_groups_def demo_read_def good_read_def len)
  moreover have "\<forall>obj<2. rx_room (SPObj demo_sock) obj (length (rx_msgs obj demo_groups))"
    by (auto simp: demo_rx_ready demo_groups_def intro!: demo_rx_room)
  ultimately obtain s' where s': "receive_all (rx_reads demo_groups) demo_sock = Some s'"
    "\<forall>obj<2. sq_content (SPObj s' ! obj) = sq_content (SPObj demo_sock ! obj) @ rx_msgs obj demo_groups"
    using sock_messages_delivered [of demo_sock demo_groups] demo_rx_ready by auto
  have "sq_content demo_sq = []" using sq_filled_content [OF demo_sq_filled] by simp
  with s'(2) [rule_format, of 0] s'(2) [rule_format, of 1]
  have "sq_content (SPObj s' ! SP_GB) = [demo_gb 7, demo_gb 8]" "sq_content (SPObj s' ! SP_PRIV) = [demo_priv]"
    by (simp_all add: demo_rx_ready demo_groups_def)
  with s'(1) show ?thesis by blast
qed

definition sp_stuck :: "nat \<Rightarrow> bytes \<Rightarrow> bool" where
  "sp_stuck obj g \<longleftrightarrow>
     (if obj = SP_GB then 24 \<le> length g \<and> gb_datalen g = 0 \<and> g ! 0 = 0x23 \<and> g ! 1 = 0x23
      else 18 \<le> length g \<and> priv_datalen g < 18 \<and> g ! 0 = 0x2A \<and> g ! 1 = 0x2A)"

text \<open>A message whose header announces no data (a reporting message with an empty data unit, or a private
  message shorter than its header) never completes: everything that follows is appended to it, nothing is
  delivered, and with the 1457th byte the receiver writes behind its buffer.\<close>

lemma sock_empty_message_overruns:
  assumes "rx_ready s" "\<forall>e\<in>set es. good_read (pkiEnFlag s) e" "es \<noteq> []" "2 \<le> length (rx_data (hd es))"
    and "concat (map rx_data es) = g" "sp_stuck obj g"
  shows "if length g \<le> 1456 then \<exists>s'. receive_all es s = Some s' \<and> rcvType s' \<noteq> PP_RCV_UNRCV \<and> SPObj s' = SPObj s
         else receive_all es s = None"
proof -
  define f where "f = take 1457 (g @ replicate 1457 0)"
  have n: "f ! i = g ! i" if "i < 18 \<or> i < 24 \<and> obj = SP_GB" for i
    using that assms(6) by (auto simp: f_def nth_append sp_stuck_def split: if_splits)
  have t: "take 1457 g = take (length g) f" "length f = 1457" by (simp_all add: f_def min_def)
  show ?thesis
  proof (cases "obj = SP_GB")
    case True
    then have "gb_any f \<and> gb_datalen f = 0" "f ! 0 = 0x23" "f ! 1 = 0x23"
      using assms(6) n t(2) by (simp_all add: sp_stuck_def gb_any_def gb_datalen_def)
    from gb_any.stuck_overruns [OF assms(1-5) this t(1)] show ?thesis by (auto split: if_splits)
  next
    case False
    then have "priv_any f \<and> priv_datalen f < 18" "f ! 0 = 0x2A" "f ! 1 = 0x2A"
      using assms(6) n t(2) by (simp_all add: sp_stuck_def priv_any_def priv_datalen_def)
    from priv_any.stuck_overruns [OF assms(1-5) this t(1)] show ?thesis by (auto split: if_splits)
  qed
qed

text \<open>When one read ends a message and begins the next, and the next one goes on in the read after, that
  next message is lost: the first read delivers only the complete message, and the rest is taken for unknown
  bytes unless it happens to begin with start bytes.\<close>

lemma sock_coalesced_message_lost:
  assumes "rx_ready s" "good_read (pkiEnFlag s) e" "good_read (pkiEnFlag s) e'" "sp_frame obj f" "sp_frame obj g"
    and "2 \<le> n" "n < length g" "rx_data e = f @ take n g" "rx_data e' = drop n g"
    and "2 \<le> length (drop n g)" "take 2 (drop n g) \<noteq> [0x23, 0x23]" "take 2 (drop n g) \<noteq> [0x2A, 0x2A]"
  shows "\<exists>s'. receive_all [e, e'] s = Some s' \<and> rx_ready s' \<and> SPObj s' = rx_queued obj f (SPObj s)"
proof -
  have n: "n = 2 + (n - 2)" "2 + (n - 2) < length g" using assms(6,7) by simp_all
  obtain r s1 where s1: "sockproxy_do_receive e s = Some (r, s1)" "rx_ready s1" "rx_rest s s1"
    "SPObj s1 = rx_queued obj f (SPObj s)"
  proof (cases "obj = SP_GB")
    case True
    then have "gb.msg f" "gb_frame g" using assms(4,5) by (auto simp: gb.msg_def sp_frame_def)
    from gb.second_cut [OF assms(1,2) this n(2)] assms(8) n(1) True that show ?thesis by auto
  next
    case False
    then have "priv.msg f" "priv_frame g" "obj = SP_PRIV" using assms(4,5) by (auto simp: priv.msg_def sp_frame_def)
    from priv.second_cut [OF assms(1,2) this(1,2) n(2)] assms(8) n(1) this(3) that show ?thesis by auto
  qed
  obtain a b l where l: "drop n g = a # b # l"
    using assms(10) by (cases "drop n g" rule: remdups_adj.cases) auto
  have pk: "good_read (pkiEnFlag s1) e'" using assms(3) rx_rest_fields [OF s1(3)] by simp
  let ?s = "s1\<lparr>rcvflag := True, rcvstep := 0, rcvlen := 0\<rparr>"
  have "\<not> (a = 0x23 \<and> b = 0x23)" "\<not> (a = 0x2A \<and> b = 0x2A)" using assms(11,12) l by auto
  then have "rx_dispatch (rx_data e' @ replicate (1456 - length (rx_data e')) 0) (int (length (rx_data e'))) (s1\<lparr>rcvflag := True\<rparr>) = Some ?s"
    using s1(2) assms(9) l by (auto simp: rx_dispatch_def rx_ready_def)
  from do_receive_read [OF _ pk this] s1(2) obtain r' where
    "sockproxy_do_receive e' s1 = Some (r', ?s\<lparr>rcvflag := False\<rparr>)" by (auto simp: rx_ready_def)
  with s1 show ?thesis by (simp add: rx_ready_def)
qed

end
