(* ===== verification/TxNodes.thy ===== *)
theory TxNodes
  imports SockBase
begin

text \<open>
  The notices of the writers: a module that queues a message takes a node, says in it what kind of message it is,
  and passes its address to \<open>SP_data_write\<close>; the sending thread reports the outcome in the node and calls the
  module's callback, which gives the node back. \<^verbatim>\<open>PrvtProt.c\<close> has 1000 nodes for most modules, remote control
  has 100 and the certificate module 30 of their own; the heartbeat and the switching of its rate have one node each.
\<close>

type_synonym tx_store = "tx_node \<Rightarrow> TxInform"

text \<open>The kinds of \<^verbatim>\<open>PP_TXPAKG_TYPE\<close> (on this machine \<open>char\<close> is an unsigned byte), the reasons of \<^verbatim>\<open>PP_TXPAKG_FAILTYPE\<close>,
  the time to live.\<close>

abbreviation (input) "PP_TXPAKG_CONTINUE \<equiv> 1 :: u8"
abbreviation (input) "PP_TXPAKG_SIGTRIG \<equiv> 2 :: u8"
abbreviation (input) "PP_TXPAKG_SIGTIME \<equiv> 3 :: u8"
abbreviation (input) "PP_TXPAKG_FAIL \<equiv> - 1 :: u8"
abbreviation (input) "PP_TXPAKG_SUCCESS \<equiv> 1 :: u8"
abbreviation (input) "PP_TXPAKG_TXFAIL \<equiv> 1 :: u8"
abbreviation (input) "PP_TXPAKG_OUTOFDATE \<equiv> 2 :: u8"
abbreviation (input) "SOCK_TXPAKG_OUTOFTIME \<equiv> 2000 :: u64"

text \<open>A node as the program starts with it.\<close>

definition blank_node :: TxInform where
  "blank_node = \<lparr>idleflag = False, pakgtype = 0, eventtime = 0, successflg = 0, failresion = 0, txfailtime = 0\<rparr>"

section \<open>Taking a node\<close>

text \<open>The first node that is not in use; when there is none, node 0, which is.\<close>

definition idle_node :: "(nat \<Rightarrow> tx_node) \<Rightarrow> nat \<Rightarrow> tx_store \<Rightarrow> nat \<times> tx_store" where
  "idle_node arr n nodes =
     (case List.find (\<lambda>i. \<not> idleflag (nodes (arr i))) [0..<n] of
        Some i \<Rightarrow> (i, nodes(arr i := (nodes (arr i))\<lparr>idleflag := True\<rparr>))
      | None \<Rightarrow> (0, nodes))"

definition PP_getIdleNode :: "tx_store \<Rightarrow> nat \<times> tx_store" where
  "PP_getIdleNode = idle_node PP_TxInform 1000"

definition rmtCtrl_getIdleNode :: "tx_store \<Rightarrow> nat \<times> tx_store" where
  "rmtCtrl_getIdleNode = idle_node rmtCtrl_TxInform 100"

definition PP_CertDL_getIdleNode :: "tx_store \<Rightarrow> nat \<times> tx_store" where
  "PP_CertDL_getIdleNode = idle_node CertDL_TxInform 30"

datatype tx_writer = WrModule | WrControl | WrCert | WrHeartbeat | WrRate

definition tx_take :: "tx_writer \<Rightarrow> tx_store \<Rightarrow> tx_node \<times> tx_store" where
  "tx_take w nodes =
     (case w of
        WrModule \<Rightarrow> (case PP_getIdleNode nodes of (i, nodes) \<Rightarrow> (PP_TxInform i, nodes))
      | WrControl \<Rightarrow> (case rmtCtrl_getIdleNode nodes of (i, nodes) \<Rightarrow> (rmtCtrl_TxInform i, nodes))
      | WrCert \<Rightarrow> (case PP_CertDL_getIdleNode nodes of (i, nodes) \<Rightarrow> (CertDL_TxInform i, nodes))
      | WrHeartbeat \<Rightarrow> (HB_TxInform, nodes)
      | WrRate \<Rightarrow> (HBRS_TxInform, nodes))"

text \<open>The two single nodes have no use for the flag.\<close>

definition tx_flagged :: "tx_node \<Rightarrow> bool" where
  "tx_flagged n \<longleftrightarrow> n \<noteq> HB_TxInform \<and> n \<noteq> HBRS_TxInform"

text \<open>A writer's part: the node, its fields (the emergency call and the push of an update do not set the time), the
  message.\<close>

definition tx_post :: "tx_writer \<Rightarrow> u8 \<Rightarrow> u64 option \<Rightarrow> bytes \<Rightarrow> int \<Rightarrow> sockproxy_stat_t \<Rightarrow> sockproxy_stat_t" where
  "tx_post w kind time data len s =
     (case tx_take w (tx_nodes s) of (n, nodes) \<Rightarrow>
        let p = (nodes n)\<lparr>pakgtype := kind\<rparr>;
            p = (case time of None \<Rightarrow> p | Some t \<Rightarrow> p\<lparr>eventtime := t\<rparr>);
            p = (if tx_flagged n then p\<lparr>idleflag := True\<rparr> else p)
        in s\<lparr>tx_nodes := nodes(n := p), sp_pool := SP_data_write (sp_pool s) data len True (Some n)\<rparr>)"

text \<open>The kinds each of them uses.\<close>

fun tx_kind_of :: "tx_writer \<Rightarrow> u8 \<Rightarrow> u64 option \<Rightarrow> bool" where
  "tx_kind_of WrModule k t = (k = PP_TXPAKG_CONTINUE \<or> k = PP_TXPAKG_SIGTIME \<and> t \<noteq> None)"
| "tx_kind_of WrControl k t = (k \<in> {PP_TXPAKG_CONTINUE, PP_TXPAKG_SIGTIME} \<and> t \<noteq> None)"
| "tx_kind_of WrCert k t = (k \<in> {PP_TXPAKG_CONTINUE, PP_TXPAKG_SIGTIME} \<and> t \<noteq> None)"
| "tx_kind_of WrHeartbeat k t = (k = PP_TXPAKG_SIGTRIG \<and> t \<noteq> None)"
| "tx_kind_of WrRate k t = (k = PP_TXPAKG_SIGTIME \<and> t \<noteq> None)"

lemma tx_kind_of_known: "tx_kind_of w k t \<Longrightarrow> k \<in> {PP_TXPAKG_CONTINUE, PP_TXPAKG_SIGTRIG, PP_TXPAKG_SIGTIME}"
  by (cases w) auto

section \<open>The callback\<close>

text \<open>What the callback sees of the node; then the node is free.\<close>

definition tx_release :: "tx_node \<Rightarrow> TxInform \<Rightarrow> TxInform" where
  "tx_release n p = (if tx_flagged n then p\<lparr>idleflag := False\<rparr> else p)"

definition tx_callback :: "tx_node option \<Rightarrow> sockproxy_stat_t \<Rightarrow> sockproxy_stat_t" where
  "tx_callback para s =
     (case para of
        None \<Rightarrow> sp_call (SendInform None) s
      | Some n \<Rightarrow> (sp_call (SendInform (Some (tx_nodes s n))) s)\<lparr>tx_nodes := (tx_nodes s)(n := tx_release n (tx_nodes s n))\<rparr>)"

section \<open>The search\<close>

lemma find_first: "k < n \<Longrightarrow> \<forall>j<k. \<not> P j \<Longrightarrow> P k \<Longrightarrow> List.find P [0..<n] = Some k"
  by (auto simp: find_Some_iff intro!: exI [of _ k])

section \<open>What taking a node does to the others\<close>

text \<open>A writer changes the kind of its own node only.\<close>

lemma idle_node_kind: "idle_node arr n nodes = (i, nodes') \<Longrightarrow> pakgtype (nodes' m) = pakgtype (nodes m)"
  by (auto simp: idle_node_def split: option.splits)

lemma tx_take_kind: "tx_take w nodes = (n, nodes') \<Longrightarrow> pakgtype (nodes' m) = pakgtype (nodes m)"
  by (cases w) (auto simp: tx_take_def PP_getIdleNode_def rmtCtrl_getIdleNode_def PP_CertDL_getIdleNode_def
      dest: idle_node_kind [of _ _ _ _ _ m] split: prod.splits)

lemma tx_post_kind:
  assumes "tx_take w (tx_nodes s) = (n, nodes)"
  shows "pakgtype (tx_nodes (tx_post w kind time data len s) m) = (if m = n then kind else pakgtype (tx_nodes s m))"
    and "sp_pool (tx_post w kind time data len s) = SP_data_write (sp_pool s) data len True (Some n)"
  using assms tx_take_kind [OF assms, of m] by (simp_all add: tx_post_def Let_def split: option.splits)

lemma tx_release_kind [simp]: "pakgtype (tx_release n p) = pakgtype p"
  by (simp add: tx_release_def)

end
