(* ===== verification/SockTx.thy ===== *)
theory SockTx
  imports TxNodes
begin

text \<open>
  The sending thread of the socket proxy: \<open>sockproxy_do_send\<close> takes the oldest waiting block of the pool, hands
  it to the connection and decides by the outcome and by the kind of message whether it is sent, kept for
  another attempt or given up, and whom to tell. A call of a callback that is not there is \<open>None\<close>.
\<close>

section \<open>Sending\<close>

text \<open>What one attempt meets: whether the send lock is free, what the plain socket or the certificate library
  answers (1260 is success), the times it reads, whether the lock on close requests is free.\<close>

record tx_env =
  tx_lock_free :: bool
  tx_answer :: int
  tx_now :: u64
  tx_fail_now :: u64
  tx_close_free :: bool
  tx_close_now :: u64

definition sockproxy_MsgSend :: "tx_env \<Rightarrow> sockproxy_stat_t \<Rightarrow> bytes \<Rightarrow> int \<Rightarrow> int \<times> sockproxy_stat_t" where
  "sockproxy_MsgSend e s msg len =
     (if tx_lock_free e \<and> \<not> sendmtx s then
        (if state s = PP_OPENED \<or> state s = PP_CLOSE_WAIT then
           (if pkiEnFlag s = 0 then
              (if tx_answer e > 0 \<and> tx_answer e \<noteq> len then 0 else tx_answer e, sp_call (SockSend (take (nat len) msg) len) s)
            else
              let s = s\<lparr>sp_pool := SP_data_ack_pack (sp_pool s)\<rparr>;
                  s = sp_call ((if linkSt s = SOCKPROXY_SETUP_SGLINK then SgHzTboxDataSend else HzTboxDataSend)
                               (take (nat len) msg) len) s
              in if tx_answer e \<noteq> 1260 then (-1, s) else (tx_answer e, s))
         else (0, s))
      else (0, s))"

text \<open>The node is written through the pointer of the block, then the callback is called with it.\<close>

definition tx_write :: "tx_node option \<Rightarrow> (TxInform \<Rightarrow> TxInform) \<Rightarrow> sockproxy_stat_t \<Rightarrow> sockproxy_stat_t" where
  "tx_write para f s =
     (case para of None \<Rightarrow> s | Some n \<Rightarrow> s\<lparr>tx_nodes := (tx_nodes s)(n := f (tx_nodes s n))\<rparr>)"

definition tx_inform :: "SP_Send_t \<Rightarrow> (TxInform \<Rightarrow> TxInform) \<Rightarrow> sockproxy_stat_t \<Rightarrow> sockproxy_stat_t" where
  "tx_inform rpt f s =
     (if SendInform_cb rpt then tx_callback (Inform_cb_para rpt) (tx_write (Inform_cb_para rpt) f s) else s)"

definition tx_fail :: "u8 \<Rightarrow> u64 \<Rightarrow> TxInform \<Rightarrow> TxInform" where
  "tx_fail reason now p = p\<lparr>successflg := PP_TXPAKG_FAIL, failresion := reason, txfailtime := now\<rparr>"

definition tx_success :: "TxInform \<Rightarrow> TxInform" where "tx_success p = p\<lparr>successflg := PP_TXPAKG_SUCCESS\<rparr>"

definition put_send :: "nat \<Rightarrow> sockproxy_stat_t \<Rightarrow> sockproxy_stat_t" where
  "put_send i s = s\<lparr>sp_pool := SP_data_put_send (sp_pool s) i\<rparr>"

definition put_back :: "nat \<Rightarrow> sockproxy_stat_t \<Rightarrow> sockproxy_stat_t" where
  "put_back i s = s\<lparr>sp_pool := SP_data_put_back (sp_pool s) i\<rparr>"

definition tx_SIGTIME :: "tx_env \<Rightarrow> nat \<Rightarrow> SP_Send_t \<Rightarrow> TxInform \<Rightarrow> sockproxy_stat_t \<Rightarrow> sockproxy_stat_t option" where
  "tx_SIGTIME e i rpt p s =
     (if tx_now e - eventtime p < SOCK_TXPAKG_OUTOFTIME then
        case sockproxy_MsgSend e s (msgdata rpt) (msglen rpt) of (res, s) \<Rightarrow>
          Some (if res < 0 then sockproxy_socketclose (tx_close_free e) (tx_close_now e)
                  (tx_inform rpt (tx_fail PP_TXPAKG_TXFAIL (tx_fail_now e)) (put_send i s)) (PP_SP_COLSE_SP + 4)
                else if res = 0 then put_back i s
                else tx_inform rpt tx_success (put_send i s))
      else
        let s = put_send i s;
            s = tx_write (Inform_cb_para rpt) (tx_fail PP_TXPAKG_OUTOFDATE (tx_fail_now e)) s
        in if SendInform_cb rpt then Some (tx_callback (Inform_cb_para rpt) s) else None)"

definition tx_SIGTRIG :: "tx_env \<Rightarrow> nat \<Rightarrow> SP_Send_t \<Rightarrow> sockproxy_stat_t \<Rightarrow> sockproxy_stat_t" where
  "tx_SIGTRIG e i rpt s =
     (case sockproxy_MsgSend e s (msgdata rpt) (msglen rpt) of (res, s) \<Rightarrow>
        if res < 0 then sockproxy_socketclose (tx_close_free e) (tx_close_now e)
          (tx_inform rpt (tx_fail PP_TXPAKG_TXFAIL (tx_fail_now e)) (put_send i s)) (PP_SP_COLSE_SP + 5)
        else if res = 0 then tx_inform rpt (tx_fail PP_TXPAKG_TXFAIL (tx_fail_now e)) (put_send i s)
        else tx_inform rpt tx_success (put_send i s))"

definition tx_CONTINUE :: "tx_env \<Rightarrow> nat \<Rightarrow> SP_Send_t \<Rightarrow> sockproxy_stat_t \<Rightarrow> sockproxy_stat_t" where
  "tx_CONTINUE e i rpt s =
     (case sockproxy_MsgSend e s (msgdata rpt) (msglen rpt) of (res, s) \<Rightarrow>
        if res < 0 then sockproxy_socketclose (tx_close_free e) (tx_close_now e)
          (put_back i (tx_inform rpt (tx_fail PP_TXPAKG_TXFAIL (tx_fail_now e)) s)) (PP_SP_COLSE_SP + 6)
        else if res = 0 then put_back i s
        else tx_inform rpt tx_success (put_send i s))"

definition tx_plain :: "tx_env \<Rightarrow> nat \<Rightarrow> SP_Send_t \<Rightarrow> sockproxy_stat_t \<Rightarrow> sockproxy_stat_t" where
  "tx_plain e i rpt s =
     (case sockproxy_MsgSend e s (msgdata rpt) (msglen rpt) of (res, s) \<Rightarrow>
        if res < 0 then sockproxy_socketclose (tx_close_free e) (tx_close_now e)
          (tx_inform rpt id (put_send i s)) (PP_SP_COLSE_SP + 7)
        else if res = 0 then put_back i s
        else tx_inform rpt id (put_send i s))"

definition sockproxy_do_send :: "tx_env \<Rightarrow> sockproxy_stat_t \<Rightarrow> sockproxy_stat_t option" where
  "sockproxy_do_send e s =
     (case SP_data_get_pack (sp_pool s) of
        (None, pool) \<Rightarrow> Some (s\<lparr>sp_pool := pool\<rparr>)
      | (Some i, pool) \<Rightarrow>
          let s = s\<lparr>sp_pool := pool\<rparr>; rpt = sp_mem pool ! i
          in case Inform_cb_para rpt of
               Some n \<Rightarrow>
                 let p = tx_nodes s n
                 in if pakgtype p = PP_TXPAKG_SIGTIME then tx_SIGTIME e i rpt p s
                 else if pakgtype p = PP_TXPAKG_SIGTRIG then Some (tx_SIGTRIG e i rpt s)
                 else if pakgtype p = PP_TXPAKG_CONTINUE then Some (tx_CONTINUE e i rpt s)
                 else Some s
             | None \<Rightarrow> Some (tx_plain e i rpt s))"

section \<open>What becomes of a message\<close>

text \<open>The specification: what an attempt answers, what it then means for a message of each kind.\<close>

definition link_up :: "tx_env \<Rightarrow> sockproxy_stat_t \<Rightarrow> bool" where
  "link_up e s \<longleftrightarrow> tx_lock_free e \<and> \<not> sendmtx s \<and> (state s = PP_OPENED \<or> state s = PP_CLOSE_WAIT)"

definition tx_outcome :: "tx_env \<Rightarrow> sockproxy_stat_t \<Rightarrow> int \<Rightarrow> int" where
  "tx_outcome e s len =
     (if \<not> link_up e s then 0
      else if pkiEnFlag s = 0 then (if tx_answer e > 0 \<and> tx_answer e \<noteq> len then 0 else tx_answer e)
      else if tx_answer e = 1260 then 1260 else -1)"

definition tx_stale :: "tx_env \<Rightarrow> TxInform option \<Rightarrow> bool" where
  "tx_stale e para = (case para of None \<Rightarrow> False
     | Some p \<Rightarrow> pakgtype p = PP_TXPAKG_SIGTIME \<and> \<not> tx_now e - eventtime p < SOCK_TXPAKG_OUTOFTIME)"

definition tx_kept :: "tx_env \<Rightarrow> TxInform option \<Rightarrow> int \<Rightarrow> bool" where
  "tx_kept e para res = (\<not> tx_stale e para \<and>
     (case para of None \<Rightarrow> res = 0
      | Some p \<Rightarrow> if pakgtype p = PP_TXPAKG_SIGTRIG then False
                  else if pakgtype p = PP_TXPAKG_CONTINUE then res \<le> 0 else res = 0))"

definition tx_kind_ok :: "TxInform option \<Rightarrow> bool \<Rightarrow> bool" where
  "tx_kind_ok para cb = (case para of None \<Rightarrow> True
     | Some p \<Rightarrow> pakgtype p \<in> {PP_TXPAKG_CONTINUE, PP_TXPAKG_SIGTRIG, PP_TXPAKG_SIGTIME} \<and>
                 (pakgtype p = PP_TXPAKG_SIGTIME \<longrightarrow> cb))"

section \<open>One attempt\<close>

definition sp_entries :: "sp_pool \<Rightarrow> (bytes \<times> tx_node option \<times> bool) list" where
  "sp_entries s = map (\<lambda>i. block_entry (sp_mem s ! i)) (sp_ids s None)"

definition tx_call :: "sockproxy_stat_t \<Rightarrow> bytes \<Rightarrow> sock_call" where
  "tx_call s m = (if pkiEnFlag s = 0 then SockSend m (int (length m))
     else if linkSt s = SOCKPROXY_SETUP_SGLINK then SgHzTboxDataSend m (int (length m)) else HzTboxDataSend m (int (length m)))"

text \<open>The fields the sender does not touch.\<close>

definition tx_frame :: "sockproxy_stat_t \<Rightarrow> sockproxy_stat_t" where
  "tx_frame s = s\<lparr>sp_pool := demo_pool, tx_nodes := (\<lambda>_. blank_node), sp_calls := []\<rparr>"

lemma MsgSend_law:
  assumes "SP_at (sp_pool s) L H" "length (msgdata b) = 1456" "0 \<le> msglen b" "msglen b \<le> 1456"
    and "sockproxy_MsgSend e s (msgdata b) (msglen b) = (res, s')"
  shows "res = tx_outcome e s (int (length (block_msg b)))"
    and "\<exists>L'. SP_at (sp_pool s') L' H \<and> L' SP_realtm_lst = L SP_realtm_lst"
    and "sp_mem (sp_pool s') = sp_mem (sp_pool s)" "tx_frame s' = tx_frame s" "tx_nodes s' = tx_nodes s"
    and "sp_calls s' = sp_calls s @ (if link_up e s then [tx_call s (block_msg b)] else [])"
proof -
  have l: "int (length (block_msg b)) = msglen b" using assms(2-4) by (simp add: block_msg_def)
  from SP_ack_law [OF assms(1)] have ack: "\<exists>L'. SP_at (SP_data_ack_pack (sp_pool s)) L' H \<and> L' SP_realtm_lst = L SP_realtm_lst"
    "sp_mem (SP_data_ack_pack (sp_pool s)) = sp_mem (sp_pool s)" by blast+
  show "res = tx_outcome e s (int (length (block_msg b)))" "\<exists>L'. SP_at (sp_pool s') L' H \<and> L' SP_realtm_lst = L SP_realtm_lst"
    "sp_mem (sp_pool s') = sp_mem (sp_pool s)" "tx_frame s' = tx_frame s" "tx_nodes s' = tx_nodes s"
    "sp_calls s' = sp_calls s @ (if link_up e s then [tx_call s (block_msg b)] else [])"
    unfolding tx_outcome_def tx_call_def l using assms(1,5) ack
    by (auto simp: sockproxy_MsgSend_def link_up_def sp_call_def Let_def tx_frame_def block_msg_def split: if_splits)
qed

lemma tx_callback_fields [simp]:
  "tx_frame (tx_callback q s) = tx_frame s" "sp_pool (tx_callback q s) = sp_pool s"
  by (simp_all add: tx_frame_def tx_callback_def sp_call_def split: option.split)

lemma tx_write_fields [simp]:
  "tx_frame (tx_write q f s) = tx_frame s" "sp_pool (tx_write q f s) = sp_pool s" "sp_calls (tx_write q f s) = sp_calls s"
  by (simp_all add: tx_frame_def tx_write_def split: option.split)

lemma tx_frame_simps [simp]:
  "tx_frame (put_send i s) = tx_frame s" "tx_frame (put_back i s) = tx_frame s"
  "tx_frame (tx_inform b f s) = tx_frame s" "tx_frame (sp_call c s) = tx_frame s"
  by (simp_all add: tx_frame_def put_send_def put_back_def sp_call_def) (simp add: tx_inform_def flip: tx_frame_def)

text \<open>What the owner is told: the node after it was written. The node then holds what was told and is free.\<close>

definition tx_notice :: "tx_store \<Rightarrow> (TxInform \<Rightarrow> TxInform) \<Rightarrow> SP_Send_t \<Rightarrow> sock_call list" where
  "tx_notice nodes f b = (if SendInform_cb b then [SendInform (map_option (f \<circ> nodes) (Inform_cb_para b))] else [])"

definition tx_told :: "tx_node option \<Rightarrow> sock_call list \<Rightarrow> tx_store \<Rightarrow> tx_store" where
  "tx_told node news nodes =
     (case (node, news) of (Some n, [SendInform (Some p)]) \<Rightarrow> nodes(n := tx_release n p) | _ \<Rightarrow> nodes)"

definition tx_at :: "sockproxy_stat_t \<Rightarrow> nat set \<Rightarrow> nat list \<Rightarrow> bool" where
  "tx_at s H is \<longleftrightarrow> (\<exists>L. SP_at (sp_pool s) L H \<and> L SP_realtm_lst = is)"

lemma tx_at_pool: "sp_pool s' = sp_pool s \<Longrightarrow> tx_at s' H is = tx_at s H is"
  by (simp add: tx_at_def)

lemma tx_inform_law:
  shows "sp_pool (tx_inform b f s) = sp_pool s"
    and "sp_calls (tx_inform b f s) = sp_calls s @ tx_notice (tx_nodes s) f b"
    and "tx_nodes (tx_inform b f s) = tx_told (Inform_cb_para b) (tx_notice (tx_nodes s) f b) (tx_nodes s)"
proof -
  show "sp_pool (tx_inform b f s) = sp_pool s" by (simp add: tx_inform_def)
  show "sp_calls (tx_inform b f s) = sp_calls s @ tx_notice (tx_nodes s) f b"
    "tx_nodes (tx_inform b f s) = tx_told (Inform_cb_para b) (tx_notice (tx_nodes s) f b) (tx_nodes s)"
    by (cases "Inform_cb_para b"; simp add: tx_inform_def tx_notice_def tx_told_def tx_write_def tx_callback_def sp_call_def)+
qed

lemma put_send_law:
  assumes "tx_at s {i} is"
  shows "tx_at (put_send i s) {} is" "sp_mem (sp_pool (put_send i s)) = sp_mem (sp_pool s)"
    "sp_calls (put_send i s) = sp_calls s" "tx_nodes (put_send i s) = tx_nodes s"
proof -
  from assms obtain L where L: "SP_at (sp_pool s) L {i}" "L SP_realtm_lst = is" by (auto simp: tx_at_def)
  from SP_put_send_law [OF L(1), of i] have p: "SP_at (sp_pool (put_send i s)) (L(SP_trans_lst := L SP_trans_lst @ [i])) {}"
    "sp_mem (sp_pool (put_send i s)) = sp_mem (sp_pool s)" by (simp_all add: put_send_def)
  from p(1) L(2) show "tx_at (put_send i s) {} is"
    unfolding tx_at_def by (intro exI [of _ "L(SP_trans_lst := L SP_trans_lst @ [i])"]) simp
  show "sp_mem (sp_pool (put_send i s)) = sp_mem (sp_pool s)" "sp_calls (put_send i s) = sp_calls s" "tx_nodes (put_send i s) = tx_nodes s"
    using p(2) by (simp_all add: put_send_def)
qed

lemma put_back_law:
  assumes "tx_at s {i} is"
  shows "tx_at (put_back i s) {} (i # is)" "sp_mem (sp_pool (put_back i s)) = sp_mem (sp_pool s)"
    "sp_calls (put_back i s) = sp_calls s" "tx_nodes (put_back i s) = tx_nodes s"
proof -
  from assms obtain L where L: "SP_at (sp_pool s) L {i}" "L SP_realtm_lst = is" by (auto simp: tx_at_def)
  from SP_put_back_law [OF L(1), of i] have p: "SP_at (sp_pool (put_back i s)) (L(SP_realtm_lst := i # L SP_realtm_lst)) {}"
    "sp_mem (sp_pool (put_back i s)) = sp_mem (sp_pool s)" by (simp_all add: put_back_def)
  from p(1) L(2) show "tx_at (put_back i s) {} (i # is)"
    unfolding tx_at_def by (intro exI [of _ "L(SP_realtm_lst := i # L SP_realtm_lst)"]) simp
  show "sp_mem (sp_pool (put_back i s)) = sp_mem (sp_pool s)" "sp_calls (put_back i s) = sp_calls s" "tx_nodes (put_back i s) = tx_nodes s"
    using p(2) by (simp_all add: put_back_def)
qed

lemma tx_kind_kept: "pakgtype (tx_fail r n q) = pakgtype q" "pakgtype (tx_success q) = pakgtype q"
  by (simp_all add: tx_fail_def tx_success_def)

text \<open>What is reported, and the reason given when the connection is to be closed.\<close>

definition tx_news :: "tx_env \<Rightarrow> TxInform option \<Rightarrow> bool \<Rightarrow> int \<Rightarrow> sock_call list" where
  "tx_news e para cb res =
     (if \<not> cb then [] else case para of
        None \<Rightarrow> if res = 0 then [] else [SendInform None]
      | Some p \<Rightarrow>
          if tx_stale e para then [SendInform (Some (tx_fail PP_TXPAKG_OUTOFDATE (tx_fail_now e) p))]
          else if res > 0 then [SendInform (Some (tx_success p))]
          else if res < 0 \<or> pakgtype p = PP_TXPAKG_SIGTRIG
          then [SendInform (Some (tx_fail PP_TXPAKG_TXFAIL (tx_fail_now e) p))] else [])"

definition tx_close_type :: "TxInform option \<Rightarrow> int" where
  "tx_close_type para = (case para of None \<Rightarrow> 407
     | Some p \<Rightarrow> if pakgtype p = PP_TXPAKG_SIGTIME then 404 else if pakgtype p = PP_TXPAKG_SIGTRIG then 405 else 406)"

definition tx_after :: "tx_env \<Rightarrow> sockproxy_stat_t \<Rightarrow> bool \<Rightarrow> int \<Rightarrow> sockproxy_stat_t" where
  "tx_after e s failed type = tx_frame (if failed then sockproxy_socketclose (tx_close_free e) (tx_close_now e) s type else s)"

lemma tx_frame_fields: "tx_frame s' = tx_frame s \<Longrightarrow> state s' = state s"
  unfolding tx_frame_def by (drule arg_cong [where f = state]) simp

lemma close_law:
  assumes "tx_frame s' = tx_frame s"
  shows "tx_frame (sockproxy_socketclose a b s' t) = tx_frame (sockproxy_socketclose a b s t)"
    "sp_pool (sockproxy_socketclose a b s' t) = sp_pool s'" "sp_calls (sockproxy_socketclose a b s' t) = sp_calls s'"
    "tx_at (sockproxy_socketclose a b s' t) H is = tx_at s' H is" "tx_nodes (sockproxy_socketclose a b s' t) = tx_nodes s'"
proof -
  have f: "tx_frame (s\<lparr>state := w, asynCloseFlg := x, asynCloseType := y, closewaittime := z\<rparr>)
    = (tx_frame s)\<lparr>state := w, asynCloseFlg := x, asynCloseType := y, closewaittime := z\<rparr>" for s w x y z
    by (simp add: tx_frame_def)
  show "tx_frame (sockproxy_socketclose a b s' t) = tx_frame (sockproxy_socketclose a b s t)"
    using assms tx_frame_fields [OF assms] by (simp add: sockproxy_socketclose_def f)
qed (simp_all add: sockproxy_socketclose_def tx_at_def)

text \<open>The result of an attempt on block \<open>b\<close> in slot \<open>i\<close>, its node read through the pointer.\<close>

definition tx_para :: "sockproxy_stat_t \<Rightarrow> SP_Send_t \<Rightarrow> TxInform option" where
  "tx_para s b = map_option (tx_nodes s) (Inform_cb_para b)"

definition tx_result :: "tx_env \<Rightarrow> sockproxy_stat_t \<Rightarrow> SP_Send_t \<Rightarrow> nat \<Rightarrow> nat list \<Rightarrow> sockproxy_stat_t \<Rightarrow> bool" where
  "tx_result e s b i is s' \<longleftrightarrow>
     (let para = tx_para s b; res = tx_outcome e s (int (length (block_msg b)));
          news = tx_news e para (SendInform_cb b) res
      in tx_at s' {} (if tx_kept e para res then i # is else is) \<and> sp_mem (sp_pool s') = sp_mem (sp_pool s)
         \<and> sp_calls s' = sp_calls s @ (if link_up e s \<and> \<not> tx_stale e para then [tx_call s (block_msg b)] else []) @ news
         \<and> tx_nodes s' = tx_told (Inform_cb_para b) news (tx_nodes s)
         \<and> tx_frame s' = tx_after e s (\<not> tx_stale e para \<and> res < 0) (tx_close_type para))"

text \<open>The attempt itself, and what follows it.\<close>

lemma attempt_law:
  assumes "tx_at s {i} is" "sockproxy_MsgSend e s (msgdata b) (msglen b) = (res, s1)" "b = sp_mem (sp_pool s) ! i"
  shows "res = tx_outcome e s (int (length (block_msg b)))" "tx_at s1 {i} is" "tx_nodes s1 = tx_nodes s"
    "sp_mem (sp_pool s1) = sp_mem (sp_pool s)" "tx_frame s1 = tx_frame s"
    "sp_calls s1 = sp_calls s @ (if link_up e s then [tx_call s (block_msg b)] else [])"
proof -
  from assms(1) obtain L where L: "SP_at (sp_pool s) L {i}" "L SP_realtm_lst = is" by (auto simp: tx_at_def)
  then have i: "i < 120" using cells_at_less [OF SP_at_cells, of "sp_pool s" L "{i}" i] by simp
  then have b: "length (msgdata b) = 1456" "0 \<le> msglen b" "msglen b \<le> 1456"
    using L(1) assms(3) by (simp_all add: SP_at_def)
  note m = MsgSend_law [OF L(1) b assms(2)]
  show "tx_at s1 {i} is" using m(2) L(2) by (auto simp: tx_at_def)
  show "res = tx_outcome e s (int (length (block_msg b)))" "tx_nodes s1 = tx_nodes s"
    "sp_mem (sp_pool s1) = sp_mem (sp_pool s)" "tx_frame s1 = tx_frame s"
    "sp_calls s1 = sp_calls s @ (if link_up e s then [tx_call s (block_msg b)] else [])" using m(1,3-6) by simp_all
qed

lemma kept_result:
  assumes "tx_at s {i} is" "sockproxy_MsgSend e s (msgdata b) (msglen b) = (0, s1)" "b = sp_mem (sp_pool s) ! i"
    and "\<not> tx_stale e (tx_para s b)" "map_option pakgtype (tx_para s b) \<noteq> Some PP_TXPAKG_SIGTRIG"
  shows "tx_result e s b i is (put_back i s1)"
proof -
  note a = attempt_law [OF assms(1-3)] and p = put_back_law [OF attempt_law(2) [OF assms(1-3)]]
  have n: "tx_news e (tx_para s b) (SendInform_cb b) 0 = []" "tx_kept e (tx_para s b) 0"
    using assms(4,5) by (auto simp: tx_news_def tx_kept_def split: option.split)
  then have "tx_told (Inform_cb_para b) (tx_news e (tx_para s b) (SendInform_cb b) 0) (tx_nodes s) = tx_nodes s"
    by (simp add: tx_told_def split: option.split)
  with n show ?thesis using a(1) [symmetric] a(3-6) p assms(4)
    by (simp add: tx_result_def Let_def tx_after_def)
qed

text \<open>The two ways an attempt ends with a notice: the block sent or given up, and kept.\<close>

lemma told_result:
  assumes "tx_at s {i} is" "sockproxy_MsgSend e s (msgdata b) (msglen b) = (res, s1)" "b = sp_mem (sp_pool s) ! i"
    and "\<not> tx_stale e (tx_para s b)" "tx_notice (tx_nodes s) f b = tx_news e (tx_para s b) (SendInform_cb b) res"
    and "s2 = (if tx_kept e (tx_para s b) res then put_back i (tx_inform b f s1) else tx_inform b f (put_send i s1))"
  shows "0 \<le> res \<Longrightarrow> tx_result e s b i is s2"
    and "res < 0 \<Longrightarrow> tx_result e s b i is
      (sockproxy_socketclose (tx_close_free e) (tx_close_now e) s2 (tx_close_type (tx_para s b)))"
proof -
  note a = attempt_law [OF assms(1-3)]
  have fr: "tx_frame s2 = tx_frame s" using a(5) assms(6) by simp
  have in1: "tx_at (tx_inform b f s1) {i} is" using a(2) by (simp add: tx_at_pool [OF tx_inform_law(1)])
  note p = put_send_law [OF a(2)] and q = put_back_law [OF in1] and w = tx_inform_law
  have s2: "tx_at s2 {} (if tx_kept e (tx_para s b) res then i # is else is)" "sp_mem (sp_pool s2) = sp_mem (sp_pool s)"
    "sp_calls s2 = sp_calls s1 @ tx_notice (tx_nodes s) f b"
    "tx_nodes s2 = tx_told (Inform_cb_para b) (tx_notice (tx_nodes s) f b) (tx_nodes s)"
    using a(3,4) p q w [of b f] assms(6) by (simp_all add: tx_at_pool [OF tx_inform_law(1)])
  show "0 \<le> res \<Longrightarrow> tx_result e s b i is s2"
    using s2 a(1) [symmetric] a(6) fr assms(4,5) by (simp add: tx_result_def Let_def tx_after_def)
  show "res < 0 \<Longrightarrow> tx_result e s b i is
      (sockproxy_socketclose (tx_close_free e) (tx_close_now e) s2 (tx_close_type (tx_para s b)))"
    using s2 a(1) [symmetric] a(6) assms(4,5) close_law [OF fr] by (simp add: tx_result_def Let_def tx_after_def)
qed

lemma notice_of:
  "Inform_cb_para b = Some n \<Longrightarrow> tx_notice nodes f b = (if SendInform_cb b then [SendInform (Some (f (nodes n)))] else [])"
  by (simp add: tx_notice_def)

lemma SIGTIME_result:
  assumes "tx_at s {i} is" "b = sp_mem (sp_pool s) ! i" "tx_para s b = Some p" "pakgtype p = PP_TXPAKG_SIGTIME" "SendInform_cb b"
  shows "\<exists>s'. tx_SIGTIME e i b p s = Some s' \<and> tx_result e s b i is s'"
proof -
  from assms(3) obtain n where n: "Inform_cb_para b = Some n" "p = tx_nodes s n" by (auto simp: tx_para_def)
  show ?thesis
  proof (cases "tx_now e - eventtime p < SOCK_TXPAKG_OUTOFTIME")
    case True
    then have st: "\<not> tx_stale e (tx_para s b)" using assms(3) by (simp add: tx_stale_def)
    obtain res s1 where ms: "sockproxy_MsgSend e s (msgdata b) (msglen b) = (res, s1)" by (rule prod.exhaust)
    have k: "tx_kept e (tx_para s b) res = (res = 0)" using st assms(3,4) by (simp add: tx_kept_def)
    note told = told_result [OF assms(1) ms assms(2) st]
    consider "res < 0" | "res = 0" | "res > 0" by linarith
    then show ?thesis
    proof cases
      case 1
      with told(2) [of "tx_fail PP_TXPAKG_TXFAIL (tx_fail_now e)", OF _ refl] True ms st k assms(3-5) n show ?thesis
        by (simp add: tx_SIGTIME_def notice_of tx_news_def tx_close_type_def)
    next
      case 2
      from kept_result [OF assms(1) ms [unfolded 2] assms(2) st] show ?thesis
        using True ms 2 assms(3,4) by (simp add: tx_SIGTIME_def)
    next
      case 3
      with told(1) [of tx_success, OF _ refl] True ms st k assms(3-5) n show ?thesis
        by (simp add: tx_SIGTIME_def notice_of tx_news_def)
    qed
  next
    case False
    then have st: "tx_stale e (tx_para s b)" using assms(3,4) by (simp add: tx_stale_def)
    let ?f = "tx_fail PP_TXPAKG_OUTOFDATE (tx_fail_now e)"
    have e: "tx_SIGTIME e i b p s = Some (tx_inform b ?f (put_send i s))"
      using False assms(5) by (simp add: tx_SIGTIME_def tx_inform_def Let_def)
    note p = put_send_law [OF assms(1)]
    have "tx_result e s b i is (tx_inform b ?f (put_send i s))"
      using p tx_inform_law [of b ?f "put_send i s"] st assms(3-5) n
      by (simp add: tx_result_def Let_def tx_kept_def tx_news_def tx_after_def notice_of tx_at_pool [OF tx_inform_law(1)])
    with e show ?thesis by blast
  qed
qed

lemma SIGTRIG_result:
  assumes "tx_at s {i} is" "b = sp_mem (sp_pool s) ! i" "tx_para s b = Some p" "pakgtype p = PP_TXPAKG_SIGTRIG"
  shows "tx_result e s b i is (tx_SIGTRIG e i b s)"
proof -
  from assms(3) obtain n where n: "Inform_cb_para b = Some n" "p = tx_nodes s n" by (auto simp: tx_para_def)
  have st: "\<not> tx_stale e (tx_para s b)" using assms(3,4) by (simp add: tx_stale_def)
  obtain res s1 where ms: "sockproxy_MsgSend e s (msgdata b) (msglen b) = (res, s1)" by (rule prod.exhaust)
  have k: "\<not> tx_kept e (tx_para s b) res" using assms(3,4) by (simp add: tx_kept_def)
  note told = told_result [OF assms(1) ms assms(2) st]
  consider "res < 0" | "res = 0" | "res > 0" by linarith
  then show ?thesis
  proof cases
    case 1
    with told(2) [of "tx_fail PP_TXPAKG_TXFAIL (tx_fail_now e)", OF _ refl] ms st k assms(3,4) n show ?thesis
      by (simp add: tx_SIGTRIG_def notice_of tx_news_def tx_close_type_def)
  next
    case 2
    with told(1) [of "tx_fail PP_TXPAKG_TXFAIL (tx_fail_now e)", OF _ refl] ms st k assms(3,4) n show ?thesis
      by (simp add: tx_SIGTRIG_def notice_of tx_news_def)
  next
    case 3
    with told(1) [of tx_success, OF _ refl] ms st k assms(3,4) n show ?thesis
      by (simp add: tx_SIGTRIG_def notice_of tx_news_def)
  qed
qed

lemma CONTINUE_result:
  assumes "tx_at s {i} is" "b = sp_mem (sp_pool s) ! i" "tx_para s b = Some p" "pakgtype p = PP_TXPAKG_CONTINUE"
  shows "tx_result e s b i is (tx_CONTINUE e i b s)"
proof -
  from assms(3) obtain n where n: "Inform_cb_para b = Some n" "p = tx_nodes s n" by (auto simp: tx_para_def)
  have st: "\<not> tx_stale e (tx_para s b)" using assms(3,4) by (simp add: tx_stale_def)
  obtain res s1 where ms: "sockproxy_MsgSend e s (msgdata b) (msglen b) = (res, s1)" by (rule prod.exhaust)
  have k: "tx_kept e (tx_para s b) res = (res \<le> 0)" using st assms(3,4) by (simp add: tx_kept_def)
  note told = told_result [OF assms(1) ms assms(2) st]
  consider "res < 0" | "res = 0" | "res > 0" by linarith
  then show ?thesis
  proof cases
    case 1
    with told(2) [of "tx_fail PP_TXPAKG_TXFAIL (tx_fail_now e)", OF _ refl] ms st k assms(3,4) n show ?thesis
      by (simp add: tx_CONTINUE_def notice_of tx_news_def tx_close_type_def)
  next
    case 2
    from kept_result [OF assms(1) ms [unfolded 2] assms(2) st] show ?thesis
      using ms 2 assms(3,4) by (simp add: tx_CONTINUE_def)
  next
    case 3
    with told(1) [of tx_success, OF _ refl] ms st k assms(3,4) n show ?thesis
      by (simp add: tx_CONTINUE_def notice_of tx_news_def)
  qed
qed

lemma plain_result:
  assumes "tx_at s {i} is" "b = sp_mem (sp_pool s) ! i" "Inform_cb_para b = None"
  shows "tx_result e s b i is (tx_plain e i b s)"
proof -
  have pa: "tx_para s b = None" using assms(3) by (simp add: tx_para_def)
  have st: "\<not> tx_stale e (tx_para s b)" by (simp add: tx_stale_def pa)
  obtain res s1 where ms: "sockproxy_MsgSend e s (msgdata b) (msglen b) = (res, s1)" by (rule prod.exhaust)
  have k: "tx_kept e (tx_para s b) res = (res = 0)" using st by (simp add: tx_kept_def pa)
  have nt: "tx_notice (tx_nodes s) id b = (if SendInform_cb b then [SendInform None] else [])"
    using assms(3) by (simp add: tx_notice_def)
  note told = told_result [OF assms(1) ms assms(2) st, of id]
  consider "res < 0" | "res = 0" | "res > 0" by linarith
  then show ?thesis
  proof cases
    case 1
    with told(2) [OF _ refl] k ms nt pa show ?thesis by (simp add: tx_plain_def tx_news_def tx_close_type_def)
  next
    case 2
    from kept_result [OF assms(1) ms [unfolded 2] assms(2) st] show ?thesis
      using ms 2 pa by (simp add: tx_plain_def)
  next
    case 3
    with told(1) [OF _ refl] k ms nt pa show ?thesis by (simp add: tx_plain_def tx_news_def)
  qed
qed

lemma do_send_result:
  assumes "tx_at s {} (i # is)" "b = sp_mem (sp_pool s) ! i" "tx_kind_ok (tx_para s b) (SendInform_cb b)"
  shows "\<exists>s'. sockproxy_do_send e s = Some s' \<and> tx_result e s b i is s'"
proof -
  from assms(1) obtain L where L: "SP_at (sp_pool s) L {}" "L SP_realtm_lst = i # is" by (auto simp: tx_at_def)
  from SP_get_law [OF L(1)] L(2) obtain p where p: "SP_data_get_pack (sp_pool s) = (Some i, p)"
    "SP_at p (L(SP_realtm_lst := is)) {i}" "sp_mem p = sp_mem (sp_pool s)" by auto
  let ?s = "s\<lparr>sp_pool := p\<rparr>"
  have at: "tx_at ?s {i} is" using p(2) unfolding tx_at_def by (intro exI [of _ "L(SP_realtm_lst := is)"]) simp
  have b: "b = sp_mem (sp_pool ?s) ! i" using p(3) assms(2) by simp
  have pa: "tx_para ?s b = tx_para s b" by (simp add: tx_para_def)
  have r: "tx_result e ?s c i is s' = tx_result e s c i is s'" for c s'
  proof -
    have "tx_outcome e ?s n = tx_outcome e s n" "link_up e ?s = link_up e s" "tx_call ?s m = tx_call s m"
      "tx_after e ?s x y = tx_after e s x y" "tx_para ?s c = tx_para s c" for n m x y
      by (simp_all add: tx_outcome_def link_up_def tx_call_def tx_after_def tx_frame_def sockproxy_socketclose_def tx_para_def)
    then show ?thesis using p(3) by (simp add: tx_result_def)
  qed
  show ?thesis
  proof (cases "Inform_cb_para b")
    case None
    with plain_result [OF at b, of e] p(1,3) assms(2) show ?thesis by (simp add: sockproxy_do_send_def r)
  next
    case (Some n)
    let ?q = "tx_nodes s n"
    have q: "tx_para ?s b = Some ?q" using Some by (simp add: tx_para_def)
    have q': "tx_para s b = Some ?q" using q pa by simp
    from assms(3) consider "pakgtype ?q = PP_TXPAKG_SIGTIME" "SendInform_cb b" | "pakgtype ?q = PP_TXPAKG_SIGTRIG" | "pakgtype ?q = PP_TXPAKG_CONTINUE"
      by (auto simp: tx_kind_ok_def q')
    then show ?thesis
    proof cases
      case 1
      from SIGTIME_result [OF at b q 1, of e] p(1,3) Some 1(1) assms(2) show ?thesis by (simp add: sockproxy_do_send_def r)
    next
      case 2
      with SIGTRIG_result [OF at b q 2, of e] p(1,3) Some assms(2) show ?thesis by (simp add: sockproxy_do_send_def r)
    next
      case 3
      with CONTINUE_result [OF at b q 3, of e] p(1,3) Some assms(2) show ?thesis by (simp add: sockproxy_do_send_def r)
    qed
  qed
qed

lemma do_send_idle: "tx_at s {} [] \<Longrightarrow> sockproxy_do_send e s = Some s"
  using SP_get_law by (fastforce simp: tx_at_def sockproxy_do_send_def)

section \<open>Runs\<close>

lemma sp_ok_tx_at: "sp_ok (sp_pool s) None \<longleftrightarrow> (\<exists>is. tx_at s {} is)"
  by (auto simp: sp_ok_def tx_at_def)

lemma tx_at_ids: "tx_at s {} is \<Longrightarrow> sp_ids (sp_pool s) None = is"
  using SP_at_ids [of "sp_pool s" _ None] by (auto simp: tx_at_def)

lemma tx_at_distinct: "tx_at s {} is \<Longrightarrow> distinct is"
  by (auto simp: tx_at_def SP_at_def cells_at_def lists_at_def sp_heads_def dll_def distinct_map)

lemma tx_at_waiting: "tx_at s {} is \<Longrightarrow> sp_waiting (sp_pool s) None = map (\<lambda>i. block_msg (sp_mem (sp_pool s) ! i)) is"
  by (simp add: sp_waiting_def tx_at_ids)

lemma sp_entries_at:
  assumes "tx_at s {} is"
  shows "sp_entries (sp_pool s) = map (\<lambda>i. block_entry (sp_mem (sp_pool s) ! i)) is"
  by (simp add: sp_entries_def tx_at_ids [OF assms])

datatype tx_op =
    TxWrite tx_writer u8 "u64 option" bytes int
  | TxSend tx_env
  | TxAcked
  | TxLink PP_SOCK_STATE sock_link bool

text \<open>A step of the run returns the messages accepted for sending and those an attempt has removed, each with the
  kind its node had at the attempt and whether the connection took it. The link changes as it likes;
  acknowledgements of the plain socket come at any time.\<close>

definition tx_gone :: "tx_env \<Rightarrow> sockproxy_stat_t \<Rightarrow> (bytes \<times> u8 \<times> bool) list" where
  "tx_gone e s = (case sp_entries (sp_pool s) of [] \<Rightarrow> []
     | (m, node, _) # _ \<Rightarrow>
         let para = map_option (tx_nodes s) node; res = tx_outcome e s (int (length m))
         in if tx_kept e para res then []
            else [(m, case para of None \<Rightarrow> 0 | Some p \<Rightarrow> pakgtype p, \<not> tx_stale e para \<and> 0 < res)])"

fun tx_step :: "tx_op \<Rightarrow> sockproxy_stat_t \<Rightarrow> (bytes list \<times> (bytes \<times> u8 \<times> bool) list \<times> sockproxy_stat_t) option" where
  "tx_step (TxWrite w kind time data len) s =
     Some (if SP_accepts (sp_pool s) len then [take (nat len) data] else [], [], tx_post w kind time data len s)"
| "tx_step (TxSend e) s = map_option (\<lambda>s'. ([], tx_gone e s, s')) (sockproxy_do_send e s)"
| "tx_step TxAcked s = Some ([], [], s\<lparr>sp_pool := SP_data_ack_pack (sp_pool s)\<rparr>)"
| "tx_step (TxLink st l m) s = Some ([], [], s\<lparr>state := st, linkSt := l, sendmtx := m\<rparr>)"

fun tx_run :: "tx_op list \<Rightarrow> sockproxy_stat_t \<Rightarrow> (bytes list \<times> (bytes \<times> u8 \<times> bool) list \<times> sockproxy_stat_t) option" where
  "tx_run [] s = Some ([], [], s)"
| "tx_run (p # ps) s =
     (case tx_step p s of None \<Rightarrow> None
      | Some (a, d, s1) \<Rightarrow> map_option (\<lambda>(a', d', s'). (a @ a', d @ d', s')) (tx_run ps s1))"

text \<open>The writers of the program, and those of them that send until it succeeds.\<close>

fun tx_op_ok :: "tx_op \<Rightarrow> bool" where
  "tx_op_ok (TxWrite w kind time data len) \<longleftrightarrow> 0 \<le> len \<and> nat len \<le> length data \<and> tx_kind_of w kind time"
| "tx_op_ok _ = True"

fun tx_continuous :: "tx_op \<Rightarrow> bool" where
  "tx_continuous (TxWrite w kind time data len) \<longleftrightarrow> kind = PP_TXPAKG_CONTINUE"
| "tx_continuous _ = True"

text \<open>Every waiting block has a callback and a node whose kind is one of \<open>K\<close>.\<close>

definition tx_block_ok :: "u8 set \<Rightarrow> sockproxy_stat_t \<Rightarrow> nat \<Rightarrow> bool" where
  "tx_block_ok K s i \<longleftrightarrow> SendInform_cb (sp_mem (sp_pool s) ! i) \<and>
     (\<exists>n. Inform_cb_para (sp_mem (sp_pool s) ! i) = Some n \<and> pakgtype (tx_nodes s n) \<in> K)"

definition tx_inv :: "u8 set \<Rightarrow> sockproxy_stat_t \<Rightarrow> bool" where
  "tx_inv K s \<longleftrightarrow> (\<exists>is. tx_at s {} is \<and> (\<forall>i\<in>set is. tx_block_ok K s i))"

lemma tx_block_ok_cong:
  assumes "tx_block_ok K s i" "sp_mem (sp_pool s') ! i = sp_mem (sp_pool s) ! i"
    and "\<And>n. pakgtype (tx_nodes s' n) = pakgtype (tx_nodes s n) \<or> pakgtype (tx_nodes s' n) \<in> K"
  shows "tx_block_ok K s' i"
  using assms(1,2) assms(3) by (metis tx_block_ok_def)

lemma tx_write_step:
  assumes "tx_inv K s" "tx_op_ok (TxWrite w kind time data len)" "kind \<in> K" "tx_step (TxWrite w kind time data len) s = Some (a, d, s')"
  shows "tx_inv K s' \<and> sp_waiting (sp_pool s) None @ a = map fst d @ sp_waiting (sp_pool s') None"
proof -
  obtain n nodes where tk: "tx_take w (tx_nodes s) = (n, nodes)" by (rule prod.exhaust)
  note post = tx_post_kind [OF tk, of kind time data len]
  from assms(1) obtain L where L: "SP_at (sp_pool s) L {}" and k: "\<forall>i\<in>set (L SP_realtm_lst). tx_block_ok K s i"
    by (auto simp: tx_inv_def tx_at_def)
  have ok: "0 \<le> len" "nat len \<le> length data" using assms(2) by simp_all
  have at: "tx_at s {} (L SP_realtm_lst)" using L by (auto simp: tx_at_def)
  have s': "s' = tx_post w kind time data len s" "d = []" using assms(4) by auto
  have kinds: "pakgtype (tx_nodes s' m) = pakgtype (tx_nodes s m) \<or> pakgtype (tx_nodes s' m) \<in> K" for m
    using post(1) [of m] assms(3) s'(1) by auto
  show ?thesis
  proof (cases "SP_accepts (sp_pool s) len")
    case False
    then have "SP_data_write (sp_pool s) data len True (Some n) = sp_pool s"
      using SP_write_law(2) [OF L ok] SP_accepts_iff [OF L] by blast
    then have p: "sp_pool s' = sp_pool s" using post(2) s'(1) by simp
    then have "tx_at s' {} (L SP_realtm_lst)" "\<forall>i\<in>set (L SP_realtm_lst). tx_block_ok K s' i"
      using at k tx_block_ok_cong [of K s _ s'] kinds by (auto simp: tx_at_pool [OF p])
    then have "tx_inv K s'" by (auto simp: tx_inv_def)
    with False assms(4) p s'(2) show ?thesis by auto
  next
    case True
    from SP_write_law(1) [OF L ok, of True "Some n"] True SP_accepts_iff [OF L] obtain L' i where
      w: "SP_at (sp_pool s') L' {}" "L' SP_realtm_lst = L SP_realtm_lst @ [i]" "i \<notin> set (L SP_realtm_lst)"
      "block_entry (sp_mem (sp_pool s') ! i) = (take (nat len) data, Some n, True)"
      "\<forall>j. j \<noteq> i \<longrightarrow> sp_mem (sp_pool s') ! j = sp_mem (sp_pool s) ! j" using post(2) s'(1) by auto
    have at': "tx_at s' {} (L SP_realtm_lst @ [i])" using w(1,2) unfolding tx_at_def by (intro exI [of _ L']) simp
    have old: "sp_mem (sp_pool s') ! j = sp_mem (sp_pool s) ! j" if "j \<in> set (L SP_realtm_lst)" for j
      using that w(3,5) by metis
    have "tx_block_ok K s' i" using w(4) post(1) [of n] assms(3) s'(1) by (simp add: tx_block_ok_def block_entry_def)
    moreover have "\<forall>j\<in>set (L SP_realtm_lst). tx_block_ok K s' j"
      using k old tx_block_ok_cong [of K s _ s'] kinds by auto
    ultimately have "tx_inv K s'" using at' unfolding tx_inv_def by (intro exI [of _ "L SP_realtm_lst @ [i]"]) auto
    moreover have "map (\<lambda>i. block_msg (sp_mem (sp_pool s') ! i)) (L SP_realtm_lst) = map (\<lambda>i. block_msg (sp_mem (sp_pool s) ! i)) (L SP_realtm_lst)"
      using old by simp
    ultimately show ?thesis
      using tx_at_waiting [OF at] tx_at_waiting [OF at'] w(4) s'(2) True assms(4) by (auto simp: block_entry_def)
  qed
qed

lemma tx_told_kind:
  "pakgtype (tx_told node (tx_news e (map_option nodes node) cb res) nodes n) = pakgtype (nodes n)"
  by (cases node) (auto simp: tx_told_def tx_news_def tx_kind_kept)

text \<open>A message goes untaken only when its node does not say that it is to be sent until it succeeds.\<close>

lemma tx_send_step:
  assumes "tx_inv K s" "K \<subseteq> {PP_TXPAKG_CONTINUE, PP_TXPAKG_SIGTRIG, PP_TXPAKG_SIGTIME}"
  shows "\<exists>s'. sockproxy_do_send e s = Some s' \<and> tx_inv K s'
    \<and> sp_waiting (sp_pool s) None = map fst (tx_gone e s) @ sp_waiting (sp_pool s') None
    \<and> (\<forall>(m, kind, taken)\<in>set (tx_gone e s). kind \<in> K \<and> (kind = PP_TXPAKG_CONTINUE \<longrightarrow> taken))"
proof -
  from assms(1) obtain is' where at: "tx_at s {} is'" and k: "\<forall>i\<in>set is'. tx_block_ok K s i"
    by (auto simp: tx_inv_def)
  show ?thesis
  proof (cases is')
    case Nil
    then show ?thesis using assms do_send_idle [of s e] at tx_at_ids [OF at] by (simp add: tx_gone_def sp_entries_def)
  next
    case (Cons i "is")
    let ?b = "sp_mem (sp_pool s) ! i"
    from k Cons obtain n where n: "Inform_cb_para ?b = Some n" "pakgtype (tx_nodes s n) \<in> K" "SendInform_cb ?b"
      by (auto simp: tx_block_ok_def)
    let ?p = "tx_nodes s n"
    have pa: "tx_para s ?b = Some ?p" using n by (simp add: tx_para_def)
    then have "tx_kind_ok (tx_para s ?b) (SendInform_cb ?b)" using n assms(2) by (auto simp: tx_kind_ok_def)
    from do_send_result [OF at [unfolded Cons] refl this] obtain s' where
      s': "sockproxy_do_send e s = Some s'" "tx_result e s ?b i is s'" by blast
    let ?r = "tx_outcome e s (int (length (block_msg ?b)))" and ?keep = "tx_kept e (Some ?p) (tx_outcome e s (int (length (block_msg ?b))))"
    from s'(2) pa have at': "tx_at s' {} (if ?keep then i # is else is)" and same: "sp_mem (sp_pool s') = sp_mem (sp_pool s)"
      and nd: "tx_nodes s' = tx_told (Some n) (tx_news e (map_option (tx_nodes s) (Some n)) True ?r) (tx_nodes s)"
      using n by (simp_all add: tx_result_def Let_def)
    have kinds: "pakgtype (tx_nodes s' m) = pakgtype (tx_nodes s m)" for m unfolding nd by (rule tx_told_kind)
    have "tx_block_ok K s' j" if "j \<in> set is'" for j
      by (rule tx_block_ok_cong [of K s]) (use k that in \<open>simp_all add: same kinds\<close>)
    then have "tx_inv K s'" unfolding tx_inv_def
      using at' Cons by (intro exI [of _ "if ?keep then i # is else is"]) simp
    moreover have g: "tx_gone e s = (if ?keep then [] else [(block_msg ?b, pakgtype ?p, \<not> tx_stale e (Some ?p) \<and> 0 < ?r)])"
      using n(1) by (simp add: tx_gone_def sp_entries_at [OF at] Cons block_entry_def Let_def)
    moreover have "pakgtype ?p = PP_TXPAKG_CONTINUE \<Longrightarrow> \<not> ?keep \<Longrightarrow> \<not> tx_stale e (Some ?p) \<and> 0 < ?r"
      by (auto simp: tx_kept_def tx_stale_def)
    ultimately show ?thesis
      using s'(1) n(2) tx_at_waiting [OF at] tx_at_waiting [OF at'] Cons by (auto simp: same)
  qed
qed

lemma tx_run_law:
  "tx_inv K s \<Longrightarrow> K \<subseteq> {PP_TXPAKG_CONTINUE, PP_TXPAKG_SIGTRIG, PP_TXPAKG_SIGTIME} \<Longrightarrow> \<forall>p\<in>set ps. tx_op_ok p
   \<Longrightarrow> \<forall>w kind t data len. TxWrite w kind t data len \<in> set ps \<longrightarrow> kind \<in> K \<Longrightarrow>
   \<exists>acc gone s'. tx_run ps s = Some (acc, gone, s') \<and> tx_inv K s'
     \<and> sp_waiting (sp_pool s) None @ acc = map fst gone @ sp_waiting (sp_pool s') None
     \<and> (\<forall>(m, kind, taken)\<in>set gone. kind \<in> K \<and> (kind = PP_TXPAKG_CONTINUE \<longrightarrow> taken))"
proof (induction ps arbitrary: s)
  case Nil
  then show ?case by simp
next
  case (Cons p ps)
  have "\<exists>a d s1. tx_step p s = Some (a, d, s1) \<and> tx_inv K s1
      \<and> sp_waiting (sp_pool s) None @ a = map fst d @ sp_waiting (sp_pool s1) None
      \<and> (\<forall>(m, kind, taken)\<in>set d. kind \<in> K \<and> (kind = PP_TXPAKG_CONTINUE \<longrightarrow> taken))"
  proof (cases p)
    case (TxWrite w kind time data len)
    with Cons.prems(3,4) have "tx_op_ok (TxWrite w kind time data len)" "kind \<in> K" by auto
    from tx_write_step [OF Cons.prems(1) this] TxWrite show ?thesis by simp
  next
    case (TxSend e)
    from tx_send_step [OF Cons.prems(1,2), of e] TxSend show ?thesis by auto
  next
    case TxAcked
    from Cons.prems(1) obtain L where L: "SP_at (sp_pool s) L {}" and k: "\<forall>i\<in>set (L SP_realtm_lst). tx_block_ok K s i"
      by (auto simp: tx_inv_def tx_at_def)
    let ?s = "s\<lparr>sp_pool := SP_data_ack_pack (sp_pool s)\<rparr>"
    from SP_ack_law [OF L] obtain L' where L': "SP_at (SP_data_ack_pack (sp_pool s)) L' {}"
      "L' SP_realtm_lst = L SP_realtm_lst" "sp_mem (SP_data_ack_pack (sp_pool s)) = sp_mem (sp_pool s)" by blast
    have at: "tx_at s {} (L SP_realtm_lst)" "tx_at ?s {} (L SP_realtm_lst)" using L L' by (auto simp: tx_at_def)
    have "\<forall>i\<in>set (L SP_realtm_lst). tx_block_ok K ?s i" using k L'(3) by (auto simp: tx_block_ok_def)
    with at(2) have "tx_inv K ?s" by (auto simp: tx_inv_def)
    with TxAcked tx_at_waiting [OF at(1)] tx_at_waiting [OF at(2)] L'(3) show ?thesis by simp
  next
    case (TxLink st l m)
    with Cons.prems(1) show ?thesis by (simp add: tx_inv_def tx_at_def tx_block_ok_def)
  qed
  then obtain a d s1 where 1: "tx_step p s = Some (a, d, s1)" "tx_inv K s1"
    "sp_waiting (sp_pool s) None @ a = map fst d @ sp_waiting (sp_pool s1) None"
    "\<forall>(m, kind, taken)\<in>set d. kind \<in> K \<and> (kind = PP_TXPAKG_CONTINUE \<longrightarrow> taken)" by blast
  have "\<forall>p\<in>set ps. tx_op_ok p" "\<forall>w kind t data len. TxWrite w kind t data len \<in> set ps \<longrightarrow> kind \<in> K"
    using Cons.prems(3,4) by auto
  from Cons.IH [OF 1(2) Cons.prems(2) this] obtain acc gone s' where
    2: "tx_run ps s1 = Some (acc, gone, s')" "tx_inv K s'"
    "sp_waiting (sp_pool s1) None @ acc = map fst gone @ sp_waiting (sp_pool s') None"
    "\<forall>(m, kind, taken)\<in>set gone. kind \<in> K \<and> (kind = PP_TXPAKG_CONTINUE \<longrightarrow> taken)" by blast
  have "sp_waiting (sp_pool s) None @ a @ acc = map fst (d @ gone) @ sp_waiting (sp_pool s') None"
    using 1(3) 2(3) by (metis append.assoc map_append)
  with 1(1,4) 2(1,2,4) show ?case by auto
qed

section \<open>Properties\<close>

text \<open>C32: One attempt of the sending thread on the oldest message, of a kind the program names (or with no node at
  all; a timed one has a callback): it never leaves the block in nobody's hands, it keeps or removes exactly this
  message as the kind its node has now and the answer of the connection say, calls the connection only when the
  message is not past its time, tells the owner the outcome and frees the node, also that of a message it keeps,
  and asks for the connection to be closed exactly when sending failed.\<close>

theorem sock_send_outcome:
  assumes "sp_ok (sp_pool s) None" "sp_entries (sp_pool s) = (m, node, cb) # rest"
    and "para = map_option (tx_nodes s) node" "tx_kind_ok para cb" "res = tx_outcome e s (int (length m))"
  shows "\<exists>s'. sockproxy_do_send e s = Some s' \<and> sp_ok (sp_pool s') None
    \<and> sp_waiting (sp_pool s') None = (if tx_kept e para res then m # map fst rest else map fst rest)
    \<and> sp_calls s' = sp_calls s @ (if link_up e s \<and> \<not> tx_stale e para then [tx_call s m] else []) @ tx_news e para cb res
    \<and> tx_nodes s' = tx_told node (tx_news e para cb res) (tx_nodes s)
    \<and> tx_frame s' = tx_after e s (\<not> tx_stale e para \<and> res < 0) (tx_close_type para)"
proof -
  from assms(1) obtain is' where at: "tx_at s {} is'" by (auto simp: sp_ok_tx_at)
  with assms(2) obtain i "is" where i: "is' = i # is" by (cases is') (auto simp: sp_entries_at [OF at])
  let ?b = "sp_mem (sp_pool s) ! i"
  have b: "block_msg ?b = m" "Inform_cb_para ?b = node" "SendInform_cb ?b = cb"
    and r: "rest = map (\<lambda>i. block_entry (sp_mem (sp_pool s) ! i)) is"
    using assms(2) by (simp_all add: sp_entries_at [OF at] i block_entry_def)
  have pa: "tx_para s ?b = para" using b(2) assms(3) by (simp add: tx_para_def)
  from do_send_result [OF at [unfolded i] refl] assms(4) pa b(3) obtain s' where
    s': "sockproxy_do_send e s = Some s'" "tx_result e s ?b i is s'" by blast
  from s'(2) b pa assms(5) have at': "tx_at s' {} (if tx_kept e para res then i # is else is)"
    and same: "sp_mem (sp_pool s') = sp_mem (sp_pool s)" by (simp_all add: tx_result_def Let_def)
  have "map fst rest = map (\<lambda>i. block_msg (sp_mem (sp_pool s) ! i)) is" by (simp add: r block_entry_def)
  then have "sp_waiting (sp_pool s') None = (if tx_kept e para res then m # map fst rest else map fst rest)"
    using tx_at_waiting [OF at'] by (simp add: same b(1))
  moreover have "sp_ok (sp_pool s') None" using at' by (auto simp: sp_ok_tx_at)
  ultimately show ?thesis using s' b pa assms(5) by (auto simp: tx_result_def Let_def)
qed

lemma tx_inv_start:
  assumes "length (sp_mem p) = 120" "\<forall>b\<in>set (sp_mem p). length (msgdata b) = 1456" "sp_pool s = SP_data_init p"
  shows "tx_inv K s"
proof -
  from clearqueue_at [OF assms(1,2)] assms(3) have "tx_at s {} []" unfolding tx_at_def
    by (intro exI [of _ "\<lambda>a. if a = SP_free_lst then [0..<120] else []"]) simp
  then show ?thesis by (auto simp: tx_inv_def)
qed

text \<open>C31: Through any run of the program's writers, attempts with any answers, acknowledgements and changes of the
  connection, no attempt fails to return, the messages leave the waiting list in the order in which they were
  accepted, none altered or doubled, and an attempt removes a message the connection did not take only when its
  node at that moment does not say that it is to be sent until it succeeds. So when all messages of the run are
  of that kind none is lost. (A node is free again after a failed attempt although its message waits on: the next
  writer may take it and change the kind, see \<open>continuous_kind_changes\<close>.)\<close>

theorem sock_continuous_delivered:
  assumes "length (sp_mem p) = 120" "\<forall>b\<in>set (sp_mem p). length (msgdata b) = 1456" "sp_pool s = SP_data_init p"
    and "\<forall>q\<in>set ps. tx_op_ok q"
  shows "\<exists>acc gone s'. tx_run ps s = Some (acc, gone, s') \<and> acc = map fst gone @ sp_waiting (sp_pool s') None
    \<and> (\<forall>(m, kind, taken)\<in>set gone. kind = PP_TXPAKG_CONTINUE \<longrightarrow> taken)
    \<and> ((\<forall>q\<in>set ps. tx_continuous q) \<longrightarrow> (\<forall>(m, kind, taken)\<in>set gone. taken))"
proof -
  let ?K = "if \<forall>q\<in>set ps. tx_continuous q then {PP_TXPAKG_CONTINUE} else {PP_TXPAKG_CONTINUE, PP_TXPAKG_SIGTRIG, PP_TXPAKG_SIGTIME}"
  have k: "kind \<in> ?K" if "TxWrite w kind t data len \<in> set ps" for w kind t data len
    using that assms(4) tx_kind_of_known [of w kind t] by force
  have "?K \<subseteq> {PP_TXPAKG_CONTINUE, PP_TXPAKG_SIGTRIG, PP_TXPAKG_SIGTIME}" by simp
  from tx_run_law [OF tx_inv_start [OF assms(1-3)] this assms(4)] k obtain acc gone s' where
    r: "tx_run ps s = Some (acc, gone, s')" "sp_waiting (sp_pool s) None @ acc = map fst gone @ sp_waiting (sp_pool s') None"
    "\<forall>(m, kind, taken)\<in>set gone. kind \<in> ?K \<and> (kind = PP_TXPAKG_CONTINUE \<longrightarrow> taken)" by blast
  have "sp_waiting (sp_pool s) None = []" using sp_init_ok(2) [OF assms(1,2)] assms(3) by simp
  moreover have "\<forall>(m, kind, taken)\<in>set gone. taken" if "\<forall>q\<in>set ps. tx_continuous q"
    using r(3) that by fastforce
  ultimately show ?thesis using r by (intro exI [of _ acc] exI [of _ gone] exI [of _ s']) auto
qed

definition demo_tx_env :: "int \<Rightarrow> tx_env" where
  "demo_tx_env r = \<lparr>tx_lock_free = True, tx_answer = r, tx_now = 9, tx_fail_now = 9, tx_close_free = True, tx_close_now = 9\<rparr>"

definition demo_tx_sock :: "PP_SOCK_STATE \<Rightarrow> sockproxy_stat_t" where
  "demo_tx_sock st = \<lparr>sp_socket = 3, state = st, asynCloseFlg = False, asynCloseType = 0, closewaittime = 0,
     sock_url = ''tsp'', sock_port = 80, rcvType = PP_RCV_UNRCV, rcvstep = 0, rcvlen = 0, rcvbuf = replicate 1456 0,
     datalen = 0, linkSt = SOCKPROXY_SETUP_BDLLINK, sglinkSt = SOCKPROXY_SGLINK_INIT, waittime = 0,
     BDLlinkSt = SOCKPROXY_BDLLINK_CREAT, rcvflag = False, sleepFlag = False, sleepwaittime = 0,
     sleepwaittimeoutcnt = 0, recalltimer = 0, cancelRcvphreadFlag = False, sgLinkAddr = [], sgPort = 0,
     BDLLinkAddr = [], BDLPort = 0, pkiEnFlag = 1, SPObj = [], sp_pool = SP_data_init demo_pool,
     tx_nodes = (\<lambda>_. blank_node), connect_time = 0, checkclosedelaytime = 0, IGNoldSt = False, sendmtx = False, sp_calls = []\<rparr>"

theorem sock_continuous_delivered_witness:
  "\<exists>acc gone s'. tx_run [TxWrite WrModule 1 None [1, 2] 2, TxSend (demo_tx_env 7), TxWrite WrHeartbeat 2 (Some 5) [3] 1,
       TxSend (demo_tx_env 1260)] (demo_tx_sock PP_OPENED) = Some (acc, gone, s')
     \<and> acc = map fst gone @ sp_waiting (sp_pool s') None"
  using sock_continuous_delivered [OF demo_pool_shape, of "demo_tx_sock PP_OPENED" "[TxWrite WrModule 1 None [1, 2] 2,
      TxSend (demo_tx_env 7), TxWrite WrHeartbeat 2 (Some 5) [3] 1, TxSend (demo_tx_env 1260)]"]
  by (auto simp: demo_tx_sock_def)

lemma demo_take: "tx_take WrModule (tx_nodes (demo_tx_sock st)) = (PP_TxInform 0, (\<lambda>_. blank_node)(PP_TxInform 0 := blank_node\<lparr>idleflag := True\<rparr>))"
proof -
  have "List.find (\<lambda>i. \<not> idleflag ((\<lambda>_. blank_node) (PP_TxInform i))) [0..<1000] = Some 0"
    by (rule find_first) (simp_all add: blank_node_def)
  then show ?thesis by (simp add: tx_take_def PP_getIdleNode_def idle_node_def demo_tx_sock_def)
qed

lemma demo_tx_head:
  "\<exists>s. tx_step (TxWrite WrModule 1 None [1, 2] 2) (demo_tx_sock PP_OPENED) = Some ([[1, 2]], [], s)
     \<and> sp_ok (sp_pool s) None \<and> sp_entries (sp_pool s) = [([1, 2], Some (PP_TxInform 0), True)]
     \<and> pakgtype (tx_nodes s (PP_TxInform 0)) = 1 \<and> state s = PP_OPENED \<and> pkiEnFlag s = 1 \<and> \<not> sendmtx s"
proof -
  let ?p = "SP_data_init demo_pool" and ?L = "\<lambda>a. if a = SP_free_lst then [0..<120] else []" and ?n = "Some (PP_TxInform 0)"
  have at: "SP_at ?p ?L {}" using clearqueue_at [OF demo_pool_shape] by simp
  from SP_write_law(1) [OF at, of 2 "[1, 2]" True ?n] obtain L' i where
    w: "SP_at (SP_data_write ?p [1, 2] 2 True ?n) L' {}" "L' SP_realtm_lst = [i]"
    "block_entry (sp_mem (SP_data_write ?p [1, 2] 2 True ?n) ! i) = ([1, 2], ?n, True)"
    by auto
  have p: "sp_pool (demo_tx_sock PP_OPENED) = ?p" by (simp add: demo_tx_sock_def)
  let ?s = "tx_post WrModule 1 None [1, 2] 2 (demo_tx_sock PP_OPENED)"
  have s: "sp_pool ?s = SP_data_write ?p [1, 2] 2 True ?n" "pakgtype (tx_nodes ?s (PP_TxInform 0)) = 1"
    using tx_post_kind(1) [OF demo_take, where kind = 1 and time = None and data = "[1, 2]" and len = 2 and m = "PP_TxInform 0"]
      tx_post_kind(2) [OF demo_take, where kind = 1 and time = None and data = "[1, 2]" and len = 2] p by simp_all
  have f: "state ?s = PP_OPENED" "pkiEnFlag ?s = 1" "\<not> sendmtx ?s"
    by (simp_all add: tx_post_def demo_take Let_def) (simp_all add: demo_tx_sock_def)
  from SP_at_ids [of _ L' None] w(1,2) have "sp_ids (SP_data_write ?p [1, 2] 2 True ?n) None = [i]" by simp
  with w SP_accepts_iff [OF at, of 2] s f p show ?thesis
    by (intro exI [of _ ?s]) (auto simp: sp_ok_def sp_entries_def)
qed

theorem sock_send_outcome_witness:
  "\<exists>s s'. sp_waiting (sp_pool s) None = [[1, 2]] \<and> sockproxy_do_send (demo_tx_env 1260) s = Some s'
     \<and> sp_waiting (sp_pool s') None = []"
proof -
  from demo_tx_head obtain s :: sockproxy_stat_t where s: "sp_ok (sp_pool s) None"
    "sp_entries (sp_pool s) = [([1, 2], Some (PP_TxInform 0), True)]"
    "pakgtype (tx_nodes s (PP_TxInform 0)) = 1" "state s = PP_OPENED" "pkiEnFlag s = 1" "\<not> sendmtx s" by blast
  let ?q = "Some (tx_nodes s (PP_TxInform 0))"
  have k: "tx_kind_ok ?q True" "\<not> tx_stale e ?q" for e using s(3) by (simp_all add: tx_kind_ok_def tx_stale_def)
  have r: "tx_outcome (demo_tx_env 1260) s 2 = 1260"
    using s(4-6) by (simp add: tx_outcome_def link_up_def demo_tx_env_def)
  have "\<not> tx_kept (demo_tx_env 1260) ?q 1260" using s(3) by (simp add: tx_kept_def)
  with sock_send_outcome [OF s(1,2) refl _ refl, of "demo_tx_env 1260"] k r obtain s' where
    "sockproxy_do_send (demo_tx_env 1260) s = Some s'" "sp_waiting (sp_pool s') None = []" by auto
  moreover have "sp_waiting (sp_pool s) None = map fst (sp_entries (sp_pool s))"
    by (simp add: sp_waiting_def sp_entries_def block_entry_def)
  ultimately show ?thesis using s(2) by auto
qed

text \<open>A message of an unknown kind is taken off the list and put nowhere.\<close>

lemma unknown_kind_leaks:
  assumes "tx_at s {} (i # is)" "Inform_cb_para (sp_mem (sp_pool s) ! i) = Some n" "pakgtype (tx_nodes s n) \<notin> {1, 2, 3}"
  shows "\<exists>s'. sockproxy_do_send e s = Some s' \<and> tx_at s' {i} is"
proof -
  from assms(1) obtain L where L: "SP_at (sp_pool s) L {}" "L SP_realtm_lst = i # is" by (auto simp: tx_at_def)
  from SP_get_law [OF L(1)] L(2) obtain q where q: "SP_data_get_pack (sp_pool s) = (Some i, q)"
    "SP_at q (L(SP_realtm_lst := is)) {i}" "sp_mem q = sp_mem (sp_pool s)" by auto
  then have "tx_at (s\<lparr>sp_pool := q\<rparr>) {i} is" unfolding tx_at_def by (intro exI [of _ "L(SP_realtm_lst := is)"]) simp
  with q assms(2,3) show ?thesis by (simp add: sockproxy_do_send_def Let_def)
qed

text \<open>A failed attempt frees the node of the message that it keeps: the next module that queues a timed message takes
  the node, and the message that was to be sent until it succeeds is now given up after two seconds.\<close>

lemma continuous_kind_changes:
  assumes "tx_at s {} (i # is)" "Inform_cb_para (sp_mem (sp_pool s) ! i) = Some (PP_TxInform k)" "SendInform_cb (sp_mem (sp_pool s) ! i)"
    and "pakgtype (tx_nodes s (PP_TxInform k)) = PP_TXPAKG_CONTINUE" "k < 1000" "\<forall>j<k. idleflag (tx_nodes s (PP_TxInform j))"
    and "tx_outcome e s (int (length (block_msg (sp_mem (sp_pool s) ! i)))) < 0"
  shows "\<exists>s'. sockproxy_do_send e s = Some s' \<and> tx_at s' {} (i # is) \<and> Inform_cb_para (sp_mem (sp_pool s') ! i) = Some (PP_TxInform k)
    \<and> pakgtype (tx_nodes (tx_post WrModule PP_TXPAKG_SIGTIME (Some t) data len s') (PP_TxInform k)) = PP_TXPAKG_SIGTIME"
proof -
  let ?b = "sp_mem (sp_pool s) ! i" and ?n = "PP_TxInform k"
  have pa: "tx_para s ?b = Some (tx_nodes s ?n)" using assms(2) by (simp add: tx_para_def)
  then have "tx_kind_ok (tx_para s ?b) (SendInform_cb ?b)" using assms(4) by (simp add: tx_kind_ok_def)
  from do_send_result [OF assms(1) refl this] obtain s' where s': "sockproxy_do_send e s = Some s'" "tx_result e s ?b i is s'" by blast
  have nd: "tx_nodes s' = (tx_nodes s)(?n := tx_release ?n (tx_fail PP_TXPAKG_TXFAIL (tx_fail_now e) (tx_nodes s ?n)))"
    and at: "tx_at s' {} (i # is)" and mem: "sp_mem (sp_pool s') = sp_mem (sp_pool s)"
    using s'(2) assms(2-4,7) pa
    by (simp_all add: tx_result_def Let_def tx_news_def tx_told_def tx_stale_def tx_kept_def split: if_splits)
  have "List.find (\<lambda>i. \<not> idleflag (tx_nodes s' (PP_TxInform i))) [0..<1000] = Some k"
    using assms(5,6) by (intro find_first) (simp_all add: nd tx_release_def tx_flagged_def)
  then have "fst (tx_take WrModule (tx_nodes s')) = ?n"
    by (simp add: tx_take_def PP_getIdleNode_def idle_node_def)
  then have "tx_take WrModule (tx_nodes s') = (?n, snd (tx_take WrModule (tx_nodes s')))" by (simp add: prod_eq_iff)
  from tx_post_kind(1) [OF this, where kind = PP_TXPAKG_SIGTIME and m = ?n] s'(1) at mem assms(2) show ?thesis by simp
qed

end
