(* ===== verification/SockLink.thy ===== *)
theory SockLink
  imports SockRx SockTx
begin

text \<open>
  The connection of the socket proxy: initialisation, \<open>sockproxy_do_checksock\<close>, which the connection thread runs
  in a loop, with the set-up of the one-way link (\<open>sockproxy_sgLink\<close>, for fetching a certificate) and of the
  two-way link (\<open>sockproxy_BDLink\<close>), the forced close, the sleep flag and the redial. The answers of the
  certificate library, the resolver, the file system and the other modules are the fields of \<open>link_env\<close>; the
  readings of the clock in one call are one instant.
\<close>

datatype INIT_PHASE = INIT_PHASE_INSIDE | INIT_PHASE_RESTORE | INIT_PHASE_OUTSIDE
datatype sock_stat = SOCK_STAT_UNUSED | SOCK_STAT_CLOSED | SOCK_STAT_OPENED | SOCK_STAT_INPROG

record link_env =
  ln_now :: u64
  ln_network :: bool
  ln_url :: string
  ln_port :: int
  ln_sock_status :: sock_stat
  ln_sock_open :: int
  ln_sock_error :: bool
  ln_sock_sync :: bool
  ln_send_free :: bool
  ln_close_free :: bool
  ln_allowBDLink :: bool
  ln_addr :: string
  ln_addr_port :: int
  ln_resolved :: bool
  ln_PortAddrCft :: int
  ln_CertchainCfg :: int
  ln_crl_ready :: bool
  ln_SetVin :: int
  ln_Init :: int
  ln_Connect :: int
  ln_KL15 :: bool
  ln_gbLogout :: bool
  ln_PrvtSleep :: bool

text \<open>\<open>pki\<close> is the configured flag, read in the last phase.\<close>

definition sockproxy_init :: "INIT_PHASE \<Rightarrow> u8 \<Rightarrow> sockproxy_stat_t \<Rightarrow> sockproxy_stat_t" where
  "sockproxy_init phase pki s =
     (case phase of
        INIT_PHASE_INSIDE \<Rightarrow>
          s\<lparr>sp_socket := 0, state := PP_CLOSED, asynCloseFlg := False, asynCloseType := 0, closewaittime := 0,
            sock_url := [], sock_port := 0, rcvType := PP_RCV_UNRCV, rcvstep := PP_RCV_IDLE, rcvlen := 0,
            rcvbuf := replicate 1456 0, datalen := 0, linkSt := SOCKPROXY_CHECK_CERT, sglinkSt := SOCKPROXY_SGLINK_INIT,
            waittime := 0, BDLlinkSt := SOCKPROXY_BDLLINK_INIT, rcvflag := False, sleepFlag := False, sleepwaittime := 0,
            sleepwaittimeoutcnt := 0, recalltimer := 0, cancelRcvphreadFlag := False, sgLinkAddr := [], sgPort := 0,
            BDLLinkAddr := [], BDLPort := 0, pkiEnFlag := 0, SPObj := SockproxyData_Init (SPObj s)\<rparr>
      | INIT_PHASE_RESTORE \<Rightarrow> s
      | INIT_PHASE_OUTSIDE \<Rightarrow> s\<lparr>sp_pool := SP_data_init (sp_pool s), pkiEnFlag := pki\<rparr>)"

section \<open>Setting up a link\<close>

definition sg_fail :: "u64 \<Rightarrow> sockproxy_stat_t \<Rightarrow> int \<times> sockproxy_stat_t" where
  "sg_fail now s = (-1, s\<lparr>sglinkSt := SOCKPROXY_SGLINK_INIT, waittime := now\<rparr>)"

definition sg_create :: "link_env \<Rightarrow> sockproxy_stat_t \<Rightarrow> int \<times> sockproxy_stat_t" where
  "sg_create e s =
     (let s = s\<lparr>sgLinkAddr := ln_addr e, sgPort := ln_addr_port e\<rparr>
      in if sgLinkAddr s = [] \<or> sgPort s = 0 then sg_fail (ln_now e) s
         else if \<not> ln_resolved e then sg_fail (ln_now e) s
         else if ln_PortAddrCft e \<noteq> 1010 then sg_fail (ln_now e) s
         else if ln_CertchainCfg e \<noteq> 1030 then sg_fail (ln_now e) s
         else if \<not> ln_crl_ready e then (-1, s)
         else let s = sp_call SgHzTboxInit s
           in if ln_Init e \<noteq> 1151 then sg_fail (ln_now e) s
              else let s = sp_call (SgHzTboxConnect (ln_Connect e)) s
                in if ln_Connect e \<noteq> 1230 then sg_fail (ln_now e) s
                   else (0, sp_call SendHeartbeat (s\<lparr>state := PP_OPENED\<rparr>)))"

definition sockproxy_sgLink :: "link_env \<Rightarrow> sockproxy_stat_t \<Rightarrow> int \<times> sockproxy_stat_t" where
  "sockproxy_sgLink e s =
     (case sglinkSt s of
        SOCKPROXY_SGLINK_INIT \<Rightarrow>
          (0, if ln_now e - waittime s \<ge> 1000 then s\<lparr>sglinkSt := SOCKPROXY_SGLINK_CREAT, waittime := ln_now e\<rparr> else s)
      | SOCKPROXY_SGLINK_CREAT \<Rightarrow>
          if state s = PP_CLOSED then sg_create e s
          else if state s = PP_OPENED then (0, s)
          else if asynCloseFlg s
          then (0, (sp_call SendHeartbeat (s\<lparr>asynCloseFlg := False\<rparr>))\<lparr>sglinkSt := SOCKPROXY_SGLINK_CLOSE\<rparr>)
          else (0, s)
      | SOCKPROXY_SGLINK_CLOSE \<Rightarrow>
          if \<not> rcvflag s \<and> ln_send_free e \<and> \<not> sendmtx s then
            let s = s\<lparr>waittime := ln_now e, sglinkSt := SOCKPROXY_SGLINK_INIT\<rparr>
            in (-2, if state s \<noteq> PP_CLOSED then (sp_call SgHzTboxClose s)\<lparr>state := PP_CLOSED\<rparr> else s)
          else (0, s))"

definition bd_fail :: "u64 \<Rightarrow> sockproxy_stat_t \<Rightarrow> int \<times> sockproxy_stat_t" where
  "bd_fail now s = (-1, s\<lparr>BDLlinkSt := SOCKPROXY_BDLLINK_INIT, waittime := now\<rparr>)"

definition bd_create :: "link_env \<Rightarrow> sockproxy_stat_t \<Rightarrow> int \<times> sockproxy_stat_t" where
  "bd_create e s =
     (let s = s\<lparr>BDLLinkAddr := ln_addr e, BDLPort := ln_addr_port e\<rparr>
      in if BDLLinkAddr s = [] \<or> BDLPort s = 0 then bd_fail (ln_now e) s
         else if \<not> ln_resolved e then bd_fail (ln_now e) s
         else if ln_PortAddrCft e \<noteq> 1010 then bd_fail (ln_now e) s
         else if ln_CertchainCfg e \<noteq> 2030 then bd_fail (ln_now e) s
         else if \<not> ln_crl_ready e then (-1, s)
         else if ln_SetVin e \<noteq> 0 then (-1, s)
         else let s = sp_call HzTboxInit s
           in if ln_Init e \<noteq> 1151 then bd_fail (ln_now e) s
              else let s = sp_call (HzTboxConnect (ln_Connect e)) s
                in if ln_Connect e \<noteq> 1230 then bd_fail (ln_now e) s
                   else (0, sp_call SendHeartbeat (s\<lparr>state := PP_OPENED\<rparr>)))"

definition sockproxy_BDLink :: "link_env \<Rightarrow> sockproxy_stat_t \<Rightarrow> int \<times> sockproxy_stat_t" where
  "sockproxy_BDLink e s =
     (case BDLlinkSt s of
        SOCKPROXY_BDLLINK_INIT \<Rightarrow> (0, s\<lparr>BDLlinkSt := SOCKPROXY_BDLLINK_CREAT, waittime := ln_now e\<rparr>)
      | SOCKPROXY_BDLLINK_CREAT \<Rightarrow>
          if state s = PP_CLOSED then bd_create e s
          else if state s = PP_OPENED then (0, s)
          else if asynCloseFlg s
          then (0, (sp_call SendHeartbeat (s\<lparr>asynCloseFlg := False\<rparr>))\<lparr>BDLlinkSt := SOCKPROXY_BDLLINK_CLOSE\<rparr>)
          else (0, s)
      | SOCKPROXY_BDLLINK_CLOSE \<Rightarrow>
          if \<not> rcvflag s \<and> ln_send_free e \<and> \<not> sendmtx s then
            let s = (if state s \<noteq> PP_CLOSED then (sp_call HzTboxClose s)\<lparr>state := PP_CLOSED\<rparr> else s)
            in (-2, s\<lparr>BDLlinkSt := SOCKPROXY_BDLLINK_INIT\<rparr>)
          else (0, s))"

section \<open>The connection thread\<close>

definition sock_error_check :: "link_env \<Rightarrow> int \<Rightarrow> sockproxy_stat_t \<Rightarrow> sockproxy_stat_t" where
  "sock_error_check e type s =
     (if ln_sock_error e \<or> ln_sock_sync e then sockproxy_socketclose (ln_close_free e) (ln_now e) s type else s)"

text \<open>Without certificates: a pending close request first (it leaves the send lock taken when the connection is
  closed already); otherwise the plain socket is opened and watched. The flag says whether the function goes on.\<close>

definition plain_link :: "link_env \<Rightarrow> sockproxy_stat_t \<Rightarrow> bool \<times> sockproxy_stat_t" where
  "plain_link e s =
     (if asynCloseFlg s then
        (False,
         if ln_send_free e \<and> \<not> sendmtx s then
           (if state s \<noteq> PP_CLOSED then (sp_call SockClose s)\<lparr>state := PP_CLOSED, connect_time := ln_now e\<rparr>
            else s\<lparr>sendmtx := True\<rparr>)\<lparr>asynCloseFlg := False\<rparr>
         else s)
      else
        let s = s\<lparr>sock_url := ln_url e, sock_port := ln_port e\<rparr>
        in if \<not> ln_network e \<or> sock_port s = 0 \<or> sock_url s = [] then (False, s)
           else let s =
             (if state s = PP_CLOSED then
                (if ln_sock_status e = SOCK_STAT_CLOSED then
                   (if connect_time s = 0 \<or> ln_now e - connect_time s > 5000
                    then (sp_call (SockOpen (sock_url s) (sock_port s)) s)\<lparr>connect_time := ln_now e\<rparr> else s)
                 else if ln_sock_status e = SOCK_STAT_OPENED
                 then sock_error_check e PP_SP_COLSE_SP (s\<lparr>state := PP_OPENED\<rparr>)
                 else s)
              else if ln_sock_status e = SOCK_STAT_OPENED then sock_error_check e (PP_SP_COLSE_SP + 1) s else s)
           in (True, s))"

definition check_cert :: "link_env \<Rightarrow> sockproxy_stat_t \<Rightarrow> sockproxy_stat_t" where
  "check_cert e s =
     (if sleepFlag s then s
      else let s = (if cancelRcvphreadFlag s then sp_call RcvThreadCreate (s\<lparr>cancelRcvphreadFlag := False\<rparr>) else s)
        in if \<not> ln_allowBDLink e
           then s\<lparr>waittime := ln_now e, sglinkSt := SOCKPROXY_SGLINK_INIT, linkSt := SOCKPROXY_SETUP_SGLINK\<rparr>
           else s\<lparr>waittime := ln_now e, BDLlinkSt := SOCKPROXY_BDLLINK_INIT, linkSt := SOCKPROXY_SETUP_BDLLINK\<rparr>)"

definition pki_link :: "link_env \<Rightarrow> sockproxy_stat_t \<Rightarrow> sockproxy_stat_t" where
  "pki_link e s =
     (case linkSt s of
        SOCKPROXY_CHECK_CERT \<Rightarrow> check_cert e s
      | SOCKPROXY_SETUP_SGLINK \<Rightarrow>
          (case sockproxy_sgLink e s of (r, s) \<Rightarrow> if r < 0 then s\<lparr>linkSt := SOCKPROXY_CHECK_CERT\<rparr> else s)
      | SOCKPROXY_SETUP_BDLLINK \<Rightarrow>
          (case sockproxy_BDLink e s of (r, s) \<Rightarrow> if r < 0 then s\<lparr>linkSt := SOCKPROXY_CHECK_CERT\<rparr> else s))"

text \<open>A connection still waiting to be closed after 2.5 seconds is closed by force, its receiving thread cancelled;
  for that the thread waits for the send lock.\<close>

definition force_close :: "link_env \<Rightarrow> sockproxy_stat_t \<Rightarrow> sockproxy_stat_t" where
  "force_close e s =
     (if pkiEnFlag s = 0 then s
      else if state s = PP_CLOSE_WAIT then
        (if ln_now e - checkclosedelaytime s \<ge> 2500 \<and> \<not> sendmtx s then
           let s = (sp_call RcvThreadCancel s)\<lparr>cancelRcvphreadFlag := True, asynCloseFlg := False, rcvflag := False\<rparr>;
               s = sp_call (if linkSt s = SOCKPROXY_SETUP_SGLINK then SgHzTboxClose else HzTboxClose) s
           in s\<lparr>state := PP_CLOSED, BDLlinkSt := SOCKPROXY_BDLLINK_INIT, sglinkSt := SOCKPROXY_SGLINK_INIT,
                linkSt := SOCKPROXY_CHECK_CERT\<rparr>
         else s)
      else s\<lparr>checkclosedelaytime := ln_now e\<rparr>)"

definition sleep_check :: "link_env \<Rightarrow> sockproxy_stat_t \<Rightarrow> sockproxy_stat_t" where
  "sleep_check e s =
     (if \<not> ln_KL15 e then
        (if ln_gbLogout e \<and> ln_PrvtSleep e then
           (if state s = PP_OPENED then s\<lparr>sleepwaittimeoutcnt := 0, sleepFlag := True\<rparr>
            else if sleepwaittimeoutcnt s < 3 then
              (if ln_now e - sleepwaittime s > 15000
               then s\<lparr>sleepwaittimeoutcnt := sleepwaittimeoutcnt s + 1, sleepFlag := True\<rparr>
               else s\<lparr>sleepFlag := False\<rparr>)
            else s\<lparr>sleepFlag := True\<rparr>)
         else s\<lparr>sleepwaittime := ln_now e\<rparr>)
      else s\<lparr>sleepwaittime := ln_now e, sleepFlag := False, sleepwaittimeoutcnt := 0\<rparr>)"

definition sockproxy_nm_dial_recall :: "link_env \<Rightarrow> sockproxy_stat_t \<Rightarrow> sockproxy_stat_t" where
  "sockproxy_nm_dial_recall e s =
     (let new = ln_KL15 e;
          s = (if IGNoldSt s \<noteq> new then (if new then s\<lparr>IGNoldSt := new, recalltimer := ln_now e\<rparr> else s\<lparr>IGNoldSt := new\<rparr>) else s)
      in if new then
           (if \<not> ln_network e then
              (if ln_now e - recalltimer s \<ge> 5000 then (sp_call DialRestart s)\<lparr>recalltimer := ln_now e\<rparr> else s)
            else s\<lparr>recalltimer := ln_now e\<rparr>)
         else s)"

definition sockproxy_do_checksock :: "link_env \<Rightarrow> sockproxy_stat_t \<Rightarrow> int \<times> sockproxy_stat_t" where
  "sockproxy_do_checksock e s =
     (case if pkiEnFlag s = 0 then plain_link e s
           else if \<not> ln_network e then (False, s)
           else (True, pki_link e s) of
        (go, s) \<Rightarrow> if go then (0, sockproxy_nm_dial_recall e (sleep_check e (force_close e s))) else (-1, s))"

section \<open>What the other modules see\<close>

definition sockproxy_socketState :: "sock_stat \<Rightarrow> sockproxy_stat_t \<Rightarrow> int" where
  "sockproxy_socketState st s =
     (if pkiEnFlag s = 0 then (if state s = PP_OPENED \<and> st = SOCK_STAT_OPENED then 1 else 0)
      else if (state s = PP_OPENED \<or> state s = PP_CLOSE_WAIT) \<and> linkSt s = SOCKPROXY_SETUP_BDLLINK then 1 else 0)"

definition sockproxy_sgsocketState :: "sockproxy_stat_t \<Rightarrow> int" where
  "sockproxy_sgsocketState s =
     (if pkiEnFlag s = 0 then 0
      else if (state s = PP_OPENED \<or> state s = PP_CLOSE_WAIT) \<and> linkSt s = SOCKPROXY_SETUP_SGLINK then 1 else 0)"

definition Setsocketproxy_Awaken :: "sockproxy_stat_t \<Rightarrow> sockproxy_stat_t" where
  "Setsocketproxy_Awaken s = s\<lparr>sleepFlag := False\<rparr>"

definition sockproxy_Sleep :: "sockproxy_stat_t \<Rightarrow> bool" where "sockproxy_Sleep s = sleepFlag s"

definition atoi :: "string \<Rightarrow> int" where
  "atoi s =
     (let t = dropWhile (\<lambda>c. c = CHR '' '' \<or> of_char c \<in> {9 .. 13 :: nat}) s;
          neg = (t \<noteq> [] \<and> hd t = CHR ''-'');
          t = (if t \<noteq> [] \<and> hd t \<in> {CHR ''-'', CHR ''+''} then tl t else t);
          n = foldl (\<lambda>n c. 10 * n + (of_char c - 48)) 0 (takeWhile (\<lambda>c. of_char c \<in> {48 .. 57 :: nat}) t)
      in if neg then - n else n)"

text \<open>The address fields have 33 bytes.\<close>

definition setsockproxy_bdlAddrPort :: "link_env \<Rightarrow> string \<Rightarrow> string \<Rightarrow> sockproxy_stat_t \<Rightarrow> sockproxy_stat_t option" where
  "setsockproxy_bdlAddrPort e addr port s =
     (if length addr > 33 then None
      else Some (sockproxy_socketclose (ln_close_free e) (ln_now e) (s\<lparr>BDLLinkAddr := addr, BDLPort := atoi port\<rparr>) (PP_SP_COLSE_SP + 10)))"

definition setsockproxy_sgAddrPort :: "link_env \<Rightarrow> string \<Rightarrow> string \<Rightarrow> sockproxy_stat_t \<Rightarrow> sockproxy_stat_t option" where
  "setsockproxy_sgAddrPort e addr port s =
     (if length addr > 33 then None
      else Some (sockproxy_socketclose (ln_close_free e) (ln_now e) (s\<lparr>sgLinkAddr := addr, sgPort := atoi port\<rparr>) (PP_SP_COLSE_SP + 11)))"

definition getsockproxy_pkiEnStatus :: "sockproxy_stat_t \<Rightarrow> u8" where "getsockproxy_pkiEnStatus s = pkiEnFlag s"

section \<open>The threads together\<close>

datatype sock_op =
    OpConnect link_env
  | OpReceive rx_env
  | OpSend tx_env
  | OpMsg tx_writer u8 "u64 option" bytes int
  | OpClose bool u64 int
  | OpAwaken
  | OpSetBDL link_env string string
  | OpSetSG link_env string string

text \<open>A receive that would write behind \<open>rcvbuf\<close>, or an address longer than its field, has no step: what the program
  does then is undefined (behind \<open>rcvbuf\<close> lie \<open>datalen\<close>, \<open>linkSt\<close> and \<open>sglinkSt\<close>), so a run ends there, and what is
  proved of the reachable states is about runs up to that point.\<close>

fun sock_step :: "sock_op \<Rightarrow> sockproxy_stat_t \<Rightarrow> sockproxy_stat_t option" where
  "sock_step (OpConnect e) s = Some (snd (sockproxy_do_checksock e s))"
| "sock_step (OpReceive e) s = map_option snd (sockproxy_do_receive e s)"
| "sock_step (OpSend e) s = sockproxy_do_send e s"
| "sock_step (OpMsg w kind time data len) s = Some (tx_post w kind time data len s)"
| "sock_step (OpClose free now type) s = Some (sockproxy_socketclose free now s type)"
| "sock_step OpAwaken s = Some (Setsocketproxy_Awaken s)"
| "sock_step (OpSetBDL e addr port) s = setsockproxy_bdlAddrPort e addr port s"
| "sock_step (OpSetSG e addr port) s = setsockproxy_sgAddrPort e addr port s"

inductive sock_reach :: "u8 \<Rightarrow> sockproxy_stat_t \<Rightarrow> bool" for pki where
  start: "sp_calls s = [] \<Longrightarrow> \<not> sendmtx s \<Longrightarrow>
    sock_reach pki (sockproxy_init INIT_PHASE_OUTSIDE pki (sockproxy_init INIT_PHASE_INSIDE pki s))"
| step: "sock_reach pki s \<Longrightarrow> sock_step p s = Some s' \<Longrightarrow> sock_reach pki s'"

text \<open>Which connection the recorded calls leave open; anything out of order is \<open>BadConn\<close>: connecting twice, closing
  or sending with the function of the other kind or with none open.\<close>

datatype conn = NoConn | SgConn | BdConn | BadConn

fun conn_step :: "sock_call \<Rightarrow> conn \<Rightarrow> conn" where
  "conn_step (SgHzTboxConnect r) c = (if c = NoConn then (if r = 1230 then SgConn else NoConn) else BadConn)"
| "conn_step (HzTboxConnect r) c = (if c = NoConn then (if r = 1230 then BdConn else NoConn) else BadConn)"
| "conn_step SgHzTboxClose c = (if c = SgConn then NoConn else BadConn)"
| "conn_step HzTboxClose c = (if c = BdConn then NoConn else BadConn)"
| "conn_step (SgHzTboxDataSend m n) c = (if c = SgConn then SgConn else BadConn)"
| "conn_step (HzTboxDataSend m n) c = (if c = BdConn then BdConn else BadConn)"
| "conn_step _ c = c"

definition conn_of :: "sock_call list \<Rightarrow> conn" where "conn_of cs = fold conn_step cs NoConn"

lemma conn_of_append [simp]: "conn_of (cs @ ds) = fold conn_step ds (conn_of cs)"
  by (simp add: conn_of_def)

definition link_inv :: "u8 \<Rightarrow> sockproxy_stat_t \<Rightarrow> bool" where
  "link_inv pki s \<longleftrightarrow> pkiEnFlag s = pki \<and> \<not> sendmtx s \<and> state s \<noteq> PP_OPEN_WAIT
     \<and> (asynCloseFlg s \<longrightarrow> state s = PP_CLOSE_WAIT)
     \<and> (pki = 0 \<longrightarrow> conn_of (sp_calls s) = NoConn)
     \<and> (pki \<noteq> 0 \<longrightarrow>
          conn_of (sp_calls s) = (if state s = PP_CLOSED then NoConn
                                  else if linkSt s = SOCKPROXY_SETUP_SGLINK then SgConn else BdConn)
          \<and> (state s \<noteq> PP_CLOSED \<longrightarrow> linkSt s \<noteq> SOCKPROXY_CHECK_CERT)
          \<and> (cancelRcvphreadFlag s \<longrightarrow> linkSt s = SOCKPROXY_CHECK_CERT)
          \<and> (linkSt s = SOCKPROXY_SETUP_SGLINK \<and> sglinkSt s = SOCKPROXY_SGLINK_CLOSE
               \<longrightarrow> state s = PP_CLOSE_WAIT \<and> \<not> asynCloseFlg s)
          \<and> (linkSt s = SOCKPROXY_SETUP_BDLLINK \<and> BDLlinkSt s = SOCKPROXY_BDLLINK_CLOSE
               \<longrightarrow> state s = PP_CLOSE_WAIT \<and> \<not> asynCloseFlg s))"

text \<open>What the invariant looks at.\<close>

definition link_view where
  "link_view s = (pkiEnFlag s, sendmtx s, state s, asynCloseFlg s, linkSt s, cancelRcvphreadFlag s, sglinkSt s, BDLlinkSt s)"

lemma link_inv_cong:
  "link_view s' = link_view s \<Longrightarrow> conn_of (sp_calls s') = conn_of (sp_calls s) \<Longrightarrow> link_inv pki s' = link_inv pki s"
  by (auto simp: link_view_def link_inv_def)

lemma close_inv: "link_inv pki s \<Longrightarrow> link_inv pki (sockproxy_socketclose free now s type)"
  by (auto simp: link_inv_def sockproxy_socketclose_def)

subsection \<open>Receiver and sender\<close>

lemma rx_put_frame: "rx_put data rlen s = Some (rlen', s') \<Longrightarrow> rx_frame s' = rx_frame s"
  by (auto simp: rx_put_def rx_frame_def split: if_splits)

lemma rx_frame_upd [simp]:
  "rx_frame (s\<lparr>rcvstep := a\<rparr>) = rx_frame s" "rx_frame (s\<lparr>rcvlen := b\<rparr>) = rx_frame s" "rx_frame (s\<lparr>datalen := c\<rparr>) = rx_frame s"
  "rx_frame (s\<lparr>rcvType := d\<rparr>) = rx_frame s" "rx_frame (rx_reset s) = rx_frame s" "rx_frame (rx_deliver obj s) = rx_frame s"
  by (simp_all add: rx_frame_def rx_reset_def rx_deliver_def)

lemma gb_step_frame: "gb_step data rlen s = Some (r, rlen', s') \<Longrightarrow> rx_frame s' = rx_frame s"
  unfolding gb_step_def Let_def
  by (auto split: if_splits Option.bind_splits dest!: rx_put_frame)

lemma priv_step_frame: "priv_step data rlen s = Some (r, rlen', s') \<Longrightarrow> rx_frame s' = rx_frame s"
  unfolding priv_step_def Let_def
  by (auto split: if_splits Option.bind_splits dest!: rx_put_frame)

lemma makeup_loop_frame:
  assumes "\<And>rlen s r rlen' s'. step data rlen s = Some (r, rlen', s') \<Longrightarrow> rx_frame s' = rx_frame s"
  shows "makeup_loop step data n rlen s = Some s' \<Longrightarrow> rx_frame s' = rx_frame s"
  by (induction n arbitrary: rlen s) (auto split: option.splits if_splits dest: assms)

lemma makeup_frame:
  "sockproxy_gbMakeupMsg s rbuf len = Some s' \<Longrightarrow> rx_frame s' = rx_frame s"
  "sockproxy_privMakeupMsg s rbuf len = Some s' \<Longrightarrow> rx_frame s' = rx_frame s"
  unfolding sockproxy_gbMakeupMsg_def sockproxy_privMakeupMsg_def
  by (erule makeup_loop_frame [rotated], erule gb_step_frame, erule makeup_loop_frame [rotated], erule priv_step_frame)

lemma rx_dispatch_frame:
  assumes "rx_dispatch rbuf len s = Some s'"
  shows "rx_frame s' = rx_frame s"
proof (cases "rcvType s")
  case PP_RCV_UNRCV
  let ?s = "s\<lparr>rcvstep := PP_RCV_IDLE, rcvlen := 0\<rparr>"
  have e: "rx_dispatch rbuf len s =
      (if rbuf ! 0 = 0x23 \<and> rbuf ! 1 = 0x23 then sockproxy_gbMakeupMsg (?s\<lparr>rcvType := PP_RCV_GB\<rparr>) rbuf len
       else if rbuf ! 0 = 0x2A \<and> rbuf ! 1 = 0x2A then sockproxy_privMakeupMsg (?s\<lparr>rcvType := PP_RCV_PRIV\<rparr>) rbuf len
       else Some ?s)" by (simp add: rx_dispatch_def PP_RCV_UNRCV Let_def)
  show ?thesis
  proof (cases "rbuf ! 0 = 0x23 \<and> rbuf ! 1 = 0x23")
    case True
    with assms e have "sockproxy_gbMakeupMsg (?s\<lparr>rcvType := PP_RCV_GB\<rparr>) rbuf len = Some s'" by simp
    from makeup_frame(1) [OF this] show ?thesis by simp
  next
    case False
    show ?thesis
    proof (cases "rbuf ! 0 = 0x2A \<and> rbuf ! 1 = 0x2A")
      case True
      with assms e have "sockproxy_privMakeupMsg (?s\<lparr>rcvType := PP_RCV_PRIV\<rparr>) rbuf len = Some s'" by simp
      from makeup_frame(2) [OF this] show ?thesis by simp
    next
      case False
      have "rx_dispatch rbuf len s = Some ?s"
        unfolding e if_not_P [OF \<open>\<not> (rbuf ! 0 = 0x23 \<and> rbuf ! 1 = 0x23)\<close>] if_not_P [OF False] ..
      with assms have "s' = ?s" by simp
      then show ?thesis by simp
    qed
  qed
next
  case PP_RCV_GB
  with assms have "sockproxy_gbMakeupMsg s rbuf len = Some s'" by (simp add: rx_dispatch_def)
  then show ?thesis by (rule makeup_frame)
next
  case PP_RCV_PRIV
  with assms have "sockproxy_privMakeupMsg s rbuf len = Some s'" by (simp add: rx_dispatch_def)
  then show ?thesis by (rule makeup_frame)
qed

lemma rx_frame_view:
  assumes "rx_frame s' = rx_frame s"
  shows "link_view s' = link_view s" "sp_calls s' = sp_calls s"
  using arg_cong [OF assms, of link_view] arg_cong [OF assms, of sp_calls] by (simp_all add: rx_frame_def link_view_def)

lemma receive_inv:
  assumes "link_inv pki s" "sockproxy_do_receive e s = Some (r, s')"
  shows "link_inv pki s'"
proof -
  have flag: "link_inv pki (x\<lparr>rcvflag := b\<rparr>) = link_inv pki x" for x b by (simp add: link_inv_def)
  have disp: "link_inv pki x" if "rx_dispatch rbuf len (s\<lparr>rcvflag := True\<rparr>) = Some x" for rbuf len x
  proof -
    note v = rx_frame_view [OF rx_dispatch_frame [OF that]]
    have "link_inv pki x = link_inv pki (s\<lparr>rcvflag := True\<rparr>)" by (rule link_inv_cong) (simp_all only: v)
    then show ?thesis by (simp only: flag assms(1))
  qed
  have cl: "link_inv pki (sockproxy_socketclose a b (s\<lparr>rcvflag := True\<rparr>) t)" for a b t
    by (rule close_inv) (simp only: flag assms(1))
  show ?thesis
  proof (cases "state s = PP_OPENED")
    case True
    let ?s = "s\<lparr>rcvflag := True\<rparr>"
    let ?d = "rx_dispatch (blit (replicate 1456 0) 0 (rx_data e)) (rx_len e) ?s"
    have "s' = sockproxy_socketclose (rx_close_free e) (rx_now e) ?s (PP_SP_COLSE_SP + 3)
      \<or> (\<exists>t. s' = (sockproxy_socketclose (rx_close_free e) (rx_now e) ?s t)\<lparr>rcvflag := False\<rparr>)
      \<or> (\<exists>x. ?d = Some x \<and> s' = x\<lparr>rcvflag := False\<rparr>)"
    proof (cases ?d)
      case None
      with assms(2) True show ?thesis unfolding sockproxy_do_receive_def Let_def by (simp split: if_split_asm) blast+
    next
      case (Some x)
      with assms(2) True show ?thesis unfolding sockproxy_do_receive_def Let_def by (simp split: if_split_asm) blast+
    qed
    then show ?thesis
    proof (elim disjE exE conjE)
      fix x
      assume "?d = Some x" "s' = x\<lparr>rcvflag := False\<rparr>"
      with disp show ?thesis by (simp only: flag)
    qed (simp_all only: flag cl)
  qed (use assms in \<open>simp add: sockproxy_do_receive_def\<close>)
qed

text \<open>The sender changes nothing the invariant looks at but by a close request, and calls only the connection
  that is open.\<close>

definition tx_quiet :: "sockproxy_stat_t \<Rightarrow> sockproxy_stat_t \<Rightarrow> bool" where
  "tx_quiet s s' \<longleftrightarrow> link_view s' = link_view s \<and> conn_of (sp_calls s') = conn_of (sp_calls s)"

lemma tx_quiet_trans: "tx_quiet s s' \<Longrightarrow> tx_quiet s' s'' \<Longrightarrow> tx_quiet s s''" by (simp add: tx_quiet_def)

lemma tx_quiet_inv: "tx_quiet s s' \<Longrightarrow> link_inv pki s' = link_inv pki s"
  by (rule link_inv_cong) (simp_all add: tx_quiet_def)

lemma quiet_steps [simp]:
  "tx_quiet s (put_send i s') = tx_quiet s s'" "tx_quiet s (put_back i s') = tx_quiet s s'"
  "tx_quiet s (tx_write q f s') = tx_quiet s s'" "tx_quiet s (tx_callback q s') = tx_quiet s s'"
  "tx_quiet s (sp_call (SendInform p) s') = tx_quiet s s'" "tx_quiet s (s'\<lparr>sp_pool := p'\<rparr>) = tx_quiet s s'" "tx_quiet s s"
  by (simp_all add: tx_quiet_def link_view_def put_send_def put_back_def tx_write_def tx_callback_def sp_call_def Let_def
      split: option.split)

lemma tx_quiet_inform [simp]: "tx_quiet s (tx_inform b f s') = tx_quiet s s'"
  by (simp add: tx_inform_def)

lemma tx_quiet_post: "tx_quiet s (tx_post w kind time data len s)"
  by (simp add: tx_quiet_def link_view_def tx_post_def Let_def split: prod.split)

lemma sp_call_inv:
  "link_inv pki s \<Longrightarrow> conn_step c (conn_of (sp_calls s)) = conn_of (sp_calls s) \<Longrightarrow> link_inv pki (sp_call c s)"
  by (subst link_inv_cong [where s = s]) (simp_all add: link_view_def sp_call_def)

lemma MsgSend_inv:
  assumes "link_inv pki s" "sockproxy_MsgSend e s m n = (r, s')"
  shows "link_inv pki s'"
proof (cases "state s = PP_OPENED \<or> state s = PP_CLOSE_WAIT")
  case False
  with assms show ?thesis by (auto simp: sockproxy_MsgSend_def split: if_splits)
next
  case True
  let ?p = "s\<lparr>sp_pool := SP_data_ack_pack (sp_pool s)\<rparr>" and ?m = "take (nat n) m"
  have pool: "link_inv pki ?p" using assms(1) by (simp add: link_inv_def)
  have k: "pkiEnFlag s = pki" using assms(1) by (simp add: link_inv_def)
  have conn: "conn_of (sp_calls s) = (if linkSt s = SOCKPROXY_SETUP_SGLINK then SgConn else BdConn)" if "pki \<noteq> 0"
    using assms(1) that True by (auto simp: link_inv_def)
  have 1: "link_inv pki (sp_call (SockSend ?m n) s)" by (rule sp_call_inv [OF assms(1)]) simp
  have 2: "link_inv pki (sp_call (SgHzTboxDataSend ?m n) ?p)" if "linkSt s = SOCKPROXY_SETUP_SGLINK" "pki \<noteq> 0"
    using conn that by (intro sp_call_inv [OF pool]) simp
  have 3: "link_inv pki (sp_call (HzTboxDataSend ?m n) ?p)" if "linkSt s \<noteq> SOCKPROXY_SETUP_SGLINK" "pki \<noteq> 0"
    using conn that by (intro sp_call_inv [OF pool]) simp
  from assms(2) True have "s' = s \<or> s' = sp_call (SockSend ?m n) s
      \<or> pki \<noteq> 0 \<and> s' = sp_call ((if linkSt s = SOCKPROXY_SETUP_SGLINK then SgHzTboxDataSend else HzTboxDataSend) ?m n) ?p"
    using k by (auto simp: sockproxy_MsgSend_def Let_def split: if_splits)
  with assms(1) 1 2 3 show ?thesis by (auto split: if_splits)
qed

lemma link_inv_upd [simp]:
  "link_inv pki (put_send i s) = link_inv pki s" "link_inv pki (put_back i s) = link_inv pki s"
  "link_inv pki (tx_inform b f s) = link_inv pki s" "link_inv pki (tx_write n f s) = link_inv pki s" "link_inv pki (tx_callback n s) = link_inv pki s"
  "link_inv pki (sp_call (SendInform p) s) = link_inv pki s" "link_inv pki (s\<lparr>sp_pool := q\<rparr>) = link_inv pki s"
  by (rule tx_quiet_inv, simp)+

lemma send_inv:
  assumes "link_inv pki s" "sockproxy_do_send e s = Some s'"
  shows "link_inv pki s'"
proof -
  obtain o' p where g: "SP_data_get_pack (sp_pool s) = (o', p)" by (rule prod.exhaust)
  have i: "link_inv pki (s\<lparr>sp_pool := p\<rparr>)" using assms(1) by simp
  note steps = tx_SIGTIME_def tx_SIGTRIG_def tx_CONTINUE_def tx_plain_def
  show ?thesis
    using assms(2) MsgSend_inv [OF i] i g close_inv
    by (auto simp: sockproxy_do_send_def steps Let_def split: option.splits if_splits prod.splits)
qed

subsection \<open>The connection thread\<close>

lemma sg_create_inv:
  assumes "link_inv pki s" "pki \<noteq> 0" "state s = PP_CLOSED" "linkSt s = SOCKPROXY_SETUP_SGLINK" "sg_create e s = (r, s')"
  shows "link_inv pki s' \<and> linkSt s' = linkSt s \<and> (r < 0 \<longrightarrow> state s' = PP_CLOSED)"
  using assms by (auto simp: sg_create_def sg_fail_def sp_call_def link_inv_def Let_def split: if_splits)

lemma bd_create_inv:
  assumes "link_inv pki s" "pki \<noteq> 0" "state s = PP_CLOSED" "linkSt s = SOCKPROXY_SETUP_BDLLINK" "bd_create e s = (r, s')"
  shows "link_inv pki s' \<and> linkSt s' = linkSt s \<and> (r < 0 \<longrightarrow> state s' = PP_CLOSED)"
  using assms by (auto simp: bd_create_def bd_fail_def sp_call_def link_inv_def Let_def split: if_splits)

lemma link_inv_side [simp]:
  "link_inv pki (s\<lparr>waittime := c\<rparr>) = link_inv pki s" "link_inv pki (s\<lparr>sgLinkAddr := d\<rparr>) = link_inv pki s"
  "link_inv pki (s\<lparr>sgPort := f\<rparr>) = link_inv pki s" "link_inv pki (s\<lparr>BDLLinkAddr := d\<rparr>) = link_inv pki s"
  "link_inv pki (s\<lparr>BDLPort := f\<rparr>) = link_inv pki s" "link_inv pki (s\<lparr>sleepFlag := g\<rparr>) = link_inv pki s"
  by (simp_all add: link_inv_def)

lemma sgLink_inv:
  assumes "link_inv pki s" "pki \<noteq> 0" "linkSt s = SOCKPROXY_SETUP_SGLINK" "sockproxy_sgLink e s = (r, s')"
  shows "link_inv pki s' \<and> linkSt s' = linkSt s \<and> (r < 0 \<longrightarrow> state s' = PP_CLOSED)"
proof (cases "sglinkSt s")
  case SOCKPROXY_SGLINK_INIT
  let ?c = "s\<lparr>sglinkSt := SOCKPROXY_SGLINK_CREAT, waittime := ln_now e\<rparr>"
  have "link_inv pki ?c" using assms(1) by (simp add: link_inv_def)
  moreover have "r = 0" "s' = s \<or> s' = ?c" using assms(4) SOCKPROXY_SGLINK_INIT by (simp_all add: sockproxy_sgLink_def split: if_split_asm)
  ultimately show ?thesis using assms(1) by auto
next
  case SOCKPROXY_SGLINK_CREAT
  let ?c = "(sp_call SendHeartbeat (s\<lparr>asynCloseFlg := False\<rparr>))\<lparr>sglinkSt := SOCKPROXY_SGLINK_CLOSE\<rparr>"
  show ?thesis
  proof (cases "state s = PP_CLOSED")
    case True
    with assms(4) SOCKPROXY_SGLINK_CREAT have "sg_create e s = (r, s')" by (simp add: sockproxy_sgLink_def)
    with sg_create_inv [OF assms(1,2) True assms(3)] show ?thesis by simp
  next
    case False
    show ?thesis
    proof (cases "state s = PP_CLOSE_WAIT \<and> asynCloseFlg s")
      case True
      with assms(4) SOCKPROXY_SGLINK_CREAT have "r = 0" "s' = ?c" by (simp_all add: sockproxy_sgLink_def)
      moreover have "link_inv pki ?c" using assms(1-3) True by (simp add: link_inv_def sp_call_def)
      moreover have "linkSt ?c = linkSt s" by (simp add: sp_call_def)
      ultimately show ?thesis by simp
    next
      case no: False
      have "state s \<noteq> PP_OPEN_WAIT" using assms(1) by (simp add: link_inv_def)
      with assms(4) SOCKPROXY_SGLINK_CREAT False no have "r = 0" "s' = s"
        by (cases "state s"; simp add: sockproxy_sgLink_def)+
      with assms(1) show ?thesis by simp
    qed
  qed
next
  case SOCKPROXY_SGLINK_CLOSE
  have w: "state s = PP_CLOSE_WAIT" "\<not> asynCloseFlg s" using assms(1-3) SOCKPROXY_SGLINK_CLOSE by (auto simp: link_inv_def)
  show ?thesis
  proof (cases "\<not> rcvflag s \<and> ln_send_free e \<and> \<not> sendmtx s")
    case True
    let ?c = "(sp_call SgHzTboxClose (s\<lparr>waittime := ln_now e, sglinkSt := SOCKPROXY_SGLINK_INIT\<rparr>))\<lparr>state := PP_CLOSED\<rparr>"
    have "link_inv pki ?c" using assms(1-3) w by (simp add: link_inv_def sp_call_def)
    moreover have "linkSt ?c = linkSt s" "state ?c = PP_CLOSED" by (simp_all add: sp_call_def)
    moreover have "s' = ?c"
      using assms(4) True w SOCKPROXY_SGLINK_CLOSE by (auto simp: sockproxy_sgLink_def Let_def sp_call_def)
    ultimately show ?thesis by auto
  next
    case False
    with assms(4) SOCKPROXY_SGLINK_CLOSE have "r = 0" "s' = s" by (auto simp: sockproxy_sgLink_def)
    with assms(1) show ?thesis by simp
  qed
qed

lemma BDLink_inv:
  assumes "link_inv pki s" "pki \<noteq> 0" "linkSt s = SOCKPROXY_SETUP_BDLLINK" "sockproxy_BDLink e s = (r, s')"
  shows "link_inv pki s' \<and> linkSt s' = linkSt s \<and> (r < 0 \<longrightarrow> state s' = PP_CLOSED)"
proof (cases "BDLlinkSt s")
  case SOCKPROXY_BDLLINK_INIT
  let ?c = "s\<lparr>BDLlinkSt := SOCKPROXY_BDLLINK_CREAT, waittime := ln_now e\<rparr>"
  have "link_inv pki ?c" using assms(1) by (simp add: link_inv_def)
  moreover have "r = 0" "s' = s \<or> s' = ?c" using assms(4) SOCKPROXY_BDLLINK_INIT by (simp_all add: sockproxy_BDLink_def split: if_split_asm)
  ultimately show ?thesis using assms(1) by auto
next
  case SOCKPROXY_BDLLINK_CREAT
  let ?c = "(sp_call SendHeartbeat (s\<lparr>asynCloseFlg := False\<rparr>))\<lparr>BDLlinkSt := SOCKPROXY_BDLLINK_CLOSE\<rparr>"
  show ?thesis
  proof (cases "state s = PP_CLOSED")
    case True
    with assms(4) SOCKPROXY_BDLLINK_CREAT have "bd_create e s = (r, s')" by (simp add: sockproxy_BDLink_def)
    with bd_create_inv [OF assms(1,2) True assms(3)] show ?thesis by simp
  next
    case False
    show ?thesis
    proof (cases "state s = PP_CLOSE_WAIT \<and> asynCloseFlg s")
      case True
      with assms(4) SOCKPROXY_BDLLINK_CREAT have "r = 0" "s' = ?c" by (simp_all add: sockproxy_BDLink_def)
      moreover have "link_inv pki ?c" using assms(1-3) True by (simp add: link_inv_def sp_call_def)
      moreover have "linkSt ?c = linkSt s" by (simp add: sp_call_def)
      ultimately show ?thesis by simp
    next
      case no: False
      have "state s \<noteq> PP_OPEN_WAIT" using assms(1) by (simp add: link_inv_def)
      with assms(4) SOCKPROXY_BDLLINK_CREAT False no have "r = 0" "s' = s"
        by (cases "state s"; simp add: sockproxy_BDLink_def)+
      with assms(1) show ?thesis by simp
    qed
  qed
next
  case SOCKPROXY_BDLLINK_CLOSE
  have w: "state s = PP_CLOSE_WAIT" "\<not> asynCloseFlg s" using assms(1-3) SOCKPROXY_BDLLINK_CLOSE by (auto simp: link_inv_def)
  show ?thesis
  proof (cases "\<not> rcvflag s \<and> ln_send_free e \<and> \<not> sendmtx s")
    case True
    let ?c = "(sp_call HzTboxClose s)\<lparr>state := PP_CLOSED, BDLlinkSt := SOCKPROXY_BDLLINK_INIT\<rparr>"
    have "link_inv pki ?c" using assms(1-3) w by (simp add: link_inv_def sp_call_def)
    moreover have "linkSt ?c = linkSt s" "state ?c = PP_CLOSED" by (simp_all add: sp_call_def)
    moreover have "s' = ?c"
      using assms(4) True w SOCKPROXY_BDLLINK_CLOSE by (auto simp: sockproxy_BDLink_def Let_def sp_call_def)
    ultimately show ?thesis by auto
  next
    case False
    with assms(4) SOCKPROXY_BDLLINK_CLOSE have "r = 0" "s' = s" by (auto simp: sockproxy_BDLink_def)
    with assms(1) show ?thesis by simp
  qed
qed

lemma to_check_inv:
  "link_inv pki s \<Longrightarrow> state s = PP_CLOSED \<Longrightarrow> link_inv pki (s\<lparr>linkSt := SOCKPROXY_CHECK_CERT\<rparr>)"
  by (auto simp: link_inv_def)

lemma check_cert_inv:
  assumes "link_inv pki s" "pki \<noteq> 0" "linkSt s = SOCKPROXY_CHECK_CERT"
  shows "link_inv pki (check_cert e s)"
proof -
  have "state s = PP_CLOSED" using assms by (auto simp: link_inv_def)
  with assms show ?thesis by (auto simp: check_cert_def link_inv_def sp_call_def Let_def)
qed

lemma pki_link_inv:
  assumes "link_inv pki s" "pki \<noteq> 0"
  shows "link_inv pki (pki_link e s)"
proof (cases "linkSt s")
  case SOCKPROXY_CHECK_CERT
  with check_cert_inv [OF assms] show ?thesis by (simp add: pki_link_def)
next
  case SOCKPROXY_SETUP_SGLINK
  obtain r s' where l: "sockproxy_sgLink e s = (r, s')" by (rule prod.exhaust)
  from sgLink_inv [OF assms SOCKPROXY_SETUP_SGLINK l] to_check_inv [of pki s'] show ?thesis
    by (simp add: pki_link_def SOCKPROXY_SETUP_SGLINK l)
next
  case SOCKPROXY_SETUP_BDLLINK
  obtain r s' where l: "sockproxy_BDLink e s = (r, s')" by (rule prod.exhaust)
  from BDLink_inv [OF assms SOCKPROXY_SETUP_BDLLINK l] to_check_inv [of pki s'] show ?thesis
    by (simp add: pki_link_def SOCKPROXY_SETUP_BDLLINK l)
qed

lemma plain_link_inv:
  assumes "link_inv 0 s" "plain_link e s = (go, s')"
  shows "link_inv 0 s'"
proof -
  have err: "link_inv 0 (sock_error_check e t x)" if "link_inv 0 x" for t x
    using that close_inv by (simp add: sock_error_check_def)
  show ?thesis
  proof (cases "asynCloseFlg s")
    case True
    with assms show ?thesis by (auto simp: plain_link_def link_inv_def sp_call_def split: if_splits)
  next
    case False
    let ?s = "s\<lparr>sock_url := ln_url e, sock_port := ln_port e\<rparr>"
    have 1: "link_inv 0 ?s" using assms(1) by (simp add: link_inv_def)
    have 2: "link_inv 0 ((sp_call (SockOpen (sock_url ?s) (sock_port ?s)) ?s)\<lparr>connect_time := ln_now e\<rparr>)"
      using 1 by (simp add: link_inv_def sp_call_def)
    have 3: "link_inv 0 (?s\<lparr>state := PP_OPENED\<rparr>)" using 1 False by (simp add: link_inv_def)
    show ?thesis
    proof (cases "\<not> ln_network e \<or> sock_port ?s = 0 \<or> sock_url ?s = []")
      case True
      with assms(2) False 1 show ?thesis by (auto simp: plain_link_def Let_def)
    next
      case up: False
      show ?thesis
      proof (cases "state s = PP_CLOSED")
        case True
        with assms(2) False up 1 2 err [OF 3] show ?thesis
          by (cases "ln_sock_status e") (auto simp: plain_link_def Let_def split: if_splits)
      next
        case opened: False
        with assms(2) False up 1 err [OF 1] show ?thesis
          by (cases "ln_sock_status e = SOCK_STAT_OPENED") (auto simp: plain_link_def Let_def split: if_splits)
      qed
    qed
  qed
qed

lemma force_close_inv: "link_inv pki s \<Longrightarrow> link_inv pki (force_close e s)"
  by (cases "linkSt s"; cases "state s") (auto simp: force_close_def link_inv_def sp_call_def Let_def split: if_splits)

lemma sleep_check_inv: "link_inv pki (sleep_check e s) = link_inv pki s"
  by (rule link_inv_cong) (simp_all add: sleep_check_def link_view_def)

lemma recall_inv: "link_inv pki (sockproxy_nm_dial_recall e s) = link_inv pki s"
  by (rule link_inv_cong) (simp_all add: sockproxy_nm_dial_recall_def link_view_def sp_call_def Let_def)

lemma checksock_inv:
  assumes "link_inv pki s"
  shows "link_inv pki (snd (sockproxy_do_checksock e s))"
proof -
  have tail: "link_inv pki (sockproxy_nm_dial_recall e (sleep_check e (force_close e x)))" if "link_inv pki x" for x
    using force_close_inv [OF that] by (simp add: recall_inv sleep_check_inv)
  have k: "pkiEnFlag s = pki" using assms by (simp add: link_inv_def)
  show ?thesis
  proof (cases "pki = 0")
    case True
    obtain go x where p: "plain_link e s = (go, x)" by (rule prod.exhaust)
    from plain_link_inv [OF _ p] assms True have "link_inv pki x" by simp
    with tail True k p show ?thesis by (simp add: sockproxy_do_checksock_def)
  next
    case False
    with tail [OF pki_link_inv [OF assms False]] assms k show ?thesis by (simp add: sockproxy_do_checksock_def)
  qed
qed

lemma sock_step_inv: "link_inv pki s \<Longrightarrow> sock_step p s = Some s' \<Longrightarrow> link_inv pki s'"
proof (cases p)
  case (OpReceive e)
  assume "link_inv pki s" "sock_step p s = Some s'"
  then obtain r where "sockproxy_do_receive e s = Some (r, s')" using OpReceive by auto
  with \<open>link_inv pki s\<close> show ?thesis by (rule receive_inv)
next
  case (OpSend e)
  assume "link_inv pki s" "sock_step p s = Some s'"
  with OpSend show ?thesis by (auto intro: send_inv)
next
  case (OpConnect e)
  assume "link_inv pki s" "sock_step p s = Some s'"
  with OpConnect checksock_inv show ?thesis by auto
next
  case (OpSetBDL e a b)
  assume "link_inv pki s" "sock_step p s = Some s'"
  with OpSetBDL show ?thesis
    by (auto simp: setsockproxy_bdlAddrPort_def split: if_splits intro!: close_inv)
next
  case (OpSetSG e a b)
  assume "link_inv pki s" "sock_step p s = Some s'"
  with OpSetSG show ?thesis
    by (auto simp: setsockproxy_sgAddrPort_def split: if_splits intro!: close_inv)
next
  case (OpMsg w k t a b)
  assume "link_inv pki s" "sock_step p s = Some s'"
  with OpMsg tx_quiet_inv [OF tx_quiet_post] show ?thesis by auto
next
  case (OpClose a b c)
  assume "link_inv pki s" "sock_step p s = Some s'"
  with OpClose show ?thesis by (auto intro: close_inv)
next
  case OpAwaken
  assume "link_inv pki s" "sock_step p s = Some s'"
  with OpAwaken show ?thesis by (auto simp: Setsocketproxy_Awaken_def)
qed

lemma init_inv:
  "sp_calls s = [] \<Longrightarrow> \<not> sendmtx s \<Longrightarrow>
   link_inv pki (sockproxy_init INIT_PHASE_OUTSIDE pki (sockproxy_init INIT_PHASE_INSIDE pki s))"
  by (simp add: link_inv_def sockproxy_init_def conn_of_def)

lemma sock_reach_inv: "sock_reach pki s \<Longrightarrow> link_inv pki s"
  by (induction rule: sock_reach.induct) (auto intro: init_inv sock_step_inv)

subsection \<open>Closing by force\<close>

lemma sgLink_time: "checkclosedelaytime (snd (sockproxy_sgLink e s)) = checkclosedelaytime s"
  by (simp add: sockproxy_sgLink_def sg_create_def sg_fail_def sp_call_def Let_def split: sock_sglink.splits)

lemma BDLink_time: "checkclosedelaytime (snd (sockproxy_BDLink e s)) = checkclosedelaytime s"
  by (simp add: sockproxy_BDLink_def bd_create_def bd_fail_def sp_call_def Let_def split: sock_bdlink.splits)

lemma pki_link_time: "checkclosedelaytime (pki_link e s) = checkclosedelaytime s"
  using sgLink_time [of e s] BDLink_time [of e s]
  by (simp add: pki_link_def check_cert_def sp_call_def Let_def split: sock_link.splits prod.splits) auto

lemma force_close_closes:
  assumes "pkiEnFlag s \<noteq> 0" "\<not> sendmtx s" "state s = PP_CLOSE_WAIT" "ln_now e - checkclosedelaytime s \<ge> 2500"
  shows "state (force_close e s) = PP_CLOSED \<and> linkSt (force_close e s) = SOCKPROXY_CHECK_CERT"
  using assms by (simp add: force_close_def sp_call_def Let_def)

lemma pki_link_waiting:
  assumes "state s = PP_CLOSE_WAIT" "linkSt s \<noteq> SOCKPROXY_CHECK_CERT"
  shows "state (pki_link e s) = PP_CLOSE_WAIT
    \<or> state (pki_link e s) = PP_CLOSED \<and> linkSt (pki_link e s) = SOCKPROXY_CHECK_CERT"
proof (cases "linkSt s")
  case SOCKPROXY_SETUP_SGLINK
  with assms(1) show ?thesis
    by (cases "sglinkSt s") (simp_all add: pki_link_def sockproxy_sgLink_def sp_call_def Let_def)
next
  case SOCKPROXY_SETUP_BDLLINK
  with assms(1) show ?thesis
    by (cases "BDLlinkSt s") (simp_all add: pki_link_def sockproxy_BDLink_def sp_call_def Let_def)
qed (use assms(2) in simp)

lemma close_wait_ends:
  assumes "link_inv pki s" "pki \<noteq> 0" "state s = PP_CLOSE_WAIT" "ln_now e - checkclosedelaytime s \<ge> 2500"
  shows "state (force_close e (pki_link e s)) = PP_CLOSED \<and> linkSt (force_close e (pki_link e s)) = SOCKPROXY_CHECK_CERT"
proof -
  have "link_inv pki (pki_link e s)" by (rule pki_link_inv [OF assms(1,2)])
  then have k: "pkiEnFlag (pki_link e s) \<noteq> 0" "\<not> sendmtx (pki_link e s)" using assms(2) by (simp_all add: link_inv_def)
  have l: "linkSt s \<noteq> SOCKPROXY_CHECK_CERT" using assms(1-3) by (simp add: link_inv_def)
  from pki_link_waiting [OF assms(3) l, of e] show ?thesis
  proof (elim disjE)
    assume "state (pki_link e s) = PP_CLOSE_WAIT"
    with force_close_closes [OF k this, of e] assms(4) show ?thesis by (simp add: pki_link_time)
  qed (simp add: force_close_def)
qed

section \<open>Properties\<close>

definition demo_link :: "u64 \<Rightarrow> link_env" where
  "demo_link now = \<lparr>ln_now = now, ln_network = True, ln_url = [], ln_port = 0, ln_sock_status = SOCK_STAT_UNUSED,
     ln_sock_open = 0, ln_sock_error = False, ln_sock_sync = False, ln_send_free = True, ln_close_free = True,
     ln_allowBDLink = True, ln_addr = ''tsp'', ln_addr_port = 80, ln_resolved = True, ln_PortAddrCft = 1010,
     ln_CertchainCfg = 2030, ln_crl_ready = True, ln_SetVin = 0, ln_Init = 1151, ln_Connect = 1230, ln_KL15 = True,
     ln_gbLogout = False, ln_PrvtSleep = False\<rparr>"

definition demo_start :: sockproxy_stat_t where
  "demo_start = sockproxy_init INIT_PHASE_OUTSIDE 1 (sockproxy_init INIT_PHASE_INSIDE 1 demo_sock)"

definition demo_turn :: "u64 \<Rightarrow> sockproxy_stat_t \<Rightarrow> sockproxy_stat_t" where
  "demo_turn now s = snd (sockproxy_do_checksock (demo_link now) s)"

lemmas turn_simps = demo_turn_def sockproxy_do_checksock_def pki_link_def check_cert_def sockproxy_BDLink_def bd_create_def
  sp_call_def force_close_def sleep_check_def sockproxy_nm_dial_recall_def demo_link_def Let_def

lemma demo_turns:
  "sock_reach 1 (demo_turn 3 (demo_turn 2 (demo_turn 1 demo_start)))"
  "sock_reach 1 (demo_turn 2 (demo_turn 1 demo_start))"
proof -
  have "sock_reach 1 demo_start" unfolding demo_start_def
    by (rule sock_reach.start) (simp_all add: demo_sock_def)
  then have "sock_reach 1 (demo_turn n demo_start)" for n
    by (rule sock_reach.step [where p = "OpConnect (demo_link n)"]) (simp add: demo_turn_def)
  then have 2: "sock_reach 1 (demo_turn m (demo_turn n demo_start))" for m n
    by (rule sock_reach.step [where p = "OpConnect (demo_link m)"]) (simp add: demo_turn_def)
  then show "sock_reach 1 (demo_turn 2 (demo_turn 1 demo_start))" .
  from 2 show "sock_reach 1 (demo_turn 3 (demo_turn 2 (demo_turn 1 demo_start)))"
    by (rule sock_reach.step [where p = "OpConnect (demo_link 3)"]) (simp add: demo_turn_def)
qed

lemma demo_start_view:
  "pkiEnFlag demo_start = 1" "state demo_start = PP_CLOSED" "linkSt demo_start = SOCKPROXY_CHECK_CERT" "\<not> sleepFlag demo_start"
  by (simp_all add: demo_start_def sockproxy_init_def demo_sock_def)

lemma turn_check:
  assumes "pkiEnFlag x = 1" "state x = PP_CLOSED" "linkSt x = SOCKPROXY_CHECK_CERT" "\<not> sleepFlag x"
  shows "pkiEnFlag (demo_turn n x) = 1" "state (demo_turn n x) = PP_CLOSED" "linkSt (demo_turn n x) = SOCKPROXY_SETUP_BDLLINK"
    "BDLlinkSt (demo_turn n x) = SOCKPROXY_BDLLINK_INIT"
  using assms by (simp_all add: turn_simps)

lemma turn_init:
  assumes "pkiEnFlag x = 1" "state x = PP_CLOSED" "linkSt x = SOCKPROXY_SETUP_BDLLINK" "BDLlinkSt x = SOCKPROXY_BDLLINK_INIT"
  shows "pkiEnFlag (demo_turn n x) = 1" "state (demo_turn n x) = PP_CLOSED" "linkSt (demo_turn n x) = SOCKPROXY_SETUP_BDLLINK"
    "BDLlinkSt (demo_turn n x) = SOCKPROXY_BDLLINK_CREAT"
  using assms by (simp_all add: turn_simps)

lemma turn_create:
  assumes "pkiEnFlag x = 1" "state x = PP_CLOSED" "linkSt x = SOCKPROXY_SETUP_BDLLINK" "BDLlinkSt x = SOCKPROXY_BDLLINK_CREAT"
  shows "pkiEnFlag (demo_turn n x) = 1" "state (demo_turn n x) = PP_OPENED" "linkSt (demo_turn n x) = SOCKPROXY_SETUP_BDLLINK"
    "checkclosedelaytime (demo_turn n x) = n"
  using assms by (simp_all add: turn_simps)

lemmas demo_turn_1 = turn_check [OF demo_start_view(1-4)]
lemmas demo_turn_2 = turn_init [OF demo_turn_1]
lemmas demo_turn_3 = turn_create [OF demo_turn_2]

text \<open>C30: However the three threads, the writers, the close requests and the answers of the environment interleave from
  the initialised state on, in every run in which no read overruns the receive buffer: with the certificates in
  use a connection is only set up when none is open, it is closed once and by the function of its kind, data is
  only handed to the kind of connection that is open, and the states the other modules ask for say which one that
  is; without them (\<open>pki = 0\<close>, the plain socket) no function of the certificate library is called to connect, send
  or close. In both cases the send lock is always given back.\<close>

theorem sock_link_discipline:
  assumes "sock_reach pki s"
  shows "conn_of (sp_calls s) \<noteq> BadConn \<and> (sockproxy_sgsocketState s = 1 \<longleftrightarrow> conn_of (sp_calls s) = SgConn)
    \<and> (if pki = 0 then conn_of (sp_calls s) = NoConn else sockproxy_socketState st s = 1 \<longleftrightarrow> conn_of (sp_calls s) = BdConn)
    \<and> \<not> sendmtx s"
proof -
  have i: "link_inv pki s" by (rule sock_reach_inv [OF assms(1)])
  show ?thesis
  proof (cases "pki = 0")
    case True
    with i show ?thesis by (simp add: link_inv_def sockproxy_sgsocketState_def)
  next
    case False
    then have k: "pkiEnFlag s \<noteq> 0" "\<not> sendmtx s" and o: "state s \<noteq> PP_OPEN_WAIT"
      and c: "conn_of (sp_calls s) = (if state s = PP_CLOSED then NoConn
                else if linkSt s = SOCKPROXY_SETUP_SGLINK then SgConn else BdConn)"
      and l: "state s \<noteq> PP_CLOSED \<longrightarrow> linkSt s \<noteq> SOCKPROXY_CHECK_CERT"
      using i by (simp_all add: link_inv_def)
    show ?thesis using k o l False unfolding c
      by (cases "state s"; cases "linkSt s") (simp_all add: sockproxy_sgsocketState_def sockproxy_socketState_def)
  qed
qed

theorem sock_link_discipline_witness:
  "conn_of (sp_calls (demo_turn 3 (demo_turn 2 (demo_turn 1 demo_start)))) = BdConn"
proof -
  let ?s = "demo_turn 3 (demo_turn 2 (demo_turn 1 demo_start))"
  have "sockproxy_socketState SOCK_STAT_UNUSED ?s = 1" by (simp add: sockproxy_socketState_def demo_turn_3)
  with sock_link_discipline [OF demo_turns(1), of SOCK_STAT_UNUSED] show ?thesis by simp
qed

definition good_link :: "link_env \<Rightarrow> bool" where
  "good_link e \<longleftrightarrow> ln_network e \<and> ln_addr e \<noteq> [] \<and> ln_addr_port e \<noteq> 0 \<and> ln_resolved e \<and> ln_PortAddrCft e = 1010
     \<and> ln_crl_ready e \<and> ln_Init e = 1151 \<and> ln_Connect e = 1230"

text \<open>The connection becomes usable only in a step in which the network is up and every stage of the set-up has
  succeeded: an address, its resolution, the port, the certificates of the right kind, the revocation list, for
  the two-way link the vehicle's number, the library's initialisation and its connect.\<close>

lemma sock_opens_only_when_set_up:
  assumes "pkiEnFlag s \<noteq> 0" "state s = PP_CLOSED" "sockproxy_do_checksock e s = (r, s')" "state s' \<noteq> PP_CLOSED"
  shows "good_link e \<and> (linkSt s = SOCKPROXY_SETUP_SGLINK \<and> ln_CertchainCfg e = 1030
    \<or> linkSt s = SOCKPROXY_SETUP_BDLLINK \<and> ln_CertchainCfg e = 2030 \<and> ln_SetVin e = 0)"
proof -
  have tail: "state (sockproxy_nm_dial_recall e (sleep_check e (force_close e x))) = PP_CLOSED" if "state x = PP_CLOSED" for x
    using that by (simp add: sockproxy_nm_dial_recall_def sleep_check_def force_close_def sp_call_def Let_def)
  have net: "ln_network e" using assms by (cases "ln_network e") (simp_all add: sockproxy_do_checksock_def)
  with assms(1,3) have s': "s' = sockproxy_nm_dial_recall e (sleep_check e (force_close e (pki_link e s)))"
    by (simp add: sockproxy_do_checksock_def)
  with tail assms(4) have up: "state (pki_link e s) \<noteq> PP_CLOSED" by blast
  show ?thesis
  proof (cases "linkSt s")
    case SOCKPROXY_CHECK_CERT
    with up assms(2) show ?thesis by (simp add: pki_link_def check_cert_def sp_call_def Let_def split: if_splits)
  next
    case SOCKPROXY_SETUP_SGLINK
    with up assms(2) show ?thesis
      by (cases "sglinkSt s") (simp_all add: pki_link_def sockproxy_sgLink_def sg_create_def sg_fail_def sp_call_def Let_def
          good_link_def net split: if_splits)
  next
    case SOCKPROXY_SETUP_BDLLINK
    with up assms(2) show ?thesis
      by (cases "BDLlinkSt s") (simp_all add: pki_link_def sockproxy_BDLink_def bd_create_def bd_fail_def sp_call_def Let_def
          good_link_def net split: if_splits)
  qed
qed

text \<open>C33: Recovery, with the certificates in use (\<open>pki\<close> not 0): a connection that has been waiting to be closed for
  2.5 seconds is closed by the next turn of the connection thread in which the network is up. If moreover the
  ignition is on in that turn and the three after it, and in those three the environment is good (network, address,
  resolution, port, certificates of the two-way link, revocation list, the vehicle's number, the library's
  answers), the last of them brings the two-way link up again, with the receiving thread not cancelled.\<close>

theorem sock_recovers:
  assumes "sock_reach pki s" "pki \<noteq> 0" "state s = PP_CLOSE_WAIT"
    and "ln_now e0 - checkclosedelaytime s \<ge> 2500" "ln_network e0" "s0 = snd (sockproxy_do_checksock e0 s)"
    and "s3 = snd (sockproxy_do_checksock e3 (snd (sockproxy_do_checksock e2 (snd (sockproxy_do_checksock e1 s0)))))"
  shows "state s0 = PP_CLOSED
    \<and> (ln_KL15 e0 \<and> (\<forall>e\<in>{e1, e2, e3}. good_link e \<and> ln_KL15 e \<and> ln_allowBDLink e \<and> ln_CertchainCfg e = 2030 \<and> ln_SetVin e = 0)
       \<longrightarrow> state s3 = PP_OPENED \<and> sockproxy_socketState st s3 = 1 \<and> \<not> cancelRcvphreadFlag s3)"
proof -
  let ?tail = "\<lambda>e x. sockproxy_nm_dial_recall e (sleep_check e (force_close e x))"
  let ?v = "\<lambda>x. (pkiEnFlag x, state x, linkSt x, BDLlinkSt x, cancelRcvphreadFlag x)"
  have i: "link_inv pki s" by (rule sock_reach_inv [OF assms(1)])
  have k: "pkiEnFlag s \<noteq> 0" "\<not> sendmtx s" using i assms(2) by (simp_all add: link_inv_def)
  have step: "snd (sockproxy_do_checksock e x) = ?tail e (pki_link e x)" if "pkiEnFlag x \<noteq> 0" "ln_network e" for e x
    using that by (simp add: sockproxy_do_checksock_def)
  have tail: "?v (?tail e x) = ?v x" "\<not> sleepFlag (?tail e x)"
    if "state x \<noteq> PP_CLOSE_WAIT" "ln_KL15 e" for e x
    using that by (simp_all add: sockproxy_nm_dial_recall_def sleep_check_def force_close_def sp_call_def Let_def)
  let ?p = "pki_link e0 s"
  have ip: "link_inv pki ?p" by (rule pki_link_inv [OF i assms(2)])
  have closed: "state (force_close e0 ?p) = PP_CLOSED \<and> linkSt (force_close e0 ?p) = SOCKPROXY_CHECK_CERT"
    by (rule close_wait_ends [OF i assms(2,3,4)])
  have s0e: "s0 = ?tail e0 ?p" using step [OF k(1) assms(5)] assms(6) by simp
  then have shut: "state s0 = PP_CLOSED"
    using closed by (simp add: sockproxy_nm_dial_recall_def sleep_check_def sp_call_def Let_def)
  have up: "state s3 = PP_OPENED \<and> sockproxy_socketState st s3 = 1 \<and> \<not> cancelRcvphreadFlag s3"
    if good: "ln_KL15 e0" "\<forall>e\<in>{e1, e2, e3}. good_link e \<and> ln_KL15 e \<and> ln_allowBDLink e \<and> ln_CertchainCfg e = 2030 \<and> ln_SetVin e = 0"
  proof -
  from s0e have s0: "linkSt s0 = SOCKPROXY_CHECK_CERT" "\<not> sleepFlag s0" "pkiEnFlag s0 \<noteq> 0"
    using closed good(1) k(1) ip assms(2) force_close_inv [OF ip, of e0]
    by (simp_all add: sockproxy_nm_dial_recall_def sleep_check_def sp_call_def Let_def link_inv_def)
  let ?s1 = "snd (sockproxy_do_checksock e1 s0)"
  have g: "ln_network e1" "ln_network e2" "ln_network e3" "ln_KL15 e1" "ln_KL15 e2" "ln_KL15 e3"
    using good(2) by (simp_all add: good_link_def)
  have p1: "?v (pki_link e1 s0) = (pkiEnFlag s0, PP_CLOSED, SOCKPROXY_SETUP_BDLLINK, SOCKPROXY_BDLLINK_INIT, False)"
    using s0 shut good(2) by (simp add: pki_link_def check_cert_def sp_call_def Let_def)
  then have s1: "?v ?s1 = (pkiEnFlag s0, PP_CLOSED, SOCKPROXY_SETUP_BDLLINK, SOCKPROXY_BDLLINK_INIT, False)"
    using step [OF s0(3) g(1)] tail(1) [of "pki_link e1 s0" e1] g(4) by simp
  let ?s2 = "snd (sockproxy_do_checksock e2 ?s1)"
  have p2: "?v (pki_link e2 ?s1) = (pkiEnFlag s0, PP_CLOSED, SOCKPROXY_SETUP_BDLLINK, SOCKPROXY_BDLLINK_CREAT, False)"
    using s1 by (simp add: pki_link_def sockproxy_BDLink_def)
  then have s2: "?v ?s2 = (pkiEnFlag s0, PP_CLOSED, SOCKPROXY_SETUP_BDLLINK, SOCKPROXY_BDLLINK_CREAT, False)"
    using step [of ?s1 e2] s1 s0(3) g(2,5) tail(1) [of "pki_link e2 ?s1" e2] by simp
  have p3: "?v (pki_link e3 ?s2) = (pkiEnFlag s0, PP_OPENED, SOCKPROXY_SETUP_BDLLINK, SOCKPROXY_BDLLINK_CREAT, False)"
    using s2 good(2) by (simp add: pki_link_def sockproxy_BDLink_def bd_create_def sp_call_def Let_def good_link_def)
  then have "?v s3 = (pkiEnFlag s0, PP_OPENED, SOCKPROXY_SETUP_BDLLINK, SOCKPROXY_BDLLINK_CREAT, False)"
    using step [of ?s2 e3] s2 s0(3) g(3,6) tail(1) [of "pki_link e3 ?s2" e3] assms(7) by simp
  with s0 show ?thesis by (simp add: sockproxy_socketState_def)
  qed
  with shut show ?thesis by blast
qed

theorem sock_recovers_witness:
  "state (demo_turn 5000 (sockproxy_socketclose True 4 (demo_turn 3 (demo_turn 2 (demo_turn 1 demo_start))) 400)) = PP_CLOSED"
proof -
  let ?o = "demo_turn 3 (demo_turn 2 (demo_turn 1 demo_start))"
  let ?s = "sockproxy_socketclose True 4 ?o 400"
  have r: "sock_reach 1 ?s" by (rule sock_reach.step [OF demo_turns(1), where p = "OpClose True 4 400"]) simp
  have v: "state ?s = PP_CLOSE_WAIT" "checkclosedelaytime ?s = 3" by (simp_all add: sockproxy_socketclose_def demo_turn_3)
  have g: "\<forall>e\<in>{demo_link 1, demo_link 2, demo_link 3}.
      good_link e \<and> ln_KL15 e \<and> ln_allowBDLink e \<and> ln_CertchainCfg e = 2030 \<and> ln_SetVin e = 0"
    by (simp add: good_link_def demo_link_def)
  have "ln_now (demo_link 5000) - checkclosedelaytime ?s \<ge> 2500" by (simp add: v demo_link_def)
  from sock_recovers [OF r _ v(1) this _ refl refl] g show ?thesis
    by (simp add: demo_turn_def demo_link_def)
qed

end
