(* ===== verification/GbPool.thy ===== *)
theory GbPool
  imports ListPool
begin

text \<open>
  The report packs of GB/T 32960 and when they are filled, \<^verbatim>\<open>app/interface/gb32960/gb32960_data.c\<close>: 2000 packs
  on four lists (free, waiting in real time, waiting as delayed, sent but not acknowledged) and a ring
  that keeps the reports of the last 30 seconds for the case of a fault. The lists are those of
  \<open>LinkList\<close> on one store, as in \<open>TxPool\<close>; the ring is a circle of cells without a head of its own. The
  contents of a report, which \<^verbatim>\<open>gb_data_save_all\<close> and \<^verbatim>\<open>gb_data_eventReport\<close> build from the signals of the
  CAN, is an input of the operations. The code has two ways not to return: the \<open>while (1)\<close> when no pack is
  left, and loops that follow the pointers; both are the value \<open>None\<close>.
\<close>

section \<open>Packs, lists and the ring\<close>

datatype gb_cell =
    GB_free_lst | GB_realtm_lst | GB_delay_lst | GB_trans_lst | GB_tmplst
  | GB_datamem nat | GB_errmem nat

record gb_pack_t =
  pk_data :: bytes
  pk_len :: u32
  pk_seq :: u32
  pk_type :: u32
  pk_list :: gb_cell

record gb_pool_t =
  gb_cells :: "gb_cell cells"
  gb_datamem :: "gb_pack_t list"
  gb_errmem :: "gb_pack_t list"
  gb_errlst_head :: "gb_cell option"
  gb_emerg :: bool
  gb_pendflag :: bool
  gb_datintv :: u16
  gb_inf :: bool
  warntrig :: bool
  ticks :: int
  times :: int
  triger :: bool
  canact :: bool
  counter :: nat

abbreviation (input) "GB_MAX_REPORT \<equiv> 2000 :: nat"
abbreviation (input) "GB_RPTTYPE_REALTM \<equiv> 0x02 :: u32"
abbreviation (input) "GB_RPTTYPE_DELAY \<equiv> 0x03 :: u32"

text \<open>\<open>GROUP_SIZE\<close> is \<open>RDUP_DIV(1, 200)\<close> for every vehicle.\<close>

definition GROUP_SIZE :: nat where "GROUP_SIZE = (1 + 200 - 1) div 200"

text \<open>A pack is known by its link, and the pointers to packs of the code are cells.\<close>

definition pack_at :: "gb_pool_t \<Rightarrow> gb_cell \<Rightarrow> gb_pack_t" where
  "pack_at s c = (case c of GB_errmem i \<Rightarrow> gb_errmem s ! i | GB_datamem i \<Rightarrow> gb_datamem s ! i | _ \<Rightarrow> gb_datamem s ! 0)"

definition set_pack :: "gb_pool_t \<Rightarrow> gb_cell \<Rightarrow> gb_pack_t \<Rightarrow> gb_pool_t" where
  "set_pack s c p =
     (case c of
        GB_datamem i \<Rightarrow> s\<lparr>gb_datamem := (gb_datamem s)[i := p]\<rparr>
      | GB_errmem i \<Rightarrow> s\<lparr>gb_errmem := (gb_errmem s)[i := p]\<rparr>
      | _ \<Rightarrow> s)"

definition fill_pack :: "gb_pack_t \<Rightarrow> bytes \<Rightarrow> gb_pack_t" where
  "fill_pack p rep = p\<lparr>pk_len := of_nat (length rep), pk_data := blit (pk_data p) 0 rep\<rparr>"

section \<open>Saving reports\<close>

text \<open>A free pack, else the oldest delayed one, else the oldest waiting in real time.\<close>

definition gb_take_node :: "gb_cell cells \<Rightarrow> (gb_cell \<times> gb_cell cells) option" where
  "gb_take_node h =
     (case list_get_first h GB_free_lst of
        (Some node, h) \<Rightarrow> Some (node, h)
      | (None, h) \<Rightarrow>
          (case list_get_first h GB_delay_lst of
             (Some node, h) \<Rightarrow> Some (node, h)
           | (None, h) \<Rightarrow>
               (case list_get_first h GB_realtm_lst of
                  (Some node, h) \<Rightarrow> Some (node, h)
                | (None, h) \<Rightarrow> None)))"

definition save_in_pack :: "gb_pool_t \<Rightarrow> nat \<Rightarrow> bytes \<Rightarrow> gb_pool_t option" where
  "save_in_pack s i rep =
     (case gb_take_node (gb_cells s) of
        None \<Rightarrow> None
      | Some (node, h) \<Rightarrow>
          let p = (fill_pack (pack_at s node) rep)
                    \<lparr>pk_seq := of_nat (i + 1), pk_list := GB_realtm_lst, pk_type := GB_RPTTYPE_REALTM\<rparr>
          in Some ((set_pack s node p)\<lparr>gb_cells := list_insert_before h GB_realtm_lst node\<rparr>))"

definition gb_data_save_realtm :: "gb_pool_t \<Rightarrow> bytes \<Rightarrow> gb_pool_t option" where
  "gb_data_save_realtm s rep =
     fold (\<lambda>i r. Option.bind r (\<lambda>s. save_in_pack s i rep)) [0..<GROUP_SIZE] (Some s)"

text \<open>The event report copies its bytes in a loop and then takes the loop's counter for the number.\<close>

definition gb_data_eventReport :: "gb_pool_t \<Rightarrow> bytes option \<Rightarrow> gb_pool_t option" where
  "gb_data_eventReport s trig =
     (case trig of None \<Rightarrow> Some s | Some rep \<Rightarrow> save_in_pack s (length rep) rep)"

definition save_error_one :: "gb_pool_t \<Rightarrow> nat \<Rightarrow> bytes \<Rightarrow> gb_pool_t option" where
  "save_error_one s i rep =
     (case gb_errlst_head s of
        None \<Rightarrow> None
      | Some c \<Rightarrow>
          Some ((set_pack s c ((fill_pack (pack_at s c) rep)\<lparr>pk_seq := of_nat (i + 1)\<rparr>))
                 \<lparr>gb_errlst_head := Some (lnext (gb_cells s) c)\<rparr>))"

definition gb_data_save_error :: "gb_pool_t \<Rightarrow> bytes \<Rightarrow> gb_pool_t option" where
  "gb_data_save_error s rep =
     fold (\<lambda>i r. Option.bind r (\<lambda>s. save_error_one s i rep)) [0..<GROUP_SIZE] (Some s)"

section \<open>The ring of faults\<close>

text \<open>The ring is laid when the signal database has been loaded (\<^verbatim>\<open>DBC_EVENT_FINISHED\<close>).\<close>

definition err_ring_init :: "gb_pool_t \<Rightarrow> gb_pool_t" where
  "err_ring_init s =
     (if GROUP_SIZE > 0 then
        fold (\<lambda>i s. (set_pack s (GB_errmem i)
                ((pack_at s (GB_errmem i))\<lparr>pk_len := 0, pk_type := GB_RPTTYPE_DELAY, pk_list := GB_delay_lst\<rparr>))
              \<lparr>gb_cells := list_insert_before (gb_cells s) (GB_errmem 0) (GB_errmem i)\<rparr>)
          [1..<GROUP_SIZE * 30]
          (s\<lparr>gb_errlst_head := Some (GB_errmem 0), gb_cells := list_init (gb_cells s) (GB_errmem 0)\<rparr>)
      else s\<lparr>gb_errlst_head := None\<rparr>)"

text \<open>\<open>memcpy\<close> of a whole pack copies its link as well; the insertion right after sets it again.\<close>

definition copy_pack :: "gb_pool_t \<Rightarrow> gb_cell cells \<Rightarrow> gb_cell \<Rightarrow> gb_cell \<Rightarrow> gb_pool_t" where
  "copy_pack s h node err =
     (let h = set_prev (set_next h node (lnext h err)) node (lprev h err)
      in (set_pack s node (pack_at s err))\<lparr>gb_cells := h\<rparr>)"

definition flush_error_one :: "gb_pool_t \<Rightarrow> gb_cell \<Rightarrow> gb_cell cells \<Rightarrow> gb_cell \<Rightarrow> gb_pool_t" where
  "flush_error_one s node h err =
     (let s = copy_pack (s\<lparr>gb_errlst_head := Some err\<rparr>) h node err;
          s = set_pack s err ((pack_at s err)\<lparr>pk_len := 0\<rparr>);
          s = set_pack s node ((pack_at s node)\<lparr>pk_list := GB_delay_lst, pk_type := GB_RPTTYPE_DELAY\<rparr>)
      in s\<lparr>gb_cells := list_insert_after (gb_cells s) GB_tmplst node\<rparr>)"

partial_function (option) flush_error_loop :: "gb_pool_t \<Rightarrow> gb_cell \<Rightarrow> gb_pool_t option" where
  "flush_error_loop s c =
     (if pk_len (pack_at s (lprev (gb_cells s) c)) = 0 then Some s
      else case gb_take_node (gb_cells s) of
         None \<Rightarrow> None
       | Some (node, h) \<Rightarrow> flush_error_loop (flush_error_one s node h (lprev h c)) (lprev h c))"

definition splice_delay :: "gb_cell cells \<Rightarrow> gb_cell cells" where
  "splice_delay h =
     (let h = set_prev h (lnext h GB_tmplst) (lprev h GB_delay_lst);
          h = set_next h (lprev h GB_delay_lst) (lnext h GB_tmplst);
          h = set_next h (lprev h GB_tmplst) GB_delay_lst
      in set_prev h GB_delay_lst (lprev h GB_tmplst))"

definition gb_data_flush_error :: "gb_pool_t \<Rightarrow> gb_pool_t option" where
  "gb_data_flush_error s =
     (let s = s\<lparr>gb_cells := list_init (gb_cells s) GB_tmplst\<rparr>
      in case gb_errlst_head s of
           None \<Rightarrow> Some s
         | Some c \<Rightarrow>
             map_option (\<lambda>s. if list_empty (gb_cells s) GB_tmplst then s
                              else s\<lparr>gb_cells := splice_delay (gb_cells s)\<rparr>)
               (flush_error_loop s c))"

partial_function (option) clear_error_loop :: "gb_pool_t \<Rightarrow> gb_cell \<Rightarrow> gb_cell \<Rightarrow> gb_pool_t option" where
  "clear_error_loop s head node =
     (let s = set_pack s node ((pack_at s node)\<lparr>pk_len := 0\<rparr>);
          node = lnext (gb_cells s) node
      in if node = head then Some s else clear_error_loop s head node)"

definition gb_data_clear_error :: "gb_pool_t \<Rightarrow> gb_pool_t option" where
  "gb_data_clear_error s = (case gb_errlst_head s of None \<Rightarrow> Some s | Some c \<Rightarrow> clear_error_loop s c c)"

section \<open>Sending, acknowledging, taking back\<close>

definition gb_data_get_pack :: "gb_pool_t \<Rightarrow> gb_cell option \<times> gb_pool_t" where
  "gb_data_get_pack s =
     (case list_get_first (gb_cells s) GB_realtm_lst of
        (Some node, h) \<Rightarrow> (Some node, s\<lparr>gb_cells := h\<rparr>)
      | (None, h) \<Rightarrow>
          (case (if gb_emerg s then list_get_last h GB_delay_lst else list_get_first h GB_delay_lst) of
             (node, h) \<Rightarrow> (node, s\<lparr>gb_cells := h\<rparr>)))"

definition gb_data_put_back :: "gb_pool_t \<Rightarrow> gb_cell \<Rightarrow> gb_pool_t" where
  "gb_data_put_back s pack = s\<lparr>gb_cells := list_insert_after (gb_cells s) (pk_list (pack_at s pack)) pack\<rparr>"

definition gb_data_put_send :: "gb_pool_t \<Rightarrow> gb_cell \<Rightarrow> gb_pool_t" where
  "gb_data_put_send s pack = s\<lparr>gb_cells := list_insert_before (gb_cells s) GB_trans_lst pack\<rparr>"

definition gb_data_ack_pack :: "gb_pool_t \<Rightarrow> gb_pool_t" where
  "gb_data_ack_pack s =
     (case list_get_first (gb_cells s) GB_trans_lst of
        (Some node, h) \<Rightarrow> s\<lparr>gb_cells := list_insert_before h GB_free_lst node\<rparr>
      | (None, h) \<Rightarrow> s\<lparr>gb_cells := h\<rparr>)"

partial_function (option) gb_data_flush_sending :: "gb_pool_t \<Rightarrow> gb_pool_t option" where
  "gb_data_flush_sending s =
     (case list_get_last (gb_cells s) GB_trans_lst of
        (None, h) \<Rightarrow> Some s
      | (Some pack, h) \<Rightarrow>
          gb_data_flush_sending (s\<lparr>gb_cells := list_insert_after h (pk_list (pack_at s pack)) pack\<rparr>))"

partial_function (option) gb_data_flush_realtm :: "gb_pool_t \<Rightarrow> gb_pool_t option" where
  "gb_data_flush_realtm s =
     (case list_get_first (gb_cells s) GB_realtm_lst of
        (None, h) \<Rightarrow> Some s
      | (Some pack, h) \<Rightarrow>
          gb_data_flush_realtm
            ((set_pack s pack ((pack_at s pack)\<lparr>pk_list := GB_delay_lst, pk_type := GB_RPTTYPE_DELAY\<rparr>))
              \<lparr>gb_cells := list_insert_before h GB_delay_lst pack\<rparr>))"

definition gb_data_clear_report :: "gb_pool_t \<Rightarrow> gb_pool_t" where
  "gb_data_clear_report s =
     (let h = list_init (list_init (list_init (list_init (gb_cells s) GB_realtm_lst) GB_delay_lst) GB_trans_lst) GB_free_lst
      in s\<lparr>gb_cells := fold (\<lambda>i h. list_insert_before h GB_free_lst (GB_datamem i)) [0..<GB_MAX_REPORT] h\<rparr>)"

definition gb_data_emergence :: "gb_pool_t \<Rightarrow> bool \<Rightarrow> gb_pool_t" where "gb_data_emergence s on = s\<lparr>gb_emerg := on\<rparr>"
definition gb_data_nosending :: "gb_pool_t \<Rightarrow> bool" where "gb_data_nosending s = list_empty (gb_cells s) GB_trans_lst"
definition gb_data_noreport :: "gb_pool_t \<Rightarrow> bool" where
  "gb_data_noreport s \<longleftrightarrow> list_empty (gb_cells s) GB_realtm_lst \<and> list_empty (gb_cells s) GB_delay_lst"
definition gb_data_set_intv :: "gb_pool_t \<Rightarrow> u16 \<Rightarrow> gb_pool_t" where "gb_data_set_intv s intv = s\<lparr>gb_datintv := intv\<rparr>"
definition gb_data_set_pendflag :: "gb_pool_t \<Rightarrow> bool \<Rightarrow> gb_pool_t" where
  "gb_data_set_pendflag s flag = s\<lparr>gb_pendflag := flag\<rparr>"

section \<open>When a report is due\<close>

text \<open>Called once per hundred frames of the CAN clock, that is every second. After a fault the reports come
  every second for half a minute.\<close>

definition periodic_warn :: "gb_pool_t \<Rightarrow> gb_pool_t option" where
  "periodic_warn s =
     (if gb_inf s \<and> warntrig s then
        (let s = s\<lparr>warntrig := False, times := 30 + 1\<rparr>
         in if gb_pendflag s then Option.bind (gb_data_flush_realtm s) gb_data_flush_error
            else Some (s\<lparr>triger := True\<rparr>))
      else Some s)"

definition periodic_save :: "gb_pool_t \<Rightarrow> int \<Rightarrow> bytes \<Rightarrow> gb_pool_t option" where
  "periodic_save s period rep =
     (if ticks s \<ge> period then
        Option.bind (gb_data_save_realtm (s\<lparr>ticks := 0\<rparr>) rep)
          (\<lambda>s. if triger s then gb_data_flush_error (s\<lparr>triger := False\<rparr>) else Some s)
      else Some s)"

definition gb_data_periodic :: "gb_pool_t \<Rightarrow> int \<Rightarrow> bytes \<Rightarrow> gb_pool_t option" where
  "gb_data_periodic s intv rep =
     Option.bind (periodic_warn s) (\<lambda>s.
       let s = s\<lparr>ticks := ticks s + 1\<rparr>
       in if times s = 0 then Option.bind (gb_data_save_error s rep) (\<lambda>s. periodic_save s intv rep)
          else let s = s\<lparr>times := times s - 1\<rparr>
               in periodic_save s (if times s = 0 then intv else 1) rep)"

text \<open>A frame of the CAN as the callback reads it: its type, its identifier and the report that would be
  built at its time. Frames with the identifier \<open>0x3D1\<close> go to the immobiliser in any case, which is the
  second result.\<close>

datatype can_event = CAN_EVENT_ACTIVE | CAN_EVENT_SLEEP | CAN_EVENT_TIMEOUT | CAN_EVENT_DATAIN

record can_msg =
  cm_type :: char
  cm_MsgID :: u32
  cm_Data :: bytes
  cm_report :: bytes

fun can_msgs :: "gb_pool_t \<Rightarrow> can_msg list \<Rightarrow> gb_pool_t option \<times> bytes list" where
  "can_msgs s [] = (Some s, [])"
| "can_msgs s (m # ms) =
     (if canact s \<and> gb_inf s then
        let hit = cm_type m = CHR ''T'';
            s = (if hit then s\<lparr>counter := counter s + 1\<rparr> else s);
            r = (if hit \<and> counter s = 100
                 then gb_data_periodic (s\<lparr>counter := 0\<rparr>) (uint (gb_datintv s)) (cm_report m) else Some s);
            ident = (if cm_MsgID m = 0x3D1 then [cm_Data m] else [])
        in case r of
             None \<Rightarrow> (None, [])
           | Some s \<Rightarrow> (case can_msgs s ms of (r, out) \<Rightarrow> (r, ident @ out))
      else (Some s, []))"

definition gb_data_can_cb :: "gb_pool_t \<Rightarrow> can_event \<Rightarrow> can_msg list \<Rightarrow> bytes option \<Rightarrow> gb_pool_t option \<times> bytes list" where
  "gb_data_can_cb s event ms trig =
     (case event of
        CAN_EVENT_ACTIVE \<Rightarrow> (Some (s\<lparr>canact := True\<rparr>), [])
      | CAN_EVENT_SLEEP \<Rightarrow> (gb_data_clear_error (s\<lparr>canact := False\<rparr>), [])
      | CAN_EVENT_TIMEOUT \<Rightarrow> (gb_data_clear_error (s\<lparr>canact := False\<rparr>), [])
      | CAN_EVENT_DATAIN \<Rightarrow>
          (case can_msgs s ms of
             (r, ident) \<Rightarrow>
               (Option.bind r (\<lambda>s. if gb_inf s then gb_data_eventReport s trig else Some s), ident)))"

section \<open>Where the packs are\<close>

definition gb_heads :: "gb_cell set" where "gb_heads = {GB_free_lst, GB_realtm_lst, GB_delay_lst, GB_trans_lst}"
definition gb_heads_tmp :: "gb_cell set" where "gb_heads_tmp = insert GB_tmplst gb_heads"

lemma gb_heads_in [simp]: "GB_free_lst \<in> gb_heads" "GB_realtm_lst \<in> gb_heads" "GB_delay_lst \<in> gb_heads"
  "GB_trans_lst \<in> gb_heads" "GB_tmplst \<notin> gb_heads" "GB_tmplst \<in> gb_heads_tmp" "GB_datamem i \<notin> gb_heads"
  by (simp_all add: gb_heads_def gb_heads_tmp_def)

lemma gb_heads_tmp_in [simp]: "a \<in> gb_heads \<Longrightarrow> a \<in> gb_heads_tmp"
  by (simp add: gb_heads_tmp_def)

interpretation gbp: list_pool gb_heads GB_datamem 2000
  by unfold_locales (auto simp: gb_heads_def)

interpretation gbt: list_pool gb_heads_tmp GB_datamem 2000
  by unfold_locales (auto simp: gb_heads_def gb_heads_tmp_def)

lemma err_foreign:
  "insert (GB_errmem r) (set (map GB_errmem rs)) \<inter> (gb_heads \<union> range GB_datamem) = {}"
  "insert (GB_errmem r) (set (map GB_errmem rs)) \<inter> (gb_heads_tmp \<union> range GB_datamem) = {}"
  by (auto simp: gb_heads_def gb_heads_tmp_def)

text \<open>A pack remembers which of the two report lists it belongs to, and its type says the same.\<close>

definition pack_ok :: "gb_pack_t \<Rightarrow> bool" where
  "pack_ok p \<longleftrightarrow> (pk_list p = GB_realtm_lst \<and> pk_type p = GB_RPTTYPE_REALTM
                  \<or> pk_list p = GB_delay_lst \<and> pk_type p = GB_RPTTYPE_DELAY) \<and> pk_len p \<le> 1024"

definition place_ok :: "gb_cell \<Rightarrow> gb_pack_t \<Rightarrow> bool" where
  "place_ok a p \<longleftrightarrow> a = GB_free_lst
     \<or> pack_ok p \<and> (a = GB_realtm_lst \<longrightarrow> pk_list p = a) \<and> (a = GB_delay_lst \<or> a = GB_tmplst \<longrightarrow> pk_list p = GB_delay_lst)"

definition mem_ok :: "gb_cell set \<Rightarrow> gb_pack_t list \<Rightarrow> (gb_cell \<Rightarrow> nat list) \<Rightarrow> nat set \<Rightarrow> bool" where
  "mem_ok A m L H \<longleftrightarrow>
     length m = 2000 \<and> (\<forall>i<2000. length (pk_data (m ! i)) = 1024)
     \<and> (\<forall>a\<in>A. \<forall>i\<in>set (L a). place_ok a (m ! i)) \<and> (\<forall>i\<in>H. pack_ok (m ! i))"

lemma mem_ok_upd:
  assumes "mem_ok A m L H" "i < 2000" "length (pk_data p) = 1024"
    and "\<forall>b\<in>A. \<forall>j\<in>set (L' b). if j = i then place_ok b p else j \<in> set (L b)"
    and "\<forall>j\<in>H'. if j = i then pack_ok p else j \<in> H"
  shows "mem_ok A (m[i := p]) L' H'"
  unfolding mem_ok_def
proof (intro conjI ballI allI impI)
  show "length (m[i := p]) = 2000" using assms(1) by (simp add: mem_ok_def)
  show "length (pk_data (m[i := p] ! j)) = 1024" if "j < 2000" for j
    using that assms(1,3) by (cases "j = i") (simp_all add: mem_ok_def)
  show "place_ok b (m[i := p] ! j)" if "b \<in> A" "j \<in> set (L' b)" for b j
    using that assms(1,2) assms(4)[rule_format, OF that] by (cases "j = i") (simp_all add: mem_ok_def)
  show "pack_ok (m[i := p] ! j)" if "j \<in> H'" for j
    using that assms(1,2) assms(5)[rule_format, OF that] by (cases "j = i") (simp_all add: mem_ok_def)
qed

lemma mem_ok_move:
  assumes "mem_ok A m L H" "i < 2000"
    and "\<forall>b\<in>A. \<forall>j\<in>set (L' b). if j = i then place_ok b (m ! i) else j \<in> set (L b)"
    and "\<forall>j\<in>H'. if j = i then pack_ok (m ! i) else j \<in> H"
  shows "mem_ok A m L' H'"
  using mem_ok_upd [OF assms(1,2) _ assms(3,4)] assms(1,2) by (simp add: mem_ok_def)

text \<open>The ring \<open>R\<close>, from the cell the code points at: the empty packs, then the kept reports, the oldest first.\<close>

definition ring_at :: "gb_pool_t \<Rightarrow> nat list \<Rightarrow> bool" where
  "ring_at s R \<longleftrightarrow>
     gb_errlst_head s = (case R of [] \<Rightarrow> None | r # _ \<Rightarrow> Some (GB_errmem r))
     \<and> (case R of [] \<Rightarrow> True | r # rs \<Rightarrow> dll (gb_cells s) (GB_errmem r) (map GB_errmem rs))
     \<and> sorted_wrt (\<lambda>q r. pk_len (gb_errmem s ! q) \<noteq> 0 \<longrightarrow> pk_len (gb_errmem s ! r) \<noteq> 0) R
     \<and> (\<forall>r\<in>set R. r < length (gb_errmem s) \<and> length (pk_data (gb_errmem s ! r)) = 1024 \<and> pk_len (gb_errmem s ! r) \<le> 1024)"

definition GB_at :: "gb_pool_t \<Rightarrow> (gb_cell \<Rightarrow> nat list) \<Rightarrow> nat set \<Rightarrow> nat list \<Rightarrow> bool" where
  "GB_at s L H R \<longleftrightarrow> cells_at gb_heads GB_datamem 2000 (gb_cells s) L H
     \<and> mem_ok gb_heads (gb_datamem s) L H \<and> ring_at s R"

lemma GB_at_parts:
  assumes "GB_at s L H R"
  shows "cells_at gb_heads GB_datamem 2000 (gb_cells s) L H" "mem_ok gb_heads (gb_datamem s) L H" "ring_at s R"
  using assms by (simp_all add: GB_at_def)

text \<open>What a change of the store leaves of the ring.\<close>

lemma ring_cells:
  assumes "ring_at s R"
    and "\<And>r rs. dll (gb_cells s) (GB_errmem r) (map GB_errmem rs) \<Longrightarrow> dll h (GB_errmem r) (map GB_errmem rs)"
  shows "ring_at (s\<lparr>gb_cells := h\<rparr>) R"
  using assms by (auto simp: ring_at_def split: list.splits)

lemma ring_cong:
  "gb_cells s' = gb_cells s \<Longrightarrow> gb_errmem s' = gb_errmem s \<Longrightarrow> gb_errlst_head s' = gb_errlst_head s \<Longrightarrow>
   ring_at s' R = ring_at s R"
  by (cases R) (simp_all add: ring_at_def)

lemma pack_at_simps [simp]:
  "pack_at s (GB_datamem i) = gb_datamem s ! i" "pack_at s (GB_errmem r) = gb_errmem s ! r"
  "set_pack s (GB_datamem i) p = s\<lparr>gb_datamem := (gb_datamem s)[i := p]\<rparr>"
  "set_pack s (GB_errmem r) p = s\<lparr>gb_errmem := (gb_errmem s)[r := p]\<rparr>"
  by (simp_all add: pack_at_def set_pack_def)

section \<open>The laws of the operations\<close>

text \<open>Where the code takes a pack from when it needs one.\<close>

definition take_from :: "(gb_cell \<Rightarrow> nat list) \<Rightarrow> gb_cell option" where
  "take_from L =
     (if L GB_free_lst \<noteq> [] then Some GB_free_lst else if L GB_delay_lst \<noteq> [] then Some GB_delay_lst
      else if L GB_realtm_lst \<noteq> [] then Some GB_realtm_lst else None)"

lemma take_from_cases:
  assumes "take_from L = Some a"
  obtains i "is" where "L a = i # is" "a \<in> {GB_free_lst, GB_delay_lst, GB_realtm_lst}"
  using assms by (cases "L a") (auto simp: take_from_def split: if_splits)

lemma take_node_law:
  assumes "cells_at A GB_datamem 2000 h L H" "A = gb_heads \<or> A = gb_heads_tmp"
  shows "gb_take_node h = (case take_from L of None \<Rightarrow> None
     | Some a \<Rightarrow> Some (GB_datamem (hd (L a)), list_delete h (GB_datamem (hd (L a)))))"
proof -
  have "list_get_first h a = (case L a of [] \<Rightarrow> (None, h) | i # _ \<Rightarrow> (Some (GB_datamem i), list_delete h (GB_datamem i)))"
    if "a \<in> gb_heads" for a
    using assms that gbp.cells_get_first [of h L H a] gbt.cells_get_first [of h L H a] by auto
  then show ?thesis by (simp add: gb_take_node_def take_from_def split: list.split)
qed

lemma take_from_total:
  assumes "cells_at gb_heads GB_datamem 2000 h L H" "finite H" "card H + length (L GB_trans_lst) < 2000"
  shows "\<exists>a. take_from L = Some a"
proof (rule ccontr)
  assume "\<not> ?thesis"
  then have "L GB_free_lst = []" "L GB_delay_lst = []" "L GB_realtm_lst = []"
    by (auto simp: take_from_def split: if_splits)
  with cells_at_total [OF assms(1) _ assms(2)] assms(3) show False by (simp add: gb_heads_def)
qed

text \<open>One report saved.\<close>

definition saved_pack :: "gb_pack_t \<Rightarrow> nat \<Rightarrow> bytes \<Rightarrow> gb_pack_t" where
  "saved_pack p k rep = (fill_pack p rep)
     \<lparr>pk_seq := of_nat (k + 1), pk_list := GB_realtm_lst, pk_type := GB_RPTTYPE_REALTM\<rparr>"

lemma of_nat_le_1024: "n \<le> 1024 \<Longrightarrow> (of_nat n :: u32) \<le> 1024"
  by (simp add: word_le_nat_alt unat_of_nat)

lemma saved_pack_ok:
  "length (pk_data p) = 1024 \<Longrightarrow> length rep \<le> 1024 \<Longrightarrow>
   length (pk_data (saved_pack p k rep)) = 1024 \<and> pack_ok (saved_pack p k rep) \<and> place_ok GB_realtm_lst (saved_pack p k rep)"
  using of_nat_le_1024 [of "length rep"] by (auto simp: saved_pack_def fill_pack_def pack_ok_def place_ok_def)

lemma mem_ok_moved:
  assumes c: "cells_at A f 2000 h L H" and m: "mem_ok A m L H" and a: "a \<in> A" "L a = i # is"
    and p: "length (pk_data p) = 1024" "place_ok b p"
  shows "mem_ok A (m[i := p]) (moved L a b) H"
proof (rule mem_ok_upd [OF m _ p(1)])
  show "i < 2000" using cells_at_less [OF c, of i a] a by simp
  show "\<forall>d\<in>A. \<forall>j\<in>set (moved L a b d). if j = i then place_ok d p else j \<in> set (L d)"
    using moved_set [OF c a] p(2) by fastforce
  show "\<forall>j\<in>H. if j = i then pack_ok p else j \<in> H"
    using cells_at_apart [OF c a(1), of i] a(2) by auto
qed

lemma save_law:
  assumes at: "GB_at s L H R" and a: "take_from L = Some a" and rep: "length rep \<le> 1024"
  defines "i \<equiv> hd (L a)"
  shows "\<exists>h. save_in_pack s k rep =
      Some (s\<lparr>gb_datamem := (gb_datamem s)[i := saved_pack (gb_datamem s ! i) k rep], gb_cells := h\<rparr>)
    \<and> GB_at (s\<lparr>gb_datamem := (gb_datamem s)[i := saved_pack (gb_datamem s ! i) k rep], gb_cells := h\<rparr>)
        (moved L a GB_realtm_lst) H R"
proof -
  note c = GB_at_parts(1) [OF at] and m = GB_at_parts(2) [OF at] and r = GB_at_parts(3) [OF at]
  from a obtain "is" where L: "a \<in> gb_heads" "L a = i # is" by (cases rule: take_from_cases) (auto simp: i_def)
  have i: "i < 2000" using cells_at_less [OF c, of i a] L by simp
  let ?p = "saved_pack (gb_datamem s ! i) k rep"
  let ?h = "list_insert_before (list_delete (gb_cells s) (GB_datamem i)) GB_realtm_lst (GB_datamem i)"
  have p: "length (pk_data ?p) = 1024" "place_ok GB_realtm_lst ?p"
    using saved_pack_ok [OF _ rep, of "gb_datamem s ! i" k] m i by (simp_all add: mem_ok_def)
  note mv = gbp.moved_cells [OF c L gb_heads_in(2)]
  have "ring_at (s\<lparr>gb_cells := ?h\<rparr>) R" by (rule ring_cells [OF r mv(2)]) (assumption | rule err_foreign)+
  then have "ring_at (s\<lparr>gb_datamem := (gb_datamem s)[i := ?p], gb_cells := ?h\<rparr>) R"
    by (subst ring_cong [of _ "s\<lparr>gb_cells := ?h\<rparr>"]) simp_all
  with mv(1) mem_ok_moved [OF c m L p] have
    "GB_at (s\<lparr>gb_datamem := (gb_datamem s)[i := ?p], gb_cells := ?h\<rparr>) (moved L a GB_realtm_lst) H R"
    by (simp add: GB_at_def)
  moreover have "save_in_pack s k rep = Some (s\<lparr>gb_datamem := (gb_datamem s)[i := ?p], gb_cells := ?h\<rparr>)"
    using take_node_law [OF c] a by (simp add: save_in_pack_def i_def[symmetric] saved_pack_def Let_def)
  ultimately show ?thesis by blast
qed

lemma save_hangs:
  "GB_at s L H R \<Longrightarrow> take_from L = None \<Longrightarrow> save_in_pack s k rep = None"
  using take_node_law [OF GB_at_parts(1)] by (simp add: save_in_pack_def)

text \<open>The packs in the hands of the sender.\<close>

lemma GB_at_cells:
  assumes "GB_at s L H R" "cells_at gb_heads GB_datamem 2000 h L' H'" "mem_ok gb_heads (gb_datamem s) L' H'"
    and "\<And>r rs. dll (gb_cells s) (GB_errmem r) (map GB_errmem rs) \<Longrightarrow> dll h (GB_errmem r) (map GB_errmem rs)"
  shows "GB_at (s\<lparr>gb_cells := h\<rparr>) L' H' R"
  using assms(2,3) ring_cells [OF GB_at_parts(3) [OF assms(1)] assms(4)] by (simp add: GB_at_def)

definition next_pack :: "bool \<Rightarrow> (gb_cell \<Rightarrow> nat list) \<Rightarrow> (nat \<times> (gb_cell \<Rightarrow> nat list)) option" where
  "next_pack emerg L =
     (if L GB_realtm_lst \<noteq> [] then Some (hd (L GB_realtm_lst), L(GB_realtm_lst := tl (L GB_realtm_lst)))
      else if L GB_delay_lst = [] then None
      else if emerg then Some (last (L GB_delay_lst), L(GB_delay_lst := butlast (L GB_delay_lst)))
      else Some (hd (L GB_delay_lst), L(GB_delay_lst := tl (L GB_delay_lst))))"

lemma take_law:
  assumes at: "GB_at s L H R" and L: "a \<in> gb_heads" "L a = xs @ i # ys" "a \<noteq> GB_free_lst"
  shows "GB_at (s\<lparr>gb_cells := list_delete (gb_cells s) (GB_datamem i)\<rparr>) (L(a := xs @ ys)) (insert i H) R"
proof -
  note c = GB_at_parts(1) [OF at] and m = GB_at_parts(2) [OF at]
  have "i < 2000" using cells_at_less [OF c, of i a] L by simp
  moreover have "pack_ok (gb_datamem s ! i)"
    using m L by (auto simp: mem_ok_def place_ok_def)
  moreover have "i \<notin> set (xs @ ys)" "\<And>b. b \<in> gb_heads \<Longrightarrow> b \<noteq> a \<Longrightarrow> i \<notin> set (L b)"
    using cells_at_distinct [OF c L(1)] cells_at_one [OF c L(1), of _ i] L(2) by auto
  ultimately have "mem_ok gb_heads (gb_datamem s) (L(a := xs @ ys)) (insert i H)"
    using L(2) by (intro mem_ok_move [OF m, of i]) auto
  then show ?thesis
    by (rule GB_at_cells [OF at gbp.cells_take_at [OF c L(1,2)]]) (rule gbp.foreign_take [OF c L(1,2) _ err_foreign(1)])
qed

lemma get_law:
  assumes at: "GB_at s L H R"
  shows "case next_pack (gb_emerg s) L of
      None \<Rightarrow> gb_data_get_pack s = (None, s)
    | Some (i, L') \<Rightarrow> \<exists>h. gb_data_get_pack s = (Some (GB_datamem i), s\<lparr>gb_cells := h\<rparr>)
        \<and> GB_at (s\<lparr>gb_cells := h\<rparr>) L' (insert i H) R \<and> i \<notin> H \<and> i < 2000"
proof -
  note c = GB_at_parts(1) [OF at]
  note fst = gbp.cells_get_first [OF c] and lst = gbp.cells_get_last [OF c]
  have in_hand: "i \<notin> H \<and> i < 2000" if "a \<in> gb_heads" "i \<in> set (L a)" for a i
    using cells_at_apart [OF c that] cells_at_less [OF c, of i a] that by simp
  show ?thesis
  proof (cases "L GB_realtm_lst")
    case (Cons i "is")
    with take_law [OF at, of GB_realtm_lst "[]" i "is"] in_hand [of GB_realtm_lst i] show ?thesis
      by (auto simp: next_pack_def gb_data_get_pack_def fst)
  next
    case Nil
    show ?thesis
    proof (cases "L GB_delay_lst = []")
      case True
      with Nil show ?thesis by (simp add: next_pack_def gb_data_get_pack_def fst lst)
    next
      case False
      then have l: "L GB_delay_lst = butlast (L GB_delay_lst) @ last (L GB_delay_lst) # []"
        "L GB_delay_lst = [] @ hd (L GB_delay_lst) # tl (L GB_delay_lst)" by simp_all
      then have "last (L GB_delay_lst) \<in> set (L GB_delay_lst)" "hd (L GB_delay_lst) \<in> set (L GB_delay_lst)"
        using False by (auto simp del: append_butlast_last_id list.collapse)
      with take_law [OF at _ l(1)] take_law [OF at _ l(2)] in_hand [OF gb_heads_in(3)] Nil False show ?thesis
        by (cases "L GB_delay_lst") (auto simp: next_pack_def gb_data_get_pack_def fst lst)
    qed
  qed
qed

lemma pk_put_back_law:
  assumes at: "GB_at s L H R" and i: "i \<in> H"
  defines "a \<equiv> pk_list (gb_datamem s ! i)"
  shows "\<exists>h. gb_data_put_back s (GB_datamem i) = s\<lparr>gb_cells := h\<rparr>
    \<and> GB_at (s\<lparr>gb_cells := h\<rparr>) (L(a := i # L a)) (H - {i}) R \<and> a \<in> {GB_realtm_lst, GB_delay_lst}"
proof -
  note c = GB_at_parts(1) [OF at] and m = GB_at_parts(2) [OF at]
  have p: "pack_ok (gb_datamem s ! i)" using m i by (simp add: mem_ok_def)
  then have a: "a \<in> {GB_realtm_lst, GB_delay_lst}" "a \<in> gb_heads" by (auto simp: a_def pack_ok_def)
  have "place_ok a (gb_datamem s ! i)" using p by (auto simp: place_ok_def a_def pack_ok_def)
  moreover have "i < 2000" using cells_at_less [OF c, of i] i by simp
  moreover have "i \<notin> set (L b)" if "b \<in> gb_heads" for b using cells_at_apart [OF c that] i by blast
  ultimately have "mem_ok gb_heads (gb_datamem s) (L(a := i # L a)) (H - {i})"
    by (intro mem_ok_move [OF m, of i]) auto
  from GB_at_cells [OF at gbp.cells_put_first [OF c a(2) i] this gbp.foreign_put_first [OF c a(2) _ err_foreign(1)]] a(1)
  show ?thesis
    by (intro exI [of _ "list_insert_after (gb_cells s) a (GB_datamem i)"]) (simp add: gb_data_put_back_def a_def)
qed

lemma pk_put_send_law:
  assumes at: "GB_at s L H R" and i: "i \<in> H"
  shows "\<exists>h. gb_data_put_send s (GB_datamem i) = s\<lparr>gb_cells := h\<rparr>
    \<and> GB_at (s\<lparr>gb_cells := h\<rparr>) (L(GB_trans_lst := L GB_trans_lst @ [i])) (H - {i}) R"
proof -
  note c = GB_at_parts(1) [OF at] and m = GB_at_parts(2) [OF at]
  have "place_ok GB_trans_lst (gb_datamem s ! i)" using m i by (auto simp: mem_ok_def place_ok_def)
  moreover have "i < 2000" using cells_at_less [OF c, of i] i by simp
  moreover have "i \<notin> set (L b)" if "b \<in> gb_heads" for b using cells_at_apart [OF c that] i by blast
  ultimately have "mem_ok gb_heads (gb_datamem s) (L(GB_trans_lst := L GB_trans_lst @ [i])) (H - {i})"
    by (intro mem_ok_move [OF m, of i]) auto
  from GB_at_cells [OF at gbp.cells_put_last [OF c gb_heads_in(4) i] this gbp.foreign_put_last [OF c gb_heads_in(4) _ err_foreign(1)]]
  show ?thesis by (auto simp: gb_data_put_send_def)
qed

lemma ack_law:
  assumes at: "GB_at s L H R"
  defines "L' \<equiv> (if L GB_trans_lst = [] then L else moved L GB_trans_lst GB_free_lst)"
  shows "\<exists>h. gb_data_ack_pack s = s\<lparr>gb_cells := h\<rparr> \<and> GB_at (s\<lparr>gb_cells := h\<rparr>) L' H R"
proof -
  note c = GB_at_parts(1) [OF at] and m = GB_at_parts(2) [OF at]
  show ?thesis
  proof (cases "L GB_trans_lst")
    case Nil
    then show ?thesis using at
      by (intro exI [of _ "gb_cells s"]) (simp add: gb_data_ack_pack_def gbp.cells_get_first [OF c] L'_def)
  next
    case (Cons i "is")
    have i: "i < 2000" using cells_at_less [OF c, of i GB_trans_lst] Cons by simp
    then have "length (pk_data (gb_datamem s ! i)) = 1024" "place_ok GB_free_lst (gb_datamem s ! i)"
      using m by (simp_all add: mem_ok_def place_ok_def)
    note mo = mem_ok_moved [OF c m gb_heads_in(4) Cons this, unfolded list_update_id]
    note mv = gbp.moved_cells [OF c gb_heads_in(4) Cons gb_heads_in(1)]
    have L': "L' = moved L GB_trans_lst GB_free_lst" by (simp add: L'_def Cons)
    have "GB_at (s\<lparr>gb_cells := list_insert_before (list_delete (gb_cells s) (GB_datamem i)) GB_free_lst (GB_datamem i)\<rparr>) L' H R"
      unfolding L' by (rule GB_at_cells [OF at mv(1) mo]) (rule mv(2) [OF _ err_foreign(1)])
    then show ?thesis by (auto simp: gb_data_ack_pack_def gbp.cells_get_first [OF c] Cons)
  qed
qed

section \<open>After a new login\<close>

text \<open>The packs that were sent and not acknowledged go back to the front of the list they came from, the
  last one first.\<close>

definition unsent :: "gb_pack_t list \<Rightarrow> (gb_cell \<Rightarrow> nat list) \<Rightarrow> (gb_cell \<Rightarrow> nat list)" where
  "unsent m L = L(GB_trans_lst := [],
     GB_realtm_lst := [i \<leftarrow> L GB_trans_lst. pk_list (m ! i) = GB_realtm_lst] @ L GB_realtm_lst,
     GB_delay_lst := [i \<leftarrow> L GB_trans_lst. pk_list (m ! i) = GB_delay_lst] @ L GB_delay_lst)"

lemma flush_sending_law:
  assumes "GB_at s L H R"
  shows "\<exists>h. gb_data_flush_sending s = Some (s\<lparr>gb_cells := h\<rparr>) \<and> GB_at (s\<lparr>gb_cells := h\<rparr>) (unsent (gb_datamem s) L) H R"
  using assms
proof (induction "L GB_trans_lst" arbitrary: s L rule: rev_induct)
  case Nil
  then have "list_get_last (gb_cells s) GB_trans_lst = (None, gb_cells s)"
    using gbp.cells_get_last [OF GB_at_parts(1) [OF Nil(2)]] by simp
  moreover have "unsent (gb_datamem s) L = L" using Nil(1) by (auto simp: unsent_def)
  ultimately show ?case using Nil(2) by (intro exI [of _ "gb_cells s"]) (simp add: gb_data_flush_sending.simps)
next
  case (snoc i "is")
  note at = snoc(3)
  note c = GB_at_parts(1) [OF at]
  let ?a = "pk_list (gb_datamem s ! i)" and ?h = "list_delete (gb_cells s) (GB_datamem i)"
  have L: "L GB_trans_lst = is @ i # []" using snoc(2) by simp
  have g: "list_get_last (gb_cells s) GB_trans_lst = (Some (GB_datamem i), ?h)"
    using gbp.cells_get_last [OF c gb_heads_in(4)] L by simp
  have i: "i \<notin> H" using cells_at_apart [OF c gb_heads_in(4), of i] L by simp
  let ?L1 = "L(GB_trans_lst := is)" let ?L2 = "?L1(?a := i # ?L1 ?a)"
  from take_law [OF at gb_heads_in(4) L] have at1: "GB_at (s\<lparr>gb_cells := ?h\<rparr>) ?L1 (insert i H) R" by simp
  have e: "insert i H - {i} = H" using i by auto
  from pk_put_back_law [OF at1 insertI1] obtain h2 where h2:
    "gb_data_put_back (s\<lparr>gb_cells := ?h\<rparr>) (GB_datamem i) = s\<lparr>gb_cells := h2\<rparr>"
    "GB_at (s\<lparr>gb_cells := h2\<rparr>) ?L2 H R" "?a \<in> {GB_realtm_lst, GB_delay_lst}" unfolding e by auto
  have "is = ?L2 GB_trans_lst" using h2(3) by auto
  from snoc(1) [OF this h2(2)] obtain h3 where h3:
    "gb_data_flush_sending (s\<lparr>gb_cells := h2\<rparr>) = Some (s\<lparr>gb_cells := h3\<rparr>)"
    "GB_at (s\<lparr>gb_cells := h3\<rparr>) (unsent (gb_datamem s) ?L2) H R" by auto
  have "unsent (gb_datamem s) ?L2 = unsent (gb_datamem s) L"
    using h2(3) L by (auto simp: unsent_def fun_eq_iff)
  moreover have "gb_data_flush_sending s = gb_data_flush_sending (s\<lparr>gb_cells := h2\<rparr>)"
    using g h2(1) by (subst gb_data_flush_sending.simps) (simp add: gb_data_put_back_def)
  ultimately show ?case using h3 by auto
qed

text \<open>All real-time packs become delayed ones.\<close>

definition delayed :: "gb_pack_t \<Rightarrow> gb_pack_t" where
  "delayed p = p\<lparr>pk_list := GB_delay_lst, pk_type := GB_RPTTYPE_DELAY\<rparr>"

definition all_delayed :: "(gb_cell \<Rightarrow> nat list) \<Rightarrow> (gb_cell \<Rightarrow> nat list)" where
  "all_delayed L = L(GB_realtm_lst := [], GB_delay_lst := L GB_delay_lst @ L GB_realtm_lst)"

definition delay_mem :: "gb_pack_t list \<Rightarrow> nat list \<Rightarrow> gb_pack_t list" where
  "delay_mem m is = fold (\<lambda>i m. m[i := delayed (m ! i)]) is m"

lemma delayed_ok: "pack_ok p \<Longrightarrow> place_ok GB_delay_lst (delayed p) \<and> place_ok GB_tmplst (delayed p)"
  by (auto simp: delayed_def place_ok_def pack_ok_def)

lemma flush_realtm_law:
  assumes "GB_at s L H R"
  shows "\<exists>h. let s' = s\<lparr>gb_datamem := delay_mem (gb_datamem s) (L GB_realtm_lst), gb_cells := h\<rparr>
    in gb_data_flush_realtm s = Some s' \<and> GB_at s' (all_delayed L) H R"
  using assms
proof (induction "L GB_realtm_lst" arbitrary: s L)
  case Nil
  then have "list_get_first (gb_cells s) GB_realtm_lst = (None, gb_cells s)"
    using gbp.cells_get_first [OF GB_at_parts(1) [OF Nil(2)] gb_heads_in(2)] by simp
  moreover have "all_delayed L = L" using Nil(1) by (auto simp: all_delayed_def)
  ultimately show ?case using Nil by (intro exI [of _ "gb_cells s"]) (simp add: gb_data_flush_realtm.simps delay_mem_def)
next
  case (Cons i "is")
  note at = Cons(3) and L = Cons(2)[symmetric]
  note c = GB_at_parts(1) [OF at] and m = GB_at_parts(2) [OF at] and r = GB_at_parts(3) [OF at]
  let ?p = "delayed (gb_datamem s ! i)" and ?L = "moved L GB_realtm_lst GB_delay_lst"
  let ?h = "list_insert_before (list_delete (gb_cells s) (GB_datamem i)) GB_delay_lst (GB_datamem i)"
  let ?s = "s\<lparr>gb_datamem := (gb_datamem s)[i := ?p], gb_cells := ?h\<rparr>"
  have i: "i < 2000" using cells_at_less [OF c, of i GB_realtm_lst] L by simp
  have p: "length (pk_data ?p) = 1024" "place_ok GB_delay_lst ?p"
    using m i L delayed_ok [of "gb_datamem s ! i"] by (auto simp: mem_ok_def delayed_def place_ok_def)
  note mv = gbp.moved_cells [OF c gb_heads_in(2) L gb_heads_in(3)]
  have "ring_at (s\<lparr>gb_cells := ?h\<rparr>) R" by (rule ring_cells [OF r mv(2)]) (assumption | rule err_foreign)+
  then have "ring_at ?s R" by (subst ring_cong [of _ "s\<lparr>gb_cells := ?h\<rparr>"]) simp_all
  with mv(1) mem_ok_moved [OF c m gb_heads_in(2) L p] have at': "GB_at ?s ?L H R" by (simp add: GB_at_def)
  have L': "?L GB_realtm_lst = is" "all_delayed ?L = all_delayed L"
    using L by (auto simp: moved_def all_delayed_def Let_def fun_eq_iff)
  from Cons(1) [OF L'(1)[symmetric] at'] obtain h2 where
    "let s' = ?s\<lparr>gb_datamem := delay_mem ((gb_datamem s)[i := ?p]) is, gb_cells := h2\<rparr>
     in gb_data_flush_realtm ?s = Some s' \<and> GB_at s' (all_delayed L) H R" using L' by auto
  moreover have "gb_data_flush_realtm s = gb_data_flush_realtm ?s"
    using gbp.cells_get_first [OF c gb_heads_in(2)] L
    by (subst gb_data_flush_realtm.simps) (simp add: delayed_def)
  ultimately show ?case using L by (intro exI [of _ h2]) (simp add: delay_mem_def)
qed

section \<open>The ring of the last reports\<close>

lemma ring_head:
  assumes "ring_at s (r # rs)"
  shows "gb_errlst_head s = Some (GB_errmem r)" "dll (gb_cells s) (GB_errmem r) (map GB_errmem rs)"
    "\<forall>q\<in>set (r # rs). q < length (gb_errmem s) \<and> length (pk_data (gb_errmem s ! q)) = 1024 \<and> pk_len (gb_errmem s ! q) \<le> 1024"
    "lprev (gb_cells s) (GB_errmem r) = GB_errmem (last (r # rs))"
    "lnext (gb_cells s) (GB_errmem r) = GB_errmem (hd (rs @ [r]))"
    "distinct (r # rs)" "sorted_wrt (\<lambda>q r. pk_len (gb_errmem s ! q) \<noteq> 0 \<longrightarrow> pk_len (gb_errmem s ! r) \<noteq> 0) (r # rs)"
proof -
  show "sorted_wrt (\<lambda>q r. pk_len (gb_errmem s ! q) \<noteq> 0 \<longrightarrow> pk_len (gb_errmem s ! r) \<noteq> 0) (r # rs)"
    using assms by (simp add: ring_at_def)
  show 1: "gb_errlst_head s = Some (GB_errmem r)" "dll (gb_cells s) (GB_errmem r) (map GB_errmem rs)"
    "\<forall>q\<in>set (r # rs). q < length (gb_errmem s) \<and> length (pk_data (gb_errmem s ! q)) = 1024 \<and> pk_len (gb_errmem s ! q) \<le> 1024"
    using assms by (simp_all add: ring_at_def)
  show "lprev (gb_cells s) (GB_errmem r) = GB_errmem (last (r # rs))" using dll_prev [OF 1(2)] by (simp add: last_map)
  show "lnext (gb_cells s) (GB_errmem r) = GB_errmem (hd (rs @ [r]))" using dll_next [OF 1(2)] by (cases rs) simp_all
  show "distinct (r # rs)" using 1(2) by (auto simp: dll_def distinct_map)
qed

text \<open>The next report of the ring overwrites the oldest one.\<close>

definition ring_saved :: "gb_pool_t \<Rightarrow> nat \<Rightarrow> bytes \<Rightarrow> gb_pack_t list" where
  "ring_saved s r rep = (gb_errmem s)[r := (fill_pack (gb_errmem s ! r) rep)\<lparr>pk_seq := 1\<rparr>]"

text \<open>Moving the written pack to the end, or the emptied one to the front, keeps the order of the ring.\<close>

lemma sorted_wrt_last:
  assumes "sorted_wrt (\<lambda>q r. P q \<longrightarrow> P r) rs" "\<forall>q\<in>set rs. Q q = P q" "Q r"
  shows "sorted_wrt (\<lambda>q r. Q q \<longrightarrow> Q r) (rs @ [r])"
proof -
  have "sorted_wrt (\<lambda>q r. Q q \<longrightarrow> Q r) rs"
    by (rule sorted_wrt_mono_rel [OF _ assms(1)]) (use assms(2) in auto)
  with assms(3) show ?thesis by (simp add: sorted_wrt_append)
qed

lemma sorted_wrt_first:
  assumes "sorted_wrt (\<lambda>q r. P q \<longrightarrow> P r) rs" "\<forall>q\<in>set rs. Q q = P q" "\<not> Q r"
  shows "sorted_wrt (\<lambda>q r. Q q \<longrightarrow> Q r) (r # rs)"
proof -
  have "sorted_wrt (\<lambda>q r. Q q \<longrightarrow> Q r) rs"
    by (rule sorted_wrt_mono_rel [OF _ assms(1)]) (use assms(2) in auto)
  with assms(3) show ?thesis by simp
qed

lemma of_nat_0_1024: "n \<noteq> 0 \<Longrightarrow> n \<le> 1024 \<Longrightarrow> (of_nat n :: u32) \<noteq> 0"
  by (simp add: word_unat_eq_iff unat_of_nat)

lemma save_error_law:
  assumes at: "GB_at s L H (r # rs)" and rep: "rep \<noteq> []" "length rep \<le> 1024"
  defines "s' \<equiv> s\<lparr>gb_errmem := ring_saved s r rep, gb_errlst_head := Some (GB_errmem (hd (rs @ [r])))\<rparr>"
  shows "gb_data_save_error s rep = Some s'" "GB_at s' L H (rs @ [r])"
proof -
  note h = ring_head [OF GB_at_parts(3) [OF at]]
  show "gb_data_save_error s rep = Some s'"
    using h(1,5) by (simp add: gb_data_save_error_def GROUP_SIZE_def save_error_one_def s'_def ring_saved_def)
  have "length (pk_data (fill_pack (gb_errmem s ! r) rep)) = 1024 \<and> pk_len (fill_pack (gb_errmem s ! r) rep) \<le> 1024"
    using h(3) rep of_nat_le_1024 [OF rep(2)] by (simp add: fill_pack_def)
  then have "\<forall>q\<in>set (rs @ [r]). q < length (ring_saved s r rep) \<and> length (pk_data (ring_saved s r rep ! q)) = 1024
      \<and> pk_len (ring_saved s r rep ! q) \<le> 1024"
    using h(3) by (auto simp: ring_saved_def nth_list_update)
  moreover have "case rs @ [r] of [] \<Rightarrow> True | q # qs \<Rightarrow> dll (gb_cells s) (GB_errmem q) (map GB_errmem qs)"
    using dll_rotate [of "gb_cells s" "GB_errmem r"] h(2) by (cases rs) auto
  moreover have "sorted_wrt (\<lambda>q r'. pk_len (ring_saved s r rep ! q) \<noteq> 0 \<longrightarrow> pk_len (ring_saved s r rep ! r') \<noteq> 0) (rs @ [r])"
  proof (rule sorted_wrt_last)
    show "sorted_wrt (\<lambda>q r. pk_len (gb_errmem s ! q) \<noteq> 0 \<longrightarrow> pk_len (gb_errmem s ! r) \<noteq> 0) rs" using h(7) by simp
    show "\<forall>q\<in>set rs. (pk_len (ring_saved s r rep ! q) \<noteq> 0) = (pk_len (gb_errmem s ! q) \<noteq> 0)"
      using h(6) unfolding ring_saved_def by (metis distinct.simps(2) nth_list_update_neq)
    show "pk_len (ring_saved s r rep ! r) \<noteq> 0"
      using h(3) of_nat_0_1024 [of "length rep"] rep by (simp add: ring_saved_def fill_pack_def)
  qed
  ultimately have "ring_at s' (rs @ [r])" by (cases rs) (auto simp: ring_at_def s'_def)
  with GB_at_parts(1,2) [OF at] show "GB_at s' L H (rs @ [r])" by (simp add: GB_at_def s'_def)
qed

text \<open>A fault empties the ring backwards. \<open>TMP_at\<close> is the state while the packs are collected on the local
  list.\<close>

definition TMP_at :: "gb_pool_t \<Rightarrow> (gb_cell \<Rightarrow> nat list) \<Rightarrow> nat set \<Rightarrow> nat list \<Rightarrow> bool" where
  "TMP_at s L H R \<longleftrightarrow> cells_at gb_heads_tmp GB_datamem 2000 (gb_cells s) L H
     \<and> mem_ok gb_heads_tmp (gb_datamem s) L H \<and> ring_at s R"

lemma insert_after_fresh:
  "n \<noteq> l \<Longrightarrow> list_insert_after (set_prev (set_next h n x) n y) l n = list_insert_after h l n"
  by (simp add: list_insert_after_def set_next_def set_prev_def Let_def fun_upd_twist)

definition grabbed :: "(gb_cell \<Rightarrow> nat list) \<Rightarrow> gb_cell \<Rightarrow> (gb_cell \<Rightarrow> nat list)" where
  "grabbed L a = L(a := tl (L a), GB_tmplst := hd (L a) # L GB_tmplst)"

lemma flush_one_law:
  assumes at: "TMP_at s L H (q # qs)" and R: "q # qs = xs @ [e]" and a: "take_from L = Some a"
  defines "i \<equiv> hd (L a)"
  defines "s' \<equiv> flush_error_one s (GB_datamem i) (list_delete (gb_cells s) (GB_datamem i)) (GB_errmem e)"
  shows "\<exists>h. s' = s\<lparr>gb_cells := h, gb_errlst_head := Some (GB_errmem e),
        gb_datamem := (gb_datamem s)[i := delayed (gb_errmem s ! e)], gb_errmem := (gb_errmem s)[e := (gb_errmem s ! e)\<lparr>pk_len := 0\<rparr>]\<rparr>"
    "TMP_at s' (grabbed L a) H (e # xs)"
proof -
  have c: "cells_at gb_heads_tmp GB_datamem 2000 (gb_cells s) L H" and m: "mem_ok gb_heads_tmp (gb_datamem s) L H"
    and r: "ring_at s (q # qs)" using at by (simp_all add: TMP_at_def)
  note hd = ring_head [OF r]
  from a obtain "is" where L: "L a = i # is" "a \<in> gb_heads" by (cases rule: take_from_cases) (auto simp: i_def)
  then have ah: "a \<in> gb_heads_tmp" "a \<noteq> GB_tmplst" by auto
  have i: "i < 2000" "i \<notin> H" using cells_at_less [OF c, of i a] cells_at_apart [OF c ah(1), of i] L ah by simp_all
  have e: "e < length (gb_errmem s)" "pack_ok (delayed (gb_errmem s ! e))" "length (pk_data (delayed (gb_errmem s ! e))) = 1024"
    using hd(3) unfolding R by (auto simp: pack_ok_def delayed_def)
  let ?h = "list_delete (gb_cells s) (GB_datamem i)"
  let ?h' = "list_insert_after ?h GB_tmplst (GB_datamem i)"
  have il: "i < length (gb_datamem s)" using m i by (simp add: mem_ok_def)
  have s': "s' = s\<lparr>gb_cells := ?h', gb_errlst_head := Some (GB_errmem e),
        gb_datamem := (gb_datamem s)[i := delayed (gb_errmem s ! e)], gb_errmem := (gb_errmem s)[e := (gb_errmem s ! e)\<lparr>pk_len := 0\<rparr>]\<rparr>"
    unfolding s'_def flush_error_one_def copy_pack_def Let_def
    using il e(1) by (simp add: insert_after_fresh delayed_def)
  then show "\<exists>h. s' = s\<lparr>gb_cells := h, gb_errlst_head := Some (GB_errmem e),
        gb_datamem := (gb_datamem s)[i := delayed (gb_errmem s ! e)], gb_errmem := (gb_errmem s)[e := (gb_errmem s ! e)\<lparr>pk_len := 0\<rparr>]\<rparr>"
    by blast
  have c1: "cells_at gb_heads_tmp GB_datamem 2000 ?h (L(a := is)) (insert i H)" by (rule gbt.cells_take [OF c ah(1) L(1)])
  have eL: "grabbed L a = (L(a := is))(GB_tmplst := i # (L(a := is)) GB_tmplst)" using ah(2) L(1) by (simp add: grabbed_def)
  have c2: "cells_at gb_heads_tmp GB_datamem 2000 ?h' (grabbed L a) H"
    using gbt.cells_put_first [OF c1 gb_heads_in(6), of i] i(2) unfolding eL by simp
  have here: "i \<notin> set (L b)" if "b \<in> gb_heads_tmp" "b \<noteq> a" for b using cells_at_one [OF c ah(1) that(1), of i] that L(1) by auto
  have "place_ok GB_tmplst (delayed (gb_errmem s ! e))" using e(2) by (auto simp: place_ok_def delayed_def)
  moreover have "i \<notin> set is" using cells_at_distinct [OF c ah(1)] L(1) by simp
  ultimately have m2: "mem_ok gb_heads_tmp ((gb_datamem s)[i := delayed (gb_errmem s ! e)]) (grabbed L a) H"
    using here L ah i(2) by (intro mem_ok_upd [OF m i(1) e(3)]) (auto simp: eL)
  have "dll ?h (GB_errmem q) (map GB_errmem qs)"
    by (rule gbt.foreign_take [OF c ah(1) _ hd(2) err_foreign(2), of "[]" i "is"]) (simp add: L(1))
  then have d: "dll ?h' (GB_errmem q) (map GB_errmem qs)"
    by (rule gbt.foreign_put_first [OF c1 gb_heads_in(6) _ err_foreign(2)])
  have d': "dll ?h' (GB_errmem e) (map GB_errmem xs)"
  proof (cases xs)
    case Nil
    with d R show ?thesis by simp
  next
    case (Cons x xs')
    then have "map GB_errmem qs = map GB_errmem xs' @ [GB_errmem e]" "q = x" using R by simp_all
    with d dll_rotate_back [of ?h' "GB_errmem q" "map GB_errmem xs'" "GB_errmem e"] Cons show ?thesis by simp
  qed
  let ?em = "(gb_errmem s)[e := (gb_errmem s ! e)\<lparr>pk_len := 0\<rparr>]"
  have "r < length ?em \<and> length (pk_data (?em ! r)) = 1024 \<and> pk_len (?em ! r) \<le> 1024" if "r \<in> set (e # xs)" for r
  proof -
    have "r \<in> set (q # qs)" "e \<in> set (q # qs)" using that unfolding R by auto
    from bspec [OF hd(3) this(1)] bspec [OF hd(3) this(2)] show ?thesis by (cases "r = e") simp_all
  qed
  moreover have "sorted_wrt (\<lambda>q r. pk_len (?em ! q) \<noteq> 0 \<longrightarrow> pk_len (?em ! r) \<noteq> 0) (e # xs)"
  proof (rule sorted_wrt_first)
    show "sorted_wrt (\<lambda>q r. pk_len (gb_errmem s ! q) \<noteq> 0 \<longrightarrow> pk_len (gb_errmem s ! r) \<noteq> 0) xs"
      using hd(7) unfolding R by (simp add: sorted_wrt_append)
    show "\<forall>q\<in>set xs. (pk_len (?em ! q) \<noteq> 0) = (pk_len (gb_errmem s ! q) \<noteq> 0)"
      using hd(6) unfolding R by (metis distinct_append not_distinct_conv_prefix nth_list_update_neq)
    show "\<not> pk_len (?em ! e) \<noteq> 0" using e(1) by simp
  qed
  ultimately have "ring_at s' (e # xs)" using d' unfolding s' ring_at_def by simp
  with c2 m2 show "TMP_at s' (grabbed L a) H (e # xs)" by (simp add: TMP_at_def s')
qed

text \<open>The whole loop. \<open>ds\<close> are the reports of the ring, the oldest first; the packs for them are the free ones,
  then the oldest delayed ones, then the oldest waiting ones.\<close>

definition grab_lists :: "(gb_cell \<Rightarrow> nat list) \<Rightarrow> nat \<Rightarrow> nat list \<Rightarrow> (gb_cell \<Rightarrow> nat list)" where
  "grab_lists L n xs =
     (let f = length (L GB_free_lst); d = length (L GB_delay_lst)
      in L(GB_free_lst := drop n (L GB_free_lst), GB_delay_lst := drop (n - f) (L GB_delay_lst),
           GB_realtm_lst := drop (n - f - d) (L GB_realtm_lst), GB_tmplst := xs @ L GB_tmplst))"

lemma grab_lists_0: "grab_lists L 0 [] = L"
  by (auto simp: grab_lists_def Let_def)

lemma grab_lists_step:
  assumes "take_from L = Some a"
  shows "grab_lists (grabbed L a) n xs = grab_lists L (Suc n) (xs @ [hd (L a)])"
proof -
  from assms obtain i "is" where "L a = i # is" by (cases rule: take_from_cases)
  with assms show ?thesis
    by (auto simp: take_from_def grab_lists_def grabbed_def Let_def fun_eq_iff drop_Suc split: if_splits)
qed

lemma nonempty_rooms: "take_from L = None \<longleftrightarrow> length (L GB_free_lst) + length (L GB_delay_lst) + length (L GB_realtm_lst) = 0"
  by (auto simp: take_from_def)

definition emptied :: "gb_pack_t list \<Rightarrow> nat list \<Rightarrow> gb_pack_t list" where
  "emptied m ds = foldr (\<lambda>e m. m[e := (m ! e)\<lparr>pk_len := 0\<rparr>]) ds m"

lemma emptied_nth:
  "e < length m \<Longrightarrow> emptied m ds ! e = (if e \<in> set ds then (m ! e)\<lparr>pk_len := 0\<rparr> else m ! e)"
  "length (emptied m ds) = length m"
proof (induction ds)
  case Nil
  { case 1 show ?case by (simp add: emptied_def) next case 2 show ?case by (simp add: emptied_def) }
next
  case (Cons d ds)
  have s: "emptied m (d # ds) = (emptied m ds)[d := (emptied m ds ! d)\<lparr>pk_len := 0\<rparr>]" by (simp add: emptied_def)
  { case 1 with Cons show ?case unfolding s by (cases "e = d") (simp_all add: nth_list_update)
  next case 2 show ?case unfolding s using Cons(2) by simp }
qed

definition flushed :: "gb_pool_t \<Rightarrow> gb_cell cells \<Rightarrow> gb_pack_t list \<Rightarrow> nat list \<Rightarrow> nat list \<Rightarrow> gb_pool_t" where
  "flushed s h m ds rest = s\<lparr>gb_cells := h, gb_datamem := m, gb_errmem := emptied (gb_errmem s) ds,
     gb_errlst_head := Some (GB_errmem (hd (ds @ rest)))\<rparr>"

lemma emptied_snoc: "emptied m (ds @ [e]) = emptied (m[e := (m ! e)\<lparr>pk_len := 0\<rparr>]) ds"
  by (simp add: emptied_def)

lemma TMP_at_ring: "TMP_at s L H R \<Longrightarrow> ring_at s R"
  by (simp add: TMP_at_def)

lemma flush_loop_law:
  assumes "TMP_at s L H (rest @ ds)" "rest @ ds \<noteq> []" "\<forall>e\<in>set ds. pk_len (gb_errmem s ! e) \<noteq> 0"
    and "rest \<noteq> [] \<Longrightarrow> pk_len (gb_errmem s ! last rest) = 0"
    and "length ds \<le> length (L GB_free_lst) + length (L GB_delay_lst) + length (L GB_realtm_lst)"
  shows "\<exists>h m ids. flush_error_loop s (GB_errmem (hd (rest @ ds))) = Some (flushed s h m ds rest)
     \<and> TMP_at (flushed s h m ds rest) (grab_lists L (length ds) ids) H (ds @ rest)
     \<and> map ((!) m) ids = map (\<lambda>e. delayed (gb_errmem s ! e)) ds \<and> (\<forall>i. i \<notin> set ids \<longrightarrow> m ! i = gb_datamem s ! i)"
  using assms
proof (induction ds arbitrary: s L rest rule: rev_induct)
  case Nil
  then obtain r rs where r: "rest = r # rs" by (cases rest) auto
  note hd = ring_head [OF TMP_at_ring [OF Nil(1), unfolded r append_Nil2]]
  have "flush_error_loop s (GB_errmem r) = Some s"
    using hd(4) Nil(4) by (subst flush_error_loop.simps) (simp add: r split: if_splits)
  moreover have "flushed s (gb_cells s) (gb_datamem s) [] rest = s" using hd(1) by (simp add: flushed_def emptied_def r)
  ultimately show ?case using Nil(1) r
    by (intro exI [of _ "gb_cells s"] exI [of _ "gb_datamem s"] exI [of _ "[]"]) (simp add: grab_lists_0)
next
  case (snoc e ds)
  obtain q qs where q: "rest @ ds @ [e] = q # qs" by (cases "rest @ ds @ [e]") auto
  have R: "q # qs = (rest @ ds) @ [e]" using q by simp
  have at: "TMP_at s L H (q # qs)" using snoc(2) q by simp
  note hd = ring_head [OF TMP_at_ring [OF at]]
  have last: "last (q # qs) = e" by (simp only: R last_snoc)
  obtain a where a: "take_from L = Some a" using snoc(6) nonempty_rooms [of L] by (cases "take_from L") auto
  let ?i = "hd (L a)"
  let ?s1 = "flush_error_one s (GB_datamem ?i) (list_delete (gb_cells s) (GB_datamem ?i)) (GB_errmem e)"
  from flush_one_law [OF at R a] obtain h1 where s1:
    "?s1 = s\<lparr>gb_cells := h1, gb_errlst_head := Some (GB_errmem e),
        gb_datamem := (gb_datamem s)[?i := delayed (gb_errmem s ! e)], gb_errmem := (gb_errmem s)[e := (gb_errmem s ! e)\<lparr>pk_len := 0\<rparr>]\<rparr>"
    "TMP_at ?s1 (grabbed L a) H (e # rest @ ds)" by auto
  have c: "cells_at gb_heads_tmp GB_datamem 2000 (gb_cells s) L H" using at by (simp add: TMP_at_def)
  have el: "e < length (gb_errmem s)" and d: "e \<notin> set rest" "e \<notin> set ds" using hd(3,6) unfolding R by auto
  let ?m1 = "(gb_datamem s)[?i := delayed (gb_errmem s ! e)]"
  from a obtain "is" where L: "L a = ?i # is" "a \<in> gb_heads" by (cases rule: take_from_cases) auto
  from L(2) have am: "a \<in> gb_heads_tmp" by simp
  have "dll (gb_cells s) a (map GB_datamem (L a))" using cells_dll [OF c am] .
  have keep: "lprev (list_delete (gb_cells s) (GB_datamem ?i)) (GB_errmem q) = GB_errmem e"
  proof -
    have "L a = [] @ ?i # is" using L(1) by simp
    from dll_prev [OF gbt.foreign_take [OF c am this hd(2) err_foreign(2)]] last show ?thesis
      by (cases "qs = []") (simp_all add: last_map)
  qed
  have loop: "flush_error_loop s (GB_errmem q) = flush_error_loop ?s1 (GB_errmem e)"
    using hd(4) snoc(4) last keep take_node_law [OF c] a by (subst flush_error_loop.simps) simp
  have other: "gb_errmem ?s1 ! e' = gb_errmem s ! e'" if "e' \<in> set ds" for e'
    using that d(2) s1(1) by (cases "e' = e") simp_all
  have "\<exists>h m ids. flush_error_loop ?s1 (GB_errmem (hd ((e # rest) @ ds))) = Some (flushed ?s1 h m ds (e # rest))
     \<and> TMP_at (flushed ?s1 h m ds (e # rest)) (grab_lists (grabbed L a) (length ds) ids) H (ds @ e # rest)
     \<and> map ((!) m) ids = map (\<lambda>e. delayed (gb_errmem ?s1 ! e)) ds \<and> (\<forall>i. i \<notin> set ids \<longrightarrow> m ! i = gb_datamem ?s1 ! i)"
  proof (rule snoc(1))
    show "TMP_at ?s1 (grabbed L a) H ((e # rest) @ ds)" using s1(2) by simp
    show "\<forall>e'\<in>set ds. pk_len (gb_errmem ?s1 ! e') \<noteq> 0" using snoc(4) other by simp
    show "pk_len (gb_errmem ?s1 ! last (e # rest)) = 0"
    proof (cases rest rule: rev_cases)
      case Nil
      with el s1(1) show ?thesis by simp
    next
      case (snoc ys y)
      with d(1) \<open>rest \<noteq> [] \<Longrightarrow> pk_len (gb_errmem s ! last rest) = 0\<close> s1(1) show ?thesis by simp
    qed
    show "length ds \<le> length (grabbed L a GB_free_lst) + length (grabbed L a GB_delay_lst) + length (grabbed L a GB_realtm_lst)"
      using snoc(6) L a by (auto simp: grabbed_def take_from_def split: if_splits)
  qed simp
  then obtain h m ids where r: "flush_error_loop ?s1 (GB_errmem e) = Some (flushed ?s1 h m ds (e # rest))"
    "TMP_at (flushed ?s1 h m ds (e # rest)) (grab_lists (grabbed L a) (length ds) ids) H (ds @ e # rest)"
    "map ((!) m) ids = map (\<lambda>e. delayed (gb_errmem ?s1 ! e)) ds" "\<forall>i. i \<notin> set ids \<longrightarrow> m ! i = gb_datamem ?s1 ! i"
    by auto
  have f: "flushed ?s1 h m ds (e # rest) = flushed s h m (ds @ [e]) rest"
    unfolding s1(1) by (simp add: flushed_def emptied_snoc)
  have g: "grab_lists (grabbed L a) (length ds) ids = grab_lists L (length (ds @ [e])) (ids @ [?i])"
    by (simp add: grab_lists_step [OF a])
  have "cells_at gb_heads_tmp GB_datamem 2000 h (grab_lists L (length (ds @ [e])) (ids @ [?i])) H"
    using r(2) unfolding f g by (simp add: TMP_at_def flushed_def)
  from cells_at_distinct [OF this gb_heads_in(6)] have "?i \<notin> set ids" by (simp add: grab_lists_def Let_def)
  moreover have "?i \<in> set (L a)" by (subst L(1)) simp
  then have "?i < length (gb_datamem s)"
    using cells_at_less [OF c, of ?i a] am at by (simp add: TMP_at_def mem_ok_def)
  ultimately have mi: "m ! ?i = delayed (gb_errmem s ! e)" using r(4) s1(1) by simp
  have "map (\<lambda>e. delayed (gb_errmem ?s1 ! e)) ds = map (\<lambda>e. delayed (gb_errmem s ! e)) ds"
    using other by simp
  then have ids: "map ((!) m) (ids @ [?i]) = map (\<lambda>e. delayed (gb_errmem s ! e)) (ds @ [e])" using r(3) mi by simp
  have others: "\<forall>i. i \<notin> set (ids @ [?i]) \<longrightarrow> m ! i = gb_datamem s ! i" using r(4) s1(1) by simp
  have "hd (rest @ ds @ [e]) = q" using q by simp
  then show ?case using loop r(1,2) ids others unfolding f g
    by (intro exI [of _ h] exI [of _ m] exI [of _ "ids @ [?i]"]) simp
qed

text \<open>The local list is opened and its packs are spliced behind the delayed ones.\<close>

lemma TMP_open:
  assumes at: "GB_at s L H R"
  shows "TMP_at (s\<lparr>gb_cells := list_init (gb_cells s) GB_tmplst\<rparr>) (L(GB_tmplst := [])) H R"
proof -
  note c = GB_at_parts(1) [OF at] and m = GB_at_parts(2) [OF at] and r = GB_at_parts(3) [OF at]
  let ?h = "list_init (gb_cells s) GB_tmplst" and ?L = "L(GB_tmplst := [])"
  have "dll ?h a (map GB_datamem (L a))" if "a \<in> gb_heads" for a
    by (rule dll_frame_init [OF cells_dll [OF c that]]) (use that in auto)
  then have "lists_at gb_heads_tmp GB_datamem ?h ?L"
    using dll_init [of "gb_cells s" GB_tmplst] by (auto simp: lists_at_def gb_heads_tmp_def)
  moreover have "placed gb_heads_tmp 2000 ?L H"
    using c unfolding gb_heads_tmp_def by (intro placed_open) (simp_all add: cells_at_def)
  moreover have "mem_ok gb_heads_tmp (gb_datamem s) ?L H" using m by (auto simp: mem_ok_def gb_heads_tmp_def)
  moreover have "ring_at (s\<lparr>gb_cells := ?h\<rparr>) R" by (rule ring_cells [OF r], rule dll_frame_init) auto
  ultimately show ?thesis by (simp add: TMP_at_def cells_at_def)
qed

lemma TMP_close:
  assumes at: "TMP_at s L H R"
  defines "L' \<equiv> L(GB_tmplst := [], GB_delay_lst := L GB_delay_lst @ L GB_tmplst)"
  shows "\<exists>h. (if list_empty (gb_cells s) GB_tmplst then s else s\<lparr>gb_cells := splice_delay (gb_cells s)\<rparr>) = s\<lparr>gb_cells := h\<rparr>
    \<and> GB_at (s\<lparr>gb_cells := h\<rparr>) L' H R"
proof -
  have c: "cells_at gb_heads_tmp GB_datamem 2000 (gb_cells s) L H" and m: "mem_ok gb_heads_tmp (gb_datamem s) L H"
    and r: "ring_at s R" using at by (simp_all add: TMP_at_def)
  have placed: "placed gb_heads 2000 L' H"
    using c unfolding gb_heads_tmp_def L'_def by (intro placed_merge) (simp_all add: cells_at_def)
  have mem: "mem_ok gb_heads (gb_datamem s) L' H"
    using m by (auto simp: mem_ok_def L'_def gb_heads_tmp_def place_ok_def)
  show ?thesis
  proof (cases "L GB_tmplst")
    case Nil
    then have "L' = L" by (auto simp: L'_def)
    then have "GB_at s L' H R" using placed mem r c by (auto simp: GB_at_def cells_at_def lists_at_def)
    then show ?thesis using gbt.cells_empty [OF c gb_heads_in(6)] Nil
      by (intro exI [of _ "gb_cells s"]) simp
  next
    case (Cons i "is")
    let ?h = "splice_delay (gb_cells s)"
    have t: "dll (gb_cells s) GB_tmplst (GB_datamem i # map GB_datamem is)" using cells_dll [OF c gb_heads_in(6)] Cons by simp
    have y: "dll (gb_cells s) GB_delay_lst (map GB_datamem (L GB_delay_lst))" by (rule cells_dll [OF c]) simp
    have disj: "insert GB_delay_lst (set (map GB_datamem (L GB_delay_lst))) \<inter>
        insert GB_tmplst (set (GB_datamem i # map GB_datamem is)) = {}"
      using cells_at_one [OF c gb_heads_in(6), of GB_delay_lst] Cons by fastforce
    have p: "lprev (gb_cells s) GB_delay_lst = last (GB_delay_lst # map GB_datamem (L GB_delay_lst))"
      "lprev (gb_cells s) GB_tmplst = last (GB_datamem i # map GB_datamem is)" "lnext (gb_cells s) GB_tmplst = GB_datamem i"
      using dll_prev [OF y] dll_prev [OF t] dll_next [OF t] by simp_all
    have ne: "last (GB_datamem i # map GB_datamem is) \<noteq> GB_tmplst" "last (GB_datamem i # map GB_datamem is) \<noteq> GB_delay_lst"
      "last (GB_delay_lst # map GB_datamem (L GB_delay_lst)) \<noteq> GB_tmplst"
      by (auto simp: last_map)
    have h: "?h = set_prev (set_next (set_next (set_prev (gb_cells s) (GB_datamem i) (last (GB_delay_lst # map GB_datamem (L GB_delay_lst))))
        (last (GB_delay_lst # map GB_datamem (L GB_delay_lst))) (GB_datamem i)) (last (GB_datamem i # map GB_datamem is)) GB_delay_lst)
        GB_delay_lst (last (GB_datamem i # map GB_datamem is))"
      using ne p by (simp add: splice_delay_def Let_def del: last.simps)
    note sp = dll_splice [OF y t disj, folded h]
    have "dll ?h a (map GB_datamem (L' a))" if a: "a \<in> gb_heads" for a
    proof (cases "a = GB_delay_lst")
      case True
      with sp(1) Cons show ?thesis by (simp add: L'_def)
    next
      case False
      have pl: "placed gb_heads_tmp 2000 L H" using c by (simp add: cells_at_def)
      have "a \<noteq> GB_tmplst" using a gb_heads_in(5) by blast
      then have "set (L a) \<inter> set (L GB_delay_lst) = {}" "set (L a) \<inter> set (L GB_tmplst) = {}"
        using placed_disjoint [OF pl, of a] a False by simp_all
      then have "insert a (set (map GB_datamem (L a))) \<inter> (insert GB_delay_lst (set (map GB_datamem (L GB_delay_lst)))
          \<union> insert GB_tmplst (set (GB_datamem i # map GB_datamem is))) = {}"
        using a False Cons by auto
      from sp(2) [OF cells_dll [OF c] this] a False show ?thesis by (auto simp: L'_def)
    qed
    then have "cells_at gb_heads GB_datamem 2000 ?h L' H" using placed by (simp add: cells_at_def lists_at_def)
    moreover have "ring_at (s\<lparr>gb_cells := ?h\<rparr>) R" by (rule ring_cells [OF r], rule sp(2)) auto
    ultimately have "GB_at (s\<lparr>gb_cells := ?h\<rparr>) L' H R" using mem by (simp add: GB_at_def)
    then show ?thesis using gbt.cells_empty [OF c gb_heads_in(6)] Cons by auto
  qed
qed

lemma GB_at_cong:
  assumes "GB_at s L H R" "\<forall>a\<in>gb_heads. L' a = L a"
  shows "GB_at s L' H R"
  using assms by (auto simp: GB_at_def cells_at_def lists_at_def placed_def mem_ok_def)

definition after_flush :: "(gb_cell \<Rightarrow> nat list) \<Rightarrow> nat \<Rightarrow> nat list \<Rightarrow> (gb_cell \<Rightarrow> nat list)" where
  "after_flush L n ids =
     (let f = length (L GB_free_lst); d = length (L GB_delay_lst)
      in L(GB_free_lst := drop n (L GB_free_lst), GB_delay_lst := drop (n - f) (L GB_delay_lst) @ ids,
           GB_realtm_lst := drop (n - f - d) (L GB_realtm_lst)))"

lemma flush_error_law:
  assumes at: "GB_at s L H (rest @ ds)" and R: "rest @ ds \<noteq> []"
    and full: "\<forall>e\<in>set ds. pk_len (gb_errmem s ! e) \<noteq> 0" and empty: "\<forall>e\<in>set rest. pk_len (gb_errmem s ! e) = 0"
    and room: "length ds \<le> length (L GB_free_lst) + length (L GB_delay_lst) + length (L GB_realtm_lst)"
  shows "\<exists>h m ids. gb_data_flush_error s = Some (flushed s h m ds rest)
     \<and> GB_at (flushed s h m ds rest) (after_flush L (length ds) ids) H (ds @ rest)
     \<and> map ((!) m) ids = map (\<lambda>e. delayed (gb_errmem s ! e)) ds
     \<and> (\<forall>i. i \<notin> set ids \<longrightarrow> m ! i = gb_datamem s ! i)"
proof -
  let ?s = "s\<lparr>gb_cells := list_init (gb_cells s) GB_tmplst\<rparr>" and ?L = "L(GB_tmplst := [])"
  note opened = TMP_open [OF at]
  have hd: "gb_errlst_head s = Some (GB_errmem (hd (rest @ ds)))"
    using GB_at_parts(3) [OF at] R by (cases "rest @ ds") (auto simp: ring_at_def)
  from flush_loop_law [OF opened R] full empty room obtain h m ids where l:
    "flush_error_loop ?s (GB_errmem (hd (rest @ ds))) = Some (flushed ?s h m ds rest)"
    "TMP_at (flushed ?s h m ds rest) (grab_lists ?L (length ds) ids) H (ds @ rest)"
    "map ((!) m) ids = map (\<lambda>e. delayed (gb_errmem s ! e)) ds" "\<forall>i. i \<notin> set ids \<longrightarrow> m ! i = gb_datamem s ! i"
    by auto
  from TMP_close [OF l(2)] obtain h2 where c:
    "(if list_empty (gb_cells (flushed ?s h m ds rest)) GB_tmplst then flushed ?s h m ds rest
      else (flushed ?s h m ds rest)\<lparr>gb_cells := splice_delay (gb_cells (flushed ?s h m ds rest))\<rparr>)
     = (flushed ?s h m ds rest)\<lparr>gb_cells := h2\<rparr>"
    "GB_at ((flushed ?s h m ds rest)\<lparr>gb_cells := h2\<rparr>) ((grab_lists ?L (length ds) ids)
      (GB_tmplst := [], GB_delay_lst := grab_lists ?L (length ds) ids GB_delay_lst @ grab_lists ?L (length ds) ids GB_tmplst)) H (ds @ rest)"
    by auto
  have f: "(flushed ?s h m ds rest)\<lparr>gb_cells := h2\<rparr> = flushed s h2 m ds rest" by (simp add: flushed_def)
  have "gb_data_flush_error s = Some (flushed s h2 m ds rest)"
    using hd l(1) c(1) unfolding f by (simp add: gb_data_flush_error_def Let_def)
  moreover have "GB_at (flushed s h2 m ds rest) (after_flush L (length ds) ids) H (ds @ rest)"
    using c(2) unfolding f
    by (rule GB_at_cong) (auto simp: grab_lists_def after_flush_def Let_def gb_heads_def)
  ultimately show ?thesis using l(3,4) by blast
qed

end
