(* ===== verification/GbReports.thy ===== *)
theory GbReports
  imports GbPool
begin

text \<open>
  What the report pool of \<open>GbPool\<close> does, seen from outside: its lists as lists of reports, the abstract pool
  \<open>gb_abs\<close> and the specifications of the operations on it, the simulation of each operation, the start, the
  proof that the CAN side never runs out of packs, and the properties: what happens to the reports at a new
  login, in quiet times and after a fault.
\<close>

section \<open>What the pool contains\<close>

text \<open>A report is its type and its bytes; the lists and the ring are read along the pointers.\<close>

definition report :: "gb_pack_t \<Rightarrow> u32 \<times> bytes" where
  "report p = (pk_type p, take (unat (pk_len p)) (pk_data p))"

definition gb_reports :: "gb_pool_t \<Rightarrow> gb_cell \<Rightarrow> (u32 \<times> bytes) list" where
  "gb_reports s a = map (\<lambda>c. report (pack_at s c)) (chain (gb_cells s) a (lnext (gb_cells s) a) 2000)"

definition gb_ring :: "gb_pool_t \<Rightarrow> gb_pack_t list" where
  "gb_ring s = (case gb_errlst_head s of None \<Rightarrow> []
     | Some c \<Rightarrow> map (pack_at s) (c # chain (gb_cells s) c (lnext (gb_cells s) c) (length (gb_errmem s))))"

definition kept_packs :: "gb_pack_t list \<Rightarrow> bytes list" where
  "kept_packs ps = map (\<lambda>p. snd (report p)) (filter (\<lambda>p. pk_len p \<noteq> 0) ps)"

definition gb_window :: "gb_pool_t \<Rightarrow> bytes list" where "gb_window s = kept_packs (gb_ring s)"

lemma GB_at_reports:
  assumes "GB_at s L H R" "a \<in> gb_heads"
  shows "gb_reports s a = map (\<lambda>i. report (gb_datamem s ! i)) (L a)"
proof -
  note c = GB_at_parts(1) [OF assms(1)]
  from dll_chain [OF cells_dll [OF c assms(2)], of 2000] cells_at_length [OF c assms(2)]
  show ?thesis by (simp add: gb_reports_def comp_def)
qed

lemma ring_at_ring:
  assumes "ring_at s R"
  shows "gb_ring s = map ((!) (gb_errmem s)) R"
proof (cases R)
  case Nil
  with assms show ?thesis by (simp add: ring_at_def gb_ring_def)
next
  case (Cons r rs)
  note h = ring_head [OF assms [unfolded Cons]]
  have "set rs \<subseteq> {0..<length (gb_errmem s)}" using h(3) by auto
  from card_mono [OF _ this] h(6) have "length rs \<le> length (gb_errmem s)" by (simp add: distinct_card)
  with dll_chain [OF h(2), of "length (gb_errmem s)"] h(1) Cons show ?thesis by (simp add: gb_ring_def comp_def)
qed

definition gb_ctl :: "gb_pool_t \<Rightarrow> bool \<times> bool \<times> u16 \<times> bool \<times> bool \<times> int \<times> int \<times> bool \<times> bool \<times> nat" where
  "gb_ctl s = (gb_emerg s, gb_pendflag s, gb_datintv s, gb_inf s, warntrig s, ticks s, times s, triger s, canact s, counter s)"

text \<open>The abstract pool: the number of free packs, the three lists of reports, the packs in hand and the ring.\<close>

record gb_abs =
  a_free :: nat
  a_realtm :: "(u32 \<times> bytes) list"
  a_delay :: "(u32 \<times> bytes) list"
  a_trans :: "(u32 \<times> bytes) list"
  a_ring :: nat
  a_window :: "bytes list"

definition abs_of :: "gb_pool_t \<Rightarrow> (gb_cell \<Rightarrow> nat list) \<Rightarrow> nat list \<Rightarrow> gb_abs" where
  "abs_of s L R = \<lparr>a_free = length (L GB_free_lst),
     a_realtm = map (\<lambda>i. report (gb_datamem s ! i)) (L GB_realtm_lst),
     a_delay = map (\<lambda>i. report (gb_datamem s ! i)) (L GB_delay_lst),
     a_trans = map (\<lambda>i. report (gb_datamem s ! i)) (L GB_trans_lst),
     a_ring = length R, a_window = kept_packs (map ((!) (gb_errmem s)) R)\<rparr>"

definition gb_abs_of :: "gb_pool_t \<Rightarrow> gb_abs" where
  "gb_abs_of s = \<lparr>a_free = length (gb_reports s GB_free_lst), a_realtm = gb_reports s GB_realtm_lst,
     a_delay = gb_reports s GB_delay_lst, a_trans = gb_reports s GB_trans_lst, a_ring = length (gb_ring s),
     a_window = gb_window s\<rparr>"

definition gb_ok :: "gb_pool_t \<Rightarrow> nat set \<Rightarrow> bool" where
  "gb_ok s H \<longleftrightarrow> (\<exists>L R. GB_at s L H R)"

lemma abs_of_eq: "GB_at s L H R \<Longrightarrow> gb_abs_of s = abs_of s L R"
  by (simp add: gb_abs_of_def abs_of_def GB_at_reports ring_at_ring [OF GB_at_parts(3)] gb_window_def)

section \<open>The operations on the abstract pool\<close>

definition spec_room :: "nat \<Rightarrow> gb_abs \<Rightarrow> gb_abs" where
  "spec_room n A =
     (let f = a_free A; d = length (a_delay A)
      in A\<lparr>a_free := f - n, a_delay := drop (n - f) (a_delay A), a_realtm := drop (n - f - d) (a_realtm A)\<rparr>)"

definition spec_rooms :: "gb_abs \<Rightarrow> nat" where
  "spec_rooms A = a_free A + length (a_delay A) + length (a_realtm A)"

definition spec_save :: "bytes \<Rightarrow> gb_abs \<Rightarrow> gb_abs" where
  "spec_save rep A = (let A = spec_room 1 A in A\<lparr>a_realtm := a_realtm A @ [(2, rep)]\<rparr>)"

definition spec_flush_error :: "gb_abs \<Rightarrow> gb_abs" where
  "spec_flush_error A =
     (let B = spec_room (length (a_window A)) A in B\<lparr>a_delay := a_delay B @ map (Pair 3) (a_window A), a_window := []\<rparr>)"

definition spec_save_error :: "bytes \<Rightarrow> gb_abs \<Rightarrow> gb_abs" where
  "spec_save_error rep A =
     A\<lparr>a_window := (if length (a_window A) < a_ring A then a_window A else tl (a_window A)) @ [rep]\<rparr>"

definition as_delayed :: "u32 \<times> bytes \<Rightarrow> u32 \<times> bytes" where "as_delayed r = (3, snd r)"

definition spec_flush_realtm :: "gb_abs \<Rightarrow> gb_abs" where
  "spec_flush_realtm A = A\<lparr>a_realtm := [], a_delay := a_delay A @ map as_delayed (a_realtm A)\<rparr>"

definition spec_flush_sending :: "gb_abs \<Rightarrow> gb_abs" where
  "spec_flush_sending A = A\<lparr>a_trans := [], a_realtm := filter (\<lambda>r. fst r = 2) (a_trans A) @ a_realtm A,
     a_delay := filter (\<lambda>r. fst r = 3) (a_trans A) @ a_delay A\<rparr>"

definition spec_ack :: "gb_abs \<Rightarrow> gb_abs" where
  "spec_ack A = (if a_trans A = [] then A else A\<lparr>a_trans := tl (a_trans A), a_free := a_free A + 1\<rparr>)"

definition spec_get :: "bool \<Rightarrow> gb_abs \<Rightarrow> ((u32 \<times> bytes) \<times> gb_abs) option" where
  "spec_get emerg A =
     (case a_realtm A of
        r # rs \<Rightarrow> Some (r, A\<lparr>a_realtm := rs\<rparr>)
      | [] \<Rightarrow> (if a_delay A = [] then None
              else if emerg then Some (last (a_delay A), A\<lparr>a_delay := butlast (a_delay A)\<rparr>)
              else Some (hd (a_delay A), A\<lparr>a_delay := tl (a_delay A)\<rparr>)))"

definition spec_put_back :: "u32 \<times> bytes \<Rightarrow> gb_abs \<Rightarrow> gb_abs" where
  "spec_put_back r A = (if fst r = 2 then A\<lparr>a_realtm := r # a_realtm A\<rparr> else A\<lparr>a_delay := r # a_delay A\<rparr>)"

definition spec_put_send :: "u32 \<times> bytes \<Rightarrow> gb_abs \<Rightarrow> gb_abs" where
  "spec_put_send r A = A\<lparr>a_trans := a_trans A @ [r]\<rparr>"

text \<open>\<open>gb_sim s H s' H' A\<close>: the operation led from \<open>s\<close> to a sound state with the contents \<open>A\<close>, left the other
  variables alone and did not touch the packs in hand.\<close>

definition gb_sim :: "gb_pool_t \<Rightarrow> nat set \<Rightarrow> gb_pool_t \<Rightarrow> nat set \<Rightarrow> gb_abs \<Rightarrow> bool" where
  "gb_sim s H s' H' A \<longleftrightarrow> gb_ok s' H' \<and> gb_abs_of s' = A \<and> gb_ctl s' = gb_ctl s
     \<and> (\<forall>i\<in>H. gb_datamem s' ! i = gb_datamem s ! i)"

lemma gb_okE:
  assumes "gb_ok s H"
  obtains L R where "GB_at s L H R" "gb_abs_of s = abs_of s L R"
  using assms abs_of_eq by (auto simp: gb_ok_def)

lemma gb_simI:
  assumes "GB_at s' L H' R" "abs_of s' L R = A" "gb_ctl s' = gb_ctl s" "\<forall>i\<in>H. gb_datamem s' ! i = gb_datamem s ! i"
  shows "gb_sim s H s' H' A"
  using assms abs_of_eq [OF assms(1)] by (auto simp: gb_sim_def gb_ok_def)

lemma room_iff: "take_from L \<noteq> None \<longleftrightarrow> spec_rooms (abs_of s L R) > 0"
  using nonempty_rooms [of L] by (auto simp: spec_rooms_def abs_of_def)

lemma map_report_upd: "i \<notin> set is \<Longrightarrow> map (\<lambda>j. report (m[i := p] ! j)) is = map (\<lambda>j. report (m ! j)) is"
  by (intro map_cong refl) (metis nth_list_update_neq)

lemma report_saved:
  assumes "length (pk_data p) = 1024" "length rep \<le> 1024"
  shows "report (saved_pack p k rep) = (2, rep)"
  using assms by (simp add: report_def saved_pack_def fill_pack_def unat_of_nat blit_def)

lemma save_abs:
  assumes ok: "gb_ok s H" and rep: "length rep \<le> 1024" and room: "0 < spec_rooms (gb_abs_of s)"
  shows "\<exists>s'. save_in_pack s k rep = Some s' \<and> gb_sim s H s' H (spec_save rep (gb_abs_of s))"
proof -
  from ok obtain L R where at: "GB_at s L H R" and A: "gb_abs_of s = abs_of s L R" by (rule gb_okE)
  note c = GB_at_parts(1) [OF at] and m = GB_at_parts(2) [OF at]
  from room A room_iff [of L s R] obtain a where a: "take_from L = Some a" by auto
  then obtain i "is" where L: "L a = i # is" "a \<in> gb_heads" by (cases rule: take_from_cases) auto
  let ?m = "(gb_datamem s)[i := saved_pack (gb_datamem s ! i) k rep]"
  from save_law [OF at a rep, of k] L(1) obtain h where h: "save_in_pack s k rep = Some (s\<lparr>gb_datamem := ?m, gb_cells := h\<rparr>)"
    "GB_at (s\<lparr>gb_datamem := ?m, gb_cells := h\<rparr>) (moved L a GB_realtm_lst) H R" by auto
  have i: "i < 2000" "i \<notin> H" "i \<notin> set is" "\<And>b. b \<in> gb_heads \<Longrightarrow> b \<noteq> a \<Longrightarrow> i \<notin> set (L b)"
    using cells_at_less [OF c, of i a] cells_at_apart [OF c L(2), of i] cells_at_distinct [OF c L(2)]
      cells_at_one [OF c L(2), of _ i] L by simp_all
  have new: "report (?m ! i) = (2, rep)" using report_saved [OF _ rep] m i(1) by (simp add: mem_ok_def)
  have "abs_of (s\<lparr>gb_datamem := ?m, gb_cells := h\<rparr>) (moved L a GB_realtm_lst) R = spec_save rep (gb_abs_of s)"
    using a L(1) i(3) i(4) [of GB_realtm_lst] i(4) [of GB_delay_lst] i(4) [of GB_trans_lst] new
    unfolding A by (auto simp: take_from_def abs_of_def spec_save_def spec_room_def moved_def Let_def map_report_upd
        drop_Suc split: if_splits)
  moreover have "\<forall>j\<in>H. ?m ! j = gb_datamem s ! j" using i(2) by (metis nth_list_update_neq)
  ultimately have "gb_sim s H (s\<lparr>gb_datamem := ?m, gb_cells := h\<rparr>) H (spec_save rep (gb_abs_of s))"
    by (intro gb_simI [OF h(2)]) (simp_all add: gb_ctl_def)
  with h(1) show ?thesis by blast
qed

lemma get_abs:
  assumes ok: "gb_ok s H"
  shows "case spec_get (gb_emerg s) (gb_abs_of s) of
      None \<Rightarrow> gb_data_get_pack s = (None, s)
    | Some (r, A) \<Rightarrow> \<exists>i s'. gb_data_get_pack s = (Some (GB_datamem i), s') \<and> i \<notin> H \<and> report (gb_datamem s' ! i) = r
        \<and> gb_sim s H s' (insert i H) A"
proof -
  from ok obtain L R where at: "GB_at s L H R" and A: "gb_abs_of s = abs_of s L R" by (rule gb_okE)
  show ?thesis
  proof (cases "next_pack (gb_emerg s) L")
    case None
    then have "L GB_realtm_lst = []" "L GB_delay_lst = []" by (auto simp: next_pack_def split: if_splits)
    then have "spec_get (gb_emerg s) (gb_abs_of s) = None" unfolding A by (simp add: spec_get_def abs_of_def)
    with get_law [OF at] None show ?thesis by simp
  next
    case (Some p)
    obtain i L' where p: "next_pack (gb_emerg s) L = Some (i, L')" using Some by (cases p) auto
    from get_law [OF at] p obtain h where h: "gb_data_get_pack s = (Some (GB_datamem i), s\<lparr>gb_cells := h\<rparr>)"
      "GB_at (s\<lparr>gb_cells := h\<rparr>) L' (insert i H) R" "i \<notin> H" by auto
    let ?A = "abs_of (s\<lparr>gb_cells := h\<rparr>) L' R"
    have "spec_get (gb_emerg s) (gb_abs_of s) = Some (report (gb_datamem s ! i), ?A)"
      using p unfolding A
      by (cases "L GB_realtm_lst"; cases "L GB_delay_lst")
        (auto simp: spec_get_def abs_of_def next_pack_def last_map map_butlast split: if_splits)
    moreover have "gb_sim s H (s\<lparr>gb_cells := h\<rparr>) (insert i H) ?A"
      by (rule gb_simI [OF h(2)]) (simp_all add: gb_ctl_def)
    ultimately show ?thesis using h(1,3) by auto
  qed
qed

lemma held_ok: "gb_ok s H \<Longrightarrow> i \<in> H \<Longrightarrow> pack_ok (gb_datamem s ! i)"
  by (auto simp: gb_ok_def GB_at_def mem_ok_def)

lemma put_back_abs:
  assumes ok: "gb_ok s H" and i: "i \<in> H"
  shows "gb_sim s H (gb_data_put_back s (GB_datamem i)) (H - {i}) (spec_put_back (report (gb_datamem s ! i)) (gb_abs_of s))"
proof -
  from ok obtain L R where at: "GB_at s L H R" and A: "gb_abs_of s = abs_of s L R" by (rule gb_okE)
  let ?a = "pk_list (gb_datamem s ! i)"
  from pk_put_back_law [OF at i] obtain h where h: "gb_data_put_back s (GB_datamem i) = s\<lparr>gb_cells := h\<rparr>"
    "GB_at (s\<lparr>gb_cells := h\<rparr>) (L(?a := i # L ?a)) (H - {i}) R" by auto
  have "abs_of (s\<lparr>gb_cells := h\<rparr>) (L(?a := i # L ?a)) R = spec_put_back (report (gb_datamem s ! i)) (gb_abs_of s)"
    using held_ok [OF ok i] unfolding A by (auto simp: pack_ok_def abs_of_def spec_put_back_def report_def)
  with h show ?thesis by (auto intro!: gb_simI simp: gb_ctl_def)
qed

lemma put_send_abs:
  assumes ok: "gb_ok s H" and i: "i \<in> H"
  shows "gb_sim s H (gb_data_put_send s (GB_datamem i)) (H - {i}) (spec_put_send (report (gb_datamem s ! i)) (gb_abs_of s))"
proof -
  from ok obtain L R where at: "GB_at s L H R" and A: "gb_abs_of s = abs_of s L R" by (rule gb_okE)
  from pk_put_send_law [OF at i] obtain h where h: "gb_data_put_send s (GB_datamem i) = s\<lparr>gb_cells := h\<rparr>"
    "GB_at (s\<lparr>gb_cells := h\<rparr>) (L(GB_trans_lst := L GB_trans_lst @ [i])) (H - {i}) R" by auto
  have "abs_of (s\<lparr>gb_cells := h\<rparr>) (L(GB_trans_lst := L GB_trans_lst @ [i])) R =
      spec_put_send (report (gb_datamem s ! i)) (gb_abs_of s)"
    unfolding A by (simp add: abs_of_def spec_put_send_def)
  with h show ?thesis by (auto intro!: gb_simI simp: gb_ctl_def)
qed

lemma ack_abs:
  assumes ok: "gb_ok s H"
  shows "gb_sim s H (gb_data_ack_pack s) H (spec_ack (gb_abs_of s))"
proof -
  from ok obtain L R where at: "GB_at s L H R" and A: "gb_abs_of s = abs_of s L R" by (rule gb_okE)
  let ?L = "if L GB_trans_lst = [] then L else moved L GB_trans_lst GB_free_lst"
  from ack_law [OF at] obtain h where h: "gb_data_ack_pack s = s\<lparr>gb_cells := h\<rparr>" "GB_at (s\<lparr>gb_cells := h\<rparr>) ?L H R" by auto
  have "abs_of (s\<lparr>gb_cells := h\<rparr>) ?L R = spec_ack (gb_abs_of s)"
    unfolding A by (cases "L GB_trans_lst") (simp_all add: abs_of_def spec_ack_def moved_def Let_def)
  with h show ?thesis by (auto intro!: gb_simI simp: gb_ctl_def)
qed

lemma map_filter_type:
  assumes "\<forall>i\<in>set is. pack_ok (m ! i)"
  shows "map (\<lambda>i. report (m ! i)) [i \<leftarrow> is. pk_list (m ! i) = GB_realtm_lst] = filter (\<lambda>r. fst r = 2) (map (\<lambda>i. report (m ! i)) is)"
    "map (\<lambda>i. report (m ! i)) [i \<leftarrow> is. pk_list (m ! i) = GB_delay_lst] = filter (\<lambda>r. fst r = 3) (map (\<lambda>i. report (m ! i)) is)"
  using assms by (induction "is") (auto simp: pack_ok_def report_def)

lemma flush_sending_abs:
  assumes ok: "gb_ok s H"
  shows "\<exists>s'. gb_data_flush_sending s = Some s' \<and> gb_sim s H s' H (spec_flush_sending (gb_abs_of s))"
proof -
  from ok obtain L R where at: "GB_at s L H R" and A: "gb_abs_of s = abs_of s L R" by (rule gb_okE)
  from flush_sending_law [OF at] obtain h where h: "gb_data_flush_sending s = Some (s\<lparr>gb_cells := h\<rparr>)"
    "GB_at (s\<lparr>gb_cells := h\<rparr>) (unsent (gb_datamem s) L) H R" by auto
  have "\<forall>i\<in>set (L GB_trans_lst). pack_ok (gb_datamem s ! i)"
    using GB_at_parts(2) [OF at] by (auto simp: mem_ok_def place_ok_def)
  from map_filter_type [OF this] have
    "abs_of (s\<lparr>gb_cells := h\<rparr>) (unsent (gb_datamem s) L) R = spec_flush_sending (gb_abs_of s)"
    unfolding A by (simp add: abs_of_def spec_flush_sending_def unsent_def)
  with h show ?thesis by (auto intro!: gb_simI simp: gb_ctl_def)
qed

lemma delay_mem_nth:
  assumes "distinct is" "\<forall>i\<in>set is. i < length m"
  shows "length (delay_mem m is) = length m \<and>
    (\<forall>j. delay_mem m is ! j = (if j \<in> set is then delayed (m ! j) else m ! j))"
  using assms
proof (induction "is" arbitrary: m)
  case (Cons i "is")
  have "delay_mem m (i # is) = delay_mem (m[i := delayed (m ! i)]) is" by (simp add: delay_mem_def)
  with Cons show ?case by (auto simp: nth_list_update)
qed (simp add: delay_mem_def)

lemma report_delayed: "report (delayed p) = as_delayed (report p)"
  by (simp add: report_def delayed_def as_delayed_def)

lemma flush_realtm_abs:
  assumes ok: "gb_ok s H"
  shows "\<exists>s'. gb_data_flush_realtm s = Some s' \<and> gb_sim s H s' H (spec_flush_realtm (gb_abs_of s))"
proof -
  from ok obtain L R where at: "GB_at s L H R" and A: "gb_abs_of s = abs_of s L R" by (rule gb_okE)
  note c = GB_at_parts(1) [OF at] and m = GB_at_parts(2) [OF at]
  let ?m = "delay_mem (gb_datamem s) (L GB_realtm_lst)"
  from flush_realtm_law [OF at] obtain h where h: "gb_data_flush_realtm s = Some (s\<lparr>gb_datamem := ?m, gb_cells := h\<rparr>)"
    "GB_at (s\<lparr>gb_datamem := ?m, gb_cells := h\<rparr>) (all_delayed L) H R" by (auto simp: Let_def)
  have "\<forall>i\<in>set (L GB_realtm_lst). i < length (gb_datamem s)"
    using cells_at_less [OF c, of _ GB_realtm_lst] m by (simp add: mem_ok_def)
  note n = delay_mem_nth [OF cells_at_distinct [OF c gb_heads_in(2)] this, THEN conjunct2, rule_format]
  have same: "map (\<lambda>i. report (?m ! i)) (L a) = map (\<lambda>i. report (gb_datamem s ! i)) (L a)"
    if "a \<in> gb_heads" "a \<noteq> GB_realtm_lst" for a
    using cells_at_one [OF c that(1) gb_heads_in(2) that(2)] by (simp add: n)
  have "abs_of (s\<lparr>gb_datamem := ?m, gb_cells := h\<rparr>) (all_delayed L) R = spec_flush_realtm (gb_abs_of s)"
    unfolding A using same [of GB_delay_lst] same [of GB_trans_lst]
    by (simp add: abs_of_def spec_flush_realtm_def all_delayed_def n report_delayed)
  moreover have "\<forall>j\<in>H. ?m ! j = gb_datamem s ! j" using cells_at_apart [OF c gb_heads_in(2)] by (auto simp: n)
  ultimately show ?thesis using h by (auto intro!: gb_simI simp: gb_ctl_def)
qed

text \<open>The ring: \<open>R\<close> splits into the empty packs and the kept reports.\<close>

lemma dropWhile_sorted:
  "sorted_wrt (\<lambda>q r. P q \<longrightarrow> P r) R \<Longrightarrow> \<forall>e\<in>set (dropWhile (\<lambda>q. \<not> P q) R). P e"
proof (induction R)
  case (Cons q R)
  from Cons.prems have q: "\<forall>r\<in>set R. P q \<longrightarrow> P r" and R: "sorted_wrt (\<lambda>q r. P q \<longrightarrow> P r) R"
    unfolding sorted_wrt.simps by blast+
  show ?case
  proof (cases "P q")
    case True
    then have "\<forall>e\<in>set (q # R). P e" using q by (metis set_ConsD)
    with True show ?thesis by simp
  next
    case False
    then have "dropWhile (\<lambda>q. \<not> P q) (q # R) = dropWhile (\<lambda>q. \<not> P q) R" by simp
    with Cons.IH [OF R] show ?thesis by metis
  qed
qed simp

lemma ring_split:
  assumes "ring_at s R"
  obtains rest ds where "R = rest @ ds" "\<forall>e\<in>set ds. pk_len (gb_errmem s ! e) \<noteq> 0" "\<forall>e\<in>set rest. pk_len (gb_errmem s ! e) = 0"
proof -
  let ?P = "\<lambda>q. pk_len (gb_errmem s ! q) = 0"
  have sorted: "sorted_wrt (\<lambda>q r. pk_len (gb_errmem s ! q) \<noteq> 0 \<longrightarrow> pk_len (gb_errmem s ! r) \<noteq> 0) R"
    using assms by (simp add: ring_at_def)
  have "\<forall>e\<in>set (dropWhile ?P R). pk_len (gb_errmem s ! e) \<noteq> 0"
    using dropWhile_sorted [OF sorted] unfolding not_not .
  moreover have "\<forall>e\<in>set (takeWhile ?P R). pk_len (gb_errmem s ! e) = 0" by (blast dest: set_takeWhileD)
  ultimately show ?thesis by (intro that [of "takeWhile ?P R" "dropWhile ?P R"] takeWhile_dropWhile_id [symmetric])
qed

lemma kept_append: "kept_packs (ps @ qs) = kept_packs ps @ kept_packs qs"
  by (simp add: kept_packs_def)

lemma kept_split:
  assumes "\<forall>e\<in>set ds. pk_len (m ! e) \<noteq> 0" "\<forall>e\<in>set rest. pk_len (m ! e) = 0"
  shows "kept_packs (map ((!) m) (rest @ ds)) = map (\<lambda>e. snd (report (m ! e))) ds"
  using assms by (auto simp: kept_packs_def filter_map comp_def intro: arg_cong [where f = length])

lemma report_kept:
  assumes "length (pk_data p) = 1024" "length rep \<le> 1024"
  shows "snd (report ((fill_pack p rep)\<lparr>pk_seq := k\<rparr>)) = rep"
  using assms by (simp add: report_def fill_pack_def unat_of_nat blit_def)

lemma save_error_abs:
  assumes ok: "gb_ok s H" and rep: "rep \<noteq> []" "length rep \<le> 1024" and ring: "a_ring (gb_abs_of s) \<noteq> 0"
  shows "\<exists>s'. gb_data_save_error s rep = Some s' \<and> gb_sim s H s' H (spec_save_error rep (gb_abs_of s))"
proof -
  from ok obtain L R where at: "GB_at s L H R" and A: "gb_abs_of s = abs_of s L R" by (rule gb_okE)
  from ring A obtain r rs where R: "R = r # rs" by (cases R) (auto simp: abs_of_def)
  note h = ring_head [OF GB_at_parts(3) [OF at, unfolded R]]
  let ?s = "s\<lparr>gb_errmem := ring_saved s r rep, gb_errlst_head := Some (GB_errmem (hd (rs @ [r])))\<rparr>"
  note law = save_error_law [OF at [unfolded R] rep]
  obtain rest ds where sp: "R = rest @ ds" "\<forall>e\<in>set ds. pk_len (gb_errmem s ! e) \<noteq> 0" "\<forall>e\<in>set rest. pk_len (gb_errmem s ! e) = 0"
    by (rule ring_split [OF GB_at_parts(3) [OF at]])
  have other: "ring_saved s r rep ! q = gb_errmem s ! q" if "q \<in> set rs" for q
    using h(6) that unfolding ring_saved_def by (metis distinct.simps(2) nth_list_update_neq)
  have new: "snd (report (ring_saved s r rep ! r)) = rep" "pk_len (ring_saved s r rep ! r) \<noteq> 0"
    using h(3) report_kept [OF _ rep(2), of "gb_errmem s ! r" 1] of_nat_0_1024 [of "length rep"] rep
    by (simp_all add: ring_saved_def) (simp add: fill_pack_def)
  have eq: "map ((!) (ring_saved s r rep)) rs = map ((!) (gb_errmem s)) rs" using other by simp
  have "kept_packs [ring_saved s r rep ! r] = [rep]" using new by (simp add: kept_packs_def)
  then have w: "kept_packs (map ((!) (ring_saved s r rep)) (rs @ [r])) = kept_packs (map ((!) (gb_errmem s)) rs) @ [rep]"
    by (simp only: map_append list.map eq kept_append)
  have k: "kept_packs (map ((!) (gb_errmem s)) R) = map (\<lambda>e. snd (report (gb_errmem s ! e))) ds"
    using kept_split [OF sp(2,3)] sp(1) by simp
  have "kept_packs (map ((!) (gb_errmem s)) rs) =
     (if length (kept_packs (map ((!) (gb_errmem s)) R)) < length R then kept_packs (map ((!) (gb_errmem s)) R)
      else tl (kept_packs (map ((!) (gb_errmem s)) R)))"
  proof (cases rest)
    case Nil
    then have "pk_len (gb_errmem s ! r) \<noteq> 0" "ds = r # rs" using sp R by auto
    then show ?thesis using k by (simp add: R kept_packs_def)
  next
    case (Cons q qs)
    then have "pk_len (gb_errmem s ! r) = 0" using sp(1,3) R by auto
    moreover have "length (kept_packs (map ((!) (gb_errmem s)) R)) < length R" unfolding k using sp(1) Cons by simp
    ultimately show ?thesis using R by (simp add: kept_packs_def)
  qed
  with w have "abs_of ?s L (rs @ [r]) = spec_save_error rep (gb_abs_of s)"
    unfolding A by (simp add: abs_of_def spec_save_error_def R)
  then have "gb_sim s H ?s H (spec_save_error rep (gb_abs_of s))"
    by (intro gb_simI [OF law(2)]) (simp_all add: gb_ctl_def)
  with law(1) show ?thesis by blast
qed

lemma flush_error_abs:
  assumes ok: "gb_ok s H" and room: "length (a_window (gb_abs_of s)) \<le> spec_rooms (gb_abs_of s)"
  shows "\<exists>s'. gb_data_flush_error s = Some s' \<and> gb_sim s H s' H (spec_flush_error (gb_abs_of s))"
proof -
  from ok obtain L R where at: "GB_at s L H R" and A: "gb_abs_of s = abs_of s L R" by (rule gb_okE)
  show ?thesis
  proof (cases "R = []")
    case True
    let ?s = "s\<lparr>gb_cells := list_init (gb_cells s) GB_tmplst\<rparr>"
    from TMP_close [OF TMP_open [OF at]] obtain h where h:
      "(if list_empty (gb_cells ?s) GB_tmplst then ?s else ?s\<lparr>gb_cells := splice_delay (gb_cells ?s)\<rparr>) = ?s\<lparr>gb_cells := h\<rparr>"
      "GB_at (?s\<lparr>gb_cells := h\<rparr>) ((L(GB_tmplst := []))(GB_tmplst := [], GB_delay_lst := (L(GB_tmplst := [])) GB_delay_lst @ [])) H R"
      by auto
    have "list_empty (gb_cells ?s) GB_tmplst" by (simp add: list_empty_def list_init_def)
    then have eq: "?s = ?s\<lparr>gb_cells := h\<rparr>" using h(1) by simp
    have at': "GB_at ?s L H R" by (subst eq, rule GB_at_cong [OF h(2)]) (auto simp: gb_heads_def)
    have "gb_data_flush_error s = Some ?s"
      using GB_at_parts(3) [OF at] True by (simp add: gb_data_flush_error_def ring_at_def)
    moreover have "abs_of ?s L R = spec_flush_error (gb_abs_of s)"
      unfolding A using True by (simp add: abs_of_def spec_flush_error_def spec_room_def kept_packs_def Let_def)
    ultimately show ?thesis using gb_simI [OF at', of "spec_flush_error (gb_abs_of s)" s H]
      by (auto simp: gb_ctl_def)
  next
    case False
    note c = GB_at_parts(1) [OF at] and r = GB_at_parts(3) [OF at]
    obtain rest ds where sp: "R = rest @ ds" "\<forall>e\<in>set ds. pk_len (gb_errmem s ! e) \<noteq> 0" "\<forall>e\<in>set rest. pk_len (gb_errmem s ! e) = 0"
      by (rule ring_split [OF r])
    have k: "kept_packs (map ((!) (gb_errmem s)) R) = map (\<lambda>e. snd (report (gb_errmem s ! e))) ds"
      using kept_split [OF sp(2,3)] sp(1) by simp
    then have "length ds \<le> length (L GB_free_lst) + length (L GB_delay_lst) + length (L GB_realtm_lst)"
      using room unfolding A by (simp add: abs_of_def spec_rooms_def)
    from flush_error_law [OF at [unfolded sp(1)] _ sp(2,3) this] False sp(1) obtain h m ids where l:
      "gb_data_flush_error s = Some (flushed s h m ds rest)"
      "GB_at (flushed s h m ds rest) (after_flush L (length ds) ids) H (ds @ rest)"
      "map ((!) m) ids = map (\<lambda>e. delayed (gb_errmem s ! e)) ds" "\<forall>i. i \<notin> set ids \<longrightarrow> m ! i = gb_datamem s ! i" by auto
    let ?s = "flushed s h m ds rest" and ?L = "after_flush L (length ds) ids"
    note c' = GB_at_parts(1) [OF l(2)]
    have "distinct (?L GB_delay_lst)" by (rule cells_at_distinct [OF c']) simp
    then have keep: "m ! i = gb_datamem s ! i" if "a \<in> {GB_realtm_lst, GB_trans_lst} \<and> i \<in> set (?L a)
        \<or> i \<in> set (drop (length ds - length (L GB_free_lst)) (L GB_delay_lst)) \<or> i \<in> H" for a i
    proof -
      have "set ids \<subseteq> set (?L GB_delay_lst)" by (auto simp: after_flush_def Let_def)
      with that cells_at_one [OF c', of a GB_delay_lst i] cells_at_apart [OF c', of GB_delay_lst i]
        \<open>distinct (?L GB_delay_lst)\<close> have "i \<notin> set ids" by (auto simp: after_flush_def Let_def)
      with l(4) show ?thesis by blast
    qed
    have "map (\<lambda>i. report (m ! i)) ids = map report (map ((!) m) ids)" by simp
    also have "\<dots> = map (Pair 3) (map (\<lambda>e. snd (report (gb_errmem s ! e))) ds)"
      unfolding l(3) by (simp add: report_delayed as_delayed_def)
    finally have new: "map (\<lambda>i. report (m ! i)) ids = map (Pair 3) (map (\<lambda>e. snd (report (gb_errmem s ! e))) ds)" .
    have el: "\<forall>e\<in>set R. e < length (gb_errmem s)" using r by (simp add: ring_at_def)
    have w: "kept_packs (map ((!) (emptied (gb_errmem s) ds)) (ds @ rest)) = []"
      using el sp(1,3) by (auto simp: kept_packs_def filter_empty_conv emptied_nth)
    have keep_map: "map (\<lambda>i. report (m ! i)) (?L a) = map (\<lambda>i. report (gb_datamem s ! i)) (?L a)"
      if a: "a \<in> {GB_realtm_lst, GB_trans_lst}" for a
    proof (rule map_cong [OF refl])
      fix i assume "i \<in> set (?L a)"
      with a have "m ! i = gb_datamem s ! i" by (intro keep [of a]) blast
      then show "report (m ! i) = report (gb_datamem s ! i)" by simp
    qed
    have keep_delay: "map (\<lambda>i. report (m ! i)) (drop (length ds - length (L GB_free_lst)) (L GB_delay_lst))
        = map (\<lambda>i. report (gb_datamem s ! i)) (drop (length ds - length (L GB_free_lst)) (L GB_delay_lst))"
      using keep by simp
    have L: "?L GB_delay_lst = drop (length ds - length (L GB_free_lst)) (L GB_delay_lst) @ ids"
      "?L GB_free_lst = drop (length ds) (L GB_free_lst)" "?L GB_trans_lst = L GB_trans_lst"
      "?L GB_realtm_lst = drop (length ds - length (L GB_free_lst) - length (L GB_delay_lst)) (L GB_realtm_lst)"
      by (simp_all add: after_flush_def Let_def)
    have "abs_of ?s ?L (ds @ rest) = spec_flush_error (gb_abs_of s)"
      unfolding A spec_flush_error_def spec_room_def Let_def abs_of_def
      using w k new keep_delay keep_map [of GB_realtm_lst] keep_map [of GB_trans_lst] sp(1)
      by (simp add: flushed_def L drop_map)
    moreover have "\<forall>i\<in>H. gb_datamem ?s ! i = gb_datamem s ! i" using keep by (simp add: flushed_def)
    ultimately have "gb_sim s H ?s H (spec_flush_error (gb_abs_of s))"
      by (intro gb_simI [OF l(2)]) (simp_all add: gb_ctl_def flushed_def)
    with l(1) show ?thesis by blast
  qed
qed

text \<open>Clearing walks once around the ring.\<close>

lemma clear_loop:
  assumes "dll (gb_cells s) (GB_errmem r) (map GB_errmem rs)" "r # rs = ps @ q # qs"
  shows "clear_error_loop s (GB_errmem r) (GB_errmem q) =
    Some (s\<lparr>gb_errmem := fold (\<lambda>e m. m[e := (m ! e)\<lparr>pk_len := 0\<rparr>]) (q # qs) (gb_errmem s)\<rparr>)"
  using assms
proof (induction qs arbitrary: s ps q)
  case Nil
  note prems = Nil.prems
  have "lnext (gb_cells s) (GB_errmem q) = GB_errmem r"
  proof (cases ps)
    case Nil
    with prems dll_next [OF prems(1)] show ?thesis by simp
  next
    case (Cons p ps')
    with prems show ?thesis by (auto simp: dll_def seg_append)
  qed
  then show ?case by (subst clear_error_loop.simps) (simp add: Let_def)
next
  case (Cons z zs)
  note prems = Cons.prems
  let ?s = "s\<lparr>gb_errmem := (gb_errmem s)[q := (gb_errmem s ! q)\<lparr>pk_len := 0\<rparr>]\<rparr>"
  have "lnext (gb_cells s) (GB_errmem q) = GB_errmem z \<and> z \<noteq> r"
  proof (cases ps)
    case Nil
    with prems dll_next [OF prems(1)] show ?thesis by (auto simp: dll_def)
  next
    case (Cons p ps')
    with prems show ?thesis by (auto simp: dll_def seg_append)
  qed
  then have "clear_error_loop s (GB_errmem r) (GB_errmem q) = clear_error_loop ?s (GB_errmem r) (GB_errmem z)"
    by (subst clear_error_loop.simps) (simp add: Let_def)
  also have "\<dots> = Some (?s\<lparr>gb_errmem := fold (\<lambda>e m. m[e := (m ! e)\<lparr>pk_len := 0\<rparr>]) (z # zs) (gb_errmem ?s)\<rparr>)"
    by (rule Cons.IH [of _ "ps @ [q]"]) (use Cons.prems in simp_all)
  finally show ?case by simp
qed

lemma emptied_all: "fold (\<lambda>e m. m[e := (m ! e)\<lparr>pk_len := 0\<rparr>]) es m = emptied m (rev es)"
  by (simp add: emptied_def foldr_conv_fold)

lemma clear_error_abs:
  assumes ok: "gb_ok s H"
  shows "\<exists>s'. gb_data_clear_error s = Some s' \<and> gb_sim s H s' H ((gb_abs_of s)\<lparr>a_window := []\<rparr>)"
proof -
  from ok obtain L R where at: "GB_at s L H R" and A: "gb_abs_of s = abs_of s L R" by (rule gb_okE)
  note r = GB_at_parts(3) [OF at]
  show ?thesis
  proof (cases R)
    case Nil
    then have "gb_data_clear_error s = Some s" "(gb_abs_of s)\<lparr>a_window := []\<rparr> = gb_abs_of s"
      using r unfolding A by (simp_all add: gb_data_clear_error_def ring_at_def abs_of_def kept_packs_def)
    with at ok show ?thesis by (auto simp: gb_sim_def)
  next
    case (Cons q qs)
    note h = ring_head [OF r [unfolded Cons]]
    let ?em = "emptied (gb_errmem s) (rev (q # qs))"
    let ?s = "s\<lparr>gb_errmem := ?em\<rparr>"
    have e: "gb_data_clear_error s = Some ?s"
      using clear_loop [OF h(2), of "[]" q qs] h(1) unfolding emptied_all by (simp add: gb_data_clear_error_def)
    have n: "?em ! e = (gb_errmem s ! e)\<lparr>pk_len := 0\<rparr>" if "e \<in> set R" for e
      using that h(3) Cons emptied_nth(1) [of e "gb_errmem s" "rev (q # qs)"] by auto
    have "sorted_wrt (\<lambda>q r. pk_len (?em ! q) \<noteq> 0 \<longrightarrow> pk_len (?em ! r) \<noteq> 0) R"
      unfolding sorted_wrt_iff_nth_less using n by simp
    moreover have "\<forall>r\<in>set R. r < length ?em \<and> length (pk_data (?em ! r)) = 1024 \<and> pk_len (?em ! r) \<le> 1024"
      using h(3) n Cons by (simp add: emptied_nth(2))
    ultimately have "ring_at ?s R" using r unfolding Cons by (simp add: ring_at_def)
    then have at': "GB_at ?s L H R" using GB_at_parts(1,2) [OF at] by (simp add: GB_at_def)
    have "kept_packs (map ((!) ?em) R) = []" using n by (auto simp: kept_packs_def filter_empty_conv)
    then have "abs_of ?s L R = (gb_abs_of s)\<lparr>a_window := []\<rparr>" unfolding A by (simp add: abs_of_def)
    with e gb_simI [OF at'] show ?thesis by (auto simp: gb_ctl_def)
  qed
qed

text \<open>Every pack is somewhere, and the ring holds at most one report per pack.\<close>

lemma abs_total:
  assumes "gb_ok s H" "finite H"
  shows "card H + length (a_trans (gb_abs_of s)) + spec_rooms (gb_abs_of s) = 2000"
proof -
  from assms(1) obtain L R where at: "GB_at s L H R" and A: "gb_abs_of s = abs_of s L R" by (rule gb_okE)
  from cells_at_total [OF GB_at_parts(1) [OF at] _ assms(2)] show ?thesis
    unfolding A by (simp add: gb_heads_def abs_of_def spec_rooms_def)
qed

lemma window_le_ring: "length (a_window (gb_abs_of s)) \<le> a_ring (gb_abs_of s)"
  by (simp add: gb_abs_of_def gb_window_def kept_packs_def)

section \<open>The start\<close>

lemma clear_report_at:
  assumes "length (gb_datamem s) = 2000" "\<forall>i<2000. length (pk_data (gb_datamem s ! i)) = 1024" "gb_errlst_head s = None"
  shows "GB_at (gb_data_clear_report s) (\<lambda>b. if b = GB_free_lst then [0..<2000] else []) {} []"
proof -
  let ?hs = "[GB_realtm_lst, GB_delay_lst, GB_trans_lst, GB_free_lst]"
  have "\<forall>b\<in>gb_heads. dll (fold (\<lambda>a h. list_init h a) ?hs (gb_cells s)) b []"
    using gbp.init_heads [of ?hs] by (auto simp: gb_heads_def)
  from gbp.fill [OF this gb_heads_in(1)] assms show ?thesis
    by (simp add: GB_at_def gb_data_clear_report_def mem_ok_def place_ok_def ring_at_def del: upt_Suc)
qed

text \<open>Laying the ring around a sound pool.\<close>

lemma err_ring_step:
  assumes at: "cells_at gb_heads GB_datamem 2000 h L H" and r: "dll h (GB_errmem 0) (map GB_errmem [1..<n])" and n: "1 \<le> n"
  defines "h' \<equiv> list_insert_before h (GB_errmem 0) (GB_errmem n)"
  shows "cells_at gb_heads GB_datamem 2000 h' L H" "dll h' (GB_errmem 0) (map GB_errmem [1..<Suc n])"
proof -
  have "dll h' a (map GB_datamem (L a))" if "a \<in> gb_heads" for a
    unfolding h'_def by (rule dll_frame_insert_before [OF r cells_dll [OF at that]]) (use that in \<open>auto simp: gb_heads_def\<close>)
  then show "cells_at gb_heads GB_datamem 2000 h' L H" using at by (simp add: cells_at_def lists_at_def)
  show "dll h' (GB_errmem 0) (map GB_errmem [1..<Suc n])"
    using dll_insert_before [OF r, of "GB_errmem n"] n by (simp add: h'_def image_iff)
qed

definition blank :: "gb_pack_t \<Rightarrow> gb_pack_t" where
  "blank p = p\<lparr>pk_len := 0, pk_type := GB_RPTTYPE_DELAY, pk_list := GB_delay_lst\<rparr>"

definition ring_one :: "nat \<Rightarrow> gb_pool_t \<Rightarrow> gb_pool_t" where
  "ring_one i s = s\<lparr>gb_errmem := (gb_errmem s)[i := blank (gb_errmem s ! i)],
     gb_cells := list_insert_before (gb_cells s) (GB_errmem 0) (GB_errmem i)\<rparr>"

lemma ring_fold_law:
  assumes "cells_at gb_heads GB_datamem 2000 (gb_cells s) L H" "dll (gb_cells s) (GB_errmem 0) []" "1 \<le> n" "n \<le> length (gb_errmem s)"
  shows "\<exists>h m. fold ring_one [1..<n] s = s\<lparr>gb_errmem := m, gb_cells := h\<rparr>
    \<and> cells_at gb_heads GB_datamem 2000 h L H \<and> dll h (GB_errmem 0) (map GB_errmem [1..<n]) \<and> length m = length (gb_errmem s)
    \<and> (\<forall>i. m ! i = (if 1 \<le> i \<and> i < n then blank (gb_errmem s ! i) else gb_errmem s ! i))"
  using assms(3,4)
proof (induction n rule: dec_induct)
  case base
  show ?case using assms(1,2) by (intro exI [of _ "gb_cells s"] exI [of _ "gb_errmem s"]) auto
next
  case (step n)
  then obtain h m where s: "fold ring_one [1..<n] s = s\<lparr>gb_errmem := m, gb_cells := h\<rparr>"
    "cells_at gb_heads GB_datamem 2000 h L H" "dll h (GB_errmem 0) (map GB_errmem [1..<n])" "length m = length (gb_errmem s)"
    "\<forall>i. m ! i = (if 1 \<le> i \<and> i < n then blank (gb_errmem s ! i) else gb_errmem s ! i)" by auto
  have "m[n := blank (m ! n)] ! i = (if 1 \<le> i \<and> i < Suc n then blank (gb_errmem s ! i) else gb_errmem s ! i)" for i
    using s(4,5) step by (cases "i = n") auto
  moreover have "ring_one n (s\<lparr>gb_errmem := m, gb_cells := h\<rparr>) =
      s\<lparr>gb_errmem := m[n := blank (m ! n)], gb_cells := list_insert_before h (GB_errmem 0) (GB_errmem n)\<rparr>"
    by (simp add: ring_one_def)
  moreover have "fold ring_one [1..<Suc n] s = ring_one n (fold ring_one [1..<n] s)" using step(1) by simp
  ultimately show ?case using err_ring_step [OF s(2,3) step(1)] s(1,4)
    by (intro exI [of _ "list_insert_before h (GB_errmem 0) (GB_errmem n)"] exI [of _ "m[n := blank (m ! n)]"]) simp
qed

lemma err_ring_init_law:
  assumes at: "GB_at s L H []" and len: "30 \<le> length (gb_errmem s)" and z: "pk_len (gb_errmem s ! 0) = 0"
    and d: "\<forall>i<30. length (pk_data (gb_errmem s ! i)) = 1024"
  shows "GB_at (err_ring_init s) L H [0..<30]" "gb_ctl (err_ring_init s) = gb_ctl s"
    "kept_packs (map ((!) (gb_errmem (err_ring_init s))) [0..<30]) = []" "gb_datamem (err_ring_init s) = gb_datamem s"
proof -
  note c = GB_at_parts(1) [OF at] and m = GB_at_parts(2) [OF at]
  let ?s = "s\<lparr>gb_errlst_head := Some (GB_errmem 0), gb_cells := list_init (gb_cells s) (GB_errmem 0)\<rparr>"
  have e: "err_ring_init s = fold ring_one [1..<30] ?s"
    by (simp add: err_ring_init_def GROUP_SIZE_def ring_one_def [abs_def] blank_def)
  have "dll (list_init (gb_cells s) (GB_errmem 0)) a (map GB_datamem (L a))" if "a \<in> gb_heads" for a
    by (rule dll_frame_init [OF cells_dll [OF c that]]) (use that in \<open>auto simp: gb_heads_def\<close>)
  then have c0: "cells_at gb_heads GB_datamem 2000 (gb_cells ?s) L H" using c by (simp add: cells_at_def lists_at_def)
  from ring_fold_law [OF c0, of 30] dll_init [of "gb_cells s" "GB_errmem 0"] len obtain h em where
    f: "fold ring_one [1..<30] ?s = ?s\<lparr>gb_errmem := em, gb_cells := h\<rparr>"
    and c1: "cells_at gb_heads GB_datamem 2000 h L H" "dll h (GB_errmem 0) (map GB_errmem [1..<30])"
    and em: "length em = length (gb_errmem s)" "\<forall>i. em ! i = (if 1 \<le> i \<and> i < 30 then blank (gb_errmem s ! i) else gb_errmem s ! i)"
    by auto
  have zero: "pk_len (em ! i) = 0 \<and> length (pk_data (em ! i)) = 1024" if "i < 30" for i
    using that em(2) z d by (cases i) (simp_all add: blank_def)
  have u: "[0..<30] = 0 # [1..<30]" by (simp add: upt_rec)
  have "ring_at (?s\<lparr>gb_errmem := em, gb_cells := h\<rparr>) [0..<30]"
    unfolding ring_at_def
  proof (intro conjI ballI)
    show "sorted_wrt (\<lambda>q r. pk_len (gb_errmem (?s\<lparr>gb_errmem := em, gb_cells := h\<rparr>) ! q) \<noteq> 0 \<longrightarrow>
        pk_len (gb_errmem (?s\<lparr>gb_errmem := em, gb_cells := h\<rparr>) ! r) \<noteq> 0) [0..<30]"
      unfolding sorted_wrt_iff_nth_less using zero by simp
  qed (use c1(2) zero em(1) len in \<open>simp_all add: u del: upt_Suc\<close>, use zero em(1) len in \<open>auto simp: u [symmetric]\<close>)
  with c1(1) m show "GB_at (err_ring_init s) L H [0..<30]" unfolding e f by (simp add: GB_at_def)
  show "gb_ctl (err_ring_init s) = gb_ctl s" "gb_datamem (err_ring_init s) = gb_datamem s"
    unfolding e f by (simp_all add: gb_ctl_def)
  show "kept_packs (map ((!) (gb_errmem (err_ring_init s))) [0..<30]) = []"
    unfolding e f using zero by (auto simp: kept_packs_def filter_empty_conv)
qed

section \<open>The CAN side keeps the pool\<close>

text \<open>\<open>pool_fit\<close>: enough packs are on the lists for whatever the CAN side may need at once, and the ring is laid
  before the signals are used. \<open>pool_kept\<close>: what the CAN side leaves to the sender.\<close>

definition pool_fit :: "gb_pool_t \<Rightarrow> nat set \<Rightarrow> bool" where
  "pool_fit s H \<longleftrightarrow> gb_ok s H \<and> finite H \<and> card H + length (a_trans (gb_abs_of s)) < 1970 \<and> a_ring (gb_abs_of s) \<le> 30
     \<and> (gb_inf s \<longrightarrow> a_ring (gb_abs_of s) \<noteq> 0)"

definition pool_kept :: "gb_pool_t \<Rightarrow> nat set \<Rightarrow> gb_pool_t \<Rightarrow> bool" where
  "pool_kept s H s' \<longleftrightarrow> gb_ok s' H \<and> a_trans (gb_abs_of s') = a_trans (gb_abs_of s) \<and> a_ring (gb_abs_of s') = a_ring (gb_abs_of s)
     \<and> gb_inf s' = gb_inf s \<and> gb_emerg s' = gb_emerg s \<and> gb_pendflag s' = gb_pendflag s \<and> gb_datintv s' = gb_datintv s
     \<and> (\<forall>i\<in>H. gb_datamem s' ! i = gb_datamem s ! i)"

lemma pool_kept_fit: "pool_fit s H \<Longrightarrow> pool_kept s H s' \<Longrightarrow> pool_fit s' H"
  by (simp add: pool_fit_def pool_kept_def)

lemma pool_kept_refl: "gb_ok s H \<Longrightarrow> pool_kept s H s"
  by (simp add: pool_kept_def)

lemma pool_kept_trans: "pool_kept s H s' \<Longrightarrow> pool_kept s' H s'' \<Longrightarrow> pool_kept s H s''"
  by (simp add: pool_kept_def)

lemma sim_kept:
  assumes "gb_sim s H s' H A" "a_trans A = a_trans (gb_abs_of s)" "a_ring A = a_ring (gb_abs_of s)"
  shows "pool_kept s H s'"
  using assms by (simp add: gb_sim_def pool_kept_def gb_ctl_def)

lemma spec_keeps:
  "a_trans (spec_save rep A) = a_trans A" "a_ring (spec_save rep A) = a_ring A"
  "a_trans (spec_flush_error A) = a_trans A" "a_ring (spec_flush_error A) = a_ring A"
  "a_trans (spec_save_error rep A) = a_trans A" "a_ring (spec_save_error rep A) = a_ring A"
  "a_trans (spec_flush_realtm A) = a_trans A" "a_ring (spec_flush_realtm A) = a_ring A"
  by (simp_all add: spec_save_def spec_flush_error_def spec_save_error_def spec_flush_realtm_def spec_room_def Let_def)

lemma fit_rooms: "pool_fit s H \<Longrightarrow> 30 < spec_rooms (gb_abs_of s)"
  using abs_total [of s H] by (simp add: pool_fit_def)

text \<open>The variables outside the pool do not matter to it.\<close>

lemma GB_at_ctl:
  assumes "gb_cells s' = gb_cells s" "gb_datamem s' = gb_datamem s" "gb_errmem s' = gb_errmem s" "gb_errlst_head s' = gb_errlst_head s"
  shows "gb_ok s' H = gb_ok s H" "gb_abs_of s' = gb_abs_of s"
proof -
  have "GB_at s' L H R = GB_at s L H R" for L R using assms by (simp add: GB_at_def ring_cong [OF assms(1,3,4)])
  then show "gb_ok s' H = gb_ok s H" by (simp add: gb_ok_def)
  have p: "pack_at s' = pack_at s" using assms by (intro ext) (simp add: pack_at_def split: gb_cell.split)
  then show "gb_abs_of s' = gb_abs_of s"
    using assms by (cases "gb_errlst_head s") (simp_all add: gb_abs_of_def gb_reports_def gb_ring_def gb_window_def)
qed

lemma ctl_kept:
  assumes "gb_ok s H" "gb_cells s' = gb_cells s" "gb_datamem s' = gb_datamem s" "gb_errmem s' = gb_errmem s"
    "gb_errlst_head s' = gb_errlst_head s" "gb_inf s' = gb_inf s" "gb_emerg s' = gb_emerg s" "gb_pendflag s' = gb_pendflag s"
    "gb_datintv s' = gb_datintv s"
  shows "pool_kept s H s'"
  using assms GB_at_ctl [OF assms(2-5)] by (simp add: pool_kept_def)

lemma ctl_upds:
  assumes "gb_ok s H"
  shows "pool_kept s H (s\<lparr>ticks := a\<rparr>)" "pool_kept s H (s\<lparr>times := b\<rparr>)" "pool_kept s H (s\<lparr>triger := c\<rparr>)"
    "pool_kept s H (s\<lparr>warntrig := d\<rparr>)" "pool_kept s H (s\<lparr>canact := e\<rparr>)" "pool_kept s H (s\<lparr>counter := n\<rparr>)"
  by (rule ctl_kept [OF assms]; simp)+

lemma kept_ok: "pool_kept s H s' \<Longrightarrow> gb_ok s' H"
  by (simp add: pool_kept_def)

lemma fit_ok: "pool_fit s H \<Longrightarrow> gb_ok s H"
  by (simp add: pool_fit_def)

definition reps_ok :: "bytes \<Rightarrow> bool" where "reps_ok rep \<longleftrightarrow> rep \<noteq> [] \<and> length rep \<le> 1024"

lemma save_one_realtm: "gb_data_save_realtm s rep = save_in_pack s 0 rep"
  by (simp add: gb_data_save_realtm_def GROUP_SIZE_def)

lemma save_kept:
  assumes "pool_fit s H" "reps_ok rep"
  shows "\<exists>s'. save_in_pack s k rep = Some s' \<and> pool_kept s H s' \<and> gb_ctl s' = gb_ctl s"
proof -
  have "gb_ok s H" "length rep \<le> 1024" using assms by (simp_all add: pool_fit_def reps_ok_def)
  from save_abs [OF this, of k] fit_rooms [OF assms(1)] obtain s' where
    "save_in_pack s k rep = Some s'" "gb_sim s H s' H (spec_save rep (gb_abs_of s))" by auto
  with sim_kept [OF this(2)] show ?thesis by (auto simp: spec_keeps gb_sim_def)
qed

lemma flush_error_kept:
  assumes "pool_fit s H"
  shows "\<exists>s'. gb_data_flush_error s = Some s' \<and> pool_kept s H s' \<and> gb_ctl s' = gb_ctl s"
proof -
  have "gb_ok s H" "length (a_window (gb_abs_of s)) \<le> spec_rooms (gb_abs_of s)"
    using assms fit_rooms [OF assms] window_le_ring [of s] by (simp_all add: pool_fit_def)
  from flush_error_abs [OF this] obtain s' where
    "gb_data_flush_error s = Some s'" "gb_sim s H s' H (spec_flush_error (gb_abs_of s))" by auto
  with sim_kept [OF this(2)] show ?thesis by (auto simp: spec_keeps gb_sim_def)
qed

lemma flush_realtm_kept:
  assumes "pool_fit s H"
  shows "\<exists>s'. gb_data_flush_realtm s = Some s' \<and> pool_kept s H s' \<and> gb_ctl s' = gb_ctl s"
  using flush_realtm_abs [of s H] assms sim_kept [of s H _ "spec_flush_realtm (gb_abs_of s)"]
  by (auto simp: pool_fit_def spec_keeps gb_sim_def)

lemma save_error_kept:
  assumes "pool_fit s H" "reps_ok rep" "gb_inf s"
  shows "\<exists>s'. gb_data_save_error s rep = Some s' \<and> pool_kept s H s' \<and> gb_ctl s' = gb_ctl s"
proof -
  have "gb_ok s H" "rep \<noteq> []" "length rep \<le> 1024" "a_ring (gb_abs_of s) \<noteq> 0"
    using assms by (auto simp: pool_fit_def reps_ok_def)
  from save_error_abs [OF this] obtain s' where
    "gb_data_save_error s rep = Some s'" "gb_sim s H s' H (spec_save_error rep (gb_abs_of s))" by auto
  with sim_kept [OF this(2)] show ?thesis by (auto simp: spec_keeps gb_sim_def)
qed

lemma kept_then:
  assumes "pool_fit s H" "pool_kept s H s1" "\<exists>s'. f s1 = Some s' \<and> pool_kept s1 H s'"
  shows "\<exists>s'. f s1 = Some s' \<and> pool_kept s H s'"
  using assms pool_kept_trans by blast

lemma warn_kept:
  assumes fit: "pool_fit s H"
  shows "\<exists>s'. periodic_warn s = Some s' \<and> pool_kept s H s'"
proof (cases "gb_inf s \<and> warntrig s")
  case False
  then show ?thesis using pool_kept_refl [OF fit_ok [OF fit]] by (auto simp: periodic_warn_def)
next
  case True
  let ?s = "s\<lparr>warntrig := False, times := 30 + 1\<rparr>"
  note k0 = ctl_upds(4) [OF fit_ok [OF fit], of False]
  note k = pool_kept_trans [OF k0 ctl_upds(2) [OF kept_ok [OF k0], of "30 + 1"]]
  show ?thesis
  proof (cases "gb_pendflag s")
    case False
    then have "periodic_warn s = Some (?s\<lparr>triger := True\<rparr>)" using True by (simp add: periodic_warn_def)
    then show ?thesis using pool_kept_trans [OF k ctl_upds(3) [OF kept_ok [OF k], of True]] by auto
  next
    case pend: True
    from flush_realtm_kept [OF pool_kept_fit [OF fit k]] obtain s1 where
      s1: "gb_data_flush_realtm ?s = Some s1" "pool_kept ?s H s1" by auto
    note k1 = pool_kept_trans [OF k s1(2)]
    from flush_error_kept [OF pool_kept_fit [OF fit k1]] pool_kept_trans [OF k1] obtain s2 where
      s2: "gb_data_flush_error s1 = Some s2" "pool_kept s H s2" by auto
    have "periodic_warn s = Some s2" using True pend s1(1) s2(1) by (simp add: periodic_warn_def Let_def)
    with s2(2) show ?thesis by auto
  qed
qed

lemma periodic_save_kept:
  assumes fit: "pool_fit s H" and rep: "reps_ok rep"
  shows "\<exists>s'. periodic_save s period rep = Some s' \<and> pool_kept s H s'"
proof (cases "ticks s \<ge> period")
  case False
  then show ?thesis using pool_kept_refl [OF fit_ok [OF fit]] by (auto simp: periodic_save_def)
next
  case True
  note k = ctl_upds(1) [OF fit_ok [OF fit], of 0]
  from save_kept [OF pool_kept_fit [OF fit k] rep, of 0] obtain s1 where
    s1: "gb_data_save_realtm (s\<lparr>ticks := 0\<rparr>) rep = Some s1" "pool_kept (s\<lparr>ticks := 0\<rparr>) H s1" by (auto simp: save_one_realtm)
  note k1 = pool_kept_trans [OF k s1(2)]
  note k3 = pool_kept_trans [OF k1 ctl_upds(3) [OF kept_ok [OF k1], of False]]
  from flush_error_kept [OF pool_kept_fit [OF fit k3]] pool_kept_trans [OF k3] obtain s2 where
    s2: "gb_data_flush_error (s1\<lparr>triger := False\<rparr>) = Some s2" "pool_kept s H s2" by auto
  have "periodic_save s period rep = (if triger s1 then Some s2 else Some s1)"
    using True s1(1) s2(1) by (simp add: periodic_save_def)
  with k1 s2(2) show ?thesis by (cases "triger s1") auto
qed

lemma periodic_kept:
  assumes fit: "pool_fit s H" and rep: "reps_ok rep" and inf: "gb_inf s"
  shows "\<exists>s'. gb_data_periodic s intv rep = Some s' \<and> pool_kept s H s'"
proof -
  from warn_kept [OF fit] obtain s1 where s1: "periodic_warn s = Some s1" "pool_kept s H s1" by auto
  let ?s = "s1\<lparr>ticks := ticks s1 + 1\<rparr>"
  note k = pool_kept_trans [OF s1(2) ctl_upds(1) [OF kept_ok [OF s1(2)], of "ticks s1 + 1"]]
  note fit1 = pool_kept_fit [OF fit k]
  show ?thesis
  proof (cases "times s1 = 0")
    case True
    have "gb_inf ?s" using k inf by (simp add: pool_kept_def)
    from save_error_kept [OF fit1 rep this] obtain s2 where s2: "gb_data_save_error ?s rep = Some s2" "pool_kept ?s H s2" by auto
    note k2 = pool_kept_trans [OF k s2(2)]
    from periodic_save_kept [OF pool_kept_fit [OF fit k2] rep, of intv] pool_kept_trans [OF k2] obtain s3 where
      "periodic_save s2 intv rep = Some s3" "pool_kept s H s3" by auto
    with s1(1) s2(1) True show ?thesis by (simp add: gb_data_periodic_def Let_def)
  next
    case False
    let ?t = "?s\<lparr>times := times ?s - 1\<rparr>"
    note k2 = pool_kept_trans [OF k ctl_upds(2) [OF kept_ok [OF k], of "times ?s - 1"]]
    from periodic_save_kept [OF pool_kept_fit [OF fit k2] rep] pool_kept_trans [OF k2] obtain s3 where
      "periodic_save ?t (if times ?t = 0 then intv else 1) rep = Some s3" "pool_kept s H s3" by blast
    with s1(1) False show ?thesis by (simp add: gb_data_periodic_def Let_def)
  qed
qed

text \<open>The frames of the CAN and the other events.\<close>

definition msgs_ok :: "can_msg list \<Rightarrow> bool" where "msgs_ok ms \<longleftrightarrow> (\<forall>m\<in>set ms. reps_ok (cm_report m))"

lemma can_msgs_kept:
  "pool_fit s H \<Longrightarrow> msgs_ok ms \<Longrightarrow> \<exists>s' out. can_msgs s ms = (Some s', out) \<and> pool_kept s H s'"
proof (induction ms arbitrary: s)
  case Nil
  then show ?case by (simp add: pool_kept_refl fit_ok)
next
  case (Cons m ms)
  note fit = Cons.prems(1)
  have rep: "reps_ok (cm_report m)" and ms: "msgs_ok ms" using Cons.prems(2) by (simp_all add: msgs_ok_def)
  show ?case
  proof (cases "canact s \<and> gb_inf s")
    case False
    then show ?thesis by (auto simp: pool_kept_refl fit_ok fit)
  next
    case True
    let ?s = "if cm_type m = CHR ''T'' then s\<lparr>counter := counter s + 1\<rparr> else s"
    let ?r = "if cm_type m = CHR ''T'' \<and> counter ?s = 100
      then gb_data_periodic (?s\<lparr>counter := 0\<rparr>) (uint (gb_datintv ?s)) (cm_report m) else Some ?s"
    have k: "pool_kept s H ?s" using ctl_upds(6) [OF fit_ok [OF fit]] pool_kept_refl [OF fit_ok [OF fit]] by simp
    note k2 = pool_kept_trans [OF k ctl_upds(6) [OF kept_ok [OF k], of 0]]
    have "gb_inf (?s\<lparr>counter := 0\<rparr>)" using True by simp
    from periodic_kept [OF pool_kept_fit [OF fit k2] rep this] obtain s1 where s1:
      "gb_data_periodic (?s\<lparr>counter := 0\<rparr>) (uint (gb_datintv ?s)) (cm_report m) = Some s1" "pool_kept (?s\<lparr>counter := 0\<rparr>) H s1" by blast
    obtain s2 where s2: "?r = Some s2" "pool_kept s H s2"
      using s1(1) pool_kept_trans [OF k2 s1(2)] k by (cases "cm_type m = CHR ''T'' \<and> counter ?s = 100") auto
    from Cons.IH [OF pool_kept_fit [OF fit s2(2)] ms] obtain s3 out where s3: "can_msgs s2 ms = (Some s3, out)" "pool_kept s2 H s3"
      by blast
    have "can_msgs s (m # ms) = (Some s3, (if cm_MsgID m = 0x3D1 then [cm_Data m] else []) @ out)"
      unfolding can_msgs.simps Let_def if_P [OF True] s2(1) by (simp only: option.case s3(1) prod.case)
    with pool_kept_trans [OF s2(2) s3(2)] show ?thesis by blast
  qed
qed

lemma can_cb_kept:
  assumes fit: "pool_fit s H" and ms: "msgs_ok ms" and trig: "\<forall>rep. trig = Some rep \<longrightarrow> reps_ok rep"
  shows "\<exists>s' out. gb_data_can_cb s event ms trig = (Some s', out) \<and> pool_kept s H s'"
proof -
  have clear: "\<exists>s'. gb_data_clear_error (s\<lparr>canact := False\<rparr>) = Some s' \<and> pool_kept s H s'"
  proof -
    note k = ctl_upds(5) [OF fit_ok [OF fit], of False]
    from clear_error_abs [OF kept_ok [OF k]] obtain s' where s': "gb_data_clear_error (s\<lparr>canact := False\<rparr>) = Some s'"
      "gb_sim (s\<lparr>canact := False\<rparr>) H s' H ((gb_abs_of (s\<lparr>canact := False\<rparr>))\<lparr>a_window := []\<rparr>)" by auto
    with pool_kept_trans [OF k sim_kept [OF s'(2)]] show ?thesis by simp
  qed
  show ?thesis
  proof (cases event)
    case CAN_EVENT_ACTIVE
    with ctl_upds(5) [OF fit_ok [OF fit], of True] show ?thesis by (simp add: gb_data_can_cb_def)
  next
    case CAN_EVENT_SLEEP
    with clear show ?thesis by (simp add: gb_data_can_cb_def)
  next
    case CAN_EVENT_TIMEOUT
    with clear show ?thesis by (simp add: gb_data_can_cb_def)
  next
    case CAN_EVENT_DATAIN
    from can_msgs_kept [OF fit ms] obtain s1 out where s1: "can_msgs s ms = (Some s1, out)" "pool_kept s H s1" by blast
    have "\<exists>s'. (if gb_inf s1 then gb_data_eventReport s1 trig else Some s1) = Some s' \<and> pool_kept s H s'"
    proof (cases "gb_inf s1 \<and> trig \<noteq> None")
      case False
      with s1(2) show ?thesis by (auto simp: gb_data_eventReport_def)
    next
      case True
      then obtain rep where r: "trig = Some rep" by auto
      with trig have "reps_ok rep" by blast
      from save_kept [OF pool_kept_fit [OF fit s1(2)] this, of "length rep"] pool_kept_trans [OF s1(2)]
      obtain s2 where "save_in_pack s1 (length rep) rep = Some s2" "pool_kept s H s2" by blast
      with r True show ?thesis by (simp add: gb_data_eventReport_def)
    qed
    with CAN_EVENT_DATAIN s1(1) show ?thesis by (simp add: gb_data_can_cb_def)
  qed
qed

section \<open>The reports of quiet and of faulty times\<close>

lemma spec_save_free:
  "0 < a_free A \<Longrightarrow> spec_save rep A = A\<lparr>a_free := a_free A - 1, a_realtm := a_realtm A @ [(2, rep)]\<rparr>"
  by (simp add: spec_save_def spec_room_def Let_def)

lemma spec_flush_error_free:
  "length (a_window A) \<le> a_free A \<Longrightarrow> spec_flush_error A = A\<lparr>a_free := a_free A - length (a_window A),
     a_delay := a_delay A @ map (Pair 3) (a_window A), a_window := []\<rparr>"
  by (simp add: spec_flush_error_def spec_room_def Let_def)

fun periodic_run :: "gb_pool_t \<Rightarrow> int \<Rightarrow> bytes list \<Rightarrow> gb_pool_t option" where
  "periodic_run s intv [] = Some s"
| "periodic_run s intv (rep # reps) = Option.bind (gb_data_periodic s intv rep) (\<lambda>s. periodic_run s intv reps)"

definition quiet :: "gb_pool_t \<Rightarrow> bool" where
  "quiet s \<longleftrightarrow> times s = 0 \<and> \<not> warntrig s \<and> \<not> triger s \<and> 0 \<le> ticks s"

lemma ctl_ok: "gb_ok s H \<Longrightarrow> gb_ok (s\<lparr>ticks := a\<rparr>) H" "gb_ok s H \<Longrightarrow> gb_ok (s\<lparr>triger := b\<rparr>) H"
    "gb_ok s H \<Longrightarrow> gb_ok (s\<lparr>times := c\<rparr>) H" "gb_ok s H \<Longrightarrow> gb_ok (s\<lparr>warntrig := d\<rparr>) H"
  and ctl_abs [simp]: "gb_abs_of (s\<lparr>ticks := a\<rparr>) = gb_abs_of s" "gb_abs_of (s\<lparr>triger := b\<rparr>) = gb_abs_of s"
    "gb_abs_of (s\<lparr>times := c\<rparr>) = gb_abs_of s" "gb_abs_of (s\<lparr>warntrig := d\<rparr>) = gb_abs_of s"
  using GB_at_ctl [of "s\<lparr>ticks := a\<rparr>" s] GB_at_ctl [of "s\<lparr>triger := b\<rparr>" s] GB_at_ctl [of "s\<lparr>times := c\<rparr>" s]
    GB_at_ctl [of "s\<lparr>warntrig := d\<rparr>" s] by simp_all

lemma save_step:
  assumes "gb_ok s H" "reps_ok rep" "0 < spec_rooms (gb_abs_of s)"
  shows "\<exists>s'. gb_data_save_realtm s rep = Some s' \<and> gb_sim s H s' H (spec_save rep (gb_abs_of s))"
  using save_abs [OF assms(1), of rep 0] assms(2,3) by (simp add: save_one_realtm reps_ok_def)

text \<open>Saving several reports: each takes a free pack or, when none is left, throws away the oldest delayed report, or the oldest
  current one when none is delayed.\<close>

definition spec_saves :: "bytes list \<Rightarrow> gb_abs \<Rightarrow> gb_abs" where
  "spec_saves reps A =
     (let n = length reps - a_free A
      in A\<lparr>a_free := a_free A - length reps, a_delay := drop n (a_delay A),
           a_realtm := drop (n - length (a_delay A)) (a_realtm A @ map (Pair 2) reps)\<rparr>)"

lemma spec_saves_Nil [simp]: "spec_saves [] A = A"
  by (simp add: spec_saves_def)

lemma spec_save_rooms [simp]: "0 < spec_rooms A \<Longrightarrow> spec_rooms (spec_save rep A) = spec_rooms A"
  by (cases "a_free A"; cases "a_delay A") (auto simp: spec_rooms_def spec_save_def spec_room_def Let_def)

lemma spec_saves_Cons:
  assumes "0 < spec_rooms A"
  shows "spec_saves (rep # reps) A = spec_saves reps (spec_save rep A)"
proof (cases "a_free A")
  case (Suc f)
  then show ?thesis by (simp add: spec_saves_def spec_save_def spec_room_def Let_def)
next
  case 0
  show ?thesis
  proof (cases "a_delay A")
    case Nil
    with 0 assms obtain r rs where "a_realtm A = r # rs" by (cases "a_realtm A") (auto simp: spec_rooms_def)
    with 0 Nil show ?thesis by (simp add: spec_saves_def spec_save_def spec_room_def Let_def)
  qed (use 0 in \<open>simp add: spec_saves_def spec_save_def spec_room_def Let_def\<close>)
qed

lemma save_error_rooms [simp]: "spec_rooms (spec_save_error rep A) = spec_rooms A"
  by (simp add: spec_rooms_def spec_save_error_def)

lemma quiet_step:
  fixes intv :: int
  assumes ok: "gb_ok s H" and q: "quiet s" and rep: "reps_ok rep" and ring: "a_ring (gb_abs_of s) \<noteq> 0"
    and free: "0 < spec_rooms (gb_abs_of s)"
  defines "due \<equiv> intv \<le> ticks s + 1"
  shows "\<exists>s'. gb_data_periodic s intv rep = Some s' \<and> gb_ok s' H \<and> quiet s'
    \<and> ticks s' = (if due then 0 else ticks s + 1)
    \<and> gb_abs_of s' = (if due then spec_save rep (spec_save_error rep (gb_abs_of s)) else spec_save_error rep (gb_abs_of s))"
proof -
  let ?s = "s\<lparr>ticks := ticks s + 1\<rparr>"
  have "gb_ok ?s H" "rep \<noteq> []" "length rep \<le> 1024" "a_ring (gb_abs_of ?s) \<noteq> 0"
    using ok rep ring by (simp_all add: ctl_ok reps_ok_def)
  from save_error_abs [OF this] obtain s1 where s1: "gb_data_save_error ?s rep = Some s1"
    "gb_sim ?s H s1 H (spec_save_error rep (gb_abs_of s))" by auto
  then have c: "gb_ok s1 H" "gb_abs_of s1 = spec_save_error rep (gb_abs_of s)" "ticks s1 = ticks s + 1" "times s1 = 0"
    "\<not> warntrig s1" "\<not> triger s1" using q by (auto simp: gb_sim_def gb_ctl_def quiet_def)
  have p: "gb_data_periodic s intv rep = periodic_save s1 intv rep"
    using q s1(1) by (simp add: gb_data_periodic_def periodic_warn_def quiet_def)
  show ?thesis
  proof (cases due)
    case False
    with p c q show ?thesis by (auto simp: periodic_save_def due_def quiet_def)
  next
    case True
    have "0 < spec_rooms (gb_abs_of (s1\<lparr>ticks := 0\<rparr>))" using c(2) free by simp
    from save_step [OF ctl_ok(1) [OF c(1)] rep this] obtain s2 where s2: "gb_data_save_realtm (s1\<lparr>ticks := 0\<rparr>) rep = Some s2"
      "gb_sim (s1\<lparr>ticks := 0\<rparr>) H s2 H (spec_save rep (gb_abs_of s1))" by auto
    then have "ticks s2 = 0" "times s2 = 0" "\<not> warntrig s2" "\<not> triger s2" "gb_ok s2 H" "gb_abs_of s2 = spec_save rep (gb_abs_of s1)"
      using c by (auto simp: gb_sim_def gb_ctl_def)
    with True p s2(1) c show ?thesis by (auto simp: periodic_save_def due_def quiet_def)
  qed
qed

lemma window_run:
  "length w \<le> n \<Longrightarrow> 0 < n \<Longrightarrow>
   drop (length ((if length w < n then w else tl w) @ [r] @ rs) - n) ((if length w < n then w else tl w) @ [r] @ rs)
   = drop (length (w @ r # rs) - n) (w @ r # rs)"
  by (cases w) (auto simp: drop_Cons')

definition due_at :: "int \<Rightarrow> int \<Rightarrow> nat \<Rightarrow> bool" where
  "due_at intv t k \<longleftrightarrow> (t + int k + 1) mod intv = 0"

lemma due_list:
  assumes "0 < intv" "0 \<le> t" "t < intv"
  shows "[k \<leftarrow> [0..<Suc n]. due_at intv t k] =
    (if intv \<le> t + 1 then 0 # map Suc [k \<leftarrow> [0..<n]. due_at intv 0 k]
     else map Suc [k \<leftarrow> [0..<n]. due_at intv (t + 1) k])"
proof -
  have u: "[0..<Suc n] = 0 # map Suc [0..<n]" by (simp only: upt_conv_Cons map_Suc_upt zero_less_Suc)
  have "due_at intv t 0 \<longleftrightarrow> intv \<le> t + 1"
  proof (cases "intv \<le> t + 1")
    case True
    then have "t + 1 = intv" using assms by simp
    with True show ?thesis by (simp add: due_at_def)
  next
    case False
    then have "(t + 1) mod intv = t + 1" using assms by simp
    with False assms show ?thesis by (simp only: due_at_def) simp
  qed
  moreover have "due_at intv t (Suc k) \<longleftrightarrow> due_at intv (if intv \<le> t + 1 then 0 else t + 1) k" for k
  proof (cases "intv \<le> t + 1")
    case True
    then have e: "t + 1 = intv" using assms by simp
    have "t + int (Suc k) + 1 = (int k + 1) + (t + 1)" by simp
    then have "(t + int (Suc k) + 1) mod intv = (int k + 1) mod intv" unfolding e by (simp only: mod_add_self2)
    with True show ?thesis by (simp add: due_at_def)
  next
    case False
    then show ?thesis by (simp add: due_at_def algebra_simps)
  qed
  ultimately show ?thesis unfolding u by (simp add: filter_map comp_def)
qed

definition due_in :: "int \<Rightarrow> int \<Rightarrow> 'a list \<Rightarrow> 'a list" where
  "due_in intv t xs = map ((!) xs) [k \<leftarrow> [0..<length xs]. due_at intv t k]"

lemma due_in_Cons:
  assumes "0 < intv" "0 \<le> t" "t < intv"
  shows "due_in intv t (x # xs) = (if intv \<le> t + 1 then x # due_in intv 0 xs else due_in intv (t + 1) xs)"
  unfolding due_in_def length_Cons due_list [OF assms] by (simp add: comp_def)

text \<open>A counter that is already beyond a shortened period counts as the last second of the period.\<close>

lemma due_next:
  fixes t :: int
  assumes "0 < intv" "0 \<le> t"
  shows "intv \<le> min t (intv - 1) + 1 \<longleftrightarrow> intv \<le> t + 1" "\<not> intv \<le> t + 1 \<Longrightarrow> min t (intv - 1) + 1 = min (t + 1) (intv - 1)"
  using assms by auto

lemma saves_other:
  "a_window (spec_save rep A) = a_window A" "a_trans (spec_save rep A) = a_trans A" "a_ring (spec_save rep A) = a_ring A"
  "a_window (spec_saves reps A) = a_window A" "a_trans (spec_saves reps A) = a_trans A"
  by (simp_all add: spec_save_def spec_saves_def spec_room_def Let_def)

lemma saves_same:
  assumes "a_free A = a_free B" "a_delay A = a_delay B" "a_realtm A = a_realtm B"
  shows "a_delay (spec_saves reps A) = a_delay (spec_saves reps B) \<and> a_realtm (spec_saves reps A) = a_realtm (spec_saves reps B)"
  using assms by (simp add: spec_saves_def Let_def)

lemma quiet_run:
  assumes "gb_ok s H" "quiet s" "\<forall>rep\<in>set reps. reps_ok rep" "a_ring (gb_abs_of s) = n" "0 < n"
    "0 < spec_rooms (gb_abs_of s)" "0 < intv"
  defines "new \<equiv> due_in intv (min (ticks s) (intv - 1)) reps"
  shows "\<exists>s'. periodic_run s intv reps = Some s'
    \<and> a_realtm (gb_abs_of s') = a_realtm (spec_saves new (gb_abs_of s)) \<and> a_delay (gb_abs_of s') = a_delay (spec_saves new (gb_abs_of s))
    \<and> a_window (gb_abs_of s') = drop (length (a_window (gb_abs_of s) @ reps) - n) (a_window (gb_abs_of s) @ reps)
    \<and> a_trans (gb_abs_of s') = a_trans (gb_abs_of s)"
  using assms(1-7) unfolding new_def
proof (induction reps arbitrary: s)
  case Nil
  then show ?case using window_le_ring [of s] by (simp add: due_in_def)
next
  case (Cons rep reps)
  let ?A = "gb_abs_of s" and ?due = "intv \<le> ticks s + 1"
  have "reps_ok rep" "a_ring ?A \<noteq> 0" and free: "0 < spec_rooms ?A" using Cons.prems by simp_all
  from quiet_step [OF Cons.prems(1,2) this] obtain s1 where s1: "gb_data_periodic s intv rep = Some s1" "gb_ok s1 H" "quiet s1"
    "ticks s1 = (if ?due then 0 else ticks s + 1)"
    "gb_abs_of s1 = (if ?due then spec_save rep (spec_save_error rep ?A) else spec_save_error rep ?A)" by blast
  let ?now = "if ?due then [rep] else []" and ?t = "min (ticks s) (intv - 1)" and ?later = "due_in intv (min (ticks s1) (intv - 1)) reps"
  have f: "0 < spec_rooms (spec_save_error rep ?A)" using free by simp
  have a1: "a_window (gb_abs_of s1) = (if length (a_window ?A) < n then a_window ?A else tl (a_window ?A)) @ [rep]"
    "a_trans (gb_abs_of s1) = a_trans ?A" "a_ring (gb_abs_of s1) = n" "0 < spec_rooms (gb_abs_of s1)"
    using s1(5) Cons.prems(4) f by (auto simp: saves_other) (simp_all add: spec_save_error_def)
  have t0: "0 \<le> ticks s" using Cons.prems(2) by (simp add: quiet_def)
  note due = due_next [OF Cons.prems(7) t0]
  have new: "due_in intv ?t (rep # reps) = ?now @ ?later"
    using due_in_Cons [OF Cons.prems(7), of ?t rep reps] Cons.prems(7) t0 s1(4) due by auto
  have all: "spec_saves (?now @ ?later) (spec_save_error rep ?A) = spec_saves ?later (gb_abs_of s1)"
    using s1(5) spec_saves_Cons [OF f] by simp
  have reps: "\<forall>rep\<in>set reps. reps_ok rep" using Cons.prems(3) by simp
  from Cons.IH [OF s1(2,3) reps a1(3) Cons.prems(5) a1(4) Cons.prems(7)] obtain s' where s':
    "periodic_run s1 intv reps = Some s'"
    "a_realtm (gb_abs_of s') = a_realtm (spec_saves ?later (gb_abs_of s1))"
    "a_delay (gb_abs_of s') = a_delay (spec_saves ?later (gb_abs_of s1))"
    "a_window (gb_abs_of s') = drop (length (a_window (gb_abs_of s1) @ reps) - n) (a_window (gb_abs_of s1) @ reps)"
    "a_trans (gb_abs_of s') = a_trans ?A" using a1 by auto
  have "a_window (gb_abs_of s') = drop (length (a_window ?A @ rep # reps) - n) (a_window ?A @ rep # reps)"
    using s'(4) a1(1) window_run [of "a_window ?A" n rep reps] window_le_ring [of s] Cons.prems(4,5) by (simp only: append_assoc)
  moreover have "a_delay (spec_saves ks (spec_save_error rep ?A)) = a_delay (spec_saves ks ?A)
      \<and> a_realtm (spec_saves ks (spec_save_error rep ?A)) = a_realtm (spec_saves ks ?A)" for ks
    by (rule saves_same) (simp_all add: spec_save_error_def)
  ultimately show ?case using s1(1) s'(1,5) s'(2,3) [folded all, folded new] by simp
qed

text \<open>After a fault: \<open>times\<close> counts the seconds that are left.\<close>

lemma fault_step:
  assumes ok: "gb_ok s H" and t: "1 < times s" "0 \<le> ticks s" "\<not> warntrig s" and rep: "reps_ok rep"
    and free: "length (a_window (gb_abs_of s)) < a_free (gb_abs_of s)"
  defines "A \<equiv> spec_save rep (gb_abs_of s)"
  shows "\<exists>s'. gb_data_periodic s intv rep = Some s' \<and> gb_ok s' H \<and> times s' = times s - 1 \<and> ticks s' = 0
    \<and> \<not> warntrig s' \<and> \<not> triger s' \<and> gb_abs_of s' = (if triger s then spec_flush_error A else A)"
proof -
  let ?s = "s\<lparr>times := times s - 1, ticks := 0\<rparr>"
  have o: "gb_ok ?s H" "gb_abs_of ?s = gb_abs_of s" using ctl_ok(1) [OF ctl_ok(3) [OF ok]] by simp_all
  with save_step [OF o(1) rep] free spec_rooms_def [of "gb_abs_of s"] obtain s1 where s1: "gb_data_save_realtm ?s rep = Some s1" "gb_sim ?s H s1 H A"
    by (auto simp: A_def)
  then have c: "gb_ok s1 H" "gb_abs_of s1 = A" "ticks s1 = 0" "times s1 = times s - 1" "\<not> warntrig s1" "triger s1 = triger s"
    using t by (auto simp: gb_sim_def gb_ctl_def)
  have p: "gb_data_periodic s intv rep = (if triger s then gb_data_flush_error (s1\<lparr>triger := False\<rparr>) else Some s1)"
    using t s1(1) c(6) by (simp add: gb_data_periodic_def periodic_warn_def periodic_save_def Let_def)
  show ?thesis
  proof (cases "triger s")
    case False
    with p c show ?thesis by simp
  next
    case True
    have "length (a_window A) \<le> spec_rooms A"
      using free by (simp add: A_def spec_save_free spec_rooms_def)
    with flush_error_abs [OF ctl_ok(2) [OF c(1)], of False] c(2) obtain s2 where s2:
      "gb_data_flush_error (s1\<lparr>triger := False\<rparr>) = Some s2" "gb_sim (s1\<lparr>triger := False\<rparr>) H s2 H (spec_flush_error A)" by auto
    then have "gb_ok s2 H" "gb_abs_of s2 = spec_flush_error A" "ticks s2 = 0" "times s2 = times s - 1" "\<not> warntrig s2" "\<not> triger s2"
      using c by (auto simp: gb_sim_def gb_ctl_def)
    with True p s2(1) show ?thesis by simp
  qed
qed

lemma fault_run:
  assumes "gb_ok s H" "int (length reps) < times s" "0 \<le> ticks s" "\<not> warntrig s" "\<not> triger s" "\<forall>rep\<in>set reps. reps_ok rep"
    "length (a_window (gb_abs_of s)) + length reps \<le> a_free (gb_abs_of s)"
  shows "\<exists>s'. periodic_run s intv reps = Some s' \<and> a_realtm (gb_abs_of s') = a_realtm (gb_abs_of s) @ map (Pair 2) reps
    \<and> a_delay (gb_abs_of s') = a_delay (gb_abs_of s) \<and> a_window (gb_abs_of s') = a_window (gb_abs_of s)"
  using assms
proof (induction reps arbitrary: s)
  case (Cons rep reps)
  let ?A = "gb_abs_of s"
  have free: "0 < a_free ?A" using Cons.prems(7) by simp
  from fault_step [of s H rep intv] Cons.prems obtain s1 where s1: "gb_data_periodic s intv rep = Some s1" "gb_ok s1 H"
    "times s1 = times s - 1" "ticks s1 = 0" "\<not> warntrig s1" "\<not> triger s1" "gb_abs_of s1 = spec_save rep ?A" by auto
  have "length (a_window (gb_abs_of s1)) + length reps \<le> a_free (gb_abs_of s1)"
    using s1(7) Cons.prems(7) by (simp add: spec_save_free [OF free])
  with Cons.IH [of s1] s1 Cons.prems(2,6) obtain s' where s': "periodic_run s1 intv reps = Some s'"
    "a_realtm (gb_abs_of s') = a_realtm (gb_abs_of s1) @ map (Pair 2) reps"
    "a_delay (gb_abs_of s') = a_delay (gb_abs_of s1)" "a_window (gb_abs_of s') = a_window (gb_abs_of s1)"
    by (auto simp: spec_save_free [OF free])
  then show ?case using s1(1,7) by (simp add: spec_save_free [OF free])
qed simp

section \<open>Properties\<close>

lemma abs_fields:
  "a_free (gb_abs_of s) = length (gb_reports s GB_free_lst)" "a_realtm (gb_abs_of s) = gb_reports s GB_realtm_lst"
  "a_delay (gb_abs_of s) = gb_reports s GB_delay_lst" "a_trans (gb_abs_of s) = gb_reports s GB_trans_lst"
  "a_ring (gb_abs_of s) = length (gb_ring s)" "a_window (gb_abs_of s) = gb_window s"
  by (simp_all add: gb_abs_of_def)

text \<open>A concrete pool for the witnesses: freshly initialised, with the ring laid.\<close>

definition demo_pack :: gb_pack_t where
  "demo_pack = \<lparr>pk_data = replicate 1024 0, pk_len = 0, pk_seq = 0, pk_type = 0, pk_list = GB_free_lst\<rparr>"

definition demo_gb0 :: gb_pool_t where
  "demo_gb0 = \<lparr>gb_cells = \<lparr>lnext = (\<lambda>_. GB_free_lst), lprev = (\<lambda>_. GB_free_lst)\<rparr>, gb_datamem = replicate 2000 demo_pack,
     gb_errmem = replicate 120 demo_pack, gb_errlst_head = None, gb_emerg = False, gb_pendflag = False, gb_datintv = 10,
     gb_inf = True, warntrig = False, ticks = 0, times = 0, triger = False, canact = True, counter = 0\<rparr>"

definition demo_gb :: gb_pool_t where "demo_gb = err_ring_init (gb_data_clear_report demo_gb0)"

lemma clear_report_rest:
  "gb_data_clear_report s = s\<lparr>gb_cells := gb_cells (gb_data_clear_report s)\<rparr>"
  by (simp add: gb_data_clear_report_def Let_def)

lemma demo_gb_at:
  "gb_ok demo_gb {}" "gb_abs_of demo_gb = \<lparr>a_free = 2000, a_realtm = [], a_delay = [], a_trans = [], a_ring = 30, a_window = []\<rparr>"
  "gb_ctl demo_gb = gb_ctl demo_gb0"
proof -
  let ?L = "\<lambda>b. if b = GB_free_lst then [0..<2000] else []"
  have "GB_at (gb_data_clear_report demo_gb0) ?L {} []"
    by (rule clear_report_at) (simp_all add: demo_gb0_def demo_pack_def)
  moreover have e: "gb_errmem (gb_data_clear_report demo_gb0) = replicate 120 demo_pack"
    "gb_ctl (gb_data_clear_report demo_gb0) = gb_ctl demo_gb0"
    by (subst clear_report_rest, simp add: demo_gb0_def gb_ctl_def)+
  ultimately have i: "GB_at demo_gb ?L {} [0..<30]" "gb_ctl demo_gb = gb_ctl (gb_data_clear_report demo_gb0)"
    "kept_packs (map ((!) (gb_errmem demo_gb)) [0..<30]) = []"
    using err_ring_init_law [of "gb_data_clear_report demo_gb0" ?L "{}"] by (simp_all add: demo_gb_def demo_pack_def)
  then show "gb_ok demo_gb {}" "gb_ctl demo_gb = gb_ctl demo_gb0" using e(2) by (auto simp: gb_ok_def)
  show "gb_abs_of demo_gb = \<lparr>a_free = 2000, a_realtm = [], a_delay = [], a_trans = [], a_ring = 30, a_window = []\<rparr>"
    using abs_of_eq [OF i(1)] i(3) by (simp add: abs_of_def)
qed

lemma demo_gb_fields:
  "gb_inf demo_gb" "\<not> gb_pendflag demo_gb" "\<not> warntrig demo_gb" "times demo_gb = 0" "ticks demo_gb = 0" "\<not> triger demo_gb"
  "gb_reports demo_gb GB_trans_lst = []" "gb_reports demo_gb GB_realtm_lst = []" "gb_reports demo_gb GB_delay_lst = []"
  "length (gb_reports demo_gb GB_free_lst) = 2000" "length (gb_ring demo_gb) = 30" "gb_window demo_gb = []"
  using demo_gb_at(2,3) by (simp_all add: gb_ctl_def demo_gb0_def abs_fields [symmetric])

text \<open>C18: After a new login the reports that were sent and never acknowledged are queued again in front of those
  still waiting, each kind in its order, and all of them become delayed reports: nothing is left on the other
  two lists, and both loops over the pointers end.\<close>

theorem gb_reports_requeued:
  assumes "gb_ok s H"
  shows "\<exists>s1 s2. gb_data_flush_sending s = Some s1 \<and> gb_data_flush_realtm s1 = Some s2
    \<and> gb_reports s2 GB_trans_lst = [] \<and> gb_reports s2 GB_realtm_lst = []
    \<and> gb_reports s2 GB_delay_lst =
        filter (\<lambda>r. fst r = 3) (gb_reports s GB_trans_lst) @ gb_reports s GB_delay_lst
        @ map as_delayed (filter (\<lambda>r. fst r = 2) (gb_reports s GB_trans_lst) @ gb_reports s GB_realtm_lst)
    \<and> length (gb_reports s2 GB_free_lst) = length (gb_reports s GB_free_lst)"
proof -
  from flush_sending_abs [OF assms] obtain s1 where s1: "gb_data_flush_sending s = Some s1"
    "gb_ok s1 H" "gb_abs_of s1 = spec_flush_sending (gb_abs_of s)" by (auto simp: gb_sim_def)
  from flush_realtm_abs [OF s1(2)] obtain s2 where s2: "gb_data_flush_realtm s1 = Some s2"
    "gb_abs_of s2 = spec_flush_realtm (gb_abs_of s1)" by (auto simp: gb_sim_def)
  show ?thesis using s1 s2 unfolding abs_fields [symmetric]
    by (auto simp: spec_flush_sending_def spec_flush_realtm_def)
qed

theorem gb_reports_requeued_witness:
  "\<exists>s1 s2. gb_data_flush_sending demo_gb = Some s1 \<and> gb_data_flush_realtm s1 = Some s2
    \<and> gb_reports s2 GB_delay_lst = [] \<and> length (gb_reports s2 GB_free_lst) = 2000"
  using gb_reports_requeued [OF demo_gb_at(1)] by (auto simp: demo_gb_fields)

text \<open>C19: Second by second in quiet times (no fault signalled, none in the last half minute), with a ring of packs and
  reports of 1 to 1024 bytes: a report is saved exactly in every second that completes the period (a second counter already
  beyond a shortened period completes it in the next second), and the ring
  holds the reports of the last seconds, as many as it has packs. While free packs are left nothing else changes;
  beyond them each report saved throws away the oldest delayed one, and when none is delayed the oldest current one.\<close>

theorem gb_report_period:
  assumes "gb_ok s H" "quiet s" "\<forall>rep\<in>set reps. reps_ok rep" "gb_ring s \<noteq> []" "0 < intv"
    and "0 < length (gb_reports s GB_free_lst @ gb_reports s GB_delay_lst @ gb_reports s GB_realtm_lst)"
  defines "new \<equiv> [(2, reps ! k). k \<leftarrow> [0..<length reps], (min (ticks s) (intv - 1) + int k + 1) mod intv = 0]"
    and "d \<equiv> length (gb_reports s GB_delay_lst)"
  defines "lost \<equiv> length new - length (gb_reports s GB_free_lst)"
  shows "\<exists>s'. periodic_run s intv reps = Some s'
    \<and> gb_reports s' GB_realtm_lst = drop (lost - d) (gb_reports s GB_realtm_lst @ new)
    \<and> gb_reports s' GB_delay_lst = drop lost (gb_reports s GB_delay_lst)
    \<and> gb_window s' = drop (length (gb_window s @ reps) - length (gb_ring s)) (gb_window s @ reps)
    \<and> gb_reports s' GB_trans_lst = gb_reports s GB_trans_lst"
proof -
  have "concat (map (\<lambda>k. if P k then [f k] else []) ks) = map f (filter P ks)" for P :: "nat \<Rightarrow> bool" and f :: "nat \<Rightarrow> u32 \<times> bytes" and ks
    by (induction ks) auto
  then have new: "new = map (Pair 2) (due_in intv (min (ticks s) (intv - 1)) reps)"
    by (simp add: new_def due_in_def due_at_def comp_def)
  from quiet_run [OF assms(1-3), of "length (gb_ring s)" intv] assms(4-6) show ?thesis
    unfolding lost_def d_def new by (simp add: abs_fields spec_rooms_def spec_saves_def Let_def add.assoc)
qed

theorem gb_report_period_witness:
  "\<exists>s'. periodic_run demo_gb 2 [[1], [2], [3], [4], [5]] = Some s'
    \<and> gb_reports s' GB_realtm_lst = [(2, [2]), (2, [4])] \<and> gb_window s' = [[1], [2], [3], [4], [5]]"
proof -
  have q: "quiet demo_gb" "\<forall>rep\<in>set [[1], [2], [3], [4], [5]]. reps_ok rep" "gb_ring demo_gb \<noteq> []"
    "(0::int) < 2" "0 < length (gb_reports demo_gb GB_free_lst @ gb_reports demo_gb GB_delay_lst @ gb_reports demo_gb GB_realtm_lst)"
    using demo_gb_fields by (auto simp: quiet_def reps_ok_def)
  from gb_report_period [OF demo_gb_at(1) q] show ?thesis by (auto simp: demo_gb_fields upt_rec)
qed

text \<open>The two ways the waiting reports of the ring take at a fault: with the service running they follow the delayed
  reports once the first report of the fault is saved, with the service suspended the current reports become delayed ones before
  that and go ahead of them.\<close>

lemma fault_start:
  assumes "gb_ok s H" "gb_inf s" "warntrig s" "0 \<le> ticks s" "reps_ok rep" "length (a_window (gb_abs_of s)) < a_free (gb_abs_of s)"
  shows "\<exists>s1. gb_data_periodic s intv rep = Some s1 \<and> gb_ok s1 H \<and> times s1 = 30 \<and> ticks s1 = 0 \<and> \<not> warntrig s1 \<and> \<not> triger s1
    \<and> a_free (gb_abs_of s1) = a_free (gb_abs_of s) - 1 - length (a_window (gb_abs_of s)) \<and> a_window (gb_abs_of s1) = []
    \<and> a_realtm (gb_abs_of s1) = (if gb_pendflag s then [] else a_realtm (gb_abs_of s)) @ [(2, rep)]
    \<and> a_delay (gb_abs_of s1) = a_delay (gb_abs_of s) @ (if gb_pendflag s then map as_delayed (a_realtm (gb_abs_of s)) else [])
        @ map (Pair 3) (a_window (gb_abs_of s))"
proof (cases "gb_pendflag s")
  case False
  let ?s = "s\<lparr>warntrig := False, times := 31, triger := True\<rparr>" let ?A = "gb_abs_of s"
  have p: "gb_data_periodic s intv rep = gb_data_periodic ?s intv rep"
    using assms(2,3) False by (simp add: gb_data_periodic_def periodic_warn_def)
  have o: "gb_ok ?s H" "gb_abs_of ?s = ?A" using ctl_ok(2) [OF ctl_ok(3) [OF ctl_ok(4) [OF assms(1)]]] by simp_all
  from fault_step [OF o(1), of rep intv] o(2) assms(4-6) obtain s1 where s1: "gb_data_periodic ?s intv rep = Some s1"
    "gb_ok s1 H" "times s1 = 30" "ticks s1 = 0" "\<not> warntrig s1" "\<not> triger s1" "gb_abs_of s1 = spec_flush_error (spec_save rep ?A)" by auto
  have A: "gb_abs_of s1 = ?A\<lparr>a_free := a_free ?A - 1 - length (a_window ?A), a_realtm := a_realtm ?A @ [(2, rep)],
      a_delay := a_delay ?A @ map (Pair 3) (a_window ?A), a_window := []\<rparr>"
    using assms(6) unfolding s1(7) by (subst spec_flush_error_free) (simp_all add: spec_save_free)
  from p s1(1-6) False show ?thesis by (simp add: A)
next
  case True
  let ?s = "s\<lparr>warntrig := False, times := 31\<rparr>" let ?A = "gb_abs_of s"
  have o: "gb_ok ?s H" "gb_abs_of ?s = ?A" using ctl_ok(3) [OF ctl_ok(4) [OF assms(1)]] by simp_all
  from flush_realtm_abs [OF o(1)] obtain s1 where s1: "gb_data_flush_realtm ?s = Some s1" "gb_sim ?s H s1 H (spec_flush_realtm ?A)"
    unfolding o(2) by blast
  then have ok: "gb_ok s1 H" "gb_abs_of s1 = spec_flush_realtm ?A" by (simp_all add: gb_sim_def)
  have w: "length (a_window (spec_flush_realtm ?A)) \<le> a_free (spec_flush_realtm ?A)" using assms(6) by (simp add: spec_flush_realtm_def)
  then have "length (a_window (gb_abs_of s1)) \<le> spec_rooms (gb_abs_of s1)" unfolding ok(2) spec_rooms_def by simp
  from flush_error_abs [OF ok(1) this] obtain s2 where s2: "gb_data_flush_error s1 = Some s2"
    "gb_sim s1 H s2 H (spec_flush_error (spec_flush_realtm ?A))" unfolding ok(2) by blast
  have A2: "gb_abs_of s2 = ?A\<lparr>a_free := a_free ?A - length (a_window ?A), a_realtm := [],
      a_delay := a_delay ?A @ map as_delayed (a_realtm ?A) @ map (Pair 3) (a_window ?A), a_window := []\<rparr>"
    using s2(2) spec_flush_error_free [OF w] by (simp add: gb_sim_def) (simp add: spec_flush_realtm_def)
  have c: "gb_ok s2 H" "times s2 = 31" "\<not> warntrig s2" "ticks s2 = ticks s" using s1(2) s2(2) by (auto simp: gb_sim_def gb_ctl_def)
  have p: "gb_data_periodic s intv rep = gb_data_periodic s2 intv rep"
    using assms(2,3) True s1(1) s2(1) c(3) by (simp add: gb_data_periodic_def periodic_warn_def Let_def)
  have w2: "length (a_window (gb_abs_of s2)) < a_free (gb_abs_of s2)" using assms(6) unfolding A2 by simp
  from fault_step [OF c(1), of rep intv] c(2-4) assms(4,5) w2 obtain s3 where s3: "gb_data_periodic s2 intv rep = Some s3"
    "gb_ok s3 H" "times s3 = 30" "ticks s3 = 0" "\<not> warntrig s3" "\<not> triger s3"
    "gb_abs_of s3 = (if triger s2 then spec_flush_error (spec_save rep (gb_abs_of s2)) else spec_save rep (gb_abs_of s2))" by auto
  have e: "spec_flush_error (spec_save rep (gb_abs_of s2)) = spec_save rep (gb_abs_of s2)"
    using w2 by (subst spec_flush_error_free) (simp_all add: spec_save_free A2)
  have A: "gb_abs_of s3 = ?A\<lparr>a_free := a_free ?A - length (a_window ?A) - 1, a_realtm := [(2, rep)],
      a_delay := a_delay ?A @ map as_delayed (a_realtm ?A) @ map (Pair 3) (a_window ?A), a_window := []\<rparr>"
    using w2 unfolding s3(7) e by (simp add: spec_save_free A2)
  from p s3(1-6) True show ?thesis by (simp add: A)
qed

text \<open>C20: When a fault of the highest level is signalled (the data descriptions being loaded, and enough free packs for the ring
  and the new reports), the reports of the ring are appended to the delayed
  reports in their order and the ring is empty, and the next seconds, up to thirty, each produce a report of 1 to 1024 bytes at
  once, whatever the period is. If the service is suspended, the current reports become delayed ones first and come
  before those of the ring.\<close>

theorem gb_fault_half_minute:
  assumes "gb_ok s H" "gb_inf s" "warntrig s" "0 \<le> ticks s"
    and "reps \<noteq> []" "length reps \<le> 30" "\<forall>rep\<in>set reps. reps_ok rep"
    and "length (gb_window s) + length reps \<le> length (gb_reports s GB_free_lst)"
  defines "cur \<equiv> gb_reports s GB_realtm_lst"
  shows "\<exists>s'. periodic_run s intv reps = Some s'
    \<and> gb_reports s' GB_realtm_lst = (if gb_pendflag s then [] else cur) @ map (Pair 2) reps
    \<and> gb_reports s' GB_delay_lst = gb_reports s GB_delay_lst @ (if gb_pendflag s then map as_delayed cur else [])
        @ map (Pair 3) (gb_window s) \<and> gb_window s' = []"
proof -
  obtain rep rest where reps: "reps = rep # rest" using assms(5) by (cases reps) auto
  have "reps_ok rep" "length (a_window (gb_abs_of s)) < a_free (gb_abs_of s)" using assms(7,8) reps by (simp_all add: abs_fields)
  from fault_start [OF assms(1-4) this, of intv] obtain s1 where s1: "gb_data_periodic s intv rep = Some s1"
    "gb_ok s1 H" "times s1 = 30" "ticks s1 = 0" "\<not> warntrig s1" "\<not> triger s1"
    "a_free (gb_abs_of s1) = a_free (gb_abs_of s) - 1 - length (a_window (gb_abs_of s))" "a_window (gb_abs_of s1) = []"
    "a_realtm (gb_abs_of s1) = (if gb_pendflag s then [] else a_realtm (gb_abs_of s)) @ [(2, rep)]"
    "a_delay (gb_abs_of s1) = a_delay (gb_abs_of s) @ (if gb_pendflag s then map as_delayed (a_realtm (gb_abs_of s)) else [])
        @ map (Pair 3) (a_window (gb_abs_of s))" by blast
  have "length (a_window (gb_abs_of s1)) + length rest \<le> a_free (gb_abs_of s1)"
    using assms(8) reps s1(7,8) by (simp add: abs_fields)
  with fault_run [OF s1(2), of rest intv] s1(3-6) assms(6,7) reps obtain s' where s': "periodic_run s1 intv rest = Some s'"
    "a_realtm (gb_abs_of s') = a_realtm (gb_abs_of s1) @ map (Pair 2) rest"
    "a_delay (gb_abs_of s') = a_delay (gb_abs_of s1)" "a_window (gb_abs_of s') = a_window (gb_abs_of s1)" by auto
  then show ?thesis using s1(1) unfolding reps s1(8-10) cur_def by (simp add: abs_fields)
qed

theorem gb_fault_half_minute_witness:
  "\<exists>s'. periodic_run (demo_gb\<lparr>warntrig := True\<rparr>) 10 [[7], [8]] = Some s'
    \<and> gb_reports s' GB_realtm_lst = [(2, [7]), (2, [8])] \<and> gb_reports s' GB_delay_lst = []"
proof -
  let ?s = "demo_gb\<lparr>warntrig := True\<rparr>"
  have a: "gb_abs_of ?s = gb_abs_of demo_gb" by simp
  have e: "length (gb_reports ?s GB_free_lst) = length (gb_reports demo_gb GB_free_lst)"
    "gb_reports ?s GB_realtm_lst = gb_reports demo_gb GB_realtm_lst"
    "gb_reports ?s GB_delay_lst = gb_reports demo_gb GB_delay_lst" "gb_window ?s = gb_window demo_gb"
    using a unfolding abs_fields [symmetric] by simp_all
  have q: "gb_ok ?s {}" "gb_inf ?s" "warntrig ?s" "0 \<le> ticks ?s" "[[7], [8 :: u8]] \<noteq> []"
    "length [[7], [8 :: u8]] \<le> 30" "\<forall>rep\<in>set [[7], [8]]. reps_ok rep"
    "length (gb_window ?s) + length [[7], [8 :: u8]] \<le> length (gb_reports ?s GB_free_lst)"
    using demo_gb_fields ctl_ok(4) [OF demo_gb_at(1)] unfolding e by (simp_all add: reps_ok_def)
  have "\<not> gb_pendflag ?s" using demo_gb_fields by simp
  with gb_fault_half_minute [OF q, of 10] show ?thesis unfolding e by (auto simp: demo_gb_fields)
qed

end
