(* ===== verification/GbFrame.thy ===== *)
theory GbFrame
  imports GbReports SockRx
begin

text \<open>
  The state and the messages of the GB/T 32960 protocol, \<^verbatim>\<open>app/interface/gb32960/gb32960_prot.c\<close>: the struct
  \<open>gb_stat_t\<close> and the other static variables, the functions that build the messages to the server, and
  the parser that collects the server's messages byte by byte. A write behind the receive buffer and a
  read behind the input are the value \<open>None\<close>. \<open>GbProt\<close> models what the protocol does with them.
\<close>

section \<open>The state\<close>

text \<open>The milliseconds and the day of the week, which nothing here reads, are left out.\<close>

record RTCTIME =
  sec :: u8
  minute :: u8
  hour :: u8
  mday :: u8
  mon :: u8
  year :: u16

text \<open>The calls into other modules. The protocol hands its messages to the socket proxy; \<open>True\<close> marks those with
  the callback \<open>gb_data_ack_pack\<close>.\<close>

datatype gb_call =
    GbSend bytes bool | GbSocketClose int | GbSaveRegseq u32 | GbSynTime RTCTIME
  | GbPrvtAwaken | GbProxyAwaken | GbFeed | GbSaveUrl bytes | GbSavePort u16 | GbSaveVin bytes | GbSaveRegintv u16
  | GbSaveTimeout u16 | GbSaveIntv u16

text \<open>\<open>gb_SPObj\<close> is the table of receive queues that the socket proxy fills (\<open>SPObj\<close> of \<open>SockBase\<close>).\<close>

record gb_stat_t =
  g_online :: bool
  g_wait :: nat
  g_retry :: nat
  g_waittime :: u64
  g_rcvbuf :: bytes
  g_rcvlen :: nat
  g_rcvstep :: int
  g_datalen :: nat
  g_login :: bool
  g_suspend :: bool
  g_caltime :: bool
  g_can :: bool
  g_network :: int
  g_errtrig :: bool
  g_caltimewait :: bool
  g_caltimewaittime :: u64
  g_calflag :: bool
  gb_vin :: bytes
  gb_url :: bytes
  gb_port :: u16
  gb_timeout :: u16
  gb_regintv :: u16
  gb_regdate :: u16
  gb_regseq :: u16
  gb_iccid :: bytes
  gb_battcode :: bytes
  gb_allow_sleep :: bool
  gbnosend :: u8
  powerOffFlag :: u8
  gb_pool :: gb_pool_t
  gb_SPObj :: "slot_queue list"
  gb_calls :: "gb_call list"

abbreviation (input) "PROT_LOGIN \<equiv> 0x01 :: nat"
abbreviation (input) "PROT_LOGOUT \<equiv> 0x04 :: nat"
abbreviation (input) "PROT_CALTIME \<equiv> 0x08 :: nat"

definition gb_emit :: "gb_call \<Rightarrow> gb_stat_t \<Rightarrow> gb_stat_t" where
  "gb_emit c p = p\<lparr>gb_calls := gb_calls p @ [c]\<rparr>"

definition gb_reset :: "gb_stat_t \<Rightarrow> gb_stat_t" where
  "gb_reset p = p\<lparr>g_wait := 0, g_online := False, g_retry := 0, g_waittime := 0, g_rcvstep := -1, g_rcvlen := 0, g_datalen := 0\<rparr>"

section \<open>Messages to the server\<close>

definition gb_checksum :: "bytes \<Rightarrow> u8" where
  "gb_checksum data = fold (\<lambda>b cs. cs XOR b) data 0"

definition gb_pack_head :: "u8 \<Rightarrow> u8 \<Rightarrow> gb_stat_t \<Rightarrow> bytes" where
  "gb_pack_head type dir p = [0x23, 0x23, type, dir] @ take 17 (gb_vin p) @ [0x01]"

definition gb_close_pack :: "bytes \<Rightarrow> bytes" where
  "gb_close_pack buf = buf @ [gb_checksum (drop 2 buf)]"

definition gb_pack_report :: "gb_stat_t \<Rightarrow> gb_pack_t \<Rightarrow> bytes" where
  "gb_pack_report p rpt =
     gb_close_pack (gb_pack_head (ucast (pk_type rpt)) 0xfe p @ [ucast (drop_bit 8 (pk_len rpt)), ucast (pk_len rpt)]
       @ take (unat (pk_len rpt)) (pk_data rpt))"

definition reginf :: "gb_stat_t \<Rightarrow> u32" where
  "reginf p = push_bit 16 (ucast (gb_regdate p)) + ucast (gb_regseq p)"

text \<open>The first login of a day starts a new sequence. The identity of the SIM card is read into \<open>gb_iccid\<close>.\<close>

definition gb_login_date :: "RTCTIME \<Rightarrow> gb_stat_t \<Rightarrow> gb_stat_t" where
  "gb_login_date t p =
     (if unat (gb_regdate p) \<noteq> unat (mon t) * 100 + unat (mday t)
      then let p = p\<lparr>gb_regdate := of_nat (unat (mon t) * 100 + unat (mday t)), gb_regseq := 1\<rparr>
           in gb_emit (GbSaveRegseq (reginf p)) p
      else p)"

definition time_bytes :: "RTCTIME \<Rightarrow> bytes" where
  "time_bytes t = [ucast (year t - 2000), mon t, mday t, hour t, minute t, sec t]"

definition gb_pack_login :: "RTCTIME \<Rightarrow> bytes \<Rightarrow> gb_stat_t \<Rightarrow> bytes \<times> gb_stat_t" where
  "gb_pack_login t iccid p =
     (let p = gb_login_date t p;
          seq = gb_regseq p;
          p = p\<lparr>gb_iccid := blit (gb_iccid p) 0 iccid\<rparr>;
          code = takeWhile (\<lambda>c. c \<noteq> 0) (gb_battcode p);
          body = time_bytes t @ [ucast (drop_bit 8 seq), ucast seq] @ take 20 (gb_iccid p) @ [1, of_nat (length code)] @ code;
          plen = length body
      in (gb_close_pack (gb_pack_head 0x01 0xfe p @ [of_nat (plen div 256), of_nat plen] @ body), p))"

definition gb_pack_logout :: "RTCTIME \<Rightarrow> gb_stat_t \<Rightarrow> bytes" where
  "gb_pack_logout t p =
     (let tmp = (if gb_regseq p = 1 then 65531 else gb_regseq p - 1)
      in gb_close_pack (gb_pack_head 0x04 0xfe p @ [0, 8] @ time_bytes t @ [ucast (drop_bit 8 tmp), ucast tmp]))"

definition gb_pack_tspcailtime :: "gb_stat_t \<Rightarrow> bytes" where
  "gb_pack_tspcailtime p = gb_close_pack (gb_pack_head 0x08 0xfe p @ [0, 0])"

section \<open>Messages from the server\<close>

text \<open>One byte of the input. The parser looks one byte ahead, which may be behind the bytes read.\<close>

definition gb_at_mark :: "bytes \<Rightarrow> bool option" where
  "gb_at_mark input =
     (case input of
        [] \<Rightarrow> None
      | b # bs \<Rightarrow> if b \<noteq> 0x23 then Some False else case bs of [] \<Rightarrow> None | c # _ \<Rightarrow> Some (c = 0x23))"

definition gb_store :: "u8 \<Rightarrow> gb_stat_t \<Rightarrow> gb_stat_t option" where
  "gb_store b p =
     (if g_rcvlen p < 1024 then Some (p\<lparr>g_rcvbuf := (g_rcvbuf p)[g_rcvlen p := b], g_rcvlen := g_rcvlen p + 1\<rparr>) else None)"

definition gb_makeup_step :: "u8 \<Rightarrow> gb_stat_t \<Rightarrow> bool \<times> gb_stat_t" where
  "gb_makeup_step b p =
     (if g_rcvstep p = 0 then (False, if g_rcvlen p = 22 then p\<lparr>g_rcvstep := 1\<rparr> else p)
      else if g_rcvstep p = 1 then
        let p = p\<lparr>g_datalen := g_datalen p * 256 + unat b\<rparr>
        in (False, if g_rcvlen p = 24 then p\<lparr>g_rcvstep := 2\<rparr> else p)
      else if g_rcvstep p = 2 then (False, if g_rcvlen p = 24 + g_datalen p then p\<lparr>g_rcvstep := 3\<rparr> else p)
      else if g_rcvstep p = 3 then (True, p\<lparr>g_rcvstep := -1\<rparr>)
      else (False, p\<lparr>g_rcvlen := 0, g_datalen := 0\<rparr>))"

definition gb_mark :: "bool \<Rightarrow> gb_stat_t \<Rightarrow> gb_stat_t" where
  "gb_mark m p = (if m then p\<lparr>g_rcvlen := 0, g_datalen := 0, g_rcvstep := 0\<rparr> else p)"

text \<open>\<open>len\<close> bytes of the input are valid; the result says whether a message is complete, with what is left.\<close>

fun gb_makeup_pack :: "gb_stat_t \<Rightarrow> bytes \<Rightarrow> nat \<Rightarrow> (bool \<times> gb_stat_t \<times> bytes \<times> nat) option" where
  "gb_makeup_pack p input 0 = Some (False, p, input, 0)"
| "gb_makeup_pack p input (Suc len) =
     (case gb_at_mark input of
        None \<Rightarrow> None
      | Some m \<Rightarrow>
          (case gb_store (hd input) (gb_mark m p) of
             None \<Rightarrow> None
           | Some p \<Rightarrow>
               (case gb_makeup_step (hd input) p of
                  (True, p) \<Rightarrow> Some (True, p, tl input, len)
                | (False, p) \<Rightarrow> gb_makeup_pack p (tl input) len)))"

lemma gb_makeup_uses:
  "gb_makeup_pack p input len = Some (True, p', input', len') \<Longrightarrow> len' < len \<and> length input' \<le> length input"
proof (induction p input len rule: gb_makeup_pack.induct)
  case (2 p input len)
  then show ?case by (auto split: option.splits prod.splits bool.splits simp del: gb_makeup_pack.simps(1)) fastforce+
qed simp

end
