(* ===== verification/GbProt.thy ===== *)
theory GbProt
  imports GbFrame
begin

text \<open>
  The thread of the GB/T 32960 protocol, \<^verbatim>\<open>app/interface/gb32960/gb32960_prot.c\<close>: what a message from the
  server does, the stages of a turn (connection, receiving, waiting for an answer, login, suspension, reports,
  time calibration, logout) and the messages from the other modules. What the clock, the socket proxy and the
  configuration answer in a turn is the record \<open>gb_env\<close>; \<open>None\<close> is an access out of bounds or a loop over
  the report lists that does not end.
\<close>

section \<open>What a turn reads\<close>

text \<open>A turn sends at most one message that waits for an answer, so each time is read at most once in it:
  \<open>e_now\<close> for the test whether a time-out has passed, \<open>e_sent\<close> and \<open>e_cal_sent\<close> after sending.\<close>

record gb_env =
  e_socket :: int
  e_send :: "bytes \<Rightarrow> int"
  e_bufsz :: int
  e_rtc :: RTCTIME
  e_iccid :: bytes
  e_now :: u64
  e_sent :: u64
  e_cal_sent :: u64
  e_cfg :: "gb_call \<Rightarrow> int"

abbreviation (input) "PP_SP_COLSE_GB \<equiv> 100 :: int"

definition GB_SERVR_TIMEOUT :: "gb_stat_t \<Rightarrow> u64" where "GB_SERVR_TIMEOUT p = 1000 * ucast (gb_timeout p)"
definition GB_LOGIN_INTV :: "gb_stat_t \<Rightarrow> u64" where "GB_LOGIN_INTV p = 1000 * ucast (gb_regintv p)"

definition gb_close :: "int \<Rightarrow> gb_stat_t \<Rightarrow> gb_stat_t" where
  "gb_close n p = gb_reset (gb_emit (GbSocketClose (PP_SP_COLSE_GB + n)) p)"

text \<open>Each sending first gives back the pack of the report sent before.\<close>

definition gb32960_MsgSend :: "gb_env \<Rightarrow> bytes \<Rightarrow> bool \<Rightarrow> gb_stat_t \<Rightarrow> int \<times> gb_stat_t" where
  "gb32960_MsgSend e msg sync p =
     (e_send e msg, gb_emit (GbSend msg sync) (p\<lparr>gb_pool := gb_data_ack_pack (gb_pool p)\<rparr>))"

section \<open>Messages from the server\<close>

definition gb_next_seq :: "gb_stat_t \<Rightarrow> gb_stat_t" where
  "gb_next_seq p =
     (let p = p\<lparr>gb_regseq := gb_regseq p + 1\<rparr>;
          p = (if 65531 < gb_regseq p then p\<lparr>gb_regseq := 1\<rparr> else p)
      in gb_emit (GbSaveRegseq (reginf p)) p)"

definition gb_on_login :: "gb_stat_t \<Rightarrow> gb_stat_t option" where
  "gb_on_login p =
     (if g_wait p \<noteq> PROT_LOGIN then Some p
      else let p = p\<lparr>g_wait := 0\<rparr>
           in if g_rcvbuf p ! 3 \<noteq> 1 then Some p
              else let p = p\<lparr>g_online := True\<rparr>
                   in map_option gb_next_seq
                        (if g_login p
                         then map_option (\<lambda>s. p\<lparr>gb_pool := s\<rparr>) (Option.bind (gb_data_flush_sending (gb_pool p)) gb_data_flush_realtm)
                         else map_option (\<lambda>s. p\<lparr>gb_pool := s, g_login := True\<rparr>) (gb_data_clear_error (gb_pool p))))"

definition gb_on_logout :: "gb_stat_t \<Rightarrow> bool \<times> gb_stat_t" where
  "gb_on_logout p =
     (if g_wait p \<noteq> PROT_LOGOUT \<or> g_rcvbuf p ! 3 \<noteq> 1 then (False, p)
      else (True, p\<lparr>g_login := False, gb_allow_sleep := True\<rparr>))"

definition gb_on_caltime :: "gb_stat_t \<Rightarrow> gb_stat_t" where
  "gb_on_caltime p =
     (if g_rcvbuf p ! 3 \<noteq> 1 then p
      else let p = p\<lparr>g_caltimewait := False, g_caltime := False\<rparr>; d = drop 24 (g_rcvbuf p)
           in if gb_datalen (g_rcvbuf p) = 6
              then gb_emit (GbSynTime \<lparr>sec = d ! 5, minute = d ! 4, hour = d ! 3, mday = d ! 2, mon = d ! 1, year = ucast (d ! 0) + 2000\<rparr>) p
              else p)"

text \<open>The first component says that the loop over the input stops. The handlers of query, setup and control
  commands are empty in this configuration, as is that of unknown messages.\<close>

definition gb_on_msg :: "gb_stat_t \<Rightarrow> (bool \<times> gb_stat_t) option" where
  "gb_on_msg p =
     (let type = unat (g_rcvbuf p ! 2)
      in if type = PROT_LOGIN then map_option (Pair False) (gb_on_login p)
         else if type = PROT_LOGOUT then Some (gb_on_logout p)
         else if type = PROT_CALTIME then Some (False, gb_on_caltime p)
         else Some (False, p))"

definition gb_sum_ok :: "gb_stat_t \<Rightarrow> bool" where
  "gb_sum_ok p \<longleftrightarrow> g_rcvbuf p ! (g_rcvlen p - 1) = gb_checksum (take (g_rcvlen p - 3) (drop 2 (g_rcvbuf p)))"

function gb_receive_loop :: "gb_stat_t \<Rightarrow> bytes \<Rightarrow> nat \<Rightarrow> (bool \<times> gb_stat_t) option" where
  "gb_receive_loop p input rlen =
     (if rlen = 0 then Some (False, p)
      else case gb_makeup_pack p input rlen of
          None \<Rightarrow> None
        | Some (False, p, _, _) \<Rightarrow> Some (False, p)
        | Some (True, p, input, rlen) \<Rightarrow>
            if \<not> gb_sum_ok p then gb_receive_loop p input rlen
            else (case gb_on_msg p of
                    None \<Rightarrow> None
                  | Some (True, p) \<Rightarrow> Some (True, p)
                  | Some (False, p) \<Rightarrow> gb_receive_loop p input rlen))"
  by pat_completeness auto
termination by (relation "measure (\<lambda>(p, input, rlen). rlen)") (auto dest: gb_makeup_uses)

definition gb_do_receive :: "gb_stat_t \<Rightarrow> (bool \<times> gb_stat_t) option" where
  "gb_do_receive p =
     (case RdSockproxyData_Queue (gb_SPObj p) SP_GB (replicate 1456 0) 1456 of
        (rlen, objs, buf) \<Rightarrow>
          let p = p\<lparr>gb_SPObj := objs\<rparr>
          in if rlen \<le> 0 then Some (False, p) else gb_receive_loop p buf (nat rlen))"

section \<open>The stages of a turn\<close>

text \<open>Each stage says whether the turn ends with it, which is the code's non-zero result.\<close>

definition gb_do_checksock :: "gb_env \<Rightarrow> gb_stat_t \<Rightarrow> bool \<times> gb_stat_t" where
  "gb_do_checksock e p =
     (if e_socket e = 1 \<and> \<not> gb_allow_sleep p then (False, p)
      else (True, p\<lparr>g_wait := 0, g_online := False, g_retry := 0, g_waittime := 0, g_rcvstep := -1, g_rcvlen := 0, g_datalen := 0\<rparr>))"

definition gb_logout_again :: "gb_env \<Rightarrow> gb_stat_t \<Rightarrow> gb_stat_t" where
  "gb_logout_again e p =
     (case gb32960_MsgSend e (gb_pack_logout (e_rtc e) p) False p of
        (res, p) \<Rightarrow> if res < 0 then gb_close 1 p else if res = 0 then p else p\<lparr>g_waittime := e_sent e\<rparr>)"

definition gb_do_wait :: "gb_env \<Rightarrow> gb_stat_t \<Rightarrow> bool \<times> gb_stat_t" where
  "gb_do_wait e p =
     (if g_wait p = 0 then (False, p)
      else (True,
        if \<not> e_now e - g_waittime p > GB_SERVR_TIMEOUT p then p
        else if g_wait p = PROT_LOGIN then gb_reset (p\<lparr>g_wait := 0\<rparr>)
        else let p = p\<lparr>g_retry := g_retry p + 1\<rparr>
             in if g_retry p > 3
                then gb_reset (if g_wait p = PROT_LOGOUT then p\<lparr>g_login := False, gb_allow_sleep := True\<rparr> else p)
                else if g_wait p = PROT_LOGOUT then gb_logout_again e p else p))"

definition gb_do_login :: "gb_env \<Rightarrow> gb_stat_t \<Rightarrow> bool \<times> gb_stat_t" where
  "gb_do_login e p =
     (if g_online p then (False, p)
      else (True,
        if g_waittime p = 0 \<or> e_now e - g_waittime p > GB_LOGIN_INTV p
        then case gb_pack_login (e_rtc e) (e_iccid e) p of
               (buf, p) \<Rightarrow>
                 (case gb32960_MsgSend e buf False p of
                    (res, p) \<Rightarrow> if res < 0 then gb_close 2 p else if res = 0 then p
                                else p\<lparr>g_wait := PROT_LOGIN, g_waittime := e_sent e\<rparr>)
        else p))"

definition gb_do_suspend :: "gb_stat_t \<Rightarrow> bool \<times> gb_stat_t" where
  "gb_do_suspend p = (g_suspend p \<and> gb_data_nosending (gb_pool p), p)"

text \<open>\<open>(sizeof(buf) + GB_SOCKET_RSVD) <= sock_bufsz(...)\<close> compares an unsigned number with an \<open>int\<close>.\<close>

definition gb_do_report :: "gb_env \<Rightarrow> gb_stat_t \<Rightarrow> bool \<times> gb_stat_t" where
  "gb_do_report e p =
     (case gb_data_get_pack (gb_pool p) of
        (None, s) \<Rightarrow> (False, p\<lparr>gb_pool := s\<rparr>)
      | (Some rpt, s) \<Rightarrow>
          let p = p\<lparr>gb_pool := s\<rparr>
          in if 1280 + 1024 \<le> (word_of_int (e_bufsz e) :: u32)
             then case gb32960_MsgSend e (gb_pack_report p (pack_at s rpt)) True p of
                    (res, p) \<Rightarrow>
                      if res < 0 then (True, gb_close 4 (p\<lparr>gb_pool := gb_data_put_back (gb_pool p) rpt\<rparr>))
                      else if res = 0 then (False, p\<lparr>gb_pool := gb_data_put_back (gb_pool p) rpt\<rparr>)
                      else (False, p\<lparr>gb_pool := gb_data_put_send (gb_pool p) rpt\<rparr>)
             else (False, p))"

definition gb_do_caltime :: "gb_env \<Rightarrow> gb_stat_t \<Rightarrow> bool \<times> gb_stat_t" where
  "gb_do_caltime e p =
     (False,
      if g_calflag p
      then let p = p\<lparr>g_calflag := False\<rparr>
           in case gb32960_MsgSend e (gb_pack_tspcailtime p) False p of
                (res, p) \<Rightarrow> if res < 0 then gb_close 8 p else if res = 0 then p
                            else p\<lparr>g_caltimewait := True, g_caltimewaittime := e_cal_sent e\<rparr>
      else p)"

definition gb_do_logout :: "gb_env \<Rightarrow> gb_stat_t \<Rightarrow> bool \<times> gb_stat_t" where
  "gb_do_logout e p =
     (if \<not> g_can p
      then case gb32960_MsgSend e (gb_pack_logout (e_rtc e) p) False p of
             (res, p) \<Rightarrow> (True, if res < 0 then gb_close 3 p else if res = 0 then p
                                else p\<lparr>g_wait := PROT_LOGOUT, g_waittime := e_sent e\<rparr>)
      else (False, p))"

text \<open>The operator \<open>||\<close> of the code.\<close>

definition c_or :: "bool \<times> gb_stat_t \<Rightarrow> (gb_stat_t \<Rightarrow> bool \<times> gb_stat_t) \<Rightarrow> bool \<times> gb_stat_t" where
  "c_or r f = (if fst r then r else f (snd r))"

definition gb_rest :: "gb_env \<Rightarrow> gb_stat_t \<Rightarrow> gb_stat_t" where
  "gb_rest e p = snd (c_or (c_or (c_or (c_or (c_or (gb_do_wait e p) (gb_do_login e)) gb_do_suspend) (gb_do_report e))
                              (gb_do_caltime e)) (gb_do_logout e))"

definition gb_turn :: "gb_env \<Rightarrow> gb_stat_t \<Rightarrow> gb_stat_t option" where
  "gb_turn e p =
     (case gb_do_checksock e p of
        (True, p) \<Rightarrow> Some p
      | (False, p) \<Rightarrow>
          (case gb_do_receive p of
             None \<Rightarrow> None
           | Some (True, p) \<Rightarrow> Some p
           | Some (False, p) \<Rightarrow> Some (gb_rest e p)))"

section \<open>Messages from the other modules\<close>

datatype gb_cfg_t =
    GB_CFG_URL | GB_CFG_PORT | GB_CFG_ADDR bytes u16 | GB_CFG_VIN bytes | GB_CFG_DATINTV u16 | GB_CFG_REGINTV u16
  | GB_CFG_TIMEOUT u16

datatype gb_msg =
    GB_MSG_NONE | GB_MSG_CANON | GB_MSG_CANOFF | GB_MSG_SUSPEND | GB_MSG_RESUME | GB_MSG_ERRON | GB_MSG_ERROFF
  | GB_MSG_CONFIG gb_cfg_t | GB_MSG_NETWORK int | GB_MSG_STATUS | GB_MSG_EMERGENCY | GB_MSG_RUNNING | GB_MSG_OFF | GB_MSG_PWDG

definition c_string :: "bytes \<Rightarrow> bytes" where "c_string s = takeWhile (\<lambda>c. c \<noteq> 0) s @ [0]"

fun gb_do_config :: "gb_env \<Rightarrow> gb_cfg_t \<Rightarrow> gb_stat_t \<Rightarrow> gb_stat_t" where
  "gb_do_config e (GB_CFG_ADDR url port) p =
     (let p = gb_emit (GbSaveUrl url) p
      in if e_cfg e (GbSaveUrl url) \<noteq> 0 then p
         else let p = gb_emit (GbSavePort port) p
              in if e_cfg e (GbSavePort port) \<noteq> 0 then p
                 else gb_close 5 (p\<lparr>gb_url := url, gb_port := port\<rparr>))"
| "gb_do_config e (GB_CFG_VIN vin) p =
     (let p = gb_emit (GbSaveVin vin) p
      in if e_cfg e (GbSaveVin vin) \<noteq> 0 then p
         else gb_close 6 (p\<lparr>gb_vin := blit (gb_vin p) 0 (c_string vin)\<rparr>))"
| "gb_do_config e (GB_CFG_REGINTV intv) p =
     (let p = gb_emit (GbSaveRegintv intv) p in if e_cfg e (GbSaveRegintv intv) \<noteq> 0 then p else p\<lparr>gb_regintv := intv\<rparr>)"
| "gb_do_config e (GB_CFG_TIMEOUT tm) p =
     (let p = gb_emit (GbSaveTimeout tm) p in if e_cfg e (GbSaveTimeout tm) \<noteq> 0 then p else p\<lparr>gb_timeout := tm\<rparr>)"
| "gb_do_config e (GB_CFG_DATINTV intv) p =
     (let p = gb_emit (GbSaveIntv intv) p
      in if e_cfg e (GbSaveIntv intv) \<noteq> 0 then p else p\<lparr>gb_pool := gb_data_set_intv (gb_pool p) intv\<rparr>)"
| "gb_do_config e GB_CFG_URL p = p"
| "gb_do_config e GB_CFG_PORT p = p"

text \<open>The status message only prints.\<close>

fun gb_dispatch :: "gb_env \<Rightarrow> gb_msg \<Rightarrow> gb_stat_t \<Rightarrow> gb_stat_t" where
  "gb_dispatch e (GB_MSG_NETWORK n) p = (if g_network p \<noteq> n then (gb_close 7 p)\<lparr>g_network := n\<rparr> else p)"
| "gb_dispatch e GB_MSG_EMERGENCY p = p\<lparr>gb_pool := gb_data_emergence (gb_pool p) True, powerOffFlag := 1\<rparr>"
| "gb_dispatch e GB_MSG_RUNNING p = gb_emit GbProxyAwaken (gb_emit GbPrvtAwaken (p\<lparr>powerOffFlag := 0\<rparr>))"
| "gb_dispatch e GB_MSG_OFF p = p\<lparr>gb_pool := gb_data_emergence (gb_pool p) False, powerOffFlag := 1\<rparr>"
| "gb_dispatch e GB_MSG_CANON p =
     (gb_emit GbPrvtAwaken (gb_emit GbProxyAwaken p))\<lparr>g_can := True, gb_allow_sleep := False, g_calflag := True\<rparr>"
| "gb_dispatch e GB_MSG_CANOFF p = p\<lparr>g_can := False, g_calflag := False, gb_allow_sleep := \<not> g_online p\<rparr>"
| "gb_dispatch e GB_MSG_SUSPEND p = p\<lparr>g_suspend := True, gb_pool := gb_data_set_pendflag (gb_pool p) True\<rparr>"
| "gb_dispatch e GB_MSG_RESUME p = p\<lparr>g_suspend := False, gb_pool := gb_data_set_pendflag (gb_pool p) False\<rparr>"
| "gb_dispatch e GB_MSG_ERRON p = p\<lparr>g_errtrig := True\<rparr>"
| "gb_dispatch e GB_MSG_ERROFF p = p\<lparr>g_errtrig := False\<rparr>"
| "gb_dispatch e (GB_MSG_CONFIG cfg) p = gb_do_config e cfg p"
| "gb_dispatch e GB_MSG_PWDG p = gb_emit GbFeed p"
| "gb_dispatch e GB_MSG_STATUS p = p"
| "gb_dispatch e GB_MSG_NONE p = p"

definition gb_main_step :: "gb_env \<Rightarrow> gb_msg \<Rightarrow> gb_stat_t \<Rightarrow> gb_stat_t option" where
  "gb_main_step e msg p = (let p = gb_dispatch e msg p in if gbnosend p \<noteq> 0 then Some p else gb_turn e p)"

section \<open>What the other modules read and send\<close>

definition gb32960_getAllowSleepSt :: "gb_stat_t \<Rightarrow> int" where "gb32960_getAllowSleepSt p = of_bool (gb_allow_sleep p)"
definition gb32960_getsuspendSt :: "gb_stat_t \<Rightarrow> int" where
  "gb32960_getsuspendSt p = of_bool (\<not> g_suspend p \<and> \<not> gb_data_noreport (gb_pool p))"
definition gb32960_PowerOffSt :: "gb_stat_t \<Rightarrow> u8" where "gb32960_PowerOffSt p = powerOffFlag p"
definition gb32960_networkSt :: "gb_stat_t \<Rightarrow> int" where "gb32960_networkSt p = g_network p"
definition gb32960_gbLogoutSt :: "gb_stat_t \<Rightarrow> int" where "gb32960_gbLogoutSt p = (if gb_allow_sleep p then 1 else 0)"
definition gb32960_getURL :: "gb_stat_t \<Rightarrow> bytes \<times> u16" where "gb32960_getURL p = (takeWhile (\<lambda>c. c \<noteq> 0) (gb_url p), gb_port p)"
definition gb32960_getvin :: "gb_stat_t \<Rightarrow> bytes" where "gb32960_getvin p = takeWhile (\<lambda>c. c \<noteq> 0) (gb_vin p)"

definition gb32960_vinValidity :: "gb_stat_t \<Rightarrow> u8" where
  "gb32960_vinValidity p = (if gb32960_getvin p = replicate 17 0x30 \<or> gb32960_getvin p = [] then 0 else 1)"

definition gb_allow_sleep_handler :: "gb_stat_t \<Rightarrow> bool \<Rightarrow> bool \<Rightarrow> bool" where
  "gb_allow_sleep_handler p prvt_sleep proxy_sleep \<longleftrightarrow> gb_allow_sleep p \<and> prvt_sleep \<and> proxy_sleep"

text \<open>The API of the other modules and the callbacks: the message to the thread, or nothing. The network
  callback reports only the public network.\<close>

definition gb_set_addr :: "bytes \<Rightarrow> u16 \<Rightarrow> gb_msg option" where
  "gb_set_addr url port = (if length url > 255 then None else Some (GB_MSG_CONFIG (GB_CFG_ADDR (url @ [0]) port)))"
definition gb_set_vin :: "bytes \<Rightarrow> gb_msg option" where
  "gb_set_vin vin = (if length vin \<noteq> 17 then None else Some (GB_MSG_CONFIG (GB_CFG_VIN (vin @ [0]))))"
definition gb_set_datintv :: "u16 \<Rightarrow> gb_msg" where "gb_set_datintv period = GB_MSG_CONFIG (GB_CFG_DATINTV period)"
definition gb_set_regintv :: "u16 \<Rightarrow> gb_msg" where "gb_set_regintv period = GB_MSG_CONFIG (GB_CFG_REGINTV period)"
definition gb_set_timeout :: "u16 \<Rightarrow> gb_msg" where "gb_set_timeout period = GB_MSG_CONFIG (GB_CFG_TIMEOUT period)"

definition gb_can_callback :: "can_event \<Rightarrow> gb_msg option" where
  "gb_can_callback event =
     (case event of CAN_EVENT_ACTIVE \<Rightarrow> Some GB_MSG_CANON | CAN_EVENT_SLEEP \<Rightarrow> Some GB_MSG_CANOFF
      | CAN_EVENT_TIMEOUT \<Rightarrow> Some GB_MSG_CANOFF | _ \<Rightarrow> None)"

end
