(* ===== verification/GbParse.thy ===== *)
theory GbParse
  imports GbProt
begin

text \<open>
  The parser of \<open>GbFrame\<close>: when it stays inside its buffer, and that a message cut into pieces, as the
  socket delivers it, is put together again and passes the checksum.
\<close>

section \<open>What the parser touches\<close>

definition parse_only :: "gb_stat_t \<Rightarrow> gb_stat_t \<Rightarrow> bool" where
  "parse_only p p' \<longleftrightarrow>
     p' = p\<lparr>g_rcvbuf := g_rcvbuf p', g_rcvlen := g_rcvlen p', g_rcvstep := g_rcvstep p', g_datalen := g_datalen p'\<rparr>"

lemma parse_only_refl [simp]: "parse_only p p"
  by (simp add: parse_only_def)

lemma parse_only_trans: "parse_only p p' \<Longrightarrow> parse_only p' p'' \<Longrightarrow> parse_only p p''"
  unfolding parse_only_def by (cases p; cases p'; cases p'') simp

lemma parse_only_fields:
  assumes "parse_only p p'"
  shows "g_online p' = g_online p" "g_wait p' = g_wait p" "g_retry p' = g_retry p" "g_waittime p' = g_waittime p"
    "g_login p' = g_login p" "g_suspend p' = g_suspend p" "g_can p' = g_can p" "g_calflag p' = g_calflag p"
    "gb_regseq p' = gb_regseq p" "gb_regdate p' = gb_regdate p" "gb_allow_sleep p' = gb_allow_sleep p" "gb_pool p' = gb_pool p"
    "gb_SPObj p' = gb_SPObj p" "gb_calls p' = gb_calls p" "gb_vin p' = gb_vin p" "gb_timeout p' = gb_timeout p"
    "gb_regintv p' = gb_regintv p" "gbnosend p' = gbnosend p"
  by (subst assms [unfolded parse_only_def]; simp)+

lemma parse_only_upd:
  "parse_only p (p\<lparr>g_rcvstep := a\<rparr>)" "parse_only p (p\<lparr>g_datalen := n\<rparr>)" "parse_only p (p\<lparr>g_rcvlen := n\<rparr>)"
  "parse_only p (p\<lparr>g_rcvbuf := buf\<rparr>)"
  by (simp_all add: parse_only_def)

lemma mark_only: "parse_only p (gb_mark m p)"
  by (simp add: gb_mark_def parse_only_def)

lemma store_only: "gb_store b p = Some p' \<Longrightarrow> parse_only p p'"
  by (auto simp: gb_store_def parse_only_def split: if_splits)

lemma step_only: "gb_makeup_step b p = (r, p') \<Longrightarrow> parse_only p p'"
  by (auto simp: gb_makeup_step_def parse_only_def Let_def split: if_splits)

lemma step_len:
  "gb_makeup_step b p = (r, p') \<Longrightarrow> g_rcvbuf p' = g_rcvbuf p \<and> g_rcvlen p' \<le> g_rcvlen p"
  by (auto simp: gb_makeup_step_def Let_def split: if_splits)

section \<open>The parser stays inside the buffer\<close>

text \<open>It does when the bytes still to come fit behind those collected, or begin with the start marks.\<close>

definition fits :: "gb_stat_t \<Rightarrow> bytes \<Rightarrow> nat \<Rightarrow> bool" where
  "fits p input len \<longleftrightarrow> length (g_rcvbuf p) = 1024 \<and> len < length input \<and> len \<le> 1024
     \<and> (g_rcvlen p + len \<le> 1024 \<or> gb_at_mark input = Some True)"

lemma at_mark_some: "2 \<le> length input \<Longrightarrow> \<exists>m. gb_at_mark input = Some m"
  by (cases input rule: remdups_adj.cases) (auto simp: gb_at_mark_def)

lemma makeup_fits:
  assumes "fits p input len"
  shows "\<exists>r p' n. n \<le> len \<and> gb_makeup_pack p input len = Some (r, p', drop n input, len - n)
    \<and> parse_only p p' \<and> length (g_rcvbuf p') = 1024 \<and> (0 < len \<longrightarrow> g_rcvlen p' + (len - n) \<le> 1024)"
  using assms
proof (induction p input len rule: gb_makeup_pack.induct)
  case (1 p input)
  then show ?case by (auto simp: fits_def)
next
  case (2 p input len)
  from at_mark_some [of input] 2(2) obtain m where m: "gb_at_mark input = Some m" by (auto simp: fits_def)
  have l: "g_rcvlen (gb_mark m p) + Suc len \<le> 1024" "length (g_rcvbuf (gb_mark m p)) = 1024"
    using 2(2) m by (auto simp: fits_def gb_mark_def)
  then obtain p1 where p1: "gb_store (hd input) (gb_mark m p) = Some p1" "g_rcvlen p1 = g_rcvlen (gb_mark m p) + 1"
    "length (g_rcvbuf p1) = 1024" by (simp add: gb_store_def)
  obtain r p2 where p2: "gb_makeup_step (hd input) p1 = (r, p2)" by force
  have o: "parse_only p p2"
    using parse_only_trans [OF mark_only parse_only_trans [OF store_only [OF p1(1)] step_only [OF p2]]] .
  have g: "length (g_rcvbuf p2) = 1024" "g_rcvlen p2 + len \<le> 1024" using step_len [OF p2] p1 l(1) by simp_all
  show ?case
  proof (cases r)
    case True
    with m p1(1) p2 o g show ?thesis
      by (intro exI [of _ True] exI [of _ p2] exI [of _ 1]) (simp add: drop_Suc)
  next
    case False
    have "fits p2 (tl input) len" using 2(2) g by (auto simp: fits_def)
    from 2(1) [OF m p1(1) p2 [symmetric]] False this obtain r' p' n where
      s: "n \<le> len" "gb_makeup_pack p2 (tl input) len = Some (r', p', drop n (tl input), len - n)" "parse_only p2 p'"
      "length (g_rcvbuf p') = 1024" "0 < len \<longrightarrow> g_rcvlen p' + (len - n) \<le> 1024" by blast
    have "len = 0 \<Longrightarrow> p' = p2" using s(2) by simp
    with s g(2) have "g_rcvlen p' + (len - n) \<le> 1024" by (cases len) auto
    with s(1-4) m p1(1) p2 False parse_only_trans [OF o s(3)] show ?thesis
      by (intro exI [of _ r'] exI [of _ p'] exI [of _ "Suc n"]) (simp add: drop_Suc)
  qed
qed

section \<open>A message in pieces\<close>

text \<open>A message of the protocol: start marks, header, data unit, checksum. The parser takes two adjacent number
  signs for a new start, so they must not be in the message.\<close>

definition unmarked :: "bytes \<Rightarrow> bool" where
  "unmarked f \<longleftrightarrow> (\<forall>i\<in>{1..<length f - 1}. \<not> (f ! i = 0x23 \<and> f ! Suc i = 0x23))"

lemma unmarked_nth: "unmarked f \<Longrightarrow> 0 < i \<Longrightarrow> Suc i < length f \<Longrightarrow> \<not> (f ! i = 0x23 \<and> f ! Suc i = 0x23)"
  by (auto simp: unmarked_def)

definition gb_shape :: "bytes \<Rightarrow> bool" where
  "gb_shape f \<longleftrightarrow> 0 < gb_datalen f \<and> length f = 25 + gb_datalen f \<and> f ! 0 = 0x23 \<and> f ! 1 = 0x23 \<and> unmarked f"

definition gb_message :: "bytes \<Rightarrow> bool" where "gb_message f \<longleftrightarrow> gb_shape f \<and> gb_datalen f \<le> 999"

lemma gb_message_shape [simp]: "gb_message f \<Longrightarrow> gb_shape f"
  by (simp add: gb_message_def)

definition posn :: "bytes \<Rightarrow> nat \<Rightarrow> gb_stat_t \<Rightarrow> bool" where
  "posn f i p \<longleftrightarrow> length (g_rcvbuf p) = 1024 \<and> g_rcvlen p = i \<and> take i (g_rcvbuf p) = take i f
     \<and> g_rcvstep p = (if i < 22 then 0 else if i < 24 then 1 else if i < 24 + gb_datalen f then 2 else 3)
     \<and> g_datalen p = (if i \<le> 22 then 0 else if i = 23 then unat (f ! 22) else gb_datalen f)"

lemma take_store: "i < length xs \<Longrightarrow> i < length f \<Longrightarrow> take i xs = take i f \<Longrightarrow> take (Suc i) (xs[i := f ! i]) = take (Suc i) f"
  by (simp add: take_Suc_conv_app_nth)

lemma first_byte:
  assumes "gb_shape f" "length (g_rcvbuf p) = 1024"
  shows "\<exists>p'. gb_makeup_pack p (0x23 # 0x23 # rest) (Suc k) = gb_makeup_pack p' (0x23 # rest) k \<and> posn f 1 p' \<and> parse_only p p'"
proof -
  let ?p = "p\<lparr>g_rcvlen := 0, g_datalen := 0, g_rcvstep := 0, g_rcvbuf := (g_rcvbuf p)[0 := 0x23], g_rcvlen := 1\<rparr>"
  obtain x xs where b: "g_rcvbuf p = x # xs" using assms(2) by (cases "g_rcvbuf p") auto
  obtain y ys where f: "f = y # ys" using assms(1) by (cases f) (auto simp: gb_shape_def)
  have "posn f 1 ?p" using assms b f by (simp add: posn_def gb_shape_def)
  then show ?thesis
    by (intro exI [of _ ?p]) (simp add: gb_at_mark_def gb_mark_def gb_store_def gb_makeup_step_def parse_only_def)
qed

lemma next_byte:
  assumes f: "gb_shape f" and pos: "posn f i p" "0 < i" "i < 24 + gb_datalen f" "i < 1024" and m: "gb_at_mark (f ! i # rest) = Some False"
  shows "\<exists>p'. gb_makeup_pack p (f ! i # rest) (Suc k) = gb_makeup_pack p' rest k \<and> posn f (Suc i) p' \<and> parse_only p p'"
proof -
  let ?q = "p\<lparr>g_rcvbuf := (g_rcvbuf p)[i := f ! i], g_rcvlen := Suc i\<rparr>"
  have l: "i < length f" "i < 1024" "i < length (g_rcvbuf p)" using f pos by (auto simp: gb_shape_def posn_def)
  have s: "gb_store (f ! i) (gb_mark False p) = Some ?q" using pos l by (simp add: gb_store_def gb_mark_def posn_def)
  have t: "take (Suc i) (g_rcvbuf ?q) = take (Suc i) f" using take_store [OF l(3,1)] pos by (simp add: posn_def)
  obtain r p' where e: "gb_makeup_step (f ! i) ?q = (r, p')" by force
  have n: "gb_datalen f = unat (f ! 22) * 256 + unat (f ! 23)" by (simp add: gb_datalen_def)
  have q: "g_rcvlen ?q = Suc i" "length (g_rcvbuf ?q) = 1024" "g_rcvstep ?q = g_rcvstep p" "g_datalen ?q = g_datalen p"
    using pos by (simp_all add: posn_def)
  note st = pos(1) [unfolded posn_def, THEN conjunct2, THEN conjunct2, THEN conjunct2]
  consider "i < 22" | "i = 22" | "i = 23" | "24 \<le> i" by linarith
  then have "\<not> r \<and> posn f (Suc i) p'"
  proof cases
    case 1
    then have c: "g_rcvstep ?q = 0" "g_datalen ?q = 0" using st unfolding q by auto
    from e have "\<not> r" "p' = (if Suc i = 22 then ?q\<lparr>g_rcvstep := 1\<rparr> else ?q)"
      unfolding gb_makeup_step_def c(1) q(1) by auto
    with 1 c t q show ?thesis by (cases "i = 21") (simp_all add: posn_def)
  next
    case 2
    then have c: "g_rcvstep ?q = 1" "g_datalen ?q = 0" using st unfolding q by auto
    from e have "\<not> r" "p' = ?q\<lparr>g_datalen := unat (f ! 22)\<rparr>"
      unfolding gb_makeup_step_def c(1) q(1) using 2 c by (auto simp: Let_def)
    with 2 t q c show ?thesis by (simp add: posn_def)
  next
    case 3
    then have c: "g_rcvstep ?q = 1" "g_datalen ?q = unat (f ! 22)" using st unfolding q by auto
    from e have "\<not> r" "p' = ?q\<lparr>g_datalen := gb_datalen f, g_rcvstep := 2\<rparr>"
      unfolding gb_makeup_step_def c(1) q(1) using 3 c n by (auto simp: Let_def)
    with 3 t q f show ?thesis by (simp add: posn_def gb_shape_def)
  next
    case 4
    then have c: "g_rcvstep ?q = 2" "g_datalen ?q = gb_datalen f" using st pos(3) unfolding q by auto
    from e have "\<not> r" "p' = (if Suc i = 24 + gb_datalen f then ?q\<lparr>g_rcvstep := 3\<rparr> else ?q)"
      unfolding gb_makeup_step_def c(1) q(1) using c by auto
    with 4 t q c pos(3) show ?thesis by (cases "Suc i = 24 + gb_datalen f") (simp_all add: posn_def)
  qed
  moreover have "parse_only p p'"
    using parse_only_trans [OF store_only [OF s] step_only [OF e]] by (simp add: gb_mark_def)
  ultimately show ?thesis using m s e by (intro exI [of _ p']) simp
qed

lemma last_byte:
  assumes f: "gb_message f" and pos: "posn f (24 + gb_datalen f) p" and m: "gb_at_mark (last f # rest) = Some False"
  shows "\<exists>p'. gb_makeup_pack p (last f # rest) (Suc k) = Some (True, p', rest, k) \<and> parse_only p p'
    \<and> take (length f) (g_rcvbuf p') = f \<and> g_rcvlen p' = length f \<and> length (g_rcvbuf p') = 1024 \<and> g_rcvstep p' = -1"
proof -
  let ?i = "24 + gb_datalen f"
  let ?q = "p\<lparr>g_rcvbuf := (g_rcvbuf p)[?i := f ! ?i], g_rcvlen := Suc ?i\<rparr>"
  have l: "?i < length f" "?i < length (g_rcvbuf p)" "length f = Suc ?i"
    using f pos by (auto simp: gb_message_def gb_shape_def posn_def)
  have x: "last f = f ! ?i" using l(3) by (subst last_conv_nth) auto
  have s: "gb_store (last f) (gb_mark False p) = Some ?q" using pos l x by (simp add: gb_store_def gb_mark_def posn_def)
  have t: "take (Suc ?i) (g_rcvbuf ?q) = take (Suc ?i) f" using take_store [OF l(2,1)] pos by (simp add: posn_def)
  have e: "gb_makeup_step (last f) ?q = (True, ?q\<lparr>g_rcvstep := -1\<rparr>)" using pos by (simp add: gb_makeup_step_def posn_def)
  have "parse_only p (?q\<lparr>g_rcvstep := -1\<rparr>)"
    using parse_only_trans [OF store_only [OF s] step_only [OF e]] by (simp add: gb_mark_def)
  then show ?thesis using m s e t l pos by (intro exI [of _ "?q\<lparr>g_rcvstep := -1\<rparr>"]) (simp add: posn_def)
qed

declare gb_makeup_pack.simps(2) [simp del]

lemma at_mark_not: "b \<noteq> 0x23 \<or> c \<noteq> 0x23 \<Longrightarrow> gb_at_mark (b # c # bs) = Some False"
  by (auto simp: gb_at_mark_def)

lemma more_bytes:
  assumes f: "gb_shape f" and "posn f i p" "0 < i" "i + j \<le> 24 + gb_datalen f" "i + j \<le> 1024"
    and "rest \<noteq> []" "0 < j \<longrightarrow> \<not> (f ! (i + j - 1) = 0x23 \<and> hd rest = 0x23)"
  shows "\<exists>p'. gb_makeup_pack p (take j (drop i f) @ rest) (j + k) = gb_makeup_pack p' rest k \<and> posn f (i + j) p' \<and> parse_only p p'"
  using assms(2-)
proof (induction j arbitrary: i p)
  case (Suc j)
  have l: "i < length f" "length f = 25 + gb_datalen f" "unmarked f" using f Suc.prems by (auto simp: gb_shape_def)
  have d: "take (Suc j) (drop i f) @ rest = f ! i # (take j (drop (Suc i) f) @ rest)"
    using l(1) by (simp add: Cons_nth_drop_Suc [symmetric])
  have "\<exists>c bs. take j (drop (Suc i) f) @ rest = c # bs \<and> (f ! i \<noteq> 0x23 \<or> c \<noteq> 0x23)"
  proof (cases j)
    case 0
    with Suc.prems show ?thesis by (cases rest) auto
  next
    case (Suc j')
    have "Suc i < length f" using Suc.prems l(2) \<open>j = Suc j'\<close> by simp
    with unmarked_nth [OF l(3) Suc.prems(2)] \<open>j = Suc j'\<close> show ?thesis
      by (auto simp: Cons_nth_drop_Suc [symmetric])
  qed
  then have "gb_at_mark (f ! i # (take j (drop (Suc i) f) @ rest)) = Some False" using at_mark_not by fastforce
  from next_byte [OF f Suc.prems(1,2) _ _ this, of "j + k"] Suc.prems(3,4) obtain p1 where
    p1: "gb_makeup_pack p (f ! i # (take j (drop (Suc i) f) @ rest)) (Suc (j + k)) =
         gb_makeup_pack p1 (take j (drop (Suc i) f) @ rest) (j + k)" "posn f (Suc i) p1" "parse_only p p1" by auto
  from Suc.IH [OF p1(2)] Suc.prems obtain p' where
    "gb_makeup_pack p1 (take j (drop (Suc i) f) @ rest) (j + k) = gb_makeup_pack p' rest k" "posn f (Suc i + j) p'"
    "parse_only p1 p'" by auto
  with p1(1) parse_only_trans [OF p1(3)] show ?case unfolding d by (intro exI [of _ p']) simp
qed auto

definition complete :: "bytes \<Rightarrow> gb_stat_t \<Rightarrow> gb_stat_t \<Rightarrow> bool" where
  "complete f p p' \<longleftrightarrow> parse_only p p' \<and> take (length f) (g_rcvbuf p') = f \<and> g_rcvlen p' = length f
     \<and> length (g_rcvbuf p') = 1024 \<and> g_rcvstep p' = -1"

lemma end_bytes:
  assumes f: "gb_message f" and pos: "posn f i p" "0 < i" "i < length f" and rest: "gb_at_mark (last f # rest) = Some False"
  shows "\<exists>p'. gb_makeup_pack p (drop i f @ rest) (length f - i + k) = Some (True, p', rest, k) \<and> complete f p p'"
proof -
  let ?e = "24 + gb_datalen f"
  have l: "length f = Suc ?e" "f \<noteq> []" "gb_datalen f \<le> 999" using f by (auto simp: gb_message_def gb_shape_def)
  have e: "last f = f ! ?e" using l by (simp add: last_conv_nth)
  have "take (Suc (?e - i)) (drop i f) = take (?e - i) (drop i f) @ [last f]"
    using pos(3) l unfolding e by (subst take_Suc_conv_app_nth) auto
  then have d: "drop i f = take (?e - i) (drop i f) @ [last f]" using pos(3) l by simp
  have "\<not> (f ! (?e - 1) = 0x23 \<and> last f = 0x23)" 
    using f l unmarked_nth [of f "23 + gb_datalen f"] unfolding e gb_message_def gb_shape_def by auto
  from more_bytes [OF gb_message_shape [OF f] pos(1,2), of "?e - i" "last f # rest" "Suc k"] this pos(3) l obtain p1 where
    p1: "gb_makeup_pack p (take (?e - i) (drop i f) @ last f # rest) (?e - i + Suc k) = gb_makeup_pack p1 (last f # rest) (Suc k)"
      "posn f ?e p1" "parse_only p p1" by auto
  from last_byte [OF f p1(2) rest] obtain p' where p': "gb_makeup_pack p1 (last f # rest) (Suc k) = Some (True, p', rest, k)"
    "complete f p1 p'" by (auto simp: complete_def)
  have "drop i f @ rest = take (?e - i) (drop i f) @ last f # rest" by (subst d) simp
  moreover have "length f - i + k = ?e - i + Suc k" using pos(3) l by simp
  ultimately have "gb_makeup_pack p (drop i f @ rest) (length f - i + k) = Some (True, p', rest, k)"
    by (simp only: p1(1) p'(1))
  then show ?thesis using p'(2) parse_only_trans [OF p1(3)] by (auto simp: complete_def)
qed

lemma start_bytes:
  assumes f: "gb_shape f" and l: "length (g_rcvbuf p) = 1024"
  shows "\<exists>p'. gb_makeup_pack p (f @ rest) (length f + k) = gb_makeup_pack p' (drop 1 f @ rest) (length f - 1 + k)
    \<and> posn f 1 p' \<and> parse_only p p'"
proof -
  obtain fs where e: "f = 0x23 # 0x23 # fs" using f by (cases f rule: remdups_adj.cases) (auto simp: gb_shape_def)
  from first_byte [OF f l, of "fs @ rest" "length f - 1 + k"] show ?thesis unfolding e by simp
qed

lemma whole_message:
  assumes f: "gb_message f" and l: "length (g_rcvbuf p) = 1024" and rest: "gb_at_mark (last f # rest) = Some False"
  shows "\<exists>p'. gb_makeup_pack p (f @ rest) (length f + k) = Some (True, p', rest, k) \<and> complete f p p'"
proof -
  from start_bytes [OF gb_message_shape [OF f] l] obtain p1 where
    p1: "gb_makeup_pack p (f @ rest) (length f + k) = gb_makeup_pack p1 (drop 1 f @ rest) (length f - 1 + k)"
      "posn f 1 p1" "parse_only p p1" by blast
  have "1 < length f" using f by (simp add: gb_message_def gb_shape_def)
  from end_bytes [OF f p1(2) _ this rest] p1(1,3) parse_only_trans [OF p1(3)] show ?thesis by (auto simp: complete_def)
qed

text \<open>The pieces of a message, each read into a cleared buffer of 1456 bytes.\<close>

definition padded :: "bytes \<Rightarrow> bytes" where "padded x = x @ replicate (1456 - length x) 0"

fun gb_feed :: "gb_stat_t \<Rightarrow> bytes list \<Rightarrow> (bool \<times> gb_stat_t) option" where
  "gb_feed p [] = Some (False, p)"
| "gb_feed p (x # xs) =
     (case gb_makeup_pack p (padded x) (length x) of
        None \<Rightarrow> None
      | Some (True, p, _, _) \<Rightarrow> Some (True, p)
      | Some (False, p, _, _) \<Rightarrow> gb_feed p xs)"

lemma padded_rest: "length x < 1456 \<Longrightarrow> padded x = x @ 0 # replicate (1455 - length x) 0"
  by (simp add: padded_def Suc_diff_le [symmetric] replicate_Suc [symmetric] del: replicate_Suc)

lemma piece:
  assumes f: "gb_message f" and pos: "posn f i p" "0 < i" "i < length f" and x: "x @ ys = drop i f"
  shows "\<exists>p'. (if ys = [] then gb_makeup_pack p (x @ 0 # zs) (length x) = Some (True, p', 0 # zs, 0) \<and> complete f p p'
    else gb_makeup_pack p (x @ 0 # zs) (length x) = Some (False, p', 0 # zs, 0) \<and> posn f (i + length x) p' \<and> parse_only p p'
      \<and> i + length x < length f \<and> ys = drop (i + length x) f)"
proof (cases "ys = []")
  case True
  then have "x = drop i f" using x by simp
  with end_bytes [OF f pos at_mark_not [of "last f" 0], of zs 0] True show ?thesis by auto
next
  case False
  have len: "length x + length ys = length f - i" using arg_cong [OF x, of length] by simp
  with False have n: "i + length x < length f" "i + length x \<le> 24 + gb_datalen f"
    using f pos(3) by (cases ys; auto simp: gb_message_def gb_shape_def)+
  have e: "x = take (length x) (drop i f)" "ys = drop (i + length x) f"
    using x by (metis append_eq_conv_conj, metis add.commute append_eq_conv_conj drop_drop)
  have "i + length x \<le> 1024" using n(2) f by (simp add: gb_message_def)
  from more_bytes [OF gb_message_shape [OF f] pos(1,2) n(2) this, of "0 # zs" 0] False n(1) e show ?thesis by auto
qed

lemma feed_rest:
  assumes f: "gb_message f" and "posn f i p" "0 < i" "concat xs = drop i f" "i < length f" "\<forall>x\<in>set xs. length x < 1456"
  shows "\<exists>p'. gb_feed p xs = Some (True, p') \<and> complete f p p'"
  using assms(2-)
proof (induction xs arbitrary: i p)
  case (Cons x xs)
  let ?zs = "replicate (1455 - length x) 0"
  have l: "padded x = x @ 0 # ?zs" "x @ concat xs = drop i f" using Cons.prems by (simp_all add: padded_rest)
  from piece [OF f Cons.prems(1,2,4) l(2), of ?zs] show ?case
  proof (elim exE, cases "concat xs = []")
    fix p1 assume p1: "if concat xs = [] then gb_makeup_pack p (x @ 0 # ?zs) (length x) = Some (True, p1, 0 # ?zs, 0) \<and> complete f p p1
      else gb_makeup_pack p (x @ 0 # ?zs) (length x) = Some (False, p1, 0 # ?zs, 0) \<and> posn f (i + length x) p1 \<and> parse_only p p1
        \<and> i + length x < length f \<and> concat xs = drop (i + length x) f"
    {
      case True
      with p1 show ?thesis by (simp add: l(1))
    next
      case False
      with p1 have q: "posn f (i + length x) p1" "concat xs = drop (i + length x) f" "i + length x < length f" "parse_only p p1"
        "gb_makeup_pack p (x @ 0 # ?zs) (length x) = Some (False, p1, 0 # ?zs, 0)" by metis+
      from Cons.IH [OF q(1) _ q(2,3)] Cons.prems obtain p' where "gb_feed p1 xs = Some (True, p')" "complete f p1 p'" by auto
      with q(5) parse_only_trans [OF q(4)] show ?thesis by (auto simp: complete_def l(1))
    }
  qed
qed auto

lemma feed_message:
  assumes f: "gb_message f" and l: "length (g_rcvbuf p) = 1024" and xs: "concat xs = f" "2 \<le> length (hd xs)"
    "\<forall>x\<in>set xs. length x < 1456"
  shows "\<exists>p'. gb_feed p xs = Some (True, p') \<and> complete f p p'"
proof -
  obtain x ys where x: "xs = x # ys" using f xs(1) by (cases xs) (auto simp: gb_message_def gb_shape_def)
  have lx: "length x < 1456" "2 \<le> length x" "x @ concat ys = f" using xs x by simp_all
  then obtain b c cs where "x = b # c # cs" by (cases x rule: remdups_adj.cases) auto
  with lx(3) f have e: "x = 0x23 # 0x23 # cs" by (auto simp: gb_message_def gb_shape_def)
  let ?zs = "replicate (1455 - length x) 0"
  have pd: "padded x = 0x23 # 0x23 # (cs @ 0 # ?zs)" using padded_rest [OF lx(1)] by (simp add: e)
  from first_byte [OF gb_message_shape [OF f] l, of "cs @ 0 # ?zs" "Suc (length cs)"] obtain p1 where
    p1: "gb_makeup_pack p (padded x) (length x) = gb_makeup_pack p1 ((0x23 # cs) @ 0 # ?zs) (length (0x23 # cs))"
      "posn f 1 p1" "parse_only p p1" unfolding pd by (auto simp: e)
  have d: "(0x23 # cs) @ concat ys = drop 1 f" and n: "1 < length f" using lx(3) e f by (auto simp: gb_message_def gb_shape_def)
  show ?thesis
  proof (cases "concat ys = []")
    case True
    with piece [OF f p1(2) _ n d, of ?zs] p1 parse_only_trans [OF p1(3)] show ?thesis
      by (auto simp: x complete_def)
  next
    case False
    from piece [OF f p1(2) zero_less_one n d, of ?zs] obtain p2 where
      p2: "gb_makeup_pack p1 ((0x23 # cs) @ 0 # ?zs) (length (0x23 # cs)) = Some (False, p2, 0 # ?zs, 0)"
        "posn f (1 + length (0x23 # cs)) p2" "parse_only p1 p2" "1 + length (0x23 # cs) < length f"
        "concat ys = drop (1 + length (0x23 # cs)) f" unfolding if_not_P [OF False] by blast
    from feed_rest [OF f p2(2) _ p2(5,4)] xs(3) x obtain p' where "gb_feed p2 ys = Some (True, p')" "complete f p2 p'" by auto
    with p1 p2 parse_only_trans [OF parse_only_trans [OF p1(3) p2(3)]] show ?thesis by (auto simp: x complete_def)
  qed
qed

section \<open>Messages that are built, too long, or checked\<close>

lemma drop_two: "Suc n < length f \<Longrightarrow> drop n f = f ! n # f ! Suc n # drop (Suc (Suc n)) f"
  by (simp add: Cons_nth_drop_Suc)

lemma drop_last: "length f = Suc n \<Longrightarrow> drop n f = [last f]"
  by (cases f rule: rev_cases) auto

lemma long_overruns:
  assumes f: "gb_shape f" "999 < gb_datalen f" and l: "length (g_rcvbuf p) = 1024" and rest: "gb_at_mark (last f # rest) \<noteq> Some True"
  shows "gb_makeup_pack p (f @ rest) (length f) = None"
proof -
  have len: "length f = 25 + gb_datalen f" "unmarked f" using f(1) by (auto simp: gb_shape_def)
  from start_bytes [OF f(1) l, of rest 0] obtain p1 where
    p1: "gb_makeup_pack p (f @ rest) (length f) = gb_makeup_pack p1 (drop 1 f @ rest) (length f - 1)" "posn f 1 p1" by auto
  let ?r = "drop 1024 f @ rest"
  have d: "drop 1024 f = drop 1023 (drop 1 f)" by simp
  have e: "take 1023 (drop 1 f) @ ?r = drop 1 f @ rest" by (simp only: d append_assoc [symmetric] append_take_drop_id)
  have r: "?r \<noteq> []" "hd ?r = f ! 1024" "1 + 1023 \<le> 24 + gb_datalen f" using len f(2) by (simp_all add: hd_drop_conv_nth)
  have m: "0 < 1023 \<longrightarrow> \<not> (f ! (1 + 1023 - 1) = 0x23 \<and> hd ?r = 0x23)"
    using len f(2) unmarked_nth [of f 1023] unfolding r(2) by auto
  from more_bytes [OF f(1) p1(2) zero_less_one r(3) _ r(1) m, of "length f - 1024"] obtain p2 where
    "gb_makeup_pack p1 (drop 1 f @ rest) (1023 + (length f - 1024)) = gb_makeup_pack p2 ?r (length f - 1024)"
    "posn f (1 + 1023) p2" unfolding e by auto
  moreover have "1023 + (length f - 1024) = length f - 1" using len f(2) by simp
  ultimately have p2: "gb_makeup_pack p1 (drop 1 f @ rest) (length f - 1) = gb_makeup_pack p2 ?r (length f - 1024)"
    "posn f 1024 p2" by simp_all
  have s: "gb_store b (gb_mark False p2) = None" for b using p2(2) by (simp add: gb_store_def gb_mark_def posn_def)
  have "gb_at_mark ?r \<noteq> Some True"
  proof (cases "gb_datalen f = 1000")
    case True
    then have "drop 1024 f = [last f]" using len by (intro drop_last) simp
    with rest show ?thesis by simp
  next
    case False
    then have "1025 < length f" using len f(2) by simp
    then have "drop 1024 f = f ! 1024 # f ! 1025 # drop 1026 f" using drop_two [of 1024 f] by simp
    moreover have "\<not> (f ! 1024 = 0x23 \<and> f ! 1025 = 0x23)" using len False f(2) unmarked_nth [of f 1024] by auto
    ultimately show ?thesis by (simp add: at_mark_not)
  qed
  then have "gb_at_mark ?r = None \<or> gb_at_mark ?r = Some False" by (cases "gb_at_mark ?r") auto
  then have "gb_makeup_pack p2 ?r (Suc k) = None" for k using s by (auto simp: gb_makeup_pack.simps(2))
  moreover have "length f - 1024 = Suc (gb_datalen f - 1000)" using len f(2) by simp
  ultimately show ?thesis using p1(1) p2(1) by simp
qed

text \<open>The check of the sum, and the messages that the module builds.\<close>

definition summed :: "bytes \<Rightarrow> bool" where "summed f \<longleftrightarrow> last f = gb_checksum (take (length f - 3) (drop 2 f))"

lemma complete_summed:
  assumes "gb_message f" "complete f p p'"
  shows "gb_sum_ok p' \<longleftrightarrow> summed f"
proof -
  have l: "25 < length f" "length f \<le> 1024" using assms(1) by (auto simp: gb_message_def gb_shape_def)
  have n: "g_rcvbuf p' ! i = f ! i" if "i < length f" for i
    using assms(2) that by (metis complete_def nth_take)
  have "take (length f - 3) (drop 2 (g_rcvbuf p')) = take (length f - 3) (drop 2 f)"
    using assms(2) l n by (intro nth_equalityI) (auto simp: complete_def)
  moreover have "last f = f ! (length f - 1)" using l by (intro last_conv_nth) auto
  ultimately show ?thesis using assms(2) l n by (auto simp: gb_sum_ok_def summed_def complete_def)
qed

lemma built_message:
  assumes "f = gb_close_pack (gb_pack_head type dir q @ [hi, lo] @ data)" "17 \<le> length (gb_vin q)" "unmarked f"
    and "length data = unat hi * 256 + unat lo" "0 < length data" "length data \<le> 999"
  shows "gb_message f" "summed f"
proof -
  have h: "length (gb_pack_head type dir q) = 22" using assms(2) by (simp add: gb_pack_head_def)
  then have l: "length f = 25 + length data" using assms(1) by (simp add: gb_close_pack_def)
  have "f ! 22 = hi" "f ! 23 = lo" unfolding assms(1) gb_close_pack_def using h by (simp_all add: nth_append)
  then have d: "gb_datalen f = length data" using assms(4) by (simp add: gb_datalen_def)
  have "f ! 0 = 0x23" "f ! 1 = 0x23" unfolding assms(1) by (simp_all add: gb_close_pack_def gb_pack_head_def)
  with l d assms(3,5,6) show "gb_message f" by (simp add: gb_message_def gb_shape_def)
  show "summed f" unfolding assms(1) summed_def gb_close_pack_def using h by simp
qed

text \<open>C21: A message that the module's own functions build with 1 to 999 data bytes and in which no two adjacent number signs follow
  the start marks (in such a message the parser starts anew at the second pair and loses it, and one without data it never ends), cut
  into pieces as the network delivers it (each less than 1456 bytes, the two
  start marks in one piece), is put together again by the parser and passes its checksum test, whatever the
  parser was doing before; no piece overruns the buffer.\<close>

theorem gb_message_reassembled:
  assumes "f = gb_close_pack (gb_pack_head type dir q @ [hi, lo] @ data)" "17 \<le> length (gb_vin q)" "unmarked f"
    and "length data = unat hi * 256 + unat lo" "0 < length data" "length data \<le> 999"
    and "length (g_rcvbuf p) = 1024" "concat xs = f" "2 \<le> length (hd xs)" "\<forall>x\<in>set xs. length x < 1456"
  shows "\<exists>p'. gb_feed p xs = Some (True, p') \<and> take (g_rcvlen p') (g_rcvbuf p') = f \<and> gb_sum_ok p'"
proof -
  note m = built_message [OF assms(1-6)]
  from feed_message [OF m(1) assms(7-10)] obtain p' where "gb_feed p xs = Some (True, p')" "complete f p p'" by blast
  with complete_summed [OF m(1)] m(2) show ?thesis by (auto simp: complete_def)
qed

definition demo_gbp :: gb_stat_t where
  "demo_gbp = \<lparr>g_online = False, g_wait = 0, g_retry = 0, g_waittime = 0, g_rcvbuf = replicate 1024 0, g_rcvlen = 0,
     g_rcvstep = -1, g_datalen = 0, g_login = False, g_suspend = False, g_caltime = False, g_can = True, g_network = 1,
     g_errtrig = False, g_caltimewait = False, g_caltimewaittime = 0, g_calflag = False, gb_vin = replicate 17 0x31 @ [0],
     gb_url = [], gb_port = 0, gb_timeout = 5, gb_regintv = 30, gb_regdate = 101, gb_regseq = 1, gb_iccid = replicate 21 0,
     gb_battcode = replicate 64 0, gb_allow_sleep = False, gbnosend = 0, powerOffFlag = 0, gb_pool = GbReports.demo_gb,
     gb_SPObj = [demo_sq, demo_sq], gb_calls = []\<rparr>"

text \<open>The answer to a login, and the number with which it is checked.\<close>

definition demo_answer :: "u8 \<Rightarrow> bytes" where
  "demo_answer cmd = gb_close_pack (gb_pack_head cmd 1 demo_gbp @ [0, 2] @ [7, 8])"

lemma demo_gbp_vin: "gb_vin demo_gbp = replicate 17 0x31 @ [0]" "length (g_rcvbuf demo_gbp) = 1024"
  by (simp_all add: demo_gbp_def)

lemma demo_answer_bytes:
  "demo_answer 1 = [0x23, 0x23, 1, 1] @ replicate 17 0x31 @ [1, 0, 2, 7, 8, 0x3d]"
  "demo_answer 4 = [0x23, 0x23, 4, 1] @ replicate 17 0x31 @ [1, 0, 2, 7, 8, 0x38]"
  unfolding demo_answer_def gb_close_pack_def gb_pack_head_def demo_gbp_vin by (code_simp, code_simp)

lemma demo_unmarked: "unmarked (demo_answer 1)" "unmarked (demo_answer 4)"
  unfolding demo_answer_bytes by (code_simp, code_simp)

theorem gb_message_reassembled_witness:
  "\<exists>p'. gb_feed demo_gbp [take 9 (demo_answer 1), drop 9 (demo_answer 1)] = Some (True, p')
     \<and> take (g_rcvlen p') (g_rcvbuf p') = demo_answer 1 \<and> gb_sum_ok p'"
  by (rule gb_message_reassembled [OF demo_answer_def]) (simp_all add: demo_unmarked demo_gbp_vin, simp_all add: demo_answer_bytes)

section \<open>Receiving from the queue\<close>

definition gb_queue :: "gb_stat_t \<Rightarrow> bytes list" where "gb_queue p = sq_content (gb_SPObj p ! SP_GB)"

definition queue_ok :: "gb_stat_t \<Rightarrow> bool" where
  "queue_ok p \<longleftrightarrow> gb_SPObj p \<noteq> [] \<and> sq_inv (gb_SPObj p ! SP_GB)"

lemma receive_queue:
  assumes "queue_ok p"
  shows "case gb_queue p of
      [] \<Rightarrow> gb_do_receive p = Some (False, p)
    | m # ms \<Rightarrow> \<exists>objs. gb_do_receive p = gb_receive_loop (p\<lparr>gb_SPObj := objs\<rparr>) (padded m) (length m)
        \<and> queue_ok (p\<lparr>gb_SPObj := objs\<rparr>) \<and> gb_queue (p\<lparr>gb_SPObj := objs\<rparr>) = ms \<and> 0 < length m
        \<and> RdSockproxyData_Queue (gb_SPObj p) SP_GB (replicate 1456 0) 1456 = (int (length m), objs, padded m)"
proof -
  let ?q = "gb_SPObj p ! SP_GB"
  obtain n where n: "n \<le> 10" "sq_filled ?q n" using assms by (auto simp: queue_ok_def sq_inv_def)
  show ?thesis
  proof (cases n)
    case 0
    with n(2) sq_filled_content [of ?q 0] rd_slot_empty [of ?q "replicate 1456 0" 1456] assms show ?thesis
      by (simp add: gb_queue_def gb_do_receive_def RdSockproxyData_Queue_def queue_ok_def)
  next
    case (Suc k)
    from rd_slot_law [of ?q k "replicate 1456 0"] n(2) Suc obtain q' where
      q': "rd_slot ?q (replicate 1456 0) 1456 = (int (length (hd (sq_content ?q))), q',
         hd (sq_content ?q) @ drop (length (hd (sq_content ?q))) (replicate 1456 0))"
      "0 < length (hd (sq_content ?q))" "sq_filled q' k" "sq_content q' = tl (sq_content ?q)" by auto
    obtain m ms where m: "sq_content ?q = m # ms" using sq_filled_content [OF n(2)] Suc by (cases "sq_content ?q") auto
    let ?p = "p\<lparr>gb_SPObj := (gb_SPObj p)[SP_GB := q']\<rparr>"
    have "gb_do_receive p = gb_receive_loop ?p (padded m) (length m)"
      using q'(1,2) unfolding m by (simp add: gb_do_receive_def RdSockproxyData_Queue_def padded_def)
    moreover have "RdSockproxyData_Queue (gb_SPObj p) SP_GB (replicate 1456 0) 1456 = (int (length m), gb_SPObj ?p, padded m)"
      using q'(1) unfolding m by (simp add: RdSockproxyData_Queue_def padded_def)
    moreover have "queue_ok ?p" "gb_queue ?p = ms"
      using assms q'(3,4) m n(1) Suc by (auto simp: queue_ok_def gb_queue_def sq_inv_def intro: exI [of _ k])
    ultimately show ?thesis using q'(2) m by (auto simp: gb_queue_def)
  qed
qed

declare gb_receive_loop.simps [simp del]

lemma receive_loop_0: "gb_receive_loop p input 0 = Some (False, p)"
  by (simp add: gb_receive_loop.simps)

lemma receive_one:
  assumes f: "gb_message f" and l: "length (g_rcvbuf p) = 1024"
  shows "\<exists>p'. complete f p p' \<and> gb_receive_loop p (padded f) (length f) = (if summed f then gb_on_msg p' else Some (False, p'))"
proof -
  have len: "length f < 1456" "length f \<noteq> 0" using f by (auto simp: gb_message_def gb_shape_def)
  from whole_message [OF f l at_mark_not [of "last f" 0], of "replicate (1455 - length f) 0" 0] obtain p' where
    p': "gb_makeup_pack p (padded f) (length f) = Some (True, p', 0 # replicate (1455 - length f) 0, 0)" "complete f p p'"
    unfolding padded_rest [OF len(1)] by auto
  with complete_summed [OF f p'(2)] len(2)
  have "gb_receive_loop p (padded f) (length f) = (if summed f then gb_on_msg p' else Some (False, p'))"
    by (subst gb_receive_loop.simps) (auto simp: receive_loop_0 split: option.split prod.split bool.split)
  with p'(2) show ?thesis by blast
qed

end
