(* ===== verification/GbSession.thy ===== *)
theory GbSession
  imports GbParse
begin

text \<open>
  The session with the server: the abstract states of a session and what may be sent in each, the invariant of
  the protocol thread, that every turn refines the abstract session and keeps the invariant, and that neither
  the thread nor the CAN side ever gets stuck.
\<close>

section \<open>The abstract session\<close>

datatype session = Offline | Asked | Online | Leaving

definition session :: "gb_stat_t \<Rightarrow> session" where
  "session p = (if g_wait p = PROT_LOGOUT then Leaving else if g_wait p = PROT_LOGIN then Asked
                else if g_online p then Online else Offline)"

text \<open>The kinds of the messages a step sends, in their order.\<close>

definition sent_kinds :: "gb_call list \<Rightarrow> nat list" where
  "sent_kinds cs = concat (map (\<lambda>c. case c of GbSend msg _ \<Rightarrow> [unat (msg ! 2)] | _ \<Rightarrow> []) cs)"

text \<open>One turn: \<open>answered\<close> says whether the server's consent to the login was received in it.\<close>

inductive session_turn :: "bool \<Rightarrow> session \<Rightarrow> nat list \<Rightarrow> session \<Rightarrow> bool" for answered where
  stay: "session_turn answered s [] s"
| lost: "session_turn answered Offline ks s' \<Longrightarrow> session_turn answered s ks s'"
| login: "s' \<in> {Offline, Asked} \<Longrightarrow> session_turn answered Offline [PROT_LOGIN] s'"
| accepted: "answered \<Longrightarrow> session_turn answered Online ks s' \<Longrightarrow> session_turn answered Asked ks s'"
| work: "r \<in> {[], [2], [3]} \<Longrightarrow> c \<in> {[], [PROT_CALTIME]} \<Longrightarrow> s' \<in> {Online, Offline} \<Longrightarrow>
    session_turn answered Online (r @ c) s'"
| leave: "r \<in> {[], [2], [3]} \<Longrightarrow> c \<in> {[], [PROT_CALTIME]} \<Longrightarrow> s' \<in> {Online, Leaving, Offline} \<Longrightarrow>
    session_turn answered Online (r @ c @ [PROT_LOGOUT]) s'"
| again: "s' \<in> {Leaving, Offline} \<Longrightarrow> session_turn answered Leaving [PROT_LOGOUT] s'"

lemma session_turn_mono: "session_turn False s ks s' \<Longrightarrow> session_turn a s ks s'"
proof (induction rule: session_turn.induct)
  case (login s')
  then show ?case by (rule session_turn.login)
qed (simp_all add: session_turn.stay session_turn.lost session_turn.work session_turn.leave session_turn.again)

section \<open>The invariant of the thread\<close>

definition sess_ok :: "gb_stat_t \<Rightarrow> bool" where
  "sess_ok p \<longleftrightarrow> g_wait p \<in> {0, PROT_LOGIN, PROT_LOGOUT} \<and> (g_wait p = PROT_LOGIN \<longrightarrow> \<not> g_online p)
     \<and> (g_wait p = PROT_LOGOUT \<longrightarrow> g_online p) \<and> (g_calflag p \<longrightarrow> g_can p \<or> gb_allow_sleep p)
     \<and> (g_online p \<longrightarrow> g_login p \<or> g_wait p = PROT_LOGOUT)"

definition pool_at :: "nat \<Rightarrow> gb_pool_t \<Rightarrow> bool" where
  "pool_at n s \<longleftrightarrow> pool_fit s {} \<and> length (a_trans (gb_abs_of s)) \<le> n"

definition rx_ok :: "gb_stat_t \<Rightarrow> bool" where
  "rx_ok p \<longleftrightarrow> length (g_rcvbuf p) = 1024 \<and> g_rcvlen p \<le> 1024"

definition gb_inv :: "gb_stat_t \<Rightarrow> bool" where
  "gb_inv p \<longleftrightarrow> sess_ok p \<and> pool_at 1 (gb_pool p) \<and> rx_ok p \<and> queue_ok p"

text \<open>What a stage sends and keeps.\<close>

definition stage :: "gb_stat_t \<Rightarrow> nat list \<Rightarrow> gb_stat_t \<Rightarrow> bool" where
  "stage p ks p' \<longleftrightarrow> (\<exists>cs. gb_calls p' = gb_calls p @ cs \<and> sent_kinds cs = ks) \<and> gb_SPObj p' = gb_SPObj p
     \<and> (rx_ok p \<longrightarrow> rx_ok p') \<and> (pool_at 1 (gb_pool p) \<longrightarrow> pool_at 1 (gb_pool p'))"

lemma sent_kinds_simps [simp]:
  "sent_kinds [] = []" "sent_kinds (cs @ ds) = sent_kinds cs @ sent_kinds ds"
  "sent_kinds (c # cs) = (case c of GbSend msg _ \<Rightarrow> [unat (msg ! 2)] | _ \<Rightarrow> []) @ sent_kinds cs"
  by (simp_all add: sent_kinds_def)

lemma stage_refl [simp]: "stage p [] p"
  by (simp add: stage_def)

lemma stage_trans: "stage p ks p' \<Longrightarrow> stage p' ls p'' \<Longrightarrow> stage p (ks @ ls) p''"
  by (auto simp: stage_def)

lemma stageI:
  assumes "gb_calls p' = gb_calls p @ cs" "sent_kinds cs = ks" "gb_SPObj p' = gb_SPObj p" "gb_pool p' = gb_pool p"
    "g_rcvbuf p' = g_rcvbuf p" "g_rcvlen p' \<le> g_rcvlen p"
  shows "stage p ks p'"
  using assms by (auto simp: stage_def rx_ok_def)

lemma reset_stage: "stage p [] (gb_reset p)" "session (gb_reset p) = Offline"
  by (auto intro!: stageI [where cs = "[]"] simp: gb_reset_def session_def)

lemma close_stage: "stage p [] (gb_close n p)" "session (gb_close n p) = Offline"
  by (auto intro!: stageI [where cs = "[GbSocketClose (PP_SP_COLSE_GB + n)]"]
      simp: gb_close_def gb_reset_def gb_emit_def session_def)

text \<open>The reports in the pool.\<close>

lemma sim_fit:
  assumes "gb_sim s H s' H' A" "pool_fit s H" "a_ring A = a_ring (gb_abs_of s)" "finite H'" "card H' + length (a_trans A) < 1970"
  shows "pool_fit s' H'"
  using assms by (simp add: gb_sim_def pool_fit_def gb_ctl_def)

lemma ack_fit:
  assumes "pool_fit s H"
  shows "pool_fit (gb_data_ack_pack s) H" "a_trans (gb_abs_of (gb_data_ack_pack s)) = tl (a_trans (gb_abs_of s))"
    "i \<in> H \<Longrightarrow> gb_datamem (gb_data_ack_pack s) ! i = gb_datamem s ! i"
proof -
  note a = ack_abs [OF fit_ok [OF assms]]
  show "pool_fit (gb_data_ack_pack s) H"
    by (rule sim_fit [OF a assms]) (use assms in \<open>auto simp: spec_ack_def pool_fit_def\<close>)
  show "a_trans (gb_abs_of (gb_data_ack_pack s)) = tl (a_trans (gb_abs_of s))"
    using a by (simp add: gb_sim_def spec_ack_def)
  show "i \<in> H \<Longrightarrow> gb_datamem (gb_data_ack_pack s) ! i = gb_datamem s ! i" using a by (simp add: gb_sim_def)
qed

lemma pool_at_ack: "pool_at 1 s \<Longrightarrow> pool_at 0 (gb_data_ack_pack s)"
  using ack_fit(1,2) [of s "{}"] by (simp add: pool_at_def)

lemma pool_at_le: "pool_at m s \<Longrightarrow> m \<le> n \<Longrightarrow> pool_at n s"
  by (simp add: pool_at_def)

lemma send_stage:
  assumes "gb32960_MsgSend e msg sync p = (res, q)"
  shows "stage p [unat (msg ! 2)] q" "q = p\<lparr>gb_pool := gb_data_ack_pack (gb_pool p), gb_calls := gb_calls p @ [GbSend msg sync]\<rparr>"
    "res = e_send e msg"
proof -
  show q: "q = p\<lparr>gb_pool := gb_data_ack_pack (gb_pool p), gb_calls := gb_calls p @ [GbSend msg sync]\<rparr>" "res = e_send e msg"
    using assms by (auto simp: gb32960_MsgSend_def gb_emit_def)
  show "stage p [unat (msg ! 2)] q"
    unfolding stage_def q(1) using pool_at_le [OF pool_at_ack, of "gb_pool p" 1] by (auto simp: rx_ok_def)
qed

lemma built_kinds:
  "gb_pack_logout t p ! 2 = 4" "gb_pack_tspcailtime p ! 2 = 8" "fst (gb_pack_login t iccid p) ! 2 = 1"
  "gb_pack_report p rpt ! 2 = ucast (pk_type rpt)"
  by (simp_all add: gb_pack_logout_def gb_pack_tspcailtime_def gb_pack_login_def gb_pack_report_def gb_close_pack_def
      gb_pack_head_def Let_def)

section \<open>The stages of a turn\<close>

lemma checksock_stage:
  assumes "gb_do_checksock e p = (b, p')" "sess_ok p"
  shows "if b then stage p [] p' \<and> session p' = Offline \<and> sess_ok p' else p' = p \<and> \<not> gb_allow_sleep p \<and> e_socket e = 1"
proof (cases "e_socket e = 1 \<and> \<not> gb_allow_sleep p")
  case False
  then have b: "b" "p' = p\<lparr>g_wait := 0, g_online := False, g_retry := 0, g_waittime := 0, g_rcvstep := -1, g_rcvlen := 0, g_datalen := 0\<rparr>"
    using assms(1) by (auto simp: gb_do_checksock_def)
  have "stage p [] p'" unfolding b(2) by (rule stageI [where cs = "[]"]) auto
  with b assms(2) show ?thesis by (simp add: session_def sess_ok_def)
qed (use assms in \<open>simp add: gb_do_checksock_def\<close>)

lemma reset_ok: "sess_ok p \<Longrightarrow> sess_ok (gb_reset p)" "sess_ok p \<Longrightarrow> sess_ok (gb_close n p)"
  by (simp_all add: sess_ok_def gb_reset_def gb_close_def gb_emit_def)

lemma wait_idle: "g_wait p = 0 \<Longrightarrow> gb_do_wait e p = (False, p)"
  by (simp add: gb_do_wait_def)

lemma wait_asked:
  "g_wait p = PROT_LOGIN \<Longrightarrow> gb_do_wait e p =
     (True, if GB_SERVR_TIMEOUT p < e_now e - g_waittime p then gb_reset (p\<lparr>g_wait := 0\<rparr>) else p)"
  by (simp add: gb_do_wait_def)

lemma wait_leaving:
  "g_wait p = PROT_LOGOUT \<Longrightarrow> gb_do_wait e p =
     (True, if GB_SERVR_TIMEOUT p < e_now e - g_waittime p
        then if 2 < g_retry p then gb_reset (p\<lparr>g_retry := g_retry p + 1, g_login := False, gb_allow_sleep := True\<rparr>)
             else gb_logout_again e (p\<lparr>g_retry := g_retry p + 1\<rparr>)
        else p)"
  by (simp add: gb_do_wait_def Let_def)

text \<open>Where a turn ends: what was sent, in which session it ended, and that the session is consistent.\<close>

definition ends :: "gb_stat_t \<Rightarrow> nat list \<Rightarrow> gb_stat_t \<Rightarrow> session set \<Rightarrow> bool" where
  "ends p ks p' S \<longleftrightarrow> stage p ks p' \<and> session p' \<in> S \<and> sess_ok p'"

lemma ends_after: "stage p [] q \<Longrightarrow> ends q ks p' S \<Longrightarrow> ends p ks p' S"
  using stage_trans [of p "[]" q ks p'] by (simp add: ends_def)

lemma ends_stage: "stage p ks q \<Longrightarrow> ends q [] p' S \<Longrightarrow> ends p ks p' S"
  using stage_trans [of p ks q "[]" p'] by (simp add: ends_def)

lemma ends_mono: "ends p ks p' S \<Longrightarrow> S \<subseteq> T \<Longrightarrow> ends p ks p' T"
  by (auto simp: ends_def)

lemma ends_refl: "sess_ok p \<Longrightarrow> session p \<in> S \<Longrightarrow> ends p [] p S"
  by (simp add: ends_def)

lemma ends_reset: "sess_ok p \<Longrightarrow> ends p [] (gb_reset p) {Offline}" "sess_ok p \<Longrightarrow> ends p [] (gb_close n p) {Offline}"
  by (simp_all add: ends_def reset_stage close_stage reset_ok)

lemma stage_upd [simp]:
  "stage p ks (q\<lparr>g_waittime := t\<rparr>) = stage p ks q" "stage p ks (q\<lparr>g_wait := n\<rparr>) = stage p ks q"
  "stage p ks (q\<lparr>g_retry := n\<rparr>) = stage p ks q" "stage p ks (q\<lparr>g_login := b\<rparr>) = stage p ks q"
  "stage p ks (q\<lparr>gb_allow_sleep := b\<rparr>) = stage p ks q" "stage p ks (q\<lparr>g_calflag := b\<rparr>) = stage p ks q"
  "stage p ks (q\<lparr>g_caltimewait := b\<rparr>) = stage p ks q" "stage p ks (q\<lparr>g_caltimewaittime := t\<rparr>) = stage p ks q"
  "stage p ks (q\<lparr>g_online := b\<rparr>) = stage p ks q" "stage p ks (q\<lparr>g_caltime := b\<rparr>) = stage p ks q"
  by (simp_all add: stage_def rx_ok_def)

lemma view_upd [simp]:
  "session (p\<lparr>g_waittime := t\<rparr>) = session p" "sess_ok (p\<lparr>g_waittime := t\<rparr>) = sess_ok p"
  "session (p\<lparr>g_retry := n\<rparr>) = session p" "sess_ok (p\<lparr>g_retry := n\<rparr>) = sess_ok p"
  "session (p\<lparr>g_caltimewait := b\<rparr>) = session p" "sess_ok (p\<lparr>g_caltimewait := b\<rparr>) = sess_ok p"
  "session (p\<lparr>g_caltimewaittime := t\<rparr>) = session p" "sess_ok (p\<lparr>g_caltimewaittime := t\<rparr>) = sess_ok p"
  "session (p\<lparr>g_calflag := b\<rparr>) = session p" "session (p\<lparr>gb_pool := s\<rparr>) = session p" "sess_ok (p\<lparr>gb_pool := s\<rparr>) = sess_ok p"
  "session (p\<lparr>gb_calls := cs\<rparr>) = session p" "sess_ok (p\<lparr>gb_calls := cs\<rparr>) = sess_ok p"
  "session (p\<lparr>gb_SPObj := qs\<rparr>) = session p" "sess_ok (p\<lparr>gb_SPObj := qs\<rparr>) = sess_ok p"
  by (simp_all add: session_def sess_ok_def)

lemma ends_upd [simp]:
  "ends p ks (q\<lparr>g_waittime := t\<rparr>) S = ends p ks q S" "ends p ks (q\<lparr>g_retry := n\<rparr>) S = ends p ks q S"
  "ends p ks (q\<lparr>g_caltimewait := b\<rparr>) S = ends p ks q S" "ends p ks (q\<lparr>g_caltimewaittime := t\<rparr>) S = ends p ks q S"
  by (simp_all add: ends_def)

definition turn_ends :: "bool \<Rightarrow> session \<Rightarrow> gb_stat_t \<Rightarrow> gb_stat_t \<Rightarrow> bool" where
  "turn_ends a s p p' \<longleftrightarrow> (\<exists>ks. ends p ks p' {s'. session_turn a s ks s'})"

lemma turn_endsI: "ends p ks p' S \<Longrightarrow> (\<And>s'. s' \<in> S \<Longrightarrow> session_turn a s ks s') \<Longrightarrow> turn_ends a s p p'"
  by (auto simp: turn_ends_def ends_def)

lemma turn_stays: "sess_ok p \<Longrightarrow> turn_ends a (session p) p p"
  by (rule turn_endsI [OF ends_refl [of p "{session p}"]]) (auto intro: session_turn.stay)

lemma turn_drops: "ends p [] p' {Offline} \<Longrightarrow> turn_ends a s p p'"
  by (erule turn_endsI) (auto intro: session_turn.lost session_turn.stay)

lemma turn_lost: "turn_ends a Offline p p' \<Longrightarrow> turn_ends a s p p'"
  by (auto simp: turn_ends_def ends_def intro: session_turn.lost)

lemma turn_after: "stage p [] q \<Longrightarrow> turn_ends a s q p' \<Longrightarrow> turn_ends a s p p'"
  unfolding turn_ends_def using ends_after by blast

lemma turn_mono: "turn_ends False s p p' \<Longrightarrow> turn_ends a s p p'"
  by (auto simp: turn_ends_def ends_def intro: session_turn_mono)

text \<open>What sending does, with the three results.\<close>

lemma send_ends:
  assumes "gb32960_MsgSend e msg sync p = (res, q)" "sess_ok p"
  shows "ends p [unat (msg ! 2)] (gb_close n q) {Offline}" "ends p [unat (msg ! 2)] q {session p}"
proof -
  note s = send_stage [OF assms(1)]
  have q: "sess_ok q" "session q = session p" unfolding s(2) using assms(2) by simp_all
  then show "ends p [unat (msg ! 2)] (gb_close n q) {Offline}" "ends p [unat (msg ! 2)] q {session p}"
    using ends_stage [OF s(1) ends_reset(2)] ends_stage [OF s(1) ends_refl] by auto
qed

lemma logout_again_ends:
  assumes "sess_ok p"
  shows "ends p [PROT_LOGOUT] (gb_logout_again e p) {session p, Offline}"
proof -
  obtain res q where s: "gb32960_MsgSend e (gb_pack_logout (e_rtc e) p) False p = (res, q)" by force
  note se = send_ends [OF s assms, unfolded built_kinds]
  show ?thesis
    using ends_mono [OF se(1), of "{session p, Offline}" 1] ends_mono [OF se(2), of "{session p, Offline}"]
    by (simp add: gb_logout_again_def s)
qed

lemma wait_stage:
  assumes "gb_do_wait e p = (b, p')" "sess_ok p" "g_wait p \<noteq> 0"
  shows "b \<and> turn_ends False (session p) p p'"
proof (cases "g_wait p = PROT_LOGIN")
  case True
  from ends_reset(1) [of "p\<lparr>g_wait := 0\<rparr>"] assms(2) True have "ends (p\<lparr>g_wait := 0\<rparr>) [] (gb_reset (p\<lparr>g_wait := 0\<rparr>)) {Offline}"
    by (simp add: sess_ok_def)
  then have "ends p [] (gb_reset (p\<lparr>g_wait := 0\<rparr>)) {Offline}" by (rule ends_after [rotated]) simp
  from turn_drops [OF this] turn_stays [OF assms(2)] show ?thesis
    using assms(1) unfolding wait_asked [OF True] by (simp split: if_splits)
next
  case False
  then have w: "g_wait p = PROT_LOGOUT" using assms(2,3) by (simp add: sess_ok_def)
  then have s: "session p = Leaving" by (simp add: session_def)
  let ?q = "p\<lparr>g_retry := g_retry p + 1, g_login := False, gb_allow_sleep := True\<rparr>"
  have "sess_ok ?q" using assms(2) w by (simp add: sess_ok_def)
  from ends_reset(1) [OF this] have "ends p [] (gb_reset ?q) {Offline}" by (rule ends_after [rotated]) simp
  note timeout = turn_drops [OF this]
  have "ends p [PROT_LOGOUT] (gb_logout_again e (p\<lparr>g_retry := g_retry p + 1\<rparr>)) {session p, Offline}"
    using ends_after [OF _ logout_again_ends, of p "p\<lparr>g_retry := g_retry p + 1\<rparr>"] assms(2) by simp
  then have "turn_ends False (session p) p (gb_logout_again e (p\<lparr>g_retry := g_retry p + 1\<rparr>))"
    by (rule turn_endsI) (auto simp: s intro: session_turn.again [simplified])
  with timeout turn_stays [OF assms(2)] show ?thesis
    using assms(1) unfolding wait_leaving [OF w] by (simp split: if_splits)
qed

lemma login_stage:
  assumes "gb_do_login e p = (b, p')" "sess_ok p" "session p = Offline"
  shows "b \<and> turn_ends False Offline p p'"
proof -
  have off: "\<not> g_online p" "g_wait p = 0" using assms(2,3) by (auto simp: session_def sess_ok_def split: if_splits)
  obtain buf p1 where l: "gb_pack_login (e_rtc e) (e_iccid e) p = (buf, p1)" by force
  obtain res q where s: "gb32960_MsgSend e buf False p1 = (res, q)" by force
  have kind: "buf ! 2 = 1" using built_kinds(3) [of "e_rtc e" "e_iccid e" p] unfolding l by simp
  have p1: "stage p [] p1" "sess_ok p1" "session p1 = Offline" "g_wait p1 = 0" "\<not> g_online p1"
    using assms(2,3) off l
    by (auto simp: gb_pack_login_def gb_login_date_def gb_emit_def Let_def session_def sess_ok_def stage_def rx_ok_def split: if_splits)
  note se = send_ends [OF s p1(2), unfolded kind p1(3)]
  have "ends p1 [1] (q\<lparr>g_wait := PROT_LOGIN, g_waittime := e_sent e\<rparr>) {Asked}"
    using se(2) p1 send_stage(2) [OF s] by (simp add: ends_def session_def sess_ok_def)
  note on = ends_mono [OF ends_after [OF p1(1) this], of "{Offline, Asked}"]
  have q: "ends p [1] (gb_close 2 q) {Offline, Asked}" "ends p [1] q {Offline, Asked}"
    "ends p [1] (q\<lparr>g_wait := PROT_LOGIN, g_waittime := e_sent e\<rparr>) {Offline, Asked}"
    using ends_mono [OF ends_after [OF p1(1) se(1)], of "{Offline, Asked}" 2]
      ends_mono [OF ends_after [OF p1(1) se(2)], of "{Offline, Asked}"] on by simp_all
  note sent = this [THEN turn_endsI, of False Offline]
  have "turn_ends False Offline p (gb_close 2 q)" "turn_ends False Offline p q"
    "turn_ends False Offline p (q\<lparr>g_wait := PROT_LOGIN, g_waittime := e_sent e\<rparr>)"
    by (rule sent; rule session_turn.login; assumption)+
  with turn_stays [OF assms(2), of False] assms(1,3) off show ?thesis
    by (simp add: gb_do_login_def l s split: if_splits)
qed

text \<open>Reporting. The guard on the send buffer holds for a socket that was never opened, as here, because \<open>-1\<close> is
  taken for an unsigned number.\<close>

definition room :: "gb_env \<Rightarrow> bool" where "room e \<longleftrightarrow> 2304 \<le> (word_of_int (e_bufsz e) :: u32)"

lemma put_fit:
  assumes "pool_fit s {i}" "a_trans (gb_abs_of s) = []"
  shows "pool_at 1 (gb_data_put_back s (GB_datamem i))" "pool_at 1 (gb_data_put_send s (GB_datamem i))"
proof -
  note ok = fit_ok [OF assms(1)]
  from sim_fit [OF put_back_abs [OF ok, of i] assms(1)] assms show "pool_at 1 (gb_data_put_back s (GB_datamem i))"
    using put_back_abs [OF ok, of i] by (simp add: pool_at_def spec_put_back_def gb_sim_def)
  from sim_fit [OF put_send_abs [OF ok, of i] assms(1)] assms show "pool_at 1 (gb_data_put_send s (GB_datamem i))"
    using put_send_abs [OF ok, of i] by (simp add: pool_at_def spec_put_send_def gb_sim_def)
qed

lemma get_fit:
  assumes "pool_at 1 s" "gb_data_get_pack s = (c, s1)"
  shows "case c of None \<Rightarrow> s1 = s
    | Some c \<Rightarrow> \<exists>i. c = GB_datamem i \<and> pool_fit s1 {i} \<and> length (a_trans (gb_abs_of s1)) \<le> 1 \<and> pk_type (gb_datamem s1 ! i) \<in> {2, 3}"
proof -
  have f: "pool_fit s {}" "length (a_trans (gb_abs_of s)) \<le> 1" using assms(1) by (simp_all add: pool_at_def)
  note g = get_abs [OF fit_ok [OF f(1)]]
  show ?thesis
  proof (cases "spec_get (gb_emerg s) (gb_abs_of s)")
    case None
    with g assms(2) show ?thesis by simp
  next
    case (Some ra)
    obtain r A where ra: "ra = (r, A)" by (rule prod.exhaust)
    from g Some ra assms(2) obtain i where i: "c = Some (GB_datamem i)" "gb_sim s {} s1 {i} A" by auto
    have A: "a_trans A = a_trans (gb_abs_of s)" "a_ring A = a_ring (gb_abs_of s)"
      using Some ra by (auto simp: spec_get_def split: list.splits if_splits)
    have s1: "gb_ok s1 {i}" using i(2) by (simp add: gb_sim_def)
    have "pool_fit s1 {i}" by (rule sim_fit [OF i(2) f(1) A(2)]) (use A f(2) in simp_all)
    moreover have "pk_type (gb_datamem s1 ! i) \<in> {2, 3}" using held_ok [OF s1, of i] by (auto simp: pack_ok_def)
    ultimately show ?thesis using i A f(2) by (simp add: gb_sim_def)
  qed
qed

lemma report_stage:
  assumes "gb_do_report e p = (b, p')" "sess_ok p" "session p = Online" "pool_at 1 (gb_pool p)" "room e"
  shows "\<exists>r\<in>{[], [2], [3]}. ends p r p' (if b then {Offline} else {Online})
    \<and> g_can p' = g_can p \<and> g_calflag p' = g_calflag p \<and> gb_allow_sleep p' = gb_allow_sleep p"
proof -
  obtain c s1 where g: "gb_data_get_pack (gb_pool p) = (c, s1)" by force
  from get_fit [OF assms(4) this] show ?thesis
  proof (cases c)
    case None
    with get_fit [OF assms(4) g] assms(1) have "p' = p" "\<not> b" by (auto simp: gb_do_report_def g)
    then show ?thesis using ends_refl [OF assms(2), of "{Online}"] assms(3) by auto
  next
    case (Some x)
    with get_fit [OF assms(4) g] obtain i where i: "c = Some (GB_datamem i)" "pool_fit s1 {i}"
      "length (a_trans (gb_abs_of s1)) \<le> 1" "pk_type (gb_datamem s1 ! i) \<in> {2, 3}" by auto
    let ?p = "p\<lparr>gb_pool := s1\<rparr>" let ?buf = "gb_pack_report ?p (gb_datamem s1 ! i)" let ?s = "gb_data_ack_pack s1"
    let ?k = "[unat (?buf ! 2)]"
    obtain res q where q: "gb32960_MsgSend e ?buf True ?p = (res, q)" by force
    note q' = send_stage(2) [OF q]
    have k: "?k \<in> {[], [2], [3]}" using i(4) unfolding built_kinds by auto
    have "a_trans (gb_abs_of ?s) = []" using ack_fit(2) [OF i(2)] i(3) by (cases "a_trans (gb_abs_of s1)") auto
    note put = put_fit [OF ack_fit(1) [OF i(2)] this]
    have st: "stage p ?k (q\<lparr>gb_pool := s\<rparr>)" if "pool_at 1 s" for s
      using that unfolding q' by (auto simp: stage_def rx_ok_def)
    have en: "ends p ?k (q\<lparr>gb_pool := s\<rparr>) {Online}" if "pool_at 1 s" for s
      using st [OF that] assms(2,3) unfolding q' by (simp add: ends_def)
    have eo: "ends p ?k (gb_close 4 (q\<lparr>gb_pool := s\<rparr>)) {Offline}" if "pool_at 1 s" for s
      using ends_stage [OF st [OF that] ends_reset(2)] assms(2) unfolding q' by simp
    have "gb_pool q = ?s" unfolding q' by simp
    with assms(5) have "gb_do_report e p = (if res < 0 then (True, gb_close 4 (q\<lparr>gb_pool := gb_data_put_back ?s (GB_datamem i)\<rparr>))
        else if res = 0 then (False, q\<lparr>gb_pool := gb_data_put_back ?s (GB_datamem i)\<rparr>)
        else (False, q\<lparr>gb_pool := gb_data_put_send ?s (GB_datamem i)\<rparr>))"
      by (simp add: gb_do_report_def g i(1) room_def q)
    note p' = assms(1) [symmetric, unfolded this]
    have "g_can p' = g_can p" "g_calflag p' = g_calflag p" "gb_allow_sleep p' = gb_allow_sleep p"
      using p' by (auto simp: q' gb_close_def gb_reset_def gb_emit_def split: if_splits)
    moreover have "ends p ?k p' (if b then {Offline} else {Online})"
      using p' en [OF put(1)] en [OF put(2)] eo [OF put(1)] by (simp split: if_splits)
    ultimately show ?thesis using k by blast
  qed
qed

lemma caltime_stage:
  assumes "gb_do_caltime e p = (b, p')" "sess_ok p"
  shows "\<not> b \<and> (\<exists>c\<in>{[], [PROT_CALTIME]}. \<exists>s'\<in>{session p, Offline}. ends p c p' {s'} \<and> (s' \<noteq> session p \<longrightarrow> g_calflag p))
    \<and> g_can p' = g_can p \<and> gb_allow_sleep p' = gb_allow_sleep p"
proof (cases "g_calflag p")
  case False
  with assms ends_refl [OF assms(2), of "{session p}"] show ?thesis by (auto simp: gb_do_caltime_def)
next
  case True
  let ?p = "p\<lparr>g_calflag := False\<rparr>"
  obtain res q where q: "gb32960_MsgSend e (gb_pack_tspcailtime ?p) False ?p = (res, q)" by force
  have ok: "sess_ok ?p" "stage p [] ?p" "session ?p = session p" using assms(2) by (auto simp: sess_ok_def)
  note se = send_ends [OF q ok(1), unfolded built_kinds]
  have p': "\<not> b" "p' = (if res < 0 then gb_close 8 q else if res = 0 then q
      else q\<lparr>g_caltimewait := True, g_caltimewaittime := e_cal_sent e\<rparr>)"
    using assms(1) True by (simp_all add: gb_do_caltime_def q)
  have "unat (8 :: u8) = 8" by simp
  then have "ends p [PROT_CALTIME] p' {Offline} \<or> ends p [PROT_CALTIME] p' {session p}"
    using ends_after [OF ok(2) se(1), of 8] ends_after [OF ok(2) se(2)] p'(2) ok(3) by simp
  moreover have "g_can p' = g_can p" "gb_allow_sleep p' = gb_allow_sleep p"
    using p'(2) unfolding send_stage(2) [OF q] by (auto simp: gb_close_def gb_reset_def gb_emit_def)
  ultimately show ?thesis using p'(1) True by auto
qed

lemma logout_stage:
  assumes "gb_do_logout e p = (b, p')" "sess_ok p" "session p = Online"
  shows "ends p [] p' {Online} \<or> ends p [PROT_LOGOUT] p' {Online, Leaving, Offline}"
proof (cases "g_can p")
  case True
  with assms show ?thesis by (auto simp: gb_do_logout_def ends_refl)
next
  case False
  obtain res q where q: "gb32960_MsgSend e (gb_pack_logout (e_rtc e) p) False p = (res, q)" by force
  note se = send_ends [OF q assms(2), unfolded built_kinds assms(3)]
  have "ends p [PROT_LOGOUT] (q\<lparr>g_wait := PROT_LOGOUT, g_waittime := e_sent e\<rparr>) {Leaving}"
    using se(2) assms(2,3) unfolding ends_def send_stage(2) [OF q]
    by (auto simp: session_def sess_ok_def split: if_splits)
  then have "ends p [PROT_LOGOUT] p' {Online, Leaving, Offline}"
    using ends_mono [OF se(1), of "{Online, Leaving, Offline}" 3] ends_mono [OF se(2), of "{Online, Leaving, Offline}"]
      ends_mono [of p "[PROT_LOGOUT]" _ "{Leaving}" "{Online, Leaving, Offline}"] assms(1) False
    by (auto simp: gb_do_logout_def q split: if_splits)
  then show ?thesis by simp
qed

lemma rest_stage:
  assumes "sess_ok p" "pool_at 1 (gb_pool p)" "room e" "\<not> gb_allow_sleep p"
  shows "turn_ends False (session p) p (gb_rest e p)"
proof (cases "g_wait p = 0")
  case False
  obtain b p' where w: "gb_do_wait e p = (b, p')" by (rule prod.exhaust)
  from wait_stage [OF w assms(1) False] show ?thesis by (simp add: gb_rest_def w c_or_def)
next
  case idle: True
  show ?thesis
  proof (cases "g_online p")
    case False
    then have off: "session p = Offline" using idle by (simp add: session_def)
    obtain b p' where l: "gb_do_login e p = (b, p')" by (rule prod.exhaust)
    from login_stage [OF l assms(1) off] show ?thesis by (simp add: gb_rest_def wait_idle [OF idle] l c_or_def off)
  next
    case True
    then have on: "session p = Online" using idle by (simp add: session_def)
    have l: "gb_do_login e p = (False, p)" using True by (simp add: gb_do_login_def)
    obtain b1 p1 where r: "gb_do_report e p = (b1, p1)" by (rule prod.exhaust)
    obtain b2 p2 where c: "gb_do_caltime e p1 = (b2, p2)" by (rule prod.exhaust)
    obtain b3 p3 where o: "gb_do_logout e p2 = (b3, p3)" by (rule prod.exhaust)
    obtain sus where sus: "gb_do_suspend p = (sus, p)" by (simp add: gb_do_suspend_def)
    show ?thesis
    proof (cases sus)
      case True
      then have "gb_rest e p = p" by (subst gb_rest_def) (simp add: wait_idle [OF idle] l c_or_def sus)
      then show ?thesis using turn_stays [OF assms(1)] by simp
    next
      case False
      then have e: "gb_rest e p = (if b1 then p1 else if b2 then p2 else p3)"
        by (subst gb_rest_def) (simp add: wait_idle [OF idle] l c_or_def sus r c o)
      from report_stage [OF r assms(1) on assms(2,3)] obtain k where k: "k \<in> {[], [2], [3]}"
        "ends p k p1 (if b1 then {Offline} else {Online})" "g_can p1 = g_can p" "g_calflag p1 = g_calflag p"
        "gb_allow_sleep p1 = gb_allow_sleep p" by blast
      show ?thesis
      proof (cases b1)
        case True
        with k e show ?thesis unfolding on
          by (auto intro!: turn_endsI [of p k] session_turn.work [where c = "[]", simplified])
      next
        case False
        then have p1: "stage p k p1" "session p1 = Online" "sess_ok p1" using k(2) by (auto simp: ends_def)
        from caltime_stage [OF c p1(3)] p1(2) obtain m s' where m: "\<not> b2" "m \<in> {[], [PROT_CALTIME]}"
          "s' \<in> {Online, Offline}" "ends p1 m p2 {s'}" "s' \<noteq> Online \<longrightarrow> g_calflag p1" "g_can p2 = g_can p1" by auto
        have p2: "stage p (k @ m) p2" "session p2 = s'" "sess_ok p2"
          using m(4) stage_trans [OF p1(1)] by (auto simp: ends_def)
        have p3: "gb_rest e p = p3" using e False m(1) by simp
        show ?thesis
        proof (cases "s' = Online")
          case True
          from logout_stage [OF o p2(3)] p2(2) True
          have "ends p2 [] p3 {Online} \<or> ends p2 [PROT_LOGOUT] p3 {Online, Leaving, Offline}" by simp
          then show ?thesis
          proof
            assume "ends p2 [] p3 {Online}"
            then have "ends p (k @ m) p3 {Online}" using stage_trans [OF p2(1)] by (fastforce simp: ends_def)
            then show ?thesis unfolding p3 on
              by (rule turn_endsI) (use k(1) m(2) in \<open>auto intro!: session_turn.work\<close>)
          next
            assume "ends p2 [PROT_LOGOUT] p3 {Online, Leaving, Offline}"
            then have "ends p (k @ m @ [PROT_LOGOUT]) p3 {Online, Leaving, Offline}"
              using stage_trans [OF p2(1)] by (fastforce simp: ends_def)
            then show ?thesis unfolding p3 on
              by (rule turn_endsI) (rule session_turn.leave [OF k(1) m(2)])
          qed
        next
          case False
          then have "g_can p2" using m(5,6) k(3,4,5) assms(1,4) by (auto simp: sess_ok_def)
          then have "p3 = p2" using o by (simp add: gb_do_logout_def)
          then show ?thesis using p2 False m(3) unfolding p3 on
            by (intro turn_endsI [of p "k @ m" _ "{Offline}"]) (auto simp: ends_def intro!: session_turn.work k(1) m(2))
        qed
      qed
    qed
  qed
qed

end
