(* ===== verification/GbThread.thy ===== *)
theory GbThread
  imports GbSession
begin

text \<open>
  Whole turns of the protocol thread: what receiving does to the session, the thread's invariant over turns, CAN
  events and messages from the socket proxy, and the properties of the protocol.
\<close>

section \<open>Receiving\<close>

fun after_msg :: "session \<Rightarrow> session set" where
  "after_msg Asked = {Asked, Offline, Online}"
| "after_msg s = {s}"

lemma after_msg_refl [simp]: "s \<in> after_msg s"
  by (cases s) auto

lemma after_msg_trans: "s' \<in> after_msg s \<Longrightarrow> s'' \<in> after_msg s' \<Longrightarrow> s'' \<in> after_msg s"
  by (cases s; cases s') auto

definition consent :: "bytes \<Rightarrow> bool" where "consent buf \<longleftrightarrow> unat (buf ! 2) = PROT_LOGIN \<and> buf ! 3 = 1"

text \<open>What a message changes: the session in the allowed way, and what decides over the rest of the turn.\<close>

definition received :: "gb_stat_t \<Rightarrow> bool \<Rightarrow> gb_stat_t \<Rightarrow> bool" where
  "received p r p' \<longleftrightarrow> stage p [] p' \<and> sess_ok p' \<and> session p' \<in> after_msg (session p)
     \<and> (\<not> r \<longrightarrow> gb_allow_sleep p' = gb_allow_sleep p)"

lemma received_refl: "sess_ok p \<Longrightarrow> received p r p"
  by (simp add: received_def)

lemma received_trans: "received p False p' \<Longrightarrow> received p' r p'' \<Longrightarrow> received p r p''"
  using stage_trans [of p "[]" p' "[]" p''] by (auto simp: received_def intro: after_msg_trans)

lemma requeue_fit:
  assumes "pool_at 1 s"
  shows "\<exists>s'. Option.bind (gb_data_flush_sending s) gb_data_flush_realtm = Some s' \<and> pool_at 1 s'"
    and "\<exists>s'. gb_data_clear_error s = Some s' \<and> pool_at 1 s'"
proof -
  have f: "pool_fit s {}" using assms by (simp add: pool_at_def)
  from flush_sending_abs [OF fit_ok [OF f]] obtain s1 where s1: "gb_data_flush_sending s = Some s1"
    "gb_sim s {} s1 {} (spec_flush_sending (gb_abs_of s))" by blast
  have f1: "pool_fit s1 {}" by (rule sim_fit [OF s1(2) f]) (simp_all add: spec_flush_sending_def)
  from flush_realtm_abs [OF fit_ok [OF f1]] obtain s2 where s2: "gb_data_flush_realtm s1 = Some s2"
    "gb_sim s1 {} s2 {} (spec_flush_realtm (gb_abs_of s1))" by blast
  have "a_trans (gb_abs_of s1) = []" using s1(2) by (simp add: gb_sim_def spec_flush_sending_def)
  moreover have "pool_fit s2 {}" by (rule sim_fit [OF s2(2) f1]) (use calculation in \<open>simp_all add: spec_flush_realtm_def\<close>)
  ultimately show "\<exists>s'. Option.bind (gb_data_flush_sending s) gb_data_flush_realtm = Some s' \<and> pool_at 1 s'"
    using s1(1) s2 by (simp add: pool_at_def gb_sim_def spec_flush_realtm_def)
  from clear_error_abs [OF fit_ok [OF f]] obtain s3 where s3: "gb_data_clear_error s = Some s3"
    "gb_sim s {} s3 {} ((gb_abs_of s)\<lparr>a_window := []\<rparr>)" by blast
  have "pool_fit s3 {}" by (rule sim_fit [OF s3(2) f]) (use f in \<open>simp_all add: pool_fit_def\<close>)
  then show "\<exists>s'. gb_data_clear_error s = Some s' \<and> pool_at 1 s'"
    using s3 assms by (simp add: pool_at_def gb_sim_def)
qed

lemma next_seq_stage:
  assumes "pool_at 1 (gb_pool q)" "gb_calls q = gb_calls p" "gb_SPObj q = gb_SPObj p" "g_rcvbuf q = g_rcvbuf p" "g_rcvlen q = g_rcvlen p"
  shows "stage p [] (gb_next_seq q)"
  using assms by (auto simp: stage_def rx_ok_def gb_next_seq_def gb_emit_def Let_def)

lemma login_law:
  assumes "sess_ok p" "pool_at 1 (gb_pool p)"
  shows "\<exists>p'. gb_on_login p = Some p' \<and> received p False p' \<and> g_rcvbuf p' = g_rcvbuf p \<and> g_rcvlen p' = g_rcvlen p
    \<and> (session p = Asked \<and> g_rcvbuf p ! 3 \<noteq> 1 \<longrightarrow> session p' = Offline)"
proof (cases "g_wait p = PROT_LOGIN \<and> g_rcvbuf p ! 3 = 1")
  case False
  show ?thesis
  proof (cases "g_wait p = PROT_LOGIN")
    case True
    with False have e: "gb_on_login p = Some (p\<lparr>g_wait := 0\<rparr>)" by (simp add: gb_on_login_def)
    have s: "session p = Asked" "session (p\<lparr>g_wait := 0\<rparr>) = Offline" "sess_ok (p\<lparr>g_wait := 0\<rparr>)"
      using True assms(1) by (auto simp: session_def sess_ok_def)
    then show ?thesis by (simp add: e received_def)
  next
    case False
    then have "gb_on_login p = Some p" "session p \<noteq> Asked" by (auto simp: gb_on_login_def session_def)
    with received_refl [OF assms(1), of False] show ?thesis by simp
  qed
next
  case True
  let ?q = "p\<lparr>g_wait := 0, g_online := True\<rparr>"
  have s: "session p = Asked" using True by (simp add: session_def)
  have r: "received p False (gb_next_seq q) \<and> g_rcvbuf (gb_next_seq q) = g_rcvbuf p \<and> g_rcvlen (gb_next_seq q) = g_rcvlen p"
    if "q = ?q\<lparr>gb_pool := x, g_login := True\<rparr>" "pool_at 1 x" for q x
  proof -
    have "stage p [] (gb_next_seq q)" by (rule next_seq_stage) (use that in auto)
    moreover have "sess_ok (gb_next_seq q)" "session (gb_next_seq q) = Online" "gb_allow_sleep (gb_next_seq q) = gb_allow_sleep p"
      "g_rcvbuf (gb_next_seq q) = g_rcvbuf p" "g_rcvlen (gb_next_seq q) = g_rcvlen p"
      unfolding that(1) using assms(1) by (simp_all add: gb_next_seq_def gb_emit_def Let_def sess_ok_def session_def)
    ultimately show ?thesis by (simp add: received_def s)
  qed
  from requeue_fit [OF assms(2)] obtain x y where
    x: "Option.bind (gb_data_flush_sending (gb_pool p)) gb_data_flush_realtm = Some x" "pool_at 1 x"
    and y: "gb_data_clear_error (gb_pool p) = Some y" "pool_at 1 y" by blast
  show ?thesis
  proof (cases "g_login p")
    case login: True
    have e: "?q\<lparr>gb_pool := x\<rparr> = ?q\<lparr>gb_pool := x, g_login := True\<rparr>" using login by (cases p) simp
    from True login x(1) have "gb_on_login p = Some (gb_next_seq (?q\<lparr>gb_pool := x\<rparr>))" by (simp add: gb_on_login_def Let_def)
    with r [OF e x(2)] True show ?thesis by simp
  next
    case False
    from True False y(1) have "gb_on_login p = Some (gb_next_seq (?q\<lparr>gb_pool := y, g_login := True\<rparr>))"
      by (simp add: gb_on_login_def Let_def)
    with r [OF refl y(2)] True show ?thesis by simp
  qed
qed

lemma on_msg_law:
  assumes "sess_ok p" "pool_at 1 (gb_pool p)"
  shows "\<exists>r p'. gb_on_msg p = Some (r, p') \<and> received p r p' \<and> g_rcvbuf p' = g_rcvbuf p \<and> g_rcvlen p' = g_rcvlen p
    \<and> (session p = Asked \<and> session p' = Online \<longrightarrow> consent (g_rcvbuf p))"
proof -
  consider "unat (g_rcvbuf p ! 2) = PROT_LOGIN" | "unat (g_rcvbuf p ! 2) = PROT_LOGOUT" | "unat (g_rcvbuf p ! 2) = PROT_CALTIME"
    | "unat (g_rcvbuf p ! 2) \<notin> {PROT_LOGIN, PROT_LOGOUT, PROT_CALTIME}" by blast
  then show ?thesis
  proof cases
    case 1
    from login_law [OF assms] obtain p' where l: "gb_on_login p = Some p'" "received p False p'" "g_rcvbuf p' = g_rcvbuf p"
      "g_rcvlen p' = g_rcvlen p" "session p = Asked \<and> g_rcvbuf p ! 3 \<noteq> 1 \<longrightarrow> session p' = Offline" by blast
    have "gb_on_msg p = Some (False, p')" using 1 l(1) by (simp add: gb_on_msg_def)
    moreover have "session p = Asked \<and> session p' = Online \<longrightarrow> consent (g_rcvbuf p)" using 1 l(5) by (auto simp: consent_def)
    ultimately show ?thesis using l(2-4) by blast
  next
    case 2
    obtain r p' where l: "gb_on_logout p = (r, p')" by (rule prod.exhaust)
    have "received p r p' \<and> g_rcvbuf p' = g_rcvbuf p \<and> g_rcvlen p' = g_rcvlen p \<and> session p' = session p"
    proof (cases "g_wait p \<noteq> PROT_LOGOUT \<or> g_rcvbuf p ! 3 \<noteq> 1")
      case True
      with l have "p' = p" by (auto simp: gb_on_logout_def)
      with received_refl [OF assms(1)] show ?thesis by simp
    next
      case False
      with l have e: "r" "p' = p\<lparr>g_login := False, gb_allow_sleep := True\<rparr>" by (auto simp: gb_on_logout_def)
      have "sess_ok p'" "session p' = session p" using False assms(1) unfolding e(2) by (simp_all add: sess_ok_def session_def)
      with e show ?thesis by (simp add: received_def)
    qed
    moreover have "gb_on_msg p = Some (r, p')" using 2 l by (simp add: gb_on_msg_def)
    moreover have "\<not> (session p = Asked \<and> session p = Online)" by simp
    ultimately show ?thesis by metis
  next
    case 3
    let ?p = "gb_on_caltime p"
    have f: "g_rcvbuf ?p = g_rcvbuf p" "g_rcvlen ?p = g_rcvlen p" "session ?p = session p" "sess_ok ?p = sess_ok p"
      "gb_allow_sleep ?p = gb_allow_sleep p" "gb_SPObj ?p = gb_SPObj p" "gb_pool ?p = gb_pool p"
      by (simp_all add: gb_on_caltime_def gb_emit_def Let_def session_def sess_ok_def)
    have "\<exists>cs. gb_calls ?p = gb_calls p @ cs \<and> sent_kinds cs = []" by (simp add: gb_on_caltime_def gb_emit_def Let_def)
    then have "received p False ?p" using f assms(1) by (simp add: received_def stage_def rx_ok_def)
    moreover have "gb_on_msg p = Some (False, ?p)" using 3 by (simp add: gb_on_msg_def)
    moreover have "\<not> (session p = Asked \<and> session ?p = Online)" using f(3) by simp
    ultimately show ?thesis using f(1,2) by blast
  next
    case 4
    then have "gb_on_msg p = Some (False, p)" by (simp add: gb_on_msg_def Let_def)
    moreover have "\<not> (session p = Asked \<and> session p = Online)" by simp
    ultimately show ?thesis using received_refl [OF assms(1), of False] by blast
  qed
qed

text \<open>The loop over the input, whatever it contains, as long as it fits into the buffer.\<close>

lemma parsed_received:
  assumes "parse_only p p'" "sess_ok p" "length (g_rcvbuf p') = 1024" "g_rcvlen p' \<le> 1024"
  shows "received p False p'" "session p' = session p"
  using assms parse_only_fields [OF assms(1)]
  by (simp_all add: received_def stage_def rx_ok_def session_def sess_ok_def)

lemma received_pool: "received p r p' \<Longrightarrow> pool_at 1 (gb_pool p) \<Longrightarrow> pool_at 1 (gb_pool p')"
  by (simp add: received_def stage_def)

lemma loop_law:
  assumes "fits p input len" "sess_ok p" "pool_at 1 (gb_pool p)" "rx_ok p"
  shows "\<exists>r p'. gb_receive_loop p input len = Some (r, p') \<and> received p r p'"
  using assms
proof (induction len arbitrary: p input rule: less_induct)
  case (less len)
  show ?case
  proof (cases "len = 0")
    case True
    with received_refl [OF less.prems(2), of False] show ?thesis by (auto simp: receive_loop_0)
  next
    case False
    from makeup_fits [OF less.prems(1)] False obtain r p1 n where
      m: "n \<le> len" "gb_makeup_pack p input len = Some (r, p1, drop n input, len - n)" "parse_only p p1"
      "length (g_rcvbuf p1) = 1024" "g_rcvlen p1 + (len - n) \<le> 1024" by auto
    have r1: "received p False p1" by (rule parsed_received) (use m less.prems(2) in auto)
    then have p1: "sess_ok p1" "pool_at 1 (gb_pool p1)" "rx_ok p1"
      using received_pool [OF r1] less.prems(3,4) by (auto simp: received_def stage_def)
    note step = gb_receive_loop.simps [of p input len] m(2) False
    show ?thesis
    proof (cases r)
      case False
      with step r1 show ?thesis by auto
    next
      case True
      have lt: "len - n < len" using gb_makeup_uses [of p input len p1] m(2) True by auto
      have fits: "fits q (drop n input) (len - n)" if "g_rcvbuf q = g_rcvbuf p1" "g_rcvlen q = g_rcvlen p1" for q
        using less.prems(1) m(1,4,5) that by (auto simp: fits_def)
      show ?thesis
      proof (cases "gb_sum_ok p1")
        case False
        from less.IH [OF lt fits [OF refl refl] p1] obtain r' p' where
          "gb_receive_loop p1 (drop n input) (len - n) = Some (r', p')" "received p1 r' p'" by blast
        with step True False received_trans [OF r1] show ?thesis by auto
      next
        case sum: True
        from on_msg_law [OF p1(1,2)] obtain r2 p2 where p2: "gb_on_msg p1 = Some (r2, p2)" "received p1 r2 p2"
          "g_rcvbuf p2 = g_rcvbuf p1" "g_rcvlen p2 = g_rcvlen p1" by blast
        show ?thesis
        proof (cases r2)
          case True
          with step sum \<open>r\<close> p2(1) received_trans [OF r1 p2(2)] show ?thesis by auto
        next
          case False
          then have "sess_ok p2" "pool_at 1 (gb_pool p2)" "rx_ok p2"
            using p2(2) received_pool [OF p2(2) p1(2)] p1(3) by (auto simp: received_def stage_def)
          from less.IH [OF lt fits [OF p2(3,4)] this] obtain r' p' where
            "gb_receive_loop p2 (drop n input) (len - n) = Some (r', p')" "received p2 r' p'" by blast
          with step sum \<open>r\<close> p2(1) False received_trans [OF received_trans [OF r1]] p2(2) show ?thesis by auto
        qed
      qed
    qed
  qed
qed

text \<open>What a completed call of the parser leaves, and what the loop then does, whatever the input.\<close>

lemma makeup_kept:
  "gb_makeup_pack p input len = Some (r, p', input', len') \<Longrightarrow> rx_ok p \<Longrightarrow> parse_only p p' \<and> rx_ok p'"
proof (induction p input len arbitrary: r p' input' len' rule: gb_makeup_pack.induct)
  case (1 p input)
  then show ?case by auto
next
  case (2 p input len)
  from 2(2) obtain m p1 where m: "gb_at_mark input = Some m" "gb_store (hd input) (gb_mark m p) = Some p1"
    by (auto simp: gb_makeup_pack.simps(2) split: option.splits)
  obtain r2 p2 where p2: "gb_makeup_step (hd input) p1 = (r2, p2)" by force
  have o: "parse_only p p2"
    using parse_only_trans [OF mark_only parse_only_trans [OF store_only [OF m(2)] step_only [OF p2]]] .
  have "rx_ok p1" using m(2) 2(3) by (auto simp: gb_store_def rx_ok_def gb_mark_def split: if_splits)
  then have ok: "rx_ok p2" using step_len [OF p2] by (auto simp: rx_ok_def)
  show ?case
  proof (cases r2)
    case True
    with 2(2) m p2 o ok show ?thesis by (simp add: gb_makeup_pack.simps(2))
  next
    case False
    with 2(2) m p2 have "gb_makeup_pack p2 (tl input) len = Some (r, p', input', len')" by (simp add: gb_makeup_pack.simps(2))
    with 2(1) [OF m p2 [symmetric]] False ok parse_only_trans [OF o] show ?thesis by blast
  qed
qed

text \<open>Whether the loop puts a consent with a right checksum together.\<close>

function heard :: "gb_stat_t \<Rightarrow> bytes \<Rightarrow> nat \<Rightarrow> bool" where
  "heard p input rlen =
     (if rlen = 0 then False
      else case gb_makeup_pack p input rlen of
          Some (True, p, input, rlen) \<Rightarrow>
            if \<not> gb_sum_ok p then heard p input rlen
            else consent (g_rcvbuf p) \<or> (case gb_on_msg p of Some (False, p) \<Rightarrow> heard p input rlen | _ \<Rightarrow> False)
        | _ \<Rightarrow> False)"
  by pat_completeness auto
termination by (relation "measure (\<lambda>(p, input, rlen). rlen)") (auto dest: gb_makeup_uses)

declare heard.simps [simp del]

lemma loop_kept:
  "gb_receive_loop p input len = Some (r, p') \<Longrightarrow> sess_ok p \<Longrightarrow> pool_at 1 (gb_pool p) \<Longrightarrow> rx_ok p \<Longrightarrow>
   received p r p' \<and> (session p = Asked \<and> session p' = Online \<longrightarrow> heard p input len)"
proof (induction len arbitrary: p input rule: less_induct)
  case (less len)
  show ?case
  proof (cases "len = 0")
    case True
    with less.prems(1) received_refl [OF less.prems(2)] show ?thesis by (auto simp: receive_loop_0)
  next
    case False
    note step = gb_receive_loop.simps [of p input len] heard.simps [of p input len] False
    from less.prems(1) False obtain c p1 inp n where m: "gb_makeup_pack p input len = Some (c, p1, inp, n)"
      by (auto simp: gb_receive_loop.simps [of p input len] split: option.splits)
    from makeup_kept [OF m less.prems(4)] have k: "parse_only p p1" "rx_ok p1" by blast+
    have r1: "received p False p1" "session p1 = session p"
      by (rule parsed_received; use k less.prems(2) in \<open>simp add: rx_ok_def\<close>)+
    then have p1: "sess_ok p1" "pool_at 1 (gb_pool p1)"
      using received_pool [OF r1(1)] less.prems(3) by (auto simp: received_def)
    show ?thesis
    proof (cases c)
      case c: False
      with step m less.prems(1) r1 show ?thesis by auto
    next
      case c: True
      have lt: "n < len" using gb_makeup_uses [of p input len p1] m c by auto
      show ?thesis
      proof (cases "gb_sum_ok p1")
        case sum: False
        with less.prems(1) step m c have "gb_receive_loop p1 inp n = Some (r, p')" by simp
        from less.IH [OF lt this p1 k(2)] step m c sum r1 received_trans [OF r1(1)] show ?thesis by simp
      next
        case sum: True
        from on_msg_law [OF p1] obtain r2 p2 where p2: "gb_on_msg p1 = Some (r2, p2)" "received p1 r2 p2"
          "g_rcvbuf p2 = g_rcvbuf p1" "g_rcvlen p2 = g_rcvlen p1"
          "session p1 = Asked \<and> session p2 = Online \<longrightarrow> consent (g_rcvbuf p1)" by blast
        show ?thesis
        proof (cases r2)
          case True
          with less.prems(1) step m c sum p2 have "r" "p' = p2" by auto
          with received_trans [OF r1(1) p2(2)] p2(5) True step m c sum r1(2) show ?thesis by simp
        next
          case r2: False
          with less.prems(1) step m c sum p2 have l: "gb_receive_loop p2 inp n = Some (r, p')" by simp
          have ok: "sess_ok p2" "pool_at 1 (gb_pool p2)" "rx_ok p2"
            using p2(2-4) r2 received_pool [OF p2(2) p1(2)] k(2) by (auto simp: received_def rx_ok_def)
          note ih = less.IH [OF lt l ok]
          have "received p1 False p2" using p2(2) r2 by simp
          with received_trans [OF received_trans [OF r1(1)]] ih have "received p r p'" by blast
          moreover have "heard p input len" if s: "session p = Asked" "session p' = Online"
          proof -
            have "session p2 \<in> after_msg Asked" "session p' \<in> after_msg (session p2)"
              using p2(2) ih r1(2) s(1) by (simp_all add: received_def)
            then have "session p2 = Asked \<or> session p2 = Online" using s(2) by auto
            then have "consent (g_rcvbuf p1) \<or> heard p2 inp n" using p2(5) r1(2) s ih by auto
            with step m c sum p2(1) r2 show ?thesis by simp
          qed
          ultimately show ?thesis by blast
        qed
      qed
    qed
  qed
qed

text \<open>A turn hears the consent when the parser puts it together from the next entry of the queue. When that entry is
  a whole message, it is the consent itself.\<close>

definition hears :: "gb_stat_t \<Rightarrow> bool" where
  "hears p \<longleftrightarrow> gb_queue p \<noteq> [] \<and>
     (case RdSockproxyData_Queue (gb_SPObj p) SP_GB (replicate 1456 0) 1456 of
        (rlen, objs, buf) \<Rightarrow> heard (p\<lparr>gb_SPObj := objs\<rparr>) buf (nat rlen))"

lemma complete_heard:
  assumes "gb_message f" "length (g_rcvbuf p) = 1024"
  shows "heard p (padded f) (length f) \<longleftrightarrow> summed f \<and> consent f"
proof -
  have len: "25 < length f" "length f < 1456" using assms(1) by (auto simp: gb_message_def gb_shape_def)
  from whole_message [OF assms at_mark_not [of "last f" 0], of "replicate (1455 - length f) 0" 0] obtain p1 where
    p1: "gb_makeup_pack p (padded f) (length f) = Some (True, p1, 0 # replicate (1455 - length f) 0, 0)" "complete f p p1"
    unfolding padded_rest [OF len(2)] by auto
  have b: "g_rcvbuf p1 ! i = f ! i" if "i < 4" for i
    using p1(2) len that nth_take [of i "length f" "g_rcvbuf p1"] by (simp add: complete_def)
  have "consent (g_rcvbuf p1) = consent f" using b [of 2] b [of 3] by (simp add: consent_def)
  moreover have "heard q inp 0 = False" for q inp by (simp add: heard.simps)
  ultimately show ?thesis using p1(1) len complete_summed [OF assms(1) p1(2)]
    by (subst heard.simps) (auto split: option.splits bool.splits)
qed

lemma hears_message:
  assumes "queue_ok p" "rx_ok p" "gb_message (hd (gb_queue p))" "gb_queue p \<noteq> []"
  shows "hears p \<longleftrightarrow> summed (hd (gb_queue p)) \<and> consent (hd (gb_queue p))"
  using receive_queue [OF assms(1)] assms(2-4) complete_heard [OF assms(3)]
  by (auto simp: hears_def rx_ok_def split: list.splits)

text \<open>The messages that fit: the parser takes them without leaving its buffer.\<close>

definition server_ok :: "bytes \<Rightarrow> bool" where "server_ok m \<longleftrightarrow> length m \<le> 1024 \<and> take 2 m = [0x23, 0x23]"

lemma server_fits:
  assumes "server_ok m" "length (g_rcvbuf p) = 1024"
  shows "fits p (padded m) (length m)"
proof -
  obtain ms where m: "m = 0x23 # 0x23 # ms" using assms(1) by (cases m rule: remdups_adj.cases) (auto simp: server_ok_def)
  with assms show ?thesis by (simp add: fits_def server_ok_def padded_def gb_at_mark_def)
qed

lemma receive_law:
  assumes "gb_inv p"
  shows "gb_do_receive p = Some (r, p') \<Longrightarrow> \<exists>objs. received (p\<lparr>gb_SPObj := objs\<rparr>) r p' \<and> queue_ok p' \<and> gb_queue p' = tl (gb_queue p)
      \<and> (session p = Asked \<and> session p' = Online \<longrightarrow> hears p)"
    and "gb_queue p = [] \<or> server_ok (hd (gb_queue p)) \<Longrightarrow> gb_do_receive p \<noteq> None"
proof -
  have inv: "queue_ok p" "sess_ok p" "pool_at 1 (gb_pool p)" "rx_ok p" "length (g_rcvbuf p) = 1024"
    using assms(1) by (simp_all add: gb_inv_def rx_ok_def)
  have emp: "gb_do_receive p = Some (False, p)" if "gb_queue p = []" using receive_queue [OF inv(1)] that by simp
  have one: "\<exists>objs. gb_do_receive p = gb_receive_loop (p\<lparr>gb_SPObj := objs\<rparr>) (padded m) (length m) \<and> queue_ok (p\<lparr>gb_SPObj := objs\<rparr>)
      \<and> gb_queue (p\<lparr>gb_SPObj := objs\<rparr>) = ms
      \<and> RdSockproxyData_Queue (gb_SPObj p) SP_GB (replicate 1456 0) 1456 = (int (length m), objs, padded m)" if "gb_queue p = m # ms" for m ms
    using receive_queue [OF inv(1)] that by auto
  show "\<exists>objs. received (p\<lparr>gb_SPObj := objs\<rparr>) r p' \<and> queue_ok p' \<and> gb_queue p' = tl (gb_queue p)
      \<and> (session p = Asked \<and> session p' = Online \<longrightarrow> hears p)" if r: "gb_do_receive p = Some (r, p')"
  proof (cases "gb_queue p")
    case Nil
    with emp r have "p' = p" by simp
    with Nil inv(1) received_refl [OF inv(2), of r] show ?thesis
      by (intro exI [of _ "gb_SPObj p"]) (cases "session p"; simp)
  next
    case (Cons m ms)
    from one [OF this] obtain objs where o: "gb_receive_loop (p\<lparr>gb_SPObj := objs\<rparr>) (padded m) (length m) = Some (r, p')"
      "queue_ok (p\<lparr>gb_SPObj := objs\<rparr>)" "gb_queue (p\<lparr>gb_SPObj := objs\<rparr>) = ms"
      "RdSockproxyData_Queue (gb_SPObj p) SP_GB (replicate 1456 0) 1456 = (int (length m), objs, padded m)" using r by auto
    let ?p = "p\<lparr>gb_SPObj := objs\<rparr>"
    have "sess_ok ?p" "pool_at 1 (gb_pool ?p)" "rx_ok ?p" using inv by (simp_all add: rx_ok_def)
    from loop_kept [OF o(1) this] have l: "received ?p r p'" "session p = Asked \<and> session p' = Online \<longrightarrow> heard ?p (padded m) (length m)"
      by simp_all
    have "gb_SPObj p' = objs" using l(1) by (simp add: received_def stage_def)
    then have "queue_ok p'" "gb_queue p' = ms" using o(2,3) by (simp_all add: queue_ok_def gb_queue_def)
    with l Cons o(4) show ?thesis by (intro exI [of _ objs]) (simp add: hears_def)
  qed
  show "gb_do_receive p \<noteq> None" if f: "gb_queue p = [] \<or> server_ok (hd (gb_queue p))"
  proof (cases "gb_queue p")
    case (Cons m ms)
    from one [OF this] obtain objs where o: "gb_do_receive p = gb_receive_loop (p\<lparr>gb_SPObj := objs\<rparr>) (padded m) (length m)" by auto
    let ?p = "p\<lparr>gb_SPObj := objs\<rparr>"
    have "sess_ok ?p" "pool_at 1 (gb_pool ?p)" "rx_ok ?p" "fits ?p (padded m) (length m)"
      using inv server_fits [of m ?p] f Cons by (simp_all add: rx_ok_def)
    from loop_law [OF this(4,1,2,3)] o show ?thesis by auto
  qed (use emp in simp)
qed

section \<open>One step of the thread\<close>

lemma pool_ctl:
  "pool_at n (gb_data_emergence s on) = pool_at n s" "pool_at n (gb_data_set_pendflag s flag) = pool_at n s"
  "pool_at n (gb_data_set_intv s intv) = pool_at n s"
  using GB_at_ctl [of "gb_data_emergence s on" s] GB_at_ctl [of "gb_data_set_pendflag s flag" s] GB_at_ctl [of "gb_data_set_intv s intv" s]
  by (simp_all add: pool_at_def pool_fit_def gb_data_emergence_def gb_data_set_pendflag_def gb_data_set_intv_def)

lemma stage_field [simp]:
  "stage p ks (q\<lparr>g_network := n\<rparr>) = stage p ks q" "stage p ks (q\<lparr>g_can := b\<rparr>) = stage p ks q"
  "stage p ks (q\<lparr>g_suspend := b\<rparr>) = stage p ks q" "stage p ks (q\<lparr>g_errtrig := b\<rparr>) = stage p ks q"
  "stage p ks (q\<lparr>powerOffFlag := x\<rparr>) = stage p ks q" "stage p ks (q\<lparr>gb_url := u\<rparr>) = stage p ks q"
  "stage p ks (q\<lparr>gb_port := w\<rparr>) = stage p ks q" "stage p ks (q\<lparr>gb_vin := u\<rparr>) = stage p ks q"
  "stage p ks (q\<lparr>gb_regintv := w\<rparr>) = stage p ks q" "stage p ks (q\<lparr>gb_timeout := w\<rparr>) = stage p ks q"
  by (simp_all add: stage_def rx_ok_def)

lemma view_field [simp]:
  "session (p\<lparr>g_network := n\<rparr>) = session p" "sess_ok (p\<lparr>g_network := n\<rparr>) = sess_ok p"
  "session (p\<lparr>g_can := b\<rparr>) = session p" "session (p\<lparr>gb_allow_sleep := b\<rparr>) = session p"
  "session (p\<lparr>g_suspend := b\<rparr>) = session p" "sess_ok (p\<lparr>g_suspend := b\<rparr>) = sess_ok p"
  "session (p\<lparr>g_errtrig := b\<rparr>) = session p" "sess_ok (p\<lparr>g_errtrig := b\<rparr>) = sess_ok p"
  "session (p\<lparr>powerOffFlag := x\<rparr>) = session p" "sess_ok (p\<lparr>powerOffFlag := x\<rparr>) = sess_ok p"
  "session (p\<lparr>gb_url := u\<rparr>) = session p" "sess_ok (p\<lparr>gb_url := u\<rparr>) = sess_ok p"
  "session (p\<lparr>gb_port := w\<rparr>) = session p" "sess_ok (p\<lparr>gb_port := w\<rparr>) = sess_ok p"
  "session (p\<lparr>gb_vin := u\<rparr>) = session p" "sess_ok (p\<lparr>gb_vin := u\<rparr>) = sess_ok p"
  "session (p\<lparr>gb_regintv := w\<rparr>) = session p" "sess_ok (p\<lparr>gb_regintv := w\<rparr>) = sess_ok p"
  "session (p\<lparr>gb_timeout := w\<rparr>) = session p" "sess_ok (p\<lparr>gb_timeout := w\<rparr>) = sess_ok p"
  by (simp_all add: session_def sess_ok_def)

lemma emit_view [simp]: "session (gb_emit c q) = session q" "sess_ok (gb_emit c q) = sess_ok q"
  by (simp_all add: gb_emit_def)

lemma emit_stage: "stage p ks q \<Longrightarrow> sent_kinds [c] = [] \<Longrightarrow> stage p ks (gb_emit c q)"
  by (auto simp: stage_def rx_ok_def gb_emit_def)

lemma stage_pool: "stage p ks q \<Longrightarrow> (pool_at 1 (gb_pool q) \<Longrightarrow> pool_at 1 s) \<Longrightarrow> stage p ks (q\<lparr>gb_pool := s\<rparr>)"
  by (auto simp: stage_def rx_ok_def)

definition to_turn :: "gb_stat_t \<Rightarrow> gb_stat_t \<Rightarrow> bool" where
  "to_turn p p' \<longleftrightarrow> stage p [] p' \<and> sess_ok p' \<and> session p' \<in> {session p, Offline}"

lemma to_turn_close: "to_turn p q \<Longrightarrow> to_turn p (gb_close n q)"
  using stage_trans [of p "[]" q "[]"] by (simp add: to_turn_def close_stage reset_ok)

lemma to_turn_refl: "sess_ok p \<Longrightarrow> to_turn p p"
  by (simp add: to_turn_def)

lemma to_turn_emit: "to_turn p q \<Longrightarrow> sent_kinds [c] = [] \<Longrightarrow> to_turn p (gb_emit c q)"
  by (simp add: to_turn_def emit_stage)

lemma to_turn_pool: "to_turn p q \<Longrightarrow> (pool_at 1 (gb_pool q) \<Longrightarrow> pool_at 1 s) \<Longrightarrow> to_turn p (q\<lparr>gb_pool := s\<rparr>)"
  unfolding to_turn_def using stage_pool by (metis view_upd(10,11))

lemma to_turn_field [simp]:
  "to_turn p (q\<lparr>g_network := n\<rparr>) = to_turn p q" "to_turn p (q\<lparr>g_suspend := b\<rparr>) = to_turn p q"
  "to_turn p (q\<lparr>g_errtrig := b\<rparr>) = to_turn p q" "to_turn p (q\<lparr>powerOffFlag := x\<rparr>) = to_turn p q"
  "to_turn p (q\<lparr>gb_url := u\<rparr>) = to_turn p q" "to_turn p (q\<lparr>gb_port := w\<rparr>) = to_turn p q"
  "to_turn p (q\<lparr>gb_vin := u\<rparr>) = to_turn p q" "to_turn p (q\<lparr>gb_regintv := w\<rparr>) = to_turn p q"
  "to_turn p (q\<lparr>gb_timeout := w\<rparr>) = to_turn p q"
  by (simp_all add: to_turn_def)

lemma config_to_turn:
  assumes "sess_ok p"
  shows "to_turn p (gb_do_config e cfg p)"
proof -
  have e: "to_turn p (gb_emit c p)" if "sent_kinds [c] = []" for c using to_turn_emit [OF to_turn_refl [OF assms] that] .
  have e2: "to_turn p (gb_emit d (gb_emit c p))" if "sent_kinds [c] = []" "sent_kinds [d] = []" for c d
    using to_turn_emit [OF e [OF that(1)] that(2)] .
  show ?thesis
  proof (cases cfg)
    case (GB_CFG_ADDR url port)
    then show ?thesis using e e2 by (auto simp: Let_def intro!: to_turn_close)
  next
    case (GB_CFG_DATINTV intv)
    then show ?thesis using e by (auto simp: Let_def pool_ctl intro!: to_turn_pool)
  qed (use e to_turn_refl [OF assms] in \<open>auto simp: Let_def intro!: to_turn_close\<close>)
qed

lemma dispatch_to_turn:
  assumes "sess_ok p"
  shows "to_turn p (gb_dispatch e msg p)"
proof (cases msg)
  case GB_MSG_CANON
  have "to_turn p (gb_emit GbPrvtAwaken (gb_emit GbProxyAwaken p))" by (intro to_turn_emit to_turn_refl assms) simp_all
  with GB_MSG_CANON assms show ?thesis by (simp add: to_turn_def) (simp add: sess_ok_def gb_emit_def)
next
  case GB_MSG_CANOFF
  with assms show ?thesis by (auto simp: to_turn_def sess_ok_def)
next
  case (GB_MSG_NETWORK n)
  with to_turn_refl [OF assms] show ?thesis by (auto intro: to_turn_close)
next
  case (GB_MSG_CONFIG cfg)
  with config_to_turn [OF assms] show ?thesis by simp
next
  case GB_MSG_RUNNING
  then show ?thesis using assms by (auto intro!: to_turn_emit to_turn_refl)
qed (use assms in \<open>auto simp: pool_ctl intro!: to_turn_emit to_turn_pool to_turn_refl\<close>)

lemma session_chain:
  assumes "s1 \<in> {s0, Offline}" "s2 \<in> after_msg s1" "s1 = Asked \<and> s2 = Online \<longrightarrow> a" "session_turn False s2 ks s3"
  shows "session_turn a s0 ks s3"
proof -
  note t = session_turn_mono [OF assms(4), of a]
  have "session_turn a s1 ks s3"
  proof (cases "s2 = s1")
    case False
    then have "s1 = Asked" "s2 = Offline \<or> s2 = Online" using assms(2) by (cases s1; auto)+
    with t assms(3) show ?thesis by (auto intro: session_turn.lost session_turn.accepted)
  qed (use t in simp)
  with assms(1) show ?thesis by (auto intro: session_turn.lost)
qed

lemma drop_turn: "session_turn a s [] Offline"
  by (rule session_turn.lost [OF session_turn.stay])

lemma queue_eq: "gb_SPObj p' = gb_SPObj p \<Longrightarrow> gb_queue p' = gb_queue p \<and> queue_ok p' = queue_ok p"
  by (simp add: gb_queue_def queue_ok_def)

lemma stage_inv:
  assumes "stage p ks p'" "sess_ok p'" "gb_inv p"
  shows "gb_inv p'" "gb_queue p' = gb_queue p"
  using assms queue_eq [of p' p] by (auto simp: gb_inv_def stage_def)

lemma main_law:
  assumes "gb_inv p" "room e" "gb_main_step e msg p = Some p'"
  shows "\<exists>cs. gb_inv p' \<and> gb_queue p' \<in> {gb_queue p, tl (gb_queue p)} \<and> gb_calls p' = gb_calls p @ cs
    \<and> session_turn (hears (gb_dispatch e msg p)) (session p) (sent_kinds cs) (session p')"
proof -
  let ?q = "gb_dispatch e msg p" let ?a = "hears ?q"
  have sp: "sess_ok p" using assms(1) by (simp add: gb_inv_def)
  from dispatch_to_turn [OF sp] have q: "stage p [] ?q" "sess_ok ?q" "session ?q \<in> {session p, Offline}"
    unfolding to_turn_def by blast+
  note qi = stage_inv [OF q(1,2) assms(1)]
  have fin: ?thesis if "stage ?q ks p'" "sess_ok p'" "session_turn ?a (session p) ks (session p')" for ks
  proof -
    from stage_trans [OF q(1) that(1)] obtain cs where "gb_calls p' = gb_calls p @ cs" "sent_kinds cs = ks" by (auto simp: stage_def)
    with that(3) stage_inv [OF that(1,2) qi(1)] qi(2) show ?thesis by auto
  qed
  obtain b p1 where c: "gb_do_checksock e ?q = (b, p1)" by (rule prod.exhaust)
  note cs = checksock_stage [OF c q(2)]
  show ?thesis
  proof (cases "gbnosend ?q \<noteq> 0 \<or> b")
    case True
    show ?thesis
    proof (cases "gbnosend ?q \<noteq> 0")
      case True
      then have "p' = ?q" using assms(3) by (simp add: gb_main_step_def)
      moreover have "session_turn ?a (session p) [] (session ?q)" using q(3) session_turn.stay [of _ "session p"] drop_turn by auto
      ultimately show ?thesis using fin [of "[]"] q(2) by simp
    next
      case False
      with True cs have p1: "stage ?q [] p1" "session p1 = Offline" "sess_ok p1" by auto
      have "p' = p1" using False True c assms(3) by (simp add: gb_main_step_def gb_turn_def)
      with fin [of "[]"] p1 show ?thesis using drop_turn by simp
    qed
  next
    case False
    with cs have "p1 = ?q" "\<not> gb_allow_sleep ?q" by simp_all
    with False c have turn: "gb_main_step e msg p = (case gb_do_receive ?q of None \<Rightarrow> None | Some (True, p) \<Rightarrow> Some p
        | Some (False, p) \<Rightarrow> Some (gb_rest e p))" and awake: "\<not> gb_allow_sleep ?q"
      by (simp_all add: gb_main_step_def gb_turn_def)
    with assms(3) obtain r p2 where r: "gb_do_receive ?q = Some (r, p2)" by (auto split: option.splits)
    from receive_law(1) [OF qi(1) r] qi(2) obtain objs where
      o: "received (?q\<lparr>gb_SPObj := objs\<rparr>) r p2" "queue_ok p2" "gb_queue p2 = tl (gb_queue p)"
      "session ?q = Asked \<and> session p2 = Online \<longrightarrow> ?a" by auto
    have p2: "sess_ok p2" "session p2 \<in> after_msg (session ?q)" "\<not> r \<longrightarrow> \<not> gb_allow_sleep p2" "pool_at 1 (gb_pool p2)" "rx_ok p2"
      using o(1) qi(1) awake by (auto simp: received_def stage_def gb_inv_def rx_ok_def)
    have calls: "\<exists>ds. gb_calls p2 = gb_calls p @ ds \<and> sent_kinds ds = []"
      using stage_trans [OF q(1), of "[]" "p2\<lparr>gb_SPObj := gb_SPObj ?q\<rparr>"] o(1) by (simp add: received_def stage_def rx_ok_def)
    show ?thesis
    proof (cases r)
      case True
      with turn r assms(3) have "p' = p2" by simp
      moreover have "session_turn ?a (session p) [] (session p2)"
        using session_chain [OF q(3) p2(2)] o(4) session_turn.stay by blast
      ultimately show ?thesis using o(2,3) p2 calls by (auto simp: gb_inv_def)
    next
      case False
      with turn r assms(3) have p': "p' = gb_rest e p2" by simp
      from rest_stage [OF p2(1,4) assms(2)] p2(3) False obtain ks where
        ks: "ends p2 ks (gb_rest e p2) {s. session_turn False (session p2) ks s}" by (auto simp: turn_ends_def)
      then have s: "stage p2 ks p'" "sess_ok p'" "session_turn False (session p2) ks (session p')"
        by (simp_all add: ends_def p')
      have "session_turn ?a (session p) ks (session p')" using session_chain [OF q(3) p2(2) _ s(3)] o(4) by blast
      moreover have "gb_inv p2" using p2 o(2) by (simp add: gb_inv_def)
      note stage_inv [OF s(1,2) this]
      moreover have "\<exists>ds. gb_calls p' = gb_calls p @ ds \<and> sent_kinds ds = ks" using calls s(1) by (auto simp: stage_def)
      ultimately show ?thesis using o(3) by auto
    qed
  qed
qed

text \<open>A turn comes to an end when the message it takes from the queue fits.\<close>

lemma main_total:
  assumes "gb_inv p" "gb_queue p = [] \<or> server_ok (hd (gb_queue p))"
  shows "gb_main_step e msg p \<noteq> None"
proof -
  let ?q = "gb_dispatch e msg p"
  have "sess_ok p" using assms(1) by (simp add: gb_inv_def)
  from dispatch_to_turn [OF this] have q: "stage p [] ?q" "sess_ok ?q" unfolding to_turn_def by blast+
  note qi = stage_inv [OF q assms(1)]
  obtain b p1 where c: "gb_do_checksock e ?q = (b, p1)" by (rule prod.exhaust)
  then have p1: "\<not> b \<Longrightarrow> p1 = ?q" by (auto simp: gb_do_checksock_def split: if_splits)
  from receive_law(2) [OF qi(1)] assms(2) qi(2) have "gb_do_receive ?q \<noteq> None" by simp
  with p1 show ?thesis by (auto simp: gb_main_step_def gb_turn_def c Let_def split: bool.split option.split)
qed

end
