(* ===== verification/GbService.thy ===== *)
theory GbService
  imports GbThread
begin

text \<open>
  The properties of the protocol thread as a whole: the refinement of the abstract session, that nothing ever
  hangs, the login from the bytes on the socket to the reports, the sending of reports, and the logout.
\<close>

section \<open>The session is refined\<close>

lemma reports_online:
  "session_turn a s ks s' \<Longrightarrow> set ks \<inter> {2, 3} \<noteq> {} \<Longrightarrow> s = Online \<or> s = Asked \<and> a"
  by (induction rule: session_turn.induct) auto

text \<open>C1: Every turn of the thread that comes to an end (one that overruns no buffer; C2 and C22 say which do), whatever
  message comes from the other modules and whatever the socket answers, is a
  step of the abstract session and keeps the thread's invariant, as long as the guard on the room in the send buffer
  holds (2304 or more, read as an unsigned number). A report is sent only by a thread that was online before the turn, or whose
  login succeeds in it. The login succeeds only in a turn in which the parser puts a consent with a right checksum together
  from the next entry of the queue; when that entry is a whole message of up to 999 data bytes without two adjacent number signs
  inside, it is itself that consent.\<close>

theorem gb_session_refined:
  assumes "gb_inv p" "room e" "gb_main_step e msg p = Some p'"
  defines "a \<equiv> hears (gb_dispatch e msg p)"
  shows "\<exists>cs. gb_calls p' = gb_calls p @ cs \<and> gb_inv p' \<and> session_turn a (session p) (sent_kinds cs) (session p')
    \<and> (set (sent_kinds cs) \<inter> {2, 3} \<noteq> {} \<longrightarrow> session p = Online \<or> session p = Asked \<and> a)
    \<and> (a \<longrightarrow> gb_queue p \<noteq> [] \<and> (gb_message (hd (gb_queue p)) \<longrightarrow> summed (hd (gb_queue p)) \<and> consent (hd (gb_queue p))))"
proof -
  let ?q = "gb_dispatch e msg p"
  have "sess_ok p" using assms(1) by (simp add: gb_inv_def)
  from dispatch_to_turn [OF this] have "stage p [] ?q" "sess_ok ?q" unfolding to_turn_def by blast+
  note q = stage_inv [OF this assms(1)]
  have "a \<longrightarrow> gb_queue p \<noteq> []" unfolding a_def using q(2) by (simp add: hears_def)
  moreover have "a \<longrightarrow> gb_message (hd (gb_queue p)) \<longrightarrow> summed (hd (gb_queue p)) \<and> consent (hd (gb_queue p))"
    using hears_message [of ?q] q unfolding a_def by (auto simp: gb_inv_def hears_def)
  ultimately show ?thesis using main_law [OF assms(1-3)] reports_online unfolding a_def by blast
qed

lemma demo_queue:
  "queue_ok demo_gbp" "gb_queue demo_gbp = []"
  using demo_sq_filled sq_filled_content [OF demo_sq_filled]
  by (auto simp: queue_ok_def gb_queue_def demo_gbp_def sq_inv_def)

lemma demo_inv: "gb_inv demo_gbp"
proof -
  have "pool_fit (GbReports.demo_gb) {}" "a_trans (gb_abs_of GbReports.demo_gb) = []"
    using demo_gb_at by (simp_all add: pool_fit_def)
  then have "pool_at 1 (gb_pool demo_gbp)" by (simp add: pool_at_def demo_gbp_def)
  then show ?thesis using demo_queue by (simp add: gb_inv_def sess_ok_def rx_ok_def demo_gbp_def)
qed

definition demo_env :: gb_env where
  "demo_env = \<lparr>e_socket = 1, e_send = (\<lambda>_. 40), e_bufsz = -1, e_rtc = \<lparr>sec = 0, minute = 0, hour = 0, mday = 1, mon = 1, year = 2020\<rparr>,
     e_iccid = [], e_now = 100000, e_sent = 100001, e_cal_sent = 100002, e_cfg = (\<lambda>_. 0)\<rparr>"

lemma demo_room: "room demo_env"
  by (simp add: room_def demo_env_def)

theorem gb_session_refined_witness:
  "\<exists>p' cs. gb_main_step demo_env GB_MSG_NONE demo_gbp = Some p' \<and> gb_calls p' = gb_calls demo_gbp @ cs
    \<and> session_turn False Offline (sent_kinds cs) (session p') \<and> gb_inv p' \<and> set (sent_kinds cs) \<inter> {2, 3} = {}"
proof -
  obtain p' where "gb_main_step demo_env GB_MSG_NONE demo_gbp = Some p'"
    using main_total [OF demo_inv] demo_queue(2) by auto
  moreover have "session demo_gbp = Offline" "\<not> hears (gb_dispatch demo_env GB_MSG_NONE demo_gbp)"
    using demo_queue by (simp_all add: session_def demo_gbp_def hears_def)
  ultimately show ?thesis
    using gb_session_refined [OF demo_inv demo_room, of GB_MSG_NONE p'] by (auto dest: sym)
qed

section \<open>Nothing hangs\<close>








section \<open>From the socket to the session\<close>

lemma demo_queued:
  assumes "msg_ok m"
  shows "\<exists>objs. gb_inv (demo_gbp\<lparr>gb_SPObj := objs\<rparr>) \<and> gb_queue (demo_gbp\<lparr>gb_SPObj := objs\<rparr>) = [m]"
proof -
  have "sq_inv demo_sq" "sq_content demo_sq = []" using demo_queue by (auto simp: queue_ok_def gb_queue_def demo_gbp_def)
  with flag_queue.enq_law [of demo_sq m] assms demo_inv show ?thesis
    by (intro exI [of _ "[sq_enq demo_sq m]"]) (simp add: gb_inv_def queue_ok_def gb_queue_def rx_ok_def)
qed

text \<open>C22: What the socket proxy takes for a complete message of the reporting service can be longer than the buffer of
  the protocol: receiving it from the queue, when it has no two adjacent number signs behind its start marks (these would start
  the parser anew) and less than 1456 bytes, writes behind the buffer exactly if its header announces more than
  999 bytes of data.\<close>

theorem gb_receive_bound:
  assumes "gb_inv p" "gb_queue p = f # fs" "sp_frame SP_GB f" "unmarked f" "length f < 1456"
  shows "gb_do_receive p = None \<longleftrightarrow> 999 < gb_datalen f"
proof -
  have inv: "queue_ok p" "sess_ok p" "pool_at 1 (gb_pool p)" "length (g_rcvbuf p) = 1024"
    using assms(1) by (simp_all add: gb_inv_def rx_ok_def)
  from receive_queue [OF inv(1)] assms(2) obtain objs where
    o: "gb_do_receive p = gb_receive_loop (p\<lparr>gb_SPObj := objs\<rparr>) (padded f) (length f)" by auto
  let ?p = "p\<lparr>gb_SPObj := objs\<rparr>"
  have shape: "gb_shape f" using assms(3,4) by (simp add: gb_shape_def sp_frame_def gb_frame_def)
  show ?thesis
  proof (cases "999 < gb_datalen f")
    case True
    have "gb_makeup_pack ?p (padded f) (length f) = None"
      unfolding padded_rest [OF assms(5)] by (rule long_overruns [OF shape True]) (use inv(4) in \<open>simp_all add: at_mark_not\<close>)
    with True shape show ?thesis unfolding o by (subst gb_receive_loop.simps) (simp add: gb_shape_def)
  next
    case False
    then have f: "gb_message f" using shape by (simp add: gb_message_def)
    from receive_one [OF f, of ?p] inv(4) obtain p1 where p1: "complete f ?p p1"
      "gb_receive_loop ?p (padded f) (length f) = (if summed f then gb_on_msg p1 else Some (False, p1))" by auto
    have "received ?p False p1"
      by (rule parsed_received) (use p1(1) inv(2) f in \<open>auto simp: complete_def gb_message_def gb_shape_def\<close>)
    then have "sess_ok p1" "pool_at 1 (gb_pool p1)" using received_pool [of ?p False p1] inv(3) by (auto simp: received_def)
    from on_msg_law [OF this] p1(2) False show ?thesis unfolding o by auto
  qed
qed

definition demo_long :: bytes where
  "demo_long = [0x23, 0x23, 1, 1] @ replicate 18 0x31 @ [3, 232] @ replicate 1001 0"

theorem gb_receive_bound_witness:
  "\<exists>objs. gb_queue (demo_gbp\<lparr>gb_SPObj := objs\<rparr>) = [demo_long] \<and> gb_do_receive (demo_gbp\<lparr>gb_SPObj := objs\<rparr>) = None"
proof -
  have n: "demo_long ! Suc i \<noteq> 0x23" if "0 < i" "i < 1024" for i
    using that by (auto simp: demo_long_def nth_append nth_Cons')
  have l: "length demo_long = 1025" "demo_long ! 22 = 3" "demo_long ! 23 = 232" "demo_long ! 0 = 0x23" "demo_long ! 1 = 0x23"
    by (simp_all add: demo_long_def nth_append)
  have "unmarked demo_long" using n l(1) by (auto simp: unmarked_def)
  moreover have "sp_frame SP_GB demo_long" "gb_datalen demo_long = 1000" using l by (simp_all add: sp_frame_def gb_frame_def gb_datalen_def)
  moreover obtain objs where "gb_inv (demo_gbp\<lparr>gb_SPObj := objs\<rparr>)" "gb_queue (demo_gbp\<lparr>gb_SPObj := objs\<rparr>) = [demo_long]"
    using demo_queued [of demo_long] l(1) by (auto simp: msg_ok_def)
  ultimately show ?thesis using gb_receive_bound [of "demo_gbp\<lparr>gb_SPObj := objs\<rparr>" demo_long "[]"] l(1) by auto
qed

definition requeued :: "gb_abs \<Rightarrow> gb_abs" where "requeued A = spec_flush_realtm (spec_flush_sending A)"

definition next_seq :: "u16 \<Rightarrow> u16" where "next_seq n = (if n = 65531 then 1 else n + 1)"

lemma next_seq_eq: "n \<le> 65531 \<Longrightarrow> gb_regseq (gb_next_seq p) = next_seq n" if "gb_regseq p = n" for n p
proof -
  assume n: "n \<le> 65531"
  then have "unat n \<le> 65531" by (simp add: word_le_nat_alt)
  then have "65531 < n + 1 \<longleftrightarrow> n = 65531" by (simp add: word_less_nat_alt word_unat_eq_iff unat_word_ariths) linarith
  then show ?thesis using that by (auto simp: gb_next_seq_def gb_emit_def Let_def next_seq_def)
qed

lemma login_accepted:
  assumes "g_wait p = PROT_LOGIN" "g_rcvbuf p ! 3 = 1" "pool_at 1 (gb_pool p)"
  shows "\<exists>p'. gb_on_login p = Some p' \<and> session p' = Online \<and> g_login p' \<and> gb_regseq p' = gb_regseq (gb_next_seq p)
    \<and> (if g_login p then gb_abs_of (gb_pool p') = requeued (gb_abs_of (gb_pool p))
       else gb_abs_of (gb_pool p') = (gb_abs_of (gb_pool p))\<lparr>a_window := []\<rparr>)"
proof -
  have ok: "gb_ok (gb_pool p) {}" using assms(3) by (simp add: pool_at_def pool_fit_def)
  let ?q = "p\<lparr>g_wait := 0, g_online := True\<rparr>"
  have n: "session (gb_next_seq q) = Online \<and> g_login (gb_next_seq q) \<and> gb_regseq (gb_next_seq q) = gb_regseq (gb_next_seq p)
      \<and> gb_pool (gb_next_seq q) = x" if "q = ?q\<lparr>gb_pool := x, g_login := True\<rparr>" for q x
    unfolding that by (simp add: gb_next_seq_def gb_emit_def Let_def session_def)
  show ?thesis
  proof (cases "g_login p")
    case login: True
    from flush_sending_abs [OF ok] obtain s1 where s1: "gb_data_flush_sending (gb_pool p) = Some s1"
      "gb_sim (gb_pool p) {} s1 {} (spec_flush_sending (gb_abs_of (gb_pool p)))" by blast
    then have "gb_ok s1 {}" by (simp add: gb_sim_def)
    from flush_realtm_abs [OF this] obtain s2 where s2: "gb_data_flush_realtm s1 = Some s2"
      "gb_sim s1 {} s2 {} (spec_flush_realtm (gb_abs_of s1))" by blast
    have e: "?q\<lparr>gb_pool := s2\<rparr> = ?q\<lparr>gb_pool := s2, g_login := True\<rparr>" using login by (cases p) simp
    have "gb_on_login p = Some (gb_next_seq (?q\<lparr>gb_pool := s2\<rparr>))"
      using assms(1,2) login s1(1) s2(1) by (simp add: gb_on_login_def Let_def)
    moreover have "gb_abs_of s2 = requeued (gb_abs_of (gb_pool p))" using s1(2) s2(2) by (simp add: gb_sim_def requeued_def)
    ultimately show ?thesis using n [OF e] login by simp
  next
    case False
    from clear_error_abs [OF ok] obtain s1 where s1: "gb_data_clear_error (gb_pool p) = Some s1"
      "gb_sim (gb_pool p) {} s1 {} ((gb_abs_of (gb_pool p))\<lparr>a_window := []\<rparr>)" by blast
    have "gb_on_login p = Some (gb_next_seq (?q\<lparr>gb_pool := s1, g_login := True\<rparr>))"
      using assms(1,2) False s1(1) by (simp add: gb_on_login_def Let_def)
    with n [OF refl, of s1] False s1(2) show ?thesis by (simp add: gb_sim_def)
  qed
qed

text \<open>C6: The server's consent to a login (a whole message of 1 to 999 data bytes with a right checksum and without two adjacent
  number signs behind its start marks; the parser takes those for the start of another message), arriving on the socket in any pieces of which the
  first holds the two start
  marks while no message for the reporting service is waiting, goes through the receiver of the socket proxy, its queue and the parser, and puts the thread that has
  asked for the login online: the number of the login, if it is at most 65531, is counted up within 1 to 65531, and at a repeated login
  the reports that were sent and not confirmed are queued again, all as delayed reports.\<close>

theorem gb_login_end_to_end:
  assumes "rx_ready s" "length (SPObj s) = 2" "rx_room (SPObj s) SP_GB 1" "rx_room (SPObj s) SP_PRIV 0" "sq_content (SPObj s ! SP_GB) = []"
    and "gb_message f" "summed f" "consent f" "es \<noteq> []" "\<forall>e\<in>set es. good_read (pkiEnFlag s) e"
    and "concat (map rx_data es) = f" "rx_data (last es) \<noteq> []" "2 \<le> length (rx_data (hd es))"
    and "gb_inv p" "session p = Asked" "gb_regseq p \<le> 65531"
  shows "\<exists>s' p'. receive_all es s = Some s' \<and> gb_do_receive (p\<lparr>gb_SPObj := SPObj s'\<rparr>) = Some (False, p')
    \<and> session p' = Online \<and> g_login p' \<and> gb_regseq p' = next_seq (gb_regseq p)
    \<and> (g_login p \<longrightarrow> gb_abs_of (gb_pool p') = requeued (gb_abs_of (gb_pool p)))"
proof -
  let ?g = "(SP_GB, [f], es)"
  have fr: "sp_frame SP_GB f" using assms(6) by (auto simp: sp_frame_def gb_frame_def gb_message_def gb_shape_def)
  have len: "length (concat (map rx_data (butlast es))) < length f"
  proof -
    have "concat (map rx_data es) = concat (map rx_data (butlast es)) @ rx_data (last es)"
      by (subst append_butlast_last_id [OF assms(9), symmetric]) (simp del: append_butlast_last_id)
    then show ?thesis using assms(11,12) by (auto simp: neq_Nil_conv dest: arg_cong [of _ _ length])
  qed
  have "rx_group (pkiEnFlag s) ?g" using fr len assms(9-11,13) by simp
  moreover have "\<forall>obj<2. rx_room (SPObj s) obj (length (rx_msgs obj [?g]))"
    using assms(3,4) by (auto simp: less_Suc_eq numeral_2_eq_2)
  ultimately obtain s' where s': "receive_all es s = Some s'" "rx_room (SPObj s') SP_GB 0" "length (SPObj s') = 2"
    "sq_content (SPObj s' ! SP_GB) = [f]"
    using rx_groups_delivered [of s "[?g]"] assms(1,2,5) by auto
  let ?p = "p\<lparr>gb_SPObj := SPObj s'\<rparr>"
  have q: "queue_ok ?p" "gb_queue ?p = [f]" using s' by (auto simp: queue_ok_def gb_queue_def rx_room_def)
  from receive_queue [OF q(1)] q(2) obtain objs where
    o: "gb_do_receive ?p = gb_receive_loop (?p\<lparr>gb_SPObj := objs\<rparr>) (padded f) (length f)" by auto
  let ?q = "?p\<lparr>gb_SPObj := objs\<rparr>"
  have inv: "sess_ok p" "pool_at 1 (gb_pool p)" "length (g_rcvbuf p) = 1024" using assms(14) by (simp_all add: gb_inv_def rx_ok_def)
  from receive_one [OF assms(6), of ?q] inv(3) assms(7) obtain p1 where
    p1: "complete f ?q p1" "gb_receive_loop ?q (padded f) (length f) = gb_on_msg p1" by auto
  have flen: "3 < length f" using assms(6) by (simp add: gb_message_def gb_shape_def)
  have b: "g_rcvbuf p1 ! i = f ! i" if "i \<le> 3" for i
    using p1(1) flen that nth_take [of i "length f" "g_rcvbuf p1"] by (simp add: complete_def)
  note fd = parse_only_fields [of ?q p1] 
  have po: "parse_only ?q p1" using p1(1) by (simp add: complete_def)
  have w: "g_wait p1 = PROT_LOGIN" "gb_pool p1 = gb_pool p" "g_login p1 = g_login p" "gb_regseq p1 = gb_regseq p"
    using fd [OF po] assms(15) by (auto simp: session_def split: if_splits)
  have a: "g_rcvbuf p1 ! 3 = 1" "unat (g_rcvbuf p1 ! 2) = PROT_LOGIN" using b [of 3] b [of 2] assms(8) by (simp_all add: consent_def)
  from login_accepted [OF w(1) a(1)] inv(2) w(2) obtain p' where p': "gb_on_login p1 = Some p'" "session p' = Online" "g_login p'"
    "gb_regseq p' = gb_regseq (gb_next_seq p1)" "g_login p \<longrightarrow> gb_abs_of (gb_pool p') = requeued (gb_abs_of (gb_pool p))"
    unfolding w(3) by (metis (full_types))
  have "gb_do_receive ?p = Some (False, p')" unfolding o p1(2) using a(2) p'(1) by (simp add: gb_on_msg_def)
  moreover have "gb_regseq p' = next_seq (gb_regseq p)" unfolding p'(4) using next_seq_eq [OF w(4)] assms(16) by simp
  ultimately show ?thesis using s'(1) p'(2,3,5) by blast
qed

lemma demo_answer_message: "gb_message (demo_answer 1)" "summed (demo_answer 1)" "consent (demo_answer 1)" "length (demo_answer 1) = 27"
proof -
  show "gb_message (demo_answer 1)" "summed (demo_answer 1)"
    by (rule built_message [OF demo_answer_def]; simp add: demo_unmarked demo_gbp_vin)+
  show "consent (demo_answer 1)" "length (demo_answer 1) = 27" by (simp_all add: demo_answer_bytes consent_def)
qed

theorem gb_login_end_to_end_witness:
  "\<exists>s' p'. receive_all [demo_read (take 9 (demo_answer 1)), demo_read (drop 9 (demo_answer 1))] demo_sock = Some s'
    \<and> gb_do_receive (demo_gbp\<lparr>g_wait := PROT_LOGIN, gb_SPObj := SPObj s'\<rparr>) = Some (False, p') \<and> session p' = Online
    \<and> gb_regseq p' = 2"
proof -
  let ?f = "demo_answer 1" and ?p = "demo_gbp\<lparr>g_wait := PROT_LOGIN\<rparr>"
  let ?es = "[demo_read (take 9 ?f), demo_read (drop 9 ?f)]"
  have "sq_content demo_sq = []" using demo_queue by (simp add: gb_queue_def demo_gbp_def)
  then have s: "rx_ready demo_sock" "length (SPObj demo_sock) = 2" "rx_room (SPObj demo_sock) SP_GB 1"
    "rx_room (SPObj demo_sock) SP_PRIV 0" "sq_content (SPObj demo_sock ! SP_GB) = []"
    by (simp_all add: demo_rx_ready demo_rx_room)
  have e: "?es \<noteq> []" "\<forall>e\<in>set ?es. good_read (pkiEnFlag demo_sock) e" "concat (map rx_data ?es) = ?f"
    "rx_data (last ?es) \<noteq> []" "2 \<le> length (rx_data (hd ?es))"
    using demo_answer_message(4) by (simp_all add: demo_read_def good_read_def)
  have p: "gb_inv ?p" "session ?p = Asked" "gb_regseq ?p \<le> 65531" "gb_regseq ?p = 1" "\<not> g_login ?p"
    using demo_inv queue_eq [of ?p demo_gbp] by (simp_all add: gb_inv_def sess_ok_def rx_ok_def session_def) (simp_all add: demo_gbp_def)
  have "next_seq (gb_regseq ?p) = 2" using p(4) by (simp add: next_seq_def)
  with gb_login_end_to_end [OF s demo_answer_message(1-3) e p(1-3)] show ?thesis by (simp del: receive_all.simps) blast
qed

section \<open>Reports\<close>

definition pending :: "gb_stat_t \<Rightarrow> (u32 \<times> bytes) list" where
  "pending p = gb_reports (gb_pool p) GB_realtm_lst @ gb_reports (gb_pool p) GB_delay_lst"

definition report_frame :: "gb_stat_t \<Rightarrow> u32 \<times> bytes \<Rightarrow> bytes" where
  "report_frame p r = gb_close_pack (gb_pack_head (ucast (fst r)) 0xfe p
     @ [of_nat (length (snd r) div 256), of_nat (length (snd r))] @ snd r)"

lemma held_data:
  assumes "gb_ok s H" "i \<in> H"
  shows "length (pk_data (gb_datamem s ! i)) = 1024"
proof -
  from assms(1) obtain L R where at: "GB_at s L H R" by (rule gb_okE)
  from cells_at_less [OF GB_at_parts(1) [OF at]] assms(2) GB_at_parts(2) [OF at] show ?thesis by (simp add: mem_ok_def)
qed

lemma report_packed:
  assumes "pack_ok rpt" "length (pk_data rpt) = 1024"
  shows "gb_pack_report p rpt = report_frame p (report rpt)"
proof -
  have l: "length (take (unat (pk_len rpt)) (pk_data rpt)) = unat (pk_len rpt)"
    using assms by (simp add: pack_ok_def word_le_nat_alt)
  have "ucast w = (of_nat (unat w) :: u8)" for w :: u32 by (simp add: word_unat_eq_iff unsigned_ucast_eq unsigned_of_nat)
  moreover have "unat (drop_bit 8 w) = unat w div 256" for w :: u32 by (simp add: drop_bit_eq_div unat_div_distrib)
  moreover have "(word_of_nat (unat w) :: u8) = ucast w" for w :: u32 using calculation(1) [of w] by simp
  ultimately show ?thesis unfolding gb_pack_report_def report_frame_def report_def fst_conv snd_conv l
    by metis
qed

lemma list_types:
  assumes "gb_ok s H"
  shows "\<forall>r\<in>set (a_realtm (gb_abs_of s)). fst r = 2" "\<forall>r\<in>set (a_delay (gb_abs_of s)). fst r = 3"
proof -
  from assms obtain L R where at: "GB_at s L H R" and A: "gb_abs_of s = abs_of s L R" by (rule gb_okE)
  have "\<forall>a\<in>{GB_realtm_lst, GB_delay_lst}. \<forall>i\<in>set (L a). place_ok a (gb_datamem s ! i)"
    using GB_at_parts(2) [OF at] by (simp add: mem_ok_def)
  then show "\<forall>r\<in>set (a_realtm (gb_abs_of s)). fst r = 2" "\<forall>r\<in>set (a_delay (gb_abs_of s)). fst r = 3"
    unfolding A by (auto simp: abs_of_def place_ok_def pack_ok_def report_def)
qed

text \<open>The report that is sent next, and those it leaves: the oldest current one; when none is current, the oldest delayed one, and in the
  emergency mode the newest delayed one.\<close>

definition next_report :: "gb_stat_t \<Rightarrow> ((u32 \<times> bytes) \<times> (u32 \<times> bytes) list) option" where
  "next_report p =
     (let cur = gb_reports (gb_pool p) GB_realtm_lst; old = gb_reports (gb_pool p) GB_delay_lst
      in if cur \<noteq> [] then Some (hd cur, tl cur @ old)
         else if old = [] then None
         else if gb_emerg (gb_pool p) then Some (last old, butlast old) else Some (hd old, tl old))"

lemma get_spec:
  assumes "\<forall>r\<in>set (a_realtm A). fst r = 2" "\<forall>r\<in>set (a_delay A). fst r = 3"
    and "(if a_realtm A \<noteq> [] then Some (hd (a_realtm A), tl (a_realtm A) @ a_delay A)
         else if a_delay A = [] then None
         else if em then Some (last (a_delay A), butlast (a_delay A)) else Some (hd (a_delay A), tl (a_delay A))) = Some (r, rs)"
  shows "\<exists>B. spec_get em A = Some (r, B) \<and> a_realtm B @ a_delay B = rs \<and> a_trans B = a_trans A \<and> a_ring B = a_ring A
    \<and> (let C = spec_put_back r (spec_ack B) in a_realtm C @ a_delay C = r # rs \<and> a_trans C = tl (a_trans A))
    \<and> (let C = spec_put_send r (spec_ack B) in a_realtm C @ a_delay C = rs \<and> a_trans C = tl (a_trans A) @ [r])"
proof (cases "a_realtm A")
  case Nil
  then have "r \<in> set (a_delay A)" using assms(3) by (auto split: if_splits)
  with assms(2) have "fst r = 3" by blast
  with Nil assms show ?thesis
    by (auto simp: spec_get_def spec_put_back_def spec_put_send_def spec_ack_def Let_def split: if_splits)
qed (use assms in \<open>auto simp: spec_get_def spec_put_back_def spec_put_send_def spec_ack_def Let_def\<close>)

text \<open>C17: Of the reports waiting the oldest current one is sent, when none is current the oldest delayed one, in the emergency mode
  the newest delayed one, in a message with its type, its
  length and its bytes, as long as the guard on the room in the send buffer holds. If the socket took it, it is the only one still unconfirmed
  and the others wait as before; if not, it is the first of those waiting
  and none of them is lost, and after an error the connection is closed and the session is
  offline. In any case the report sent before it is given up as confirmed.\<close>

theorem gb_report_sent:
  assumes "pool_at 1 (gb_pool p)" "room e" "next_report p = Some (r, rs)"
  defines "res \<equiv> e_send e (report_frame p r)"
  shows "\<exists>p'. gb_do_report e p = (res < 0, p')
    \<and> gb_calls p' = gb_calls p @ [GbSend (report_frame p r) True] @ (if res < 0 then [GbSocketClose 104] else [])
    \<and> pending p' = (if 0 < res then rs else r # rs)
    \<and> gb_reports (gb_pool p') GB_trans_lst = (if 0 < res then [r] else [])
    \<and> (res < 0 \<longrightarrow> session p' = Offline) \<and> pool_at 1 (gb_pool p')"
proof -
  let ?s = "gb_pool p" let ?A = "gb_abs_of ?s"
  have f: "pool_fit ?s {}" "length (a_trans ?A) \<le> 1" using assms(1) by (simp_all add: pool_at_def)
  have "(if a_realtm ?A \<noteq> [] then Some (hd (a_realtm ?A), tl (a_realtm ?A) @ a_delay ?A) else if a_delay ?A = [] then None
      else if gb_emerg ?s then Some (last (a_delay ?A), butlast (a_delay ?A)) else Some (hd (a_delay ?A), tl (a_delay ?A))) = Some (r, rs)"
    using assms(3) by (simp only: next_report_def abs_fields Let_def)
  from get_spec [OF list_types [OF fit_ok [OF f(1)]] this] obtain B where B: "spec_get (gb_emerg ?s) ?A = Some (r, B)"
    "a_trans B = a_trans ?A" "a_ring B = a_ring ?A"
    and bk: "a_realtm (spec_put_back r (spec_ack B)) @ a_delay (spec_put_back r (spec_ack B)) = r # rs"
      "a_trans (spec_put_back r (spec_ack B)) = tl (a_trans ?A)"
    and sent: "a_realtm (spec_put_send r (spec_ack B)) @ a_delay (spec_put_send r (spec_ack B)) = rs"
      "a_trans (spec_put_send r (spec_ack B)) = tl (a_trans ?A) @ [r]"
    unfolding Let_def by blast
  from get_abs [OF fit_ok [OF f(1)]] B(1) obtain i s1 where i: "gb_data_get_pack ?s = (Some (GB_datamem i), s1)"
    "report (gb_datamem s1 ! i) = r" "gb_sim ?s {} s1 {i} B" by auto
  have s1: "pool_fit s1 {i}" by (rule sim_fit [OF i(3) f(1) B(3)]) (use B(2) f(2) in simp_all)
  let ?s2 = "gb_data_ack_pack s1" let ?p = "p\<lparr>gb_pool := s1\<rparr>"
  note ack = ack_fit [OF s1]
  have abs: "gb_abs_of s1 = B" "gb_abs_of ?s2 = spec_ack B" using i(3) ack_abs [OF fit_ok [OF s1]] by (simp_all add: gb_sim_def)
  have rep: "report (gb_datamem ?s2 ! i) = r" using ack(3) [of i] i(2) by simp
  have tl: "tl (a_trans ?A) = []" using f(2) by (cases "a_trans ?A") auto
  have bk': "gb_abs_of (gb_data_put_back ?s2 (GB_datamem i)) = spec_put_back r (spec_ack B)"
    "gb_abs_of (gb_data_put_send ?s2 (GB_datamem i)) = spec_put_send r (spec_ack B)"
    using put_back_abs [OF fit_ok [OF ack(1)], of i] put_send_abs [OF fit_ok [OF ack(1)], of i] rep abs(2)
    by (simp_all add: gb_sim_def)
  have "a_trans (gb_abs_of ?s2) = []" using ack(2) abs(1) B(2) tl by simp
  note fit = put_fit [OF ack(1) this]
  have buf: "gb_pack_report ?p (gb_datamem s1 ! i) = report_frame p r"
    using report_packed [of "gb_datamem s1 ! i" ?p] held_ok [OF fit_ok [OF s1], of i] held_data [OF fit_ok [OF s1], of i] i(2)
    by (simp add: report_frame_def gb_pack_head_def)
  obtain n q where q: "gb32960_MsgSend e (report_frame p r) True ?p = (n, q)" by (rule prod.exhaust)
  note q' = send_stage(2,3) [OF q]
  let ?p' = "if res < 0 then gb_close 4 (q\<lparr>gb_pool := gb_data_put_back ?s2 (GB_datamem i)\<rparr>)
    else if res = 0 then q\<lparr>gb_pool := gb_data_put_back ?s2 (GB_datamem i)\<rparr>
    else q\<lparr>gb_pool := gb_data_put_send ?s2 (GB_datamem i)\<rparr>"
  have n: "n = res" "gb_pool q = ?s2" using q' by (simp_all add: res_def)
  have "gb_do_report e p = (res < 0, ?p')"
    using assms(2) buf by (simp add: gb_do_report_def i(1) room_def q n)
  moreover have "gb_calls ?p' = gb_calls p @ [GbSend (report_frame p r) True] @ (if res < 0 then [GbSocketClose 104] else [])"
    by (simp add: q' gb_close_def gb_reset_def gb_emit_def)
  moreover have pool: "gb_pool ?p' = (if 0 < res then gb_data_put_send ?s2 (GB_datamem i) else gb_data_put_back ?s2 (GB_datamem i))"
    by (simp add: gb_close_def gb_reset_def gb_emit_def)
  moreover have "pending ?p' = (if 0 < res then rs else r # rs)"
    unfolding pending_def pool using bk' bk(1) sent(1) by (simp add: abs_fields [symmetric])
  moreover have "gb_reports (gb_pool ?p') GB_trans_lst = (if 0 < res then [r] else [])"
    unfolding pool using bk' bk(2) sent(2) tl by (simp add: abs_fields [symmetric])
  moreover have "res < 0 \<longrightarrow> session ?p' = Offline" by (simp add: close_stage)
  moreover have "pool_at 1 (gb_pool ?p')" unfolding pool using fit by simp
  ultimately show ?thesis by blast
qed

theorem gb_report_sent_witness:
  "\<exists>s p'. gb_data_save_realtm GbReports.demo_gb [7] = Some s \<and> gb_do_report demo_env (demo_gbp\<lparr>gb_pool := s\<rparr>) = (False, p')
    \<and> gb_reports (gb_pool p') GB_trans_lst = [(2, [7])]"
proof -
  have d: "pool_fit GbReports.demo_gb {}" "gb_ok GbReports.demo_gb {}" using demo_gb_at by (simp_all add: pool_fit_def)
  from save_abs [OF d(2), of "[7]" 0] demo_gb_at(2) obtain s where s: "gb_data_save_realtm GbReports.demo_gb [7] = Some s"
    "gb_sim GbReports.demo_gb {} s {} (spec_save [7] (gb_abs_of GbReports.demo_gb))"
    by (auto simp: save_one_realtm spec_rooms_def)
  have A: "gb_abs_of s = \<lparr>a_free = 1999, a_realtm = [(2, [7])], a_delay = [], a_trans = [], a_ring = 30, a_window = []\<rparr>"
    using s(2) demo_gb_at(2) by (simp add: gb_sim_def spec_save_free)
  have "pool_fit s {}" by (rule sim_fit [OF s(2) d(1)]) (simp_all add: spec_save_free demo_gb_at(2))
  then have "pool_at 1 (gb_pool (demo_gbp\<lparr>gb_pool := s\<rparr>))" "next_report (demo_gbp\<lparr>gb_pool := s\<rparr>) = Some ((2, [7]), [])"
    using A by (simp_all add: pool_at_def next_report_def flip: abs_fields)
  from gb_report_sent [OF this(1) demo_room this(2)] s(1) show ?thesis by (auto simp: demo_env_def)
qed

section \<open>Logging out\<close>

lemma seq_bytes:
  assumes "length xs = 30"
  shows "take 2 (drop 30 (gb_close_pack (xs @ [x, y] @ zs))) = [x, y]"
  using assms by (simp add: gb_close_pack_def)

text \<open>The logout carries the number of the login it ends, also when the numbers start again after 65531.\<close>

lemma gb_logout_number:
  assumes "gb_pack_login t iccid p = (login, p1)" "1 \<le> gb_regseq p" "gb_regseq p \<le> 65531" "17 \<le> length (gb_vin p)"
    and "17 \<le> length (gb_vin q)" "gb_regseq q = gb_regseq (gb_next_seq p1)"
  shows "take 2 (drop 30 (gb_pack_logout t' q)) = take 2 (drop 30 login) \<and> 1 \<le> gb_regseq q \<and> gb_regseq q \<le> 65531"
proof -
  let ?n = "gb_regseq p1"
  have p1: "?n = gb_regseq (gb_login_date t p)" "gb_vin p1 = gb_vin p"
    using assms(1) by (auto simp: gb_pack_login_def gb_login_date_def gb_emit_def Let_def split: if_splits)
  have n: "1 \<le> ?n" "?n \<le> 65531" using assms(2,3) unfolding p1(1) by (simp_all add: gb_login_date_def gb_emit_def Let_def)
  have q: "gb_regseq q = next_seq ?n" using next_seq_eq [OF refl n(2)] assms(6) by simp
  obtain a b zs where l: "login = gb_close_pack ((gb_pack_head 1 0xfe p1 @ [a, b] @ time_bytes t) @ [ucast (drop_bit 8 ?n), ucast ?n] @ zs)"
    using assms(1) unfolding p1(1) gb_pack_login_def Let_def by (auto simp: gb_pack_head_def)
  have h: "length (gb_pack_head c d r @ [a, b] @ time_bytes u) = 30" if "17 \<le> length (gb_vin r)" for c d r a b u
    using that by (simp add: gb_pack_head_def time_bytes_def)
  have out: "gb_pack_logout t' q = gb_close_pack ((gb_pack_head 4 0xfe q @ [0, 8] @ time_bytes t') @ [ucast (drop_bit 8 ?n), ucast ?n] @ [])"
  proof (cases "?n = 65531")
    case False
    then have "?n + 1 \<noteq> 1" using n by auto
    with False show ?thesis by (simp add: gb_pack_logout_def Let_def q next_seq_def)
  qed (simp add: gb_pack_logout_def q next_seq_def)
  have "1 \<le> next_seq ?n \<and> next_seq ?n \<le> 65531"
  proof (cases "?n = 65531")
    case False
    with n have "unat ?n < 65531" by (simp add: word_le_nat_alt word_unat_eq_iff)
    with False show ?thesis by (simp add: next_seq_def word_le_nat_alt unat_word_ariths)
  qed (simp add: next_seq_def)
  then show ?thesis unfolding q [symmetric] out l
    using seq_bytes [OF h, of q] seq_bytes [OF h, of p1] assms(4,5) p1(2) by simp
qed

fun gb_run :: "(gb_env \<times> gb_msg) list \<Rightarrow> gb_stat_t \<Rightarrow> gb_stat_t option" where
  "gb_run [] p = Some p"
| "gb_run ((e, msg) # xs) p = Option.bind (gb_main_step e msg p) (gb_run xs)"

text \<open>How many of the turns find the time-out over, counted from the sending of the last logout.\<close>

fun timeouts :: "u64 \<Rightarrow> u64 \<Rightarrow> gb_env list \<Rightarrow> nat" where
  "timeouts limit w [] = 0"
| "timeouts limit w (e # es) = (if limit < e_now e - w then Suc (timeouts limit (e_sent e) es) else timeouts limit w es)"

lemma main_leaving:
  assumes "g_wait p = PROT_LOGOUT" "\<not> gb_allow_sleep p" "gbnosend p = 0" "queue_ok p" "gb_queue p = []" "e_socket e = 1"
  shows "gb_main_step e GB_MSG_NONE p = Some (snd (gb_do_wait e p))"
proof -
  have "gb_do_receive p = Some (False, p)" using receive_queue [OF assms(4)] assms(5) by simp
  moreover have "fst (gb_do_wait e p)" using wait_leaving [OF assms(1)] by simp
  ultimately show ?thesis using assms by (simp add: gb_main_step_def gb_turn_def gb_do_checksock_def gb_rest_def c_or_def)
qed

lemma asleep_turns:
  assumes "gb_allow_sleep p" "gbnosend p = 0" "\<not> g_login p" "session p = Offline"
  shows "\<exists>p'. gb_run (map (\<lambda>e. (e, GB_MSG_NONE)) es) p = Some p' \<and> gb_allow_sleep p' \<and> \<not> g_login p' \<and> session p' = Offline
    \<and> g_can p' = g_can p \<and> gb_calls p' = gb_calls p"
  using assms
proof (induction es arbitrary: p)
  case (Cons e es)
  let ?p = "p\<lparr>g_wait := 0, g_online := False, g_retry := 0, g_waittime := 0, g_rcvstep := -1, g_rcvlen := 0, g_datalen := 0\<rparr>"
  have "gb_main_step e GB_MSG_NONE p = Some ?p"
    using Cons.prems(1,2) by (simp add: gb_main_step_def gb_turn_def gb_do_checksock_def)
  moreover have "session ?p = Offline" by (simp add: session_def)
  ultimately show ?case using Cons.IH [of ?p] Cons.prems by simp
qed simp

text \<open>C23: A thread that is leaving, on a connection that stays open and takes what it sends, with no answer in the queue and no message
  of another module, waits through any turns in between and repeats the logout in each turn that finds the time-out over since the last sending,
  three times in all; the fourth such turn ends the session and allows the sleep, whether the CAN is active
  or not, and nothing is sent after it. Before that the thread goes on waiting.\<close>

theorem gb_logout_gives_up:
  assumes "g_wait p = PROT_LOGOUT" "g_retry p \<le> 3" "\<not> gb_allow_sleep p" "gbnosend p = 0" "queue_ok p" "gb_queue p = []"
    and "\<forall>e\<in>set es. e_socket e = 1 \<and> (\<forall>msg. 0 < e_send e msg)"
  defines "n \<equiv> timeouts (GB_SERVR_TIMEOUT p) (g_waittime p) es"
  shows "\<exists>p' cs. gb_run (map (\<lambda>e. (e, GB_MSG_NONE)) es) p = Some p' \<and> g_can p' = g_can p
    \<and> gb_calls p' = gb_calls p @ cs \<and> sent_kinds cs = replicate (min n (3 - g_retry p)) PROT_LOGOUT
    \<and> (if n < 4 - g_retry p then session p' = Leaving \<and> \<not> gb_allow_sleep p'
       else session p' = Offline \<and> gb_allow_sleep p' \<and> \<not> g_login p')"
  using assms(1-7) unfolding n_def
proof (induction es arbitrary: p)
  case Nil
  then show ?case by (simp add: session_def)
next
  case (Cons e es)
  have e: "e_socket e = 1" "0 < e_send e msg" for msg using Cons.prems(7) by simp_all
  have es: "\<forall>e\<in>set es. e_socket e = 1 \<and> (\<forall>msg. 0 < e_send e msg)" using Cons.prems(7) by simp
  note main = main_leaving [OF Cons.prems(1,3-6) e(1)]
  consider "\<not> GB_SERVR_TIMEOUT p < e_now e - g_waittime p" | "GB_SERVR_TIMEOUT p < e_now e - g_waittime p" "g_retry p = 3"
    | "GB_SERVR_TIMEOUT p < e_now e - g_waittime p" "g_retry p < 3" using Cons.prems(2) by linarith
  then show ?case
  proof cases
    case 1
    with main wait_leaving [OF Cons.prems(1), of e] Cons.IH [OF Cons.prems(1-6) es] show ?thesis by simp
  next
    case 2
    let ?p = "gb_reset (p\<lparr>g_retry := 4, g_login := False, gb_allow_sleep := True\<rparr>)"
    have "gb_allow_sleep ?p" "gbnosend ?p = 0" "\<not> g_login ?p" "session ?p = Offline"
      using Cons.prems(4) by (simp_all add: gb_reset_def session_def)
    from asleep_turns [OF this] obtain p' where "gb_run (map (\<lambda>e. (e, GB_MSG_NONE)) es) ?p = Some p'" "gb_allow_sleep p'"
      "\<not> g_login p'" "session p' = Offline" "g_can p' = g_can ?p" "gb_calls p' = gb_calls ?p" by blast
    with main wait_leaving [OF Cons.prems(1), of e] 2 show ?thesis by (simp add: gb_reset_def)
  next
    case 3
    let ?p = "p\<lparr>g_retry := g_retry p + 1\<rparr>"
    obtain res q where s: "gb32960_MsgSend e (gb_pack_logout (e_rtc e) ?p) False ?p = (res, q)" by (rule prod.exhaust)
    note s' = send_stage(2,3) [OF s]
    let ?q = "q\<lparr>g_waittime := e_sent e\<rparr>" let ?c = "GbSend (gb_pack_logout (e_rtc e) ?p) False"
    have "0 < res" unfolding s'(2) by (rule e(2))
    then have w: "snd (gb_do_wait e p) = ?q"
      using wait_leaving [OF Cons.prems(1), of e] 3 s by (simp add: gb_logout_again_def)
    have q: "g_wait ?q = PROT_LOGOUT" "g_retry ?q = g_retry p + 1" "\<not> gb_allow_sleep ?q" "gbnosend ?q = 0" "g_waittime ?q = e_sent e"
      "GB_SERVR_TIMEOUT ?q = GB_SERVR_TIMEOUT p" "gb_SPObj ?q = gb_SPObj p" "g_can ?q = g_can p" "gb_calls ?q = gb_calls p @ [?c]"
      using Cons.prems(1,3,4) unfolding s'(1) by (simp_all add: GB_SERVR_TIMEOUT_def)
    let ?n = "timeouts (GB_SERVR_TIMEOUT ?q) (g_waittime ?q) es"
    have "g_retry ?q \<le> 3" using 3 q(2) by simp
    moreover have "queue_ok ?q" "gb_queue ?q = []" using queue_eq [OF q(7)] Cons.prems(5,6) by simp_all
    ultimately obtain p' cs where
      p': "gb_run (map (\<lambda>e. (e, GB_MSG_NONE)) es) ?q = Some p'" "g_can p' = g_can ?q" "gb_calls p' = gb_calls ?q @ cs"
        "sent_kinds cs = replicate (min ?n (3 - g_retry ?q)) PROT_LOGOUT"
        "if ?n < 4 - g_retry ?q then session p' = Leaving \<and> \<not> gb_allow_sleep p'
         else session p' = Offline \<and> gb_allow_sleep p' \<and> \<not> g_login p'"
      using Cons.IH [OF q(1) _ q(3,4) _ _ es] by (elim meta_impE exE conjE)
    have n: "timeouts (GB_SERVR_TIMEOUT p) (g_waittime p) (e # es) = Suc ?n" using 3 q(5,6) by simp
    have k: "min (Suc ?n) (3 - g_retry p) = Suc (min ?n (3 - g_retry ?q))" "Suc ?n < 4 - g_retry p \<longleftrightarrow> ?n < 4 - g_retry ?q"
      unfolding q(2) using 3(2) by simp arith
    have "sent_kinds (?c # cs) = replicate (min (Suc ?n) (3 - g_retry p)) PROT_LOGOUT"
      using p'(4) unfolding k(1) by (simp add: built_kinds)
    moreover have "gb_calls p' = gb_calls p @ (?c # cs)" using p'(3) q(9) by simp
    moreover have "gb_run (map (\<lambda>e. (e, GB_MSG_NONE)) (e # es)) p = Some p'" using main w p'(1) by simp
    ultimately show ?thesis using p'(2,5) q(8) unfolding n k(2) by metis
  qed
qed

definition demo_turn :: "u64 \<Rightarrow> gb_env" where "demo_turn t = demo_env\<lparr>e_now := t, e_sent := t\<rparr>"

theorem gb_logout_gives_up_witness:
  "\<exists>p' cs. gb_run (map (\<lambda>e. (e, GB_MSG_NONE)) (map demo_turn [10000, 11000, 20000, 30000, 34000, 40000, 50000]))
      (demo_gbp\<lparr>g_online := True, g_wait := PROT_LOGOUT\<rparr>) = Some p'
    \<and> gb_allow_sleep p' \<and> g_can p' \<and> sent_kinds cs = [4, 4, 4] \<and> gb_calls p' = cs"
proof -
  let ?p = "demo_gbp\<lparr>g_online := True, g_wait := PROT_LOGOUT\<rparr>"
  let ?es = "map demo_turn [10000, 11000, 20000, 30000, 34000, 40000, 50000]"
  have f: "g_wait ?p = PROT_LOGOUT" "g_retry ?p = 0" "\<not> gb_allow_sleep ?p" "gbnosend ?p = 0" "g_waittime ?p = 0" "g_can ?p"
    "gb_calls ?p = []" "gb_SPObj ?p = gb_SPObj demo_gbp" "GB_SERVR_TIMEOUT ?p = 5000"
    by (simp_all add: demo_gbp_def GB_SERVR_TIMEOUT_def)
  have q: "queue_ok ?p" "gb_queue ?p = []" using queue_eq [OF f(8)] demo_queue by simp_all
  have e: "\<forall>e\<in>set ?es. e_socket e = 1 \<and> (\<forall>msg. 0 < e_send e msg)" by (simp add: demo_turn_def demo_env_def)
  have n: "timeouts (GB_SERVR_TIMEOUT ?p) (g_waittime ?p) ?es = 5" unfolding f(5,9) by (simp add: demo_turn_def demo_env_def)
  have "replicate (min 5 (3 - g_retry ?p)) PROT_LOGOUT = [4, 4, 4]" unfolding f(2) by (simp add: numeral_eq_Suc)
  with gb_logout_gives_up [OF f(1) _ f(3,4) q e] f(2,6,7) show ?thesis unfolding n by (simp only: append_Nil) force
qed

lemma asleep_step:
  assumes "sess_ok p" "gb_allow_sleep p" "msg \<notin> {GB_MSG_CANON, GB_MSG_CANOFF}"
  shows "\<exists>p' cs. gb_main_step e msg p = Some p' \<and> gb_calls p' = gb_calls p @ cs \<and> sent_kinds cs = [] \<and> gb_allow_sleep p' \<and> sess_ok p'"
proof -
  let ?q = "gb_dispatch e msg p"
  from dispatch_to_turn [OF assms(1)] have q: "stage p [] ?q" "sess_ok ?q" by (simp_all add: to_turn_def)
  have cfg: "gb_allow_sleep (gb_do_config e c p)" for c
    using assms(2) by (cases c) (auto simp: Let_def gb_emit_def gb_close_def gb_reset_def)
  then have a: "gb_allow_sleep ?q" using assms(2,3) by (cases msg) (auto simp: gb_emit_def gb_close_def gb_reset_def)
  obtain b p1 where c: "gb_do_checksock e ?q = (b, p1)" by (rule prod.exhaust)
  with checksock_stage [OF c q(2)] a have p1: "b" "stage ?q [] p1" "sess_ok p1" by (auto split: if_splits)
  have "gb_allow_sleep p1" using c a by (auto simp: gb_do_checksock_def)
  with stage_trans [OF q(1) p1(2)] q a p1 c show ?thesis
    by (cases "gbnosend ?q = 0") (auto simp: gb_main_step_def gb_turn_def stage_def)
qed

text \<open>Once the sleep is allowed the thread sends nothing, whatever messages come, until the CAN is reported again.\<close>

lemma gb_asleep_silent:
  assumes "sess_ok p" "gb_allow_sleep p" "\<forall>(e, msg)\<in>set xs. msg \<notin> {GB_MSG_CANON, GB_MSG_CANOFF}"
  shows "\<exists>p' cs. gb_run xs p = Some p' \<and> gb_calls p' = gb_calls p @ cs \<and> sent_kinds cs = [] \<and> gb_allow_sleep p'"
  using assms
proof (induction xs arbitrary: p)
  case (Cons x xs)
  obtain e msg where x: "x = (e, msg)" by (rule prod.exhaust)
  with Cons.prems(3) have "msg \<notin> {GB_MSG_CANON, GB_MSG_CANOFF}" by simp
  from asleep_step [OF Cons.prems(1,2) this, of e] obtain p1 cs where p1: "gb_main_step e msg p = Some p1"
    "gb_calls p1 = gb_calls p @ cs" "sent_kinds cs = []" "gb_allow_sleep p1" "sess_ok p1" by blast
  from Cons.IH [OF p1(5,4)] Cons.prems(3) obtain p' ds where "gb_run xs p1 = Some p'" "gb_calls p' = gb_calls p1 @ ds"
    "sent_kinds ds = []" "gb_allow_sleep p'" by auto
  with p1 x show ?case by auto
qed simp

end
