(* ===== verification/RcBase.thy ===== *)
theory RcBase
  imports Lock
begin

text \<open>
  What the remote control modules under \<^verbatim>\<open>PrvtProtocol/remoteControl\<close> share: the vehicle signals they read
  (\<^verbatim>\<open>PPrmtCtrl_cfg.c\<close>, an environment record), the two control words sent to the MCU (\<^verbatim>\<open>PP_canSend.c\<close>), the lock
  word, the reports to the server and to the phone (\<^verbatim>\<open>PP_rmtCtrl_StInformTsp\<close>, \<^verbatim>\<open>PP_rmtCtrl_inform_tb\<close>). The
  shared part is the record \<open>rc_world\<close>; a module is a function on its own state and the world. What leaves the
  component is appended to \<open>w_out\<close>.
\<close>

section \<open>The environment of a turn\<close>

text \<open>One turn of the thread reads the clock and every signal once: \<open>e_now\<close> is \<^verbatim>\<open>tm_get_time\<close> in milliseconds,
  \<open>e_stamp\<close> the wall clock in seconds, the others are the getters of the signal database.\<close>

record rc_env =
  e_now :: u64
  e_stamp :: int
  e_vehicleState :: u8
  e_vehicleSOC :: int
  e_doorlockSt :: u8
  e_reardoorSt :: int
  e_BleStartSt :: u8
  e_findcarSt :: u8
  e_sunroofSt :: u8
  e_RmtStartSt :: u8
  e_ACOnOffSt :: u8
  e_LHTemp :: int
  e_DrivHeatingSt :: u8
  e_PassHeatingSt :: u8
  e_chrgOnOffSt :: u8
  e_chrgAptEnSt :: u8
  e_chargeSt :: u8
  e_chrgGunCnctSt :: u8
  e_readyLightSt :: u8
  e_cancelEngiSt :: u8
  e_autheSt :: u8
  e_CertValid :: bool
  e_scomOpen :: bool
  e_encOk :: bool
  e_cfgOk :: bool
  e_week :: nat
  e_hour :: u8
  e_min :: u8
  e_powerOff :: bool
  e_sockOpen :: bool
  e_KL15 :: bool
  e_enabled :: bool
  e_ESK :: bytes
  e_pmRunning :: bool
  e_pmListen :: bool
  e_fotaWake :: int

text \<open>The wrappers of \<^verbatim>\<open>PPrmtCtrl_cfg.c\<close> that do more than pass a signal on.\<close>

definition PP_rmtCtrl_cfg_bdmreardoorSt :: "rc_env \<Rightarrow> u8" where
  "PP_rmtCtrl_cfg_bdmreardoorSt e = (if e_reardoorSt e \<noteq> 0 then 1 else 0)"

definition PP_rmtCtrl_cfg_vehicleSOC :: "rc_env \<Rightarrow> u8" where
  "PP_rmtCtrl_cfg_vehicleSOC e = word_of_int (e_vehicleSOC e)"

definition PP_rmtCtrl_cfg_LHTemp :: "rc_env \<Rightarrow> u8" where
  "PP_rmtCtrl_cfg_LHTemp e = word_of_int (e_LHTemp e)"

definition PP_rmtCtrl_cfg_HeatingSt :: "rc_env \<Rightarrow> nat \<Rightarrow> u8" where
  "PP_rmtCtrl_cfg_HeatingSt e dt =
    (let level = if dt = 0 then e_DrivHeatingSt e else e_PassHeatingSt e
     in if level = 1 then 3 else if level = 2 then 2 else if level = 3 then 1 else level)"

definition PP_rmtCtrl_cfg_chargeOnOffSt :: "rc_env \<Rightarrow> u8" where
  "PP_rmtCtrl_cfg_chargeOnOffSt e = (if e_chrgOnOffSt e = 1 \<and> e_chrgAptEnSt e = 0 then 1 else 0)"

abbreviation (input) "PP_RMTCTRL_CFG_NOTCHARGE \<equiv> 0 :: u8"
abbreviation (input) "PP_RMTCTRL_CFG_CHARGEING \<equiv> 1 :: u8"
abbreviation (input) "PP_RMTCTRL_CFG_CHARGEFINISH \<equiv> 2 :: u8"
abbreviation (input) "PP_RMTCTRL_CFG_CHARGEFAIL \<equiv> 3 :: u8"

definition PP_rmtCtrl_cfg_chargeSt :: "rc_env \<Rightarrow> u8" where
  "PP_rmtCtrl_cfg_chargeSt e =
    (let tmp = e_chargeSt e
     in if tmp = 0 then PP_RMTCTRL_CFG_NOTCHARGE
        else if tmp = 3 then PP_RMTCTRL_CFG_CHARGEFINISH
        else if tmp = 4 then PP_RMTCTRL_CFG_CHARGEFAIL
        else if tmp = 1 \<or> tmp = 2 \<or> tmp = 6 then PP_RMTCTRL_CFG_CHARGEING
        else PP_RMTCTRL_CFG_NOTCHARGE)"

definition PP_rmtCtrl_cfg_chargeGunCnctSt :: "rc_env \<Rightarrow> u8" where
  "PP_rmtCtrl_cfg_chargeGunCnctSt e = (if e_chrgGunCnctSt e = 1 \<or> e_chrgGunCnctSt e = 2 then 1 else 0)"

definition PP_rmtCtrl_cfg_bt_sunroofst :: "rc_env \<Rightarrow> u8" where
  "PP_rmtCtrl_cfg_bt_sunroofst e =
    (if e_sunroofSt e = 4 then 1 else if e_sunroofSt e = 2 then 2 else if e_sunroofSt e = 0 then 3 else 1)"

section \<open>What the component sends\<close>

text \<open>\<open>PP_RMTCTRL_CTRLSTYLE\<close>: where a request came from; a struct that was only cleared has none.\<close>

datatype rc_style = NO_STYLE | RMTCTRL_TSP | RMTCTRL_BLUETOOTH | RMTCTRL_HU | RMTCTRL_TBOX | RMTCTRL_SHELL

text \<open>\<^verbatim>\<open>PP_rmtCtrl_Stpara_t\<close> by its \<^verbatim>\<open>Resptype\<close>, with the fields \<^verbatim>\<open>PP_rmtCtrl_StInformTsp\<close> reads of each kind. The
  callers hold the struct on the stack; a field they do not set is \<open>None\<close>.\<close>

datatype rc_inform =
    RVCSTATUSRESP (inf_reqType: int) (inf_eventid: int) (inf_expTime: "int option") (inf_status: int)
      (inf_failtype: int)
  | RVCBOOKINGRESP (inf_eventid: int) (inf_expTime: "int option") (inf_bookingId: int) (inf_reqCode: "int option")
  | HUBOOKINGRESP (inf_eventid: int) (inf_rvcReqType: int) (inf_huTime: int) (inf_hours: int) (inf_min: int)
      (inf_eq: int) (inf_cycle: u8) (inf_huBookingId: "int option")

datatype rc_scom = SCOM_TL_CMD_CTRL | SCOM_MPU_MCU_VIRTUAL_ON | SCOM_MPU_MCU_0x440 | SCOM_MPU_MCU_0x445
  | SOCM_MCU_MPU_0x526 | SCOM_TL_CMD_WAKE_TIME

datatype rc_call =
    Scom rc_scom bytes \<comment> \<open>\<^verbatim>\<open>scom_tl_send_frame\<close>, a single frame\<close>
  | SpWrite nat rc_inform \<comment> \<open>\<^verbatim>\<open>SP_data_write\<close> with the inform node of that index\<close>
  | ToBle u8 u8 "u8 option" "u8 option" \<comment> \<open>\<^verbatim>\<open>tcom_send_msg\<close> to the Bluetooth thread: type, command, result, state\<close>
  | ToBleStatus u8 "u8 list" \<comment> \<open>the answer to a status query: command, the six states\<close>
  | RingWakeup \<comment> \<open>\<^verbatim>\<open>pm_ring_wakeup\<close>\<close>
  | InformHU int \<comment> \<open>\<^verbatim>\<open>tbox_ivi_set_tspInformHU\<close>\<close>
  | IviAppointment \<comment> \<open>\<^verbatim>\<open>ivi_message_request\<close>, the booking of the charge\<close>
  | SaveAcBook | SaveChargeBook \<comment> \<open>\<^verbatim>\<open>cfg_set_user_para\<close>\<close>

text \<open>The shared state: the lock word, the words of the messages 0x440 and 0x445 with the time of their last
  broadcast, the virtual ignition line, the stored start prohibition (\<^verbatim>\<open>CFG_ITEM_HOZON_TSP_FORBIDEN\<close>), the
  \<^verbatim>\<open>idleflag\<close> of the 100 inform nodes and the message counter.\<close>

record rc_world =
  w_lock :: u64
  w_440 :: u64
  w_445 :: u64
  w_lastsend :: u64
  w_virtual_on :: u8
  w_forbiden :: "u8 option"
  w_nodes :: "bool list"
  w_ulMsgCnt :: int
  w_out :: "rc_call list"

definition rc_emit :: "rc_call \<Rightarrow> rc_world \<Rightarrow> rc_world" where
  "rc_emit c w = w\<lparr>w_out := w_out w @ [c]\<rparr>"

definition rc_set_lock :: "nat \<Rightarrow> rc_world \<Rightarrow> int \<times> rc_world" where
  "rc_set_lock obj w = (let (r, flag) = setPP_lock_odcmtxlock (w_lock w) obj in (r, w\<lparr>w_lock := flag\<rparr>))"

definition rc_clear_lock :: "nat \<Rightarrow> rc_world \<Rightarrow> rc_world" where
  "rc_clear_lock obj w = w\<lparr>w_lock := clearPP_lock_odcmtxlock (w_lock w) obj\<rparr>"

abbreviation (input) "PP_LOCK_VEHICTRL_AC \<equiv> 5 :: nat"
abbreviation (input) "PP_LOCK_VEHICTRL_AUTODOOR \<equiv> 6 :: nat"
abbreviation (input) "PP_LOCK_VEHICTRL_CAMERA \<equiv> 8 :: nat"
abbreviation (input) "PP_LOCK_VEHICTRL_CHRG \<equiv> 9 :: nat"
abbreviation (input) "PP_LOCK_VEHICTRL_DOORLOCK \<equiv> 10 :: nat"
abbreviation (input) "PP_LOCK_VEHICTRL_SEARCHVEHI \<equiv> 11 :: nat"
abbreviation (input) "PP_LOCK_VEHICTRL_ENGINE \<equiv> 12 :: nat"
abbreviation (input) "PP_LOCK_VEHICTRL_FORBIDSTART \<equiv> 13 :: nat"
abbreviation (input) "PP_LOCK_VEHICTRL_SUNROOF \<equiv> 14 :: nat"

section \<open>The control words (\<open>PP_canSend.c\<close>)\<close>

datatype can_id = CAN_ID_3D2 | CAN_ID_440 | CAN_ID_445 | CAN_ID_526

definition PP_can_unpack :: "u64 \<Rightarrow> bytes" where
  "PP_can_unpack data = map (\<lambda>i. ucast (drop_bit (i * 8) data)) [0..<8]"

text \<open>The mask is an \<open>int\<close> shifted by \<open>bitl\<close>, at most 6 in the callers; the value is not cut to \<open>bitl\<close> bits.\<close>

definition set_field :: "u64 \<Rightarrow> nat \<Rightarrow> nat \<Rightarrow> u8 \<Rightarrow> u64" where
  "set_field v b bl data =
    (v AND NOT (push_bit (b + 1 - bl) (mask bl))) OR push_bit (b + 1 - bl) (ucast data)"

definition le_bytes32 :: "u32 \<Rightarrow> bytes" where
  "le_bytes32 x = map (\<lambda>i. ucast (drop_bit (i * 8) x)) [0..<4]"

text \<open>\<^verbatim>\<open>PP_canSend_init\<close> fills \<^verbatim>\<open>canmsg_3D2\<close>: event message, identifier 0x3D2, port 1, length 8, sent once,
  period 100. \<^verbatim>\<open>PP_send_event_info_to_mcu\<close> writes its fields in this order.\<close>

definition PP_send_event_info_to_mcu :: "bytes \<Rightarrow> rc_world \<Rightarrow> rc_world" where
  "PP_send_event_info_to_mcu data =
    rc_emit (Scom SCOM_TL_CMD_CTRL ([1] @ le_bytes32 0x3D2 @ [1, 8] @ data @ [1] @ le_bytes32 100))"

definition PP_canSend_setbit :: "can_id \<Rightarrow> nat \<Rightarrow> nat \<Rightarrow> u8 \<Rightarrow> bytes option \<Rightarrow> rc_world \<Rightarrow> rc_world" where
  "PP_canSend_setbit cid b bl data dt w = (case cid of
     CAN_ID_440 \<Rightarrow> (let v = set_field (w_440 w) b bl data
       in rc_emit (Scom SCOM_MPU_MCU_0x440 (PP_can_unpack v)) (w\<lparr>w_440 := v\<rparr>))
   | CAN_ID_445 \<Rightarrow> (let v = set_field (w_445 w) b bl data
       in rc_emit (Scom SCOM_MPU_MCU_0x445 (PP_can_unpack v)) (w\<lparr>w_445 := v\<rparr>))
   | CAN_ID_526 \<Rightarrow> rc_emit (Scom SOCM_MCU_MPU_0x526 (take 3 (the dt) @ replicate 5 0)) w
   | CAN_ID_3D2 \<Rightarrow> PP_send_event_info_to_mcu (case dt of None \<Rightarrow> replicate 8 0 | Some d \<Rightarrow> take 8 d) w)"

definition PP_can_send_cycle :: "rc_env \<Rightarrow> rc_world \<Rightarrow> rc_world" where
  "PP_can_send_cycle e w =
    (if e_scomOpen e \<and> 50 < e_now e - w_lastsend w then
       let w1 = if e_RmtStartSt e = 0
                then PP_canSend_setbit CAN_ID_445 17 1 0 None (PP_canSend_setbit CAN_ID_445 1 1 0 None w) else w;
           w2 = if e_CertValid e then PP_canSend_setbit CAN_ID_440 23 1 1 None w1 else w1;
           w3 = rc_emit (Scom SCOM_MPU_MCU_0x440 (PP_can_unpack (w_440 w2))) w2;
           w4 = rc_emit (Scom SCOM_MPU_MCU_0x445 (PP_can_unpack (w_445 w3))) w3
       in w4\<lparr>w_lastsend := e_now e\<rparr>
     else w)"

text \<open>\<^verbatim>\<open>virtual_on_flag\<close> is set before the frame is sent.\<close>

definition PP_send_virtual_on_to_mcu :: "u8 \<Rightarrow> rc_world \<Rightarrow> rc_world" where
  "PP_send_virtual_on_to_mcu on w = rc_emit (Scom SCOM_MPU_MCU_VIRTUAL_ON [on]) (w\<lparr>w_virtual_on := on\<rparr>)"

definition PP_can_mcu_awaken :: "rc_world \<Rightarrow> rc_world" where
  "PP_can_mcu_awaken w = (PP_send_virtual_on_to_mcu 1 ^^ 10) w"

definition PP_can_mcu_sleep :: "rc_world \<Rightarrow> rc_world" where
  "PP_can_mcu_sleep = PP_send_virtual_on_to_mcu 0"

datatype PP_can_ctrl_typ = PP_CAN_DOORLOCK | PP_CAN_SUNROOF | PP_CAN_SUNSHADE | PP_CAN_AUTODOOR | PP_CAN_SEARCH
  | PP_CAN_ENGINE | PP_CAN_ACCTRL | PP_CAN_CHAGER | PP_CAN_FORBID | PP_CAN_SEATHEAT | PP_CAN_OTAREQ
  | PP_CAN_CERTIFICATE | PP_CAN_BLUESTART

abbreviation (input) "CAN_CLEANDOOR \<equiv> 0 :: u8"
abbreviation (input) "CAN_CLOSEDOOR \<equiv> 1 :: u8"
abbreviation (input) "CAN_OPENDOOR \<equiv> 2 :: u8"
abbreviation (input) "CAN_CLEANSEARCH \<equiv> 0 :: u8"
abbreviation (input) "CAN_SEARCHVEHICLE \<equiv> 3 :: u8"
abbreviation (input) "CAN_SUNROOFCLEAN \<equiv> 0 :: u8"
abbreviation (input) "CAN_SUNROOFOPEN \<equiv> 1 :: u8"
abbreviation (input) "CAN_SUNROOFUP \<equiv> 3 :: u8"
abbreviation (input) "CAN_SUNROOFSTOP \<equiv> 4 :: u8"
abbreviation (input) "CAN_SUNSHADECLEAN \<equiv> 0 :: u8"
abbreviation (input) "CAN_SUNSHADECLOSE \<equiv> 2 :: u8"
abbreviation (input) "CAN_CLEANAUTODOOR \<equiv> 0 :: u8"
abbreviation (input) "CAN_OPENAUTODOOR \<equiv> 1 :: u8"
abbreviation (input) "CAN_CLOSEAUTODOOR \<equiv> 2 :: u8"
abbreviation (input) "CAN_NOREQSEAT \<equiv> 0 :: u8"
abbreviation (input) "CAN_SEATHEATMAIN \<equiv> 28 :: u8"
abbreviation (input) "CAN_SEATHEATPASS \<equiv> 31 :: u8"
abbreviation (input) "CAN_ENGINECLEAN \<equiv> 0 :: u8"
abbreviation (input) "CAN_STARTENGINE \<equiv> 1 :: u8"
abbreviation (input) "CAN_CLOSEENGINE \<equiv> 2 :: u8"
abbreviation (input) "CAN_CLEANCHARGE \<equiv> 0 :: u8"
abbreviation (input) "CAN_STOPCHAGER \<equiv> 1 :: u8"
abbreviation (input) "CAN_STARTCHAGER \<equiv> 2 :: u8"
abbreviation (input) "CAN_SETAPPOINT \<equiv> 3 :: u8"
abbreviation (input) "CAN_CANCELAPPOINT \<equiv> 4 :: u8"
abbreviation (input) "CAN_FORBIDCLEAN \<equiv> 0 :: u8"
abbreviation (input) "CAN_STARTFORBID \<equiv> 1 :: u8"
abbreviation (input) "CAN_NOFORBID \<equiv> 2 :: u8"
abbreviation (input) "CAN_OPENACC \<equiv> 1 :: u8"
abbreviation (input) "CAN_OPNEACCFIAL \<equiv> 2 :: u8"
abbreviation (input) "CAN_SETACCTEP \<equiv> 3 :: u8"
abbreviation (input) "CAN_CLOSEACC \<equiv> 4 :: u8"
abbreviation (input) "CAN_CLOSEACCCLEAN \<equiv> 5 :: u8"
abbreviation (input) "CAN_ACCMD_INVAILD \<equiv> 8 :: u8"
abbreviation (input) "CAN_BLUECLEAN \<equiv> 0 :: u8"
abbreviation (input) "CAN_BLUESTART \<equiv> 1 :: u8"

definition PP_can_send_data :: "PP_can_ctrl_typ \<Rightarrow> u8 \<Rightarrow> u8 \<Rightarrow> rc_world \<Rightarrow> rc_world" where
  "PP_can_send_data typ data para w =
    (let set440 = (\<lambda>b bl d. PP_canSend_setbit CAN_ID_440 b bl d None);
         set445 = (\<lambda>b bl d. PP_canSend_setbit CAN_ID_445 b bl d None)
     in case typ of
       PP_CAN_DOORLOCK \<Rightarrow> set440 17 2 data w
     | PP_CAN_SUNROOF \<Rightarrow> set440 47 3 data w
     | PP_CAN_SUNSHADE \<Rightarrow> set440 33 2 data w
     | PP_CAN_AUTODOOR \<Rightarrow> set440 19 2 data w
     | PP_CAN_SEARCH \<Rightarrow> set440 17 2 data w
     | PP_CAN_ENGINE \<Rightarrow> set440 1 2 data w
     | PP_CAN_ACCTRL \<Rightarrow>
        (if data = CAN_OPENACC then set445 17 1 1 (set445 1 1 1 w)
         else if data = CAN_OPNEACCFIAL then set445 17 1 0 (set445 1 1 0 w)
         else if data = CAN_SETACCTEP then set445 55 6 para (set445 47 6 para w)
         else if data = CAN_CLOSEACC then set445 17 1 0 (set445 14 1 1 w)
         else if data = CAN_CLOSEACCCLEAN then set445 1 1 0 (set445 14 1 0 w)
         else if data = CAN_ACCMD_INVAILD then set445 1 1 0 w
         else w)
     | PP_CAN_CHAGER \<Rightarrow>
        (if data = CAN_STARTCHAGER then set440 3 2 2 (set440 4 1 0 w)
         else if data = CAN_STOPCHAGER then set440 3 2 1 w
         else if data = CAN_SETAPPOINT then set440 4 1 1 w
         else if data = CAN_CANCELAPPOINT then set440 4 1 0 w
         else if data = CAN_CLEANCHARGE then set440 3 2 0 w
         else w)
     | PP_CAN_FORBID \<Rightarrow> set440 31 2 data w
     | PP_CAN_SEATHEAT \<Rightarrow> set445 (unat para) 3 data w
     | PP_CAN_OTAREQ \<Rightarrow> set440 39 2 data w
     | PP_CAN_CERTIFICATE \<Rightarrow> set440 23 1 data w
     | PP_CAN_BLUESTART \<Rightarrow> set440 40 1 data w)"

definition PP_can_send_identificat :: "bytes option \<Rightarrow> rc_world \<Rightarrow> rc_world" where
  "PP_can_send_identificat dt = PP_canSend_setbit CAN_ID_3D2 0 0 0 dt"

section \<open>Reports\<close>

definition PP_rmtCtrl_getIdleNode :: "bool list \<Rightarrow> nat" where
  "PP_rmtCtrl_getIdleNode ns =
    (case find (\<lambda>i. \<not> ns ! i) [0..<length ns] of None \<Rightarrow> 0 | Some i \<Rightarrow> i)"

text \<open>\<open>e_encOk\<close>: the ASN.1 encoder accepts the report. The vehicle state and the position that the code adds to a
  status report are not part of the model.\<close>

definition PP_rmtCtrl_StInformTsp :: "rc_env \<Rightarrow> rc_inform \<Rightarrow> rc_world \<Rightarrow> rc_world" where
  "PP_rmtCtrl_StInformTsp e p w =
    (let w = w\<lparr>w_ulMsgCnt := w_ulMsgCnt w + 1\<rparr>
     in if \<not> e_encOk e then w
        else let i = PP_rmtCtrl_getIdleNode (w_nodes w)
             in rc_emit (SpWrite i p) (w\<lparr>w_nodes := (w_nodes w)[i := True]\<rparr>))"

definition PP_rmtCtrl_send_cb :: "nat \<Rightarrow> rc_world \<Rightarrow> rc_world" where
  "PP_rmtCtrl_send_cb i w = w\<lparr>w_nodes := (w_nodes w)[i := False]\<rparr>"

abbreviation (input) "BT_VEhICLE_DOOR_RESP \<equiv> 1 :: u8"
abbreviation (input) "BT_PANORAMIC_SUNROOF_RESP \<equiv> 2 :: u8"
abbreviation (input) "BT_ELECTRIC_DOOR_RESP \<equiv> 3 :: u8"
abbreviation (input) "BT_REMOTE_FIND_CAR_RESP \<equiv> 4 :: u8"
abbreviation (input) "BT_CHARGE_RESP \<equiv> 5 :: u8"
abbreviation (input) "BT_POWER_CONTROL_RESP \<equiv> 6 :: u8"
abbreviation (input) "BT_SUCCESS \<equiv> 1 :: u8"
abbreviation (input) "BT_FAIL \<equiv> 2 :: u8"

definition PP_rmtCtrl_inform_tb :: "rc_env \<Rightarrow> u8 \<Rightarrow> u8 \<Rightarrow> bool \<Rightarrow> rc_world \<Rightarrow> rc_world" where
  "PP_rmtCtrl_inform_tb e typ cmd ok =
    (if ok then rc_emit (ToBle typ cmd (Some BT_SUCCESS) (Some cmd))
     else rc_emit (ToBle typ cmd (Some BT_FAIL)
       (if typ = BT_VEhICLE_DOOR_RESP then Some (if e_doorlockSt e \<noteq> 0 then 1 else 2)
        else if typ = BT_PANORAMIC_SUNROOF_RESP then Some (PP_rmtCtrl_cfg_bt_sunroofst e)
        else if typ = BT_ELECTRIC_DOOR_RESP then Some (if PP_rmtCtrl_cfg_bdmreardoorSt e \<noteq> 0 then 1 else 2)
        else if typ = BT_REMOTE_FIND_CAR_RESP then Some 1
        else if typ = BT_CHARGE_RESP then Some (if PP_rmtCtrl_cfg_chargeOnOffSt e \<noteq> 0 then 2 else 1)
        else if typ = BT_POWER_CONTROL_RESP then Some (if e_RmtStartSt e \<noteq> 0 then 2 else 1)
        else None)))"

text \<open>The type of a failure in a report.\<close>

abbreviation (input) "PP_RMTCTRL_ACCNOOFF \<equiv> 1 :: int"
abbreviation (input) "PP_RMTCTRL_UPPOWERFAIL \<equiv> 4 :: int"
abbreviation (input) "PP_RMTCTRL_BCDMAUTHFAIL \<equiv> 5 :: int"
abbreviation (input) "PP_RMTCTRL_TIMEOUTFAIL \<equiv> 6 :: int"
abbreviation (input) "PP_RMTCTRL_CHRGGUNUNCONNT \<equiv> 7 :: int"
abbreviation (input) "PP_RMTCTRL_READYLIGHTON \<equiv> 9 :: int"
abbreviation (input) "PP_RMTCTRL_INSTRTIMEOUT \<equiv> 10 :: int"
abbreviation (input) "PP_RMTCTRL_NOTENABLE \<equiv> 11 :: int"
abbreviation (input) "PP_RMTCTRL_FOTA_UPGRADE \<equiv> 12 :: int"

end
