(* ===== verification/RcAuth.thy ===== *)
theory RcAuth
  imports RcBase
begin

text \<open>
  \<^verbatim>\<open>PP_identificat.c\<close>: the unit proves to the body controller (BDCM) that it knows the key. It asks for a random
  number with message 0x3D2, returns it enciphered with XTEA and waits for the controller's status; each of the two
  steps is tried five times. The decipherment that the controller needs is not in the program.
\<close>

section \<open>XTEA\<close>

definition ConstSk :: bytes where
  "ConstSk = [0xA5, 0x9E, 0x2D, 0x4B, 0x49, 0x18, 0x0F, 0x83, 0x6E, 0xA4, 0xC5, 0x48, 0x55, 0x15, 0x5B, 0xC3]"

definition DataSk_init :: bytes where
  "DataSk_init = [0x15, 0x36, 0xC2, 0x89, 0x61, 0xD6, 0x40, 0x3F, 0x9A, 0xE7, 0x26, 0x4B, 0xD9, 0x96, 0x7E, 0x75]"

definition be32 :: "bytes \<Rightarrow> nat \<Rightarrow> u32" where
  "be32 b i = push_bit 24 (ucast (b ! i)) + push_bit 16 (ucast (b ! (i + 1))) + push_bit 8 (ucast (b ! (i + 2)))
     + ucast (b ! (i + 3))"

definition to_be32 :: "u32 \<Rightarrow> bytes" where
  "to_be32 v = [ucast (drop_bit 24 (v AND 0xFF000000)), ucast (drop_bit 16 (v AND 0x00FF0000)),
     ucast (drop_bit 8 (v AND 0x0000FF00)), ucast v]"

definition xtea_delta :: u32 where "xtea_delta = 0x9E3779B9"

definition xtea_mix :: "u32 list \<Rightarrow> u32 \<Rightarrow> u32 \<Rightarrow> nat \<Rightarrow> u32" where
  "xtea_mix k v acc i = ((push_bit 4 v XOR drop_bit 5 v) + v) XOR (acc + k ! i)"

primrec xtea_rounds :: "u32 list \<Rightarrow> nat \<Rightarrow> u32 \<Rightarrow> u32 \<times> u32 \<Rightarrow> u32 \<times> u32" where
  "xtea_rounds k 0 acc v = v"
| "xtea_rounds k (Suc n) acc v =
    (let v0 = fst v + xtea_mix k (snd v) acc (unat (acc AND 3));
         acc = acc + xtea_delta;
         v1 = snd v + xtea_mix k v0 acc (unat (drop_bit 11 acc AND 3))
     in xtea_rounds k n acc (v0, v1))"

definition xtea_key :: "bytes \<Rightarrow> u32 list" where
  "xtea_key sk = (let x = map2 (XOR) sk ConstSk in map (be32 x) [0, 4, 8, 12])"

definition XteaEncipher :: "bytes \<Rightarrow> bytes \<Rightarrow> bytes" where
  "XteaEncipher sk chall =
    (let (v0, v1) = xtea_rounds (xtea_key sk) 32 0 (be32 chall 0, be32 chall 4) in to_be32 v0 @ to_be32 v1)"

section \<open>The authentication\<close>

datatype auth_stage = STAGE_IDLE | STAGE_START | STAGE_WAITRANDOM | STAGE_SENDENPTDATA | STAGE_WAITAUTHOKST

text \<open>\<^verbatim>\<open>PP_authcnt\<close> counts to \<^verbatim>\<open>IDENTIFICAT_NUM\<close> = 5.\<close>

record rc_auth =
  a_recvdata :: bytes
  a_recv_flag :: bool
  a_stage :: auth_stage
  a_stage1_time :: u64
  a_stage3_time :: u64
  a_status :: bool
  a_valid_time :: u64
  a_cnt :: nat
  a_DataSk :: bytes

definition rc_auth_init :: rc_auth where
  "rc_auth_init = \<lparr>a_recvdata = replicate 8 0, a_recv_flag = False, a_stage = STAGE_IDLE, a_stage1_time = 0,
     a_stage3_time = 0, a_status = False, a_valid_time = 0, a_cnt = 0, a_DataSk = DataSk_init\<rparr>"

text \<open>\<open>e_ESK\<close>: the 16 bytes that \<^verbatim>\<open>cfg_get_para\<close> leaves in the zeroed buffer.\<close>

definition PP_identificat_init :: "rc_env \<Rightarrow> rc_auth \<Rightarrow> rc_auth" where
  "PP_identificat_init e a =
    (if length (filter (\<lambda>b. b = 0) (take 16 (e_ESK e))) \<noteq> 16 then a\<lparr>a_DataSk := take 16 (e_ESK e)\<rparr> else a)"

abbreviation (input) "PP_AUTH_FAIL \<equiv> - 1 :: int"
abbreviation (input) "PP_AUTH_SUCCESS \<equiv> 1 :: int"

definition PP_identificat_mainfunction :: "rc_env \<Rightarrow> rc_auth \<times> rc_world \<Rightarrow> int \<times> rc_auth \<times> rc_world" where
  "PP_identificat_mainfunction e = (\<lambda>(a, w). case a_stage a of
     STAGE_IDLE \<Rightarrow>
       (0, (PP_identificat_init e (a\<lparr>a_cnt := 0, a_recv_flag := False\<rparr>))\<lparr>a_stage := STAGE_START\<rparr>, w)
   | STAGE_START \<Rightarrow>
       if a_cnt a < 5 then
         (0, a\<lparr>a_stage1_time := e_now e, a_stage := STAGE_WAITRANDOM, a_cnt := a_cnt a + 1\<rparr>,
          PP_can_send_identificat None w)
       else (PP_AUTH_FAIL, a\<lparr>a_stage := STAGE_IDLE\<rparr>, w)
   | STAGE_WAITRANDOM \<Rightarrow>
       if e_now e - a_stage1_time a \<le> 500 then
         (0, if a_recv_flag a then a\<lparr>a_recv_flag := False, a_stage := STAGE_SENDENPTDATA, a_cnt := 0\<rparr> else a, w)
       else (0, a\<lparr>a_stage := STAGE_START\<rparr>, w)
   | STAGE_SENDENPTDATA \<Rightarrow>
       if a_cnt a < 5 then
         (0, a\<lparr>a_stage3_time := e_now e, a_cnt := a_cnt a + 1, a_stage := STAGE_WAITAUTHOKST\<rparr>,
          PP_can_send_identificat (Some (XteaEncipher (a_DataSk a) (a_recvdata a))) w)
       else (PP_AUTH_FAIL, a\<lparr>a_stage := STAGE_IDLE\<rparr>, w)
   | STAGE_WAITAUTHOKST \<Rightarrow>
       if 20 \<le> e_now e - a_stage3_time a then
         (if e_now e - a_stage3_time a \<le> 500 then
            (if e_autheSt e = 1
             then (PP_AUTH_SUCCESS, a\<lparr>a_valid_time := e_now e, a_status := True, a_stage := STAGE_IDLE\<rparr>, w)
             else (0, a, w))
          else (0, a\<lparr>a_stage := STAGE_SENDENPTDATA\<rparr>, w))
       else (0, a, w))"

text \<open>An authentication is good for 270 seconds.\<close>

definition PP_get_identificat_flag :: "rc_env \<Rightarrow> rc_auth \<Rightarrow> bool \<times> rc_auth" where
  "PP_get_identificat_flag e a =
    (if e_now e - a_valid_time a < 270000 \<and> a_status a then (True, a) else (False, a\<lparr>a_status := False\<rparr>))"

definition PP_identificat_rcvdata :: "bytes \<Rightarrow> rc_auth \<Rightarrow> rc_auth" where
  "PP_identificat_rcvdata dt a = a\<lparr>a_recvdata := take 8 dt, a_recv_flag := True\<rparr>"

end
