(* ===== verification/RcCtrl.thy ===== *)
theory RcCtrl
  imports RcBase
begin

text \<open>
  The seven actuators that are served alike: door lock (\<^verbatim>\<open>PP_doorLockCtrl.c\<close>), tailgate (\<^verbatim>\<open>PP_autodoorCtrl.c\<close>),
  vehicle search (\<^verbatim>\<open>PP_searchvehicle.c\<close>), sunroof (\<^verbatim>\<open>PP_sunroofCtrl.c\<close>), start prohibition (\<^verbatim>\<open>PP_StartForbid.c\<close>),
  camera (\<^verbatim>\<open>PP_CameraCtrl.c\<close>) and one-button start (\<^verbatim>\<open>PP_bluetoothStart.c\<close>). Each file keeps the same static
  struct, the record \<open>rc_ctl\<close>, and has a main function with the states idle, request, wait and end, a request
  function and the tests for start and end. The interface \<open>rc_actuator\<close> of the theory RcLive carries the proof that a request ends.
\<close>

section \<open>The static state of an actuator\<close>

datatype rc_phase = CT_IDLE | CT_REQSTART | CT_RESPWAIT | CT_END

text \<open>\<^verbatim>\<open>state\<close>, \<^verbatim>\<open>success_flag\<close>, the event of \<^verbatim>\<open>pack.DisBody\<close> and the static \<^verbatim>\<open>PP_Respwaittime\<close>.\<close>

record rc_ctl =
  c_req :: bool
  c_reqType :: int
  c_cmd :: u8
  c_st :: rc_phase
  c_expTime :: int
  c_failtype :: int
  c_style :: rc_style
  c_success :: bool
  c_eventId :: int
  c_wait :: u64

definition rc_ctl_init :: rc_ctl where
  "rc_ctl_init = \<lparr>c_req = False, c_reqType = 0, c_cmd = 0, c_st = CT_IDLE, c_expTime = 0, c_failtype = 0,
     c_style = NO_STYLE, c_success = False, c_eventId = 112, c_wait = 0\<rparr>"

text \<open>What a request function is given: by the server the decoded message, by the phone a command byte, by the
  unit itself the index of a booking or a command.\<close>

datatype rc_request =
    TspReq (q_reqType: int) (q_params: bytes) (q_eventId: int) (q_expTime: int)
  | BtReq u8
  | TboxReq nat
  | HuReq (q_hucmd: int) (q_huId: u32) (q_huHour: u8) (q_huMin: u8) (q_huPower: u8) (q_huEffective: u8) (q_huStamp: u32)

definition rc_status :: "rc_ctl \<Rightarrow> int option \<Rightarrow> int \<Rightarrow> int \<Rightarrow> rc_inform" where
  "rc_status c ex st ft = RVCSTATUSRESP (c_reqType c) (c_eventId c) ex st ft"

text \<open>The frame of a request function: nothing happens unless the lock is granted.\<close>

definition rc_locked ::
    "nat \<Rightarrow> ('c \<times> rc_world \<Rightarrow> 'c \<times> rc_world) \<Rightarrow> 'c \<times> rc_world \<Rightarrow> int \<times> 'c \<times> rc_world" where
  "rc_locked obj f = (\<lambda>(c, w). let (r, w) = rc_set_lock obj w in (r, if r = PP_LOCK_OK then f (c, w) else (c, w)))"

section \<open>Door lock\<close>

abbreviation (input) "PP_RMTCTRL_DOORLOCKOPEN \<equiv> 0 :: int"
abbreviation (input) "PP_DOORLOCK_CLOSE \<equiv> 1 :: u8"
abbreviation (input) "PP_DOORLOCK_OPEN \<equiv> 2 :: u8"

definition PP_doorLockCtrl_mainfunction :: "rc_env \<Rightarrow> rc_ctl \<times> rc_world \<Rightarrow> rc_ctl \<times> rc_world" where
  "PP_doorLockCtrl_mainfunction e = (\<lambda>(c, w). case c_st c of
     CT_IDLE \<Rightarrow>
       if c_req c then
         (if e_vehicleState e = 0 then
            (c\<lparr>c_success := False, c_st := CT_REQSTART, c_req := False\<rparr>,
             if c_style c = RMTCTRL_TSP then PP_rmtCtrl_StInformTsp e (rc_status c (Some (c_expTime c)) 1 0) w else w)
          else (c\<lparr>c_failtype := PP_RMTCTRL_ACCNOOFF, c_success := False, c_st := CT_END, c_req := False\<rparr>, w))
       else (c, w)
   | CT_REQSTART \<Rightarrow>
       (c\<lparr>c_st := CT_RESPWAIT, c_wait := e_now e\<rparr>,
        PP_can_send_data PP_CAN_DOORLOCK (if c_cmd c = PP_DOORLOCK_OPEN then CAN_OPENDOOR else CAN_CLOSEDOOR) 0 w)
   | CT_RESPWAIT \<Rightarrow>
       if 200 < e_now e - c_wait c then
         (if e_now e - c_wait c < 2000 then
            (if e_doorlockSt e = (if c_cmd c = PP_DOORLOCK_OPEN then 0 else 1)
             then (c\<lparr>c_success := True, c_st := CT_END\<rparr>, PP_can_send_data PP_CAN_DOORLOCK CAN_CLEANDOOR 0 w)
             else (c, w))
          else (c\<lparr>c_failtype := PP_RMTCTRL_TIMEOUTFAIL, c_success := False, c_st := CT_END\<rparr>,
                PP_can_send_data PP_CAN_DOORLOCK CAN_CLEANDOOR 0 w))
       else (c, w)
   | CT_END \<Rightarrow>
       (c\<lparr>c_st := CT_IDLE\<rparr>,
        rc_clear_lock PP_LOCK_VEHICTRL_DOORLOCK
          (if c_style c = RMTCTRL_TSP
           then PP_rmtCtrl_StInformTsp e (rc_status c (Some (c_expTime c)) (if c_success c then 2 else 3)
                  (if c_success c then 0 else c_failtype c)) w
           else PP_rmtCtrl_inform_tb e BT_VEhICLE_DOOR_RESP (c_cmd c) (c_success c) w)))"

definition SetPP_doorLockCtrl_Request :: "rc_request \<Rightarrow> rc_ctl \<times> rc_world \<Rightarrow> int \<times> rc_ctl \<times> rc_world" where
  "SetPP_doorLockCtrl_Request q = rc_locked PP_LOCK_VEHICTRL_DOORLOCK (\<lambda>(c, w). (case q of
     TspReq t ps ev ex \<Rightarrow> c\<lparr>c_reqType := t, c_req := True, c_expTime := ex,
       c_cmd := (if t = PP_RMTCTRL_DOORLOCKOPEN then PP_DOORLOCK_OPEN else PP_DOORLOCK_CLOSE),
       c_eventId := ev, c_style := RMTCTRL_TSP\<rparr>
   | BtReq cmd \<Rightarrow> c\<lparr>c_cmd := (if cmd = 1 then PP_DOORLOCK_CLOSE else if cmd = 2 then PP_DOORLOCK_OPEN else c_cmd c),
       c_req := True, c_style := RMTCTRL_BLUETOOTH\<rparr>
   | _ \<Rightarrow> c, w))"

definition PP_doorLockCtrl_start :: "rc_ctl \<Rightarrow> bool" where "PP_doorLockCtrl_start c = c_req c"

definition PP_doorLockCtrl_end :: "rc_ctl \<Rightarrow> bool" where
  "PP_doorLockCtrl_end c = (c_st c = CT_IDLE \<and> \<not> c_req c)"

definition PP_doorLockCtrl_ClearStatus :: "rc_ctl \<times> rc_world \<Rightarrow> rc_ctl \<times> rc_world" where
  "PP_doorLockCtrl_ClearStatus = (\<lambda>(c, w). (c\<lparr>c_req := False\<rparr>, rc_clear_lock PP_LOCK_VEHICTRL_DOORLOCK w))"

text \<open>The shell command sets a request without asking for the lock.\<close>

definition PP_doorLockCtrl_SetCtrlReq :: "int \<Rightarrow> rc_ctl \<Rightarrow> rc_ctl" where
  "PP_doorLockCtrl_SetCtrlReq t c = c\<lparr>c_reqType := t,
     c_cmd := (if t = PP_RMTCTRL_DOORLOCKOPEN then PP_DOORLOCK_OPEN else PP_DOORLOCK_CLOSE),
     c_req := True, c_style := RMTCTRL_TSP\<rparr>"

section \<open>Tailgate\<close>

abbreviation (input) "PP_RMTCTRL_AUTODOOROPEN \<equiv> 0x200 :: int"
abbreviation (input) "PP_AUTODOOR_CLOSE \<equiv> 1 :: u8"
abbreviation (input) "PP_AUTODOOR_OPEN \<equiv> 2 :: u8"

definition PP_autodoorCtrl_mainfunction :: "rc_env \<Rightarrow> rc_ctl \<times> rc_world \<Rightarrow> rc_ctl \<times> rc_world" where
  "PP_autodoorCtrl_mainfunction e = (\<lambda>(c, w). case c_st c of
     CT_IDLE \<Rightarrow>
       if c_req c then
         (if e_vehicleState e = 0 then
            (c\<lparr>c_success := False, c_st := CT_REQSTART, c_req := False\<rparr>,
             if c_style c = RMTCTRL_TSP then PP_rmtCtrl_StInformTsp e (rc_status c (Some (c_expTime c)) 1 0) w else w)
          else (c\<lparr>c_success := False, c_st := CT_END, c_failtype := PP_RMTCTRL_ACCNOOFF, c_req := False\<rparr>, w))
       else (c, w)
   | CT_REQSTART \<Rightarrow>
       (c\<lparr>c_st := CT_RESPWAIT, c_wait := e_now e\<rparr>,
        PP_can_send_data PP_CAN_AUTODOOR
          (if c_cmd c = PP_AUTODOOR_OPEN then CAN_OPENAUTODOOR else CAN_CLOSEAUTODOOR) 0 w)
   | CT_RESPWAIT \<Rightarrow>
       if 200 < e_now e - c_wait c then
         (if e_now e - c_wait c < 15000 then
            (if PP_rmtCtrl_cfg_bdmreardoorSt e = (if c_cmd c = PP_AUTODOOR_OPEN then 1 else 0)
             then (c\<lparr>c_success := True, c_st := CT_END\<rparr>, PP_can_send_data PP_CAN_AUTODOOR CAN_CLEANAUTODOOR 0 w)
             else (c, w))
          else (c\<lparr>c_failtype := PP_RMTCTRL_TIMEOUTFAIL, c_success := False, c_st := CT_END\<rparr>,
                PP_can_send_data PP_CAN_AUTODOOR CAN_CLEANAUTODOOR 0 w))
       else (c, w)
   | CT_END \<Rightarrow>
       (c\<lparr>c_st := CT_IDLE\<rparr>,
        rc_clear_lock PP_LOCK_VEHICTRL_AUTODOOR
          (if c_style c = RMTCTRL_TSP
           then PP_rmtCtrl_StInformTsp e (rc_status c (Some (c_expTime c)) (if c_success c then 2 else 3)
                  (if c_success c then 0 else c_failtype c)) w
           else PP_rmtCtrl_inform_tb e BT_ELECTRIC_DOOR_RESP (c_cmd c) (c_success c) w)))"

definition SetPP_autodoorCtrl_Request :: "rc_request \<Rightarrow> rc_ctl \<times> rc_world \<Rightarrow> int \<times> rc_ctl \<times> rc_world" where
  "SetPP_autodoorCtrl_Request q = rc_locked PP_LOCK_VEHICTRL_AUTODOOR (\<lambda>(c, w). (case q of
     TspReq t ps ev ex \<Rightarrow> c\<lparr>c_reqType := t, c_req := True, c_expTime := ex,
       c_cmd := (if t = PP_RMTCTRL_AUTODOOROPEN then PP_AUTODOOR_OPEN else PP_AUTODOOR_CLOSE),
       c_eventId := ev, c_style := RMTCTRL_TSP\<rparr>
   | BtReq cmd \<Rightarrow> c\<lparr>c_cmd := (if cmd = 1 then PP_AUTODOOR_CLOSE else if cmd = 2 then PP_AUTODOOR_OPEN else c_cmd c),
       c_req := True, c_style := RMTCTRL_BLUETOOTH\<rparr>
   | _ \<Rightarrow> c, w))"

definition PP_autodoorCtrl_start :: "rc_ctl \<Rightarrow> bool" where "PP_autodoorCtrl_start c = c_req c"

definition PP_autodoorCtrl_end :: "rc_ctl \<Rightarrow> bool" where
  "PP_autodoorCtrl_end c = (c_st c = CT_IDLE \<and> \<not> c_req c)"

definition PP_autodoorCtrl_ClearStatus :: "rc_ctl \<times> rc_world \<Rightarrow> rc_ctl \<times> rc_world" where
  "PP_autodoorCtrl_ClearStatus = (\<lambda>(c, w). (c\<lparr>c_req := False\<rparr>, rc_clear_lock PP_LOCK_VEHICTRL_AUTODOOR w))"

definition PP_autodoorCtrl_SetCtrlReq :: "int \<Rightarrow> rc_ctl \<Rightarrow> rc_ctl" where
  "PP_autodoorCtrl_SetCtrlReq t c = c\<lparr>c_reqType := t,
     c_cmd := (if t = PP_RMTCTRL_AUTODOOROPEN then PP_AUTODOOR_OPEN else PP_AUTODOOR_CLOSE),
     c_req := True, c_style := RMTCTRL_TSP\<rparr>"

section \<open>Vehicle search\<close>

abbreviation (input) "PP_RMTCTRL_RMTSRCHVEHICLEOPEN \<equiv> 0x300 :: int"
abbreviation (input) "PP_SEARCH_cmd \<equiv> 2 :: u8"

text \<open>The search shares the two bits of the door lock in message 0x440; without the command \<open>PP_SEARCH_cmd\<close> the wait
  does nothing, not even time out.\<close>

definition PP_searchvehicle_mainfunction :: "rc_env \<Rightarrow> rc_ctl \<times> rc_world \<Rightarrow> rc_ctl \<times> rc_world" where
  "PP_searchvehicle_mainfunction e = (\<lambda>(c, w). case c_st c of
     CT_IDLE \<Rightarrow>
       if c_req c then
         (if e_vehicleState e = 0 then
            (c\<lparr>c_success := False, c_st := CT_REQSTART, c_req := False\<rparr>,
             if c_style c = RMTCTRL_TSP then PP_rmtCtrl_StInformTsp e (rc_status c (Some (c_expTime c)) 1 0) w else w)
          else (c\<lparr>c_failtype := PP_RMTCTRL_ACCNOOFF, c_success := False, c_st := CT_END, c_req := False\<rparr>, w))
       else (c, w)
   | CT_REQSTART \<Rightarrow>
       (c\<lparr>c_st := CT_RESPWAIT, c_wait := e_now e\<rparr>,
        if c_cmd c = PP_SEARCH_cmd then PP_can_send_data PP_CAN_SEARCH CAN_SEARCHVEHICLE 0 w else w)
   | CT_RESPWAIT \<Rightarrow>
       if c_cmd c = PP_SEARCH_cmd \<and> 200 < e_now e - c_wait c then
         (if e_now e - c_wait c < 2000 then
            (if e_findcarSt e = 1
             then (c\<lparr>c_success := True, c_st := CT_END\<rparr>, PP_can_send_data PP_CAN_SEARCH CAN_CLEANSEARCH 0 w)
             else (c, w))
          else (c\<lparr>c_failtype := PP_RMTCTRL_TIMEOUTFAIL, c_success := False, c_st := CT_END\<rparr>,
                PP_can_send_data PP_CAN_SEARCH CAN_CLEANSEARCH 0 w))
       else (c, w)
   | CT_END \<Rightarrow>
       (c\<lparr>c_st := CT_IDLE\<rparr>,
        rc_clear_lock PP_LOCK_VEHICTRL_SEARCHVEHI
          (if c_style c = RMTCTRL_TSP
           then PP_rmtCtrl_StInformTsp e (rc_status c (Some (c_expTime c)) (if c_success c then 2 else 3)
                  (if c_success c then 0 else c_failtype c)) w
           else PP_rmtCtrl_inform_tb e BT_REMOTE_FIND_CAR_RESP (c_cmd c) (c_success c) w)))"

definition SetPP_searchvehicle_Request :: "rc_request \<Rightarrow> rc_ctl \<times> rc_world \<Rightarrow> int \<times> rc_ctl \<times> rc_world" where
  "SetPP_searchvehicle_Request q = rc_locked PP_LOCK_VEHICTRL_SEARCHVEHI (\<lambda>(c, w). (case q of
     TspReq t ps ev ex \<Rightarrow> c\<lparr>c_reqType := t, c_req := True, c_expTime := ex,
       c_cmd := (if t = PP_RMTCTRL_RMTSRCHVEHICLEOPEN then PP_SEARCH_cmd else c_cmd c),
       c_eventId := ev, c_style := RMTCTRL_TSP\<rparr>
   | BtReq cmd \<Rightarrow> c\<lparr>c_cmd := (if cmd = 1 then PP_SEARCH_cmd else c_cmd c), c_req := True, c_style := RMTCTRL_BLUETOOTH\<rparr>
   | _ \<Rightarrow> c, w))"

definition PP_searchvehicle_start :: "rc_ctl \<Rightarrow> bool" where "PP_searchvehicle_start c = c_req c"

definition PP_searchvehicle_end :: "rc_ctl \<Rightarrow> bool" where
  "PP_searchvehicle_end c = (c_st c = CT_IDLE \<and> \<not> c_req c)"

definition PP_searchvehicle_ClearStatus :: "rc_ctl \<times> rc_world \<Rightarrow> rc_ctl \<times> rc_world" where
  "PP_searchvehicle_ClearStatus = (\<lambda>(c, w). (c\<lparr>c_req := False\<rparr>, rc_clear_lock PP_LOCK_VEHICTRL_SEARCHVEHI w))"

definition PP_searchvehicle_SetCtrlReq :: "int \<Rightarrow> rc_ctl \<Rightarrow> rc_ctl" where
  "PP_searchvehicle_SetCtrlReq t c = c\<lparr>c_reqType := t, c_req := True,
     c_cmd := (if t = PP_RMTCTRL_RMTSRCHVEHICLEOPEN then PP_SEARCH_cmd else c_cmd c), c_style := RMTCTRL_TSP\<rparr>"

section \<open>Sunroof\<close>

abbreviation (input) "PP_RMTCTRL_PNRSUNROOFOPEN \<equiv> 0x100 :: int"
abbreviation (input) "PP_RMTCTRL_PNRSUNROOFCLOSE \<equiv> 0x101 :: int"
abbreviation (input) "PP_RMTCTRL_PNRSUNROOFUPWARP \<equiv> 0x102 :: int"
abbreviation (input) "PP_SUNROOFOPEN \<equiv> 1 :: u8"
abbreviation (input) "PP_SUNROOFCLOSE \<equiv> 2 :: u8"
abbreviation (input) "PP_SUNROOFUPWARP \<equiv> 3 :: u8"
abbreviation (input) "PP_SUNROOFSTOP \<equiv> 4 :: u8"

text \<open>The sunroof is also moved while the vehicle is on. Every turn of the wait clears both commands.\<close>

definition PP_sunroofctrl_mainfunction :: "rc_env \<Rightarrow> rc_ctl \<times> rc_world \<Rightarrow> rc_ctl \<times> rc_world" where
  "PP_sunroofctrl_mainfunction e = (\<lambda>(c, w). case c_st c of
     CT_IDLE \<Rightarrow>
       if c_req c then
         (c\<lparr>c_success := False, c_st := CT_REQSTART, c_req := False\<rparr>,
          if c_style c = RMTCTRL_TSP then PP_rmtCtrl_StInformTsp e (rc_status c (Some (c_expTime c)) 1 0) w else w)
       else (c, w)
   | CT_REQSTART \<Rightarrow>
       (c\<lparr>c_st := CT_RESPWAIT, c_wait := e_now e\<rparr>,
        if c_cmd c = PP_SUNROOFOPEN then PP_can_send_data PP_CAN_SUNROOF CAN_SUNROOFOPEN 0 w
        else if c_cmd c = PP_SUNROOFCLOSE then PP_can_send_data PP_CAN_SUNSHADE CAN_SUNSHADECLOSE 0 w
        else if c_cmd c = PP_SUNROOFUPWARP then PP_can_send_data PP_CAN_SUNROOF CAN_SUNROOFUP 0 w
        else PP_can_send_data PP_CAN_SUNROOF CAN_SUNROOFSTOP 0 w)
   | CT_RESPWAIT \<Rightarrow>
       if 320 < e_now e - c_wait c then
         (let w = PP_can_send_data PP_CAN_SUNROOF CAN_SUNROOFCLEAN 0
                    (PP_can_send_data PP_CAN_SUNSHADE CAN_SUNSHADECLEAN 0 w);
              wait = (\<lambda>goal typ clean.
                if e_now e - c_wait c < 35000
                then (if e_sunroofSt e = goal then (c\<lparr>c_success := True, c_st := CT_END\<rparr>, w) else (c, w))
                else (c\<lparr>c_failtype := PP_RMTCTRL_TIMEOUTFAIL, c_success := False, c_st := CT_END\<rparr>,
                      PP_can_send_data typ clean 0 w))
          in if c_cmd c = PP_SUNROOFOPEN then wait 4 PP_CAN_SUNROOF CAN_SUNROOFCLEAN
             else if c_cmd c = PP_SUNROOFCLOSE then wait 2 PP_CAN_SUNSHADE CAN_SUNSHADECLEAN
             else if c_cmd c = PP_SUNROOFUPWARP then wait 0 PP_CAN_SUNROOF CAN_SUNROOFCLEAN
             else (c, w))
       else (c, w)
   | CT_END \<Rightarrow>
       (c\<lparr>c_st := CT_IDLE\<rparr>,
        rc_clear_lock PP_LOCK_VEHICTRL_SUNROOF
          (if c_style c = RMTCTRL_TSP
           then PP_rmtCtrl_StInformTsp e (rc_status c (Some (c_expTime c)) (if c_success c then 2 else 3)
                  (if c_success c then 0 else c_failtype c)) w
           else if c_style c = RMTCTRL_BLUETOOTH
           then PP_rmtCtrl_inform_tb e BT_PANORAMIC_SUNROOF_RESP (c_cmd c) (c_success c) w
           else w)))"

definition sunroof_cmd :: "int \<Rightarrow> u8" where
  "sunroof_cmd t = (if t = PP_RMTCTRL_PNRSUNROOFOPEN then PP_SUNROOFOPEN
     else if t = PP_RMTCTRL_PNRSUNROOFCLOSE then PP_SUNROOFCLOSE
     else if t = PP_RMTCTRL_PNRSUNROOFUPWARP then PP_SUNROOFUPWARP else PP_SUNROOFSTOP)"

definition SetPP_sunroofctrl_Request :: "rc_request \<Rightarrow> rc_ctl \<times> rc_world \<Rightarrow> int \<times> rc_ctl \<times> rc_world" where
  "SetPP_sunroofctrl_Request q = rc_locked PP_LOCK_VEHICTRL_SUNROOF (\<lambda>(c, w). (case q of
     TspReq t ps ev ex \<Rightarrow> c\<lparr>c_reqType := t, c_expTime := ex, c_cmd := sunroof_cmd t, c_req := True,
       c_eventId := ev, c_style := RMTCTRL_TSP\<rparr>
   | BtReq cmd \<Rightarrow> c\<lparr>c_cmd := (if cmd = 1 then PP_SUNROOFOPEN else if cmd = 2 then PP_SUNROOFCLOSE
         else if cmd = 3 then PP_SUNROOFUPWARP else PP_SUNROOFSTOP),
       c_req := True, c_style := RMTCTRL_BLUETOOTH\<rparr>
   | _ \<Rightarrow> c, w))"

definition PP_sunroofctrl_start :: "rc_ctl \<Rightarrow> bool" where "PP_sunroofctrl_start c = c_req c"

definition PP_sunroofctrl_end :: "rc_ctl \<Rightarrow> bool" where
  "PP_sunroofctrl_end c = (c_st c = CT_IDLE \<and> \<not> c_req c)"

definition PP_sunroofctrl_ClearStatus :: "rc_ctl \<times> rc_world \<Rightarrow> rc_ctl \<times> rc_world" where
  "PP_sunroofctrl_ClearStatus = (\<lambda>(c, w). (c\<lparr>c_req := False\<rparr>, rc_clear_lock PP_LOCK_VEHICTRL_SUNROOF w))"

definition PP_sunroofctrl_SetCtrlReq :: "int \<Rightarrow> rc_ctl \<Rightarrow> rc_ctl" where
  "PP_sunroofctrl_SetCtrlReq t c = c\<lparr>c_reqType := t, c_cmd := sunroof_cmd t, c_req := True, c_style := RMTCTRL_TSP\<rparr>"

section \<open>Start prohibition\<close>

abbreviation (input) "PP_RMTCTRL_BANSTART \<equiv> 0x900 :: int"
abbreviation (input) "PP_STARTFORBID_OPEN \<equiv> 2 :: u8"
abbreviation (input) "PP_STARTFORBID_CLOSE \<equiv> 1 :: u8"

definition rc_set_forbiden :: "rc_env \<Rightarrow> u8 \<Rightarrow> rc_world \<Rightarrow> rc_world" where
  "rc_set_forbiden e v w = (if e_cfgOk e then w\<lparr>w_forbiden := Some v\<rparr> else w)"

text \<open>A request while the vehicle is on is stored and answered as failed. The reports of this module leave the
  expiry unset, the last one zero (\<^verbatim>\<open>memset\<close>).\<close>

definition PP_startforbid_mainfunction :: "rc_env \<Rightarrow> rc_ctl \<times> rc_world \<Rightarrow> rc_ctl \<times> rc_world" where
  "PP_startforbid_mainfunction e = (\<lambda>(c, w). case c_st c of
     CT_IDLE \<Rightarrow>
       if c_req c then
         (if e_vehicleState e = 0 then
            (c\<lparr>c_success := False, c_st := CT_REQSTART, c_req := False\<rparr>,
             if c_style c = RMTCTRL_TSP then PP_rmtCtrl_StInformTsp e (rc_status c None 1 0) w else w)
          else (c\<lparr>c_success := False, c_failtype := PP_RMTCTRL_ACCNOOFF, c_st := CT_END, c_req := False\<rparr>,
                rc_set_forbiden e (c_cmd c) w))
       else (c, w)
   | CT_REQSTART \<Rightarrow>
       (c\<lparr>c_st := CT_RESPWAIT, c_wait := e_now e\<rparr>,
        if c_cmd c = PP_STARTFORBID_OPEN then PP_can_send_data PP_CAN_FORBID CAN_STARTFORBID 0 w
        else if c_cmd c = PP_STARTFORBID_CLOSE then PP_can_send_data PP_CAN_FORBID CAN_NOFORBID 0 w else w)
   | CT_RESPWAIT \<Rightarrow>
       if 200 < e_now e - c_wait c then
         (if e_now e - c_wait c < 2000 then
            (if c_cmd c = PP_STARTFORBID_OPEN \<and> e_cancelEngiSt e = 1
               \<or> c_cmd c = PP_STARTFORBID_CLOSE \<and> e_cancelEngiSt e = 0
             then (c\<lparr>c_success := True, c_st := CT_END\<rparr>, PP_can_send_data PP_CAN_FORBID CAN_FORBIDCLEAN 0 w)
             else (c, w))
          else (c\<lparr>c_failtype := PP_RMTCTRL_TIMEOUTFAIL, c_success := False, c_st := CT_END\<rparr>,
                PP_can_send_data PP_CAN_FORBID CAN_FORBIDCLEAN 0 w))
       else (c, w)
   | CT_END \<Rightarrow>
       (c\<lparr>c_st := CT_IDLE\<rparr>,
        rc_clear_lock PP_LOCK_VEHICTRL_FORBIDSTART
          (if c_style c = RMTCTRL_TSP
           then PP_rmtCtrl_StInformTsp e (rc_status c (Some 0) (if c_success c then 2 else 3)
                  (if c_success c then 0 else c_failtype c)) (if c_success c then rc_set_forbiden e 0 w else w)
           else w)))"

definition SetPP_startforbid_Request :: "rc_request \<Rightarrow> rc_ctl \<times> rc_world \<Rightarrow> int \<times> rc_ctl \<times> rc_world" where
  "SetPP_startforbid_Request q = rc_locked PP_LOCK_VEHICTRL_FORBIDSTART (\<lambda>(c, w). (case q of
     TspReq t ps ev ex \<Rightarrow> c\<lparr>c_reqType := t, c_req := True,
       c_cmd := (if t = PP_RMTCTRL_BANSTART then PP_STARTFORBID_OPEN else PP_STARTFORBID_CLOSE),
       c_eventId := ev, c_style := RMTCTRL_TSP\<rparr>
   | _ \<Rightarrow> c, w))"

definition PP_startforbid_start :: "rc_ctl \<Rightarrow> bool" where "PP_startforbid_start c = c_req c"

definition PP_startforbid_end :: "rc_ctl \<Rightarrow> bool" where
  "PP_startforbid_end c = (c_st c = CT_IDLE \<and> \<not> c_req c)"

text \<open>The stored prohibition becomes a request as soon as the vehicle is off, without the lock.\<close>

definition PP_startforbid_acStMonitor :: "rc_env \<Rightarrow> rc_ctl \<times> rc_world \<Rightarrow> rc_ctl \<times> rc_world" where
  "PP_startforbid_acStMonitor e = (\<lambda>(c, w).
    (if e_vehicleState e = 0 \<and> w_forbiden w = Some PP_STARTFORBID_OPEN
     then c\<lparr>c_req := True, c_cmd := PP_STARTFORBID_OPEN\<rparr>
     else if e_vehicleState e = 0 \<and> w_forbiden w = Some PP_STARTFORBID_CLOSE
     then c\<lparr>c_req := True, c_cmd := PP_STARTFORBID_CLOSE\<rparr>
     else c, w))"

definition PP_startforbid_ClearStatus :: "rc_ctl \<times> rc_world \<Rightarrow> rc_ctl \<times> rc_world" where
  "PP_startforbid_ClearStatus = (\<lambda>(c, w). (c\<lparr>c_req := False\<rparr>, rc_clear_lock PP_LOCK_VEHICTRL_FORBIDSTART w))"

definition PP_startforbid_SetCtrlReq :: "int \<Rightarrow> rc_ctl \<Rightarrow> rc_ctl" where
  "PP_startforbid_SetCtrlReq t c = c\<lparr>c_reqType := t, c_req := True,
     c_cmd := (if t = PP_RMTCTRL_BANSTART then PP_STARTFORBID_OPEN else PP_STARTFORBID_CLOSE), c_style := RMTCTRL_TSP\<rparr>"

section \<open>Camera\<close>

definition PP_CameraCtr_mainfunction :: "rc_env \<Rightarrow> rc_ctl \<times> rc_world \<Rightarrow> rc_ctl \<times> rc_world" where
  "PP_CameraCtr_mainfunction e = (\<lambda>(c, w).
    (c\<lparr>c_req := False\<rparr>,
     if c_req c
     then rc_clear_lock PP_LOCK_VEHICTRL_CAMERA
       (PP_rmtCtrl_StInformTsp e (rc_status c (Some (c_expTime c)) 2 0) (rc_emit (InformHU (c_eventId c)) w))
     else w))"

definition SetPP_CameraCtrl_Request :: "rc_request \<Rightarrow> rc_ctl \<times> rc_world \<Rightarrow> int \<times> rc_ctl \<times> rc_world" where
  "SetPP_CameraCtrl_Request q = rc_locked PP_LOCK_VEHICTRL_CAMERA (\<lambda>(c, w). (case q of
     TspReq t ps ev ex \<Rightarrow> c\<lparr>c_reqType := t, c_expTime := ex, c_req := True, c_eventId := ev, c_style := RMTCTRL_TSP\<rparr>
   | _ \<Rightarrow> c, w))"

definition PP_CameraCtrl_start :: "rc_ctl \<Rightarrow> bool" where "PP_CameraCtrl_start c = c_req c"
definition PP_CameraCtrl_end :: "rc_ctl \<Rightarrow> bool" where "PP_CameraCtrl_end c = (\<not> c_req c)"

definition PP_CameraCtrl_ClearStatus :: "rc_ctl \<times> rc_world \<Rightarrow> rc_ctl \<times> rc_world" where
  "PP_CameraCtrl_ClearStatus = (\<lambda>(c, w). (c\<lparr>c_req := False\<rparr>, rc_clear_lock PP_LOCK_VEHICTRL_CAMERA w))"

definition PP_CameraCtrl_SetCtrlReq :: "int \<Rightarrow> rc_ctl \<Rightarrow> rc_ctl" where
  "PP_CameraCtrl_SetCtrlReq t c = c\<lparr>c_reqType := t, c_req := True, c_style := RMTCTRL_TSP\<rparr>"

section \<open>One-button start over Bluetooth\<close>

definition PP_bluetoothstart_mainfunction :: "rc_env \<Rightarrow> rc_ctl \<times> rc_world \<Rightarrow> rc_ctl \<times> rc_world" where
  "PP_bluetoothstart_mainfunction e = (\<lambda>(c, w). case c_st c of
     CT_IDLE \<Rightarrow>
       if c_req c then
         (c\<lparr>c_success := False, c_req := False,
            c_st := (if 15 < PP_rmtCtrl_cfg_vehicleSOC e \<and> e_vehicleState e = 0 then CT_REQSTART else CT_END)\<rparr>, w)
       else (c, w)
   | CT_REQSTART \<Rightarrow>
       (c\<lparr>c_st := CT_RESPWAIT, c_wait := e_now e\<rparr>,
        if c_cmd c = 2 then PP_can_send_data PP_CAN_BLUESTART CAN_BLUESTART 0 w else w)
   | CT_RESPWAIT \<Rightarrow>
       if 200 < e_now e - c_wait c then
         (if e_now e - c_wait c < 2000 then
            (if c_cmd c = 2 \<and> e_BleStartSt e = 2
             then (c\<lparr>c_success := True, c_st := CT_END\<rparr>, PP_can_send_data PP_CAN_BLUESTART CAN_BLUECLEAN 0 w)
             else (c, w))
          else (c\<lparr>c_success := False, c_st := CT_END\<rparr>, PP_can_send_data PP_CAN_BLUESTART CAN_BLUECLEAN 0 w))
       else (c, w)
   | CT_END \<Rightarrow>
       (c\<lparr>c_st := CT_IDLE\<rparr>,
        rc_clear_lock PP_LOCK_VEHICTRL_RMTSTART
          (PP_rmtCtrl_inform_tb e BT_POWER_CONTROL_RESP (c_cmd c) (c_success c) w)))"

definition SetPP_bluetoothstart_Request :: "rc_request \<Rightarrow> rc_ctl \<times> rc_world \<Rightarrow> int \<times> rc_ctl \<times> rc_world" where
  "SetPP_bluetoothstart_Request q = rc_locked PP_LOCK_VEHICTRL_RMTSTART (\<lambda>(c, w). (case q of
     BtReq cmd \<Rightarrow> c\<lparr>c_cmd := (if cmd = 2 then 2 else c_cmd c), c_req := True, c_style := RMTCTRL_BLUETOOTH\<rparr>
   | _ \<Rightarrow> c, w))"

definition PP_bluetoothstart_start :: "rc_ctl \<Rightarrow> bool" where "PP_bluetoothstart_start c = c_req c"

definition PP_bluetoothstart_end :: "rc_ctl \<Rightarrow> bool" where
  "PP_bluetoothstart_end c = (c_st c = CT_IDLE \<and> \<not> c_req c)"

definition PP_bluetoothstart_ClearStatus :: "rc_ctl \<times> rc_world \<Rightarrow> rc_ctl \<times> rc_world" where
  "PP_bluetoothstart_ClearStatus = (\<lambda>(c, w). (c\<lparr>c_req := False\<rparr>, rc_clear_lock PP_LOCK_VEHICTRL_RMTSTART w))"

definition PP_bluetoothstart_SetCtrlReq :: "rc_ctl \<Rightarrow> rc_ctl" where
  "PP_bluetoothstart_SetCtrlReq c = c\<lparr>c_cmd := 2, c_req := True, c_style := RMTCTRL_BLUETOOTH\<rparr>"

end
