(* ===== verification/RcPower.thy ===== *)
theory RcPower
  imports RcCtrl
begin

text \<open>
  High voltage, air conditioning and seat heating: \<^verbatim>\<open>PP_StartEngine.c\<close>, \<^verbatim>\<open>PP_ACCtrl.c\<close>, \<^verbatim>\<open>PP_SeatHeating.c\<close>. The
  air conditioning and the seats ask for high voltage with a flag each (0 nothing, 1 on, 2 off) and wait until the
  power module reports success or failure; the power module clears the flags. The three share the state
  \<open>rc_pwr\<close>. The shell command of the air conditioning is left out.
\<close>

section \<open>State\<close>

text \<open>\<^verbatim>\<open>PP_rmtAC_AppointBook_t\<close>; \<^verbatim>\<open>bookupdataflag\<close> is never set.\<close>

record ac_booking =
  b_validFlg :: bool
  b_id :: u32
  b_hour :: u8
  b_min :: u8
  b_period :: u8
  b_eventId :: u8

text \<open>\<open>p_eng\<close> holds \<^verbatim>\<open>PP_rmtengineCtrl\<close>, \<^verbatim>\<open>start_engine_stage\<close> as \<open>c_st\<close> and \<^verbatim>\<open>enginecation\<close> as \<open>c_cmd\<close>; \<open>p_flag\<close> is
  \<^verbatim>\<open>startengine_success_flag\<close>: 1 on, 2 off, 3 failed.\<close>

record rc_pwr =
  p_eng :: rc_ctl
  p_flag :: nat
  p_time :: u64
  p_ac :: rc_ctl
  p_ac_fail :: bool
  p_ac_flag :: nat
  p_ac_remote_on :: bool
  p_ac_temp :: u8
  p_ac_book :: "ac_booking list"
  p_ac_bookingId :: int
  p_ac_dataUpdata :: bool
  p_ac_sleep :: bool
  p_ac_perform :: bool
  p_ac_delay :: u64
  p_seat0 :: rc_ctl
  p_seat1 :: rc_ctl
  p_level0 :: u8
  p_level1 :: u8
  p_seat_flag :: nat
  p_seat_sleep :: bool

definition ac_book_init :: "ac_booking list" where
  "ac_book_init = replicate 10
     \<lparr>b_validFlg = False, b_id = 0, b_hour = 0, b_min = 0, b_period = 0, b_eventId = 0\<rparr>"

definition rc_pwr_init :: rc_pwr where
  "rc_pwr_init = \<lparr>p_eng = rc_ctl_init\<lparr>c_eventId := 0\<rparr>, p_flag = 0, p_time = 0, p_ac = rc_ctl_init\<lparr>c_expTime := - 1\<rparr>,
     p_ac_fail = False, p_ac_flag = 0, p_ac_remote_on = False, p_ac_temp = 16, p_ac_book = ac_book_init,
     p_ac_bookingId = 0, p_ac_dataUpdata = False, p_ac_sleep = False, p_ac_perform = False, p_ac_delay = 0,
     p_seat0 = rc_ctl_init, p_seat1 = rc_ctl_init, p_level0 = 0, p_level1 = 0, p_seat_flag = 0,
     p_seat_sleep = False\<rparr>"

definition p_clear_flags :: "rc_pwr \<Rightarrow> rc_pwr" where "p_clear_flags p = p\<lparr>p_seat_flag := 0, p_ac_flag := 0\<rparr>"

definition PP_ACCtrl_ClearStatus :: "rc_pwr \<times> rc_world \<Rightarrow> rc_pwr \<times> rc_world" where
  "PP_ACCtrl_ClearStatus = (\<lambda>(p, w). (p\<lparr>p_ac := (p_ac p)\<lparr>c_req := False\<rparr>\<rparr>, rc_clear_lock PP_LOCK_VEHICTRL_AC w))"

definition PP_seatheating_ClearStatus :: "rc_pwr \<times> rc_world \<Rightarrow> rc_pwr \<times> rc_world" where
  "PP_seatheating_ClearStatus = (\<lambda>(p, w).
     (p\<lparr>p_seat0 := (p_seat0 p)\<lparr>c_req := False\<rparr>, p_seat1 := (p_seat1 p)\<lparr>c_req := False\<rparr>\<rparr>,
      rc_clear_lock PP_LOCK_VEHICTRL_SEAT w))"

section \<open>High voltage\<close>

abbreviation (input) "PP_POWERON \<equiv> 2 :: u8"
abbreviation (input) "PP_POWEROFF \<equiv> 1 :: u8"
abbreviation (input) "PP_RMTCTRL_POWERON \<equiv> 0x800 :: int"
abbreviation (input) "PP_RMTCTRL_POWEROFF \<equiv> 0x801 :: int"

text \<open>The two halves of the idle state, executed one after the other.\<close>

definition startengine_idle_on :: "rc_env \<Rightarrow> rc_pwr \<times> rc_world \<Rightarrow> rc_pwr \<times> rc_world" where
  "startengine_idle_on e = (\<lambda>(p, w).
    if c_req (p_eng p) \<and> c_cmd (p_eng p) = PP_POWERON \<or> p_seat_flag p = 1 \<or> p_ac_flag p = 1 then
      (if e_RmtStartSt e = 0 then
         (if 15 < PP_rmtCtrl_cfg_vehicleSOC e \<and> e_vehicleState e = 0 then
            (p\<lparr>p_eng := (p_eng p)\<lparr>c_st := CT_REQSTART, c_cmd := PP_POWERON\<rparr>, p_flag := 0\<rparr>,
             if c_style (p_eng p) = RMTCTRL_TSP then PP_rmtCtrl_StInformTsp e (rc_status (p_eng p) None 1 0) w else w)
          else
            ((p_clear_flags p)\<lparr>p_eng := (p_eng p)\<lparr>c_failtype := PP_RMTCTRL_ACCNOOFF, c_st := CT_END\<rparr>, p_flag := 3\<rparr>, w))
       else ((p_clear_flags p)\<lparr>p_flag := 1, p_time := e_now e, p_eng := (p_eng p)\<lparr>c_st := CT_END\<rparr>\<rparr>, w))
    else (p, w))"

definition startengine_idle_off :: "rc_env \<Rightarrow> rc_pwr \<times> rc_world \<Rightarrow> rc_pwr \<times> rc_world" where
  "startengine_idle_off e = (\<lambda>(p, w).
    if c_req (p_eng p) \<and> c_cmd (p_eng p) = PP_POWEROFF then
      (if e_RmtStartSt e = 1 then
         (p\<lparr>p_eng := (p_eng p)\<lparr>c_st := CT_REQSTART\<rparr>, p_flag := 0\<rparr>,
          if c_style (p_eng p) = RMTCTRL_TSP then PP_rmtCtrl_StInformTsp e (rc_status (p_eng p) None 1 0) w else w)
       else ((p_clear_flags p)\<lparr>p_eng := (p_eng p)\<lparr>c_st := CT_END\<rparr>, p_flag := 1\<rparr>, w))
    else (p, w))"

definition PP_startengine_mainfunction :: "rc_env \<Rightarrow> rc_pwr \<times> rc_world \<Rightarrow> rc_pwr \<times> rc_world" where
  "PP_startengine_mainfunction e = (\<lambda>(p, w). let c = p_eng p in case c_st c of
     CT_IDLE \<Rightarrow>
       (let (p, w) = startengine_idle_off e (startengine_idle_on e (p, w))
        in (p\<lparr>p_eng := (p_eng p)\<lparr>c_req := False\<rparr>\<rparr>, w))
   | CT_REQSTART \<Rightarrow>
       (p\<lparr>p_eng := c\<lparr>c_st := CT_RESPWAIT, c_wait := e_now e\<rparr>\<rparr>,
        if c_cmd c = PP_POWERON then PP_can_send_data PP_CAN_ENGINE CAN_STARTENGINE 0 w
        else if e_RmtStartSt e = 1 then PP_can_send_data PP_CAN_ENGINE CAN_CLOSEENGINE 0 w else w)
   | CT_RESPWAIT \<Rightarrow>
       if 200 < e_now e - c_wait c then
         (if e_now e - c_wait c < 2000 then
            (if c_cmd c = PP_POWERON then
               (if e_RmtStartSt e = 1 then
                  ((p_clear_flags p)\<lparr>p_time := e_now e, p_flag := 1, p_eng := c\<lparr>c_st := CT_END\<rparr>\<rparr>,
                   PP_can_send_data PP_CAN_ENGINE CAN_ENGINECLEAN 0 w)
                else (p, w))
             else
               (if e_RmtStartSt e = 0 then
                  ((p_clear_flags p)\<lparr>p_ac_remote_on := False, p_flag := 2, p_eng := c\<lparr>c_st := CT_END\<rparr>\<rparr>,
                   PP_can_send_data PP_CAN_ENGINE CAN_ENGINECLEAN 0 w)
                else (p, w)))
          else
            (let (p, w) = PP_ACCtrl_ClearStatus (PP_seatheating_ClearStatus
                   (p, PP_can_send_data PP_CAN_ENGINE CAN_ENGINECLEAN 0 w))
             in ((p_clear_flags p)\<lparr>p_flag := 3, p_eng := c\<lparr>c_failtype := PP_RMTCTRL_TIMEOUTFAIL, c_st := CT_END\<rparr>\<rparr>, w)))
       else (p, w)
   | CT_END \<Rightarrow>
       (p\<lparr>p_eng := c\<lparr>c_st := CT_IDLE\<rparr>\<rparr>,
        rc_clear_lock PP_LOCK_VEHICTRL_ENGINE
          (if c_style c = RMTCTRL_TSP
           then PP_rmtCtrl_StInformTsp e
             (RVCSTATUSRESP (if c_cmd c = PP_POWERON then PP_RMTCTRL_POWERON else PP_RMTCTRL_POWEROFF) (c_eventId c) None
                (if p_flag p = 1 \<or> p_flag p = 2 then 2 else 3)
                (if p_flag p = 1 \<or> p_flag p = 2 then 0 else c_failtype c)) w
           else w)))"

definition PP_get_powerst :: "rc_env \<Rightarrow> rc_pwr \<Rightarrow> nat" where
  "PP_get_powerst e p = (if p_flag p = 1 \<or> e_RmtStartSt e = 1 then 1 else p_flag p)"

definition PP_startengine_start :: "rc_pwr \<Rightarrow> bool" where "PP_startengine_start p = c_req (p_eng p)"

definition PP_startengine_end :: "rc_pwr \<Rightarrow> bool" where
  "PP_startengine_end p = (c_st (p_eng p) = CT_IDLE \<and> \<not> c_req (p_eng p))"

definition SetPP_startengine_Request :: "rc_request \<Rightarrow> rc_pwr \<times> rc_world \<Rightarrow> int \<times> rc_pwr \<times> rc_world" where
  "SetPP_startengine_Request q = rc_locked PP_LOCK_VEHICTRL_ENGINE (\<lambda>(p, w). (case q of
     TspReq t ps ev ex \<Rightarrow> p\<lparr>p_eng := (p_eng p)\<lparr>c_reqType := t, c_req := True,
       c_cmd := (if t = PP_RMTCTRL_POWERON then PP_POWERON else PP_POWEROFF),
       c_eventId := ev, c_style := RMTCTRL_TSP\<rparr>\<rparr>
   | _ \<Rightarrow> p, w))"

definition PP_startengine_ClearStatus :: "rc_pwr \<times> rc_world \<Rightarrow> rc_pwr \<times> rc_world" where
  "PP_startengine_ClearStatus = (\<lambda>(p, w).
     ((p_clear_flags p)\<lparr>p_eng := (p_eng p)\<lparr>c_req := False\<rparr>\<rparr>, rc_clear_lock PP_LOCK_VEHICTRL_ENGINE w))"

definition PP_startengine_SetCtrlReq :: "int \<Rightarrow> rc_pwr \<Rightarrow> rc_pwr" where
  "PP_startengine_SetCtrlReq t p = p\<lparr>p_eng := (p_eng p)\<lparr>c_reqType := t, c_req := True,
     c_cmd := (if t = PP_RMTCTRL_POWERON then PP_POWERON else PP_POWEROFF), c_style := RMTCTRL_TSP\<rparr>\<rparr>"

section \<open>Air conditioning\<close>

abbreviation (input) "PP_OPEN_ACC \<equiv> 1 :: u8"
abbreviation (input) "PP_CLOSE_ACC \<equiv> 2 :: u8"
abbreviation (input) "PP_SETH_ACC \<equiv> 3 :: u8"
abbreviation (input) "PP_RMTCTRL_ACOPEN \<equiv> 0x600 :: int"
abbreviation (input) "PP_RMTCTRL_ACCLOSE \<equiv> 0x601 :: int"
abbreviation (input) "PP_RMTCTRL_ACAPPOINTOPEN \<equiv> 0x602 :: int"
abbreviation (input) "PP_RMTCTRL_ACCANCELAPPOINT \<equiv> 0x603 :: int"
abbreviation (input) "PP_RMTCTRL_SETTEMP \<equiv> 0x604 :: int"

definition ac_idle :: "rc_env \<Rightarrow> rc_pwr \<times> rc_world \<Rightarrow> rc_pwr \<times> rc_world" where
  "ac_idle e = (\<lambda>(p, w). let c = p_ac p in
    if \<not> c_req c then (p, w)
    else if PP_get_powerst e p = 1 then
      (p\<lparr>p_ac := c\<lparr>c_req := (c_style c \<noteq> RMTCTRL_TSP \<and> c_style c \<noteq> RMTCTRL_TBOX), c_st := CT_REQSTART\<rparr>\<rparr>,
       if c_style c = RMTCTRL_TSP then PP_rmtCtrl_StInformTsp e (rc_status c None 1 0) w else w)
    else if PP_get_powerst e p = 3 then
      (p\<lparr>p_ac_fail := False, p_ac := c\<lparr>c_st := CT_END, c_failtype := PP_RMTCTRL_UPPOWERFAIL, c_req := False\<rparr>\<rparr>, w)
    else if c_cmd c = PP_CLOSE_ACC then (p\<lparr>p_ac := c\<lparr>c_req := False, c_st := CT_END\<rparr>\<rparr>, w)
    else (p, w))"

definition ac_reqstart :: "rc_env \<Rightarrow> rc_pwr \<times> rc_world \<Rightarrow> rc_pwr \<times> rc_world" where
  "ac_reqstart e = (\<lambda>(p, w). let c = p_ac p; p' = p\<lparr>p_ac := c\<lparr>c_st := CT_RESPWAIT, c_wait := e_now e\<rparr>\<rparr> in
    if c_cmd c = PP_OPEN_ACC then (p', PP_can_send_data PP_CAN_ACCTRL CAN_OPENACC 0 w)
    else if c_cmd c = PP_CLOSE_ACC then (p', PP_can_send_data PP_CAN_ACCTRL CAN_CLOSEACC 0 w)
    else if c_cmd c = PP_SETH_ACC
    then (p', PP_can_send_data PP_CAN_ACCTRL CAN_SETACCTEP ((p_ac_temp p - 16) * 2) w)
    else (p, w))"

definition ac_respwait :: "rc_env \<Rightarrow> rc_pwr \<times> rc_world \<Rightarrow> rc_pwr \<times> rc_world" where
  "ac_respwait e = (\<lambda>(p, w). let c = p_ac p; t = e_now e - c_wait c;
      failed = c\<lparr>c_failtype := PP_RMTCTRL_TIMEOUTFAIL, c_st := CT_END\<rparr> in
    if \<not> 200 < t then (p, w)
    else if c_cmd c = PP_OPEN_ACC then
      (if t < 2000 then
         (if e_ACOnOffSt e = 1 then (p\<lparr>p_ac_remote_on := True, p_ac_fail := False, p_ac := c\<lparr>c_st := CT_END\<rparr>\<rparr>, w)
          else (p, w))
       else (p\<lparr>p_ac_flag := 2, p_ac_fail := True, p_ac := failed\<rparr>, PP_can_send_data PP_CAN_ACCTRL CAN_OPNEACCFIAL 0 w))
    else if c_cmd c = PP_CLOSE_ACC then
      (if t < 2000 then
         (if e_ACOnOffSt e = 0 then
            (p\<lparr>p_ac_fail := False, p_ac_flag := 2, p_ac := c\<lparr>c_st := CT_END\<rparr>\<rparr>,
             PP_can_send_data PP_CAN_ACCTRL CAN_CLOSEACCCLEAN 0 (PP_can_send_data PP_CAN_ACCTRL CAN_ACCMD_INVAILD 0 w))
          else (p, w))
       else (p\<lparr>p_ac_flag := 2, p_ac_fail := True, p_ac := failed\<rparr>, PP_can_send_data PP_CAN_ACCTRL CAN_CLOSEACCCLEAN 0 w))
    else if c_cmd c = PP_SETH_ACC then
      (if t < 2000 then
         (if PP_rmtCtrl_cfg_LHTemp e = p_ac_temp p then (p\<lparr>p_ac := c\<lparr>c_st := CT_END\<rparr>\<rparr>, w) else (p, w))
       else (p\<lparr>p_ac_fail := True, p_ac := failed\<rparr>, w))
    else (p, w))"

definition ac_end :: "rc_env \<Rightarrow> rc_pwr \<times> rc_world \<Rightarrow> rc_pwr \<times> rc_world" where
  "ac_end e = (\<lambda>(p, w). let c = p_ac p in
    (p\<lparr>p_ac := c\<lparr>c_st := CT_IDLE\<rparr>\<rparr>,
     rc_clear_lock PP_LOCK_VEHICTRL_AC
       (if c_style c = RMTCTRL_TSP
        then PP_rmtCtrl_StInformTsp e (rc_status c (Some 0) (if p_ac_fail p then 3 else 2)
               (if p_ac_fail p then c_failtype c else 0)) w
        else if c_style c = RMTCTRL_TBOX
        then PP_rmtCtrl_StInformTsp e (RVCBOOKINGRESP (c_eventId c) (Some 0) (p_ac_bookingId p)
               (Some (if p_ac_fail p then 0x611 else 0x610))) w
        else w)))"

definition PP_ACCtrl_mainfunction :: "rc_env \<Rightarrow> rc_pwr \<times> rc_world \<Rightarrow> rc_pwr \<times> rc_world" where
  "PP_ACCtrl_mainfunction e = (\<lambda>(p, w). case c_st (p_ac p) of
     CT_IDLE \<Rightarrow> ac_idle e (p, w)
   | CT_REQSTART \<Rightarrow> ac_reqstart e (p, w)
   | CT_RESPWAIT \<Rightarrow> ac_respwait e (p, w)
   | CT_END \<Rightarrow> ac_end e (p, w))"

definition PP_ACCtrl_start :: "rc_pwr \<Rightarrow> bool" where "PP_ACCtrl_start p = c_req (p_ac p)"

definition PP_ACCtrl_end :: "rc_pwr \<Rightarrow> bool" where
  "PP_ACCtrl_end p = (c_st (p_ac p) = CT_IDLE \<and> \<not> c_req (p_ac p))"

text \<open>The first free record, and whether a valid record has the identifier.\<close>

definition PP_ACC_Appoint_invalid :: "ac_booking list \<Rightarrow> nat option" where
  "PP_ACC_Appoint_invalid bk = find (\<lambda>i. \<not> b_validFlg (bk ! i)) [0..<length bk]"

definition PP_ACC_Id_invalid :: "u32 \<Rightarrow> ac_booking list \<Rightarrow> bool" where
  "PP_ACC_Id_invalid i bk = list_ex (\<lambda>b. b_validFlg b \<and> b_id b = i) bk"

definition appoint_id :: "bytes \<Rightarrow> u32" where
  "appoint_id ps = push_bit 24 (ucast (ps ! 0)) OR push_bit 16 (ucast (ps ! 1)) OR push_bit 8 (ucast (ps ! 2))
     OR ucast (ps ! 3)"

definition ac_tsp_command :: "int \<Rightarrow> bytes \<Rightarrow> rc_pwr \<Rightarrow> rc_pwr" where
  "ac_tsp_command t ps p =
    (let c = p_ac p in
     if c_st c = CT_IDLE \<and> \<not> c_req c then
       p\<lparr>p_ac := c\<lparr>c_req := True, c_reqType := t, c_style := RMTCTRL_TSP,
           c_cmd := (if t = PP_RMTCTRL_ACOPEN then PP_OPEN_ACC else if t = PP_RMTCTRL_ACCLOSE then PP_CLOSE_ACC
             else PP_SETH_ACC)\<rparr>,
         p_ac_temp := (if t = PP_RMTCTRL_ACOPEN \<or> t = PP_RMTCTRL_ACCLOSE then p_ac_temp p else ps ! 0),
         p_ac_flag := (if t = PP_RMTCTRL_ACOPEN then 1 else p_ac_flag p)\<rparr>
     else p)"

definition ac_tsp_appoint ::
    "rc_env \<Rightarrow> int \<Rightarrow> bytes \<Rightarrow> int \<Rightarrow> int \<Rightarrow> rc_pwr \<times> rc_world \<Rightarrow> rc_pwr \<times> rc_world" where
  "ac_tsp_appoint e t ps ev ex = (\<lambda>(p, w).
    let i = appoint_id ps; say = (\<lambda>st ft. PP_rmtCtrl_StInformTsp e (RVCSTATUSRESP t ev (Some ex) st ft) w) in
    if PP_ACC_Id_invalid i (p_ac_book p) then (p, say 3 8)
    else (p\<lparr>p_ac_dataUpdata := True,
            p_ac_book := (case PP_ACC_Appoint_invalid (p_ac_book p) of
                None \<Rightarrow> p_ac_book p
              | Some k \<Rightarrow> (p_ac_book p)[k := \<lparr>b_validFlg = True, b_id = i, b_hour = ps ! 4, b_min = ps ! 5,
                  b_period = ps ! 6, b_eventId = word_of_int ev\<rparr>])\<rparr>,
          say 2 0))"

text \<open>Every valid record with the identifier is cleared and reported.\<close>

primrec ac_tsp_cancel ::
    "rc_env \<Rightarrow> int \<Rightarrow> u32 \<Rightarrow> int \<Rightarrow> int \<Rightarrow> nat list \<Rightarrow> rc_pwr \<times> rc_world \<Rightarrow> rc_pwr \<times> rc_world" where
  "ac_tsp_cancel e t i ev ex [] s = s"
| "ac_tsp_cancel e t i ev ex (k # ks) s =
    (let b = p_ac_book (fst s) ! k in
     ac_tsp_cancel e t i ev ex ks
       (if b_validFlg b \<and> b_id b = i then
          ((fst s)\<lparr>p_ac_book := (p_ac_book (fst s))[k := b\<lparr>b_validFlg := False\<rparr>], p_ac_dataUpdata := True\<rparr>,
           PP_rmtCtrl_StInformTsp e (RVCSTATUSRESP t ev (Some ex) 2 0) (snd s))
        else s))"

text \<open>The lock is taken for every kind of request and released in \<^verbatim>\<open>PP_ACCTRL_END\<close> only.\<close>

definition SetPP_ACCtrl_Request :: "rc_env \<Rightarrow> rc_request \<Rightarrow> rc_pwr \<times> rc_world \<Rightarrow> int \<times> rc_pwr \<times> rc_world" where
  "SetPP_ACCtrl_Request e q = rc_locked PP_LOCK_VEHICTRL_AC (\<lambda>(p, w). case q of
     TspReq t ps ev ex \<Rightarrow>
       (let p = p\<lparr>p_ac := (p_ac p)\<lparr>c_eventId := ev, c_expTime := ex\<rparr>\<rparr> in
        if t = PP_RMTCTRL_ACOPEN \<or> t = PP_RMTCTRL_ACCLOSE \<or> t = PP_RMTCTRL_SETTEMP then (ac_tsp_command t ps p, w)
        else if t = PP_RMTCTRL_ACAPPOINTOPEN then ac_tsp_appoint e t ps ev ex (p, w)
        else if t = PP_RMTCTRL_ACCANCELAPPOINT then ac_tsp_cancel e t (appoint_id ps) ev ex [0..<10] (p, w)
        else (p, w))
   | TboxReq i \<Rightarrow>
       (let b = p_ac_book p ! i in
        (p\<lparr>p_ac := (p_ac p)\<lparr>c_req := True, c_eventId := uint (b_eventId b), c_cmd := PP_OPEN_ACC,
             c_style := RMTCTRL_TBOX\<rparr>,
           p_ac_bookingId := sint (b_id b), p_ac_flag := 1\<rparr>, w))
   | _ \<Rightarrow> (p, w))"

definition appoint_period :: "nat \<Rightarrow> u8" where
  "appoint_period wd = [0x01, 0x40, 0x20, 0x10, 0x08, 0x04, 0x02] ! wd"

definition ac_monitor_due :: "rc_env \<Rightarrow> nat \<Rightarrow> rc_pwr \<times> rc_world \<Rightarrow> rc_pwr \<times> rc_world" where
  "ac_monitor_due e i = (\<lambda>(p, w). let b = p_ac_book p ! i in
    if \<not> b_validFlg b then (p, w)
    else if b_period b AND 0x80 \<noteq> 0 then
      (if appoint_period (e_week e) AND b_period b \<noteq> 0 then
         (if e_hour e = b_hour b \<and> e_min e = b_min b then
            (let (p, w) = if p_ac_perform p then (p, w)
                          else snd (SetPP_ACCtrl_Request e (TboxReq i) (p\<lparr>p_ac_perform := True\<rparr>, w))
             in (p\<lparr>p_ac_delay := e_now e\<rparr>, w))
          else if 3000 < e_now e - p_ac_delay p then (p\<lparr>p_ac_perform := False\<rparr>, w) else (p, w))
       else (p, w))
    else if e_hour e = b_hour b \<and> e_min e = b_min b then
      (let (p, w) = snd (SetPP_ACCtrl_Request e (TboxReq i) (p, w))
       in (p\<lparr>p_ac_dataUpdata := True, p_ac_book := (p_ac_book p)[i := (p_ac_book p ! i)\<lparr>b_validFlg := False\<rparr>]\<rparr>, w))
    else (p, w))"

definition ac_monitor_step :: "rc_env \<Rightarrow> nat \<Rightarrow> rc_pwr \<times> rc_world \<Rightarrow> rc_pwr \<times> rc_world" where
  "ac_monitor_step e i s =
    (let (p, w) = ac_monitor_due e i s;
         p = p\<lparr>p_ac_sleep := (\<not> c_req (p_ac p) \<and> c_st (p_ac p) = CT_IDLE)\<rparr>
     in if (e_powerOff e \<or> p_ac_sleep p) \<and> p_ac_dataUpdata p
        then (p\<lparr>p_ac_dataUpdata := False\<rparr>, rc_emit SaveAcBook w) else (p, w))"

definition PP_AcCtrl_acStMonitor :: "rc_env \<Rightarrow> rc_pwr \<times> rc_world \<Rightarrow> rc_pwr \<times> rc_world" where
  "PP_AcCtrl_acStMonitor e = fold (ac_monitor_step e) [0..<10]"

definition PP_ACCtrl_cmdoff :: "rc_env \<Rightarrow> rc_pwr \<Rightarrow> bool \<times> rc_pwr" where
  "PP_ACCtrl_cmdoff e p =
    (if e_ACOnOffSt e = 1 then (False, p\<lparr>p_ac := (p_ac p)\<lparr>c_cmd := PP_CLOSE_ACC, c_req := True\<rparr>\<rparr>) else (True, p))"

definition PP_ACCtrl_SetCtrlReq :: "int \<Rightarrow> rc_pwr \<Rightarrow> rc_pwr" where
  "PP_ACCtrl_SetCtrlReq t p = p\<lparr>p_ac := (p_ac p)\<lparr>c_reqType := t, c_req := True\<rparr>\<rparr>"

section \<open>Seat heating\<close>

abbreviation (input) "PP_RMTCTRL_MAINHEATOPEN \<equiv> 0x605 :: int"
abbreviation (input) "PP_RMTCTRL_MAINHEATCLOSE \<equiv> 0x606 :: int"
abbreviation (input) "PP_RMTCTRL_PASSENGERHEATOPEN \<equiv> 0x607 :: int"
abbreviation (input) "PP_RMTCTRL_PASSENGERHEATCLOSE \<equiv> 0x608 :: int"

definition seat_open_cmd :: "nat \<Rightarrow> int" where "seat_open_cmd i = [0x605, 0x607] ! i"
definition seat_para :: "nat \<Rightarrow> u8" where "seat_para i = (if i = 0 then CAN_SEATHEATMAIN else CAN_SEATHEATPASS)"

text \<open>The loop body of \<^verbatim>\<open>PP_seatheating_mainfunction\<close> for seat \<open>i\<close>: its struct, its level (an \<open>int8_t\<close>), the shared
  flag. The end state leaves only for requests of the server.\<close>

definition seat_step ::
    "rc_env \<Rightarrow> nat \<Rightarrow> nat \<Rightarrow> u8 \<Rightarrow> rc_ctl \<times> nat \<times> rc_world \<Rightarrow> rc_ctl \<times> nat \<times> rc_world" where
  "seat_step e powerst i level = (\<lambda>(c, flag, w). case c_st c of
     CT_IDLE \<Rightarrow>
       if \<not> c_req c then (c, flag, w)
       else if powerst = 1 then
         (c\<lparr>c_req := False, c_success := False, c_st := CT_REQSTART\<rparr>, flag,
          if c_style c = RMTCTRL_TSP then PP_rmtCtrl_StInformTsp e (rc_status c (Some (c_expTime c)) 1 0) w else w)
       else if powerst = 3 then
         (c\<lparr>c_failtype := PP_RMTCTRL_UPPOWERFAIL, c_req := False, c_success := False, c_st := CT_END\<rparr>, flag, w)
       else if c_reqType c = PP_RMTCTRL_MAINHEATCLOSE \<or> c_reqType c = PP_RMTCTRL_PASSENGERHEATCLOSE then
         (c\<lparr>c_req := False, c_st := CT_END\<rparr>, flag, w)
       else (c, flag, w)
   | CT_REQSTART \<Rightarrow>
       (c\<lparr>c_st := CT_RESPWAIT, c_wait := e_now e\<rparr>, flag,
        PP_can_send_data PP_CAN_SEATHEAT (if c_reqType c = seat_open_cmd i then level + 1 else 1) (seat_para i) w)
   | CT_RESPWAIT \<Rightarrow>
       if 200 < e_now e - c_wait c then
         (let clean = PP_can_send_data PP_CAN_SEATHEAT CAN_NOREQSEAT (seat_para i) w in
          if e_now e - c_wait c < 2000 then
            (if c_reqType c = seat_open_cmd i then
               (if uint (PP_rmtCtrl_cfg_HeatingSt e i) = sint level
                then (c\<lparr>c_success := True, c_st := CT_END\<rparr>, flag, clean) else (c, flag, w))
             else
               (if PP_rmtCtrl_cfg_HeatingSt e i = 0
                then (c\<lparr>c_success := True, c_st := CT_END\<rparr>, 2, clean) else (c, flag, w)))
          else (c\<lparr>c_failtype := PP_RMTCTRL_TIMEOUTFAIL, c_success := False, c_st := CT_END\<rparr>, 2, clean))
       else (c, flag, w)
   | CT_END \<Rightarrow>
       if c_style c = RMTCTRL_TSP then
         (c\<lparr>c_st := CT_IDLE\<rparr>, flag,
          rc_clear_lock PP_LOCK_VEHICTRL_SEAT
            (PP_rmtCtrl_StInformTsp e (rc_status c (Some (c_expTime c)) (if c_success c then 2 else 3)
               (if c_success c then 0 else c_failtype c)) w))
       else (c, flag, w))"

definition PP_seatheating_mainfunction :: "rc_env \<Rightarrow> rc_pwr \<times> rc_world \<Rightarrow> rc_pwr \<times> rc_world" where
  "PP_seatheating_mainfunction e = (\<lambda>(p, w).
    let (c0, f, w) = seat_step e (PP_get_powerst e p) 0 (p_level0 p) (p_seat0 p, p_seat_flag p, w);
        (c1, f, w) = seat_step e (PP_get_powerst e p) 1 (p_level1 p) (p_seat1 p, f, w)
    in (p\<lparr>p_seat0 := c0, p_seat1 := c1, p_seat_flag := f\<rparr>, w))"

definition PP_seatheating_start :: "rc_pwr \<Rightarrow> bool" where
  "PP_seatheating_start p = (c_req (p_seat0 p) \<or> c_req (p_seat1 p))"

definition PP_seatheating_end :: "rc_pwr \<Rightarrow> bool" where
  "PP_seatheating_end p = (c_st (p_seat0 p) = CT_IDLE \<and> \<not> c_req (p_seat0 p)
     \<and> c_st (p_seat1 p) = CT_IDLE \<and> \<not> c_req (p_seat1 p))"

definition PP_SeatCtrl_SeatStMonitor :: "rc_pwr \<Rightarrow> rc_pwr" where
  "PP_SeatCtrl_SeatStMonitor p = p\<lparr>p_seat_sleep := PP_seatheating_end p\<rparr>"

definition SetPP_seatheating_Request :: "rc_request \<Rightarrow> rc_pwr \<times> rc_world \<Rightarrow> int \<times> rc_pwr \<times> rc_world" where
  "SetPP_seatheating_Request q = rc_locked PP_LOCK_VEHICTRL_SEAT (\<lambda>(p, w). (case q of
     TspReq t ps ev ex \<Rightarrow>
       (let set = (\<lambda>c. c\<lparr>c_reqType := t, c_req := True, c_expTime := ex, c_eventId := ev, c_style := RMTCTRL_TSP\<rparr>);
            p = if t = PP_RMTCTRL_MAINHEATOPEN \<or> t = PP_RMTCTRL_MAINHEATCLOSE
                then p\<lparr>p_seat0 := set (p_seat0 p), p_level0 := ps ! 0\<rparr>
                else p\<lparr>p_seat1 := set (p_seat1 p), p_level1 := ps ! 0\<rparr>
        in if t = PP_RMTCTRL_MAINHEATOPEN \<or> t = PP_RMTCTRL_PASSENGERHEATOPEN then p\<lparr>p_seat_flag := 1\<rparr> else p)
   | _ \<Rightarrow> p, w))"

definition PP_seatheating_cmdoff :: "rc_env \<Rightarrow> rc_pwr \<Rightarrow> bool \<times> rc_pwr" where
  "PP_seatheating_cmdoff e p =
    (let on = (\<lambda>i. PP_rmtCtrl_cfg_HeatingSt e i \<noteq> 0);
         off = (\<lambda>t c. c\<lparr>c_req := True, c_reqType := t\<rparr>)
     in if \<not> on 0 \<and> \<not> on 1 then (True, p)
        else (False, p\<lparr>p_seat0 := (if on 0 then off PP_RMTCTRL_MAINHEATCLOSE (p_seat0 p) else p_seat0 p),
                       p_seat1 := (if on 1 then off PP_RMTCTRL_PASSENGERHEATCLOSE (p_seat1 p) else p_seat1 p)\<rparr>))"

definition PP_seatheating_SetCtrlReq :: "int \<Rightarrow> u8 \<Rightarrow> rc_pwr \<Rightarrow> rc_pwr" where
  "PP_seatheating_SetCtrlReq t level p =
    p\<lparr>p_seat0 := (p_seat0 p)\<lparr>c_reqType := t, c_req := True, c_style := RMTCTRL_TSP\<rparr>, p_level0 := level,
      p_seat_flag := (if t = PP_RMTCTRL_MAINHEATOPEN then 1 else p_seat_flag p)\<rparr>"

section \<open>When the high voltage goes on and off\<close>

definition rc_power_request :: "u8 \<Rightarrow> rc_pwr \<Rightarrow> rc_pwr" where
  "rc_power_request action p = p\<lparr>p_eng := (p_eng p)\<lparr>c_cmd := action, c_req := True, c_style := RMTCTRL_TBOX\<rparr>\<rparr>"

definition checkenginetime_off :: "rc_pwr \<Rightarrow> rc_pwr" where
  "checkenginetime_off p =
    (let p = if p_seat_flag p = 2 \<or> p_ac_flag p = 2 then p_clear_flags p else p
     in if p_seat_flag p = 1 \<or> p_ac_flag p = 1 then rc_power_request PP_POWERON p else p)"

definition checkenginetime_limit :: "rc_env \<Rightarrow> rc_pwr \<Rightarrow> rc_pwr" where
  "checkenginetime_limit e p =
    (if 15 * 60 * 1000 < e_now e - p_time p then
       (let (s, p) = PP_seatheating_cmdoff e p;
            (a, p) = if s then PP_ACCtrl_cmdoff e p else (False, p);
            p = if a then p\<lparr>p_eng := (p_eng p)\<lparr>c_cmd := PP_POWEROFF, c_req := True\<rparr>\<rparr> else p
        in p\<lparr>p_eng := (p_eng p)\<lparr>c_style := RMTCTRL_TSP\<rparr>\<rparr>)
     else p)"

definition checkenginetime_on :: "rc_env \<Rightarrow> rc_pwr \<Rightarrow> rc_pwr" where
  "checkenginetime_on e p =
    (let p = if p_seat_flag p = 1 \<or> p_ac_flag p = 1 then (p_clear_flags p)\<lparr>p_time := e_now e\<rparr> else p;
         p = checkenginetime_limit e p;
         p = if p_ac_flag p = 2 then
               (if PP_rmtCtrl_cfg_HeatingSt e 0 = 0 \<and> PP_rmtCtrl_cfg_HeatingSt e 1 = 0
                then rc_power_request PP_POWEROFF p else p)\<lparr>p_ac_flag := 0\<rparr> else p
     in if p_seat_flag p = 2 then
          (if e_ACOnOffSt e = 1 \<and> p_ac_remote_on p then p else rc_power_request PP_POWEROFF p)\<lparr>p_seat_flag := 0\<rparr>
        else p)"

definition PP_rmtCtrl_checkenginetime :: "rc_env \<Rightarrow> rc_pwr \<Rightarrow> rc_pwr" where
  "PP_rmtCtrl_checkenginetime e p =
    (if e_RmtStartSt e = 0 then checkenginetime_off p
     else if e_RmtStartSt e = 1 then checkenginetime_on e p else p)"

end
