(* ===== verification/RcCharge.thy ===== *)
theory RcCharge
  imports RcCtrl
begin

text \<open>
  \<^verbatim>\<open>PP_ChargeCtrl.c\<close>: charging on request of the server, the phone or the head unit, and the one stored booking.
  This module is served in every turn, without the authentication.
\<close>

section \<open>State\<close>

record chg_booking =
  k_appointType :: rc_style
  k_validFlg :: bool
  k_id :: u32
  k_hour :: u8
  k_min :: u8
  k_targetSOC :: u8
  k_period :: u8
  k_eventId :: u32
  k_rvcReqType :: int
  k_huBookingTime :: u32
  k_informtspflag :: bool

text \<open>\<open>g_ctl\<close> holds \<^verbatim>\<open>state\<close>, \<^verbatim>\<open>CtrlPara.reqType\<close> and \<^verbatim>\<open>failtype\<close>. \<open>g_level\<close> is the static \<^verbatim>\<open>level\<close> of the
  synchronisation with the server, true for \<^verbatim>\<open>CHARGE_SYNC_END\<close>.\<close>

record rc_chg =
  g_ctl :: rc_ctl
  g_fail :: bool
  g_chargeOnOffFlag :: nat
  g_appointCharging :: bool
  g_chargeFinishCloseFlag :: bool
  g_chargeSt :: nat
  g_dataUpdata :: bool
  g_appointcharge :: bool
  g_appointchargeTime :: u64
  g_appointchargeCheckDelayTime :: u64
  g_bookingId :: int
  g_book :: chg_booking
  g_sleep :: bool
  g_perform :: bool
  g_delay :: u64
  g_level :: bool
  g_lastsendtime :: u64

abbreviation (input) "PP_CHARGECTRL_OPEN \<equiv> 2 :: u8"
abbreviation (input) "PP_CHARGECTRL_CLOSE \<equiv> 1 :: u8"
abbreviation (input) "PP_COMAND_STARTCHARGE \<equiv> 0x700 :: int"
abbreviation (input) "PP_COMAND_STOPCHARGE \<equiv> 0x701 :: int"
abbreviation (input) "PP_COMAND_APPOINTCHARGE \<equiv> 0x702 :: int"
abbreviation (input) "PP_COMAND_CANCELAPPOINTCHARGE \<equiv> 0x703 :: int"
abbreviation (input) "PP_CHARGESTATE_IDLE \<equiv> 0 :: nat"
abbreviation (input) "PP_CHARGESTATE_READY \<equiv> 1 :: nat"
abbreviation (input) "PP_CHARGESTATE_ONGOING \<equiv> 2 :: nat"
abbreviation (input) "PP_CHARGESTATE_FINISH \<equiv> 3 :: nat"
abbreviation (input) "PP_CHARGESTATE_ABNRSHUTDOWN \<equiv> 6 :: nat"

text \<open>After the start: \<^verbatim>\<open>PP_ChargeCtrl_init\<close> with no stored booking, at time 0.\<close>

definition rc_chg_init :: rc_chg where
  "rc_chg_init = \<lparr>g_ctl = rc_ctl_init\<lparr>c_expTime := - 1\<rparr>, g_fail = False, g_chargeOnOffFlag = 0,
     g_appointCharging = False, g_chargeFinishCloseFlag = False, g_chargeSt = PP_CHARGESTATE_IDLE, g_dataUpdata = False,
     g_appointcharge = False, g_appointchargeTime = 0, g_appointchargeCheckDelayTime = 0, g_bookingId = 0,
     g_book = \<lparr>k_appointType = NO_STYLE, k_validFlg = False, k_id = 0, k_hour = 0, k_min = 0, k_targetSOC = 0,
       k_period = 0, k_eventId = 0, k_rvcReqType = 0, k_huBookingTime = 0, k_informtspflag = False\<rparr>,
     g_sleep = False, g_perform = False, g_delay = 0, g_level = False, g_lastsendtime = 0\<rparr>"

section \<open>Requests\<close>

definition charge_appoint_id :: "bytes \<Rightarrow> u32" where
  "charge_appoint_id ps = push_bit 24 (ucast (ps ! 0)) OR push_bit 16 (ucast (ps ! 1)) OR push_bit 8 (ucast (ps ! 2))
     OR ucast (ps ! 3)"

definition charge_tsp_request ::
    "rc_env \<Rightarrow> int \<Rightarrow> bytes \<Rightarrow> int \<Rightarrow> int \<Rightarrow> rc_chg \<times> rc_world \<Rightarrow> rc_chg \<times> rc_world" where
  "charge_tsp_request e t ps ev ex = (\<lambda>(g, w).
    let c = (g_ctl g)\<lparr>c_eventId := ev, c_expTime := ex\<rparr>; g = g\<lparr>g_ctl := c\<rparr>;
        done = RVCSTATUSRESP t ev (Some ex) 2 0 in
    if t = PP_COMAND_STARTCHARGE \<or> t = PP_COMAND_STOPCHARGE then
      (if c_st c = CT_IDLE \<and> \<not> c_req c then
         g\<lparr>g_ctl := c\<lparr>c_req := True, c_reqType := t, c_style := RMTCTRL_TSP,
             c_cmd := (if t = PP_COMAND_STARTCHARGE then PP_CHARGECTRL_OPEN else PP_CHARGECTRL_CLOSE)\<rparr>\<rparr>
       else g, w)
    else if t = PP_COMAND_APPOINTCHARGE then
      (g\<lparr>g_book := (g_book g)\<lparr>k_appointType := RMTCTRL_TSP, k_id := charge_appoint_id ps, k_hour := ps ! 4, k_min := ps ! 5,
           k_targetSOC := ps ! 6, k_period := ps ! 7, k_eventId := word_of_int ev, k_validFlg := True\<rparr>,
         g_dataUpdata := True\<rparr>,
       PP_can_send_data PP_CAN_CHAGER CAN_SETAPPOINT 0 (PP_rmtCtrl_StInformTsp e done (rc_emit IviAppointment w)))
    else if t = PP_COMAND_CANCELAPPOINTCHARGE then
      (g\<lparr>g_book := (g_book g)\<lparr>k_appointType := RMTCTRL_TSP, k_validFlg := False\<rparr>, g_dataUpdata := True\<rparr>,
       PP_can_send_data PP_CAN_CHAGER CAN_CANCELAPPOINT 0 (PP_rmtCtrl_StInformTsp e done (rc_emit IviAppointment w)))
    else (g, w))"

definition charge_hu_request ::
    "int \<Rightarrow> u32 \<Rightarrow> u8 \<Rightarrow> u8 \<Rightarrow> u8 \<Rightarrow> u8 \<Rightarrow> u32 \<Rightarrow> rc_chg \<times> rc_world \<Rightarrow> rc_chg \<times> rc_world" where
  "charge_hu_request cmd i h m pw eff stamp = (\<lambda>(g, w). let c = g_ctl g in
    if cmd = PP_COMAND_STARTCHARGE \<or> cmd = PP_COMAND_STOPCHARGE then
      (if c_st c = CT_IDLE \<and> \<not> c_req c then
         g\<lparr>g_ctl := c\<lparr>c_req := True, c_eventId := 0, c_reqType := cmd, c_style := RMTCTRL_HU,
             c_cmd := (if cmd = PP_COMAND_STARTCHARGE then PP_CHARGECTRL_OPEN else PP_CHARGECTRL_CLOSE)\<rparr>\<rparr>
       else g, w)
    else if cmd = PP_COMAND_APPOINTCHARGE then
      (g\<lparr>g_book := (g_book g)\<lparr>k_appointType := RMTCTRL_HU, k_rvcReqType := PP_COMAND_APPOINTCHARGE, k_id := i,
           k_hour := h, k_min := m, k_targetSOC := pw, k_period := (if eff = 1 then 0xff else 0),
           k_huBookingTime := stamp, k_eventId := 0, k_validFlg := True, k_informtspflag := True\<rparr>,
         g_dataUpdata := True\<rparr>,
       PP_can_send_data PP_CAN_CHAGER CAN_SETAPPOINT 0 w)
    else if cmd = PP_COMAND_CANCELAPPOINTCHARGE then
      (g\<lparr>g_book := (g_book g)\<lparr>k_appointType := RMTCTRL_HU, k_validFlg := False,
           k_rvcReqType := PP_COMAND_CANCELAPPOINTCHARGE, k_id := i, k_hour := h, k_min := m, k_targetSOC := pw,
           k_period := 0xff, k_huBookingTime := stamp, k_informtspflag := True\<rparr>,
         g_dataUpdata := True\<rparr>,
       PP_can_send_data PP_CAN_CHAGER CAN_CANCELAPPOINT 0 w)
    else (g, w))"

text \<open>Unlike the other modules this one releases the lock when the request started nothing.\<close>

definition SetPP_ChargeCtrl_Request :: "rc_env \<Rightarrow> rc_request \<Rightarrow> rc_chg \<times> rc_world \<Rightarrow> int \<times> rc_chg \<times> rc_world" where
  "SetPP_ChargeCtrl_Request e q = rc_locked PP_LOCK_VEHICTRL_CHRG (\<lambda>(g, w).
    let (g, w) = (case q of
         TspReq t ps ev ex \<Rightarrow> charge_tsp_request e t ps ev ex (g, w)
       | BtReq cmd \<Rightarrow> (g\<lparr>g_ctl := (g_ctl g)\<lparr>c_cmd := (if cmd = 1 then PP_CHARGECTRL_CLOSE
             else if cmd = 2 then PP_CHARGECTRL_OPEN else c_cmd (g_ctl g)), c_req := True, c_style := RMTCTRL_BLUETOOTH\<rparr>\<rparr>, w)
       | HuReq cmd i h m pw eff stamp \<Rightarrow> charge_hu_request cmd i h m pw eff stamp (g, w)
       | TboxReq cmd \<Rightarrow> (g\<lparr>g_ctl := (g_ctl g)\<lparr>c_req := True, c_eventId := 0, c_cmd := of_nat cmd, c_style := RMTCTRL_TBOX\<rparr>,
             g_bookingId := sint (k_id (g_book g))\<rparr>, w))
    in (g, if c_req (g_ctl g) then w else rc_clear_lock PP_LOCK_VEHICTRL_CHRG w))"

definition charge_self :: "rc_env \<Rightarrow> u8 \<Rightarrow> rc_chg \<times> rc_world \<Rightarrow> int \<times> rc_chg \<times> rc_world" where
  "charge_self e cmd = SetPP_ChargeCtrl_Request e (TboxReq (unat cmd))"

section \<open>The booking and the end of charging\<close>

definition charge_period :: "nat \<Rightarrow> u8" where
  "charge_period wd = [0x01, 0x40, 0x20, 0x10, 0x08, 0x04, 0x02] ! wd"

definition charge_monitor_due :: "rc_env \<Rightarrow> rc_chg \<times> rc_world \<Rightarrow> rc_chg \<times> rc_world" where
  "charge_monitor_due e = (\<lambda>(g, w). let b = g_book g in
    if k_validFlg b \<and> k_period b AND 0x80 \<noteq> 0 \<and> charge_period (e_week e) AND k_period b \<noteq> 0 then
      (if e_hour e = k_hour b \<and> e_min e = k_min b then
         (let (g, w) =
            (if g_chargeSt g \<noteq> PP_CHARGESTATE_ONGOING \<and> \<not> g_perform g then
               (let (r, g, w) = charge_self e PP_CHARGECTRL_OPEN
                      (g\<lparr>g_perform := True, g_appointcharge := True, g_appointchargeTime := word_of_int (e_stamp e),
                         g_appointchargeCheckDelayTime := e_now e, g_chargeSt := PP_CHARGESTATE_READY\<rparr>,
                       PP_can_send_data PP_CAN_CHAGER CAN_CANCELAPPOINT 0 w)
                in if r = PP_LOCK_OK then (g, w)
                   else if r = PP_LOCK_ERR_FOTAUPDATE then
                     (g\<lparr>g_ctl := (g_ctl g)\<lparr>c_failtype := PP_RMTCTRL_FOTA_UPGRADE\<rparr>\<rparr>,
                      PP_rmtCtrl_StInformTsp e (RVCBOOKINGRESP (sint (k_eventId b)) (Some (- 1)) (sint (k_id b)) (Some 0x711)) w)
                   else (g, w))
             else (g, w))
          in (g\<lparr>g_delay := e_now e\<rparr>, w))
       else (if 3000 < e_now e - g_delay g then g\<lparr>g_perform := False\<rparr> else g, w))
    else (g, w))"

text \<open>\<^verbatim>\<open>PP_CHARGECTRL_APPOINTHOLDTIME\<close>: six hours in milliseconds, added to a time in seconds.\<close>

definition charge_monitor_retry :: "rc_env \<Rightarrow> bool \<Rightarrow> rc_chg \<times> rc_world \<Rightarrow> rc_chg \<times> rc_world" where
  "charge_monitor_retry e fota = (\<lambda>(g, w).
    if 5000 < e_now e - g_appointchargeCheckDelayTime g \<and> g_appointcharge g
       \<and> PP_rmtCtrl_cfg_chargeSt e \<noteq> PP_RMTCTRL_CFG_CHARGEING then
      (if word_of_int (e_stamp e) \<le> g_appointchargeTime g + 21600000 then
         (if c_failtype (g_ctl g) \<in> {PP_RMTCTRL_CHRGGUNUNCONNT, PP_RMTCTRL_READYLIGHTON, PP_RMTCTRL_FOTA_UPGRADE}
             \<and> PP_rmtCtrl_cfg_chargeGunCnctSt e = 1 \<and> e_readyLightSt e = 0 \<and> \<not> fota
          then snd (charge_self e PP_CHARGECTRL_OPEN (g\<lparr>g_chargeSt := PP_CHARGESTATE_READY\<rparr>, w))
          else (g, w))
       else (g\<lparr>g_appointcharge := False\<rparr>, PP_can_send_data PP_CAN_CHAGER CAN_SETAPPOINT 0 w))
    else (g, w))"

definition charge_monitor_finish :: "rc_env \<Rightarrow> bool \<Rightarrow> rc_chg \<times> rc_world \<Rightarrow> rc_chg \<times> rc_world" where
  "charge_monitor_finish e fota = (\<lambda>(g, w).
    let st = PP_rmtCtrl_cfg_chargeSt e;
        stop = (\<lambda>g. snd (charge_self e PP_CHARGECTRL_CLOSE (g, w))) in
    if (g_chargeSt g = PP_CHARGESTATE_ONGOING \<or> st = PP_RMTCTRL_CFG_CHARGEING) \<and> \<not> fota then
      (let g = g\<lparr>g_appointcharge := False\<rparr> in
       if g_appointCharging g then
         (if uint (k_targetSOC (g_book g)) \<le> e_vehicleSOC e
          then stop (g\<lparr>g_chargeSt := PP_CHARGESTATE_FINISH, g_chargeFinishCloseFlag := True\<rparr>)
          else if st = PP_RMTCTRL_CFG_CHARGEFAIL
          then stop (g\<lparr>g_chargeSt := PP_CHARGESTATE_ABNRSHUTDOWN, g_chargeFinishCloseFlag := False\<rparr>)
          else (g, w))
       else if st = PP_RMTCTRL_CFG_CHARGEFINISH then stop (g\<lparr>g_chargeSt := PP_CHARGESTATE_FINISH\<rparr>)
       else if st = PP_RMTCTRL_CFG_CHARGEFAIL then stop (g\<lparr>g_chargeSt := PP_CHARGESTATE_ABNRSHUTDOWN\<rparr>)
       else (g, w))
    else (g, w))"

text \<open>The booking of the head unit is sent to the server until it is acknowledged. The code sets \<^verbatim>\<open>HUbookingId\<close>,
  the encoder reads \<^verbatim>\<open>bookingId\<close>, which is left unset.\<close>

definition PP_ChargeCtrl_informTsp :: "rc_env \<Rightarrow> rc_chg \<times> rc_world \<Rightarrow> rc_chg \<times> rc_world" where
  "PP_ChargeCtrl_informTsp e = (\<lambda>(g, w). let b = g_book g in
    if \<not> g_level g then
      (if e_sockOpen e \<and> k_appointType b = RMTCTRL_HU \<and> k_informtspflag b then
         (g\<lparr>g_level := True, g_lastsendtime := e_now e\<rparr>,
          PP_rmtCtrl_StInformTsp e (HUBOOKINGRESP 0 (k_rvcReqType b) (sint (k_huBookingTime b)) (uint (k_hour b))
            (uint (k_min b)) (uint (k_targetSOC b)) (k_period b) None) w)
       else (g, w))
    else if k_informtspflag b then (if 10000 < e_now e - g_lastsendtime g then g\<lparr>g_level := False\<rparr> else g, w)
    else (g\<lparr>g_dataUpdata := True, g_level := False\<rparr>, w))"

definition PP_ChargeCtrl_HUBookingBackResp :: "int \<Rightarrow> rc_chg \<Rightarrow> rc_chg" where
  "PP_ChargeCtrl_HUBookingBackResp result g =
    (if result = 1 then g\<lparr>g_book := (g_book g)\<lparr>k_informtspflag := False\<rparr>\<rparr> else g)"

definition PP_ChargeCtrl_chargeStMonitor :: "rc_env \<Rightarrow> bool \<Rightarrow> rc_chg \<times> rc_world \<Rightarrow> rc_chg \<times> rc_world" where
  "PP_ChargeCtrl_chargeStMonitor e fota s =
    (let (g, w) = charge_monitor_finish e fota (charge_monitor_retry e fota (charge_monitor_due e s));
         g = g\<lparr>g_sleep := (g_chargeSt g \<noteq> PP_CHARGESTATE_ONGOING \<and> \<not> c_req (g_ctl g) \<and> c_st (g_ctl g) = CT_IDLE)\<rparr>;
         (g, w) = (if e_KL15 e then PP_ChargeCtrl_informTsp e (g, w) else (g, w))
     in if g_dataUpdata g then (g\<lparr>g_dataUpdata := False\<rparr>, rc_emit SaveChargeBook w) else (g, w))"

definition SetPP_ChargeCtrl_appointPara :: "rc_chg \<times> rc_world \<Rightarrow> rc_chg \<times> rc_world" where
  "SetPP_ChargeCtrl_appointPara = (\<lambda>(g, w).
    if g_dataUpdata g then (g\<lparr>g_dataUpdata := False\<rparr>, rc_emit SaveChargeBook w) else (g, w))"

section \<open>The sequence of a request\<close>

text \<open>The two failure types are set the wrong way round.\<close>

definition PP_ChargeCtrl_startHandle :: "rc_env \<Rightarrow> rc_chg \<times> rc_world \<Rightarrow> bool \<times> rc_chg \<times> rc_world" where
  "PP_ChargeCtrl_startHandle e = (\<lambda>(g, w). let c = g_ctl g;
      w' = (if c_style c = RMTCTRL_TSP \<or> c_style c = RMTCTRL_HU
            then PP_rmtCtrl_StInformTsp e (rc_status c (Some (c_expTime c)) 1 0) w else w) in
    if c_cmd c = PP_CHARGECTRL_OPEN then
      (if PP_rmtCtrl_cfg_chargeGunCnctSt e = 1 \<and> e_readyLightSt e = 0 then (True, g, w')
       else (False, g\<lparr>g_fail := True, g_ctl := c\<lparr>c_failtype :=
           (if PP_rmtCtrl_cfg_chargeGunCnctSt e = 1 then PP_RMTCTRL_CHRGGUNUNCONNT else PP_RMTCTRL_READYLIGHTON)\<rparr>\<rparr>, w))
    else (True, g, w'))"

text \<open>\<^verbatim>\<open>memset\<close> clears the parameters first.\<close>

definition PP_ChargeCtrl_EndHandle :: "rc_env \<Rightarrow> rc_chg \<times> rc_world \<Rightarrow> rc_chg \<times> rc_world" where
  "PP_ChargeCtrl_EndHandle e = (\<lambda>(g, w). let c = g_ctl g in
    if c_style c = RMTCTRL_TSP \<or> c_style c = RMTCTRL_HU then
      (g, PP_rmtCtrl_StInformTsp e (rc_status c (Some 0) (if g_fail g then 3 else 2)
            (if g_fail g then c_failtype c else 0)) w)
    else if c_style c = RMTCTRL_TBOX then
      (let opened = (c_cmd c = PP_CHARGECTRL_OPEN \<and> g_chargeOnOffFlag g = 1);
           code = (if c_cmd c = PP_CHARGECTRL_OPEN then (if g_chargeOnOffFlag g = 1 then 0x710 else 0x711)
                   else if g_chargeOnOffFlag g = 2 then (if g_chargeFinishCloseFlag g then 0x700 else 0x701) else 0)
       in (g\<lparr>g_appointCharging := (opened \<or> g_appointCharging g), g_chargeFinishCloseFlag := False\<rparr>,
           PP_rmtCtrl_StInformTsp e (RVCBOOKINGRESP (c_eventId c) (Some (c_expTime c)) (g_bookingId g) (Some code)) w))
    else if c_style c = RMTCTRL_BLUETOOTH then
      (g, rc_emit (ToBle BT_CHARGE_RESP (c_cmd c)
            (if g_fail g then Some BT_FAIL
             else if c_cmd c = PP_CHARGECTRL_OPEN then Some 2
             else if c_cmd c = PP_CHARGECTRL_CLOSE then Some 1 else None) None) w)
    else (g, w))"

definition charge_idle :: "rc_env \<Rightarrow> rc_chg \<times> rc_world \<Rightarrow> rc_chg \<times> rc_world" where
  "charge_idle e = (\<lambda>(g, w).
    if c_req (g_ctl g) then
      (let (ok, g, w) = PP_ChargeCtrl_startHandle e
             (g\<lparr>g_fail := False, g_chargeOnOffFlag := 0, g_ctl := (g_ctl g)\<lparr>c_failtype := 0\<rparr>\<rparr>,
              PP_can_mcu_awaken (rc_emit RingWakeup w))
       in (g\<lparr>g_ctl := (g_ctl g)\<lparr>c_st := (if ok then CT_REQSTART else CT_END), c_req := False\<rparr>\<rparr>, w))
    else (g, w))"

definition charge_respwait :: "rc_env \<Rightarrow> rc_chg \<times> rc_world \<Rightarrow> rc_chg \<times> rc_world" where
  "charge_respwait e = (\<lambda>(g, w). let c = g_ctl g; g_end = g\<lparr>g_ctl := c\<lparr>c_st := CT_END\<rparr>\<rparr> in
    if e_now e - c_wait c < 2000 then
      (if c_cmd c = PP_CHARGECTRL_OPEN then
         (if PP_rmtCtrl_cfg_chargeOnOffSt e = 1 then
            (g_end\<lparr>g_chargeOnOffFlag := 1, g_fail := False, g_chargeSt := PP_CHARGESTATE_ONGOING,
               g_chargeFinishCloseFlag := False\<rparr>, PP_can_send_data PP_CAN_CHAGER CAN_CLEANCHARGE 0 w)
          else (g, w))
       else
         (if PP_rmtCtrl_cfg_chargeOnOffSt e = 0 then
            (g_end\<lparr>g_chargeOnOffFlag := 2, g_appointCharging := False, g_fail := False, g_chargeSt := PP_CHARGESTATE_IDLE\<rparr>,
             PP_can_send_data PP_CAN_CHAGER CAN_CLEANCHARGE 0 (PP_can_send_data PP_CAN_CHAGER CAN_CANCELAPPOINT 0 w))
          else (g, w)))
    else (g\<lparr>g_appointCharging := False, g_fail := True, g_chargeSt := PP_CHARGESTATE_IDLE,
             g_ctl := c\<lparr>c_failtype := PP_RMTCTRL_TIMEOUTFAIL, c_st := CT_END\<rparr>\<rparr>,
          PP_can_send_data PP_CAN_CHAGER CAN_CLEANCHARGE 0 w))"

definition PP_ChargeCtrl_mainfunction :: "rc_env \<Rightarrow> bool \<Rightarrow> rc_chg \<times> rc_world \<Rightarrow> rc_chg \<times> rc_world" where
  "PP_ChargeCtrl_mainfunction e fota s =
    (let (g, w) = PP_ChargeCtrl_chargeStMonitor e fota s; c = g_ctl g in case c_st c of
       CT_IDLE \<Rightarrow> charge_idle e (g, w)
     | CT_REQSTART \<Rightarrow>
         (g\<lparr>g_ctl := c\<lparr>c_st := CT_RESPWAIT, c_wait := e_now e\<rparr>\<rparr>,
          if c_cmd c = PP_CHARGECTRL_OPEN then PP_can_send_data PP_CAN_CHAGER CAN_STARTCHAGER 0 w
          else PP_can_send_data PP_CAN_CHAGER CAN_STOPCHAGER 0
            (if k_validFlg (g_book g) then PP_can_send_data PP_CAN_CHAGER CAN_SETAPPOINT 0 w else w))
     | CT_RESPWAIT \<Rightarrow> charge_respwait e (g, w)
     | CT_END \<Rightarrow>
         (let (g, w) = PP_ChargeCtrl_EndHandle e (g, w)
          in (g\<lparr>g_ctl := (g_ctl g)\<lparr>c_st := CT_IDLE\<rparr>\<rparr>,
              rc_clear_lock PP_LOCK_VEHICTRL_CHRG (PP_can_mcu_sleep w))))"

definition GetPP_ChargeCtrl_appointHour :: "rc_chg \<Rightarrow> u8" where
  "GetPP_ChargeCtrl_appointHour g = (if 23 < k_hour (g_book g) then 23 else k_hour (g_book g))"

definition GetPP_ChargeCtrl_appointMin :: "rc_chg \<Rightarrow> u8" where
  "GetPP_ChargeCtrl_appointMin g = (if 59 < k_min (g_book g) then 59 else k_min (g_book g))"

end
