(* ===== verification/RcWake.thy ===== *)
theory RcWake
  imports RcPower RcCharge
begin

text \<open>
  \<^verbatim>\<open>PP_SendWakeUptime.c\<close>: the minutes until the next booking of the air conditioning, the charge or the update, told
  to the MCU when the unit enters the listen mode. A booking is a set of weekdays (a bit mask) with an hour and a
  minute; the specification is the next occurrence modulo a week.
\<close>

text \<open>\<^verbatim>\<open>wake_period\<close> (Monday first) and \<^verbatim>\<open>localweekToAlgoweek\<close>.\<close>

definition wake_mask :: "nat \<Rightarrow> u8" where "wake_mask wday = [0x40, 0x20, 0x10, 0x08, 0x04, 0x02, 0x01] ! wday"
definition localweekToAlgoweek :: "nat \<Rightarrow> nat" where "localweekToAlgoweek d = [6, 0, 1, 2, 3, 4, 5] ! d"

definition wake_minutes :: "nat \<Rightarrow> int \<Rightarrow> int \<Rightarrow> nat \<Rightarrow> int \<Rightarrow> int \<Rightarrow> int" where
  "wake_minutes today hour mi wday h m =
    (let next_week = (7 - int today) * 24 * 60 - (hour * 60 + mi) + (int wday * 24 * 60 + h * 60 + m)
     in if wday < today then next_week
        else if wday = today then
          (if hour > h then next_week
           else if hour = h then (if mi > m then next_week else m - mi)
           else (h - hour) * 60 - mi + m)
        else (int wday - int today) * 24 * 60 + h * 60 + m - hour * 60 - mi)"

text \<open>The loop over the week; \<open>low_min\<close> is 0 as long as there is no result.\<close>

definition wake_week_step :: "rc_env \<Rightarrow> u8 \<Rightarrow> u8 \<Rightarrow> u8 \<Rightarrow> nat \<Rightarrow> int \<Rightarrow> int" where
  "wake_week_step e period h m wday low =
    (if wake_mask wday AND period \<noteq> 0 then
       (let t = wake_minutes (localweekToAlgoweek (e_week e)) (uint (e_hour e)) (uint (e_min e)) wday (uint h) (uint m)
        in if low = 0 then t else if low > t then t else low)
     else low)"

definition PP_waketime_to_min :: "rc_env \<Rightarrow> u8 \<Rightarrow> u8 \<Rightarrow> u8 \<Rightarrow> int" where
  "PP_waketime_to_min e period h m = fold (wake_week_step e period h m) [0..<7] 0"

definition wake_low :: "int \<Rightarrow> int \<Rightarrow> int" where
  "wake_low low t = (if low = 0 then t else if low > t then t else low)"

definition PP_ACCtrl_waketime :: "rc_env \<Rightarrow> rc_pwr \<Rightarrow> int" where
  "PP_ACCtrl_waketime e p = fold (\<lambda>b low. if b_validFlg b
     then wake_low low (PP_waketime_to_min e (b_period b) (b_hour b) (b_min b)) else low) (p_ac_book p) 0"

definition PP_ChargeCtrl_waketime :: "rc_env \<Rightarrow> rc_chg \<Rightarrow> int" where
  "PP_ChargeCtrl_waketime e g =
    (let b = g_book g in
     if k_validFlg b then wake_low 0 (PP_waketime_to_min e (k_period b) (k_hour b) (k_min b)) else 0)"

definition pp_get_low_waketime :: "rc_env \<Rightarrow> rc_pwr \<Rightarrow> rc_chg \<Rightarrow> int" where
  "pp_get_low_waketime e p g =
    (let ac = PP_ACCtrl_waketime e p; charge = PP_ChargeCtrl_waketime e g; fota = e_fotaWake e in
     if ac = 0 then
       (if charge \<noteq> 0 then (if charge > fota \<and> fota \<noteq> 0 then fota else charge) else fota)
     else
       (let low = (if ac > charge \<and> charge \<noteq> 0 then charge else ac)
        in if low > fota \<and> fota \<noteq> 0 then fota else low))"

definition GetPP_Wake_Sleep :: "rc_env \<Rightarrow> rc_pwr \<Rightarrow> rc_chg \<Rightarrow> bool" where
  "GetPP_Wake_Sleep e p g = (\<not> (pp_get_low_waketime e p g = 1 \<or> pp_get_low_waketime e p g = 2))"

text \<open>The static \<^verbatim>\<open>sleep_flag\<close>: one message for each time in the listen mode.\<close>

definition PP_Send_WakeUpTime_to_Mcu ::
    "rc_env \<Rightarrow> rc_pwr \<Rightarrow> rc_chg \<Rightarrow> bool \<times> rc_world \<Rightarrow> bool \<times> rc_world" where
  "PP_Send_WakeUpTime_to_Mcu e p g = (\<lambda>(sent, w).
    let sent = (sent \<and> \<not> e_pmRunning e); low = pp_get_low_waketime e p g in
    if e_pmListen e \<and> \<not> sent \<and> low \<noteq> 0
    then (True, rc_emit (Scom SCOM_TL_CMD_WAKE_TIME (le_bytes32 (word_of_int low))) w) else (sent, w))"

end
