(* ===== verification/RcMain.thy ===== *)
theory RcMain
  imports RcAuth RcWake
begin

text \<open>
  \<^verbatim>\<open>PP_rmtCtrl.c\<close>: requests of the server, the phone, the head unit and the shell, the sequence authentication,
  command, end, and the update's part in it. \<open>rc_turn\<close> is \<^verbatim>\<open>PP_rmtCtrl_mainfunction\<close>; \<open>rc_do\<close> is one call of any
  thread into the component, \<open>rc_reach\<close> the states its runs reach.
\<close>

section \<open>State\<close>

datatype rc_mode = RMTCTRL_IDLE | RMTCTRL_IDENTIFICAT_QUERY | RMTCTRL_IDENTIFICAT_LAUNCH | RMTCTRL_COMMAND_LAUNCH
  | RMTCTRL_END

record rc_state =
  r_st :: rc_mode
  r_reqType :: int
  r_eventid :: int
  r_sleepflag :: bool
  r_fotaAuthReq :: bool
  r_fotaUpgradeSt :: bool
  r_fotaAuthResult :: int
  r_door :: rc_ctl
  r_sunroof :: rc_ctl
  r_autodoor :: rc_ctl
  r_search :: rc_ctl
  r_forbid :: rc_ctl
  r_camera :: rc_ctl
  r_blue :: rc_ctl
  r_pwr :: rc_pwr
  r_chg :: rc_chg
  r_auth :: rc_auth
  r_wakesent :: bool
  r_w :: rc_world

definition rc_world_init :: "u8 option \<Rightarrow> rc_world" where
  "rc_world_init forb = \<lparr>w_lock = InitPP_lock_parameter, w_440 = 0, w_445 = push_bit 46 1 OR push_bit 54 1,
     w_lastsend = 0, w_virtual_on = 0, w_forbiden = forb, w_nodes = replicate 100 False, w_ulMsgCnt = 0, w_out = []\<rparr>"

text \<open>\<^verbatim>\<open>PP_rmtCtrl_init\<close>, with a start prohibition stored or not.\<close>

definition PP_rmtCtrl_init :: "u8 option \<Rightarrow> rc_state" where
  "PP_rmtCtrl_init forb = \<lparr>r_st = RMTCTRL_IDLE, r_reqType = 0, r_eventid = 0, r_sleepflag = False,
     r_fotaAuthReq = False, r_fotaUpgradeSt = False, r_fotaAuthResult = 0, r_door = rc_ctl_init,
     r_sunroof = rc_ctl_init, r_autodoor = rc_ctl_init, r_search = rc_ctl_init, r_forbid = rc_ctl_init,
     r_camera = rc_ctl_init, r_blue = rc_ctl_init, r_pwr = rc_pwr_init, r_chg = rc_chg_init, r_auth = rc_auth_init,
     r_wakesent = False, r_w = rc_world_init forb\<rparr>"

text \<open>A module's function on its part of the state and the shared world.\<close>

definition on_door where "on_door f s = (let (c, w) = f (r_door s, r_w s) in s\<lparr>r_door := c, r_w := w\<rparr>)"
definition on_sunroof where "on_sunroof f s = (let (c, w) = f (r_sunroof s, r_w s) in s\<lparr>r_sunroof := c, r_w := w\<rparr>)"
definition on_autodoor where "on_autodoor f s = (let (c, w) = f (r_autodoor s, r_w s) in s\<lparr>r_autodoor := c, r_w := w\<rparr>)"
definition on_search where "on_search f s = (let (c, w) = f (r_search s, r_w s) in s\<lparr>r_search := c, r_w := w\<rparr>)"
definition on_forbid where "on_forbid f s = (let (c, w) = f (r_forbid s, r_w s) in s\<lparr>r_forbid := c, r_w := w\<rparr>)"
definition on_camera where "on_camera f s = (let (c, w) = f (r_camera s, r_w s) in s\<lparr>r_camera := c, r_w := w\<rparr>)"
definition on_blue where "on_blue f s = (let (c, w) = f (r_blue s, r_w s) in s\<lparr>r_blue := c, r_w := w\<rparr>)"
definition on_pwr where "on_pwr f s = (let (p, w) = f (r_pwr s, r_w s) in s\<lparr>r_pwr := p, r_w := w\<rparr>)"
definition on_chg where "on_chg f s = (let (g, w) = f (r_chg s, r_w s) in s\<lparr>r_chg := g, r_w := w\<rparr>)"
definition on_world :: "(rc_world \<Rightarrow> rc_world) \<Rightarrow> rc_state \<Rightarrow> rc_state" where "on_world f s = s\<lparr>r_w := f (r_w s)\<rparr>"

text \<open>A request function on its part of the state: the answer of the lock and the new state.\<close>

definition ask_door where "ask_door f s = (let (r, c, w) = f (r_door s, r_w s) in (r :: int, s\<lparr>r_door := c, r_w := w\<rparr>))"
definition ask_sunroof where "ask_sunroof f s = (let (r, c, w) = f (r_sunroof s, r_w s) in (r :: int, s\<lparr>r_sunroof := c, r_w := w\<rparr>))"
definition ask_autodoor where "ask_autodoor f s = (let (r, c, w) = f (r_autodoor s, r_w s) in (r :: int, s\<lparr>r_autodoor := c, r_w := w\<rparr>))"
definition ask_search where "ask_search f s = (let (r, c, w) = f (r_search s, r_w s) in (r :: int, s\<lparr>r_search := c, r_w := w\<rparr>))"
definition ask_forbid where "ask_forbid f s = (let (r, c, w) = f (r_forbid s, r_w s) in (r :: int, s\<lparr>r_forbid := c, r_w := w\<rparr>))"
definition ask_camera where "ask_camera f s = (let (r, c, w) = f (r_camera s, r_w s) in (r :: int, s\<lparr>r_camera := c, r_w := w\<rparr>))"
definition ask_blue where "ask_blue f s = (let (r, c, w) = f (r_blue s, r_w s) in (r :: int, s\<lparr>r_blue := c, r_w := w\<rparr>))"
definition ask_pwr where "ask_pwr f s = (let (r, p, w) = f (r_pwr s, r_w s) in (r :: int, s\<lparr>r_pwr := p, r_w := w\<rparr>))"
definition ask_chg where "ask_chg f s = (let (r, g, w) = f (r_chg s, r_w s) in (r :: int, s\<lparr>r_chg := g, r_w := w\<rparr>))"

lemmas ask_defs = ask_door_def ask_sunroof_def ask_autodoor_def ask_search_def ask_forbid_def ask_camera_def
  ask_blue_def ask_pwr_def ask_chg_def

lemmas on_defs = on_door_def on_sunroof_def on_autodoor_def on_search_def on_forbid_def on_camera_def on_blue_def
  on_pwr_def on_chg_def on_world_def


section \<open>Start, end and clearing\<close>

definition PP_rmtCtrl_request :: "rc_state \<Rightarrow> bool" where
  "PP_rmtCtrl_request s = (PP_doorLockCtrl_start (r_door s) \<or> PP_autodoorCtrl_start (r_autodoor s)
     \<or> PP_searchvehicle_start (r_search s) \<or> PP_sunroofctrl_start (r_sunroof s) \<or> PP_startengine_start (r_pwr s)
     \<or> PP_seatheating_start (r_pwr s) \<or> PP_ACCtrl_start (r_pwr s) \<or> PP_startforbid_start (r_forbid s)
     \<or> PP_CameraCtrl_start (r_camera s) \<or> PP_bluetoothstart_start (r_blue s))"

definition PP_rmtCtrl_end :: "rc_state \<Rightarrow> bool" where
  "PP_rmtCtrl_end s = (PP_doorLockCtrl_end (r_door s) \<and> PP_autodoorCtrl_end (r_autodoor s)
     \<and> PP_searchvehicle_end (r_search s) \<and> PP_sunroofctrl_end (r_sunroof s) \<and> PP_startengine_end (r_pwr s)
     \<and> PP_seatheating_end (r_pwr s) \<and> PP_ACCtrl_end (r_pwr s) \<and> PP_startforbid_end (r_forbid s)
     \<and> PP_CameraCtrl_end (r_camera s) \<and> PP_bluetoothstart_end (r_blue s))"

definition PP_rmtCtrl_clear :: "rc_state \<Rightarrow> rc_state" where
  "PP_rmtCtrl_clear s = on_blue PP_bluetoothstart_ClearStatus (on_camera PP_CameraCtrl_ClearStatus
     (on_pwr PP_ACCtrl_ClearStatus (on_sunroof PP_sunroofctrl_ClearStatus (on_forbid PP_startforbid_ClearStatus
     (on_pwr PP_startengine_ClearStatus (on_pwr PP_seatheating_ClearStatus (on_search PP_searchvehicle_ClearStatus
     (on_door PP_doorLockCtrl_ClearStatus (on_autodoor PP_autodoorCtrl_ClearStatus s)))))))))"

section \<open>A message of the server\<close>

text \<open>What the queue and the ASN.1 decoder (\<^verbatim>\<open>PrvtPro_decodeMsgData\<close>, not modelled) give for a message: the frame's
  signature, length and operation, and the decoded fields.\<close>

record rc_msg =
  m_sign :: "u8 \<times> u8"
  m_rlen :: int
  m_opera :: u8
  m_expTime :: int
  m_aID :: "int \<times> int \<times> int"
  m_mID :: int
  m_eventId :: int
  m_reqType :: int
  m_params :: bytes
  m_rvcResult :: int

definition msg_request :: "rc_msg \<Rightarrow> rc_request" where
  "msg_request m = TspReq (m_reqType m) (m_params m) (m_eventId m) (m_expTime m)"

definition rc_fail_report :: "rc_env \<Rightarrow> int \<Rightarrow> rc_state \<Rightarrow> rc_state" where
  "rc_fail_report e ft s = on_world (PP_rmtCtrl_StInformTsp e (RVCSTATUSRESP (r_reqType s) (r_eventid s) None 3 ft)) s"

text \<open>The dispatch over the high byte of the request type: the answer of the lock and the new state.\<close>

definition rc_tsp_dispatch :: "rc_env \<Rightarrow> rc_msg \<Rightarrow> rc_state \<Rightarrow> int \<times> rc_state" where
  "rc_tsp_dispatch e m s =
    (let q = msg_request m; t = m_reqType m;
         obj = (t div 256) mod 256 in
     if obj = 0 then ask_door (SetPP_doorLockCtrl_Request q) s
     else if obj = 1 then ask_sunroof (SetPP_sunroofctrl_Request q) s
     else if obj = 2 then ask_autodoor (SetPP_autodoorCtrl_Request q) s
     else if obj = 3 then ask_search (SetPP_searchvehicle_Request q) s
     else if obj = 4 \<or> obj = 5
     then ask_camera (SetPP_CameraCtrl_Request q) s
     else if obj = 6 then
       (if t \<in> {0x600, 0x601, 0x602, 0x603, 0x604}
        then ask_pwr (SetPP_ACCtrl_Request e q) s
        else if t \<in> {0x605, 0x606, 0x607, 0x608}
        then ask_pwr (SetPP_seatheating_Request q) s
        else (0, s))
     else if obj = 7 then ask_chg (SetPP_ChargeCtrl_Request e q) s
     else if obj = 8 then ask_pwr (SetPP_startengine_Request q) s
     else if obj = 9 then ask_forbid (SetPP_startforbid_Request q) s
     else (0, s))"

definition PP_rmtCtrl_RxMsgHandle :: "rc_env \<Rightarrow> rc_msg \<Rightarrow> rc_state \<Rightarrow> rc_state" where
  "PP_rmtCtrl_RxMsgHandle e m s =
    (if m_opera m \<noteq> 2 then s
     else if m_expTime m \<noteq> - 1 \<and> m_expTime m < e_stamp e then rc_fail_report e PP_RMTCTRL_INSTRTIMEOUT s
     else if (case m_aID m of (a, b, c) \<Rightarrow> (a - 0x30) * 100 + (b - 0x30) * 10 + (c - 0x30)) \<noteq> 110 then s
     else
       (let s = s\<lparr>r_eventid := m_eventId m, r_reqType := m_reqType m\<rparr> in
        if m_mID m = 1 then
          (if \<not> e_enabled e then rc_fail_report e PP_RMTCTRL_NOTENABLE s
           else (let (r, s) = rc_tsp_dispatch e m s
                 in if r = PP_LOCK_ERR_FOTAUPDATE then rc_fail_report e PP_RMTCTRL_FOTA_UPGRADE s else s))
        else if m_mID m = 5 then s\<lparr>r_chg := PP_ChargeCtrl_HUBookingBackResp (m_rvcResult m) (r_chg s)\<rparr>
        else s))"

definition PP_rmtCtrl_do_rcvMsg :: "rc_env \<Rightarrow> rc_msg option \<Rightarrow> rc_state \<Rightarrow> rc_state" where
  "PP_rmtCtrl_do_rcvMsg e mo s = (case mo of
     None \<Rightarrow> s
   | Some m \<Rightarrow>
       if m_rlen m \<le> 0 \<or> m_sign m \<noteq> (0x2A, 0x2A) \<or> m_rlen m \<le> 18 \<or> 18 + 1024 < m_rlen m then s
       else PP_rmtCtrl_RxMsgHandle e m s)"

section \<open>The turn of the thread\<close>

definition rc_idle :: "rc_env \<Rightarrow> rc_state \<Rightarrow> rc_state" where
  "rc_idle e s =
    (let s = (let (b, w) = PP_Send_WakeUpTime_to_Mcu e (r_pwr s) (r_chg s) (r_wakesent s, r_w s)
              in s\<lparr>r_wakesent := b, r_w := w\<rparr>);
         s = s\<lparr>r_pwr := PP_rmtCtrl_checkenginetime e (r_pwr s)\<rparr>;
         s = on_pwr (PP_AcCtrl_acStMonitor e) s;
         s = s\<lparr>r_pwr := PP_SeatCtrl_SeatStMonitor (r_pwr s)\<rparr>;
         s = on_forbid (PP_startforbid_acStMonitor e) s
     in if PP_rmtCtrl_request s \<or> r_fotaAuthReq s then
          (let s = on_world (\<lambda>w. PP_can_mcu_awaken (rc_emit RingWakeup w)) s
           in if r_fotaAuthReq s then s\<lparr>r_fotaAuthReq := False, r_st := RMTCTRL_IDENTIFICAT_LAUNCH\<rparr>
              else s\<lparr>r_st := RMTCTRL_IDENTIFICAT_QUERY\<rparr>)
        else s)"

definition rc_query :: "rc_env \<Rightarrow> rc_state \<Rightarrow> rc_state" where
  "rc_query e s =
    (let (ok, a) = PP_get_identificat_flag e (r_auth s)
     in s\<lparr>r_auth := a, r_st := (if ok then RMTCTRL_COMMAND_LAUNCH else RMTCTRL_IDENTIFICAT_LAUNCH)\<rparr>)"

definition rc_launch :: "rc_env \<Rightarrow> rc_state \<Rightarrow> rc_state" where
  "rc_launch e s =
    (let (r, a, w) = PP_identificat_mainfunction e (r_auth s, r_w s);
         s = s\<lparr>r_auth := a, r_w := w\<rparr>
     in if r = PP_AUTH_SUCCESS then
          s\<lparr>r_fotaAuthResult := 1, r_st := (if r_fotaUpgradeSt s then RMTCTRL_END else RMTCTRL_COMMAND_LAUNCH)\<rparr>
        else if r = PP_AUTH_FAIL then
          (PP_rmtCtrl_clear (rc_fail_report e PP_RMTCTRL_BCDMAUTHFAIL
             (s\<lparr>r_fotaAuthResult := - 1, r_fotaUpgradeSt := False\<rparr>)))\<lparr>r_st := RMTCTRL_END\<rparr>
        else s)"

text \<open>The table \<^verbatim>\<open>PP_RmtCtrlFunc\<close> in its order; the charge has no entry.\<close>

definition rc_modules :: "rc_env \<Rightarrow> rc_state \<Rightarrow> rc_state" where
  "rc_modules e s = on_blue (PP_bluetoothstart_mainfunction e) (on_camera (PP_CameraCtr_mainfunction e)
     (on_pwr (PP_seatheating_mainfunction e) (on_forbid (PP_startforbid_mainfunction e)
     (on_pwr (PP_ACCtrl_mainfunction e) (on_pwr (PP_startengine_mainfunction e)
     (on_search (PP_searchvehicle_mainfunction e) (on_autodoor (PP_autodoorCtrl_mainfunction e)
     (on_sunroof (PP_sunroofctrl_mainfunction e) (on_door (PP_doorLockCtrl_mainfunction e) s)))))))))"

definition rc_command :: "rc_env \<Rightarrow> rc_state \<Rightarrow> rc_state" where
  "rc_command e s = (let s = rc_modules e s in if PP_rmtCtrl_end s then s\<lparr>r_st := RMTCTRL_END\<rparr> else s)"

definition rc_phase_step :: "rc_env \<Rightarrow> rc_state \<Rightarrow> rc_state" where
  "rc_phase_step e s = (case r_st s of
     RMTCTRL_IDLE \<Rightarrow> rc_idle e s
   | RMTCTRL_IDENTIFICAT_QUERY \<Rightarrow> rc_query e s
   | RMTCTRL_IDENTIFICAT_LAUNCH \<Rightarrow> rc_launch e s
   | RMTCTRL_COMMAND_LAUNCH \<Rightarrow> rc_command e s
   | RMTCTRL_END \<Rightarrow> (on_world PP_can_mcu_sleep s)\<lparr>r_st := RMTCTRL_IDLE\<rparr>)"

definition rc_turn :: "rc_env \<Rightarrow> rc_msg option \<Rightarrow> rc_state \<Rightarrow> rc_state" where
  "rc_turn e mo s =
    (let s = (if e_sockOpen e then PP_rmtCtrl_do_rcvMsg e mo s else s);
         s = rc_phase_step e s;
         s = on_chg (PP_ChargeCtrl_mainfunction e (r_fotaUpgradeSt s)) s;
         s = on_world (PP_can_send_cycle e) s
     in s\<lparr>r_sleepflag := g_sleep (r_chg s) \<and> p_ac_sleep (r_pwr s) \<and> p_seat_sleep (r_pwr s)
           \<and> GetPP_Wake_Sleep e (r_pwr s) (r_chg s)\<rparr>)"

section \<open>Calls of other threads\<close>

abbreviation (input) "BT_VEHILCLE_STATUS_RESP \<equiv> 0x0B :: u8"

definition bt_resp_type :: "u8 \<Rightarrow> u8" where
  "bt_resp_type obj = (if obj = 0x0A then BT_VEHILCLE_STATUS_RESP else obj - 2)"

definition PP_rmtCtrl_vehicle_status_InformBt :: "rc_env \<Rightarrow> u8 \<Rightarrow> rc_world \<Rightarrow> rc_world" where
  "PP_rmtCtrl_vehicle_status_InformBt e cmd = rc_emit (ToBleStatus cmd
     [if PP_rmtCtrl_cfg_chargeOnOffSt e \<noteq> 0 then 2 else 1, if PP_rmtCtrl_cfg_bdmreardoorSt e \<noteq> 0 then 1 else 2, 1,
      if e_RmtStartSt e \<noteq> 0 then 2 else 1, PP_rmtCtrl_cfg_bt_sunroofst e, if e_doorlockSt e \<noteq> 0 then 1 else 2])"

definition PP_rmtCtrl_BluetoothCtrlReq :: "rc_env \<Rightarrow> u8 \<Rightarrow> u8 \<Rightarrow> rc_state \<Rightarrow> rc_state" where
  "PP_rmtCtrl_BluetoothCtrlReq e obj cmd s =
    (let q = BtReq cmd;
         (r, s) =
          (if obj = 3 then ask_door (SetPP_doorLockCtrl_Request q) s
           else if obj = 4 then ask_sunroof (SetPP_sunroofctrl_Request q) s
           else if obj = 5 then ask_autodoor (SetPP_autodoorCtrl_Request q) s
           else if obj = 6 then ask_search (SetPP_searchvehicle_Request q) s
           else if obj = 7 then ask_chg (SetPP_ChargeCtrl_Request e q) s
           else if obj = 8 then ask_blue (SetPP_bluetoothstart_Request q) s
           else if obj = 0x0A then (0, on_world (PP_rmtCtrl_vehicle_status_InformBt e cmd) s)
           else (0, s))
     in if r = PP_LOCK_ERR_FOTAUPDATE
        then on_world (rc_emit (ToBle (bt_resp_type obj) cmd (Some BT_FAIL) None)) s else s)"

definition PP_rmtCtrl_HuCtrlReq :: "rc_env \<Rightarrow> u8 \<Rightarrow> rc_request \<Rightarrow> rc_state \<Rightarrow> rc_state" where
  "PP_rmtCtrl_HuCtrlReq e obj q s = (if obj = 7 then on_chg (\<lambda>x. snd (SetPP_ChargeCtrl_Request e q x)) s else s)"

text \<open>The shell command; \<^verbatim>\<open>reqType\<close> is an unsigned 16-bit number.\<close>

definition PP_rmtCtrl_SetCtrlReq :: "u16 \<Rightarrow> rc_state \<Rightarrow> rc_state" where
  "PP_rmtCtrl_SetCtrlReq rt s =
    (let t = uint rt; obj = (t div 256) mod 256 in
     if r_fotaUpgradeSt s then s
     else if obj = 0 then s\<lparr>r_door := PP_doorLockCtrl_SetCtrlReq t (r_door s)\<rparr>
     else if obj = 1 then s\<lparr>r_sunroof := PP_sunroofctrl_SetCtrlReq t (r_sunroof s)\<rparr>
     else if obj = 2 then s\<lparr>r_autodoor := PP_autodoorCtrl_SetCtrlReq t (r_autodoor s)\<rparr>
     else if obj = 3 then s\<lparr>r_search := PP_searchvehicle_SetCtrlReq t (r_search s)\<rparr>
     else if obj = 4 \<or> obj = 5 then s\<lparr>r_camera := PP_CameraCtrl_SetCtrlReq t (r_camera s)\<rparr>
     else if t \<in> {0x600, 0x601, 0x602, 0x603, 0x604} then s\<lparr>r_pwr := PP_ACCtrl_SetCtrlReq t (r_pwr s)\<rparr>
     else if obj = 8 then s\<lparr>r_pwr := PP_startengine_SetCtrlReq t (r_pwr s)\<rparr>
     else if obj = 9 then s\<lparr>r_forbid := PP_startforbid_SetCtrlReq t (r_forbid s)\<rparr>
     else if obj = 10 then s\<lparr>r_blue := PP_bluetoothstart_SetCtrlReq (r_blue s)\<rparr>
     else s)"

definition SetPP_rmtCtrl_AuthRequest :: "rc_state \<Rightarrow> rc_state" where
  "SetPP_rmtCtrl_AuthRequest s = s\<lparr>r_fotaAuthReq := True, r_fotaAuthResult := 0\<rparr>"

definition GetPP_rmtCtrl_AuthResult :: "rc_state \<Rightarrow> u8" where
  "GetPP_rmtCtrl_AuthResult s = word_of_int (r_fotaAuthResult s)"

text \<open>The lock and the result are those of \<open>SetPP_rmtCtrl_FOTA_startInform\<close> in the theory Lock; this is the rest.\<close>

definition rc_fota_startInform :: "rc_state \<Rightarrow> int \<times> rc_state" where
  "rc_fota_startInform s =
    (let (r, flag, started) = SetPP_rmtCtrl_FOTA_startInform (w_lock (r_w s)); s = s\<lparr>r_w := (r_w s)\<lparr>w_lock := flag\<rparr>\<rparr>
     in (r, if started
            then (on_chg SetPP_ChargeCtrl_appointPara s)\<lparr>r_fotaAuthReq := True, r_fotaUpgradeSt := True, r_fotaAuthResult := 0\<rparr>
            else s))"

definition SetPP_rmtCtrl_FOTA_endInform :: "rc_state \<Rightarrow> rc_state" where
  "SetPP_rmtCtrl_FOTA_endInform s = on_world (rc_clear_lock PP_LOCK_OTA_FOTAUPDATE) (s\<lparr>r_fotaUpgradeSt := False\<rparr>)"

section \<open>Runs\<close>

text \<open>The update thread asks for the mode of the vehicle network: 2 for the start of an update, 1 for its end, 0 when it stops.\<close>

datatype ota_mode = OtaClear | OtaLeave | OtaEnter

fun ota_data :: "ota_mode \<Rightarrow> u8" where
  "ota_data OtaClear = 0x00"
| "ota_data OtaLeave = 0x01"
| "ota_data OtaEnter = 0x02"

definition wsrv_ota_request :: "ota_mode \<Rightarrow> rc_state \<Rightarrow> rc_state" where
  "wsrv_ota_request m s = on_world (PP_can_send_data PP_CAN_OTAREQ (ota_data m) 0) s"

datatype rc_event =
    Turn rc_env "rc_msg option"
  | Bluetooth rc_env u8 u8
  | HeadUnit rc_env u8 rc_request
  | Shell u16
  | ShellSeat int u8
  | Random bytes
  | FotaStart
  | FotaEnd
  | FotaAuth
  | SendDone nat
  | OtaRequest ota_mode

fun rc_do :: "rc_event \<Rightarrow> rc_state \<Rightarrow> rc_state" where
  "rc_do (Turn e mo) s = rc_turn e mo s"
| "rc_do (Bluetooth e obj cmd) s = PP_rmtCtrl_BluetoothCtrlReq e obj cmd s"
| "rc_do (HeadUnit e obj q) s = PP_rmtCtrl_HuCtrlReq e obj q s"
| "rc_do (Shell rt) s = PP_rmtCtrl_SetCtrlReq rt s"
| "rc_do (ShellSeat t level) s = s\<lparr>r_pwr := PP_seatheating_SetCtrlReq t level (r_pwr s)\<rparr>"
| "rc_do (Random dt) s = s\<lparr>r_auth := PP_identificat_rcvdata dt (r_auth s)\<rparr>"
| "rc_do FotaStart s = snd (rc_fota_startInform s)"
| "rc_do FotaEnd s = SetPP_rmtCtrl_FOTA_endInform s"
| "rc_do FotaAuth s = SetPP_rmtCtrl_AuthRequest s"
| "rc_do (SendDone i) s = on_world (PP_rmtCtrl_send_cb i) s"
| "rc_do (OtaRequest m) s = wsrv_ota_request m s"

inductive rc_reach :: "u8 option \<Rightarrow> rc_state \<Rightarrow> bool" for forb where
  start: "rc_reach forb (PP_rmtCtrl_init forb)"
| step: "rc_reach forb s \<Longrightarrow> rc_reach forb (rc_do ev s)"

end
