(* ===== verification/RcFields.thy ===== *)
theory RcFields
  imports RcMain
begin

text \<open>
  The bit fields of the control messages: what \<open>set_field\<close> does to a word, which bits of message 0x440 belong to
  which actuator (\<open>typ_mask\<close>), and which frames move something (\<open>moves\<close>). The relation \<open>rc_quiet\<close> says that a
  step of the world only appends to what was sent and, when no command is set, appends no such frame; it is proved
  for every operation of the world.
\<close>

section \<open>Fields of a word\<close>

lemma bit_set_field:
  "bit (set_field v b bl data) n \<longleftrightarrow>
     n < 64 \<and> (bit v n \<and> \<not> (b + 1 - bl \<le> n \<and> n < b + 1 - bl + bl) \<or> b + 1 - bl \<le> n \<and> bit data (n - (b + 1 - bl)))"
  by (auto simp: set_field_def bit_simps dest: bit_imp_le_length)

definition field_mask :: "nat \<Rightarrow> nat \<Rightarrow> u64" where "field_mask b bl = push_bit (b + 1 - bl) (mask bl)"

lemma bit_above_bound: "unat (data :: u8) < 2 ^ bl \<Longrightarrow> bit data i \<Longrightarrow> i < bl"
proof -
  assume a: "unat data < 2 ^ bl" and b: "bit data i"
  then have "bit (unat data) i" by (simp add: bit_unsigned_iff)
  then have "2 ^ i \<le> unat data" by (metis bit_nat_def div_less even_zero not_le)
  then have "(2 :: nat) ^ i < 2 ^ bl" using a by (rule le_less_trans)
  then show "i < bl" by simp
qed

lemma set_field_other:
  assumes "unat data < 2 ^ bl" "field_mask b bl AND m = 0"
  shows "set_field v b bl data AND m = v AND m"
proof (rule bit_word_eqI)
  fix n assume n: "n < LENGTH(64)"
  have "\<not> (bit m n \<and> b + 1 - bl \<le> n \<and> n < b + 1 - bl + bl)"
  proof
    assume *: "bit m n \<and> b + 1 - bl \<le> n \<and> n < b + 1 - bl + bl"
    then have "n - (b + 1 - bl) < bl" by arith
    then have "bit (field_mask b bl AND m) n" using n * by (simp add: field_mask_def bit_simps)
    then show False using assms(2) by simp
  qed
  moreover have "b + 1 - bl \<le> n \<Longrightarrow> bit data (n - (b + 1 - bl)) \<Longrightarrow> n < b + 1 - bl + bl"
    using bit_above_bound [OF assms(1)] by fastforce
  ultimately show "bit (set_field v b bl data AND m) n \<longleftrightarrow> bit (v AND m) n"
    using n by (auto simp: bit_and_iff bit_set_field)
qed

lemma set_field_clear: "set_field v b bl 0 AND field_mask b bl = 0"
  by (rule bit_word_eqI) (auto simp: bit_and_iff bit_set_field field_mask_def bit_simps)

text \<open>The field reads back when the value fits.\<close>

definition get_field :: "u64 \<Rightarrow> nat \<Rightarrow> nat \<Rightarrow> u64" where "get_field v b bl = drop_bit (b + 1 - bl) v AND mask bl"

lemma get_set_field:
  assumes "unat data < 2 ^ bl" "bl \<le> b + 1" "b < 64"
  shows "get_field (set_field v b bl data) b bl = ucast data"
proof (rule bit_word_eqI)
  fix n assume n: "n < LENGTH(64)"
  show "bit (get_field (set_field v b bl data) b bl) n \<longleftrightarrow> bit (ucast data :: u64) n"
    using n assms(2,3) bit_above_bound [OF assms(1), of n]
    by (auto simp: get_field_def bit_simps bit_set_field dest: bit_imp_le_length)
qed

section \<open>The bits of the actuators\<close>

fun typ_mask :: "PP_can_ctrl_typ \<Rightarrow> u64" where
  "typ_mask PP_CAN_DOORLOCK = 0x30000"
| "typ_mask PP_CAN_SEARCH = 0x30000"
| "typ_mask PP_CAN_AUTODOOR = 0xC0000"
| "typ_mask PP_CAN_SUNROOF = 0xE00000000000"
| "typ_mask PP_CAN_SUNSHADE = 0x300000000"
| "typ_mask PP_CAN_ENGINE = 0x3"
| "typ_mask PP_CAN_CHAGER = 0x1C"
| "typ_mask PP_CAN_FORBID = 0xC0000000"
| "typ_mask PP_CAN_OTAREQ = 0xC000000000"
| "typ_mask PP_CAN_CERTIFICATE = 0x800000"
| "typ_mask PP_CAN_BLUESTART = 0x10000000000"
| "typ_mask _ = 0"

definition actuator_mask :: u64 where "actuator_mask = 0xE103C00F0003"

text \<open>The largest value of each field, and whether a value fits.\<close>

fun typ_max :: "PP_can_ctrl_typ \<Rightarrow> u8" where
  "typ_max PP_CAN_SUNROOF = 7"
| "typ_max PP_CAN_CERTIFICATE = 1"
| "typ_max PP_CAN_BLUESTART = 1"
| "typ_max _ = 3"

definition typ_fits :: "PP_can_ctrl_typ \<Rightarrow> u8 \<Rightarrow> bool" where
  "typ_fits ct d = (ct \<in> {PP_CAN_ACCTRL, PP_CAN_CHAGER, PP_CAN_SEATHEAT} \<or> d \<le> typ_max ct)"

lemma field_masks [simp]:
  "field_mask 17 2 = 0x30000" "field_mask 47 3 = 0xE00000000000" "field_mask 33 2 = 0x300000000"
  "field_mask 19 2 = 0xC0000" "field_mask (Suc 0) 2 = 0x3" "field_mask 4 (Suc 0) = 0x10" "field_mask 3 2 = 0xC"
  "field_mask 31 2 = 0xC0000000" "field_mask 39 2 = 0xC000000000" "field_mask 23 (Suc 0) = 0x800000"
  "field_mask 40 (Suc 0) = 0x10000000000"
  by (simp_all add: field_mask_def mask_eq_exp_minus_1 push_bit_eq_mult)

lemma w_440_simps [simp]:
  "w_440 (rc_emit c w) = w_440 w" "w_440 (rc_clear_lock obj w) = w_440 w"
  "w_440 (PP_rmtCtrl_StInformTsp e p w) = w_440 w" "w_440 (PP_rmtCtrl_inform_tb e t cm ok w) = w_440 w"
  "w_440 (rc_set_forbiden e x w) = w_440 w" "w_440 (PP_can_send_identificat dt w) = w_440 w"
  "w_440 (PP_rmtCtrl_send_cb i w) = w_440 w" "w_440 (PP_send_virtual_on_to_mcu on w) = w_440 w"
  "w_440 (PP_canSend_setbit CAN_ID_445 b bl d None w) = w_440 w"
  by (simp_all add: rc_emit_def rc_clear_lock_def PP_rmtCtrl_StInformTsp_def PP_rmtCtrl_inform_tb_def Let_def
      rc_set_forbiden_def PP_can_send_identificat_def PP_canSend_setbit_def PP_send_event_info_to_mcu_def
      PP_rmtCtrl_send_cb_def PP_send_virtual_on_to_mcu_def)

lemma w_440_set440 [simp]: "w_440 (PP_canSend_setbit CAN_ID_440 b bl d None w) = set_field (w_440 w) b bl d"
  by (simp add: PP_canSend_setbit_def Let_def)

lemma u8_le_unat: "(d :: u8) \<le> 3 \<Longrightarrow> unat d < 4" "(d :: u8) \<le> 7 \<Longrightarrow> unat d < 8" "(d :: u8) \<le> 1 \<Longrightarrow> unat d < 2"
  by (simp_all add: word_le_nat_alt)

lemma set_field_masked:
  "(d :: u8) \<le> 3 \<Longrightarrow> field_mask b 2 AND m = 0 \<Longrightarrow> set_field v b 2 d AND m = v AND m"
  "(d :: u8) \<le> 7 \<Longrightarrow> field_mask b 3 AND m = 0 \<Longrightarrow> set_field v b 3 d AND m = v AND m"
  "(d :: u8) \<le> 1 \<Longrightarrow> field_mask b (Suc 0) AND m = 0 \<Longrightarrow> set_field v b (Suc 0) d AND m = v AND m"
  by (rule set_field_other; auto dest: u8_le_unat)+

lemma send_data_other:
  assumes "typ_fits ct d" "typ_mask ct AND m = 0"
  shows "w_440 (PP_can_send_data ct d para w) AND m = w_440 w AND m"
proof -
  have c: "0x1C AND m = 0 \<Longrightarrow> 0x10 AND m = 0 \<and> 0xC AND m = 0" for m :: u64
  proof -
    assume *: "0x1C AND m = 0"
    have "0x10 AND m = 0x10 AND (0x1C AND m)" "0xC AND m = 0xC AND (0x1C AND m)"
      by (simp_all flip: "and.assoc")
    then show ?thesis using * by simp
  qed
  show ?thesis
    using assms by (cases ct) (auto simp: PP_can_send_data_def typ_fits_def Let_def set_field_masked dest: c)
qed

lemma send_data_clean:
  assumes "ct \<notin> {PP_CAN_ACCTRL, PP_CAN_CHAGER, PP_CAN_SEATHEAT}"
  shows "w_440 (PP_can_send_data ct 0 para w) AND typ_mask ct = 0"
  using assms set_field_clear [of "w_440 w" 17 2] set_field_clear [of "w_440 w" 47 3] set_field_clear [of "w_440 w" 33 2]
    set_field_clear [of "w_440 w" 19 2] set_field_clear [of "w_440 w" 1 2] set_field_clear [of "w_440 w" 31 2]
    set_field_clear [of "w_440 w" 39 2] set_field_clear [of "w_440 w" 23 1] set_field_clear [of "w_440 w" 40 1]
  by (cases ct) (simp_all add: PP_can_send_data_def Let_def)

section \<open>Frames that move something\<close>

definition moves :: "rc_call \<Rightarrow> bool" where
  "moves c = (case c of
     Scom SCOM_MPU_MCU_0x440 b \<Rightarrow> list_ex (\<lambda>i. b ! i AND PP_can_unpack actuator_mask ! i \<noteq> 0) [0..<8]
   | _ \<Rightarrow> False)"

lemma unpack_nth: "i < 8 \<Longrightarrow> PP_can_unpack v ! i = ucast (drop_bit (i * 8) v)"
  by (simp add: PP_can_unpack_def)

lemma not_moves_unpack:
  assumes "v AND actuator_mask = 0"
  shows "\<not> moves (Scom SCOM_MPU_MCU_0x440 (PP_can_unpack v))"
proof -
  have "PP_can_unpack v ! i AND PP_can_unpack actuator_mask ! i = 0" if "i < 8" for i
  proof -
    have "PP_can_unpack v ! i AND PP_can_unpack actuator_mask ! i = ucast (drop_bit (i * 8) (v AND actuator_mask))"
      using that by (simp add: unpack_nth unsigned_and_eq drop_bit_and)
    then show ?thesis using assms by simp
  qed
  then show ?thesis by (simp add: moves_def list_ex_iff)
qed

lemma not_moves [simp]:
  "\<not> moves (SpWrite i p)" "\<not> moves (ToBle t d r x)" "\<not> moves (ToBleStatus d xs)" "\<not> moves RingWakeup"
  "\<not> moves (InformHU ev)" "\<not> moves IviAppointment" "\<not> moves SaveAcBook" "\<not> moves SaveChargeBook"
  "k \<noteq> SCOM_MPU_MCU_0x440 \<Longrightarrow> \<not> moves (Scom k b)"
  by (cases k; simp add: moves_def)+

definition rc_quiet :: "rc_world \<Rightarrow> rc_world \<Rightarrow> bool" where
  "rc_quiet w w' \<longleftrightarrow> w_440 w' AND actuator_mask = w_440 w AND actuator_mask
     \<and> (\<exists>cs. w_out w' = w_out w @ cs \<and> (w_440 w AND actuator_mask = 0 \<longrightarrow> (\<forall>c\<in>set cs. \<not> moves c)))"

named_theorems quiet_intros

lemma rc_quiet_refl [quiet_intros]: "rc_quiet w w"
  by (simp add: rc_quiet_def)

lemma rc_quiet_trans: "rc_quiet w w1 \<Longrightarrow> rc_quiet w1 w2 \<Longrightarrow> rc_quiet w w2"
  unfolding rc_quiet_def by (metis UnE append_assoc set_append)

lemma quietI:
  assumes "w_440 w' AND actuator_mask = w_440 w AND actuator_mask" "w_out w' = w_out w @ cs"
    "w_440 w AND actuator_mask = 0 \<Longrightarrow> \<forall>c\<in>set cs. \<not> moves c"
  shows "rc_quiet w w'"
  using assms unfolding rc_quiet_def by metis

lemma quiet_emit [quiet_intros]: "\<not> moves c \<Longrightarrow> rc_quiet w0 w \<Longrightarrow> rc_quiet w0 (rc_emit c w)"
  by (erule rc_quiet_trans) (rule quietI [where cs = "[c]"]; simp add: rc_emit_def)

lemma quiet_same [quiet_intros]:
  "rc_quiet w0 w \<Longrightarrow> rc_quiet w0 (w\<lparr>w_lock := l\<rparr>)" "rc_quiet w0 w \<Longrightarrow> rc_quiet w0 (w\<lparr>w_lastsend := t\<rparr>)"
  "rc_quiet w0 w \<Longrightarrow> rc_quiet w0 (w\<lparr>w_virtual_on := x\<rparr>)" "rc_quiet w0 w \<Longrightarrow> rc_quiet w0 (w\<lparr>w_nodes := ns\<rparr>)"
  "rc_quiet w0 w \<Longrightarrow> rc_quiet w0 (w\<lparr>w_ulMsgCnt := n\<rparr>)" "rc_quiet w0 w \<Longrightarrow> rc_quiet w0 (w\<lparr>w_forbiden := f\<rparr>)"
  by (simp_all add: rc_quiet_def)

lemma quiet_clear_lock [quiet_intros]: "rc_quiet w0 w \<Longrightarrow> rc_quiet w0 (rc_clear_lock obj w)"
  by (simp add: rc_clear_lock_def quiet_intros)

lemma quiet_inform [quiet_intros]: "rc_quiet w0 w \<Longrightarrow> rc_quiet w0 (PP_rmtCtrl_StInformTsp e p w)"
  by (simp add: PP_rmtCtrl_StInformTsp_def Let_def quiet_intros)

lemma quiet_inform_tb [quiet_intros]: "rc_quiet w0 w \<Longrightarrow> rc_quiet w0 (PP_rmtCtrl_inform_tb e t d ok w)"
  by (simp add: PP_rmtCtrl_inform_tb_def quiet_intros)

lemma quiet_forbiden [quiet_intros]: "rc_quiet w0 w \<Longrightarrow> rc_quiet w0 (rc_set_forbiden e v w)"
  by (simp add: rc_set_forbiden_def quiet_intros)

lemma quiet_virtual [quiet_intros]: "rc_quiet w0 w \<Longrightarrow> rc_quiet w0 (PP_send_virtual_on_to_mcu on w)"
  by (simp add: PP_send_virtual_on_to_mcu_def quiet_intros)

lemma quiet_sleep [quiet_intros]: "rc_quiet w0 w \<Longrightarrow> rc_quiet w0 (PP_can_mcu_sleep w)"
  by (simp add: PP_can_mcu_sleep_def quiet_intros)

lemma quiet_awaken [quiet_intros]: "rc_quiet w0 w \<Longrightarrow> rc_quiet w0 (PP_can_mcu_awaken w)"
proof -
  assume q: "rc_quiet w0 w"
  have "rc_quiet w0 ((PP_send_virtual_on_to_mcu 1 ^^ n) w)" for n
    by (induction n) (simp_all add: q quiet_intros)
  then show ?thesis by (simp add: PP_can_mcu_awaken_def)
qed

lemma quiet_identificat [quiet_intros]: "rc_quiet w0 w \<Longrightarrow> rc_quiet w0 (PP_can_send_identificat dt w)"
  by (simp add: PP_can_send_identificat_def PP_canSend_setbit_def PP_send_event_info_to_mcu_def quiet_intros)

lemma quiet_set445 [quiet_intros]: "rc_quiet w0 w \<Longrightarrow> rc_quiet w0 (PP_canSend_setbit CAN_ID_445 b bl d None w)"
  by (erule rc_quiet_trans)
    (rule quietI [where cs = "[Scom SCOM_MPU_MCU_0x445 (PP_can_unpack (set_field (w_445 w) b bl d))]"];
     simp add: PP_canSend_setbit_def Let_def rc_emit_def)

lemma quiet_set440 [quiet_intros]:
  assumes "unat d < 2 ^ bl" "field_mask b bl AND actuator_mask = 0" "rc_quiet w0 w"
  shows "rc_quiet w0 (PP_canSend_setbit CAN_ID_440 b bl d None w)"
proof (rule rc_quiet_trans [OF assms(3)])
  let ?v = "set_field (w_440 w) b bl d"
  have v: "?v AND actuator_mask = w_440 w AND actuator_mask" using set_field_other [OF assms(1,2)] .
  show "rc_quiet w (PP_canSend_setbit CAN_ID_440 b bl d None w)"
  proof (rule quietI [where cs = "[Scom SCOM_MPU_MCU_0x440 (PP_can_unpack ?v)]"])
    show "w_440 (PP_canSend_setbit CAN_ID_440 b bl d None w) AND actuator_mask = w_440 w AND actuator_mask"
      using v by simp
    show "w_out (PP_canSend_setbit CAN_ID_440 b bl d None w)
        = w_out w @ [Scom SCOM_MPU_MCU_0x440 (PP_can_unpack ?v)]"
      by (simp add: PP_canSend_setbit_def Let_def rc_emit_def)
    show "w_440 w AND actuator_mask = 0 \<Longrightarrow> \<forall>c\<in>set [Scom SCOM_MPU_MCU_0x440 (PP_can_unpack ?v)]. \<not> moves c"
      using v not_moves_unpack [of ?v] by simp
  qed
qed

lemma quiet_unpack [quiet_intros]:
  "rc_quiet w0 w \<Longrightarrow> rc_quiet w0 (rc_emit (Scom SCOM_MPU_MCU_0x440 (PP_can_unpack (w_440 w))) w)"
  by (erule rc_quiet_trans) (rule quietI [where cs = "[Scom SCOM_MPU_MCU_0x440 (PP_can_unpack (w_440 w))]"];
      simp add: rc_emit_def not_moves_unpack)

lemma quiet_cycle [quiet_intros]: "rc_quiet w0 w \<Longrightarrow> rc_quiet w0 (PP_can_send_cycle e w)"
  by (simp add: PP_can_send_cycle_def Let_def actuator_mask_def quiet_intros)

text \<open>The commands of the charge, the update, the certificate and message 0x445 move none of the actuators.\<close>

lemma quiet_send_data [quiet_intros]:
  assumes "ct \<in> {PP_CAN_ACCTRL, PP_CAN_CHAGER, PP_CAN_SEATHEAT}" "rc_quiet w0 w"
  shows "rc_quiet w0 (PP_can_send_data ct d para w)"
  using assms by (auto simp: PP_can_send_data_def Let_def actuator_mask_def intro!: quiet_intros)

end
