(* ===== verification/RcQuiet.thy ===== *)
theory RcQuiet
  imports RcFields
begin

text \<open>
  The parts of a turn that move no actuator: the requests, the monitors, the authentication, the charge and the
  broadcast send none of the frames of \<open>moves\<close> (\<open>rc_quiet\<close>).
\<close>

section \<open>Nothing moves\<close>

lemma quiet_set_lock: "rc_set_lock obj w = (r, w') \<Longrightarrow> rc_quiet w0 w \<Longrightarrow> rc_quiet w0 w'"
  by (auto simp: rc_set_lock_def split: prod.splits intro: quiet_intros)

lemma quiet_locked [quiet_intros]:
  assumes "\<And>c w. rc_quiet w0 w \<Longrightarrow> rc_quiet w0 (snd (f (c, w)))" "rc_quiet w0 (snd s)"
  shows "rc_quiet w0 (snd (snd (rc_locked obj f s)))"
  using assms by (cases s) (auto simp: rc_locked_def split: prod.splits intro: quiet_set_lock)

lemma quiet_ac_cancel: "rc_quiet w0 (snd s) \<Longrightarrow> rc_quiet w0 (snd (ac_tsp_cancel e t i ev ex ks s))"
  by (induction ks arbitrary: s) (simp_all add: Let_def quiet_intros)

lemma quiet_ac_request [quiet_intros]:
  "rc_quiet w0 (snd s) \<Longrightarrow> rc_quiet w0 (snd (snd (SetPP_ACCtrl_Request e q s)))"
  unfolding SetPP_ACCtrl_Request_def
  by (rule quiet_locked; assumption?)
    (auto simp: Let_def ac_tsp_appoint_def quiet_ac_cancel split: rc_request.split intro!: quiet_intros quiet_ac_cancel)

lemma quiet_requests [quiet_intros]:
  "rc_quiet w0 (snd s) \<Longrightarrow> rc_quiet w0 (snd (snd (SetPP_doorLockCtrl_Request q s)))"
  "rc_quiet w0 (snd s) \<Longrightarrow> rc_quiet w0 (snd (snd (SetPP_autodoorCtrl_Request q s)))"
  "rc_quiet w0 (snd s) \<Longrightarrow> rc_quiet w0 (snd (snd (SetPP_searchvehicle_Request q s)))"
  "rc_quiet w0 (snd s) \<Longrightarrow> rc_quiet w0 (snd (snd (SetPP_sunroofctrl_Request q s)))"
  "rc_quiet w0 (snd s) \<Longrightarrow> rc_quiet w0 (snd (snd (SetPP_startforbid_Request q s)))"
  "rc_quiet w0 (snd s) \<Longrightarrow> rc_quiet w0 (snd (snd (SetPP_CameraCtrl_Request q s)))"
  "rc_quiet w0 (snd s) \<Longrightarrow> rc_quiet w0 (snd (snd (SetPP_bluetoothstart_Request q s)))"
  "rc_quiet w0 (snd t) \<Longrightarrow> rc_quiet w0 (snd (snd (SetPP_startengine_Request q t)))"
  "rc_quiet w0 (snd t) \<Longrightarrow> rc_quiet w0 (snd (snd (SetPP_seatheating_Request q t)))"
  unfolding SetPP_doorLockCtrl_Request_def SetPP_autodoorCtrl_Request_def SetPP_searchvehicle_Request_def
    SetPP_sunroofctrl_Request_def SetPP_startforbid_Request_def SetPP_CameraCtrl_Request_def
    SetPP_bluetoothstart_Request_def SetPP_startengine_Request_def SetPP_seatheating_Request_def
  by (rule quiet_locked; simp)+

lemma quiet_charge_data [quiet_intros]:
  "rc_quiet w0 w \<Longrightarrow> rc_quiet w0 (PP_can_send_data PP_CAN_CHAGER d para w)"
  by (rule quiet_send_data) simp_all

lemma quiet_charge_request [quiet_intros]:
  "rc_quiet w0 (snd s) \<Longrightarrow> rc_quiet w0 (snd (snd (SetPP_ChargeCtrl_Request e q s)))"
  unfolding SetPP_ChargeCtrl_Request_def
  by (rule quiet_locked; assumption?)
    (auto simp: Let_def charge_tsp_request_def charge_hu_request_def split: rc_request.split prod.splits
      intro!: quiet_intros)

lemma quiet_charge_self: "charge_self e cmd s = (r, g, w) \<Longrightarrow> rc_quiet w0 (snd s) \<Longrightarrow> rc_quiet w0 w"
  using quiet_charge_request [of w0 s e "TboxReq (unat cmd)"] by (simp add: charge_self_def)

lemma quiet_charge_self' [quiet_intros]: "rc_quiet w0 (snd s) \<Longrightarrow> rc_quiet w0 (snd (snd (charge_self e cmd s)))"
  by (simp add: charge_self_def quiet_intros)

lemma quiet_monitor_due [quiet_intros]: "rc_quiet w0 (snd s) \<Longrightarrow> rc_quiet w0 (snd (charge_monitor_due e s))"
  by (cases s) (auto simp: charge_monitor_due_def Let_def split: prod.splits
      intro!: quiet_intros elim!: quiet_charge_self)

lemma quiet_monitor_retry [quiet_intros]: "rc_quiet w0 (snd s) \<Longrightarrow> rc_quiet w0 (snd (charge_monitor_retry e f s))"
  by (cases s) (auto simp: charge_monitor_retry_def Let_def intro!: quiet_intros)

lemma quiet_monitor_finish [quiet_intros]: "rc_quiet w0 (snd s) \<Longrightarrow> rc_quiet w0 (snd (charge_monitor_finish e f s))"
  by (cases s) (auto simp: charge_monitor_finish_def Let_def intro!: quiet_intros)

lemma quiet_informTsp [quiet_intros]: "rc_quiet w0 (snd s) \<Longrightarrow> rc_quiet w0 (snd (PP_ChargeCtrl_informTsp e s))"
  by (cases s) (auto simp: PP_ChargeCtrl_informTsp_def Let_def intro!: quiet_intros)

lemma quiet_chargeStMonitor [quiet_intros]:
  assumes "rc_quiet w0 (snd s)"
  shows "rc_quiet w0 (snd (PP_ChargeCtrl_chargeStMonitor e f s))"
proof -
  obtain g w where gw: "charge_monitor_finish e f (charge_monitor_retry e f (charge_monitor_due e s)) = (g, w)" by force
  have "rc_quiet w0 (snd (charge_monitor_finish e f (charge_monitor_retry e f (charge_monitor_due e s))))"
    by (intro quiet_intros assms)
  then have "rc_quiet w0 w" by (simp add: gw)
  then have "rc_quiet w0 (snd (PP_ChargeCtrl_informTsp e (g', w)))" for g' by (simp add: quiet_informTsp)
  then show ?thesis using \<open>rc_quiet w0 w\<close>
    by (auto simp: PP_ChargeCtrl_chargeStMonitor_def gw Let_def split: prod.splits intro!: quiet_intros)
      (metis snd_conv)+
qed

lemma quiet_charge_steps [quiet_intros]:
  "rc_quiet w0 (snd s) \<Longrightarrow> rc_quiet w0 (snd (charge_idle e s))"
  "rc_quiet w0 (snd s) \<Longrightarrow> rc_quiet w0 (snd (charge_respwait e s))"
  "rc_quiet w0 (snd s) \<Longrightarrow> rc_quiet w0 (snd (PP_ChargeCtrl_EndHandle e s))"
  by (cases s; auto simp: charge_idle_def PP_ChargeCtrl_startHandle_def charge_respwait_def
      PP_ChargeCtrl_EndHandle_def Let_def split: prod.splits intro!: quiet_intros)+

lemma quiet_charge [quiet_intros]:
  assumes "rc_quiet w0 (snd s)"
  shows "rc_quiet w0 (snd (PP_ChargeCtrl_mainfunction e f s))"
proof -
  obtain g w where gw: "PP_ChargeCtrl_chargeStMonitor e f s = (g, w)" by force
  then have q: "rc_quiet w0 w" using quiet_chargeStMonitor [OF assms, of e f] by simp
  obtain g' w' where e: "PP_ChargeCtrl_EndHandle e (g, w) = (g', w')" by force
  then have "rc_quiet w0 w'" using quiet_charge_steps(3) [of w0 "(g, w)" e] q by simp
  then show ?thesis using q e
    by (auto simp: PP_ChargeCtrl_mainfunction_def gw Let_def split: rc_phase.split intro!: quiet_intros)
qed

lemma quiet_identificat_main [quiet_intros]:
  "rc_quiet w0 (snd s) \<Longrightarrow> rc_quiet w0 (snd (snd (PP_identificat_mainfunction e s)))"
  by (cases s) (auto simp: PP_identificat_mainfunction_def split: auth_stage.split intro!: quiet_intros)

lemma quiet_ac_request': "snd (SetPP_ACCtrl_Request e q s) = (p, w) \<Longrightarrow> rc_quiet w0 (snd s) \<Longrightarrow> rc_quiet w0 w"
  by (metis quiet_ac_request snd_conv)

lemma quiet_monitor_ac_due: "rc_quiet w0 (snd s) \<Longrightarrow> rc_quiet w0 (snd (ac_monitor_due e i s))"
  by (cases s) (auto simp: ac_monitor_due_def Let_def split: prod.splits elim!: quiet_ac_request')

lemma quiet_monitor_step: "rc_quiet w0 (snd s) \<Longrightarrow> rc_quiet w0 (snd (ac_monitor_step e i s))"
  using quiet_monitor_ac_due [of w0 s e i]
  by (cases "ac_monitor_due e i s") (auto simp: ac_monitor_step_def Let_def intro!: quiet_intros)

lemma quiet_ac_monitor [quiet_intros]: "rc_quiet w0 (snd s) \<Longrightarrow> rc_quiet w0 (snd (PP_AcCtrl_acStMonitor e s))"
proof -
  have "rc_quiet w0 (snd s) \<Longrightarrow> rc_quiet w0 (snd (fold (ac_monitor_step e) ks s))" for ks s
    by (induction ks arbitrary: s) (simp_all add: quiet_monitor_step)
  then show "rc_quiet w0 (snd s) \<Longrightarrow> rc_quiet w0 (snd (PP_AcCtrl_acStMonitor e s))"
    by (simp add: PP_AcCtrl_acStMonitor_def)
qed

lemma quiet_wake [quiet_intros]:
  "rc_quiet w0 (snd s) \<Longrightarrow> rc_quiet w0 (snd (PP_Send_WakeUpTime_to_Mcu e p g s))"
  by (cases s) (auto simp: PP_Send_WakeUpTime_to_Mcu_def Let_def intro!: quiet_intros)

lemma quiet_clear_status [quiet_intros]:
  "rc_quiet w0 (snd s) \<Longrightarrow> rc_quiet w0 (snd (PP_doorLockCtrl_ClearStatus s))"
  "rc_quiet w0 (snd s) \<Longrightarrow> rc_quiet w0 (snd (PP_autodoorCtrl_ClearStatus s))"
  "rc_quiet w0 (snd s) \<Longrightarrow> rc_quiet w0 (snd (PP_searchvehicle_ClearStatus s))"
  "rc_quiet w0 (snd s) \<Longrightarrow> rc_quiet w0 (snd (PP_sunroofctrl_ClearStatus s))"
  "rc_quiet w0 (snd s) \<Longrightarrow> rc_quiet w0 (snd (PP_startforbid_ClearStatus s))"
  "rc_quiet w0 (snd s) \<Longrightarrow> rc_quiet w0 (snd (PP_CameraCtrl_ClearStatus s))"
  "rc_quiet w0 (snd s) \<Longrightarrow> rc_quiet w0 (snd (PP_bluetoothstart_ClearStatus s))"
  "rc_quiet w0 (snd t) \<Longrightarrow> rc_quiet w0 (snd (PP_startengine_ClearStatus t))"
  "rc_quiet w0 (snd t) \<Longrightarrow> rc_quiet w0 (snd (PP_seatheating_ClearStatus t))"
  "rc_quiet w0 (snd t) \<Longrightarrow> rc_quiet w0 (snd (PP_ACCtrl_ClearStatus t))"
  by (cases s; cases t; simp add: PP_doorLockCtrl_ClearStatus_def PP_autodoorCtrl_ClearStatus_def
      PP_searchvehicle_ClearStatus_def PP_sunroofctrl_ClearStatus_def PP_startforbid_ClearStatus_def
      PP_CameraCtrl_ClearStatus_def PP_bluetoothstart_ClearStatus_def PP_startengine_ClearStatus_def
      PP_seatheating_ClearStatus_def PP_ACCtrl_ClearStatus_def quiet_intros)+

end
