(* ===== verification/RcSafe.thy ===== *)
theory RcSafe
  imports RcQuiet
begin

text \<open>
  The invariant of the remote control: the modules work in the command phase only, that phase is entered with a
  valid authentication only, and a command field of message 0x440 is set only while its module waits for the
  vehicle. The interface \<open>rc_field\<close> says that a module changes its own field only and clears it when it stops
  waiting; it is interpreted on the seven modules that own one.
\<close>

section \<open>A module and its field\<close>

locale rc_field =
  fixes main :: "'c \<times> rc_world \<Rightarrow> 'c \<times> rc_world" and phase :: "'c \<Rightarrow> rc_phase" and own :: u64
  assumes other: "main (c, w) = (c', w') \<Longrightarrow> own AND m = 0 \<Longrightarrow> w_440 w' AND m = w_440 w AND m"
    and owned: "main (c, w) = (c', w') \<Longrightarrow> w_440 w' AND own = 0 \<or> phase c' = CT_RESPWAIT
      \<or> w_440 w' AND own = w_440 w AND own \<and> phase c \<noteq> CT_RESPWAIT"
begin

lemma keeps_own:
  "main (c, w) = (c', w') \<Longrightarrow> w_440 w AND own = 0 \<or> phase c = CT_RESPWAIT \<or> S
    \<Longrightarrow> w_440 w' AND own = 0 \<or> phase c' = CT_RESPWAIT \<or> S"
  using owned by metis

lemma keeps_other:
  "main (c, w) = (c', w') \<Longrightarrow> own AND m = 0 \<Longrightarrow> w_440 w AND m = 0 \<or> S \<Longrightarrow> w_440 w' AND m = 0 \<or> S"
  using other by metis

end

lemma field_clean:
  "w_440 (PP_can_send_data PP_CAN_DOORLOCK 0 d w) AND 0x30000 = 0"
  "w_440 (PP_can_send_data PP_CAN_SEARCH 0 d w) AND 0x30000 = 0"
  "w_440 (PP_can_send_data PP_CAN_AUTODOOR 0 d w) AND 0xC0000 = 0"
  "w_440 (PP_can_send_data PP_CAN_FORBID 0 d w) AND 0xC0000000 = 0"
  "w_440 (PP_can_send_data PP_CAN_BLUESTART 0 d w) AND 0x10000000000 = 0"
  "w_440 (PP_can_send_data PP_CAN_ENGINE 0 d w) AND 0x3 = 0"
  "w_440 (PP_can_send_data PP_CAN_SUNROOF 0 d w) AND 0xE00000000000 = 0"
  "w_440 (PP_can_send_data PP_CAN_SUNSHADE 0 d w) AND 0x300000000 = 0"
  using send_data_clean [of PP_CAN_DOORLOCK d w] send_data_clean [of PP_CAN_SEARCH d w]
    send_data_clean [of PP_CAN_AUTODOOR d w] send_data_clean [of PP_CAN_FORBID d w]
    send_data_clean [of PP_CAN_BLUESTART d w] send_data_clean [of PP_CAN_ENGINE d w]
    send_data_clean [of PP_CAN_SUNROOF d w] send_data_clean [of PP_CAN_SUNSHADE d w] by simp_all

lemmas field_simps = send_data_other typ_fits_def field_clean
lemmas main_defs = PP_doorLockCtrl_mainfunction_def PP_autodoorCtrl_mainfunction_def PP_searchvehicle_mainfunction_def
  PP_startforbid_mainfunction_def PP_bluetoothstart_mainfunction_def

text \<open>The sunroof owns two fields: the roof and the shade.\<close>

lemma and_or_zero: "(a OR b) AND m = 0 \<longleftrightarrow> a AND m = 0 \<and> b AND m = 0" for m :: "'a::len word"
  by (simp add: bit.conj_disj_distrib2 or_eq_0_iff)

interpretation door_field: rc_field "PP_doorLockCtrl_mainfunction e" c_st "0x30000" for e
  by unfold_locales (auto simp: main_defs field_simps split: rc_phase.splits if_splits)

interpretation autodoor_field: rc_field "PP_autodoorCtrl_mainfunction e" c_st "0xC0000" for e
  by unfold_locales (auto simp: main_defs field_simps split: rc_phase.splits if_splits)

interpretation search_field: rc_field "PP_searchvehicle_mainfunction e" c_st "0x30000" for e
  by unfold_locales (auto simp: main_defs field_simps split: rc_phase.splits if_splits)

interpretation forbid_field: rc_field "PP_startforbid_mainfunction e" c_st "0xC0000000" for e
  by unfold_locales (auto simp: main_defs field_simps split: rc_phase.splits if_splits)

interpretation blue_field: rc_field "PP_bluetoothstart_mainfunction e" c_st "0x10000000000" for e
  by unfold_locales (auto simp: main_defs field_simps split: rc_phase.splits if_splits)

lemma sunroof_owned: "(0xE00300000000 :: u64) = 0xE00000000000 OR 0x300000000" by simp

lemma and_sunroof: "v AND (0xE00300000000 :: u64) = 0 \<longleftrightarrow> v AND 0xE00000000000 = 0 \<and> v AND 0x300000000 = 0"
  unfolding sunroof_owned using and_or_zero [of "0xE00000000000" "0x300000000" v] by (simp add: "and.commute")

interpretation sunroof_field: rc_field "PP_sunroofctrl_mainfunction e" c_st "0xE00300000000" for e
proof
  fix c w c' w' and m :: u64
  assume *: "PP_sunroofctrl_mainfunction e (c, w) = (c', w')"
  show "w_440 w' AND m = w_440 w AND m" if "0xE00300000000 AND m = 0"
  proof -
    have "0xE00000000000 AND m = 0" "0x300000000 AND m = 0"
      using that unfolding sunroof_owned and_or_zero by simp_all
    then show ?thesis
      using * by (auto simp: PP_sunroofctrl_mainfunction_def field_simps Let_def split: rc_phase.splits if_splits)
  qed
  show "w_440 w' AND 0xE00300000000 = 0 \<or> c_st c' = CT_RESPWAIT
      \<or> w_440 w' AND 0xE00300000000 = w_440 w AND 0xE00300000000 \<and> c_st c \<noteq> CT_RESPWAIT"
    using * unfolding and_sunroof
    by (auto simp: PP_sunroofctrl_mainfunction_def field_simps Let_def split: rc_phase.splits if_splits)
qed

lemma w_440_simps2 [simp]:
  "w_440 (snd (PP_ACCtrl_ClearStatus (p, w))) = w_440 w" "w_440 (snd (PP_seatheating_ClearStatus (p, w))) = w_440 w"
  by (simp_all add: PP_ACCtrl_ClearStatus_def PP_seatheating_ClearStatus_def)

interpretation engine_field: rc_field "PP_startengine_mainfunction e" "\<lambda>p. c_st (p_eng p)" "0x3" for e
  by unfold_locales (auto simp: PP_startengine_mainfunction_def startengine_idle_on_def startengine_idle_off_def
      PP_ACCtrl_ClearStatus_def PP_seatheating_ClearStatus_def
      field_simps Let_def split: rc_phase.splits if_splits prod.splits)

section \<open>The phases\<close>

definition pwr_phases :: "rc_pwr \<Rightarrow> rc_phase list" where
  "pwr_phases p = map c_st [p_eng p, p_ac p, p_seat0 p, p_seat1 p]"

definition rc_phases :: "rc_state \<Rightarrow> rc_phase list" where
  "rc_phases s = map c_st [r_door s, r_autodoor s, r_search s, r_sunroof s, r_forbid s, r_blue s] @ pwr_phases (r_pwr s)"

definition all_idle :: "rc_state \<Rightarrow> bool" where "all_idle s = (\<forall>p\<in>set (rc_phases s). p = CT_IDLE)"

lemma locked_fst:
  "(\<And>w. fst (f (c, w)) = g c) \<Longrightarrow> h (g c) = h c \<Longrightarrow> h (fst (snd (rc_locked obj f (c, w)))) = h c"
  by (auto simp: rc_locked_def split: prod.splits)

lemma request_phase [simp]:
  "c_st (fst (snd (SetPP_doorLockCtrl_Request q (c, w)))) = c_st c"
  "c_st (fst (snd (SetPP_autodoorCtrl_Request q (c, w)))) = c_st c"
  "c_st (fst (snd (SetPP_searchvehicle_Request q (c, w)))) = c_st c"
  "c_st (fst (snd (SetPP_sunroofctrl_Request q (c, w)))) = c_st c"
  "c_st (fst (snd (SetPP_startforbid_Request q (c, w)))) = c_st c"
  "c_st (fst (snd (SetPP_CameraCtrl_Request q (c, w)))) = c_st c"
  "c_st (fst (snd (SetPP_bluetoothstart_Request q (c, w)))) = c_st c"
  by (auto simp: SetPP_doorLockCtrl_Request_def SetPP_autodoorCtrl_Request_def SetPP_searchvehicle_Request_def
      SetPP_sunroofctrl_Request_def SetPP_startforbid_Request_def SetPP_CameraCtrl_Request_def
      SetPP_bluetoothstart_Request_def rc_locked_def split: prod.splits rc_request.splits)

lemma ac_cancel_phases [simp]: "pwr_phases (fst (ac_tsp_cancel e t i ev ex ks s)) = pwr_phases (fst s)"
  by (induction ks arbitrary: s) (auto simp: Let_def pwr_phases_def)

lemma request_phases [simp]:
  "pwr_phases (fst (snd (SetPP_startengine_Request q (p, w)))) = pwr_phases p"
  "pwr_phases (fst (snd (SetPP_seatheating_Request q (p, w)))) = pwr_phases p"
  "pwr_phases (fst (snd (SetPP_ACCtrl_Request e q (p, w)))) = pwr_phases p"
  by (auto simp: SetPP_startengine_Request_def SetPP_seatheating_Request_def rc_locked_def Let_def pwr_phases_def
      split: prod.splits rc_request.splits)
    (auto simp: SetPP_ACCtrl_Request_def rc_locked_def Let_def pwr_phases_def ac_tsp_command_def ac_tsp_appoint_def
      ac_cancel_phases [unfolded pwr_phases_def, simplified]
      split: prod.splits rc_request.splits)

lemma shell_phases [simp]:
  "c_st (PP_doorLockCtrl_SetCtrlReq t c) = c_st c" "c_st (PP_autodoorCtrl_SetCtrlReq t c) = c_st c"
  "c_st (PP_searchvehicle_SetCtrlReq t c) = c_st c" "c_st (PP_sunroofctrl_SetCtrlReq t c) = c_st c"
  "c_st (PP_startforbid_SetCtrlReq t c) = c_st c" "c_st (PP_CameraCtrl_SetCtrlReq t c) = c_st c"
  "c_st (PP_bluetoothstart_SetCtrlReq c) = c_st c" "pwr_phases (PP_ACCtrl_SetCtrlReq t p) = pwr_phases p"
  "pwr_phases (PP_startengine_SetCtrlReq t p) = pwr_phases p" "pwr_phases (PP_seatheating_SetCtrlReq t l p) = pwr_phases p"
  by (simp_all add: PP_doorLockCtrl_SetCtrlReq_def PP_autodoorCtrl_SetCtrlReq_def PP_searchvehicle_SetCtrlReq_def
      PP_sunroofctrl_SetCtrlReq_def PP_startforbid_SetCtrlReq_def PP_CameraCtrl_SetCtrlReq_def
      PP_bluetoothstart_SetCtrlReq_def PP_ACCtrl_SetCtrlReq_def PP_startengine_SetCtrlReq_def
      PP_seatheating_SetCtrlReq_def pwr_phases_def)

lemma monitor_due_phases [simp]: "pwr_phases (fst (ac_monitor_due e i (p, w))) = pwr_phases p"
  using request_phases(3) [of e "TboxReq i" "p\<lparr>p_ac_perform := True\<rparr>" w] request_phases(3) [of e "TboxReq i" p w]
  by (auto simp: ac_monitor_due_def Let_def pwr_phases_def split: prod.splits)

lemma ac_monitor_phases [simp]: "pwr_phases (fst (PP_AcCtrl_acStMonitor e (p, w))) = pwr_phases p"
proof -
  have "pwr_phases (fst (ac_monitor_step e i s)) = pwr_phases (fst s)" for i s
    using monitor_due_phases [of e i "fst s" "snd s"]
    by (cases s) (auto simp: ac_monitor_step_def Let_def pwr_phases_def split: prod.splits)
  then have "pwr_phases (fst (fold (ac_monitor_step e) ks s)) = pwr_phases (fst s)" for ks s
    by (induction ks arbitrary: s) simp_all
  then show ?thesis by (simp add: PP_AcCtrl_acStMonitor_def)
qed

lemma pwr_update_phases [simp]:
  "pwr_phases (p_clear_flags p) = pwr_phases p" "pwr_phases (PP_SeatCtrl_SeatStMonitor p) = pwr_phases p"
  "pwr_phases (rc_power_request a p) = pwr_phases p" "pwr_phases (snd (PP_ACCtrl_cmdoff e p)) = pwr_phases p"
  "pwr_phases (snd (PP_seatheating_cmdoff e p)) = pwr_phases p"
  by (auto simp: p_clear_flags_def PP_SeatCtrl_SeatStMonitor_def rc_power_request_def PP_ACCtrl_cmdoff_def
      PP_seatheating_cmdoff_def Let_def pwr_phases_def)

lemma pwr_fields_phases [simp]:
  "pwr_phases (p\<lparr>p_time := t\<rparr>) = pwr_phases p" "pwr_phases (p\<lparr>p_ac_flag := n\<rparr>) = pwr_phases p"
  "pwr_phases (p\<lparr>p_seat_flag := n\<rparr>) = pwr_phases p"
  "pwr_phases (p\<lparr>p_eng := (p_eng p)\<lparr>c_style := x\<rparr>\<rparr>) = pwr_phases p"
  "pwr_phases (p\<lparr>p_eng := (p_eng p)\<lparr>c_cmd := d, c_req := b\<rparr>\<rparr>) = pwr_phases p"
  by (simp_all add: pwr_phases_def)

lemma checkengine_limit_phases [simp]: "pwr_phases (checkenginetime_limit e p) = pwr_phases p"
  by (simp add: checkenginetime_limit_def Let_def case_prod_beta)

lemma checkengine_phases [simp]: "pwr_phases (PP_rmtCtrl_checkenginetime e p) = pwr_phases p"
  by (simp add: PP_rmtCtrl_checkenginetime_def checkenginetime_off_def checkenginetime_on_def Let_def)

section \<open>Calls that start nothing\<close>

definition rc_calm :: "rc_state \<Rightarrow> rc_state \<Rightarrow> bool" where
  "rc_calm s s' \<longleftrightarrow> rc_phases s' = rc_phases s \<and> r_st s' = r_st s \<and> a_status (r_auth s') = a_status (r_auth s)
     \<and> a_valid_time (r_auth s') = a_valid_time (r_auth s) \<and> rc_quiet (r_w s) (r_w s')"

lemma rc_calm_refl [simp]: "rc_calm s s"
  by (simp add: rc_calm_def quiet_intros)

lemma rc_calm_trans: "rc_calm s t \<Longrightarrow> rc_calm t u \<Longrightarrow> rc_calm s u"
  unfolding rc_calm_def using rc_quiet_trans by metis

lemma calm_world: "(\<And>w0 w. rc_quiet w0 w \<Longrightarrow> rc_quiet w0 (f w)) \<Longrightarrow> rc_calm s (on_world f s)"
  by (simp add: rc_calm_def on_world_def rc_phases_def quiet_intros)

lemma calm_fields [simp]:
  "rc_calm s (s\<lparr>r_eventid := i\<rparr>)" "rc_calm s (s\<lparr>r_reqType := i\<rparr>)" "rc_calm s (s\<lparr>r_chg := g\<rparr>)"
  "rc_calm s (s\<lparr>r_fotaUpgradeSt := b\<rparr>)" "rc_calm s (s\<lparr>r_eventid := i, r_reqType := j\<rparr>)"
  by (simp_all add: rc_calm_def rc_phases_def quiet_intros)

lemma calm_fail_report: "rc_calm s (rc_fail_report e ft s)"
  unfolding rc_fail_report_def by (rule calm_world) (rule quiet_inform)

lemma calm_ask:
  "rc_calm s (snd (ask_door (SetPP_doorLockCtrl_Request q) s))"
  "rc_calm s (snd (ask_sunroof (SetPP_sunroofctrl_Request q) s))"
  "rc_calm s (snd (ask_autodoor (SetPP_autodoorCtrl_Request q) s))"
  "rc_calm s (snd (ask_search (SetPP_searchvehicle_Request q) s))"
  "rc_calm s (snd (ask_camera (SetPP_CameraCtrl_Request q) s))"
  "rc_calm s (snd (ask_forbid (SetPP_startforbid_Request q) s))"
  "rc_calm s (snd (ask_blue (SetPP_bluetoothstart_Request q) s))"
  "rc_calm s (snd (ask_chg (SetPP_ChargeCtrl_Request e q) s))"
  "rc_calm s (snd (ask_pwr (SetPP_ACCtrl_Request e q) s))"
  "rc_calm s (snd (ask_pwr (SetPP_seatheating_Request q) s))"
  "rc_calm s (snd (ask_pwr (SetPP_startengine_Request q) s))"
  by (simp_all add: ask_defs case_prod_beta rc_calm_def rc_phases_def quiet_intros)

lemma calm_dispatch: "rc_calm s (snd (rc_tsp_dispatch e m s))"
  unfolding rc_tsp_dispatch_def Let_def by (simp add: calm_ask)

lemma calm_RxMsgHandle: "rc_calm s (PP_rmtCtrl_RxMsgHandle e m s)"
proof -
  let ?s = "s\<lparr>r_eventid := m_eventId m, r_reqType := m_reqType m\<rparr>"
  obtain r t where d: "rc_tsp_dispatch e m ?s = (r, t)" by force
  have 0: "rc_calm s ?s" by simp
  have 1: "rc_calm s t" using rc_calm_trans [OF 0 calm_dispatch [of ?s e m]] by (simp add: d)
  note all = 1 rc_calm_trans [OF 1 calm_fail_report] rc_calm_trans [OF 0 calm_fail_report]
    rc_calm_trans [OF 0 calm_fields(3)] calm_fail_report 0
  show ?thesis
    unfolding PP_rmtCtrl_RxMsgHandle_def Let_def d prod.case by (simp only: all rc_calm_refl split: if_split) blast
qed

lemma calm_rcvMsg: "rc_calm s (PP_rmtCtrl_do_rcvMsg e mo s)"
  by (simp add: PP_rmtCtrl_do_rcvMsg_def calm_RxMsgHandle split: option.split)

lemma calm_Bluetooth: "rc_calm s (PP_rmtCtrl_BluetoothCtrlReq e obj cmd s)"
proof -
  have *: "rc_calm s t \<Longrightarrow> rc_calm s (on_world (rc_emit (ToBle a b d x)) t)" for t a b d x
    by (rule rc_calm_trans, assumption) (rule calm_world, simp add: quiet_intros)
  have st: "rc_calm s (on_world (PP_rmtCtrl_vehicle_status_InformBt e cmd) s)"
    by (rule calm_world) (simp add: PP_rmtCtrl_vehicle_status_InformBt_def quiet_intros)
  show ?thesis
    unfolding PP_rmtCtrl_BluetoothCtrlReq_def Let_def case_prod_beta
    by (simp add: calm_ask st * split: if_split)
qed

lemma calm_Hu: "rc_calm s (PP_rmtCtrl_HuCtrlReq e obj q s)"
  by (simp add: PP_rmtCtrl_HuCtrlReq_def on_chg_def case_prod_beta rc_calm_def rc_phases_def quiet_intros)

lemma calm_shell_fields:
  "c_st c = c_st (r_door s) \<Longrightarrow> rc_calm s (s\<lparr>r_door := c\<rparr>)" "c_st c = c_st (r_sunroof s) \<Longrightarrow> rc_calm s (s\<lparr>r_sunroof := c\<rparr>)"
  "c_st c = c_st (r_autodoor s) \<Longrightarrow> rc_calm s (s\<lparr>r_autodoor := c\<rparr>)"
  "c_st c = c_st (r_search s) \<Longrightarrow> rc_calm s (s\<lparr>r_search := c\<rparr>)"
  "c_st c = c_st (r_forbid s) \<Longrightarrow> rc_calm s (s\<lparr>r_forbid := c\<rparr>)" "c_st c = c_st (r_blue s) \<Longrightarrow> rc_calm s (s\<lparr>r_blue := c\<rparr>)"
  "rc_calm s (s\<lparr>r_camera := c\<rparr>)" "pwr_phases p = pwr_phases (r_pwr s) \<Longrightarrow> rc_calm s (s\<lparr>r_pwr := p\<rparr>)"
  by (simp_all add: rc_calm_def rc_phases_def quiet_intros)

lemma calm_Shell: "rc_calm s (PP_rmtCtrl_SetCtrlReq rt s)" "rc_calm s (s\<lparr>r_pwr := PP_seatheating_SetCtrlReq t l (r_pwr s)\<rparr>)"
  unfolding PP_rmtCtrl_SetCtrlReq_def Let_def by (simp_all add: calm_shell_fields)

lemma calm_Random: "rc_calm s (s\<lparr>r_auth := PP_identificat_rcvdata dt (r_auth s)\<rparr>)"
  by (simp add: rc_calm_def rc_phases_def PP_identificat_rcvdata_def quiet_intros)

lemma calm_Fota: "rc_calm s (snd (rc_fota_startInform s))" "rc_calm s (SetPP_rmtCtrl_FOTA_endInform s)"
  "rc_calm s (SetPP_rmtCtrl_AuthRequest s)" "rc_calm s (on_world (PP_rmtCtrl_send_cb i) s)"
  by (auto simp: rc_fota_startInform_def SetPP_ChargeCtrl_appointPara_def Let_def
      case_prod_beta on_chg_def on_world_def rc_calm_def rc_phases_def SetPP_rmtCtrl_FOTA_endInform_def
      SetPP_rmtCtrl_AuthRequest_def PP_rmtCtrl_send_cb_def quiet_intros)

lemma calm_charge: "rc_calm s (on_chg (PP_ChargeCtrl_mainfunction e f) s)"
  by (simp add: on_chg_def case_prod_beta rc_calm_def rc_phases_def quiet_intros)

lemma calm_cycle: "rc_calm s (on_world (PP_can_send_cycle e) s)"
  by (rule calm_world) (rule quiet_cycle)

section \<open>The phases of the thread\<close>

definition rc_fresh :: "rc_env \<Rightarrow> rc_auth \<Rightarrow> bool" where
  "rc_fresh e a \<longleftrightarrow> a_status a \<and> e_now e - a_valid_time a < 270000"

text \<open>What the phases outside the command phase do: nothing moves, the modules stay, and the command phase is
  entered with a fresh authentication only.\<close>

definition rc_waits :: "rc_env \<Rightarrow> rc_state \<Rightarrow> rc_state \<Rightarrow> bool" where
  "rc_waits e s s' \<longleftrightarrow> rc_phases s' = rc_phases s \<and> rc_quiet (r_w s) (r_w s')
     \<and> (r_st s' = RMTCTRL_COMMAND_LAUNCH \<longrightarrow> rc_fresh e (r_auth s'))"

lemma calm_idle_monitors:
  "rc_calm s (s\<lparr>r_wakesent := b, r_w := w\<rparr>) \<longleftrightarrow> rc_quiet (r_w s) w"
  "rc_calm s (on_pwr (PP_AcCtrl_acStMonitor e) s)" "rc_calm s (on_forbid (PP_startforbid_acStMonitor e) s)"
  "rc_calm s (s\<lparr>r_pwr := PP_rmtCtrl_checkenginetime e (r_pwr s)\<rparr>)"
  "rc_calm s (s\<lparr>r_pwr := PP_SeatCtrl_SeatStMonitor (r_pwr s)\<rparr>)"
  by (simp_all add: on_defs case_prod_beta rc_calm_def rc_phases_def PP_startforbid_acStMonitor_def quiet_intros)

lemma waits_calm: "rc_calm s t \<Longrightarrow> r_st s \<noteq> RMTCTRL_COMMAND_LAUNCH \<Longrightarrow> rc_waits e s t"
  by (simp add: rc_calm_def rc_waits_def)

lemma calm_awaken: "rc_calm s (on_world (\<lambda>w. PP_can_mcu_awaken (rc_emit RingWakeup w)) s)"
  by (rule calm_world) (simp add: quiet_intros)

lemma waits_idle:
  assumes "r_st s = RMTCTRL_IDLE"
  shows "rc_waits e s (rc_idle e s)"
proof -
  obtain b w where w: "PP_Send_WakeUpTime_to_Mcu e (r_pwr s) (r_chg s) (r_wakesent s, r_w s) = (b, w)" by force
  have "rc_quiet (r_w s) w"
    using quiet_wake [of "r_w s" "(r_wakesent s, r_w s)" e "r_pwr s" "r_chg s"] w by (simp add: quiet_intros)
  then have c1: "rc_calm s (s\<lparr>r_wakesent := b, r_w := w\<rparr>)" by (simp add: calm_idle_monitors)
  define t where "t = on_forbid (PP_startforbid_acStMonitor e)
    (let s = on_pwr (PP_AcCtrl_acStMonitor e) (let s = s\<lparr>r_wakesent := b, r_w := w\<rparr>
       in s\<lparr>r_pwr := PP_rmtCtrl_checkenginetime e (r_pwr s)\<rparr>) in s\<lparr>r_pwr := PP_SeatCtrl_SeatStMonitor (r_pwr s)\<rparr>)"
  have "rc_calm s t"
    unfolding t_def Let_def by (intro rc_calm_trans [OF _ calm_idle_monitors(3)] rc_calm_trans [OF _ calm_idle_monitors(2)]
        rc_calm_trans [OF _ calm_idle_monitors(5)] rc_calm_trans [OF _ calm_idle_monitors(4)] c1)
  then have "rc_calm s (on_world (\<lambda>w. PP_can_mcu_awaken (rc_emit RingWakeup w)) t)" "rc_calm s t"
    using rc_calm_trans [OF _ calm_awaken] by blast+
  moreover have "rc_idle e s = (if PP_rmtCtrl_request t \<or> r_fotaAuthReq t then
      (let s = on_world (\<lambda>w. PP_can_mcu_awaken (rc_emit RingWakeup w)) t
       in if r_fotaAuthReq s then s\<lparr>r_fotaAuthReq := False, r_st := RMTCTRL_IDENTIFICAT_LAUNCH\<rparr>
          else s\<lparr>r_st := RMTCTRL_IDENTIFICAT_QUERY\<rparr>) else t)"
    unfolding rc_idle_def w t_def by (simp add: Let_def)
  ultimately show ?thesis
    using assms by (auto simp: rc_waits_def rc_calm_def Let_def rc_phases_def)
qed

lemma waits_query: "rc_waits e s (rc_query e s)"
  by (auto simp: rc_query_def rc_waits_def PP_get_identificat_flag_def rc_phases_def rc_fresh_def quiet_intros)

lemma calm_clear: "rc_calm s (PP_rmtCtrl_clear s)"
proof -
  have "rc_calm t (on_door PP_doorLockCtrl_ClearStatus t)" "rc_calm t (on_autodoor PP_autodoorCtrl_ClearStatus t)"
    "rc_calm t (on_search PP_searchvehicle_ClearStatus t)" "rc_calm t (on_sunroof PP_sunroofctrl_ClearStatus t)"
    "rc_calm t (on_forbid PP_startforbid_ClearStatus t)" "rc_calm t (on_camera PP_CameraCtrl_ClearStatus t)"
    "rc_calm t (on_blue PP_bluetoothstart_ClearStatus t)" "rc_calm t (on_pwr PP_ACCtrl_ClearStatus t)"
    "rc_calm t (on_pwr PP_startengine_ClearStatus t)" "rc_calm t (on_pwr PP_seatheating_ClearStatus t)" for t
    by (simp_all add: on_defs case_prod_beta rc_calm_def rc_phases_def PP_doorLockCtrl_ClearStatus_def
        PP_autodoorCtrl_ClearStatus_def PP_searchvehicle_ClearStatus_def PP_sunroofctrl_ClearStatus_def
        PP_startforbid_ClearStatus_def PP_CameraCtrl_ClearStatus_def PP_bluetoothstart_ClearStatus_def
        PP_startengine_ClearStatus_def PP_seatheating_ClearStatus_def PP_ACCtrl_ClearStatus_def
        pwr_phases_def p_clear_flags_def quiet_intros)
  note c = this
  show ?thesis
    unfolding PP_rmtCtrl_clear_def by (intro rc_calm_trans [OF _ c(7)] rc_calm_trans [OF _ c(6)] rc_calm_trans [OF _ c(8)]
        rc_calm_trans [OF _ c(4)] rc_calm_trans [OF _ c(5)] rc_calm_trans [OF _ c(9)] rc_calm_trans [OF _ c(10)]
        rc_calm_trans [OF _ c(3)] rc_calm_trans [OF _ c(1)] c(2))
qed

lemma waits_launch: "r_st s = RMTCTRL_IDENTIFICAT_LAUNCH \<Longrightarrow> rc_waits e s (rc_launch e s)"
proof -
  assume st: "r_st s = RMTCTRL_IDENTIFICAT_LAUNCH"
  obtain r a w where m: "PP_identificat_mainfunction e (r_auth s, r_w s) = (r, a, w)" by (metis prod_cases3)
  have q: "rc_quiet (r_w s) w"
    using quiet_identificat_main [of "r_w s" "(r_auth s, r_w s)" e] m by (simp add: quiet_intros)
  have ok: "r = PP_AUTH_SUCCESS \<Longrightarrow> a_status a \<and> a_valid_time a = e_now e"
    using m by (auto simp: PP_identificat_mainfunction_def split: auth_stage.splits if_splits)
  let ?f = "rc_fail_report e PP_RMTCTRL_BCDMAUTHFAIL
    (s\<lparr>r_auth := a, r_w := w, r_fotaAuthResult := - 1, r_fotaUpgradeSt := False\<rparr>)"
  have f: "rc_calm ?f (PP_rmtCtrl_clear ?f)" by (rule calm_clear)
  have "rc_phases (PP_rmtCtrl_clear ?f) = rc_phases s \<and> rc_quiet (r_w s) (r_w (PP_rmtCtrl_clear ?f))"
  proof
    show "rc_phases (PP_rmtCtrl_clear ?f) = rc_phases s"
      using f by (simp add: rc_calm_def) (simp add: rc_phases_def rc_fail_report_def on_world_def)
    have "rc_quiet (r_w s) (r_w ?f)" using q by (simp add: rc_fail_report_def on_world_def quiet_intros)
    then show "rc_quiet (r_w s) (r_w (PP_rmtCtrl_clear ?f))" using f rc_quiet_trans unfolding rc_calm_def by blast
  qed
  then have "rc_waits e s ((PP_rmtCtrl_clear ?f)\<lparr>r_st := RMTCTRL_END\<rparr>)"
    by (simp add: rc_waits_def) (simp add: rc_phases_def)
  moreover have "r = PP_AUTH_SUCCESS \<Longrightarrow> rc_waits e s (s\<lparr>r_auth := a, r_w := w, r_fotaAuthResult := 1, r_st := x\<rparr>)" for x
    using q ok by (simp add: rc_waits_def rc_phases_def rc_fresh_def)
  moreover have "rc_waits e s (s\<lparr>r_auth := a, r_w := w\<rparr>)" using q st by (simp add: rc_waits_def rc_phases_def)
  ultimately show ?thesis unfolding rc_launch_def m Let_def prod.case by simp
qed

lemma waits_end: "rc_waits e s ((on_world PP_can_mcu_sleep s)\<lparr>r_st := RMTCTRL_IDLE\<rparr>)"
  by (simp add: rc_waits_def rc_phases_def on_world_def quiet_intros)

lemma waits_phase_step: "r_st s \<noteq> RMTCTRL_COMMAND_LAUNCH \<Longrightarrow> rc_waits e s (rc_phase_step e s)"
  using waits_idle waits_query waits_launch waits_end by (auto simp: rc_phase_step_def split: rc_mode.split)

end
