(* ===== verification/RcRun.thy ===== *)
theory RcRun
  imports RcSafe
begin

text \<open>
  The invariant over the runs of the remote control (\<open>rc_reach\<close>): outside the command phase every module is idle and
  message 0x440 has no command; inside it the authentication is valid, and a command field is set only while its
  module waits. From it: what moves the vehicle was sent by a turn of the command phase.
\<close>

section \<open>The fields belong to waiting modules\<close>

definition rc_fields :: "rc_state \<Rightarrow> bool" where
  "rc_fields s = (let v = w_440 (r_w s); waits = (\<lambda>c. c_st c = CT_RESPWAIT) in
     (v AND 0x30000 = 0 \<or> waits (r_door s) \<or> waits (r_search s)) \<and> (v AND 0xC0000 = 0 \<or> waits (r_autodoor s))
     \<and> (v AND 0xE00300000000 = 0 \<or> waits (r_sunroof s)) \<and> (v AND 0x3 = 0 \<or> waits (p_eng (r_pwr s)))
     \<and> (v AND 0xC0000000 = 0 \<or> waits (r_forbid s)) \<and> (v AND 0x10000000000 = 0 \<or> waits (r_blue s)))"

lemma mask_split:
  "actuator_mask = (((((0x30000 OR 0xC0000) OR 0xE00300000000) OR 0x3) OR 0xC0000000) OR 0x10000000000)"
  by (simp add: actuator_mask_def)

lemma and_or_zero': "v AND (a OR b) = 0 \<longleftrightarrow> v AND a = 0 \<and> v AND b = 0" for v :: "'a::len word"
  by (simp add: bit.conj_disj_distrib or_eq_0_iff)

lemma fields_masked:
  assumes "v AND actuator_mask = w AND actuator_mask" "m AND actuator_mask = m"
  shows "v AND m = w AND m"
proof -
  have "x AND m = (x AND actuator_mask) AND m" for x
    by (simp only: "and.assoc" "and.commute" [of actuator_mask m] assms(2))
  then show ?thesis using assms(1) by metis
qed

lemma fields_idle: "all_idle s \<Longrightarrow> rc_fields s \<Longrightarrow> w_440 (r_w s) AND actuator_mask = 0"
  unfolding mask_split by (simp only: and_or_zero') (simp add: all_idle_def rc_phases_def pwr_phases_def rc_fields_def Let_def)

lemma fields_quiet:
  assumes "rc_phases t = rc_phases s" "rc_quiet (r_w s) (r_w t)" "rc_fields s"
  shows "rc_fields t"
proof -
  note m = fields_masked [of "w_440 (r_w t)" "w_440 (r_w s)"]
  have q: "w_440 (r_w t) AND actuator_mask = w_440 (r_w s) AND actuator_mask"
    using assms(2) by (simp add: rc_quiet_def)
  have "w_440 (r_w t) AND m' = w_440 (r_w s) AND m'"
    if "m' \<in> {0x30000, 0xC0000, 0xE00300000000, 0x3, 0xC0000000, 0x10000000000}" for m'
    using that by (intro m [OF q]) (auto simp: actuator_mask_def)
  then show ?thesis
    using assms(1,3) by (simp add: rc_fields_def Let_def rc_phases_def pwr_phases_def)
qed

section \<open>The modules keep them\<close>

lemma power_mains_440:
  "w_440 (snd (PP_ACCtrl_mainfunction e s)) = w_440 (snd s)"
  "w_440 (snd (PP_seatheating_mainfunction e s)) = w_440 (snd s)"
proof -
  have ac: "w_440 (PP_can_send_data PP_CAN_ACCTRL d a w) = w_440 w" for d a w
    by (simp add: PP_can_send_data_def Let_def)
  have seat: "w_440 (PP_can_send_data PP_CAN_SEATHEAT d a w) = w_440 w" for d a w
    by (simp add: PP_can_send_data_def Let_def)
  show "w_440 (snd (PP_ACCtrl_mainfunction e s)) = w_440 (snd s)"
    by (cases s) (auto simp: PP_ACCtrl_mainfunction_def ac_idle_def ac_reqstart_def ac_respwait_def ac_end_def Let_def ac
        split: rc_phase.split)
  have step: "w_440 (snd (snd (seat_step e ps i l x))) = w_440 (snd (snd x))" for ps i l x
    by (cases x) (auto simp: seat_step_def Let_def seat split: rc_phase.split)
  show "w_440 (snd (PP_seatheating_mainfunction e s)) = w_440 (snd s)"
    by (cases s) (simp add: PP_seatheating_mainfunction_def case_prod_beta step Let_def)
qed

lemma power_mains_eng:
  "p_eng (fst (PP_ACCtrl_mainfunction e s)) = p_eng (fst s)"
  "p_eng (fst (PP_seatheating_mainfunction e s)) = p_eng (fst s)"
  by (cases s, auto simp: PP_ACCtrl_mainfunction_def ac_idle_def ac_reqstart_def ac_respwait_def ac_end_def Let_def
      PP_seatheating_mainfunction_def case_prod_beta split: rc_phase.split)+

lemma camera_440: "w_440 (snd (PP_CameraCtr_mainfunction e s)) = w_440 (snd s)"
  by (cases s) (simp add: PP_CameraCtr_mainfunction_def)

lemma fields_door: "rc_fields s \<Longrightarrow> rc_fields (on_door (PP_doorLockCtrl_mainfunction e) s)"
  by (cases "PP_doorLockCtrl_mainfunction e (r_door s, r_w s)")
    (simp add: rc_fields_def on_door_def Let_def door_field.keeps_own door_field.keeps_other)

lemma fields_search: "rc_fields s \<Longrightarrow> rc_fields (on_search (PP_searchvehicle_mainfunction e) s)"
  by (cases "PP_searchvehicle_mainfunction e (r_search s, r_w s)")
    (use search_field.keeps_own [of e "r_search s" "r_w s"] in
      \<open>auto simp: rc_fields_def on_search_def Let_def search_field.keeps_other\<close>)

lemma fields_autodoor: "rc_fields s \<Longrightarrow> rc_fields (on_autodoor (PP_autodoorCtrl_mainfunction e) s)"
  by (cases "PP_autodoorCtrl_mainfunction e (r_autodoor s, r_w s)")
    (use autodoor_field.keeps_own [of e "r_autodoor s" "r_w s", where S = False] in
      \<open>simp add: rc_fields_def on_autodoor_def Let_def autodoor_field.keeps_other\<close>)

lemma fields_sunroof: "rc_fields s \<Longrightarrow> rc_fields (on_sunroof (PP_sunroofctrl_mainfunction e) s)"
  by (cases "PP_sunroofctrl_mainfunction e (r_sunroof s, r_w s)")
    (use sunroof_field.keeps_own [of e "r_sunroof s" "r_w s", where S = False] in
      \<open>simp add: rc_fields_def on_sunroof_def Let_def sunroof_field.keeps_other\<close>)

lemma fields_forbid: "rc_fields s \<Longrightarrow> rc_fields (on_forbid (PP_startforbid_mainfunction e) s)"
  by (cases "PP_startforbid_mainfunction e (r_forbid s, r_w s)")
    (use forbid_field.keeps_own [of e "r_forbid s" "r_w s", where S = False] in
      \<open>simp add: rc_fields_def on_forbid_def Let_def forbid_field.keeps_other\<close>)

lemma fields_blue: "rc_fields s \<Longrightarrow> rc_fields (on_blue (PP_bluetoothstart_mainfunction e) s)"
  by (cases "PP_bluetoothstart_mainfunction e (r_blue s, r_w s)")
    (use blue_field.keeps_own [of e "r_blue s" "r_w s", where S = False] in
      \<open>simp add: rc_fields_def on_blue_def Let_def blue_field.keeps_other\<close>)

lemma fields_engine: "rc_fields s \<Longrightarrow> rc_fields (on_pwr (PP_startengine_mainfunction e) s)"
  by (cases "PP_startengine_mainfunction e (r_pwr s, r_w s)")
    (use engine_field.keeps_own [of e "r_pwr s" "r_w s", where S = False] in
      \<open>simp add: rc_fields_def on_pwr_def Let_def engine_field.keeps_other\<close>)

lemma fields_power:
  "rc_fields s \<Longrightarrow> rc_fields (on_pwr (PP_ACCtrl_mainfunction e) s)"
  "rc_fields s \<Longrightarrow> rc_fields (on_pwr (PP_seatheating_mainfunction e) s)"
  "rc_fields s \<Longrightarrow> rc_fields (on_camera (PP_CameraCtr_mainfunction e) s)"
  by (simp_all add: rc_fields_def on_pwr_def on_camera_def Let_def case_prod_beta power_mains_440 power_mains_eng
      camera_440)

lemma fields_modules: "rc_fields s \<Longrightarrow> rc_fields (rc_modules e s)"
  unfolding rc_modules_def
  by (intro fields_door fields_search fields_autodoor fields_sunroof fields_forbid fields_blue fields_engine fields_power)

lemma modules_auth [simp]: "r_auth (rc_modules e s) = r_auth s" "r_st (rc_modules e s) = r_st s"
  by (simp_all add: rc_modules_def on_defs case_prod_beta)

section \<open>The invariant\<close>

definition rc_inv :: "rc_state \<Rightarrow> bool" where
  "rc_inv s = ((if r_st s = RMTCTRL_COMMAND_LAUNCH then a_status (r_auth s) else all_idle s) \<and> rc_fields s)"

lemma ends_idle: "PP_rmtCtrl_end s \<Longrightarrow> all_idle s"
  by (simp add: PP_rmtCtrl_end_def all_idle_def rc_phases_def pwr_phases_def PP_doorLockCtrl_end_def
      PP_autodoorCtrl_end_def PP_searchvehicle_end_def PP_sunroofctrl_end_def PP_startengine_end_def
      PP_seatheating_end_def PP_ACCtrl_end_def PP_startforbid_end_def PP_CameraCtrl_end_def PP_bluetoothstart_end_def)

lemma inv_quiet: "rc_inv s \<Longrightarrow> r_st s \<noteq> RMTCTRL_COMMAND_LAUNCH \<Longrightarrow> w_440 (r_w s) AND actuator_mask = 0"
  by (simp add: rc_inv_def fields_idle)

lemma inv_calm: "rc_calm s t \<Longrightarrow> rc_inv s \<Longrightarrow> rc_inv t"
  using fields_quiet [of t s] by (auto simp: rc_calm_def rc_inv_def all_idle_def split: if_splits)

lemma inv_waits: "rc_waits e s t \<Longrightarrow> r_st s \<noteq> RMTCTRL_COMMAND_LAUNCH \<Longrightarrow> rc_inv s \<Longrightarrow> rc_inv t"
  using fields_quiet [of t s] by (simp add: rc_waits_def rc_inv_def all_idle_def rc_fresh_def)

lemma inv_command: "r_st s = RMTCTRL_COMMAND_LAUNCH \<Longrightarrow> rc_inv s \<Longrightarrow> rc_inv (rc_command e s)"
proof -
  assume "r_st s = RMTCTRL_COMMAND_LAUNCH" "rc_inv s"
  then have s: "a_status (r_auth s)" "rc_fields (rc_modules e s)" "r_st s = RMTCTRL_COMMAND_LAUNCH"
    by (simp_all add: rc_inv_def fields_modules)
  then have "rc_fields ((rc_modules e s)\<lparr>r_st := RMTCTRL_END\<rparr>)" by (simp add: rc_fields_def)
  moreover have "PP_rmtCtrl_end (rc_modules e s) \<Longrightarrow> all_idle ((rc_modules e s)\<lparr>r_st := RMTCTRL_END\<rparr>)"
    using ends_idle [of "rc_modules e s"] by (simp add: all_idle_def rc_phases_def)
  ultimately show ?thesis using s by (simp add: rc_command_def rc_inv_def Let_def)
qed

lemma inv_phase_step: "rc_inv s \<Longrightarrow> rc_inv (rc_phase_step e s)"
  using inv_command [of s e] inv_waits [OF waits_phase_step [of s e]] by (cases "r_st s = RMTCTRL_COMMAND_LAUNCH")
    (auto simp: rc_phase_step_def)

text \<open>A turn is the message, the phase and what follows the phases.\<close>

definition turn_before :: "rc_env \<Rightarrow> rc_msg option \<Rightarrow> rc_state \<Rightarrow> rc_state" where
  "turn_before e mo s = (if e_sockOpen e then PP_rmtCtrl_do_rcvMsg e mo s else s)"

definition turn_after :: "rc_env \<Rightarrow> rc_state \<Rightarrow> rc_state" where
  "turn_after e s = (let s = on_world (PP_can_send_cycle e) (on_chg (PP_ChargeCtrl_mainfunction e (r_fotaUpgradeSt s)) s)
     in s\<lparr>r_sleepflag := g_sleep (r_chg s) \<and> p_ac_sleep (r_pwr s) \<and> p_seat_sleep (r_pwr s)
           \<and> GetPP_Wake_Sleep e (r_pwr s) (r_chg s)\<rparr>)"

lemma turn_parts: "rc_turn e mo s = turn_after e (rc_phase_step e (turn_before e mo s))"
  by (simp add: rc_turn_def turn_before_def turn_after_def Let_def)

lemma calm_before: "rc_calm s (turn_before e mo s)"
  by (simp add: turn_before_def calm_rcvMsg)

lemma calm_after: "rc_calm s (turn_after e s)"
proof -
  have sleep: "rc_calm t (t\<lparr>r_sleepflag := b\<rparr>)" for t b by (simp add: rc_calm_def rc_phases_def quiet_intros)
  show ?thesis unfolding turn_after_def Let_def by (intro rc_calm_trans [OF _ sleep] rc_calm_trans [OF calm_charge calm_cycle])
qed

lemma calm_ota: "rc_calm s (wsrv_ota_request m s)"
proof -
  have "rc_quiet w0 (PP_can_send_data PP_CAN_OTAREQ d 0 w)" if "rc_quiet w0 w" "unat d < 2 ^ 2" for w0 w d
    using quiet_set440 [of d 2 39 w0 w] that by (simp add: PP_can_send_data_def Let_def actuator_mask_def)
  moreover have "unat (ota_data m) < 2 ^ 2" by (cases m) simp_all
  ultimately show ?thesis unfolding wsrv_ota_request_def by (intro calm_world) blast
qed

text \<open>Every call but a turn changes neither phase nor mode.\<close>

lemma calm_event:
  assumes "\<forall>e mo. ev \<noteq> Turn e mo"
  shows "rc_calm s (rc_do ev s)"
  using assms by (cases ev) (simp_all add: calm_Bluetooth calm_Hu calm_Shell calm_Random calm_Fota calm_ota)

lemma inv_event: "rc_inv s \<Longrightarrow> rc_inv (rc_do ev s)"
proof (cases "\<exists>e mo. ev = Turn e mo")
  case True
  then obtain e mo where ev: "ev = Turn e mo" by blast
  assume "rc_inv s"
  then show ?thesis
    unfolding ev rc_do.simps turn_parts
    by (intro inv_calm [OF calm_after] inv_phase_step inv_calm [OF calm_before])
next
  case False
  then show "rc_inv s \<Longrightarrow> ?thesis" using inv_calm [OF calm_event] by blast
qed

lemma inv_init: "rc_inv (PP_rmtCtrl_init forb)"
  by (simp add: rc_inv_def PP_rmtCtrl_init_def all_idle_def rc_phases_def pwr_phases_def rc_fields_def Let_def
      rc_ctl_init_def rc_pwr_init_def rc_world_init_def)

lemma reach_inv: "rc_reach forb s \<Longrightarrow> rc_inv s"
  by (induction rule: rc_reach.induct) (simp_all add: inv_init inv_event)

section \<open>What moves, and when the command phase begins\<close>

lemma waiting_turn_quiet:
  assumes "rc_inv s" "r_st s \<noteq> RMTCTRL_COMMAND_LAUNCH"
  shows "rc_quiet (r_w s) (r_w (rc_turn e mo s))"
proof -
  let ?b = "turn_before e mo s"
  have b: "rc_quiet (r_w s) (r_w ?b)" "r_st ?b \<noteq> RMTCTRL_COMMAND_LAUNCH"
    using calm_before [of s e mo] assms(2) by (simp_all add: rc_calm_def)
  have p: "rc_quiet (r_w ?b) (r_w (rc_phase_step e ?b))" using waits_phase_step [OF b(2)] by (simp add: rc_waits_def)
  have a: "rc_quiet (r_w (rc_phase_step e ?b)) (r_w (rc_turn e mo s))"
    using calm_after [of "rc_phase_step e ?b" e] by (simp add: rc_calm_def turn_parts)
  show ?thesis by (rule rc_quiet_trans [OF rc_quiet_trans [OF b(1) p] a])
qed

lemma event_quiet:
  assumes "rc_inv s" "\<not> (\<exists>e mo. ev = Turn e mo \<and> r_st s = RMTCTRL_COMMAND_LAUNCH)"
  shows "rc_quiet (r_w s) (r_w (rc_do ev s))"
proof (cases "\<exists>e mo. ev = Turn e mo")
  case True
  then show ?thesis using waiting_turn_quiet [OF assms(1)] assms(2) by auto
next
  case False
  then show ?thesis using calm_event [of ev s] by (simp add: rc_calm_def)
qed

section \<open>Where an authentication comes from\<close>

definition rc_run :: "rc_event list \<Rightarrow> rc_state \<Rightarrow> rc_state" where "rc_run evs s = fold rc_do evs s"

lemma run_snoc: "rc_run (evs @ [ev]) s = rc_do ev (rc_run evs s)"
  by (simp add: rc_run_def)

lemma run_reach: "rc_reach forb (rc_run evs (PP_rmtCtrl_init forb))"
proof (induction evs rule: rev_induct)
  case Nil
  then show ?case using rc_reach.start by (simp add: rc_run_def)
next
  case (snoc ev evs)
  then show ?case using rc_reach.step by (simp add: run_snoc)
qed

text \<open>The controller said yes in this turn.\<close>

definition auth_kept :: "rc_env \<Rightarrow> rc_auth \<Rightarrow> rc_auth \<Rightarrow> bool" where
  "auth_kept e a a' \<longleftrightarrow> (a_status a' \<longrightarrow> a_status a \<and> a_valid_time a' = a_valid_time a
     \<or> e_autheSt e = 1 \<and> a_valid_time a' = e_now e)"

lemma auth_kept_calm: "rc_calm s t \<Longrightarrow> auth_kept e (r_auth s) (r_auth t)"
  by (simp add: rc_calm_def auth_kept_def)

lemma auth_kept_trans: "auth_kept e a b \<Longrightarrow> auth_kept e b c \<Longrightarrow> auth_kept e a c"
  unfolding auth_kept_def by metis

lemma idle_auth: "r_auth (rc_idle e s) = r_auth s"
  by (simp add: rc_idle_def on_defs Let_def case_prod_beta)

lemma auth_main_kept: "auth_kept e a (fst (snd (PP_identificat_mainfunction e (a, w))))"
  by (simp add: PP_identificat_mainfunction_def PP_identificat_init_def auth_kept_def split: auth_stage.split)

lemma clear_auth: "r_auth (PP_rmtCtrl_clear s) = r_auth s" "r_auth (rc_fail_report e ft s) = r_auth s"
  by (simp_all add: PP_rmtCtrl_clear_def rc_fail_report_def on_defs case_prod_beta)

lemma launch_auth: "r_auth (rc_launch e s) = fst (snd (PP_identificat_mainfunction e (r_auth s, r_w s)))"
  by (simp add: rc_launch_def Let_def case_prod_beta clear_auth)

lemma phase_auth: "auth_kept e (r_auth s) (r_auth (rc_phase_step e s))"
proof (cases "r_st s")
  case RMTCTRL_IDENTIFICAT_LAUNCH
  then show ?thesis using auth_main_kept [of e "r_auth s" "r_w s"] by (simp add: rc_phase_step_def launch_auth)
qed (simp_all add: rc_phase_step_def idle_auth rc_query_def PP_get_identificat_flag_def rc_command_def Let_def
    on_world_def auth_kept_def)

lemma turn_auth: "auth_kept e (r_auth s) (r_auth (rc_turn e mo s))"
  unfolding turn_parts
  by (rule auth_kept_trans [OF auth_kept_trans [OF auth_kept_calm [OF calm_before] phase_auth]
      auth_kept_calm [OF calm_after]])

lemma run_auth:
  "a_status (r_auth (rc_run evs (PP_rmtCtrl_init forb)))
    \<Longrightarrow> \<exists>e mo. Turn e mo \<in> set evs \<and> e_autheSt e = 1
      \<and> e_now e = a_valid_time (r_auth (rc_run evs (PP_rmtCtrl_init forb)))"
proof (induction evs rule: rev_induct)
  case Nil
  then show ?case by (simp add: rc_run_def PP_rmtCtrl_init_def rc_auth_init_def)
next
  case (snoc ev evs)
  let ?s = "rc_run evs (PP_rmtCtrl_init forb)"
  have st: "a_status (r_auth (rc_do ev ?s))" using snoc.prems by (simp add: run_snoc)
  show ?case
  proof (cases "a_status (r_auth ?s) \<and> a_valid_time (r_auth (rc_do ev ?s)) = a_valid_time (r_auth ?s)")
    case True
    then show ?thesis using snoc.IH by (auto simp: run_snoc)
  next
    case new: False
    show ?thesis
    proof (cases "\<exists>e mo. ev = Turn e mo")
      case True
      then obtain e mo where ev: "ev = Turn e mo" by blast
      have "auth_kept e (r_auth ?s) (r_auth (rc_do ev ?s))" using turn_auth ev by simp
      then have "e_autheSt e = 1 \<and> a_valid_time (r_auth (rc_do ev ?s)) = e_now e"
        using st new unfolding auth_kept_def by blast
      then show ?thesis using ev by (auto simp: run_snoc)
    next
      case False
      then have "rc_calm ?s (rc_do ev ?s)" by (intro calm_event) blast
      then show ?thesis using st new by (simp add: rc_calm_def)
    qed
  qed
qed

section \<open>Examples\<close>

text \<open>An environment for examples: the vehicle off and locked, everything idle, the clock at \<open>t\<close>.\<close>

definition env_at :: "u64 \<Rightarrow> rc_env" where
  "env_at t = \<lparr>e_now = t, e_stamp = 1000, e_vehicleState = 0, e_vehicleSOC = 50, e_doorlockSt = 1, e_reardoorSt = 0,
     e_BleStartSt = 0, e_findcarSt = 0, e_sunroofSt = 2, e_RmtStartSt = 0, e_ACOnOffSt = 0, e_LHTemp = 20,
     e_DrivHeatingSt = 0, e_PassHeatingSt = 0, e_chrgOnOffSt = 0, e_chrgAptEnSt = 0, e_chargeSt = 0,
     e_chrgGunCnctSt = 0, e_readyLightSt = 0, e_cancelEngiSt = 0, e_autheSt = 0, e_CertValid = False, e_scomOpen = True,
     e_encOk = True, e_cfgOk = True, e_week = 0, e_hour = 12, e_min = 0, e_powerOff = False, e_sockOpen = True,
     e_KL15 = False, e_enabled = True, e_ESK = replicate 16 0, e_pmRunning = True, e_pmListen = False, e_fotaWake = 0\<rparr>"

text \<open>The phone asks for an open door, and the controller accepts the answer to its random number.\<close>

definition door_events :: "rc_event list" where
  "door_events = [Bluetooth (env_at 900) 3 2, Turn (env_at 1000) None, Turn (env_at 1010) None, Turn (env_at 1020) None,
     Turn (env_at 1030) None, Random [1, 2, 3, 4, 5, 6, 7, 8], Turn (env_at 1040) None, Turn (env_at 1050) None,
     Turn ((env_at 1080)\<lparr>e_autheSt := 1\<rparr>) None]"

definition rc_said :: "rc_event \<Rightarrow> rc_state \<Rightarrow> rc_call list" where
  "rc_said ev s = drop (length (w_out (r_w s))) (w_out (r_w (rc_do ev s)))"

section \<open>Safety\<close>

text \<open>C3: Whenever a frame with a command for the door, the tailgate, the search, the sunroof, the high voltage, the start
  prohibition or the one-button start leaves the component, the thread is in its command phase and, earlier in the
  run, the body controller has accepted the authentication whose time the component keeps.\<close>

theorem rc_moves_authenticated:
  assumes "s = rc_run evs (PP_rmtCtrl_init forb)" "c \<in> set (rc_said ev s)" "moves c"
  shows "r_st s = RMTCTRL_COMMAND_LAUNCH \<and> a_status (r_auth s)
    \<and> (\<exists>e mo. Turn e mo \<in> set evs \<and> e_autheSt e = 1 \<and> e_now e = a_valid_time (r_auth s))"
proof -
  have inv: "rc_inv s" using run_reach reach_inv assms(1) by blast
  have cmd: "r_st s = RMTCTRL_COMMAND_LAUNCH"
  proof (rule ccontr)
    assume st: "r_st s \<noteq> RMTCTRL_COMMAND_LAUNCH"
    then have "rc_quiet (r_w s) (r_w (rc_do ev s))" using event_quiet [OF inv, of ev] by blast
    then show False
      using inv_quiet [OF inv st] assms(2,3) unfolding rc_quiet_def rc_said_def by auto
  qed
  moreover have "a_status (r_auth s)" using inv cmd by (simp add: rc_inv_def)
  ultimately show ?thesis using run_auth [of evs forb] assms(1) by auto
qed

theorem rc_moves_authenticated_witness:
  "a_status (r_auth (rc_run (door_events @ [Turn (env_at 1090) None]) (PP_rmtCtrl_init None)))"
proof -
  have "Scom SCOM_MPU_MCU_0x440 [0, 0, 2, 0, 0, 0, 0, 0]
      \<in> set (rc_said (Turn (env_at 1100) None) (rc_run (door_events @ [Turn (env_at 1090) None]) (PP_rmtCtrl_init None)))"
    by code_simp
  moreover have "moves (Scom SCOM_MPU_MCU_0x440 [0, 0, 2, 0, 0, 0, 0, 0])" by code_simp
  ultimately show ?thesis using rc_moves_authenticated [OF refl] by blast
qed

text \<open>C5: The command phase is entered in a turn of the thread only, when the modules that work in it are idle (door lock, tailgate,
  search, sunroof, prohibition, one-button start, engine, air conditioning and both seats), message 0x440 holds no command for the
  door lock or the search, the tailgate, the sunroof or the sunshade, the engine, the prohibition or the one-button start, and the authentication
  is valid and younger than 270 seconds. The charge, which works in every phase, and its bits 2 to 4 of 0x440, are not
  among them.\<close>

theorem rc_command_fresh:
  assumes "rc_reach forb s" "r_st s \<noteq> RMTCTRL_COMMAND_LAUNCH" "r_st (rc_do ev s) = RMTCTRL_COMMAND_LAUNCH"
  shows "\<exists>e mo. ev = Turn e mo \<and> rc_fresh e (r_auth (rc_do ev s)) \<and> all_idle (rc_do ev s)
    \<and> w_440 (r_w (rc_do ev s)) AND actuator_mask = 0"
proof -
  have inv: "rc_inv s" by (rule reach_inv [OF assms(1)])
  have "\<exists>e mo. ev = Turn e mo"
  proof (rule ccontr)
    assume "\<not> (\<exists>e mo. ev = Turn e mo)"
    then have "rc_calm s (rc_do ev s)" by (intro calm_event) blast
    then show False using assms(2,3) by (simp add: rc_calm_def)
  qed
  then obtain e mo where ev: "ev = Turn e mo" by blast
  let ?b = "turn_before e mo s" and ?t = "rc_do ev s"
  let ?p = "rc_phase_step e ?b"
  have b: "rc_calm s ?b" and a: "rc_calm ?p ?t" using calm_before calm_after by (simp_all add: ev turn_parts)
  have st: "r_st ?b \<noteq> RMTCTRL_COMMAND_LAUNCH" using b assms(2) by (simp add: rc_calm_def)
  have w: "rc_waits e ?b ?p" by (rule waits_phase_step [OF st])
  have "rc_fresh e (r_auth ?t)" using w a assms(3) by (simp add: rc_waits_def rc_calm_def rc_fresh_def)
  moreover have "rc_phases ?t = rc_phases s" using b w a by (simp add: rc_calm_def rc_waits_def)
  then have "all_idle ?t" using inv assms(2) by (simp add: rc_inv_def all_idle_def)
  moreover have "rc_inv ?t" by (rule inv_event [OF inv])
  ultimately show ?thesis using ev fields_idle [of ?t] by (auto simp: rc_inv_def)
qed

theorem rc_command_fresh_witness:
  "all_idle (rc_run door_events (PP_rmtCtrl_init None))"
proof -
  have "let s = rc_run (butlast door_events) (PP_rmtCtrl_init None)
    in r_st s \<noteq> RMTCTRL_COMMAND_LAUNCH \<and> r_st (rc_do (last door_events) s) = RMTCTRL_COMMAND_LAUNCH"
    by code_simp
  then have st: "r_st (rc_run (butlast door_events) (PP_rmtCtrl_init None)) \<noteq> RMTCTRL_COMMAND_LAUNCH"
    "r_st (rc_do (last door_events) (rc_run (butlast door_events) (PP_rmtCtrl_init None))) = RMTCTRL_COMMAND_LAUNCH"
    by (simp_all add: Let_def)
  have "all_idle (rc_do (last door_events) (rc_run (butlast door_events) (PP_rmtCtrl_init None)))"
    using rc_command_fresh [OF run_reach st] by blast
  moreover have "door_events \<noteq> []" by (simp add: door_events_def)
  ultimately show ?thesis by (metis append_butlast_last_id run_snoc)
qed

end
