(* ===== verification/RcLive.thy ===== *)
theory RcLive
  imports RcRun
begin

text \<open>
  Requests come to an end. The interface \<open>rc_actuator\<close> is what the main function of an actuator promises about its
  sequence idle, start, wait, end; \<open>rc_served\<close> adds how the thread serves it and that other calls leave the sequence
  alone. Inside it: a request is answered once the thread has turned often and long enough. Both are interpreted on
  the six actuators with a wait. The sunroof's stop command and the search without its command are outside the
  promise: they never end, and the thread stays in its command phase.
\<close>

section \<open>What was sent only grows\<close>

definition rc_grows :: "rc_world \<Rightarrow> rc_world \<Rightarrow> bool" where "rc_grows w w' \<longleftrightarrow> (\<exists>cs. w_out w' = w_out w @ cs)"

named_theorems grow_intros

lemma grows_refl [grow_intros]: "rc_grows w w"
  by (simp add: rc_grows_def)

lemma grows_trans: "rc_grows u v \<Longrightarrow> rc_grows v w \<Longrightarrow> rc_grows u w"
  unfolding rc_grows_def by (metis append_assoc)

lemma grows_quiet: "rc_quiet w w' \<Longrightarrow> rc_grows w w'"
  unfolding rc_quiet_def rc_grows_def by blast

lemma grows_emit [grow_intros]: "rc_grows w0 w \<Longrightarrow> rc_grows w0 (rc_emit c w)"
  by (erule grows_trans) (simp add: rc_grows_def rc_emit_def)

lemma grows_fields [grow_intros]:
  "rc_grows w0 w \<Longrightarrow> rc_grows w0 (w\<lparr>w_440 := v\<rparr>)" "rc_grows w0 w \<Longrightarrow> rc_grows w0 (w\<lparr>w_445 := v\<rparr>)"
  "rc_grows w0 w \<Longrightarrow> rc_grows w0 (w\<lparr>w_lock := l\<rparr>)" "rc_grows w0 w \<Longrightarrow> rc_grows w0 (w\<lparr>w_nodes := ns\<rparr>)"
  "rc_grows w0 w \<Longrightarrow> rc_grows w0 (w\<lparr>w_ulMsgCnt := n\<rparr>)" "rc_grows w0 w \<Longrightarrow> rc_grows w0 (w\<lparr>w_forbiden := f\<rparr>)"
  by (simp_all add: rc_grows_def)

lemma grows_setbit [grow_intros]: "rc_grows w0 w \<Longrightarrow> rc_grows w0 (PP_canSend_setbit i b bl d dt w)"
  by (cases i) (simp_all add: PP_canSend_setbit_def PP_send_event_info_to_mcu_def Let_def grow_intros)

lemma grows_send_data [grow_intros]: "rc_grows w0 w \<Longrightarrow> rc_grows w0 (PP_can_send_data ct d para w)"
  by (cases ct) (simp_all add: PP_can_send_data_def Let_def grow_intros)

lemma grows_calls [grow_intros]:
  "rc_grows w0 w \<Longrightarrow> rc_grows w0 (rc_clear_lock obj w)" "rc_grows w0 w \<Longrightarrow> rc_grows w0 (PP_rmtCtrl_StInformTsp e p w)"
  "rc_grows w0 w \<Longrightarrow> rc_grows w0 (PP_rmtCtrl_inform_tb e t d ok w)" "rc_grows w0 w \<Longrightarrow> rc_grows w0 (rc_set_forbiden e v w)"
  by (simp_all add: rc_clear_lock_def PP_rmtCtrl_StInformTsp_def PP_rmtCtrl_inform_tb_def rc_set_forbiden_def Let_def
      grow_intros)

lemma grows_mains:
  "rc_grows w0 w \<Longrightarrow> rc_grows w0 (snd (PP_doorLockCtrl_mainfunction e (c, w)))"
  "rc_grows w0 w \<Longrightarrow> rc_grows w0 (snd (PP_autodoorCtrl_mainfunction e (c, w)))"
  "rc_grows w0 w \<Longrightarrow> rc_grows w0 (snd (PP_searchvehicle_mainfunction e (c, w)))"
  "rc_grows w0 w \<Longrightarrow> rc_grows w0 (snd (PP_sunroofctrl_mainfunction e (c, w)))"
  "rc_grows w0 w \<Longrightarrow> rc_grows w0 (snd (PP_startforbid_mainfunction e (c, w)))"
  "rc_grows w0 w \<Longrightarrow> rc_grows w0 (snd (PP_CameraCtr_mainfunction e (c, w)))"
  "rc_grows w0 w \<Longrightarrow> rc_grows w0 (snd (PP_bluetoothstart_mainfunction e (c, w)))"
  by (auto simp: main_defs PP_sunroofctrl_mainfunction_def PP_CameraCtr_mainfunction_def Let_def
      split: rc_phase.split intro!: grow_intros)

lemma grows_power:
  "rc_grows w0 w \<Longrightarrow> rc_grows w0 (snd (PP_startengine_mainfunction e (p, w)))"
  "rc_grows w0 w \<Longrightarrow> rc_grows w0 (snd (PP_ACCtrl_mainfunction e (p, w)))"
  "rc_grows w0 w \<Longrightarrow> rc_grows w0 (snd (PP_seatheating_mainfunction e (p, w)))"
proof -
  assume w: "rc_grows w0 w"
  show "rc_grows w0 (snd (PP_startengine_mainfunction e (p, w)))"
    using w by (auto simp: PP_startengine_mainfunction_def startengine_idle_on_def startengine_idle_off_def
        PP_ACCtrl_ClearStatus_def PP_seatheating_ClearStatus_def Let_def split: rc_phase.split intro!: grow_intros)
  show "rc_grows w0 (snd (PP_ACCtrl_mainfunction e (p, w)))"
    using w by (auto simp: PP_ACCtrl_mainfunction_def ac_idle_def ac_reqstart_def ac_respwait_def ac_end_def Let_def
        split: rc_phase.split intro!: grow_intros)
  have step: "rc_grows w0 (snd (snd x)) \<Longrightarrow> rc_grows w0 (snd (snd (seat_step e ps i l x)))" for ps i l x
    by (cases x) (auto simp: seat_step_def Let_def split: rc_phase.split intro!: grow_intros)
  show "rc_grows w0 (snd (PP_seatheating_mainfunction e (p, w)))"
    using w by (simp add: PP_seatheating_mainfunction_def case_prod_beta step Let_def)
qed

section \<open>The interface\<close>

text \<open>The final answer to the request that the struct \<open>c\<close> holds: to the server a report with status 2 or 3, to the
  phone success or failure.\<close>

definition answer :: "rc_ctl \<Rightarrow> rc_call \<Rightarrow> bool" where
  "answer c call = (case call of
     SpWrite i (RVCSTATUSRESP t ev ex st ft) \<Rightarrow>
       c_style c = RMTCTRL_TSP \<and> t = c_reqType c \<and> ev = c_eventId c \<and> (st = 2 \<or> st = 3)
   | ToBle t cmd (Some r) x \<Rightarrow> c_style c \<noteq> RMTCTRL_TSP \<and> cmd = c_cmd c \<and> (r = 1 \<or> r = 2)
   | _ \<Rightarrow> False)"

definition rc_answers :: "rc_ctl \<Rightarrow> rc_world \<Rightarrow> rc_world \<Rightarrow> bool" where
  "rc_answers c w w' \<longleftrightarrow> (\<exists>cs call. w_out w' = w_out w @ cs \<and> call \<in> set cs \<and> answer c call)"

locale rc_actuator =
  fixes main :: "rc_env \<Rightarrow> rc_ctl \<times> rc_world \<Rightarrow> rc_ctl \<times> rc_world" and serves :: "rc_ctl \<Rightarrow> bool" and limit :: u64
  assumes begins: "c_st c = CT_IDLE \<Longrightarrow> c_req c \<Longrightarrow> main e (c, w) = (c', w') \<Longrightarrow> c_st c' = CT_REQSTART \<or> c_st c' = CT_END"
    and starts: "c_st c = CT_REQSTART \<Longrightarrow> main e (c, w) = (c', w') \<Longrightarrow> c_st c' = CT_RESPWAIT \<and> c_wait c' = e_now e"
    and waits: "c_st c = CT_RESPWAIT \<Longrightarrow> main e (c, w) = (c', w')
      \<Longrightarrow> c_st c' = CT_END \<or> c_st c' = CT_RESPWAIT \<and> c_wait c' = c_wait c"
    and gives_up: "c_st c = CT_RESPWAIT \<Longrightarrow> serves c \<Longrightarrow> limit \<le> e_now e - c_wait c \<Longrightarrow> main e (c, w) = (c', w')
      \<Longrightarrow> c_st c' = CT_END"
    and ends: "c_st c = CT_END \<Longrightarrow> serves c \<Longrightarrow> e_encOk e \<Longrightarrow> main e (c, w) = (c', w')
      \<Longrightarrow> c_st c' = CT_IDLE \<and> rc_answers c w w'"

lemma answer_sent:
  assumes "e_encOk e" "c_style c = RMTCTRL_TSP" "st = 2 \<or> st = 3" "w_out w' = w_out w"
  shows "rc_answers c w (rc_clear_lock obj (PP_rmtCtrl_StInformTsp e (rc_status c ex st ft) w'))"
  using assms unfolding rc_answers_def
  by (auto simp: PP_rmtCtrl_StInformTsp_def Let_def rc_emit_def rc_clear_lock_def rc_status_def answer_def)

lemma answer_told:
  assumes "c_style c \<noteq> RMTCTRL_TSP" "c_cmd c = d"
  shows "rc_answers c w (rc_clear_lock obj (PP_rmtCtrl_inform_tb e t d ok w))"
  using assms unfolding rc_answers_def
  by (auto simp: PP_rmtCtrl_inform_tb_def rc_emit_def rc_clear_lock_def answer_def)

lemma forbid_out: "w_out (rc_set_forbiden e v w) = w_out w"
  by (simp add: rc_set_forbiden_def)

lemma le_not_less: "limit \<le> x \<Longrightarrow> l < limit \<Longrightarrow> l < x \<and> \<not> x < limit" for x :: "'a::linorder"
  by auto

interpretation door_act: rc_actuator PP_doorLockCtrl_mainfunction "\<lambda>c. True" 2000
  by unfold_locales (auto simp: PP_doorLockCtrl_mainfunction_def not_less answer_sent answer_told
      split: if_splits dest: le_not_less [where l = 200])

interpretation autodoor_act: rc_actuator PP_autodoorCtrl_mainfunction "\<lambda>c. True" 15000
  by unfold_locales (auto simp: PP_autodoorCtrl_mainfunction_def not_less answer_sent answer_told
      split: if_splits dest: le_not_less [where l = 200])

interpretation search_act: rc_actuator PP_searchvehicle_mainfunction "\<lambda>c. c_cmd c = 2" 2000
  by unfold_locales (auto simp: PP_searchvehicle_mainfunction_def not_less answer_sent answer_told
      split: if_splits dest: le_not_less [where l = 200])

interpretation forbid_act: rc_actuator PP_startforbid_mainfunction "\<lambda>c. c_style c = RMTCTRL_TSP" 2000
  by unfold_locales (auto simp: PP_startforbid_mainfunction_def not_less answer_sent forbid_out
      split: if_splits dest: le_not_less [where l = 200])

interpretation blue_act: rc_actuator PP_bluetoothstart_mainfunction "\<lambda>c. c_style c \<noteq> RMTCTRL_TSP" 2000
  by unfold_locales (auto simp: PP_bluetoothstart_mainfunction_def not_less answer_told
      split: if_splits dest: le_not_less [where l = 200])

interpretation sunroof_act: rc_actuator PP_sunroofctrl_mainfunction
    "\<lambda>c. c_cmd c \<in> {1, 2, 3} \<and> c_style c \<in> {RMTCTRL_TSP, RMTCTRL_BLUETOOTH}" 35000
  by unfold_locales (auto simp: PP_sunroofctrl_mainfunction_def Let_def not_less answer_sent answer_told
      split: if_splits dest: le_not_less [where l = 320])

section \<open>Runs\<close>

definition rc_turns :: "rc_event list \<Rightarrow> rc_env list" where
  "rc_turns evs = concat (map (\<lambda>ev. case ev of Turn e mo \<Rightarrow> [e] | _ \<Rightarrow> []) evs)"

lemma rc_turns_simps [simp]:
  "rc_turns [] = []" "rc_turns (Turn e mo # evs) = e # rc_turns evs"
  by (simp_all add: rc_turns_def)

lemma rc_turns_other: "\<nexists>e mo. ev = Turn e mo \<Longrightarrow> rc_turns (ev # evs) = rc_turns evs"
  by (cases ev) (simp_all add: rc_turns_def)

text \<open>A condition on the environment and the request in hand, in every turn of a run.\<close>

primrec rc_steady :: "(rc_state \<Rightarrow> rc_ctl) \<Rightarrow> (rc_env \<Rightarrow> rc_ctl \<Rightarrow> bool) \<Rightarrow> rc_event list \<Rightarrow> rc_state \<Rightarrow> bool" where
  "rc_steady get ok [] s = True"
| "rc_steady get ok (ev # evs) s =
    ((case ev of Turn e mo \<Rightarrow> ok e (get (turn_before e mo s)) | _ \<Rightarrow> True) \<and> rc_steady get ok evs (rc_do ev s))"

text \<open>The encoder accepts the reports, and the request is one the actuator serves.\<close>

abbreviation (input) "served_with serves \<equiv> \<lambda>e c. e_encOk e \<and> serves c"

lemma steady_other: "\<nexists>e mo. ev = Turn e mo \<Longrightarrow> rc_steady get ok (ev # evs) s \<longleftrightarrow> rc_steady get ok evs (rc_do ev s)"
  by (cases ev) simp_all

text \<open>Some turn of the run ends the request: the sequence goes from its end to idle and the answer is sent.\<close>

primrec rc_answered :: "(rc_state \<Rightarrow> rc_ctl) \<Rightarrow> rc_event list \<Rightarrow> rc_state \<Rightarrow> bool" where
  "rc_answered get [] s = False"
| "rc_answered get (ev # evs) s =
    ((case ev of Turn e mo \<Rightarrow> c_st (get (turn_before e mo s)) = CT_END \<and> c_st (get (rc_do ev s)) = CT_IDLE
        \<and> list_ex (answer (get (turn_before e mo s))) (rc_said ev s) | _ \<Rightarrow> False)
     \<or> rc_answered get evs (rc_do ev s))"

definition rc_kept :: "rc_ctl \<Rightarrow> rc_ctl \<Rightarrow> bool" where
  "rc_kept c c' \<longleftrightarrow> c_st c' = c_st c \<and> c_wait c' = c_wait c \<and> (c_req c \<longrightarrow> c_req c')"

locale rc_served = rc_actuator main serves limit
  for main :: "rc_env \<Rightarrow> rc_ctl \<times> rc_world \<Rightarrow> rc_ctl \<times> rc_world" and serves :: "rc_ctl \<Rightarrow> bool" and limit :: u64 +
  fixes get :: "rc_state \<Rightarrow> rc_ctl"
  assumes turn: "r_st s = RMTCTRL_COMMAND_LAUNCH \<Longrightarrow> \<exists>w w'. main e (get (turn_before e mo s), w) = (get (rc_turn e mo s), w')
      \<and> rc_grows (r_w s) w \<and> rc_grows w' (r_w (rc_turn e mo s))"
    and before: "rc_kept (get s) (get (turn_before e mo s))"
    and calm: "\<nexists>e mo. ev = Turn e mo \<Longrightarrow> rc_kept (get s) (get (rc_do ev s))"
    and busy: "r_st s = RMTCTRL_COMMAND_LAUNCH \<Longrightarrow> c_st (get (rc_turn e mo s)) \<noteq> CT_IDLE
      \<Longrightarrow> r_st (rc_turn e mo s) = RMTCTRL_COMMAND_LAUNCH"
begin

lemma calm_step:
  assumes "\<nexists>e mo. ev = Turn e mo" "r_st s = RMTCTRL_COMMAND_LAUNCH"
  shows "r_st (rc_do ev s) = RMTCTRL_COMMAND_LAUNCH" "rc_kept (get s) (get (rc_do ev s))"
  using assms calm calm_event [of ev s] by (auto simp: rc_calm_def)

lemma end_answers:
  "c_st (get s) = CT_END \<Longrightarrow> r_st s = RMTCTRL_COMMAND_LAUNCH \<Longrightarrow> rc_steady get (served_with serves) evs s \<Longrightarrow> rc_turns evs \<noteq> []
    \<Longrightarrow> rc_answered get evs s"
proof (induction evs arbitrary: s)
  case (Cons ev evs)
  show ?case
  proof (cases "\<exists>e mo. ev = Turn e mo")
    case True
    then obtain e mo where ev: "ev = Turn e mo" by blast
    let ?c = "get (turn_before e mo s)"
    obtain w w' where m: "main e (?c, w) = (get (rc_turn e mo s), w')" "rc_grows (r_w s) w" "rc_grows w' (r_w (rc_turn e mo s))"
      using turn [OF Cons.prems(2)] by blast
    have c: "c_st ?c = CT_END" "serves ?c" "e_encOk e"
      using before [of s e mo] Cons.prems(1,3) by (auto simp: rc_kept_def ev)
    obtain cs call where a: "c_st (get (rc_turn e mo s)) = CT_IDLE" "w_out w' = w_out w @ cs" "call \<in> set cs" "answer ?c call"
      using ends [OF c m(1)] unfolding rc_answers_def by blast
    have "call \<in> set (rc_said ev s)"
      using m(2,3) a(2,3) by (auto simp: rc_said_def rc_grows_def ev)
    then show ?thesis using c(1) a(1,4) by (auto simp: ev list_ex_iff)
  next
    case False
    then show ?thesis
      using Cons.IH [of "rc_do ev s"] Cons.prems calm_step [OF False Cons.prems(2)] rc_turns_other [OF False, of evs]
      by (simp add: rc_kept_def steady_other [OF False])
  qed
qed simp

lemma wait_answers:
  "c_st (get s) = CT_RESPWAIT \<Longrightarrow> r_st s = RMTCTRL_COMMAND_LAUNCH \<Longrightarrow> rc_steady get (served_with serves) evs s
    \<Longrightarrow> rc_turns evs = es @ [e2, e3] \<Longrightarrow> limit \<le> e_now e2 - c_wait (get s) \<Longrightarrow> rc_answered get evs s"
proof (induction evs arbitrary: s es)
  case (Cons ev evs)
  show ?case
  proof (cases "\<exists>e mo. ev = Turn e mo")
    case True
    then obtain e mo where ev: "ev = Turn e mo" by blast
    let ?c = "get (turn_before e mo s)" and ?s = "rc_turn e mo s"
    obtain w w' where m: "main e (?c, w) = (get ?s, w')" using turn [OF Cons.prems(2)] by blast
    have c: "c_st ?c = CT_RESPWAIT" "serves ?c" "c_wait ?c = c_wait (get s)"
      using before [of s e mo] Cons.prems(1,3) by (auto simp: rc_kept_def ev)
    have later: "rc_steady get (served_with serves) evs ?s" using Cons.prems(3) by (simp add: ev)
    have st: "r_st ?s = RMTCTRL_COMMAND_LAUNCH" using waits [OF c(1) m] busy [OF Cons.prems(2), of e mo] by auto
    have ended: "c_st (get ?s) = CT_END \<Longrightarrow> rc_turns evs \<noteq> [] \<Longrightarrow> rc_answered get evs ?s"
      using end_answers [OF _ st later] .
    show ?thesis
    proof (cases es)
      case Nil
      then have e: "e = e2" "rc_turns evs = [e3]" using Cons.prems(4) by (simp_all add: ev)
      then have "c_st (get ?s) = CT_END" using gives_up [OF c(1,2) _ m] Cons.prems(5) c(3) by simp
      then show ?thesis using ended e(2) by (simp add: ev)
    next
      case (Cons e' es')
      then have t: "rc_turns evs = es' @ [e2, e3]" using Cons.prems(4) by (simp add: ev)
      have "c_st (get ?s) = CT_RESPWAIT \<Longrightarrow> c_wait (get ?s) = c_wait (get s) \<Longrightarrow> rc_answered get evs ?s"
        using Cons.IH [OF _ st later t] Cons.prems(5) by simp
      then show ?thesis using waits [OF c(1) m] ended t c(3) by (auto simp: ev)
    qed
  next
    case False
    then show ?thesis
      using Cons.IH [of "rc_do ev s" es] Cons.prems calm_step [OF False Cons.prems(2)] rc_turns_other [OF False, of evs]
      by (simp add: rc_kept_def steady_other [OF False])
  qed
qed simp

lemma start_answers:
  "c_st (get s) = CT_REQSTART \<Longrightarrow> r_st s = RMTCTRL_COMMAND_LAUNCH \<Longrightarrow> rc_steady get (served_with serves) evs s
    \<Longrightarrow> rc_turns evs = e1 # es @ [e2, e3] \<Longrightarrow> limit \<le> e_now e2 - e_now e1 \<Longrightarrow> rc_answered get evs s"
proof (induction evs arbitrary: s)
  case (Cons ev evs)
  show ?case
  proof (cases "\<exists>e mo. ev = Turn e mo")
    case True
    then obtain e mo where ev: "ev = Turn e mo" by blast
    let ?c = "get (turn_before e mo s)" and ?s = "rc_turn e mo s"
    obtain w w' where m: "main e (?c, w) = (get ?s, w')" using turn [OF Cons.prems(2)] by blast
    have c: "c_st ?c = CT_REQSTART" using before [of s e mo] Cons.prems(1) by (simp add: rc_kept_def)
    have e: "e = e1" "rc_turns evs = es @ [e2, e3]" using Cons.prems(4) by (simp_all add: ev)
    have s: "c_st (get ?s) = CT_RESPWAIT" "c_wait (get ?s) = e_now e1" using starts [OF c m] e by simp_all
    then have "r_st ?s = RMTCTRL_COMMAND_LAUNCH" using busy [OF Cons.prems(2), of e mo] by simp
    then show ?thesis using wait_answers [OF s(1) _ _ e(2)] s(2) Cons.prems(3,5) by (simp add: ev)
  next
    case False
    then show ?thesis
      using Cons.IH [of "rc_do ev s"] Cons.prems calm_step [OF False Cons.prems(2)] rc_turns_other [OF False, of evs]
      by (simp add: rc_kept_def steady_other [OF False])
  qed
qed simp

lemma request_answers:
  "c_st (get s) = CT_IDLE \<Longrightarrow> c_req (get s) \<Longrightarrow> r_st s = RMTCTRL_COMMAND_LAUNCH \<Longrightarrow> rc_steady get (served_with serves) evs s
    \<Longrightarrow> rc_turns evs = e0 # e1 # es @ [e2, e3] \<Longrightarrow> limit \<le> e_now e2 - e_now e1 \<Longrightarrow> rc_answered get evs s"
proof (induction evs arbitrary: s)
  case (Cons ev evs)
  show ?case
  proof (cases "\<exists>e mo. ev = Turn e mo")
    case True
    then obtain e mo where ev: "ev = Turn e mo" by blast
    let ?c = "get (turn_before e mo s)" and ?s = "rc_turn e mo s"
    obtain w w' where m: "main e (?c, w) = (get ?s, w')" using turn [OF Cons.prems(3)] by blast
    have c: "c_st ?c = CT_IDLE" "c_req ?c" using before [of s e mo] Cons.prems(1,2) by (simp_all add: rc_kept_def)
    have t: "rc_turns evs = e1 # es @ [e2, e3]" using Cons.prems(5) by (simp add: ev)
    have later: "rc_steady get (served_with serves) evs ?s" using Cons.prems(4) by (simp add: ev)
    have st: "r_st ?s = RMTCTRL_COMMAND_LAUNCH" using begins [OF c m] busy [OF Cons.prems(3), of e mo] by auto
    show ?thesis
      using begins [OF c m] start_answers [OF _ st later t Cons.prems(6)] end_answers [OF _ st later] t by (auto simp: ev)
  next
    case False
    then show ?thesis
      using Cons.IH [of "rc_do ev s"] Cons.prems calm_step [OF False Cons.prems(3)] rc_turns_other [OF False, of evs]
      by (simp add: rc_kept_def steady_other [OF False])
  qed
qed simp

end

section \<open>The six actuators\<close>

datatype rc_actor = Door | Tailgate | Search | Sunroof | Prohibition | OneButton

fun act_ctl :: "rc_actor \<Rightarrow> rc_state \<Rightarrow> rc_ctl" where
  "act_ctl Door s = r_door s"
| "act_ctl Tailgate s = r_autodoor s"
| "act_ctl Search s = r_search s"
| "act_ctl Sunroof s = r_sunroof s"
| "act_ctl Prohibition s = r_forbid s"
| "act_ctl OneButton s = r_blue s"

text \<open>The requests an actuator answers, and how long it waits for the vehicle at most (in milliseconds).\<close>

fun act_serves :: "rc_actor \<Rightarrow> rc_ctl \<Rightarrow> bool" where
  "act_serves Door c = True"
| "act_serves Tailgate c = True"
| "act_serves Search c = (c_cmd c = 2)"
| "act_serves Sunroof c = (c_cmd c \<in> {1, 2, 3} \<and> c_style c \<in> {RMTCTRL_TSP, RMTCTRL_BLUETOOTH})"
| "act_serves Prohibition c = (c_style c = RMTCTRL_TSP)"
| "act_serves OneButton c = (c_style c \<noteq> RMTCTRL_TSP)"

fun act_limit :: "rc_actor \<Rightarrow> u64" where
  "act_limit Tailgate = 15000"
| "act_limit Sunroof = 35000"
| "act_limit _ = 2000"

fun act_main :: "rc_actor \<Rightarrow> rc_env \<Rightarrow> rc_ctl \<times> rc_world \<Rightarrow> rc_ctl \<times> rc_world" where
  "act_main Door = PP_doorLockCtrl_mainfunction"
| "act_main Tailgate = PP_autodoorCtrl_mainfunction"
| "act_main Search = PP_searchvehicle_mainfunction"
| "act_main Sunroof = PP_sunroofctrl_mainfunction"
| "act_main Prohibition = PP_startforbid_mainfunction"
| "act_main OneButton = PP_bluetoothstart_mainfunction"

text \<open>Other calls leave the sequences alone.\<close>

definition rc_kept_all :: "rc_state \<Rightarrow> rc_state \<Rightarrow> bool" where
  "rc_kept_all s t \<longleftrightarrow> (\<forall>a. rc_kept (act_ctl a s) (act_ctl a t))"

lemma all_actors: "(\<forall>a. P a) \<longleftrightarrow> P Door \<and> P Tailgate \<and> P Search \<and> P Sunroof \<and> P Prohibition \<and> P OneButton"
  by (metis rc_actor.exhaust)

lemma kept_refl [simp]: "rc_kept c c"
  by (simp add: rc_kept_def)

lemma kept_all_refl [simp]: "rc_kept_all s s"
  by (simp add: rc_kept_all_def)

lemma kept_all_trans: "rc_kept_all s t \<Longrightarrow> rc_kept_all t u \<Longrightarrow> rc_kept_all s u"
  unfolding rc_kept_all_def rc_kept_def by metis

lemma kept_requests [simp]:
  "rc_kept c (fst (snd (SetPP_doorLockCtrl_Request q (c, w))))"
  "rc_kept c (fst (snd (SetPP_autodoorCtrl_Request q (c, w))))"
  "rc_kept c (fst (snd (SetPP_searchvehicle_Request q (c, w))))"
  "rc_kept c (fst (snd (SetPP_sunroofctrl_Request q (c, w))))"
  "rc_kept c (fst (snd (SetPP_startforbid_Request q (c, w))))"
  "rc_kept c (fst (snd (SetPP_bluetoothstart_Request q (c, w))))"
  by (simp_all add: SetPP_doorLockCtrl_Request_def SetPP_autodoorCtrl_Request_def SetPP_searchvehicle_Request_def
      SetPP_sunroofctrl_Request_def SetPP_startforbid_Request_def SetPP_bluetoothstart_Request_def rc_locked_def
      rc_kept_def case_prod_beta Let_def split: rc_request.split)

lemma kept_ask [simp]:
  "rc_kept_all s (snd (ask_door (SetPP_doorLockCtrl_Request q) s))"
  "rc_kept_all s (snd (ask_sunroof (SetPP_sunroofctrl_Request q) s))"
  "rc_kept_all s (snd (ask_autodoor (SetPP_autodoorCtrl_Request q) s))"
  "rc_kept_all s (snd (ask_search (SetPP_searchvehicle_Request q) s))"
  "rc_kept_all s (snd (ask_forbid (SetPP_startforbid_Request q) s))"
  "rc_kept_all s (snd (ask_blue (SetPP_bluetoothstart_Request q) s))"
  "rc_kept_all s (snd (ask_camera f s))" "rc_kept_all s (snd (ask_chg g s))" "rc_kept_all s (snd (ask_pwr h s))"
  by (simp_all add: ask_defs case_prod_beta rc_kept_all_def all_actors)

lemma kept_parts [simp]:
  "rc_kept_all s (s\<lparr>r_eventid := i, r_reqType := j\<rparr>)" "rc_kept_all s (s\<lparr>r_chg := g\<rparr>)" "rc_kept_all s (on_world f s)"
  "rc_kept_all s (rc_fail_report e ft s)" "rc_kept_all s (s\<lparr>r_pwr := p\<rparr>)" "rc_kept_all s (s\<lparr>r_auth := a\<rparr>)"
  "rc_kept_all s (s\<lparr>r_camera := c\<rparr>)" "rc_kept_all s (on_chg h s)"
  by (simp_all add: rc_kept_all_def all_actors on_world_def rc_fail_report_def on_chg_def case_prod_beta)

lemma kept_dispatch: "rc_kept_all s (snd (rc_tsp_dispatch e m s))"
  unfolding rc_tsp_dispatch_def Let_def by simp

lemma kept_RxMsgHandle: "rc_kept_all s (PP_rmtCtrl_RxMsgHandle e m s)"
proof -
  let ?s = "s\<lparr>r_eventid := m_eventId m, r_reqType := m_reqType m\<rparr>"
  obtain r t where d: "rc_tsp_dispatch e m ?s = (r, t)" by force
  have 0: "rc_kept_all s ?s" by simp
  have 1: "rc_kept_all s t" using kept_all_trans [OF 0 kept_dispatch [of ?s e m]] by (simp add: d)
  note all = 1 kept_all_trans [OF 1 kept_parts(4)] kept_all_trans [OF 0 kept_parts(4)] kept_all_trans [OF 0 kept_parts(2)]
    kept_parts(4) 0
  show ?thesis
    unfolding PP_rmtCtrl_RxMsgHandle_def Let_def d prod.case by (simp only: all kept_all_refl split: if_split) blast
qed

lemma kept_before: "rc_kept_all s (turn_before e mo s)"
  by (simp add: turn_before_def PP_rmtCtrl_do_rcvMsg_def kept_RxMsgHandle split: option.split)

lemma kept_Bluetooth: "rc_kept_all s (PP_rmtCtrl_BluetoothCtrlReq e obj cmd s)"
proof -
  have *: "rc_kept_all s t \<Longrightarrow> rc_kept_all s (on_world f t)" for t f
    using kept_all_trans kept_parts(3) by blast
  show ?thesis unfolding PP_rmtCtrl_BluetoothCtrlReq_def Let_def case_prod_beta by (simp add: * split: if_split)
qed

lemma kept_Shell: "rc_kept_all s (PP_rmtCtrl_SetCtrlReq rt s)"
proof -
  have c: "rc_kept c (PP_doorLockCtrl_SetCtrlReq t c)" "rc_kept c (PP_autodoorCtrl_SetCtrlReq t c)"
    "rc_kept c (PP_searchvehicle_SetCtrlReq t c)" "rc_kept c (PP_sunroofctrl_SetCtrlReq t c)"
    "rc_kept c (PP_startforbid_SetCtrlReq t c)" "rc_kept c (PP_bluetoothstart_SetCtrlReq c)" for c t
    by (simp_all add: rc_kept_def PP_doorLockCtrl_SetCtrlReq_def PP_autodoorCtrl_SetCtrlReq_def
        PP_searchvehicle_SetCtrlReq_def PP_sunroofctrl_SetCtrlReq_def PP_startforbid_SetCtrlReq_def
        PP_bluetoothstart_SetCtrlReq_def)
  have "rc_kept_all s (s\<lparr>r_door := PP_doorLockCtrl_SetCtrlReq t (r_door s)\<rparr>)"
    "rc_kept_all s (s\<lparr>r_autodoor := PP_autodoorCtrl_SetCtrlReq t (r_autodoor s)\<rparr>)"
    "rc_kept_all s (s\<lparr>r_search := PP_searchvehicle_SetCtrlReq t (r_search s)\<rparr>)"
    "rc_kept_all s (s\<lparr>r_sunroof := PP_sunroofctrl_SetCtrlReq t (r_sunroof s)\<rparr>)"
    "rc_kept_all s (s\<lparr>r_forbid := PP_startforbid_SetCtrlReq t (r_forbid s)\<rparr>)"
    "rc_kept_all s (s\<lparr>r_blue := PP_bluetoothstart_SetCtrlReq (r_blue s)\<rparr>)" for t
    by (simp_all add: rc_kept_all_def all_actors c)
  then show ?thesis unfolding PP_rmtCtrl_SetCtrlReq_def Let_def by (simp split: if_split)
qed

lemmas kept_BluetoothShell = kept_Bluetooth [unfolded rc_kept_all_def all_actors act_ctl.simps]
  kept_Shell [unfolded rc_kept_all_def all_actors act_ctl.simps]

lemma kept_event: "\<nexists>e mo. ev = Turn e mo \<Longrightarrow> rc_kept_all s (rc_do ev s)"
  by (cases ev) (simp_all add: kept_BluetoothShell PP_rmtCtrl_HuCtrlReq_def rc_fota_startInform_def wsrv_ota_request_def
      SetPP_rmtCtrl_FOTA_endInform_def SetPP_rmtCtrl_AuthRequest_def on_defs Let_def case_prod_beta rc_kept_all_def
      all_actors)

text \<open>A turn of the command phase runs each main function once.\<close>

lemma on_grows [grow_intros]:
  "rc_grows w0 (r_w s) \<Longrightarrow> rc_grows w0 (r_w (on_door (PP_doorLockCtrl_mainfunction e) s))"
  "rc_grows w0 (r_w s) \<Longrightarrow> rc_grows w0 (r_w (on_sunroof (PP_sunroofctrl_mainfunction e) s))"
  "rc_grows w0 (r_w s) \<Longrightarrow> rc_grows w0 (r_w (on_autodoor (PP_autodoorCtrl_mainfunction e) s))"
  "rc_grows w0 (r_w s) \<Longrightarrow> rc_grows w0 (r_w (on_search (PP_searchvehicle_mainfunction e) s))"
  "rc_grows w0 (r_w s) \<Longrightarrow> rc_grows w0 (r_w (on_forbid (PP_startforbid_mainfunction e) s))"
  "rc_grows w0 (r_w s) \<Longrightarrow> rc_grows w0 (r_w (on_camera (PP_CameraCtr_mainfunction e) s))"
  "rc_grows w0 (r_w s) \<Longrightarrow> rc_grows w0 (r_w (on_blue (PP_bluetoothstart_mainfunction e) s))"
  "rc_grows w0 (r_w s) \<Longrightarrow> rc_grows w0 (r_w (on_pwr (PP_startengine_mainfunction e) s))"
  "rc_grows w0 (r_w s) \<Longrightarrow> rc_grows w0 (r_w (on_pwr (PP_ACCtrl_mainfunction e) s))"
  "rc_grows w0 (r_w s) \<Longrightarrow> rc_grows w0 (r_w (on_pwr (PP_seatheating_mainfunction e) s))"
  by (simp_all add: on_defs case_prod_beta grows_mains grows_power)

lemma on_step:
  "f (r_door s, r_w s) = (r_door (on_door f s), r_w (on_door f s))"
  "f (r_sunroof s, r_w s) = (r_sunroof (on_sunroof f s), r_w (on_sunroof f s))"
  "f (r_autodoor s, r_w s) = (r_autodoor (on_autodoor f s), r_w (on_autodoor f s))"
  "f (r_search s, r_w s) = (r_search (on_search f s), r_w (on_search f s))"
  "f (r_forbid s, r_w s) = (r_forbid (on_forbid f s), r_w (on_forbid f s))"
  "f (r_blue s, r_w s) = (r_blue (on_blue f s), r_w (on_blue f s))"
  by (simp_all add: on_defs case_prod_beta)

lemma on_other [simp]:
  "r_door (on_sunroof f s) = r_door s" "r_door (on_autodoor f s) = r_door s" "r_door (on_search f s) = r_door s"
  "r_door (on_forbid f s) = r_door s" "r_door (on_camera f s) = r_door s" "r_door (on_blue f s) = r_door s"
  "r_door (on_pwr g s) = r_door s" "r_sunroof (on_door f s) = r_sunroof s" "r_sunroof (on_autodoor f s) = r_sunroof s"
  "r_sunroof (on_search f s) = r_sunroof s" "r_sunroof (on_forbid f s) = r_sunroof s" "r_sunroof (on_camera f s) = r_sunroof s"
  "r_sunroof (on_blue f s) = r_sunroof s" "r_sunroof (on_pwr g s) = r_sunroof s"
  "r_autodoor (on_door f s) = r_autodoor s" "r_autodoor (on_sunroof f s) = r_autodoor s"
  "r_autodoor (on_search f s) = r_autodoor s" "r_autodoor (on_forbid f s) = r_autodoor s"
  "r_autodoor (on_camera f s) = r_autodoor s" "r_autodoor (on_blue f s) = r_autodoor s" "r_autodoor (on_pwr g s) = r_autodoor s"
  "r_search (on_door f s) = r_search s" "r_search (on_sunroof f s) = r_search s" "r_search (on_autodoor f s) = r_search s"
  "r_search (on_forbid f s) = r_search s" "r_search (on_camera f s) = r_search s" "r_search (on_blue f s) = r_search s"
  "r_search (on_pwr g s) = r_search s" "r_forbid (on_door f s) = r_forbid s" "r_forbid (on_sunroof f s) = r_forbid s"
  "r_forbid (on_autodoor f s) = r_forbid s" "r_forbid (on_search f s) = r_forbid s" "r_forbid (on_camera f s) = r_forbid s"
  "r_forbid (on_blue f s) = r_forbid s" "r_forbid (on_pwr g s) = r_forbid s" "r_blue (on_door f s) = r_blue s"
  "r_blue (on_sunroof f s) = r_blue s" "r_blue (on_autodoor f s) = r_blue s" "r_blue (on_search f s) = r_blue s"
  "r_blue (on_forbid f s) = r_blue s" "r_blue (on_camera f s) = r_blue s" "r_blue (on_pwr g s) = r_blue s"
  by (simp_all add: on_defs case_prod_beta)

lemma modules_step:
  "\<exists>w w'. act_main a e (act_ctl a t, w) = (act_ctl a (rc_modules e t), w') \<and> rc_grows (r_w t) w
    \<and> rc_grows w' (r_w (rc_modules e t))"
proof -
  define s1 where "s1 = on_door (PP_doorLockCtrl_mainfunction e) t"
  define s2 where "s2 = on_sunroof (PP_sunroofctrl_mainfunction e) s1"
  define s3 where "s3 = on_autodoor (PP_autodoorCtrl_mainfunction e) s2"
  define s4 where "s4 = on_search (PP_searchvehicle_mainfunction e) s3"
  define s6 where "s6 = on_pwr (PP_ACCtrl_mainfunction e) (on_pwr (PP_startengine_mainfunction e) s4)"
  define s7 where "s7 = on_forbid (PP_startforbid_mainfunction e) s6"
  define s9 where "s9 = on_camera (PP_CameraCtr_mainfunction e) (on_pwr (PP_seatheating_mainfunction e) s7)"
  define s10 where "s10 = on_blue (PP_bluetoothstart_mainfunction e) s9"
  note d = s1_def s2_def s3_def s4_def s6_def s7_def s9_def s10_def
  have m: "rc_modules e t = s10" by (simp add: rc_modules_def d)
  have step: "\<exists>w w'. f (c, w) = (c', w') \<and> rc_grows (r_w t) w \<and> rc_grows w' (r_w s10)"
    if "f (c, r_w s) = (c', r_w s')" "rc_grows (r_w t) (r_w s)" "rc_grows (r_w s') (r_w s10)" for f c c' s s'
    using that by blast
  have g: "rc_grows (r_w t) (r_w s1)" "rc_grows (r_w t) (r_w s2)" "rc_grows (r_w t) (r_w s3)" "rc_grows (r_w t) (r_w s6)"
    "rc_grows (r_w t) (r_w s9)" "rc_grows (r_w s1) (r_w s10)" "rc_grows (r_w s2) (r_w s10)" "rc_grows (r_w s3) (r_w s10)"
    "rc_grows (r_w s4) (r_w s10)" "rc_grows (r_w s7) (r_w s10)" "rc_grows (r_w t) (r_w t)" "rc_grows (r_w s10) (r_w s10)"
    unfolding d by (intro grow_intros)+
  have "act_main Door e (r_door t, r_w t) = (r_door s10, r_w s1)"
    "act_main Sunroof e (r_sunroof t, r_w s1) = (r_sunroof s10, r_w s2)"
    "act_main Tailgate e (r_autodoor t, r_w s2) = (r_autodoor s10, r_w s3)"
    "act_main Search e (r_search t, r_w s3) = (r_search s10, r_w s4)"
    "act_main Prohibition e (r_forbid t, r_w s6) = (r_forbid s10, r_w s7)"
    "act_main OneButton e (r_blue t, r_w s9) = (r_blue s10, r_w s10)"
    using on_step(1) [of "PP_doorLockCtrl_mainfunction e" t] on_step(2) [of "PP_sunroofctrl_mainfunction e" s1]
      on_step(3) [of "PP_autodoorCtrl_mainfunction e" s2] on_step(4) [of "PP_searchvehicle_mainfunction e" s3]
      on_step(5) [of "PP_startforbid_mainfunction e" s6] on_step(6) [of "PP_bluetoothstart_mainfunction e" s9]
    by (simp_all add: d)
  then show ?thesis unfolding m by (cases a; simp only: act_ctl.simps) (rule step; (assumption | rule g))+
qed

lemma turn_acts: "r_st s = RMTCTRL_COMMAND_LAUNCH \<Longrightarrow> act_ctl a (rc_turn e mo s) = act_ctl a (rc_modules e (turn_before e mo s))"
proof -
  assume "r_st s = RMTCTRL_COMMAND_LAUNCH"
  then have "r_st (turn_before e mo s) = RMTCTRL_COMMAND_LAUNCH" using calm_before [of s e mo] by (simp add: rc_calm_def)
  then show ?thesis
    by (cases a) (simp_all add: turn_parts rc_phase_step_def rc_command_def turn_after_def Let_def on_chg_def on_world_def
        case_prod_beta)
qed

lemma act_turn:
  assumes "r_st s = RMTCTRL_COMMAND_LAUNCH"
  shows "\<exists>w w'. act_main a e (act_ctl a (turn_before e mo s), w) = (act_ctl a (rc_turn e mo s), w')
    \<and> rc_grows (r_w s) w \<and> rc_grows w' (r_w (rc_turn e mo s))"
proof -
  let ?t = "turn_before e mo s"
  have b: "rc_grows (r_w s) (r_w ?t)" "r_st ?t = RMTCTRL_COMMAND_LAUNCH"
    using calm_before [of s e mo] assms grows_quiet by (auto simp: rc_calm_def)
  have "rc_grows (r_w (rc_phase_step e ?t)) (r_w (rc_turn e mo s))"
    using calm_after [of "rc_phase_step e ?t" e] grows_quiet by (auto simp: rc_calm_def turn_parts)
  moreover have "r_w (rc_phase_step e ?t) = r_w (rc_modules e ?t)"
    using b(2) by (simp add: rc_phase_step_def rc_command_def Let_def)
  ultimately show ?thesis
    using modules_step [of a e ?t] grows_trans [OF b(1)] grows_trans by (simp add: turn_acts [OF assms]) metis
qed

lemma act_busy:
  assumes "r_st s = RMTCTRL_COMMAND_LAUNCH" "c_st (act_ctl a (rc_turn e mo s)) \<noteq> CT_IDLE"
  shows "r_st (rc_turn e mo s) = RMTCTRL_COMMAND_LAUNCH"
proof -
  let ?t = "turn_before e mo s"
  have t: "r_st ?t = RMTCTRL_COMMAND_LAUNCH" using calm_before [of s e mo] assms(1) by (simp add: rc_calm_def)
  have "\<not> all_idle (rc_modules e ?t)"
    using assms(2) unfolding turn_acts [OF assms(1)] by (cases a) (auto simp: all_idle_def rc_phases_def)
  then have "r_st (rc_phase_step e ?t) = RMTCTRL_COMMAND_LAUNCH"
    using t ends_idle by (auto simp: rc_phase_step_def rc_command_def Let_def)
  then show ?thesis using calm_after [of "rc_phase_step e ?t" e] by (simp add: rc_calm_def turn_parts)
qed

lemma act_actuator: "rc_actuator (act_main a) (act_serves a) (act_limit a)"
proof (cases a)
  case Door
  have "act_serves Door = (\<lambda>c. True)" by auto
  then show ?thesis using door_act.rc_actuator_axioms Door by simp
next
  case Tailgate
  have "act_serves Tailgate = (\<lambda>c. True)" by auto
  then show ?thesis using autodoor_act.rc_actuator_axioms Tailgate by simp
next
  case Search
  have "act_serves Search = (\<lambda>c. c_cmd c = 2)" by auto
  then show ?thesis using search_act.rc_actuator_axioms Search by simp
next
  case Sunroof
  have "act_serves Sunroof = (\<lambda>c. c_cmd c \<in> {1, 2, 3} \<and> c_style c \<in> {RMTCTRL_TSP, RMTCTRL_BLUETOOTH})" by (rule ext) simp
  then show ?thesis using sunroof_act.rc_actuator_axioms Sunroof by simp
next
  case Prohibition
  have "act_serves Prohibition = (\<lambda>c. c_style c = RMTCTRL_TSP)" by auto
  then show ?thesis using forbid_act.rc_actuator_axioms Prohibition by simp
next
  case OneButton
  have "act_serves OneButton = (\<lambda>c. c_style c \<noteq> RMTCTRL_TSP)" by auto
  then show ?thesis using blue_act.rc_actuator_axioms OneButton by simp
qed

interpretation act: rc_served "act_main a" "act_serves a" "act_limit a" "act_ctl a" for a
proof (intro rc_served.intro act_actuator rc_served_axioms.intro)
  fix s e mo ev
  show "r_st s = RMTCTRL_COMMAND_LAUNCH \<Longrightarrow> \<exists>w w'. act_main a e (act_ctl a (turn_before e mo s), w)
      = (act_ctl a (rc_turn e mo s), w') \<and> rc_grows (r_w s) w \<and> rc_grows w' (r_w (rc_turn e mo s))" by (rule act_turn)
  show "rc_kept (act_ctl a s) (act_ctl a (turn_before e mo s))" using kept_before by (simp add: rc_kept_all_def)
  show "\<nexists>e mo. ev = Turn e mo \<Longrightarrow> rc_kept (act_ctl a s) (act_ctl a (rc_do ev s))"
    using kept_event by (simp add: rc_kept_all_def)
  show "r_st s = RMTCTRL_COMMAND_LAUNCH \<Longrightarrow> c_st (act_ctl a (rc_turn e mo s)) \<noteq> CT_IDLE
      \<Longrightarrow> r_st (rc_turn e mo s) = RMTCTRL_COMMAND_LAUNCH" by (rule act_busy)
qed

text \<open>C4: In the command phase a request is answered in time: when a door lock, tailgate, search, sunroof, prohibition
  or one-button start request is pending and its module is idle, then whatever else happens in between, and whatever the vehicle does,
  over any turns of the thread of which the last but one comes at least the actuator's waiting time after the second, one of these turns, the
  last at the latest, ends the request with its final answer; the encoder is assumed to accept the reports, and the request
  to stay one that the actuator serves.\<close>

theorem rc_request_answered:
  assumes "r_st s = RMTCTRL_COMMAND_LAUNCH" "c_st (act_ctl a s) = CT_IDLE" "c_req (act_ctl a s)"
    and "rc_turns evs = e0 # e1 # es @ [e2, e3]" "act_limit a \<le> e_now e2 - e_now e1"
    and "rc_steady (act_ctl a) (\<lambda>e c. e_encOk e \<and> act_serves a c) evs s"
  shows "rc_answered (act_ctl a) evs s"
  by (rule act.request_answers) (fact assms)+

theorem rc_request_answered_witness:
  "rc_answered r_door [Turn (env_at 1090) None, Turn (env_at 1100) None, Turn (env_at 3200) None, Turn (env_at 3300) None]
     ((PP_rmtCtrl_init None)\<lparr>r_st := RMTCTRL_COMMAND_LAUNCH,
        r_door := rc_ctl_init\<lparr>c_req := True, c_cmd := 2, c_style := RMTCTRL_BLUETOOTH\<rparr>\<rparr>)"
proof -
  let ?s = "(PP_rmtCtrl_init None)\<lparr>r_st := RMTCTRL_COMMAND_LAUNCH,
    r_door := rc_ctl_init\<lparr>c_req := True, c_cmd := 2, c_style := RMTCTRL_BLUETOOTH\<rparr>\<rparr>"
  let ?evs = "[Turn (env_at 1090) None, Turn (env_at 1100) None, Turn (env_at 3200) None, Turn (env_at 3300) None]"
  have s: "r_st ?s = RMTCTRL_COMMAND_LAUNCH" "c_st (act_ctl Door ?s) = CT_IDLE" "c_req (act_ctl Door ?s)"
    by (simp_all add: rc_ctl_init_def)
  have t: "rc_turns ?evs = env_at 1090 # env_at 1100 # [] @ [env_at 3200, env_at 3300]" by simp
  have l: "act_limit Door \<le> e_now (env_at 3200) - e_now (env_at 1100)" by (simp add: env_at_def)
  have r: "rc_steady (act_ctl Door) (\<lambda>e c. e_encOk e \<and> act_serves Door c) ?evs ?s" by (simp add: env_at_def)
  have "act_ctl Door = r_door" by (rule ext) simp
  then show ?thesis using rc_request_answered [OF s t l r] by simp
qed

section \<open>Requests that never end\<close>

text \<open>The commands an actuator sends out and then waits for without an end.\<close>

fun act_ignores :: "rc_actor \<Rightarrow> rc_ctl \<Rightarrow> bool" where
  "act_ignores Sunroof c = (c_cmd c \<notin> {1, 2, 3})"
| "act_ignores Search c = (c_cmd c \<noteq> 2)"
| "act_ignores _ c = False"

lemma ignored_waits:
  "act_ignores a c \<Longrightarrow> c_st c = CT_RESPWAIT \<Longrightarrow> act_main a e (c, w) = (c', w') \<Longrightarrow> c_st c' = CT_RESPWAIT"
  by (cases a) (auto simp: PP_sunroofctrl_mainfunction_def PP_searchvehicle_mainfunction_def Let_def split: if_splits)

lemma command_auth:
  assumes "r_st s = RMTCTRL_COMMAND_LAUNCH"
  shows "a_valid_time (r_auth (rc_turn e mo s)) = a_valid_time (r_auth s)"
proof -
  let ?t = "turn_before e mo s"
  have b: "rc_calm s ?t" by (rule calm_before)
  have "r_auth (rc_phase_step e ?t) = r_auth ?t" using b assms by (simp add: rc_calm_def rc_phase_step_def rc_command_def Let_def)
  then show ?thesis using b calm_after [of "rc_phase_step e ?t" e] by (simp add: rc_calm_def turn_parts)
qed

text \<open>C40: A stop command for the sunroof, and a search with another command than the one it knows, never end: once the
  command is sent, then as long as no other command for that actuator arrives, the thread stays in its command
  phase, whatever happens and however late it is. It never looks at the age of the authentication again, so what is
  requested meanwhile is executed under the old one.\<close>

theorem rc_ignored_never_ends:
  assumes "r_st s = RMTCTRL_COMMAND_LAUNCH" "c_st (act_ctl a s) = CT_RESPWAIT"
    and "rc_steady (act_ctl a) (\<lambda>e. act_ignores a) evs s"
  shows "r_st (rc_run evs s) = RMTCTRL_COMMAND_LAUNCH \<and> c_st (act_ctl a (rc_run evs s)) = CT_RESPWAIT
    \<and> a_valid_time (r_auth (rc_run evs s)) = a_valid_time (r_auth s)"
  using assms
proof (induction evs arbitrary: s)
  case Nil
  then show ?case by (simp add: rc_run_def)
next
  case (Cons ev evs)
  have nx: "r_st (rc_do ev s) = RMTCTRL_COMMAND_LAUNCH \<and> c_st (act_ctl a (rc_do ev s)) = CT_RESPWAIT
      \<and> a_valid_time (r_auth (rc_do ev s)) = a_valid_time (r_auth s)"
  proof (cases "\<exists>e mo. ev = Turn e mo")
    case True
    then obtain e mo where ev: "ev = Turn e mo" by blast
    let ?c = "act_ctl a (turn_before e mo s)"
    obtain w w' where m: "act_main a e (?c, w) = (act_ctl a (rc_turn e mo s), w')" using act_turn [OF Cons.prems(1)] by blast
    have c: "c_st ?c = CT_RESPWAIT" using act.before [of a s e mo] Cons.prems(2) by (simp add: rc_kept_def)
    have "act_ignores a ?c" using Cons.prems(3) by (simp add: ev)
    then have r: "c_st (act_ctl a (rc_turn e mo s)) = CT_RESPWAIT" using ignored_waits [OF _ c m] by simp
    then have "r_st (rc_turn e mo s) = RMTCTRL_COMMAND_LAUNCH" using act_busy [OF Cons.prems(1), of a e mo] by simp
    then show ?thesis using r command_auth [OF Cons.prems(1)] by (simp add: ev)
  next
    case False
    then show ?thesis using act.calm_step [OF False Cons.prems(1)] calm_event [of ev s] Cons.prems(2)
      by (auto simp: rc_kept_def rc_calm_def)
  qed
  have "rc_steady (act_ctl a) (\<lambda>e. act_ignores a) evs (rc_do ev s)" using Cons.prems(3) by simp
  then show ?case using Cons.IH [of "rc_do ev s"] nx by (simp add: rc_run_def)
qed

theorem rc_ignored_never_ends_witness:
  "r_st (rc_run [Turn (env_at 99999999) None] ((PP_rmtCtrl_init None)\<lparr>r_st := RMTCTRL_COMMAND_LAUNCH,
     r_sunroof := rc_ctl_init\<lparr>c_st := CT_RESPWAIT, c_cmd := 4, c_style := RMTCTRL_BLUETOOTH\<rparr>\<rparr>)) = RMTCTRL_COMMAND_LAUNCH"
proof -
  let ?s = "(PP_rmtCtrl_init None)\<lparr>r_st := RMTCTRL_COMMAND_LAUNCH,
     r_sunroof := rc_ctl_init\<lparr>c_st := CT_RESPWAIT, c_cmd := 4, c_style := RMTCTRL_BLUETOOTH\<rparr>\<rparr>"
  have s: "r_st ?s = RMTCTRL_COMMAND_LAUNCH" "c_st (act_ctl Sunroof ?s) = CT_RESPWAIT"
    "rc_steady (act_ctl Sunroof) (\<lambda>e. act_ignores Sunroof) [Turn (env_at 99999999) None] ?s"
    by (simp_all add: turn_before_def PP_rmtCtrl_do_rcvMsg_def)
  then show ?thesis using rc_ignored_never_ends [OF s] by blast
qed

end
