(* ===== verification/RcFacts.thy ===== *)
theory RcFacts
  imports RcRun
begin

text \<open>
  What single parts of the remote control compute: the answer of the authentication is the XTEA encipherment under the key, the
  wake time is the distance to the next booking, the fields of the control words; and what the requests do while an
  update runs.
\<close>

section \<open>The cipher\<close>

text \<open>What the body controller has to compute: the rounds backwards, from the last sum.\<close>

definition xtea_step :: "u32 list \<Rightarrow> u32 \<Rightarrow> u32 \<times> u32 \<Rightarrow> u32 \<times> u32" where
  "xtea_step k acc v =
    (let v0 = fst v + xtea_mix k (snd v) acc (unat (acc AND 3));
         acc = acc + xtea_delta
     in (v0, snd v + xtea_mix k v0 acc (unat (drop_bit 11 acc AND 3))))"

definition xtea_unstep :: "u32 list \<Rightarrow> u32 \<Rightarrow> u32 \<times> u32 \<Rightarrow> u32 \<times> u32" where
  "xtea_unstep k acc v =
    (let v1 = snd v - xtea_mix k (fst v) acc (unat (drop_bit 11 acc AND 3));
         acc = acc - xtea_delta
     in (fst v - xtea_mix k v1 acc (unat (acc AND 3)), v1))"

primrec xtea_unrounds :: "u32 list \<Rightarrow> nat \<Rightarrow> u32 \<Rightarrow> u32 \<times> u32 \<Rightarrow> u32 \<times> u32" where
  "xtea_unrounds k 0 acc v = v"
| "xtea_unrounds k (Suc n) acc v = xtea_unrounds k n (acc - xtea_delta) (xtea_unstep k acc v)"

lemma unstep_step: "xtea_unstep k (acc + xtea_delta) (xtea_step k acc v) = v"
  by (simp add: xtea_unstep_def xtea_step_def Let_def)

lemma rounds_Suc: "xtea_rounds k (Suc n) acc v = xtea_rounds k n (acc + xtea_delta) (xtea_step k acc v)"
  by (simp add: xtea_step_def Let_def)

lemma rounds_snoc: "xtea_rounds k (Suc n) acc v = xtea_step k (acc + of_nat n * xtea_delta) (xtea_rounds k n acc v)"
proof (induction n arbitrary: acc v)
  case 0
  then show ?case by (simp add: xtea_step_def Let_def)
next
  case (Suc n)
  have "xtea_rounds k (Suc (Suc n)) acc v = xtea_rounds k (Suc n) (acc + xtea_delta) (xtea_step k acc v)"
    by (rule rounds_Suc)
  also have "\<dots> = xtea_step k (acc + xtea_delta + of_nat n * xtea_delta) (xtea_rounds k n (acc + xtea_delta) (xtea_step k acc v))"
    by (rule Suc.IH)
  also have "\<dots> = xtea_step k (acc + of_nat (Suc n) * xtea_delta) (xtea_rounds k (Suc n) acc v)"
    unfolding rounds_Suc [of k n acc v] by (simp add: algebra_simps)
  finally show ?case .
qed

lemma unrounds_rounds: "xtea_unrounds k n (acc + of_nat n * xtea_delta) (xtea_rounds k n acc v) = v"
proof (induction n)
  case (Suc n)
  have "acc + of_nat (Suc n) * xtea_delta = acc + of_nat n * xtea_delta + xtea_delta" by (simp add: algebra_simps)
  then show ?case using Suc.IH
    by (simp only: rounds_snoc xtea_unrounds.simps unstep_step add_diff_cancel_right')
qed simp

text \<open>The four bytes of a word; their sum is a disjunction, since the bytes do not overlap.\<close>

lemma bytes_or:
  "push_bit 24 (ucast (a :: u8)) + push_bit 16 (ucast (b :: u8)) + push_bit 8 (ucast (c :: u8)) + ucast (d :: u8)
    = (push_bit 24 (ucast a) OR push_bit 16 (ucast b) OR push_bit 8 (ucast c) OR ucast d :: u32)"
proof -
  have 1: "push_bit 24 (ucast a) + push_bit 16 (ucast b) = (push_bit 24 (ucast a) OR push_bit 16 (ucast b) :: u32)"
    by (rule disjunctive_add) (auto simp: bit_simps dest: bit_imp_le_length)
  have 2: "(push_bit 24 (ucast a) OR push_bit 16 (ucast b)) + push_bit 8 (ucast c)
      = ((push_bit 24 (ucast a) OR push_bit 16 (ucast b)) OR push_bit 8 (ucast c) :: u32)"
    by (rule disjunctive_add) (auto simp: bit_simps dest: bit_imp_le_length)
  have 3: "((push_bit 24 (ucast a) OR push_bit 16 (ucast b)) OR push_bit 8 (ucast c)) + ucast d
      = (((push_bit 24 (ucast a) OR push_bit 16 (ucast b)) OR push_bit 8 (ucast c)) OR ucast d :: u32)"
    by (rule disjunctive_add) (auto simp: bit_simps dest: bit_imp_le_length)
  show ?thesis unfolding 1 2 3 by (simp only: "or.assoc")
qed

lemma be32_to_be32: "be32 (xs @ to_be32 v @ ys) (length xs) = v"
proof -
  have "be32 (xs @ to_be32 v @ ys) (length xs) = push_bit 24 (ucast (ucast (drop_bit 24 (v AND 0xFF000000)) :: u8))
      + push_bit 16 (ucast (ucast (drop_bit 16 (v AND 0x00FF0000)) :: u8))
      + push_bit 8 (ucast (ucast (drop_bit 8 (v AND 0x0000FF00)) :: u8)) + ucast (ucast v :: u8)"
    by (simp add: be32_def to_be32_def nth_append)
  also have "\<dots> = (v :: u32)" unfolding bytes_or
  proof (rule bit_word_eqI)
    fix n assume "n < LENGTH(32)"
    then have "n \<in> {0, 1, 2, 3, 4, 5, 6, 7, 8, 9, 10, 11, 12, 13, 14, 15, 16, 17, 18, 19, 20, 21, 22, 23, 24, 25, 26, 27,
        28, 29, 30, 31}" by (simp; presburger)
    then show "bit (push_bit 24 (ucast (ucast (drop_bit 24 (v AND 0xFF000000)) :: u8))
      OR push_bit 16 (ucast (ucast (drop_bit 16 (v AND 0x00FF0000)) :: u8))
      OR push_bit 8 (ucast (ucast (drop_bit 8 (v AND 0x0000FF00)) :: u8)) OR ucast (ucast v :: u8) :: u32) n
        \<longleftrightarrow> bit v n"
      by (simp only: insert_iff empty_iff simp_thms) (elim disjE; simp add: bit_simps bit_numeral_rec)
  qed
  finally show ?thesis .
qed

lemma to_be32_be32: "to_be32 (be32 [a, b, c, d] 0) = [a, b, c, d]"
proof -
  have e: "be32 [a, b, c, d] 0 = push_bit 24 (ucast a) OR push_bit 16 (ucast b) OR push_bit 8 (ucast c) OR ucast d"
    by (simp add: be32_def bytes_or)
  have m: "(0xFF000000 :: u32) = push_bit 24 (mask 8)" "(0x00FF0000 :: u32) = push_bit 16 (mask 8)"
      "(0x0000FF00 :: u32) = push_bit 8 (mask 8)"
    by (simp_all add: mask_eq_exp_minus_1)
  have "to_be32 (be32 [a, b, c, d] 0) ! i = [a, b, c, d] ! i" if "i \<in> {0, 1, 2, 3}" for i
    using that unfolding e to_be32_def m
    by (elim insertE emptyE; simp) (rule bit_word_eqI; auto simp: bit_simps dest: bit_imp_le_length)+
  from this [of 0] this [of 1] this [of 2] this [of 3] show ?thesis by (simp add: to_be32_def)
qed

lemma be32_append: "i + 4 \<le> length xs \<Longrightarrow> be32 (xs @ ys) i = be32 xs i"
  by (simp add: be32_def nth_append)

lemma length_to_be32 [simp]: "length (to_be32 v) = 4"
  by (simp add: to_be32_def)

lemma eight_bytes:
  assumes "length ch = 8"
  shows "to_be32 (be32 ch 0) @ to_be32 (be32 ch 4) = ch"
proof -
  obtain a b c d a' b' c' d' where ch: "ch = [a, b, c, d, a', b', c', d']"
    using assms by (auto simp: numeral_eq_Suc length_Suc_conv)
  have "be32 ch 4 = be32 [a', b', c', d'] 0" by (simp add: ch be32_def)
  moreover have "be32 ch 0 = be32 [a, b, c, d] 0" by (simp add: ch be32_def)
  ultimately show ?thesis by (simp add: to_be32_be32 ch)
qed

text \<open>The reference: XTEA as it was published (32 rounds, the constant 0x9E3779B9, shifts by 4 and 5, keys chosen by the low bits of
  the sum and by its bits 11 and 12), deciphering, on words and key words read from bytes with the most significant one first. The
  key is the shared one, each byte combined by exclusive or with the constant both sides have built in. It uses nothing of
  the program's cipher.\<close>

definition ref_key :: "bytes \<Rightarrow> nat \<Rightarrow> u32" where
  "ref_key sk i = word_rcat (take 4 (drop (4 * i) (map2 (XOR) sk
     [0xA5, 0x9E, 0x2D, 0x4B, 0x49, 0x18, 0x0F, 0x83, 0x6E, 0xA4, 0xC5, 0x48, 0x55, 0x15, 0x5B, 0xC3])))"

definition ref_mix :: "u32 \<Rightarrow> u32 \<Rightarrow> u32" where
  "ref_mix v key = ((16 * v XOR v div 32) + v) XOR key"

primrec ref_rounds :: "(nat \<Rightarrow> u32) \<Rightarrow> nat \<Rightarrow> u32 \<times> u32 \<Rightarrow> u32 \<times> u32" where
  "ref_rounds k 0 v = v"
| "ref_rounds k (Suc n) v =
    (let hi = (of_nat n + 1) * 0x9E3779B9; lo = of_nat n * 0x9E3779B9;
         v1 = snd v - ref_mix (fst v) (hi + k (unat (hi div 2048 mod 4)));
         v0 = fst v - ref_mix v1 (lo + k (unat (lo mod 4)))
     in ref_rounds k n (v0, v1))"

definition ref_decipher :: "bytes \<Rightarrow> bytes \<Rightarrow> u32 \<times> u32" where
  "ref_decipher sk blk = ref_rounds (ref_key sk) 32 (word_rcat (take 4 blk), word_rcat (drop 4 blk))"

lemma be32_rcat: "be32 [a, b, c, d] 0 = word_rcat [a, b, c, d]"
proof -
  have u: "of_int (uint x) = (ucast x :: u32)" for x :: u8 by simp
  have "word_rcat [a, b, c, d] = (of_int (uint d + 256 * (uint c + 256 * (uint b + 256 * uint a))) :: u32)"
    by (simp add: word_rcat_def)
  also have "\<dots> = ucast d + 256 * (ucast c + 256 * (ucast b + 256 * ucast a))"
    by (simp only: of_int_add of_int_mult u of_int_numeral)
  finally show ?thesis by (simp add: be32_def push_bit_eq_mult algebra_simps)
qed

lemma eight: "length xs = 8 \<Longrightarrow> \<exists>a b c d e f g h. xs = [a, b, c, d, e, f, g, h]"
  by (auto simp: numeral_eq_Suc length_Suc_conv)

lemma mix_ref: "xtea_mix k v acc i = ref_mix v (acc + k ! i)"
  by (simp add: xtea_mix_def ref_mix_def push_bit_eq_mult drop_bit_eq_div mult.commute)

lemma and_3: "x AND 3 = x mod 4" for x :: u32
  using take_bit_eq_mask [of 2 x] by (simp add: mask_eq_exp_minus_1 take_bit_eq_mod)

lemma mod_4_less: "unat (x mod 4) < 4" for x :: u32
  by (simp add: unat_mod)

lemma unrounds_ref:
  assumes "\<And>i. i < 4 \<Longrightarrow> k ! i = r i"
  shows "xtea_unrounds k n (of_nat n * xtea_delta) v = ref_rounds r n v"
proof (induction n arbitrary: v)
  case (Suc n)
  have d: "of_nat (Suc n) * xtea_delta - xtea_delta = of_nat n * xtea_delta" by (simp add: algebra_simps)
  have s: "drop_bit 11 x AND 3 = x div 2048 mod 4" for x :: u32 unfolding and_3 by (simp add: drop_bit_eq_div)
  show ?case
    unfolding xtea_unrounds.simps d xtea_unstep_def Let_def mix_ref s and_3 ref_rounds.simps assms [OF mod_4_less] Suc.IH
    by (simp add: xtea_delta_def drop_bit_eq_div algebra_simps)
qed simp

lemma be32_take:
  assumes "j + 4 \<le> length xs"
  shows "be32 xs j = word_rcat (take 4 (drop j xs))"
proof -
  have "take 4 (drop j xs) = [xs ! j, xs ! (j + 1), xs ! (j + 2), xs ! (j + 3)]"
    by (rule nth_equalityI) (use assms in \<open>auto simp: less_Suc_eq numeral_eq_Suc\<close>)
  then show ?thesis unfolding be32_rcat [symmetric] by (simp add: be32_def be32_rcat [symmetric])
qed

lemma key_ref:
  assumes "length sk = 16" "i < 4"
  shows "xtea_key sk ! i = ref_key sk i"
proof -
  have c: "ConstSk = [0xA5, 0x9E, 0x2D, 0x4B, 0x49, 0x18, 0x0F, 0x83, 0x6E, 0xA4, 0xC5, 0x48, 0x55, 0x15, 0x5B, 0xC3]"
    by (rule ConstSk_def)
  have l: "length (map2 (XOR) sk ConstSk) = 16" using assms(1) by (simp add: c)
  have "xtea_key sk ! i = be32 (map2 (XOR) sk ConstSk) (4 * i)"
    using assms(2) by (auto simp: xtea_key_def Let_def less_Suc_eq numeral_eq_Suc)
  also have "\<dots> = ref_key sk i" unfolding ref_key_def c [symmetric] by (rule be32_take) (use assms(2) l in simp)
  finally show ?thesis .
qed

lemma encipher_ref:
  assumes "length sk = 16" "length ch = 8"
  shows "ref_decipher sk (XteaEncipher sk ch) = (word_rcat (take 4 ch), word_rcat (drop 4 ch))"
proof -
  obtain a b c d a' b' c' d' where ch: "ch = [a, b, c, d, a', b', c', d']" using eight [OF assms(2)] by blast
  have w: "be32 ch 0 = word_rcat (take 4 ch)" "be32 ch 4 = word_rcat (drop 4 ch)"
    using be32_rcat [of a b c d] be32_rcat [of a' b' c' d'] by (simp_all add: ch be32_def)
  obtain v0 v1 where v: "xtea_rounds (xtea_key sk) 32 0 (be32 ch 0, be32 ch 4) = (v0, v1)" by (rule prod.exhaust)
  have t: "word_rcat (to_be32 x) = x" for x
    using be32_to_be32 [of "[]" x "[]"] by (simp add: to_be32_def be32_rcat)
  have "ref_decipher sk (XteaEncipher sk ch) = ref_rounds (ref_key sk) 32 (v0, v1)"
    by (simp add: ref_decipher_def XteaEncipher_def v t)
  also have "\<dots> = xtea_unrounds (xtea_key sk) 32 (0 + of_nat 32 * xtea_delta) (v0, v1)"
    using unrounds_ref [of "xtea_key sk" "ref_key sk" 32 "(v0, v1)"] key_ref [OF assms(1)] by simp
  also have "\<dots> = (be32 ch 0, be32 ch 4)" unfolding v [symmetric] by (rule unrounds_rounds)
  finally show ?thesis unfolding w .
qed

text \<open>A published test vector, under the key that the constant turns into the bytes 0 to 15.\<close>

lemma xtea_known_answer:
  "XteaEncipher (map2 (XOR) [0, 1, 2, 3, 4, 5, 6, 7, 8, 9, 10, 11, 12, 13, 14, 15] ConstSk)
      [0x41, 0x42, 0x43, 0x44, 0x45, 0x46, 0x47, 0x48] = [0x49, 0x7d, 0xf3, 0xd0, 0x72, 0x61, 0x2c, 0xb5]"
  by code_simp

text \<open>C38: The answer to the challenge is the XTEA encipherment under the shared key. In the stage that answers, while less than five answers
  have been sent, the message 0x3D2 of the unit carries eight bytes from which the published algorithm, written down independently of the program, deciphers
  with the shared key of 16 bytes (combined with the constant) exactly the eight random bytes of the body controller; the stage then waits for the
  controller's verdict.\<close>

theorem challenge_answer_deciphers:
  assumes "a_stage a = STAGE_SENDENPTDATA" "a_cnt a < 5" "length dt = 8" "length (a_DataSk a) = 16"
  defines "a1 \<equiv> PP_identificat_rcvdata dt a"
  shows "\<exists>blk. PP_identificat_mainfunction e (a1, w)
      = (0, a1\<lparr>a_stage3_time := e_now e, a_cnt := a_cnt a + 1, a_stage := STAGE_WAITAUTHOKST\<rparr>,
         PP_can_send_identificat (Some blk) w)
    \<and> length blk = 8 \<and> ref_decipher (a_DataSk a) blk = (word_rcat (take 4 dt), word_rcat (drop 4 dt))"
  using assms encipher_ref [of "a_DataSk a" dt]
  by (intro exI [of _ "XteaEncipher (a_DataSk a) dt"])
    (simp add: PP_identificat_mainfunction_def PP_identificat_rcvdata_def, simp add: XteaEncipher_def case_prod_beta)

theorem challenge_answer_deciphers_witness:
  "\<exists>blk. length blk = 8 \<and> ref_decipher DataSk_init blk = (0x01020304, 0x05060708)"
  using challenge_answer_deciphers [of "rc_auth_init\<lparr>a_stage := STAGE_SENDENPTDATA\<rparr>" "[1, 2, 3, 4, 5, 6, 7, 8]" undefined undefined]
  by (auto simp: rc_auth_init_def DataSk_init_def word_rcat_def)

section \<open>The wake time\<close>

text \<open>Minutes since the beginning of the week, Monday at midnight, and the distance to the next occurrence.\<close>

definition wake_now :: "rc_env \<Rightarrow> int" where
  "wake_now e = int (localweekToAlgoweek (e_week e)) * 1440 + uint (e_hour e) * 60 + uint (e_min e)"

definition wake_dist :: "rc_env \<Rightarrow> u8 \<Rightarrow> u8 \<Rightarrow> nat \<Rightarrow> int" where
  "wake_dist e h m d = (int d * 1440 + uint h * 60 + uint m - wake_now e) mod 10080"

definition wake_days :: "u8 \<Rightarrow> nat set" where "wake_days period = {d. d < 7 \<and> wake_mask d AND period \<noteq> 0}"

definition wake_clock :: "rc_env \<Rightarrow> bool" where
  "wake_clock e = (e_week e < 7 \<and> uint (e_hour e) < 24 \<and> uint (e_min e) < 60)"

lemma algoweek: "d < 7 \<Longrightarrow> localweekToAlgoweek d < 7"
proof -
  have "\<forall>d\<in>set [0..<7]. localweekToAlgoweek d < 7" by (simp add: upt_rec localweekToAlgoweek_def)
  then show "d < 7 \<Longrightarrow> ?thesis" by simp
qed

lemma mod_week: "0 \<le> x \<Longrightarrow> x < 10080 \<Longrightarrow> x = y \<or> x = y + 10080 \<Longrightarrow> x = y mod 10080" for x y :: int
  by (metis mod_add_self2 mod_pos_pos_trivial)

lemma wake_minutes_mod:
  assumes "t < 7" "d < 7" "0 \<le> H" "H < 24" "0 \<le> M" "M < 60" "0 \<le> h" "h < 24" "0 \<le> m" "m < 60"
  shows "wake_minutes t H M d h m = (int d * 1440 + h * 60 + m - (int t * 1440 + H * 60 + M)) mod 10080"
proof (rule mod_week)
  note a = assms(3-)
  have t: "0 \<le> int t" "int t \<le> 6" "0 \<le> int d" "int d \<le> 6" using assms(1,2) by linarith+
  consider "d < t" "int d + 1 \<le> int t" | "d = t" "H > h" | "d = t" "H = h" | "d = t" "H < h" | "t < d" "int t + 1 \<le> int d"
    by linarith
  note c = this
  have "0 \<le> wake_minutes t H M d h m \<and> wake_minutes t H M d h m < 10080
      \<and> (wake_minutes t H M d h m = int d * 1440 + h * 60 + m - (int t * 1440 + H * 60 + M)
         \<or> wake_minutes t H M d h m = int d * 1440 + h * 60 + m - (int t * 1440 + H * 60 + M) + 10080)"
  proof (cases rule: c)
    case 1
    then have "wake_minutes t H M d h m = int d * 1440 + h * 60 + m - (int t * 1440 + H * 60 + M) + 10080"
      by (simp add: wake_minutes_def)
    then show ?thesis using a t 1 by (intro conjI disjI2) linarith+
  next
    case 2
    then have "wake_minutes t H M d h m = int d * 1440 + h * 60 + m - (int t * 1440 + H * 60 + M) + 10080"
      by (simp add: wake_minutes_def)
    then show ?thesis using a t 2 by (intro conjI disjI2) linarith+
  next
    case 3
    then have "wake_minutes t H M d h m = (if m < M then m - M + 10080 else m - M)" by (simp add: wake_minutes_def)
    then show ?thesis using a t 3 by (cases "m < M") auto
  next
    case 4
    then have "wake_minutes t H M d h m = int d * 1440 + h * 60 + m - (int t * 1440 + H * 60 + M)"
      by (simp add: wake_minutes_def)
    then show ?thesis using a t 4 by (intro conjI disjI1) linarith+
  next
    case 5
    then have "wake_minutes t H M d h m = int d * 1440 + h * 60 + m - (int t * 1440 + H * 60 + M)"
      by (simp add: wake_minutes_def)
    then show ?thesis using a t 5 by (intro conjI disjI1) linarith+
  qed
  then show "0 \<le> wake_minutes t H M d h m" "wake_minutes t H M d h m < 10080"
    "wake_minutes t H M d h m = int d * 1440 + h * 60 + m - (int t * 1440 + H * 60 + M)
       \<or> wake_minutes t H M d h m = int d * 1440 + h * 60 + m - (int t * 1440 + H * 60 + M) + 10080" by blast+
qed

lemma wake_minutes_dist:
  assumes "wake_clock e" "uint h < 24" "uint m < 60" "d < 7"
  shows "wake_minutes (localweekToAlgoweek (e_week e)) (uint (e_hour e)) (uint (e_min e)) d (uint h) (uint m) = wake_dist e h m d"
  using assms unfolding wake_dist_def wake_now_def wake_clock_def by (intro wake_minutes_mod) (simp_all add: algoweek)

text \<open>The loops over the days and over the bookings keep the smallest value, with 0 for none.\<close>

definition least_or_0 :: "int set \<Rightarrow> int" where "least_or_0 S = (if S = {} then 0 else Min S)"

lemma fold_low:
  assumes "\<And>x. x \<in> set xs \<Longrightarrow> P x \<Longrightarrow> 0 < t x" "finite S" "\<And>y. y \<in> S \<Longrightarrow> 0 < y"
  shows "fold (\<lambda>x low. if P x then wake_low low (t x) else low) xs (least_or_0 S) = least_or_0 (t ` {x \<in> set xs. P x} \<union> S)"
  using assms
proof (induction xs arbitrary: S)
  case (Cons x xs)
  show ?case
  proof (cases "P x")
    case True
    have pos: "0 < t x" using Cons.prems(1) True by simp
    have low: "wake_low (least_or_0 S) (t x) = least_or_0 (insert (t x) S)"
    proof (cases "S = {}")
      case False
      then have "Min S \<in> S" using Cons.prems(2) by simp
      then have "0 < Min S" by (rule Cons.prems(3))
      moreover have "least_or_0 (insert (t x) S) = min (t x) (Min S)" using False Cons.prems(2) by (simp add: least_or_0_def)
      moreover have "least_or_0 S = Min S" using False by (simp add: least_or_0_def)
      ultimately show ?thesis unfolding wake_low_def by (auto simp: min_def)
    qed (simp add: wake_low_def least_or_0_def)
    have "fold (\<lambda>x low. if P x then wake_low low (t x) else low) xs (least_or_0 (insert (t x) S))
        = least_or_0 (t ` {x \<in> set xs. P x} \<union> insert (t x) S)"
      using Cons.prems pos by (intro Cons.IH) auto
    moreover have "t ` {y \<in> set (x # xs). P y} \<union> S = t ` {x \<in> set xs. P x} \<union> insert (t x) S" using True by auto
    ultimately show ?thesis using True low by simp
  next
    case False
    then have "{y \<in> set (x # xs). P y} = {y \<in> set xs. P y}" by auto
    then show ?thesis using False Cons.IH [of S] Cons.prems by simp
  qed
qed simp

text \<open>One booking: its days, as long as it is not due in this very minute.\<close>

definition wake_ok :: "rc_env \<Rightarrow> u8 \<Rightarrow> u8 \<Rightarrow> u8 \<Rightarrow> bool" where
  "wake_ok e period h m = (uint h < 24 \<and> uint m < 60 \<and> wake_days period \<noteq> {} \<and> (\<forall>d\<in>wake_days period. wake_dist e h m d \<noteq> 0))"

definition wake_dists :: "rc_env \<Rightarrow> u8 \<Rightarrow> u8 \<Rightarrow> u8 \<Rightarrow> int set" where
  "wake_dists e period h m = wake_dist e h m ` wake_days period"

lemma finite_wake_dists [simp]: "finite (wake_dists e period h m)"
  by (simp add: wake_dists_def wake_days_def)

lemma wake_dists_pos: "wake_ok e period h m \<Longrightarrow> y \<in> wake_dists e period h m \<Longrightarrow> 0 < y"
  by (auto simp: wake_ok_def wake_dists_def wake_dist_def order_le_neq_trans [OF pos_mod_sign])

lemma waketime_least:
  assumes "wake_clock e" "wake_ok e period h m"
  shows "PP_waketime_to_min e period h m = Min (wake_dists e period h m)"
proof -
  define P where "P = (\<lambda>d. wake_mask d AND period \<noteq> 0)"
  have step: "wake_week_step e period h m d low = (if P d then wake_low low (wake_dist e h m d) else low)"
    if "d \<in> set [0..<7]" for d low
    using that assms wake_minutes_dist [of e h m d]
    by (simp add: wake_week_step_def P_def wake_low_def wake_ok_def Let_def)
  have days: "{d \<in> set [0..<7]. P d} = wake_days period" by (auto simp: wake_days_def P_def)
  have "PP_waketime_to_min e period h m = fold (\<lambda>d low. if P d then wake_low low (wake_dist e h m d) else low) [0..<7] (least_or_0 {})"
    unfolding PP_waketime_to_min_def by (simp only: least_or_0_def simp_thms if_True) (rule fold_cong; use step in auto)
  also have "\<dots> = least_or_0 (wake_dist e h m ` {d \<in> set [0..<7]. P d} \<union> {})"
    using assms(2) wake_dists_pos [OF assms(2)] days by (intro fold_low) (auto simp: wake_dists_def)
  also have "\<dots> = Min (wake_dists e period h m)"
    using assms(2) unfolding days by (simp add: least_or_0_def wake_dists_def wake_ok_def)
  finally show ?thesis .
qed

text \<open>All the bookings: the distances of the air conditioning's and the charge's, and the update's own time.\<close>

definition wake_all :: "rc_env \<Rightarrow> rc_pwr \<Rightarrow> rc_chg \<Rightarrow> int set" where
  "wake_all e p g = (\<Union>b\<in>{b \<in> set (p_ac_book p). b_validFlg b}. wake_dists e (b_period b) (b_hour b) (b_min b))
     \<union> (if k_validFlg (g_book g) then wake_dists e (k_period (g_book g)) (k_hour (g_book g)) (k_min (g_book g)) else {})
     \<union> (if e_fotaWake e = 0 then {} else {e_fotaWake e})"

definition wake_all_ok :: "rc_env \<Rightarrow> rc_pwr \<Rightarrow> rc_chg \<Rightarrow> bool" where
  "wake_all_ok e p g = (wake_clock e \<and> 0 \<le> e_fotaWake e
     \<and> (\<forall>b\<in>set (p_ac_book p). b_validFlg b \<longrightarrow> wake_ok e (b_period b) (b_hour b) (b_min b))
     \<and> (k_validFlg (g_book g) \<longrightarrow> wake_ok e (k_period (g_book g)) (k_hour (g_book g)) (k_min (g_book g))))"

lemma wake_ok_Min: "wake_ok e period h m \<Longrightarrow> 0 < Min (wake_dists e period h m) \<and> wake_dists e period h m \<noteq> {}"
proof
  assume ok: "wake_ok e period h m"
  then show ne: "wake_dists e period h m \<noteq> {}" by (simp add: wake_ok_def wake_dists_def)
  show "0 < Min (wake_dists e period h m)"
    using ne Min_in [of "wake_dists e period h m"] by (intro wake_dists_pos [OF ok]) simp
qed

lemma Min_UNION: "finite A \<Longrightarrow> A \<noteq> {} \<Longrightarrow> (\<And>a. a \<in> A \<Longrightarrow> finite (F a) \<and> F a \<noteq> {}) \<Longrightarrow> Min ((\<lambda>a. Min (F a)) ` A) = Min (\<Union> (F ` A))"
  for F :: "'a \<Rightarrow> int set"
proof (induction A rule: finite_ne_induct)
  case (insert x A)
  then have "Min (\<Union> (F ` insert x A)) = min (Min (F x)) (Min (\<Union> (F ` A)))"
    by (simp add: Min_Un) 
  then show ?case using insert by simp
qed simp

lemma ac_waketime_least:
  assumes "wake_all_ok e p g"
  defines "B \<equiv> {b \<in> set (p_ac_book p). b_validFlg b}"
  shows "PP_ACCtrl_waketime e p = least_or_0 (\<Union>b\<in>B. wake_dists e (b_period b) (b_hour b) (b_min b))"
proof -
  define t where "t = (\<lambda>b :: ac_booking. PP_waketime_to_min e (b_period b) (b_hour b) (b_min b))"
  have t: "t b = Min (wake_dists e (b_period b) (b_hour b) (b_min b))" "0 < t b"
      "wake_dists e (b_period b) (b_hour b) (b_min b) \<noteq> {}" if "b \<in> B" for b
  proof -
    have ok: "wake_clock e" "wake_ok e (b_period b) (b_hour b) (b_min b)"
      using that assms(1) by (auto simp: B_def wake_all_ok_def)
    show "t b = Min (wake_dists e (b_period b) (b_hour b) (b_min b))" "0 < t b"
      "wake_dists e (b_period b) (b_hour b) (b_min b) \<noteq> {}"
      using waketime_least [OF ok] wake_ok_Min [OF ok(2)] by (simp_all add: t_def)
  qed
  have "PP_ACCtrl_waketime e p = fold (\<lambda>b low. if b_validFlg b then wake_low low (t b) else low) (p_ac_book p) (least_or_0 {})"
    unfolding PP_ACCtrl_waketime_def t_def least_or_0_def by (simp only: simp_thms if_True)
  also have "\<dots> = least_or_0 (t ` B \<union> {})"
    unfolding B_def by (rule fold_low) (use t(2) in \<open>auto simp: B_def\<close>)
  also have "\<dots> = least_or_0 (\<Union>b\<in>B. wake_dists e (b_period b) (b_hour b) (b_min b))"
  proof (cases "B = {}")
    case False
    then have ne: "(\<Union>b\<in>B. wake_dists e (b_period b) (b_hour b) (b_min b)) \<noteq> {}" using t(3) by blast
    have "Min (t ` B) = Min ((\<lambda>b. Min (wake_dists e (b_period b) (b_hour b) (b_min b))) ` B)"
      using t(1) by (metis (mono_tags, lifting) image_cong)
    also have "\<dots> = Min (\<Union>b\<in>B. wake_dists e (b_period b) (b_hour b) (b_min b))"
      using False t(3) by (intro Min_UNION) (auto simp: B_def)
    finally show ?thesis unfolding least_or_0_def using False ne by (simp only: Un_empty_right image_is_empty if_False)
  qed (simp add: least_or_0_def)
  finally show ?thesis .
qed

text \<open>C37: The wake time the MCU is told is the time to the next booking. With the clock and the bookings in range, at least one weekday in
  every valid booking (one without a weekday, which the code takes for a single booking, makes the result 0) and no
  booking due in the very minute, the result of \<^verbatim>\<open>pp_get_low_waketime\<close> is the smallest of the distances, each taken
  modulo a week, from now to a weekday, hour and minute of a valid booking of the air conditioning or of the charge, and
  of the update's own wake time; it is 0 exactly when there is none of them.\<close>

theorem wake_time_is_next:
  assumes "wake_all_ok e p g"
  shows "pp_get_low_waketime e p g = (if wake_all e p g = {} then 0 else Min (wake_all e p g))"
proof -
  define A where "A = (\<Union>b\<in>{b \<in> set (p_ac_book p). b_validFlg b}. wake_dists e (b_period b) (b_hour b) (b_min b))"
  define C where "C = (if k_validFlg (g_book g) then wake_dists e (k_period (g_book g)) (k_hour (g_book g)) (k_min (g_book g)) else {})"
  define F where "F = (if e_fotaWake e = 0 then {} else {e_fotaWake e})"
  have fin: "finite A" "finite C" "finite F" by (simp_all add: A_def C_def F_def)
  have pos: "\<forall>y\<in>A. 0 < y" "\<forall>y\<in>C. 0 < y" "\<forall>y\<in>F. 0 < y"
  proof -
    show "\<forall>y\<in>A. 0 < y"
    proof
      fix y assume "y \<in> A"
      then obtain b where "b \<in> set (p_ac_book p)" "b_validFlg b" "y \<in> wake_dists e (b_period b) (b_hour b) (b_min b)"
        by (auto simp: A_def)
      with assms show "0 < y" by (intro wake_dists_pos [of e "b_period b" "b_hour b" "b_min b"]) (auto simp: wake_all_ok_def)
    qed
    show "\<forall>y\<in>C. 0 < y"
    proof
      fix y assume "y \<in> C"
      with assms show "0 < y"
        by (intro wake_dists_pos [of e "k_period (g_book g)" "k_hour (g_book g)" "k_min (g_book g)"])
          (simp_all add: C_def wake_all_ok_def split: if_splits)
    qed
    show "\<forall>y\<in>F. 0 < y" using assms by (simp add: F_def wake_all_ok_def)
  qed
  have ac: "PP_ACCtrl_waketime e p = least_or_0 A" unfolding A_def by (rule ac_waketime_least [OF assms])
  have chg: "PP_ChargeCtrl_waketime e g = least_or_0 C"
  proof (cases "k_validFlg (g_book g)")
    case True
    then have ok: "wake_clock e" "wake_ok e (k_period (g_book g)) (k_hour (g_book g)) (k_min (g_book g))"
      using assms by (simp_all add: wake_all_ok_def)
    show ?thesis using True waketime_least [OF ok] wake_ok_Min [OF ok(2)]
      by (simp add: PP_ChargeCtrl_waketime_def wake_low_def C_def least_or_0_def Let_def)
  qed (simp add: PP_ChargeCtrl_waketime_def C_def least_or_0_def)
  have fota: "e_fotaWake e = least_or_0 F" by (simp add: F_def least_or_0_def)
  have un: "least_or_0 (S \<union> T) = (if S = {} then least_or_0 T else if T = {} then least_or_0 S
      else min (least_or_0 S) (least_or_0 T))" if "finite S" "finite T" for S T
    using that by (simp add: least_or_0_def Min_Un)
  have pos0: "S \<noteq> {} \<Longrightarrow> 0 < least_or_0 S" if "finite S" "\<forall>y\<in>S. 0 < y" for S
    using that Min_in [of S] by (simp add: least_or_0_def)
  have e0: "least_or_0 {} = 0" by (simp add: least_or_0_def)
  have "pp_get_low_waketime e p g = least_or_0 (A \<union> C \<union> F)"
  proof -
    have low: "pp_get_low_waketime e p g = (if a = 0 then (if c \<noteq> 0 then (if c > f \<and> f \<noteq> 0 then f else c) else f)
        else (let low = (if a > c \<and> c \<noteq> 0 then c else a) in if low > f \<and> f \<noteq> 0 then f else low))"
      if "a = least_or_0 A" "c = least_or_0 C" "f = least_or_0 F" for a c f
      unfolding pp_get_low_waketime_def ac chg fota Let_def that by (rule refl)
    show ?thesis
      using pos0 [OF fin(1) pos(1)] pos0 [OF fin(2) pos(2)] pos0 [OF fin(3) pos(3)]
      by (cases "A = {}"; cases "C = {}"; cases "F = {}")
        (simp_all add: low [OF refl refl refl] un fin e0 Let_def min_def)
  qed
  moreover have "wake_all e p g = A \<union> C \<union> F" by (simp add: wake_all_def A_def C_def F_def)
  ultimately show ?thesis by (simp add: least_or_0_def)
qed

definition wake_example_pwr :: rc_pwr where
  "wake_example_pwr = rc_pwr_init\<lparr>p_ac_book :=
     [\<lparr>b_validFlg = True, b_id = 7, b_hour = 8, b_min = 0, b_period = 0xC0, b_eventId = 1\<rparr>,
      \<lparr>b_validFlg = True, b_id = 8, b_hour = 7, b_min = 30, b_period = 0x90, b_eventId = 2\<rparr>]
     @ replicate 8 \<lparr>b_validFlg = False, b_id = 0, b_hour = 0, b_min = 0, b_period = 0, b_eventId = 0\<rparr>\<rparr>"

lemma wake_days_code: "wake_days period = set (filter (\<lambda>d. wake_mask d AND period \<noteq> 0) [0..<7])"
  by (auto simp: wake_days_def)

text \<open>Tuesday, 09:00, bookings on Mondays at 08:00 and Wednesdays at 07:30: the unit wakes in 22 hours and a half.\<close>

theorem wake_time_is_next_witness:
  "pp_get_low_waketime ((env_at 0)\<lparr>e_week := 2, e_hour := 9\<rparr>) wake_example_pwr rc_chg_init = 1350"
proof -
  have "[0..<7] = [0, 1, 2, 3, 4, 5, 6 :: nat]" by code_simp
  then have dists: "wake_days 0xC0 = {0}" "wake_days 0x90 = {2}" by (simp_all add: wake_days_code wake_mask_def)
  define r1 where "r1 = \<lparr>b_validFlg = True, b_id = 7, b_hour = 8, b_min = 0, b_period = 0xC0, b_eventId = 1\<rparr>"
  define r2 where "r2 = \<lparr>b_validFlg = True, b_id = 8, b_hour = 7, b_min = 30, b_period = 0x90, b_eventId = 2\<rparr>"
  have book: "{b \<in> set (p_ac_book wake_example_pwr). b_validFlg b} = {r1, r2}"
    unfolding wake_example_pwr_def r1_def r2_def by auto
  have nc: "\<not> k_validFlg (g_book rc_chg_init)" by (simp add: rc_chg_init_def)
  have now: "wake_now ((env_at 0)\<lparr>e_week := 2, e_hour := 9\<rparr>) = 1980"
    by (simp add: wake_now_def env_at_def localweekToAlgoweek_def)
  have f: "e_fotaWake ((env_at 0)\<lparr>e_week := 2, e_hour := 9\<rparr>) = 0" by (simp add: env_at_def)
  have "wake_ok ((env_at 0)\<lparr>e_week := 2, e_hour := 9\<rparr>) (b_period b) (b_hour b) (b_min b)"
    if "b \<in> {r1, r2}" for b
    using that by (auto simp: wake_ok_def dists wake_dist_def now r1_def r2_def)
  then have ok: "wake_all_ok ((env_at 0)\<lparr>e_week := 2, e_hour := 9\<rparr>) wake_example_pwr rc_chg_init"
    unfolding wake_all_ok_def using nc f book by (auto simp: wake_clock_def env_at_def)
  have "wake_all ((env_at 0)\<lparr>e_week := 2, e_hour := 9\<rparr>) wake_example_pwr rc_chg_init = {8580, 1350}"
    unfolding wake_all_def book using nc f by (auto simp: wake_dists_def dists wake_dist_def now r1_def r2_def)
  then show ?thesis using wake_time_is_next [OF ok] by simp
qed

section \<open>Requests during an update\<close>

lemma lock_in_update:
  assumes "4 \<in> held flag" "obj \<in> {5..14} \<union> {16}"
  shows "setPP_lock_odcmtxlock flag obj = (254, flag)"
proof -
  have obj: "4 < obj" "obj < 17" "obj \<noteq> 15" using assms(2) by auto
  then have "\<not> lock_grant (held flag) obj" "held flag \<noteq> {}" "lock_error (held flag) obj = PP_LOCK_ERR_FOTAUPDATE"
    using assms(1) by (auto simp: lock_grant_def lock_error_def)
  then show ?thesis using obj lock_refines [of obj flag] by simp
qed

lemma locked_in_update:
  assumes "4 \<in> held (w_lock (snd cw))" "obj \<in> {5..14} \<union> {16}"
  shows "rc_locked obj f cw = (254, cw)"
  using lock_in_update [OF assms] by (cases cw) (simp add: rc_locked_def rc_set_lock_def)

lemma ask_refused [simp]:
  "f (r_door s, r_w s) = (r, r_door s, r_w s) \<Longrightarrow> ask_door f s = (r, s)"
  "f (r_sunroof s, r_w s) = (r, r_sunroof s, r_w s) \<Longrightarrow> ask_sunroof f s = (r, s)"
  "f (r_autodoor s, r_w s) = (r, r_autodoor s, r_w s) \<Longrightarrow> ask_autodoor f s = (r, s)"
  "f (r_search s, r_w s) = (r, r_search s, r_w s) \<Longrightarrow> ask_search f s = (r, s)"
  "f (r_forbid s, r_w s) = (r, r_forbid s, r_w s) \<Longrightarrow> ask_forbid f s = (r, s)"
  "f (r_camera s, r_w s) = (r, r_camera s, r_w s) \<Longrightarrow> ask_camera f s = (r, s)"
  "g (r_pwr s, r_w s) = (r, r_pwr s, r_w s) \<Longrightarrow> ask_pwr g s = (r, s)"
  "h (r_chg s, r_w s) = (r, r_chg s, r_w s) \<Longrightarrow> ask_chg h s = (r, s)"
  by (simp_all add: ask_defs)

lemmas request_defs = SetPP_doorLockCtrl_Request_def SetPP_sunroofctrl_Request_def SetPP_autodoorCtrl_Request_def
  SetPP_searchvehicle_Request_def SetPP_CameraCtrl_Request_def SetPP_ACCtrl_Request_def SetPP_seatheating_Request_def
  SetPP_ChargeCtrl_Request_def SetPP_startengine_Request_def SetPP_startforbid_Request_def

lemma dispatch_in_update:
  "4 \<in> held (w_lock (r_w s)) \<Longrightarrow> rc_tsp_dispatch e m s = (254, s) \<or> rc_tsp_dispatch e m s = (0, s)"
  unfolding rc_tsp_dispatch_def Let_def by (simp add: request_defs locked_in_update)

text \<open>C39: No request of the server or of the phone reaches a module while an update runs. With the update holding its lock, a
  message of the server that is not a booking answer leaves every module, the control words and the lock unchanged: the only trace is the event number and the
  request type it may leave behind, and a report that the request is too old or, when the remote control is not enabled, that it is not. So does a request
  of the phone, except for the status query and the start authorisation, which has no lock. With the remote control enabled the server
  is not told of the refusal, and the phone never is: the lock answers 254, the program compares with -2.\<close>

theorem update_refuses_requests:
  fixes m :: rc_msg
  assumes "4 \<in> held (w_lock (r_w s))"
  defines "s' \<equiv> s\<lparr>r_eventid := m_eventId m, r_reqType := m_reqType m\<rparr>"
  shows "(m_mID m \<noteq> 5 \<longrightarrow> PP_rmtCtrl_do_rcvMsg e (Some m) s
      \<in> (if m_expTime m \<noteq> - 1 \<and> m_expTime m < e_stamp e then {s, rc_fail_report e PP_RMTCTRL_INSTRTIMEOUT s}
         else if e_enabled e then {s, s'} else {s, s', rc_fail_report e PP_RMTCTRL_NOTENABLE s'}))
    \<and> (obj \<notin> {8, 0x0A} \<longrightarrow> PP_rmtCtrl_BluetoothCtrlReq e' obj cmd s = s)"
proof -
  have "4 \<in> held (w_lock (r_w s'))" using assms(1) by (simp add: s'_def)
  note d = dispatch_in_update [OF this, of e m]
  have "m_mID m \<noteq> 5 \<longrightarrow> PP_rmtCtrl_do_rcvMsg e (Some m) s
      \<in> (if m_expTime m \<noteq> - 1 \<and> m_expTime m < e_stamp e then {s, rc_fail_report e PP_RMTCTRL_INSTRTIMEOUT s}
         else if e_enabled e then {s, s'} else {s, s', rc_fail_report e PP_RMTCTRL_NOTENABLE s'})"
    using d by (auto simp: PP_rmtCtrl_do_rcvMsg_def PP_rmtCtrl_RxMsgHandle_def Let_def s'_def)
  moreover have "PP_rmtCtrl_BluetoothCtrlReq e' obj cmd s = s" if "obj \<notin> {8, 0x0A}"
    using that assms(1) unfolding PP_rmtCtrl_BluetoothCtrlReq_def Let_def
    by (cases "obj = 3"; cases "obj = 4"; cases "obj = 5"; cases "obj = 6"; cases "obj = 7")
      (simp_all add: request_defs locked_in_update)
  ultimately show ?thesis by blast
qed

text \<open>An update is running, the server asks to open the door, then the phone does.\<close>

theorem update_refuses_requests_witness:
  "let s = (PP_rmtCtrl_init None)\<lparr>r_w := (rc_world_init None)\<lparr>w_lock := 0x10\<rparr>\<rparr>;
       m = \<lparr>m_sign = (0x2A, 0x2A), m_rlen = 40, m_opera = 2, m_expTime = - 1, m_aID = (0x31, 0x31, 0x30), m_mID = 1,
            m_eventId = 9, m_reqType = 1, m_params = [], m_rvcResult = 0\<rparr>
   in w_out (r_w (PP_rmtCtrl_do_rcvMsg (env_at 0) (Some m) s)) = [] \<and> PP_rmtCtrl_BluetoothCtrlReq (env_at 0) 3 2 s = s"
proof -
  let ?s = "(PP_rmtCtrl_init None)\<lparr>r_w := (rc_world_init None)\<lparr>w_lock := 0x10\<rparr>\<rparr>"
  have l: "4 \<in> held (w_lock (r_w ?s))" by (simp add: held_def bit_numeral_rec)
  have o: "w_out (r_w ?s) = []" by (simp add: rc_world_init_def)
  show ?thesis unfolding Let_def
    using update_refuses_requests [OF l, of "\<lparr>m_sign = (0x2A, 0x2A), m_rlen = 40, m_opera = 2, m_expTime = - 1,
        m_aID = (0x31, 0x31, 0x30), m_mID = 1, m_eventId = 9, m_reqType = 1, m_params = [], m_rvcResult = 0\<rparr>" "env_at 0" 3 "env_at 0" 2] o
    by (auto simp: env_at_def)
qed

end
