(* ===== verification/Spec2Isabelle.thy ===== *)
theory Spec2Isabelle
  imports MsgQueues Lock FaultRun Pm ScomTl SockLink GbService RcLive RcFacts
begin

text \<open>
  A verification development for the software of a telematics control unit: the C program under \<^verbatim>\<open>src/\<close>
  that runs on the communication processor (MPU) of a vehicle's T-Box, talks to the vehicle processor
  (MCU) over SPI, to the manufacturer's server (TSP) over a socket, and to a diagnostic tester through
  the MCU's CAN.

  \<^bold>\<open>The program and the theories.\<close> Bytes reach the program in pieces. \<^verbatim>\<open>mid/msg/msg_parse.c\<close> cuts them
  into frames (theory \<open>MsgParse\<close>), \<^verbatim>\<open>mid/ringbuffer/ring_buffer.c\<close> stores bytes for later (\<open>RingBuffer\<close>),
  \<^verbatim>\<open>app/base/scom/scom_tl.c\<close> builds the transport layer to the MCU on both (\<open>ScomTl\<close>). Messages of the TSP
  wait in the flag queues of \<^verbatim>\<open>sockproxy_rxdata.c\<close> and \<^verbatim>\<open>PrvtProt_queue.c\<close>, AT commands in
  \<^verbatim>\<open>app/base/at/at_queue.c\<close> (\<open>MsgQueues\<close>). The diagnostic server under \<^verbatim>\<open>app/base/uds\<close> is spread over
  \<open>UdsBase\<close> (state, timers, responses), \<open>UdsSecurity\<close> (security access) and \<open>UdsServer\<close> (services, tables,
  dispatch, the thread); the fault memory behind it (\<^verbatim>\<open>uds_diag.c\<close>, the tests, the supervision of the CAN nodes, the
  reports) is \<open>FaultMem\<close>, with \<open>FaultFacts\<close> and \<open>FaultRun\<close> on what it does. \<open>Lock\<close> is the lock word that keeps diagnosis, update and remote control apart
  (\<^verbatim>\<open>PrvtProt_lock.c\<close>). \<open>Pm\<close> is the power management of \<^verbatim>\<open>app/base/pm\<close>. The socket that all protocols of the TSP
  share is \<^verbatim>\<open>app/interface/hozon/sockproxy/sockproxy.c\<close>: \<open>SockBase\<close> holds its state, \<open>SockRx\<close> the parser that sorts the received
  bytes into the queues of the protocols, \<open>TxNodes\<close> the nodes through which the writers say what kind of message they queue and learn
  its outcome (\<^verbatim>\<open>PP_getIdleNode\<close> and its relatives, the callbacks; a block of the pool holds the address of its node), \<open>SockTx\<close> the sending thread, \<open>SockLink\<close> the connection and the threads
  together. The sending thread takes its blocks from the pool \<^verbatim>\<open>sockproxy_txdata.c\<close> (\<open>TxPool\<close>), which is built
  on the circular list of \<^verbatim>\<open>include/list.h\<close> (\<open>LinkList\<close>, an explicit store of nodes; \<open>ListPool\<close>, blocks that are
  each on one of several such lists). The mandatory reporting of the vehicle (GB/T 32960) is
  \<^verbatim>\<open>app/interface/gb32960\<close>: the pool of report packs with the ring that keeps the last half minute before a fault
  (\<^verbatim>\<open>gb32960_data.c\<close>: \<open>GbPool\<close>, \<open>GbReports\<close>), the messages, the parser and the thread of the protocol
  (\<^verbatim>\<open>gb32960_prot.c\<close>: \<open>GbFrame\<close> and \<open>GbProt\<close> hold the definitions, \<open>GbParse\<close>, \<open>GbSession\<close>, \<open>GbThread\<close> and
  \<open>GbService\<close> what is shown of them). The CAN callback fills the pool, the thread empties it into the socket
  proxy and receives from the proxy's queue. Remote control is
  \<^verbatim>\<open>PrvtProtocol/remoteControl\<close>: \<open>RcBase\<close> holds what its modules share (the vehicle signals, the control words of
  \<^verbatim>\<open>PP_canSend.c\<close>, the reports), \<open>RcCtrl\<close> the modules with one request and one answer (door, tailgate, search, sunroof,
  start prohibition, camera, start by phone), \<open>RcPower\<close> high voltage, air conditioning and seats, which call each other,
  \<open>RcCharge\<close> the charge, \<open>RcWake\<close> the wake time, \<open>RcAuth\<close> the authentication to the body controller, \<open>RcMain\<close> the
  sequence of \<^verbatim>\<open>PP_rmtCtrl.c\<close>, the requests and the runs (\<open>rc_do\<close>, \<open>rc_reach\<close>); \<open>RcFields\<close>, \<open>RcQuiet\<close>, \<open>RcSafe\<close>,
  \<open>RcRun\<close>, \<open>RcLive\<close> and \<open>RcFacts\<close> hold what is shown of them. \<open>Prelude\<close> holds the types of the
  machine integers, the copy of a block into a buffer and the lemmas all of them use.

  \<^bold>\<open>How the code is read.\<close> A struct is a record, an enumeration a datatype or the constants of the
  header, an unsigned integer of the C program a word of its width, an \<open>int\<close> that cannot overflow an
  integer. A function that changes static variables takes and returns the record that holds them; the
  static variables inside functions are fields of it too. Buffers are lists of bytes and keep their
  length; what lies behind the valid bytes stays there, as in the C code. Everything a module hands to another one, to a
  driver or to the system is appended to a list (\<open>out\<close>, \<open>tl_out\<close>, \<open>pm_out\<close>, \<open>sp_calls\<close>, \<open>gb_calls\<close>, \<open>w_out\<close>) or, when the code
  looks at an answer, an input of the environment records \<open>uds_env\<close>, \<open>pm_env\<close>, \<open>rx_env\<close>, \<open>tx_env\<close>, \<open>gb_env\<close>, \<open>rc_env\<close> (the clock and every signal
  read once in a turn). Mutexes are left out: an operation
  is a step, and the runs below are arbitrary sequences of steps.

  \<^bold>\<open>What is shown.\<close>
  \<^item> \<open>RingBuffer\<close>: positions that run over \<open>2 ^ 32\<close> and a buffer of a power of two behave as a byte queue; the
    interface \<open>byte_fifo\<close> carries the induction over sequences of operations. Reading at an offset
    misbehaves once the read position has passed the size.
  \<^item> \<open>MsgParse\<close>: escaping is a code, an encoded message decodes to its bytes, and both decoders, which work in
    place on their buffer, are the same automaton \<open>frames\<close> on the bytes (interface \<open>frame_decoder\<close>), so a
    stream is delivered complete and in order however the reads cut it.
  \<^item> \<open>MsgQueues\<close>: both kinds of queues are instances of the interface \<open>msg_queue\<close>, a bounded queue; the flag
    queue only as long as it is never written when full.
  \<^item> \<open>Lock\<close>: the code's bit tests refine a specification over the set of objects held, and keep the exclusion.
  \<^item> \<open>UdsSecurity\<close>, \<open>UdsServer\<close>: the code refines the automaton \<open>sa_spec\<close>; from it follow the conditions for unlocking,
    the lockout and the invariant of every run.
  \<^item> \<open>FaultFacts\<close>, \<open>FaultRun\<close>: a scan over the byte buffer is, for each fault by itself, a step of a small automaton
    (\<open>entry_check\<close>); with the history of the tests of a fault, when it is confirmed, what its frozen frame is, what the
    reports answer, and that the stored copy is never behind unless the last write of the data store failed (\<open>last_write_ok\<close>; the result of a write is an
    input, the code ignores it).
  \<^item> \<open>Pm\<close>: the arrows of the state machine, the wakelock, when the unit falls asleep, the debounce and the
    bounded restart.
  \<^item> \<open>ScomTl\<close>: the frame buffer is large enough for every content, the data server serves every fragment.
    This theory adds that the served data crosses the link.
  \<^item> \<open>LinkList\<close>, \<open>TxPool\<close>: the pointer operations keep a circular list and act on it as \<open>@\<close>, \<open>#\<close> and \<open>tl\<close>; the
    pool hands the blocks out in the order they came in and never loses or doubles one.
  \<^item> \<open>SockRx\<close>: well-formed messages of both protocols reach their queues complete and in order however the reads
    cut them (interface \<open>receiver\<close>), and the streams for which this fails.
  \<^item> \<open>TxNodes\<close>, \<open>SockTx\<close>, \<open>SockLink\<close>: what a send does to the pool and to the shared nodes in every outcome; what is delivered, in runs of the writers and the
    sending thread; and the discipline of the connection in
    every run of the threads: open only with an address, and when it recovers from an error. A run in which a read overruns the receive buffer
    ends there (\<open>sock_step\<close> is \<open>None\<close>): the code then writes over the state of the connection.

  \<^item> \<open>GbPool\<close>, \<open>GbReports\<close>: the pointer operations on the report packs refine operations on lists of reports
    (\<open>gb_sim\<close>, the \<open>spec_\<close> functions); which reports a second, a fault and a new login produce, also when no pack is free.
  \<^item> \<open>GbParse\<close>: when the parser stays inside its buffer, and that messages in pieces are put together.
  \<^item> \<open>GbSession\<close>, \<open>GbThread\<close>, \<open>GbService\<close>: every turn of the thread that stays inside its receive buffer refines the abstract session \<open>session_turn\<close> (\<open>main_law\<close>), and a turn that takes nothing, or
    an entry that fits, from the queue comes to an end (\<open>main_total\<close>);
    the thread and the CAN side never hang and never lose a pack, in any interleaving, while the guard on the send buffer holds; the login from the bytes on the
    socket through \<open>SockRx\<close> and the queue; what sending a report does; how a session ends.
  \<^item> \<open>RcFields\<close>, \<open>RcQuiet\<close>, \<open>RcSafe\<close>, \<open>RcRun\<close>: which fields of the control words each module writes (\<open>rc_quiet\<close>: a step
    that moves nothing), and, for every run of all threads, that an actuator moves only after the body controller has
    accepted the answer to its challenge, not longer ago than the code says.
  \<^item> \<open>RcLive\<close>: a request that is accepted ends and is answered within its time-out, whatever the other threads do; one
    interface (\<open>rc_actuator\<close>) for the modules, a second (\<open>rc_served\<close>) for the thread that serves them.
  \<^item> \<open>RcFacts\<close>: the answer is deciphered by the published algorithm under the shared key, the wake time is the distance to the next booking, and what
    requests do during an update (with \<open>Lock\<close>).

  Several properties and lemmas state defects: a write into a full queue, the overread, the object without a bit
  in the lock word, the lost error codes, the length test with the factor 255, services without an index,
  the counter that wraps, the window and the single frame of the transport client, the failed wake check, the
  empty message that runs over the receive buffer, the kept message whose node is given away, the fault forgotten after a failed write, the suffix written behind its
  array, the messages lost when a read holds more than one, the message
  of the server that is longer than the buffer of the reporting protocol, the sunroof request that never ends, the
  refusal during an update that nobody is told of.

  \<^bold>\<open>Bounds.\<close> No definition uses fuel: the loops of the decoders recurse with the measure of the bytes left, the loops
  that follow pointers are \<open>partial_function (option)\<close> (\<open>None\<close> when they do not end) and are shown to return on
  lists that are in order, the others are structural. In \<open>GbPool\<close> the endless loop of the code for want of a pack, and
  in \<open>GbFrame\<close> and \<open>GbProt\<close> an access behind a buffer, are \<open>None\<close> as well; the suffix behind the array of the node numbers is a flag (\<open>nm_over\<close>). The decoders are shown for buffers below \<open>2 ^ 31\<close> bytes, the range of the C \<open>int\<close>;
  the data server for up to 512 KB, the size of its ring.

  \<^bold>\<open>What is not modelled.\<close> The routine control and the data identifier table of the
  diagnostic server are parameters (the getters of the five frozen identifiers are modelled). Of remote control, the vehicle state and the position in a status report, the ASN.1
  decoder (a message is given decoded), the shell commands that only print and the plain getters. Left out are
  the content of the reports (the encoders \<open>gb_data_save_\<close> of \<^verbatim>\<open>gb32960_data.c\<close> and the signal database they
  read: the bytes of a report are an input), the heartbeat, the call and the update parts of the private protocol,
  J1939, the AT parser, the upgrade and storage modules; the operating system wrappers under \<^verbatim>\<open>mid\<close>, which
  are input and output only; and the third-party code (zlib, minizip, the HTTP client, the Bluetooth
  stack, the ASN.1 runtime, MQTT, protobuf).
\<close>

section \<open>The data server and the link\<close>

lemma length_fragment: "length (fragment data k) \<le> 242"
  by (simp add: fragment_def)

lemma data_frame_ok_msg:
  "data_frame data k = dccp_frame (ok_msg (frame_ftype (last_fno data) k) (of_nat k) (fragment data k))"
  by (simp add: data_frame_def ok_msg_def)

lemma ok_msg_fragment:
  "hdr_ftype (ok_msg ft fno (fragment data k)) = ft" "hdr_fno (ok_msg ft fno (fragment data k)) = fno"
  "drop 6 (ok_msg ft fno (fragment data k)) = fragment data k"
  using ok_msg_fields [of "fragment data k"] length_fragment [of data k] by simp_all

text \<open>C10: When the data server answers a request for all frames and the bytes it sends reach the frame decoder
  of the other side, in reads of any size, the decoder delivers the frames numbered from zero with their
  types, and their payloads put together are the data.\<close>

theorem served_data_crosses_link:
  assumes server: "rb_wf (scom_tl_tx_rb s)" "unat (rb_size (scom_tl_tx_rb s)) = 524288"
      "scom_tl_status s \<noteq> SERVER_STARTED" "dev_open s" "tx_fun s"
    and data: "data \<noteq> []" "length data \<le> 524288" "last_fno data < unat fcnt"
    and start: "scom_tl_start_server s data (of_nat (length data)) = (0, s')"
    and sent: "tl_out (scom_tl_msg_proc s' (req_msg 0 fcnt)) = tl_out s @ sent"
    and decoder: "dec_ok d" "w_pos d = 0" "all_fit dec_feed dec_fits d reads" "feed_all dec_feed d reads = (d', got)"
    and link: "concat reads = concat sent"
  shows "map hdr_fno got = map of_nat [0..<Suc (last_fno data)]
    \<and> map hdr_ftype got = map (frame_ftype (last_fno data)) [0..<Suc (last_fno data)]
    \<and> concat (map (drop 6) got) = data"
proof -
  let ?ks = "[0..<Suc (last_fno data)]"
  let ?msg = "\<lambda>k. ok_msg (frame_ftype (last_fno data) k) (of_nat k) (fragment data k)"
  from start_server_serving [OF server(1-3) data(2)] start have s': "serving s' data"
    "s' = s\<lparr>scom_tl_tx_rb := scom_tl_tx_rb s', scom_tl_status := SERVER_STARTED\<rparr>" by auto
  from s'(2) have io: "tl_out s' = tl_out s" "dev_open s' = dev_open s" "tx_fun s' = tx_fun s"
    by (metis scom_tl.select_convs scom_tl.simps scom_tl.surjective scom_tl.update_convs)+
  have "min (unat fcnt) (Suc (last_fno data)) = Suc (last_fno data)" using data(3) by simp
  then have "sent = map (data_frame data) ?ks"
    using msg_proc_req [OF s'(1) data(1), of 0 fcnt] sent io server(4,5) by (simp del: upt_Suc)
  moreover have "map (data_frame data) ?ks = map dccp_frame (map ?msg ?ks)"
    by (simp add: data_frame_ok_msg del: upt_Suc)
  ultimately have "concat reads = concat (map dccp_frame (map ?msg ?ks))" using link by (simp only:)
  moreover have "kept (msg_buf d) (w_pos d) = None" using decoder(2) by (simp add: kept_def)
  ultimately have "got = map ?msg ?ks" using spi_dec.stream_delivered [OF decoder(1) _ decoder(3,4)] by blast
  then show ?thesis using fragments_concat [of data] by (simp add: ok_msg_fragment comp_def del: upt_Suc)
qed

theorem served_data_crosses_link_witness:
  "\<exists>s' sent d' got. scom_tl_start_server demo_tl [1, 2, 3] 3 = (0, s') \<and>
     tl_out (scom_tl_msg_proc s' (req_msg 0 1)) = sent \<and> feed_all dec_feed demo_dec [concat sent] = (d', got) \<and>
     concat (map (drop 6) got) = [1, 2, 3]"
proof -
  have srv: "rb_wf (scom_tl_tx_rb demo_tl)" "unat (rb_size (scom_tl_tx_rb demo_tl)) = 524288"
    "scom_tl_status demo_tl \<noteq> SERVER_STARTED" "dev_open demo_tl" "tx_fun demo_tl" "tl_out demo_tl = []"
    using demo_ring_wf by (simp_all add: demo_tl_def demo_ring_def)
  let ?data = "[1, 2, 3] :: bytes"
  have l: "last_fno ?data = 0" by (simp add: last_fno_def)
  from start_server_serving [OF srv(1-3), of ?data] obtain s' where s':
    "scom_tl_start_server demo_tl ?data 3 = (0, s')" "serving s' ?data"
    "s' = demo_tl\<lparr>scom_tl_tx_rb := scom_tl_tx_rb s', scom_tl_status := SERVER_STARTED\<rparr>" by auto
  from s'(3) have io: "tl_out s' = []" "dev_open s'" "tx_fun s'"
    by (metis srv(4-6) scom_tl.select_convs scom_tl.simps scom_tl.surjective scom_tl.update_convs)+
  have sent: "tl_out (scom_tl_msg_proc s' (req_msg 0 1)) = tl_out demo_tl @ [data_frame ?data 0]"
    using msg_proc_req [OF s'(2), of 0 1] io l srv(6) by simp
  obtain d' got where got: "feed_all dec_feed demo_dec [data_frame ?data 0] = (d', got)" by (rule prod.exhaust)
  have "length (data_frame ?data 0) \<le> 64"
    using length_dccp_frame [of "tl_hdr 3 (frame_ftype 0 0) 0 3 @ ?data"] by (simp add: data_frame_def fragment_def l)
  then have fit: "all_fit dec_feed dec_fits demo_dec [data_frame ?data 0]"
    by (simp add: dec_fits_def) (simp add: demo_dec_def)
  have "dec_ok demo_dec" "w_pos demo_dec = 0" by (simp_all add: demo_dec_def dec_ok_def kept_ok_def)
  from served_data_crosses_link [OF srv(1-5) _ _ _ _ sent this fit got] s'(1) l have
    "concat (map (drop 6) got) = ?data" by simp
  with s'(1) sent got srv(6) show ?thesis by simp
qed

end
